(* ===== verification/Prelude.thy ===== *)
theory Prelude
  imports Main "HOL-Library.Word" "HOL-Library.Sublist" "HOL-Library.Multiset"
begin

text \<open>
  What every component of the Model Hub shares: bytes and 32-bit words, JavaScript strings and
  errors, hexadecimal, decimal and UTF-8 text, slices of buffers, and the generic lemmas on them.

  Conventions of the whole development.
  \<^item> A \<open>Uint8Array\<close> or \<open>Buffer\<close> is a list of 8-bit words; a value that the code keeps in
    a \<open>Uint32Array\<close> or forces with \<open>>>> 0\<close> is a 32-bit word.
  \<^item> A JavaScript number that the code uses as a count, an offset or a size is a \<open>nat\<close> (an
    \<open>int\<close> where it can be negative); such numbers are exact below \<open>2 ^ 53\<close>.
  \<^item> A JavaScript string is a \<open>string\<close>: a list of code units below 256.
  \<^item> \<open>Unmodelled\<close> is not an error of the code: it marks an input on which the code goes on
    with values the model does not follow (a header whose numbers are text, for instance).
  \<^item> A function that may throw returns a value of \<open>'a result\<close>: \<open>Inl\<close> of the error
    thrown, or \<open>Inr\<close> of the value returned.
\<close>

unbundle bit_operations_syntax

named_theorems js_simps \<open>rewrite rules for text, hexadecimal and buffers\<close>

subsection \<open>Types\<close>

type_synonym byte = "8 word"
type_synonym bytes = "8 word list"
type_synonym u32 = "32 word"

datatype js_error =
    Error string
  | RangeError string
  | TypeError
  | SyntaxError
  | Unmodelled

type_synonym 'a result = "js_error + 'a"

text \<open>A throwing computation followed by another: the second runs only if the first returned.\<close>

fun andThen :: "('e + 'a) \<Rightarrow> ('a \<Rightarrow> 'e + 'b) \<Rightarrow> 'e + 'b" where
  "andThen (Inl e) f = Inl e"
| "andThen (Inr x) f = f x"

lemma andThen_Inr_iff:
  "andThen r f = Inr y \<longleftrightarrow> (\<exists>x. r = Inr x \<and> f x = Inr y)"
  by (cases r) auto

lemma andThen_Inl_iff:
  "andThen r f = Inl e \<longleftrightarrow> r = Inl e \<or> (\<exists>x. r = Inr x \<and> f x = Inl e)"
  by (cases r) auto

lemma sorted_hd_last: "sorted xs \<Longrightarrow> x \<in> set xs \<Longrightarrow> hd xs \<le> x \<and> x \<le> last xs"
proof (induction xs)
  case (Cons y ys)
  then show ?case by (cases ys) auto
qed simp

subsection \<open>Buffers\<close>

text \<open>\<open>buf.subarray(a, b)\<close>: both ends clamp to the buffer.\<close>

definition subarray :: "'a list \<Rightarrow> nat \<Rightarrow> nat \<Rightarrow> 'a list" where
  "subarray xs a b = take (b - a) (drop a xs)"

lemma length_subarray [js_simps]: "length (subarray xs a b) = min b (length xs) - a"
  by (simp add: subarray_def)

lemma subarray_all [simp]: "subarray xs 0 (length xs) = xs"
  by (simp add: subarray_def)

lemma subarray_append_take:
  "a \<le> b \<Longrightarrow> b \<le> c \<Longrightarrow> subarray xs a b @ subarray xs b c = subarray xs a c"
proof -
  assume ab: "a \<le> b" and bc: "b \<le> c"
  have "c - a = (b - a) + (c - b)" using ab bc by simp
  then have "subarray xs a c = take (b - a) (drop a xs) @ take (c - b) (drop (b - a) (drop a xs))"
    by (simp add: subarray_def take_add)
  also have "drop (b - a) (drop a xs) = drop b xs" using ab by simp
  finally show ?thesis by (simp add: subarray_def)
qed

text \<open>Consecutive pieces of \<open>n\<close> elements, the last one shorter.\<close>

function chunks :: "nat \<Rightarrow> 'a list \<Rightarrow> 'a list list" where
  "chunks n xs = (if n = 0 \<or> xs = [] then [] else take n xs # chunks n (drop n xs))"
  by pat_completeness auto
termination
  by (relation "measure (\<lambda>(n, xs). length xs)") auto

declare chunks.simps [simp del]

lemma chunks_Nil [simp]: "chunks n [] = []"
  by (simp add: chunks.simps)

lemma chunks_step: "0 < n \<Longrightarrow> xs \<noteq> [] \<Longrightarrow> chunks n xs = take n xs # chunks n (drop n xs)"
  by (simp add: chunks.simps [of n xs])

lemma concat_chunks: "0 < n \<Longrightarrow> concat (chunks n xs) = xs"
proof (induction n xs rule: chunks.induct)
  case (1 n xs)
  then show ?case by (cases "xs = []") (simp_all add: chunks_step)
qed

lemma chunks_piece: "c \<in> set (chunks n xs) \<Longrightarrow> c \<noteq> [] \<and> length c \<le> n"
proof (induction n xs rule: chunks.induct)
  case (1 n xs)
  then show ?case by (cases "n = 0 \<or> xs = []") (auto simp: chunks.simps [of n xs])
qed

lemma chunks_short: "xs \<noteq> [] \<Longrightarrow> length xs \<le> n \<Longrightarrow> chunks n xs = [xs]"
  by (cases "n = 0") (simp_all add: chunks.simps [of n xs])

lemma chunks_append: "length xs = n \<Longrightarrow> 0 < n \<Longrightarrow> chunks n (xs @ ys) = xs # chunks n ys"
  by (cases "xs = []") (simp_all add: chunks.simps [of n "xs @ ys"])

lemma div_ceil_step: "0 < (n::nat) \<Longrightarrow> 0 < m \<Longrightarrow> (m + n - 1) div n = Suc ((m - n + n - 1) div n)"
proof (cases "m \<le> n")
  case True
  assume n: "0 < n" and m: "0 < m"
  have "m + n - 1 = (m - 1) + n" using m by simp
  then have "(m + n - 1) div n = ((m - 1) + n) div n" by (rule arg_cong)
  also have "\<dots> = Suc ((m - 1) div n)" using n by (simp add: div_add_self2)
  finally show ?thesis using True n m by simp
next
  case False
  assume n: "0 < n"
  have "m + n - 1 = (m - n + n - 1) + n" using False n by simp
  then have "(m + n - 1) div n = ((m - n + n - 1) + n) div n" by (rule arg_cong)
  also have "\<dots> = Suc ((m - n + n - 1) div n)" using n by (subst div_add_self2) simp_all
  finally show ?thesis .
qed

lemma length_chunks: "0 < n \<Longrightarrow> length (chunks n xs) = (length xs + n - 1) div n"
proof (induction n xs rule: chunks.induct)
  case (1 n xs)
  show ?case
  proof (cases "xs = []")
    case False
    then have "length (chunks n (drop n xs)) = (length xs - n + n - 1) div n"
      using "1.IH" "1.prems" by simp
    then show ?thesis
      using False "1.prems" div_ceil_step [of n "length xs"] by (simp add: chunks_step)
  qed (use "1.prems" in simp)
qed

subsection \<open>Hexadecimal text\<close>

definition hexdigit :: "nat \<Rightarrow> char" where
  "hexdigit n = (if n < 10 then char_of (48 + n) else char_of (87 + n))"

definition unhexdigit :: "char \<Rightarrow> nat" where
  "unhexdigit c = (let n = of_char c in if n < 58 then n - 48 else n - 87)"

text \<open>\<open>b.toString(16).padStart(2, '0')\<close>, and the whole buffer so spelled and joined.\<close>

definition hex2 :: "byte \<Rightarrow> string" where
  "hex2 b = [hexdigit (unat b div 16), hexdigit (unat b mod 16)]"

definition hex :: "bytes \<Rightarrow> string" where
  "hex bs = concat (map hex2 bs)"

text \<open>\<open>Uint8Array.from(hex.match(/../g).map(h => parseInt(h, 16)))\<close> on hexadecimal text.\<close>

fun hexToBytes :: "string \<Rightarrow> bytes" where
  "hexToBytes (a # b # cs) = of_nat (16 * unhexdigit a + unhexdigit b) # hexToBytes cs"
| "hexToBytes _ = []"

lemma unhexdigit_hexdigit [js_simps]: "n < 16 \<Longrightarrow> unhexdigit (hexdigit n) = n"
  by (auto simp: hexdigit_def unhexdigit_def Let_def)

lemma unat_byte_less [simp]: "unat (b :: byte) < 256"
  using unsigned_less [of b, where ?'a = nat] by simp

lemma hexToBytes_hex [js_simps]: "hexToBytes (hex bs) = bs"
proof (induction bs)
  case Nil
  then show ?case by (simp add: hex_def)
next
  case (Cons b bs)
  have "unat b div 16 < 16" using unat_byte_less [of b] by linarith
  moreover have "16 * (unat b div 16) + unat b mod 16 = unat b" by simp
  ultimately have "(of_nat (16 * unhexdigit (hexdigit (unat b div 16)) +
      unhexdigit (hexdigit (unat b mod 16))) :: byte) = b"
    by (simp only: unhexdigit_hexdigit) (simp add: unhexdigit_hexdigit)
  with Cons.IH show ?case by (simp add: hex_def hex2_def)
qed

lemma hex_inject [simp]: "hex as = hex bs \<longleftrightarrow> as = bs"
  by (metis hexToBytes_hex)

lemma length_hex [js_simps]: "length (hex bs) = 2 * length bs"
  by (induction bs) (simp_all add: hex_def hex2_def)

lemma colon_not_hex: "CHR '':'' \<notin> set (hex bs)"
proof -
  have "\<forall>n \<in> set [0..<16]. hexdigit n \<noteq> CHR '':''" by code_simp
  then have "n < 16 \<Longrightarrow> CHR '':'' \<noteq> hexdigit n" for n by auto
  moreover have "unat b div 16 < 16" for b :: byte
    using unat_byte_less [of b] by linarith
  ultimately show ?thesis by (auto simp: hex_def hex2_def)
qed

lemma hex_append [js_simps]: "hex (as @ bs) = hex as @ hex bs"
  by (simp add: hex_def)

subsection \<open>Decimal text\<close>

text \<open>\<open>String(n)\<close> and \<open>Number(s)\<close> of a decimal text.\<close>

fun decimal :: "nat \<Rightarrow> string" where
  "decimal n = (if n < 10 then [char_of (48 + n)] else decimal (n div 10) @ [char_of (48 + n mod 10)])"

declare decimal.simps [simp del]

definition isDigit :: "char \<Rightarrow> bool" where
  "isDigit c \<longleftrightarrow> 48 \<le> (of_char c :: nat) \<and> (of_char c :: nat) \<le> 57"

definition digitVal :: "char \<Rightarrow> nat" where
  "digitVal c = of_char c - 48"

definition undecimal :: "string \<Rightarrow> nat" where
  "undecimal cs = foldl (\<lambda>n c. 10 * n + digitVal c) 0 cs"

lemma decimal_digits: "c \<in> set (decimal n) \<Longrightarrow> isDigit c"
proof (induction n rule: decimal.induct)
  case (1 n)
  show ?case
  proof (cases "n < 10")
    case True
    with "1.prems" show ?thesis by (simp add: decimal.simps [of n] isDigit_def)
  next
    case False
    then have "c \<in> set (decimal (n div 10)) \<or> c = char_of (48 + n mod 10)"
      using "1.prems" by (auto simp: decimal.simps [of n])
    then show ?thesis
    proof
      assume "c \<in> set (decimal (n div 10))"
      then show ?thesis using "1.IH" False by blast
    next
      assume "c = char_of (48 + n mod 10)"
      moreover have "48 + n mod 10 < 256" by (rule order.strict_trans2 [of _ 58]) auto
      ultimately show ?thesis by (simp add: isDigit_def)
    qed
  qed
qed

lemma decimal_nonempty [simp]: "decimal n \<noteq> []"
  by (subst decimal.simps) simp

lemma undecimal_snoc: "undecimal (cs @ [c]) = 10 * undecimal cs + digitVal c"
  by (simp add: undecimal_def)

lemma undecimal_decimal [js_simps]: "undecimal (decimal n) = n"
proof (induction n rule: decimal.induct)
  case (1 n)
  show ?case
  proof (cases "n < 10")
    case True
    then show ?thesis by (simp add: decimal.simps [of n] undecimal_def digitVal_def)
  next
    case False
    then have IH: "undecimal (decimal (n div 10)) = n div 10" using "1.IH" by simp
    have "48 + n mod 10 < 256" by (rule order.strict_trans2 [of _ 58]) auto
    then have "digitVal (char_of (48 + n mod 10)) = n mod 10" by (simp add: digitVal_def)
    with False IH show ?thesis by (simp add: decimal.simps [of n] undecimal_snoc)
  qed
qed

lemma decimal_inject [simp]: "decimal m = decimal n \<longleftrightarrow> m = n"
  by (metis undecimal_decimal)

subsection \<open>UTF-8\<close>

text \<open>\<open>new TextEncoder().encode(s)\<close> on code units below 256, and the decoding of what it writes.\<close>

definition utf8_char :: "char \<Rightarrow> bytes" where
  "utf8_char c = (let n = of_char c in
     if n < 128 then [of_nat n] else [of_nat (192 + n div 64), of_nat (128 + n mod 64)])"

definition utf8 :: "string \<Rightarrow> bytes" where
  "utf8 s = concat (map utf8_char s)"

fun unutf8 :: "bytes \<Rightarrow> string option" where
  "unutf8 [] = Some []"
| "unutf8 [b] = (if unat b < 128 then Some [char_of (unat b)] else None)"
| "unutf8 (b # d # bs) =
     (if unat b < 128 then map_option ((#) (char_of (unat b))) (unutf8 (d # bs))
      else if 194 \<le> unat b \<and> unat b < 196 \<and> 128 \<le> unat d \<and> unat d < 192
      then map_option ((#) (char_of (64 * (unat b - 192) + (unat d - 128)))) (unutf8 bs)
      else None)"

text \<open>
  \<open>new TextDecoder().decode(bytes)\<close>, which never throws: bytes that are not the encoding of code
  units below 256 stand for text outside the modelled strings, shown as question marks.
\<close>

definition decodeText :: "bytes \<Rightarrow> string" where
  "decodeText bs = (case unutf8 bs of Some s \<Rightarrow> s | None \<Rightarrow> replicate (length bs) CHR ''?'')"

lemma unutf8_ascii: "unat b < 128 \<Longrightarrow> unutf8 (b # bs) = map_option ((#) (char_of (unat b))) (unutf8 bs)"
  by (cases bs) simp_all

lemma of_char_less [simp]: "(of_char c :: nat) < 256"
  using of_char_mod_256 [of c, where ?'a = nat] by (metis mod_less_divisor zero_less_numeral)

lemma unat_of_nat_byte: "n < 256 \<Longrightarrow> unat (of_nat n :: byte) = n"
  by (simp add: unat_of_nat)

lemma unutf8_utf8 [js_simps]: "unutf8 (utf8 s) = Some s"
proof (induction s)
  case Nil
  then show ?case by (simp add: utf8_def)
next
  case (Cons c s)
  define n where "n = (of_char c :: nat)"
  have n: "n < 256" by (simp add: n_def)
  have c: "char_of n = c" by (simp add: n_def)
  show ?case
  proof (cases "n < 128")
    case True
    then have "utf8 (c # s) = of_nat n # utf8 s" by (simp add: utf8_def utf8_char_def n_def [symmetric])
    with True n c Cons.IH show ?thesis by (simp add: unutf8_ascii unat_of_nat_byte)
  next
    case False
    then have e: "utf8 (c # s) = of_nat (192 + n div 64) # of_nat (128 + n mod 64) # utf8 s"
      by (simp add: utf8_def utf8_char_def n_def [symmetric] Let_def)
    have "unat (of_nat (192 + n div 64) :: byte) = 192 + n div 64"
      using n by (intro unat_of_nat_byte) linarith
    moreover have "unat (of_nat (128 + n mod 64) :: byte) = 128 + n mod 64"
      by (rule unat_of_nat_byte, rule order.strict_trans2 [of _ 192]) auto
    moreover have "2 \<le> n div 64" "n div 64 < 4" "n mod 64 < 64" using False n by auto
    ultimately show ?thesis using e c Cons.IH by simp
  qed
qed

lemma decodeText_utf8 [simp]: "decodeText (utf8 s) = s"
  by (simp add: decodeText_def unutf8_utf8)

lemma utf8_inject [simp]: "utf8 s = utf8 t \<longleftrightarrow> s = t"
  by (metis option.inject unutf8_utf8)

lemma utf8_append [js_simps]: "utf8 (s @ t) = utf8 s @ utf8 t"
  by (simp add: utf8_def)

subsection \<open>Text\<close>

text \<open>\<open>parts.join(sep)\<close>.\<close>

fun join :: "string \<Rightarrow> string list \<Rightarrow> string" where
  "join sep [] = []"
| "join sep [x] = x"
| "join sep (x # y # xs) = x @ sep @ join sep (y # xs)"

text \<open>\<open>s.trim()\<close>, on code units below 256.\<close>

definition isTrimmed :: "char \<Rightarrow> bool" where
  "isTrimmed c \<longleftrightarrow> of_char c \<in> {9, 10, 11, 12, 13, 32, 160 :: nat}"

definition trim :: "string \<Rightarrow> string" where
  "trim s = rev (dropWhile isTrimmed (rev (dropWhile isTrimmed s)))"

definition startsWith :: "string \<Rightarrow> string \<Rightarrow> bool" where
  "startsWith s p \<longleftrightarrow> take (length p) s = p"

definition endsWith :: "string \<Rightarrow> string \<Rightarrow> bool" where
  "endsWith s p \<longleftrightarrow> length p \<le> length s \<and> drop (length s - length p) s = p"

text \<open>\<open>s.toLowerCase()\<close>, on code units below 256.\<close>

definition lower :: "string \<Rightarrow> string" where
  "lower s = map (\<lambda>c. let n = (of_char c :: nat) in
     if 65 \<le> n \<and> n \<le> 90 \<or> 192 \<le> n \<and> n \<le> 222 \<and> n \<noteq> 215 then char_of (n + 32) else c) s"

lemma startsWith_append [simp]: "startsWith (p @ s) p"
  by (simp add: startsWith_def)

text \<open>\<open>s.split(c)\<close> at a one-character separator.\<close>

fun splitAt :: "char \<Rightarrow> string \<Rightarrow> string list" where
  "splitAt c [] = [[]]"
| "splitAt c (x # xs) = (if x = c then [] # splitAt c xs
     else (case splitAt c xs of [] \<Rightarrow> [[x]] | p # ps \<Rightarrow> (x # p) # ps))"

lemma dropWhile_none: "\<forall>c \<in> set cs. \<not> P c \<Longrightarrow> dropWhile P cs = cs"
  by (induction cs) auto

lemma trim_none: "\<forall>c \<in> set cs. \<not> isTrimmed c \<Longrightarrow> trim cs = cs"
  by (simp add: trim_def dropWhile_none)

lemma splitAt_nonempty [simp]: "splitAt c s \<noteq> []"
  by (induction s) (auto split: list.splits)

lemma splitAt_none: "c \<notin> set s \<Longrightarrow> splitAt c s = [s]"
  by (induction s) auto

lemma splitAt_app: "c \<notin> set s \<Longrightarrow> splitAt c (s @ c # t) = s # splitAt c t"
  by (induction s) auto

lemma splitAt_join:
  assumes "xs \<noteq> []" and "\<forall>x \<in> set xs. c \<notin> set x"
  shows "splitAt c (join [c] xs) = xs"
  using assms by (induction "[c]" xs rule: join.induct) (simp_all add: splitAt_none splitAt_app)

end
