(* ===== verification/Sha256.thy ===== *)
theory Sha256
  imports Prelude
begin

text \<open>
  The synchronous SHA-256 of \<open>buckets/lib/sha256.mjs\<close>. The model follows the code: the padded
  block is filled by two \<open>setUint32\<close> calls, one array \<open>w\<close> of 64 words is reused from block
  to block, and eight registers are rotated in place. It is proved equal to the definition of
  SHA-256 in FIPS 180-4, stated here by its recurrences; the other components use the same
  function where the code calls \<open>crypto.subtle.digest\<close> or \<open>createHash("sha256")\<close>.
\<close>

subsection \<open>The code\<close>

fun hex32 :: "string \<Rightarrow> u32" where
  "hex32 cs = of_nat (foldl (\<lambda>n c. 16 * n + unhexdigit c) 0 cs)"

definition K256 :: "u32 list" where
  "K256 = map hex32 [
    ''428a2f98'', ''71374491'', ''b5c0fbcf'', ''e9b5dba5'', ''3956c25b'', ''59f111f1'', ''923f82a4'', ''ab1c5ed5'',
    ''d807aa98'', ''12835b01'', ''243185be'', ''550c7dc3'', ''72be5d74'', ''80deb1fe'', ''9bdc06a7'', ''c19bf174'',
    ''e49b69c1'', ''efbe4786'', ''0fc19dc6'', ''240ca1cc'', ''2de92c6f'', ''4a7484aa'', ''5cb0a9dc'', ''76f988da'',
    ''983e5152'', ''a831c66d'', ''b00327c8'', ''bf597fc7'', ''c6e00bf3'', ''d5a79147'', ''06ca6351'', ''14292967'',
    ''27b70a85'', ''2e1b2138'', ''4d2c6dfc'', ''53380d13'', ''650a7354'', ''766a0abb'', ''81c2c92e'', ''92722c85'',
    ''a2bfe8a1'', ''a81a664b'', ''c24b8b70'', ''c76c51a3'', ''d192e819'', ''d6990624'', ''f40e3585'', ''106aa070'',
    ''19a4c116'', ''1e376c08'', ''2748774c'', ''34b0bcb5'', ''391c0cb3'', ''4ed8aa4a'', ''5b9cca4f'', ''682e6ff3'',
    ''748f82ee'', ''78a5636f'', ''84c87814'', ''8cc70208'', ''90befffa'', ''a4506ceb'', ''bef9a3f7'', ''c67178f2'']"

definition rotr :: "u32 \<Rightarrow> nat \<Rightarrow> u32" where
  "rotr x n = drop_bit n x OR push_bit (32 - n) x"

text \<open>\<open>DataView\<close> reads and writes, big-endian.\<close>

definition getUint32 :: "bytes \<Rightarrow> nat \<Rightarrow> u32" where
  "getUint32 bs p = push_bit 24 (ucast (bs ! p)) OR push_bit 16 (ucast (bs ! (p + 1)))
     OR push_bit 8 (ucast (bs ! (p + 2))) OR ucast (bs ! (p + 3))"

definition setUint32 :: "nat \<Rightarrow> u32 \<Rightarrow> bytes \<Rightarrow> bytes" where
  "setUint32 p v bs = bs[p := ucast (drop_bit 24 v), p + 1 := ucast (drop_bit 16 v),
     p + 2 := ucast (drop_bit 8 v), p + 3 := ucast v]"

definition withPadding :: "nat \<Rightarrow> nat" where
  "withPadding n = ((n + 9 + 63) div 64) * 64"

definition padBlock :: "bytes \<Rightarrow> bytes" where
  "padBlock bs = (let n = length bs; bitLength = 8 * int n; wp = withPadding n;
      block = (bs @ replicate (wp - n) 0)[n := 0x80];
      view = setUint32 (wp - 4) (of_int bitLength) block
    in setUint32 (wp - 8) (of_int (bitLength div 2 ^ 32)) view)"

type_synonym regs = "u32 \<times> u32 \<times> u32 \<times> u32 \<times> u32 \<times> u32 \<times> u32 \<times> u32"

definition H0 :: regs where
  "H0 = (hex32 ''6a09e667'', hex32 ''bb67ae85'', hex32 ''3c6ef372'', hex32 ''a54ff53a'',
         hex32 ''510e527f'', hex32 ''9b05688c'', hex32 ''1f83d9ab'', hex32 ''5be0cd19'')"

definition loadWords :: "bytes \<Rightarrow> nat \<Rightarrow> u32 list \<Rightarrow> u32 list" where
  "loadWords view offset w = fold (\<lambda>i w. w[i := getUint32 view (offset + i * 4)]) [0..<16] w"

definition extendWord :: "nat \<Rightarrow> u32 list \<Rightarrow> u32 list" where
  "extendWord i w = (let
      s0 = rotr (w ! (i - 15)) 7 XOR rotr (w ! (i - 15)) 18 XOR drop_bit 3 (w ! (i - 15));
      s1 = rotr (w ! (i - 2)) 17 XOR rotr (w ! (i - 2)) 19 XOR drop_bit 10 (w ! (i - 2))
    in w[i := w ! (i - 16) + s0 + w ! (i - 7) + s1])"

definition shaRound :: "u32 list \<Rightarrow> nat \<Rightarrow> regs \<Rightarrow> regs" where
  "shaRound w i r = (case r of (a, b, c, d, e, f, g, hh) \<Rightarrow> let
      S1 = rotr e 6 XOR rotr e 11 XOR rotr e 25;
      ch = (e AND f) XOR (NOT e AND g);
      t1 = hh + S1 + ch + K256 ! i + w ! i;
      S0 = rotr a 2 XOR rotr a 13 XOR rotr a 22;
      maj = (a AND b) XOR (a AND c) XOR (b AND c);
      t2 = S0 + maj
    in (t1 + t2, a, b, c, d + t1, e, f, g))"

definition addRegs :: "regs \<Rightarrow> regs \<Rightarrow> regs" where
  "addRegs h r = (case (h, r) of ((h0, h1, h2, h3, h4, h5, h6, h7), (a, b, c, d, e, f, g, hh)) \<Rightarrow>
     (h0 + a, h1 + b, h2 + c, h3 + d, h4 + e, h5 + f, h6 + g, h7 + hh))"

definition shaBlock :: "bytes \<Rightarrow> nat \<Rightarrow> u32 list \<times> regs \<Rightarrow> u32 list \<times> regs" where
  "shaBlock view offset st = (case st of (w, h) \<Rightarrow>
     let w' = fold extendWord [16..<64] (loadWords view offset w)
     in (w', addRegs h (fold (shaRound w') [0..<64] h)))"

definition regBytes :: "regs \<Rightarrow> bytes" where
  "regBytes r = (case r of (h0, h1, h2, h3, h4, h5, h6, h7) \<Rightarrow>
     fold (\<lambda>(i, v). setUint32 (i * 4) v) (zip [0..<8] [h0, h1, h2, h3, h4, h5, h6, h7]) (replicate 32 0))"

definition sha256 :: "bytes \<Rightarrow> bytes" where
  "sha256 bs = (let view = padBlock bs in
     regBytes (snd (fold (\<lambda>k. shaBlock view (64 * k)) [0..<withPadding (length bs) div 64] (replicate 64 0, H0))))"

definition sha256hex :: "bytes \<Rightarrow> string" where
  "sha256hex bs = hex (sha256 bs)"

subsection \<open>The standard\<close>

text \<open>
  FIPS 180-4: the message, a one bit, zeroes, and the 64-bit length; sixteen words per block
  extended by the schedule recurrence; sixty-four rounds; the sum with the previous hash value.
\<close>

definition be32 :: "u32 \<Rightarrow> bytes" where
  "be32 v = [ucast (drop_bit 24 v), ucast (drop_bit 16 v), ucast (drop_bit 8 v), ucast v]"

definition fips_pad :: "bytes \<Rightarrow> bytes" where
  "fips_pad m = m @ [0x80] @ replicate ((119 - length m mod 64) mod 64) 0
     @ be32 (of_nat (8 * length m div 2 ^ 32)) @ be32 (of_nat (8 * length m))"

definition fips_word :: "bytes \<Rightarrow> nat \<Rightarrow> u32" where
  "fips_word blk t = getUint32 blk (4 * t)"

definition sigma0 :: "u32 \<Rightarrow> u32" where
  "sigma0 x = word_rotr 7 x XOR word_rotr 18 x XOR drop_bit 3 x"

definition sigma1 :: "u32 \<Rightarrow> u32" where
  "sigma1 x = word_rotr 17 x XOR word_rotr 19 x XOR drop_bit 10 x"

fun fips_W :: "bytes \<Rightarrow> nat \<Rightarrow> u32" where
  "fips_W blk t = (if t < 16 then fips_word blk t
     else sigma1 (fips_W blk (t - 2)) + fips_W blk (t - 7) + sigma0 (fips_W blk (t - 15)) + fips_W blk (t - 16))"

declare fips_W.simps [simp del]

definition fips_round :: "(nat \<Rightarrow> u32) \<Rightarrow> nat \<Rightarrow> regs \<Rightarrow> regs" where
  "fips_round W t r = (case r of (a, b, c, d, e, f, g, h) \<Rightarrow> let
      T1 = h + (word_rotr 6 e XOR word_rotr 11 e XOR word_rotr 25 e)
             + ((e AND f) XOR (NOT e AND g)) + K256 ! t + W t;
      T2 = (word_rotr 2 a XOR word_rotr 13 a XOR word_rotr 22 a)
             + ((a AND b) XOR (a AND c) XOR (b AND c))
    in (T1 + T2, a, b, c, d + T1, e, f, g))"

definition fips_block :: "regs \<Rightarrow> bytes \<Rightarrow> regs" where
  "fips_block h blk = addRegs h (fold (fips_round (fips_W blk)) [0..<64] h)"

definition fips_sha256 :: "bytes \<Rightarrow> bytes" where
  "fips_sha256 m = (case foldl fips_block H0 (chunks 64 (fips_pad m)) of
     (h0, h1, h2, h3, h4, h5, h6, h7) \<Rightarrow>
       concat (map be32 [h0, h1, h2, h3, h4, h5, h6, h7]))"

subsection \<open>The words\<close>

lemma rotr_word_rotr: "0 < n \<Longrightarrow> n < 32 \<Longrightarrow> rotr x n = word_rotr n x"
proof (rule bit_word_eqI)
  fix k
  assume n: "0 < n" "n < 32" and k: "k < LENGTH(32)"
  have L: "bit (rotr x n) k = (bit x (n + k) \<or> 32 - n \<le> k \<and> bit x (k - (32 - n)))"
    using k by (simp add: rotr_def bit_or_iff bit_drop_bit_eq bit_push_bit_iff)
  have R: "bit (word_rotr n x) k = bit x ((k + n) mod 32)"
    using k by (simp add: bit_word_rotr_iff)
  show "bit (rotr x n) k = bit (word_rotr n x) k"
  proof (cases "n + k < 32")
    case True
    then have "(k + n) mod 32 = n + k" "\<not> 32 - n \<le> k" by auto
    then show ?thesis unfolding L R by (simp add: add.commute [of k n])
  next
    case False
    have "(k + n) mod 32 = k + n - 32" using k n False by (simp add: mod_if)
    moreover have "\<not> bit x (n + k)" using False bit_imp_le_length [of x "n + k"] by auto
    moreover have "k + n - 32 = k - (32 - n)" "32 - n \<le> k" using False n by linarith+
    ultimately show ?thesis unfolding L R by metis
  qed
qed

subsection \<open>Padding\<close>

lemma withPadding_bounds: "n + 9 \<le> withPadding n" "withPadding n mod 64 = 0"
  by (simp_all add: withPadding_def)

lemma withPadding_eq: "withPadding n = n + 9 + (119 - n mod 64) mod 64"
proof -
  define q r where "q = n div 64" and "r = n mod 64"
  have n: "n = 64 * q + r" and r: "r < 64" by (simp_all add: q_def r_def)
  have "n + 9 + 63 = (r + 8) + (q + 1) * 64" by (simp add: n)
  then have wp: "withPadding n = (q + 1 + (r + 8) div 64) * 64"
    unfolding withPadding_def by (metis add.commute div_mult_self1 zero_neq_numeral)
  show ?thesis
  proof (cases "r \<le> 55")
    case True
    then have "(119 - r) mod 64 = 55 - r" by (simp add: mod_if)
    then show ?thesis unfolding wp r_def [symmetric] using True n by simp
  next
    case False
    then have "(r + 8) div 64 = 1" using r by auto
    then show ?thesis unfolding wp r_def [symmetric] using False r n by simp
  qed
qed

lemma list_update_four:
  "xs = ys @ replicate 4 z @ zs \<Longrightarrow> p = length ys \<Longrightarrow>
   setUint32 p v xs = ys @ be32 v @ zs"
  by (simp add: setUint32_def be32_def numeral_eq_Suc list_update_append)

lemma of_int_bitLength:
  "(of_int (8 * int n) :: u32) = of_nat (8 * n)"
  "(of_int (8 * int n div 2 ^ 32) :: u32) = of_nat (8 * n div 2 ^ 32)"
proof -
  have "8 * int n = int (8 * n)" by simp
  then show "(of_int (8 * int n) :: u32) = of_nat (8 * n)" by (metis of_int_of_nat_eq)
  have "8 * int n div 2 ^ 32 = int (8 * n div 2 ^ 32)" by (simp add: zdiv_int)
  then show "(of_int (8 * int n div 2 ^ 32) :: u32) = of_nat (8 * n div 2 ^ 32)"
    by (metis of_int_of_nat_eq)
qed

lemma padBlock_fips: "padBlock m = fips_pad m"
proof -
  define n where "n = length m"
  define k where "k = (119 - n mod 64) mod 64"
  have wp: "withPadding n = n + 9 + k" by (simp add: withPadding_eq k_def)
  have blk: "(m @ replicate (withPadding n - n) 0)[n := 0x80] = m @ [0x80] @ replicate k 0 @ replicate 8 0"
  proof -
    have "withPadding n - n = Suc (k + 8)" by (simp add: wp)
    then have "replicate (withPadding n - n) (0::byte) = 0 # replicate k 0 @ replicate 8 0"
      by (simp only: replicate_Suc replicate_add)
    then show ?thesis by (simp add: n_def list_update_append)
  qed
  have s1: "setUint32 (withPadding n - 4) v (m @ [0x80] @ replicate k 0 @ replicate 8 0) =
      (m @ [0x80] @ replicate k 0 @ replicate 4 0) @ be32 v @ []" for v
    by (rule list_update_four [where z = 0])
      (simp_all add: wp [unfolded n_def] n_def replicate_add [symmetric])
  have s2: "setUint32 (withPadding n - 8) u ((m @ [0x80] @ replicate k 0 @ replicate 4 0) @ be32 v @ []) =
      (m @ [0x80] @ replicate k 0) @ be32 u @ be32 v" for u v
    by (rule list_update_four [where z = 0]) (simp_all add: wp [unfolded n_def] n_def)
  show ?thesis
    unfolding padBlock_def Let_def n_def [symmetric] blk s1 s2 of_int_bitLength
    by (simp add: fips_pad_def n_def k_def)
qed

lemma length_padBlock: "length (padBlock m) = withPadding (length m)"
  by (simp add: padBlock_fips fips_pad_def be32_def withPadding_eq)

subsection \<open>The schedule\<close>

lemma length_loadWords [simp]: "length (loadWords view p w) = length w"
proof -
  have "length (fold (\<lambda>i w. w[i := getUint32 view (p + i * 4)]) xs w) = length w" for xs
    by (induction xs arbitrary: w) simp_all
  then show ?thesis by (simp add: loadWords_def)
qed

lemma loadWords_nth:
  assumes "length w = 64" and "i < 16"
  shows "loadWords view p w ! i = getUint32 view (p + i * 4)"
proof -
  have "length (fold (\<lambda>i w. w[i := getUint32 view (p + i * 4)]) [0..<m] w) = 64 \<and>
     (\<forall>j < m. fold (\<lambda>i w. w[i := getUint32 view (p + i * 4)]) [0..<m] w ! j = getUint32 view (p + j * 4))"
    if "m \<le> 16" for m
    using that assms(1) by (induction m) (auto simp: nth_list_update less_Suc_eq)
  then show ?thesis using assms(2) unfolding loadWords_def by blast
qed

lemma getUint32_block:
  "offset + 64 \<le> length view \<Longrightarrow> i < 16 \<Longrightarrow>
   getUint32 view (offset + i * 4) = fips_word (take 64 (drop offset view)) i"
  by (simp add: fips_word_def getUint32_def add.assoc mult.commute)

lemma extendWord_fips:
  assumes "length w = 64" and "16 \<le> i" and "i < 64" and "\<forall>j < i. w ! j = fips_W blk j"
  shows "length (extendWord i w) = 64 \<and> (\<forall>j < Suc i. extendWord i w ! j = fips_W blk j)"
proof -
  have "w ! (i - 16) + (rotr (w ! (i - 15)) 7 XOR rotr (w ! (i - 15)) 18 XOR drop_bit 3 (w ! (i - 15)))
      + w ! (i - 7) + (rotr (w ! (i - 2)) 17 XOR rotr (w ! (i - 2)) 19 XOR drop_bit 10 (w ! (i - 2)))
     = fips_W blk i"
    using assms by (simp add: fips_W.simps [of blk i] rotr_word_rotr sigma0_def sigma1_def ac_simps)
  then show ?thesis using assms by (auto simp: extendWord_def Let_def nth_list_update less_Suc_eq)
qed

lemma schedule_fips:
  assumes "length w = 64" and "offset + 64 \<le> length view" and "m \<le> 48"
  shows "length (fold extendWord [16..<16 + m] (loadWords view offset w)) = 64 \<and>
     (\<forall>j < 16 + m. fold extendWord [16..<16 + m] (loadWords view offset w) ! j
        = fips_W (take 64 (drop offset view)) j)"
  using assms(3)
proof (induction m)
  case 0
  then show ?case
    using assms(1,2) by (auto simp: loadWords_nth getUint32_block fips_W.simps)
next
  case (Suc m)
  then have "length (fold extendWord [16..<16 + m] (loadWords view offset w)) = 64 \<and>
     (\<forall>j < 16 + m. fold extendWord [16..<16 + m] (loadWords view offset w) ! j
        = fips_W (take 64 (drop offset view)) j)" by simp
  then have "length (extendWord (16 + m) (fold extendWord [16..<16 + m] (loadWords view offset w))) = 64 \<and>
     (\<forall>j < Suc (16 + m). extendWord (16 + m) (fold extendWord [16..<16 + m] (loadWords view offset w)) ! j
        = fips_W (take 64 (drop offset view)) j)"
    by (intro extendWord_fips) (use Suc.prems in simp_all)
  moreover have "[16..<16 + Suc m] = [16..<16 + m] @ [16 + m]"
    by (simp only: add_Suc_right) (rule upt_Suc_append, simp)
  ultimately show ?case by (auto simp only: fold_append fold_simps comp_apply add_Suc_right)
qed

subsection \<open>The compression\<close>

lemma shaRound_fips: "w ! i = W i \<Longrightarrow> shaRound w i r = fips_round W i r"
  by (cases r) (simp add: shaRound_def fips_round_def rotr_word_rotr)

lemma shaBlock_fips:
  assumes "length w = 64" and "offset + 64 \<le> length view"
  shows "\<exists>w'. length w' = 64 \<and> shaBlock view offset (w, h) = (w', fips_block h (take 64 (drop offset view)))"
proof -
  define w' where "w' = fold extendWord [16..<64] (loadWords view offset w)"
  have w': "length w' = 64" "\<forall>j < 64. w' ! j = fips_W (take 64 (drop offset view)) j"
    using schedule_fips [OF assms, of 48] by (simp_all add: w'_def)
  have "fold (shaRound w') [0..<64] h = fold (fips_round (fips_W (take 64 (drop offset view)))) [0..<64] h"
    by (rule fold_cong) (use w'(2) in \<open>auto intro!: shaRound_fips ext\<close>)
  moreover have "shaBlock view offset (w, h) = (w', addRegs h (fold (shaRound w') [0..<64] h))"
    unfolding shaBlock_def w'_def by (simp only: prod.case Let_def)
  ultimately show ?thesis using w'(1) unfolding fips_block_def by metis
qed

lemma fold_shaBlock_fips:
  assumes "length view = 64 * n" and "length w = 64" and "m \<le> n"
  shows "\<exists>w'. length w' = 64 \<and>
     fold (\<lambda>k. shaBlock view (64 * k)) [0..<m] (w, h) = (w', foldl fips_block h (map (\<lambda>k. take 64 (drop (64 * k) view)) [0..<m]))"
  using assms(3)
proof (induction m)
  case 0
  then show ?case using assms(2) by simp
next
  case (Suc m)
  then obtain w' where w': "length w' = 64"
    "fold (\<lambda>k. shaBlock view (64 * k)) [0..<m] (w, h) = (w', foldl fips_block h (map (\<lambda>k. take 64 (drop (64 * k) view)) [0..<m]))"
    by auto
  have "64 * m + 64 \<le> length view" using Suc.prems assms(1) by simp
  from shaBlock_fips [OF w'(1) this] show ?case using w'(2) by simp
qed

lemma chunks_map: "length xs = n * m \<Longrightarrow> 0 < n \<Longrightarrow> chunks n xs = map (\<lambda>k. take n (drop (n * k) xs)) [0..<m]"
proof (induction m arbitrary: xs)
  case 0
  then show ?case by simp
next
  case (Suc m)
  then have "xs \<noteq> []" by auto
  then have "chunks n xs = take n xs # chunks n (drop n xs)" using Suc.prems by (simp add: chunks_step)
  also have "chunks n (drop n xs) = map (\<lambda>k. take n (drop (n * k) (drop n xs))) [0..<m]"
    using Suc by simp
  also have "\<dots> = map (\<lambda>k. take n (drop (n * Suc k) xs)) [0..<m]"
    by (simp add: add.commute)
  finally show ?case by (simp add: map_upt_Suc del: upt_Suc)
qed

lemma fold_setUint32:
  "length ys = m * 4 \<Longrightarrow>
   fold (\<lambda>(i, v). setUint32 (i * 4) v) (zip [m..<m + length vs] vs) (ys @ replicate (length vs * 4) 0)
     = ys @ concat (map be32 vs)"
proof (induction vs arbitrary: m ys)
  case Nil
  then show ?case by simp
next
  case (Cons v vs)
  have "setUint32 (m * 4) v (ys @ replicate (length (v # vs) * 4) 0) = ys @ be32 v @ replicate (length vs * 4) 0"
    by (rule list_update_four [where z = 0]) (simp_all add: Cons.prems replicate_add [symmetric])
  moreover have "length (ys @ be32 v) = Suc m * 4" using Cons.prems by (simp add: be32_def)
  ultimately show ?case
    using Cons.IH [of "ys @ be32 v" "Suc m"] by (simp add: upt_conv_Cons del: upt_Suc replicate_add)
qed

lemma regBytes_be32:
  "regBytes (h0, h1, h2, h3, h4, h5, h6, h7) = concat (map be32 [h0, h1, h2, h3, h4, h5, h6, h7])"
proof -
  define vs where "vs = [h0, h1, h2, h3, h4, h5, h6, h7]"
  have len: "length vs = 8" by (simp add: vs_def)
  have "regBytes (h0, h1, h2, h3, h4, h5, h6, h7) =
      fold (\<lambda>(i, v). setUint32 (i * 4) v) (zip [0..<0 + length vs] vs) ([] @ replicate (length vs * 4) 0)"
    unfolding regBytes_def prod.case vs_def [symmetric] len by simp
  also have "\<dots> = [] @ concat (map be32 vs)" by (rule fold_setUint32) simp
  finally show ?thesis by (simp add: vs_def)
qed

lemma sha256_eq_fips: "sha256 m = fips_sha256 m"
proof -
  define n where "n = withPadding (length m) div 64"
  have len: "length (padBlock m) = 64 * n"
    using withPadding_bounds(2) [of "length m"] unfolding length_padBlock n_def
    by (simp add: minus_mod_eq_mult_div [symmetric])
  obtain w' where "fold (\<lambda>k. shaBlock (padBlock m) (64 * k)) [0..<n] (replicate 64 0, H0) =
      (w', foldl fips_block H0 (map (\<lambda>k. take 64 (drop (64 * k) (padBlock m))) [0..<n]))"
    using fold_shaBlock_fips [OF len, of "replicate 64 0" n H0] by auto
  then have "sha256 m = regBytes (foldl fips_block H0 (chunks 64 (fips_pad m)))"
    using chunks_map [OF len] by (simp add: sha256_def Let_def n_def padBlock_fips)
  then show ?thesis
    by (auto simp only: fips_sha256_def regBytes_be32 split: prod.splits)
qed

lemma length_sha256 [simp]: "length (sha256 m) = 32"
  by (simp add: sha256_eq_fips fips_sha256_def be32_def split: prod.splits)

lemma length_sha256hex [simp]: "length (sha256hex m) = 64"
  by (simp add: sha256hex_def js_simps)

text \<open>
  C35. For every message, the code's \<open>sha256\<close>, with its in-place padding, its reused word array and
  its rotated registers, computes the SHA-256 of FIPS 180-4 (the length field modulo \<open>2 ^ 64\<close>).
\<close>
theorem sha256_correct: "sha256 m = fips_sha256 m"
  by (rule sha256_eq_fips)

end
