(* ===== verification/KappaGet.thy ===== *)
theory KappaGet
  imports Sha256
begin

text \<open>
  Byte ranges of a named object from any holder, \<open>deploy/kappa-get.mjs\<close>: the hashes of an object's
  1 MiB pieces, the standing of holders, and \<open>get\<close>, which releases a piece only after it hashes to
  its place in the piece list.

  The runs of a range are fetched concurrently and share the standing of the holders. The model
  fixes no schedule: each run is given the standing it saw when it started and its own answers, so
  the theorems hold for every interleaving. A holder answers a question with bytes, with nothing
  (\<open>null\<close>), or by throwing; an answer after the deadline counts as a slow throw.
\<close>

subsection \<open>Standing\<close>

definition PIECE :: nat where "PIECE = 2 ^ 20"
definition RUN :: nat where "RUN = 8 * 2 ^ 20"

record mark =
  k_ok :: nat
  k_lies :: nat

type_synonym standing = "string \<rightharpoonup> mark"

definition noteHolder :: "string \<times> bool \<Rightarrow> standing \<Rightarrow> standing" where
  "noteHolder e st = (case e of (holder, ok) \<Rightarrow>
     let s = (case st holder of Some s \<Rightarrow> s | None \<Rightarrow> \<lparr>k_ok = 0, k_lies = 0\<rparr>)
     in st(holder \<mapsto> (if ok then s\<lparr>k_ok := k_ok s + 1\<rparr> else s\<lparr>k_lies := k_lies s + 1\<rparr>)))"

definition demoted :: "standing \<Rightarrow> string \<Rightarrow> bool" where
  "demoted st holder = (case st holder of Some s \<Rightarrow> k_lies s > 0 | None \<Rightarrow> False)"

text \<open>A holder by its kind, and whether it serves pieces by hash or ranges of the object.\<close>

record holder =
  h_kind :: string
  h_piece :: bool

definition rank :: "standing \<Rightarrow> holder list \<Rightarrow> holder list" where
  "rank st holders = filter (\<lambda>h. \<not> demoted st (h_kind h)) holders @ filter (\<lambda>h. demoted st (h_kind h)) holders"

subsection \<open>Piece hashes\<close>

text \<open>\<open>h.update\<close> appends to what will be hashed; \<open>digest\<close> hashes it.\<close>

record hasher =
  p_buf :: bytes
  p_n :: nat
  p_out :: "string list"

definition newHasher :: hasher where
  "newHasher = \<lparr>p_buf = [], p_n = 0, p_out = []\<rparr>"

text \<open>The loop of \<open>update\<close>; \<open>n\<close> is below the piece size whenever it is entered.\<close>

function updateFrom :: "nat \<Rightarrow> bytes \<Rightarrow> hasher \<Rightarrow> hasher" where
  "updateFrom i buf s =
     (if i < length buf \<and> p_n s < PIECE then
        (let tk = min (PIECE - p_n s) (length buf - i);
             s1 = s\<lparr>p_buf := p_buf s @ subarray buf i (i + tk), p_n := p_n s + tk\<rparr>;
             s2 = if p_n s1 = PIECE then \<lparr>p_buf = [], p_n = 0, p_out = p_out s1 @ [sha256hex (p_buf s1)]\<rparr> else s1
         in updateFrom (i + tk) buf s2)
      else s)"
  by pat_completeness auto
termination
  by (relation "measure (\<lambda>(i, buf, s). length buf - i)") auto

declare updateFrom.simps [simp del]

definition update :: "bytes \<Rightarrow> hasher \<Rightarrow> hasher" where
  "update buf s = updateFrom 0 buf s"

definition finishPieces :: "hasher \<Rightarrow> string list" where
  "finishPieces s = (if p_n s \<noteq> 0 then p_out s @ [sha256hex (p_buf s)] else p_out s)"

subsection \<open>get\<close>

datatype reply = Sent "bytes option" | Threw bool

text \<open>A reply and the milliseconds it took; \<open>within\<close> turns a late one into a slow throw.\<close>

definition deadline :: "nat \<Rightarrow> nat" where
  "deadline len = 10000 + (len + 999) div 1000"

definition within :: "nat \<times> reply \<Rightarrow> nat \<Rightarrow> reply" where
  "within a ms = (if fst a > ms then Threw True else snd a)"

datatype question = AskPiece string | AskRange nat nat

text \<open>A run's answers, by the holder's position in the rank and the question.\<close>

type_synonym answers = "nat \<Rightarrow> question \<Rightarrow> nat \<times> reply"

record object =
  ob_kappa :: string
  ob_size :: nat
  ob_pieces :: "string list"

definition lenOf :: "object \<Rightarrow> nat \<Rightarrow> nat" where
  "lenOf ob p = min PIECE (ob_size ob - p * PIECE)"

definition pieceOk :: "object \<Rightarrow> nat \<Rightarrow> bytes \<Rightarrow> bool" where
  "pieceOk ob p b \<longleftrightarrow> p < length (ob_pieces ob) \<and> length b = lenOf ob p \<and> sha256hex b = ob_pieces ob ! p"

text \<open>The pieces a run has and what it noted of holders.\<close>

type_synonym got = "(nat \<rightharpoonup> bytes) \<times> (string \<times> bool) list"

definition takePiece :: "object \<Rightarrow> string \<Rightarrow> (question \<Rightarrow> nat \<times> reply) \<Rightarrow> nat \<Rightarrow> got \<Rightarrow> got" where
  "takePiece ob kind ask p g = (case g of (m, notes) \<Rightarrow>
     case within (ask (AskPiece (ob_pieces ob ! p))) (deadline (lenOf ob p)) of
       Sent (Some b) \<Rightarrow> if pieceOk ob p b then (m(p \<mapsto> b), notes @ [(kind, True)]) else (m, notes @ [(kind, False)])
     | Sent None \<Rightarrow> (m, notes)
     | Threw slow \<Rightarrow> (m, if slow then notes @ [(kind, False)] else notes))"

definition takePart :: "object \<Rightarrow> string \<Rightarrow> nat \<Rightarrow> bytes option \<Rightarrow> nat \<Rightarrow> got \<Rightarrow> got" where
  "takePart ob kind off buf p g = (case g of (m, notes) \<Rightarrow>
     case buf of None \<Rightarrow> (m, notes @ [(kind, False)])
     | Some b \<Rightarrow> let part = subarray b (p * PIECE - off) (p * PIECE - off + lenOf ob p)
         in if pieceOk ob p part then (m(p \<mapsto> part), notes @ [(kind, True)]) else (m, notes @ [(kind, False)]))"

definition missing :: "nat \<Rightarrow> nat \<Rightarrow> got \<Rightarrow> nat list" where
  "missing a b g = filter (\<lambda>p. fst g p = None) [a..<Suc b]"

definition askHolder :: "object \<Rightarrow> nat \<Rightarrow> nat \<Rightarrow> holder \<Rightarrow> (question \<Rightarrow> nat \<times> reply) \<Rightarrow> got \<Rightarrow> got" where
  "askHolder ob a b h ask g =
     (let want = missing a b g in
      if want = [] then g
      else if h_piece h then fold (takePiece ob (h_kind h) ask) want g
      else (let lo = hd want; hi = last want; off = lo * PIECE; len = hi * PIECE + lenOf ob hi - off
            in case within (ask (AskRange off len)) (deadline len) of
                 Threw slow \<Rightarrow> (fst g, if slow then snd g @ [(h_kind h, False)] else snd g)
               | Sent buf \<Rightarrow> fold (takePart ob (h_kind h) off buf) want g))"

fun askAll :: "object \<Rightarrow> nat \<Rightarrow> nat \<Rightarrow> answers \<Rightarrow> nat \<Rightarrow> holder list \<Rightarrow> got \<Rightarrow> got" where
  "askAll ob a b ans i [] g = g"
| "askAll ob a b ans i (h # hs) g = askAll ob a b ans (Suc i) hs (askHolder ob a b h (ans i) g)"

definition noHolder :: "object \<Rightarrow> nat \<Rightarrow> js_error" where
  "noHolder ob p = Error (ob_kappa ob @ '': no holder sent piece '' @ decimal p @ '' (sha256 '' @ take 12 (ob_pieces ob ! p) @ '')'')"

definition fetchRun :: "object \<Rightarrow> standing \<Rightarrow> holder list \<Rightarrow> answers \<Rightarrow> nat \<times> nat \<Rightarrow> (nat \<rightharpoonup> bytes) result" where
  "fetchRun ob st holders ans r = (case r of (a, b) \<Rightarrow>
     let g = askAll ob a b ans 0 (rank st holders) (Map.empty, [])
     in case missing a b g of [] \<Rightarrow> Inr (fst g) | p # ps \<Rightarrow> Inl (noHolder ob p))"

function runsFrom :: "nat \<Rightarrow> nat \<Rightarrow> nat \<Rightarrow> (nat \<times> nat) list" where
  "runsFrom p lst per = (if p \<le> lst then (p, min lst (p + max 1 per - 1)) # runsFrom (p + max 1 per) lst per else [])"
  by pat_completeness auto
termination
  by (relation "measure (\<lambda>(p, lst, per). Suc lst - p)") auto

declare runsFrom.simps [simp del]

definition cutTo :: "nat \<Rightarrow> nat \<Rightarrow> nat \<Rightarrow> bytes \<Rightarrow> bytes" where
  "cutTo from to p buf = (let start = p * PIECE in
     subarray buf (max from start - start) (Suc (min to (start + length buf - 1)) - start))"

text \<open>What \<open>get\<close> yields, run by run, and whether it ends by returning or by throwing.\<close>

fun yieldRuns :: "object \<Rightarrow> nat \<Rightarrow> nat \<Rightarrow> holder list \<Rightarrow> (nat \<Rightarrow> standing) \<Rightarrow> (nat \<Rightarrow> answers) \<Rightarrow> nat \<Rightarrow> (nat \<times> nat) list
    \<Rightarrow> bytes list \<times> unit result" where
  "yieldRuns ob from to holders st ans k [] = ([], Inr ())"
| "yieldRuns ob from to holders st ans k ((a, b) # rs) =
     (case fetchRun ob (st k) holders (ans k) (a, b) of
        Inl e \<Rightarrow> ([], Inl e)
      | Inr m \<Rightarrow> (let (out, r) = yieldRuns ob from to holders st ans (Suc k) rs
          in (map (\<lambda>p. cutTo from to p (the (m p))) [a..<Suc b] @ out, r)))"

definition get :: "object \<Rightarrow> nat \<Rightarrow> nat \<Rightarrow> nat \<Rightarrow> holder list \<Rightarrow> (nat \<Rightarrow> standing) \<Rightarrow> (nat \<Rightarrow> answers) \<Rightarrow> bytes list \<times> unit result" where
  "get ob run from to holders st ans =
     (if ob_pieces ob = [] \<or> length (ob_pieces ob) \<noteq> (ob_size ob + PIECE - 1) div PIECE
      then ([], Inl (Error (ob_kappa ob @ '': no piece list for '' @ decimal (ob_size ob) @ '' bytes'')))
      else yieldRuns ob from to holders st ans 0 (runsFrom (from div PIECE) (to div PIECE) (max 1 (run div PIECE))))"

subsection \<open>The piece list\<close>

definition hashed :: "bytes \<Rightarrow> hasher \<Rightarrow> bool" where
  "hashed bs s \<longleftrightarrow> (\<exists>done. bs = done @ p_buf s \<and> length done mod PIECE = 0 \<and> p_n s = length (p_buf s) \<and> p_n s < PIECE \<and>
     p_out s = map sha256hex (chunks PIECE done))"

lemma PIECE_pos [simp]: "0 < PIECE"
  by (simp add: PIECE_def)

lemma chunks_full_append: "0 < n \<Longrightarrow> length xs mod n = 0 \<Longrightarrow> chunks n (xs @ ys) = chunks n xs @ chunks n ys"
proof (induction "length xs" arbitrary: xs rule: less_induct)
  case less
  show ?case
  proof (cases "xs = []")
    case False
    then have "n \<le> length xs" using less.prems by (meson dvd_imp_le length_greater_0_conv mod_0_imp_dvd)
    moreover from this have "length (drop n xs) mod n = 0" using less.prems(2) by (simp add: le_mod_geq)
    ultimately have "chunks n (drop n xs @ ys) = chunks n (drop n xs) @ chunks n ys"
      using less False by simp
    with False less.prems \<open>n \<le> length xs\<close> show ?thesis
      by (simp add: chunks_step)
  qed simp
qed

lemma updateFrom_hashed:
  "hashed (bs @ take i buf) s \<Longrightarrow> i \<le> length buf \<Longrightarrow> hashed (bs @ buf) (updateFrom i buf s)"
proof (induction i buf s rule: updateFrom.induct)
  case (1 i buf s)
  show ?case
  proof (cases "i < length buf")
    case False
    with "1.prems" show ?thesis by (simp add: updateFrom.simps [of "length buf"])
  next
    case True
    define tk where "tk = min (PIECE - p_n s) (length buf - i)"
    define s1 where "s1 = s\<lparr>p_buf := p_buf s @ subarray buf i (i + tk), p_n := p_n s + tk\<rparr>"
    define s2 where "s2 = (if p_n s1 = PIECE then \<lparr>p_buf = [], p_n = 0, p_out = p_out s1 @ [sha256hex (p_buf s1)]\<rparr> else s1)"
    from "1.prems"(1) obtain d where d: "bs @ take i buf = d @ p_buf s" "length d mod PIECE = 0"
      "p_n s = length (p_buf s)" "p_n s < PIECE" "p_out s = map sha256hex (chunks PIECE d)"
      unfolding hashed_def by (elim exE conjE)
    have tk: "i + tk \<le> length buf" "p_n s + tk \<le> PIECE" using True d(4) by (auto simp: tk_def)
    have t: "take (i + tk) buf = take i buf @ subarray buf i (i + tk)" by (simp add: subarray_def take_add)
    have all: "bs @ take (i + tk) buf = d @ p_buf s1" using d(1) by (simp add: t s1_def append_assoc [symmetric] del: append_assoc)
    have n1: "p_n s1 = length (p_buf s1)" using d(3) tk by (simp add: s1_def length_subarray)
    have "hashed (bs @ take (i + tk) buf) s2"
    proof (cases "p_n s1 = PIECE")
      case full: True
      have "chunks PIECE (d @ p_buf s1) = chunks PIECE d @ [p_buf s1]"
        using full n1 d(2) chunks_short [of "p_buf s1" PIECE] PIECE_pos by (cases "p_buf s1 = []") (simp_all add: chunks_full_append)
      moreover have "length (d @ p_buf s1) mod PIECE = 0" using d(2) full n1 by simp
      moreover have "p_out s1 = map sha256hex (chunks PIECE d)" using d(5) by (simp add: s1_def)
      ultimately show ?thesis using full all by (simp add: hashed_def s2_def)
    next
      case part: False
      then have "p_n s1 < PIECE" using tk(2) by (simp add: s1_def)
      moreover have "p_out s1 = p_out s" by (simp add: s1_def)
      ultimately show ?thesis using part d(2,5) n1 all unfolding hashed_def s2_def by auto
    qed
    moreover have "updateFrom i buf s = updateFrom (i + tk) buf s2"
      using True d(4) by (simp add: updateFrom.simps [of i] Let_def tk_def s1_def s2_def)
    moreover have "i < length buf \<and> p_n s < PIECE" using True d(4) by simp
    note "1.IH" [OF this tk_def s1_def s2_def, OF _ tk(1)]
    ultimately show ?thesis by (simp only:)
  qed
qed

lemma update_hashed: "hashed bs s \<Longrightarrow> hashed (bs @ buf) (update buf s)"
  using updateFrom_hashed [of bs 0 buf s] by (simp add: update_def)

lemma updates_hashed: "hashed bs s \<Longrightarrow> hashed (bs @ concat bufs) (fold update bufs s)"
proof (induction bufs arbitrary: bs s)
  case (Cons buf bufs)
  from Cons.IH [OF update_hashed [OF Cons.prems, of buf]] show ?case by simp
qed simp

text \<open>
  The piece list does not depend on how the bytes arrived: over any chunks, \<open>PieceHasher\<close> gives
  the SHA-256 of each successive 1 MiB of the whole, the last piece shorter.
\<close>
theorem piece_hashes: "finishPieces (fold update bufs newHasher) = map sha256hex (chunks PIECE (concat bufs))"
proof -
  have "hashed [] newHasher" by (simp add: hashed_def newHasher_def)
  from updates_hashed [OF this, of bufs] obtain d where
    d: "concat bufs = d @ p_buf (fold update bufs newHasher)" "length d mod PIECE = 0"
      "p_n (fold update bufs newHasher) = length (p_buf (fold update bufs newHasher))"
      "p_n (fold update bufs newHasher) < PIECE" "p_out (fold update bufs newHasher) = map sha256hex (chunks PIECE d)"
    by (auto simp: hashed_def)
  then show ?thesis by (simp add: finishPieces_def chunks_full_append chunks_short)
qed

subsection \<open>Nothing unchecked is released\<close>

text \<open>What a holder sent, whole or in part.\<close>

definition sentBy :: "(question \<Rightarrow> nat \<times> reply) \<Rightarrow> bytes \<Rightarrow> bool" where
  "sentBy ask b \<longleftrightarrow> (\<exists>q c x y. snd (ask q) = Sent (Some c) \<and> b = subarray c x y)"

definition received :: "(nat \<Rightarrow> answers) \<Rightarrow> bytes \<Rightarrow> bool" where
  "received ans b \<longleftrightarrow> (\<exists>k i. sentBy (ans k i) b)"

definition sound :: "object \<Rightarrow> (bytes \<Rightarrow> bool) \<Rightarrow> got \<Rightarrow> bool" where
  "sound ob R g \<longleftrightarrow> (\<forall>p b. fst g p = Some b \<longrightarrow> pieceOk ob p b \<and> R b)"

lemma fold_sound: "(\<And>x g. sound ob R g \<Longrightarrow> sound ob R (f x g)) \<Longrightarrow> sound ob R g \<Longrightarrow> sound ob R (fold f xs g)"
  by (induction xs arbitrary: g) simp_all

lemma sentBy_within: "within (ask q) ms = Sent (Some c) \<Longrightarrow> sentBy ask (subarray c x y)"
  by (auto simp: within_def sentBy_def split: if_splits)

lemma sentBy_whole: "within (ask q) ms = Sent (Some c) \<Longrightarrow> sentBy ask c"
  using sentBy_within [of ask q ms c 0 "length c"] by simp

lemma takePiece_sound:
  assumes "sound ob R g" and "\<And>b. sentBy ask b \<Longrightarrow> R b"
  shows "sound ob R (takePiece ob kind ask p g)"
  using assms sentBy_whole [of ask] by (fastforce simp: sound_def takePiece_def split: prod.splits reply.splits option.splits if_splits)

lemma takePart_sound:
  assumes "sound ob R g" and "\<And>c x y. buf = Some c \<Longrightarrow> R (subarray c x y)"
  shows "sound ob R (takePart ob kind off buf p g)"
  using assms by (auto simp: sound_def takePart_def Let_def split: prod.splits option.splits if_splits)

lemma askHolder_sound:
  assumes "sound ob R g" and "\<And>b. sentBy ask b \<Longrightarrow> R b"
  shows "sound ob R (askHolder ob a b h ask g)"
proof -
  have "sound ob R (fold (takePiece ob (h_kind h) ask) (missing a b g) g)"
    by (rule fold_sound) (simp_all add: takePiece_sound assms)
  moreover have "within (ask (AskRange off len)) ms = Sent buf \<Longrightarrow> sound ob R (fold (takePart ob (h_kind h) off' buf) (missing a b g) g)"
    for off len ms off' buf
    by (rule fold_sound) (auto intro!: takePart_sound assms sentBy_within)
  ultimately show ?thesis using assms(1) by (auto simp: askHolder_def Let_def sound_def split: reply.splits)
qed

lemma askAll_sound: "sound ob R g \<Longrightarrow> (\<And>i b. sentBy (ans i) b \<Longrightarrow> R b) \<Longrightarrow> sound ob R (askAll ob a b ans i hs g)"
  by (induction hs arbitrary: i g) (simp_all add: askHolder_sound)

lemma missing_Nil: "missing a b g = [] \<longleftrightarrow> (\<forall>p. a \<le> p \<and> p \<le> b \<longrightarrow> fst g p \<noteq> None)"
  by (auto simp: missing_def filter_empty_conv)

lemma fetchRun_pieces:
  assumes "fetchRun ob st holders ans (a, b) = Inr m" and "a \<le> p" and "p \<le> b"
    and "\<And>i b. sentBy (ans i) b \<Longrightarrow> R b"
  shows "\<exists>buf. m p = Some buf \<and> pieceOk ob p buf \<and> R buf"
proof -
  define g where "g = askAll ob a b ans 0 (rank st holders) (Map.empty, [])"
  have "sound ob R g" unfolding g_def by (rule askAll_sound) (auto simp: sound_def intro: assms(4))
  moreover have "missing a b g = []" and "m = fst g"
    using assms(1) by (auto simp: fetchRun_def g_def Let_def split: list.splits)
  ultimately show ?thesis using assms(2,3) by (auto simp: missing_Nil sound_def)
qed

text \<open>The pieces a run list covers, in order.\<close>

lemma runsFrom_cover: "concat (map (\<lambda>(a, b). [a..<Suc b]) (runsFrom p lst per)) = [p..<Suc lst]"
proof (induction p lst per rule: runsFrom.induct)
  case (1 p lst per)
  show ?case
  proof (cases "p \<le> lst")
    case True
    let ?q = "p + max 1 per"
    have "concat (map (\<lambda>(a, b). [a..<Suc b]) (runsFrom p lst per)) = [p..<Suc (min lst (?q - 1))] @ [?q..<Suc lst]"
      using "1.IH" True by (simp add: runsFrom.simps [of p])
    also have "\<dots> = [p..<Suc lst]"
    proof (cases "?q \<le> lst")
      case True
      then have "Suc (min lst (?q - 1)) = ?q" by simp
      then show ?thesis using True upt_add_eq_append [of p ?q "Suc lst - ?q"] by simp
    next
      case False
      then have "min lst (?q - 1) = lst" "Suc lst \<le> ?q" by linarith+
      then show ?thesis by simp
    qed
    finally show ?thesis .
  qed (simp add: runsFrom.simps [of p])
qed

lemma yieldRuns_checked:
  "yieldRuns ob from to holders st ans k rs = (out, r) \<Longrightarrow>
   \<exists>bufs. list_all2 (\<lambda>p b. pieceOk ob p b \<and> received ans b) (take (length bufs) (concat (map (\<lambda>(a, b). [a..<Suc b]) rs))) bufs \<and>
     out = map2 (cutTo from to) (concat (map (\<lambda>(a, b). [a..<Suc b]) rs)) bufs \<and>
     (r = Inr () \<longrightarrow> length bufs = length (concat (map (\<lambda>(a, b). [a..<Suc b]) rs)))"
proof (induction rs arbitrary: k out)
  case (Cons ab rs)
  obtain a b where ab: "ab = (a, b)" by (cases ab)
  show ?case
  proof (cases "fetchRun ob (st k) holders (ans k) (a, b)")
    case (Inl e)
    with Cons.prems show ?thesis by (intro exI [of _ "[]"]) (auto simp: ab)
  next
    case (Inr m)
    obtain out' where y: "yieldRuns ob from to holders st ans (Suc k) rs = (out', r)"
      and out: "out = map (\<lambda>p. cutTo from to p (the (m p))) [a..<Suc b] @ out'"
      using Cons.prems by (auto simp: ab Inr Let_def split: prod.splits)
    from Cons.IH [OF y] obtain bufs where
      b: "list_all2 (\<lambda>p b. pieceOk ob p b \<and> received ans b) (take (length bufs) (concat (map (\<lambda>(a, b). [a..<Suc b]) rs))) bufs"
        "out' = map2 (cutTo from to) (concat (map (\<lambda>(a, b). [a..<Suc b]) rs)) bufs"
        "r = Inr () \<longrightarrow> length bufs = length (concat (map (\<lambda>(a, b). [a..<Suc b]) rs))" by blast
    define ps where "ps = [a..<Suc b]"
    define hd_bufs where "hd_bufs = map (\<lambda>p. the (m p)) ps"
    have "\<forall>p \<in> set ps. pieceOk ob p (the (m p)) \<and> received ans (the (m p))"
      using fetchRun_pieces [OF Inr, of _ "received ans"] by (fastforce simp: ps_def received_def)
    then have h: "list_all2 (\<lambda>p b. pieceOk ob p b \<and> received ans b) ps hd_bufs" by (simp add: hd_bufs_def list_all2_map2 list_all2_same)
    have l: "length hd_bufs = length ps" by (simp add: hd_bufs_def)
    have e: "map (\<lambda>p. cutTo from to p (the (m p))) ps = map2 (cutTo from to) ps hd_bufs"
      unfolding hd_bufs_def by (induction ps) simp_all
    show ?thesis
      by (rule exI [of _ "hd_bufs @ bufs"])
        (use b h l in \<open>simp add: ab out ps_def [symmetric] e list_all2_appendI del: upt_Suc\<close>)
  qed
qed simp

text \<open>The bytes of an object's pieces, cut to a range, are the range.\<close>

definition pieceOf :: "bytes \<Rightarrow> nat \<Rightarrow> bytes" where
  "pieceOf obj p = subarray obj (p * PIECE) (p * PIECE + PIECE)"

lemma nth_chunks: "0 < n \<Longrightarrow> p < length (chunks n xs) \<Longrightarrow> chunks n xs ! p = subarray xs (p * n) (p * n + n)"
proof (induction p arbitrary: xs)
  case 0
  then show ?case by (cases "xs = []") (simp_all add: chunks_step subarray_def)
next
  case (Suc p)
  then have ne: "xs \<noteq> []" by auto
  then have "chunks n xs ! Suc p = chunks n (drop n xs) ! p" using Suc.prems by (simp add: chunks_step)
  also have "\<dots> = subarray (drop n xs) (p * n) (p * n + n)"
    using Suc ne by (simp add: chunks_step)
  finally show ?case by (simp add: subarray_def add.commute)
qed

lemma cut_end: "(to::nat) < n \<Longrightarrow> s \<le> to \<Longrightarrow> 0 < m \<Longrightarrow> L = min (s + m) n - s \<Longrightarrow>
    Suc (min to (s + L - 1)) - s = min (Suc to) (s + m) - s"
  by (cases "s + m \<le> n"; cases "to \<le> s + L - 1") (auto simp: min_def)

lemma cutTo_pieceOf:
  assumes "to < length obj" and "p * PIECE \<le> to" and "from < p * PIECE + PIECE"
  shows "cutTo from to p (pieceOf obj p) = subarray obj (max from (p * PIECE)) (min (Suc to) (p * PIECE + PIECE))"
proof -
  let ?s = "p * PIECE"
  have len: "length (pieceOf obj p) = min (?s + PIECE) (length obj) - ?s" by (simp add: pieceOf_def length_subarray)
  then have e: "Suc (min to (?s + length (pieceOf obj p) - 1)) - ?s = min (Suc to) (?s + PIECE) - ?s"
    by (rule cut_end [OF assms(1,2) PIECE_pos])
  have "subarray (subarray obj ?s (?s + PIECE)) (max from ?s - ?s) (min (Suc to) (?s + PIECE) - ?s)
      = subarray obj (max from ?s) (min (Suc to) (?s + PIECE))"
    by (simp add: subarray_def drop_take min_def max_def)
  then show ?thesis unfolding cutTo_def Let_def e unfolding pieceOf_def .
qed

lemma concat_cut:
  assumes "to < length obj" and "from \<le> to" and "from div PIECE + n \<le> Suc (to div PIECE)" and "0 < n"
  shows "concat (map (\<lambda>p. cutTo from to p (pieceOf obj p)) [from div PIECE..<from div PIECE + n])
     = subarray obj from (min (Suc to) ((from div PIECE + n) * PIECE))"
  using assms(3,4)
proof (induction n)
  case (Suc n)
  let ?f = "from div PIECE" let ?p = "?f + n"
  have p: "?p * PIECE \<le> to"
    by (rule order.trans [OF mult_le_mono1 [of ?p "to div PIECE" PIECE] div_times_less_eq_dividend]) (use Suc.prems(1) in simp)
  have f: "from < ?p * PIECE + PIECE"
    using dividend_less_div_times [OF PIECE_pos, of "from"] by (simp add: add_mult_distrib add.commute trans_less_add2)
  have c: "cutTo from to ?p (pieceOf obj ?p) = subarray obj (max from (?p * PIECE)) (min (Suc to) (?p * PIECE + PIECE))"
    by (rule cutTo_pieceOf [OF assms(1) p f])
  show ?case
  proof (cases "n = 0")
    case True
    have "?f * PIECE \<le> from" by simp
    then show ?thesis using c True by (simp add: max_absorb1 add.commute)
  next
    case False
    then have IH: "concat (map (\<lambda>p. cutTo from to p (pieceOf obj p)) [?f..<?p]) = subarray obj from (min (Suc to) (?p * PIECE))"
      using Suc by simp
    have "from < Suc ?f * PIECE" using dividend_less_div_times [OF PIECE_pos, of "from"] by simp
    also have "Suc ?f * PIECE \<le> ?p * PIECE" using False by (intro mult_le_mono1) simp
    finally have ge: "from \<le> ?p * PIECE" by simp
    have "concat (map (\<lambda>p. cutTo from to p (pieceOf obj p)) [?f..<?f + Suc n]) =
        subarray obj from (?p * PIECE) @ subarray obj (?p * PIECE) (min (Suc to) (?p * PIECE + PIECE))"
      using c IH ge p by (simp add: max_def min_def)
    also have "\<dots> = subarray obj from (min (Suc to) (?p * PIECE + PIECE))"
      by (rule subarray_append_take) (use ge p in auto)
    finally show ?thesis by (simp add: add.commute)
  qed
qed simp

subsection \<open>The range, and nothing but the range\<close>

text \<open>An object and the piece list that names it.\<close>

definition objectOf :: "string \<Rightarrow> bytes \<Rightarrow> object" where
  "objectOf kappa obj = \<lparr>ob_kappa = kappa, ob_size = length obj, ob_pieces = map sha256hex (chunks PIECE obj)\<rparr>"

text \<open>No holder found other bytes with the hash of a piece.\<close>

definition collisionFree :: "bytes \<Rightarrow> (nat \<Rightarrow> answers) \<Rightarrow> bool" where
  "collisionFree obj ans \<longleftrightarrow> (\<forall>b p. received ans b \<longrightarrow> length b = length (pieceOf obj p) \<longrightarrow>
     sha256hex b = sha256hex (pieceOf obj p) \<longrightarrow> b = pieceOf obj p)"

lemma lenOf_pieceOf: "lenOf (objectOf kappa obj) p = length (pieceOf obj p)"
  by (simp add: lenOf_def objectOf_def pieceOf_def length_subarray)

lemma length_pieces: "length (chunks PIECE obj) = (length obj + PIECE - 1) div PIECE"
  by (simp add: length_chunks)

lemma piece_index: "to < length obj \<Longrightarrow> to div PIECE < length (chunks PIECE obj)"
proof -
  assume "to < length obj"
  moreover have "to div PIECE * PIECE \<le> to" by (rule div_times_less_eq_dividend)
  ultimately have "to div PIECE * PIECE + PIECE \<le> length obj + PIECE - 1" using PIECE_pos by linarith
  then have "Suc (to div PIECE) * PIECE \<le> length obj + PIECE - 1" by (simp only: mult_Suc add.commute)
  then have "Suc (to div PIECE) \<le> (length obj + PIECE - 1) div PIECE" by (simp add: less_eq_div_iff_mult_less_eq del: mult_Suc)
  then show ?thesis by (simp add: length_pieces)
qed

lemma get_runs:
  assumes "obj \<noteq> []"
  shows "get (objectOf kappa obj) run from to holders st ans =
     yieldRuns (objectOf kappa obj) from to holders st ans 0 (runsFrom (from div PIECE) (to div PIECE) (max 1 (run div PIECE)))"
proof -
  have "chunks PIECE obj \<noteq> []" using assms by (simp add: chunks_step)
  then show ?thesis by (simp add: get_def objectOf_def length_pieces)
qed

lemma map2_self: "map2 f xs (map g xs) = map (\<lambda>x. f x (g x)) xs"
  by (induction xs) simp_all

lemma get_prefix:
  assumes "from \<le> to" and "to < length obj" and "collisionFree obj ans"
    and "get (objectOf kappa obj) run from to holders st ans = (out, r)"
  shows "\<exists>e \<le> Suc to. concat out = subarray obj from e \<and> (r = Inr () \<longrightarrow> e = Suc to)"
proof -
  let ?f = "from div PIECE" let ?ps = "[?f..<Suc (to div PIECE)]"
  have ne: "obj \<noteq> []" using assms(2) by auto
  from yieldRuns_checked [OF assms(4) [unfolded get_runs [OF ne]], unfolded runsFrom_cover] obtain bufs where
    b: "list_all2 (\<lambda>p b. pieceOk (objectOf kappa obj) p b \<and> received ans b) (take (length bufs) ?ps) bufs"
      "out = map2 (cutTo from to) ?ps bufs" "r = Inr () \<longrightarrow> length bufs = length ?ps" by blast
  have n: "length bufs \<le> length ?ps" using list_all2_lengthD [OF b(1)] by simp
  have tk: "take (length bufs) ?ps = [?f..<?f + length bufs]" 
    by (rule take_upt) (use n div_le_mono [OF assms(1), of PIECE] in \<open>simp del: upt_Suc\<close>)
  have same: "buf = pieceOf obj p" if "pieceOk (objectOf kappa obj) p buf \<and> received ans buf" for p buf
    using that assms(3) nth_chunks [OF PIECE_pos, of p obj] lenOf_pieceOf [of kappa obj p]
    by (auto simp: collisionFree_def pieceOk_def objectOf_def pieceOf_def)
  have "list_all2 (\<lambda>p b. b = pieceOf obj p) [?f..<?f + length bufs] bufs"
    using b(1) unfolding tk by (rule list_all2_mono) (rule same)
  then have bufs: "bufs = map (pieceOf obj) [?f..<?f + length bufs]"
    by (auto simp: list_all2_conv_all_nth intro!: nth_equalityI)
  have "zip ?ps bufs = zip (take (length bufs) ?ps) bufs"
    using take_zip [of "length bufs" ?ps bufs] by (simp add: min_def del: upt_Suc)
  then have "out = map2 (cutTo from to) [?f..<?f + length bufs] bufs" unfolding b(2) tk by simp
  moreover define n where "n = length bufs"
  ultimately have "out = map2 (cutTo from to) [?f..<?f + n] (map (pieceOf obj) [?f..<?f + n])" using bufs by simp
  then have out: "out = map (\<lambda>p. cutTo from to p (pieceOf obj p)) [?f..<?f + length bufs]"
    unfolding n_def [symmetric] by (simp only: map2_self)
  show ?thesis
  proof (cases "length bufs = 0")
    case True
    have "?f \<le> to div PIECE" by (rule div_le_mono [OF assms(1)])
    then have "r \<noteq> Inr ()" using b(3) True by auto
    then show ?thesis using out True assms(1) by (intro exI [of _ "from"]) (simp add: subarray_def)
  next
    case False
    have "?f + length bufs \<le> Suc (to div PIECE)" using n div_le_mono [OF assms(1), of PIECE] by simp
    from concat_cut [OF assms(2,1) this] False have c: "concat out = subarray obj from (min (Suc to) ((?f + length bufs) * PIECE))"
      by (simp add: out)
    have "length bufs = length ?ps \<Longrightarrow> min (Suc to) ((?f + length bufs) * PIECE) = Suc to"
      using div_le_mono [OF assms(1), of PIECE] dividend_less_div_times [OF PIECE_pos, of to] by (simp add: Suc_le_eq)
    then show ?thesis using c b(3) by (intro exI [of _ "min (Suc to) ((?f + length bufs) * PIECE)"]) auto
  qed
qed

subsection \<open>One honest holder is enough\<close>

definition honest :: "bytes \<Rightarrow> holder \<Rightarrow> (question \<Rightarrow> nat \<times> reply) \<Rightarrow> bool" where
  "honest obj h ask \<longleftrightarrow> (if h_piece h
     then \<forall>p. p * PIECE < length obj \<longrightarrow>
       (\<exists>t \<le> deadline (length (pieceOf obj p)). ask (AskPiece (sha256hex (pieceOf obj p))) = (t, Sent (Some (pieceOf obj p))))
     else \<forall>off len. off + len \<le> length obj \<longrightarrow>
       (\<exists>t \<le> deadline len. ask (AskRange off len) = (t, Sent (Some (subarray obj off (off + len))))))"

lemma pieceOk_pieceOf: "p * PIECE < length obj \<Longrightarrow> ob_pieces (objectOf kappa obj) ! p = sha256hex (pieceOf obj p) \<and> pieceOk (objectOf kappa obj) p (pieceOf obj p)"
proof -
  assume "p * PIECE < length obj"
  then have "p < length (chunks PIECE obj)" using piece_index [of "p * PIECE" obj] by simp
  then show ?thesis using nth_chunks [OF PIECE_pos, of p obj]
    by (simp add: pieceOk_def lenOf_pieceOf) (simp add: objectOf_def pieceOf_def)
qed

lemma fold_keeps: "(\<And>x g. fst g p \<noteq> None \<Longrightarrow> fst (f x g) p \<noteq> None) \<Longrightarrow> fst g p \<noteq> None \<Longrightarrow> fst (fold f xs g) p \<noteq> None"
  by (induction xs arbitrary: g) simp_all

lemma fold_fills:
  assumes "\<And>x g. fst g p \<noteq> None \<Longrightarrow> fst (f x g) p \<noteq> None" and "\<And>g. fst (f p g) p \<noteq> None" and "p \<in> set xs"
  shows "fst (fold f xs g) p \<noteq> None"
  using assms(3)
proof (induction xs arbitrary: g)
  case (Cons x xs)
  show ?case
  proof (cases "x = p")
    case True
    then show ?thesis using fold_keeps [of p f "f p g" xs] assms(1,2) by simp
  next
    case False
    then show ?thesis using Cons by simp
  qed
qed simp

lemma take_keeps:
  "fst g p \<noteq> None \<Longrightarrow> fst (takePiece ob kind ask x g) p \<noteq> None"
  "fst g p \<noteq> None \<Longrightarrow> fst (takePart ob kind off buf x g) p \<noteq> None"
  by (auto simp: takePiece_def takePart_def Let_def split: prod.splits reply.splits option.splits)

lemma askHolder_keeps: "fst g p \<noteq> None \<Longrightarrow> fst (askHolder ob a b h ask g) p \<noteq> None"
  using fold_keeps [of p "takePiece ob (h_kind h) ask" g] fold_keeps [of p "takePart ob (h_kind h) _ _" g]
  by (simp add: askHolder_def Let_def take_keeps split: reply.splits)

lemma askAll_keeps: "fst g p \<noteq> None \<Longrightarrow> fst (askAll ob a b ans i hs g) p \<noteq> None"
  by (induction hs arbitrary: i g) (simp_all add: askHolder_keeps del: not_None_eq)

lemma missing_sorted: "sorted (missing a b g)" and missing_range: "p \<in> set (missing a b g) \<Longrightarrow> a \<le> p \<and> p \<le> b"
  by (auto simp: missing_def sorted_wrt_filter simp del: upt_Suc)

lemma span_end: "(lo::nat) \<le> hi \<Longrightarrow> hi < n \<Longrightarrow> lo + (hi + min m (n - hi) - lo) = min (hi + m) n"
  by (auto simp: min_def)

lemma takePart_honest:
  fixes kappa :: string
  assumes "lo \<le> p" and "p \<le> hi" and "hi * PIECE < length obj"
  defines "off \<equiv> lo * PIECE" and "len \<equiv> hi * PIECE + lenOf (objectOf kappa obj) hi - lo * PIECE"
  shows "off + len \<le> length obj" and "fst (takePart (objectOf kappa obj) kind off (Some (subarray obj off (off + len))) p g) p \<noteq> None"
proof -
  have l: "lo * PIECE \<le> p * PIECE" "p * PIECE \<le> hi * PIECE" using assms(1,2) by simp_all
  have "off + len = lo * PIECE + (hi * PIECE + min PIECE (length obj - hi * PIECE) - lo * PIECE)"
    by (simp add: off_def len_def lenOf_def objectOf_def)
  also have "\<dots> = min (hi * PIECE + PIECE) (length obj)"
    by (rule span_end [OF order.trans [OF l] assms(3)])
  finally have len: "off + len = min (hi * PIECE + PIECE) (length obj)" .
  then show "off + len \<le> length obj" by simp
  have hp: "p < hi \<Longrightarrow> p * PIECE + PIECE \<le> hi * PIECE" using mult_le_mono1 [of "Suc p" hi PIECE] by simp
  have "subarray (subarray obj off (off + len)) (p * PIECE - off) (p * PIECE - off + lenOf (objectOf kappa obj) p) = pieceOf obj p"
  proof -
    have "p * PIECE + lenOf (objectOf kappa obj) p \<le> off + len"
      using hp assms(2,3) unfolding len by (cases "p = hi") (auto simp: lenOf_def objectOf_def min_def)
    then have "subarray (subarray obj off (off + len)) (p * PIECE - off) (p * PIECE - off + lenOf (objectOf kappa obj) p)
        = subarray obj (p * PIECE) (p * PIECE + lenOf (objectOf kappa obj) p)"
      using l(1) by (simp add: subarray_def off_def drop_take)
    also have "\<dots> = pieceOf obj p" by (simp add: pieceOf_def lenOf_def objectOf_def subarray_def min_def)
    finally show ?thesis .
  qed
  moreover have "p * PIECE < length obj" using l(2) assms(3) by (rule order.strict_trans1)
  ultimately show "fst (takePart (objectOf kappa obj) kind off (Some (subarray obj off (off + len))) p g) p \<noteq> None"
    using pieceOk_pieceOf [of p obj kappa] by (simp add: takePart_def Let_def split: prod.splits)
qed

lemma askHolder_honest:
  assumes "honest obj h ask" and "b * PIECE < length obj" and "a \<le> p" and "p \<le> b"
  shows "fst (askHolder (objectOf kappa obj) a b h ask g) p \<noteq> None"
proof (cases "fst g p = None")
  case False
  then show ?thesis by (rule askHolder_keeps)
next
  case True
  let ?ob = "objectOf kappa obj" let ?want = "missing a b g"
  have p: "p \<in> set ?want" using True assms(3,4) by (simp add: missing_def del: upt_Suc)
  then have ne: "?want \<noteq> []" by auto
  have "p * PIECE \<le> b * PIECE" using assms(4) by simp
  then have pl: "p * PIECE < length obj" using assms(2) by (rule order.strict_trans1)
  show ?thesis
  proof (cases "h_piece h")
    case pc: True
    have filled: "fst (takePiece ?ob (h_kind h) ask p g) p \<noteq> None" for g
      using assms(1) pc pl pieceOk_pieceOf [OF pl, of kappa]
      by (fastforce simp: honest_def takePiece_def within_def lenOf_pieceOf split: prod.splits)
    have "fst (fold (takePiece ?ob (h_kind h) ask) ?want g) p \<noteq> None"
      by (rule fold_fills [of p "takePiece ?ob (h_kind h) ask"]) (rule take_keeps(1) filled p | assumption)+
    then show ?thesis using ne pc by (simp add: askHolder_def Let_def)
  next
    case rg: False
    let ?lo = "hd ?want" let ?hi = "last ?want"
    let ?off = "?lo * PIECE" let ?len = "?hi * PIECE + lenOf ?ob ?hi - ?lo * PIECE"
    have lo: "?lo \<le> p" and hi: "p \<le> ?hi"
      using missing_sorted [of a b g] p ne by (auto dest: sorted_hd_last)
    have "?hi \<le> b" using missing_range [OF last_in_set [OF ne]] by simp
    then have "?hi * PIECE \<le> b * PIECE" by simp
    then have hl: "?hi * PIECE < length obj" using assms(2) by (rule order.strict_trans1)
    note part = takePart_honest [OF lo hi hl, of kappa]
    obtain t where "t \<le> deadline ?len" "ask (AskRange ?off ?len) = (t, Sent (Some (subarray obj ?off (?off + ?len))))"
      using assms(1) rg part(1) by (auto simp: honest_def)
    then have w: "within (ask (AskRange ?off ?len)) (deadline ?len) = Sent (Some (subarray obj ?off (?off + ?len)))"
      by (simp add: within_def)
    have "fst (fold (takePart ?ob (h_kind h) ?off (Some (subarray obj ?off (?off + ?len)))) ?want g) p \<noteq> None"
      by (rule fold_fills [of p "takePart ?ob (h_kind h) ?off (Some (subarray obj ?off (?off + ?len)))"])
        (rule take_keeps(2) part(2) p | assumption)+
    then show ?thesis using ne rg w by (simp add: askHolder_def Let_def)
  qed
qed

lemma askAll_honest:
  assumes "hs ! j = h" and "j < length hs" and "honest obj h (ans (i + j))" and "b * PIECE < length obj" and "a \<le> p" and "p \<le> b"
  shows "fst (askAll (objectOf kappa obj) a b ans i hs g) p \<noteq> None"
  using assms(1-3)
proof (induction hs arbitrary: i j g)
  case (Cons h' hs)
  show ?case
  proof (cases j)
    case 0
    then show ?thesis using Cons.prems askHolder_honest [OF _ assms(4-6), of h "ans i" kappa g] by (simp add: askAll_keeps del: not_None_eq)
  next
    case (Suc j')
    then show ?thesis using Cons.prems Cons.IH [of j' "Suc i"] by simp
  qed
qed simp

lemma set_rank: "set (rank st holders) = set holders"
  by (auto simp: rank_def)

lemma fetchRun_honest:
  assumes "h \<in> set holders" and "\<And>i. rank st holders ! i = h \<Longrightarrow> honest obj h (ans i)" and "b * PIECE < length obj"
  shows "\<exists>m. fetchRun (objectOf kappa obj) st holders ans (a, b) = Inr m"
proof -
  let ?g = "askAll (objectOf kappa obj) a b ans 0 (rank st holders) (Map.empty, [])"
  obtain j where "rank st holders ! j = h" "j < length (rank st holders)"
    using assms(1) set_rank [of st holders] by (metis in_set_conv_nth)
  then have "\<forall>p. a \<le> p \<and> p \<le> b \<longrightarrow> fst ?g p \<noteq> None"
    using askAll_honest [of "rank st holders" j h obj ans 0 b a] assms(2,3) by simp
  then have "missing a b ?g = []" by (simp only: missing_Nil)
  then show ?thesis by (simp add: fetchRun_def Let_def)
qed

lemma runsFrom_bound: "(a, b) \<in> set (runsFrom p lst per) \<Longrightarrow> b \<le> lst"
proof (induction p lst per rule: runsFrom.induct)
  case (1 p lst per)
  then show ?case by (cases "p \<le> lst") (auto simp: runsFrom.simps [of p])
qed

lemma yieldRuns_honest:
  assumes "h \<in> set holders" and "\<And>k i. rank (st k) holders ! i = h \<Longrightarrow> honest obj h (ans k i)"
    and "\<forall>(a, b) \<in> set rs. b * PIECE < length obj"
  shows "snd (yieldRuns (objectOf kappa obj) from to holders st ans k rs) = Inr ()"
  using assms(3)
proof (induction rs arbitrary: k)
  case (Cons ab rs)
  obtain a b where ab: "ab = (a, b)" by (cases ab)
  obtain m where "fetchRun (objectOf kappa obj) (st k) holders (ans k) (a, b) = Inr m"
    using fetchRun_honest [OF assms(1), of "st k" obj "ans k" b kappa a] assms(2) Cons.prems ab by auto
  with Cons show ?case by (simp add: ab Let_def split: prod.splits) (metis snd_conv)
qed simp

text \<open>
  C17. \<open>get\<close> never releases a wrong byte: whatever the holders answer, in whatever order the runs
  and the standing of holders interleave, what it has yielded when it returns or throws is a prefix
  of the range asked for, and the whole range when it returns. The one assumption is that no holder
  sent other bytes with the SHA-256 of one of the object's pieces.
\<close>
theorem get_never_wrong:
  assumes "from \<le> to" and "to < length obj" and "collisionFree obj ans"
    and "get (objectOf kappa obj) run from to holders st ans = (out, r)"
  shows "\<exists>e \<le> Suc to. concat out = subarray obj from e \<and> (r = Inr () \<longrightarrow> e = Suc to)"
  using assms by (rule get_prefix)

text \<open>
  C16. One honest holder is enough: if some holder answers every question about the object in time,
  then whatever the others do and wherever their standing ranks it, \<open>get\<close> returns the whole range.
\<close>
theorem get_delivers:
  assumes "from \<le> to" and "to < length obj" and "collisionFree obj ans"
    and "h \<in> set holders" and "\<And>k i. rank (st k) holders ! i = h \<Longrightarrow> honest obj h (ans k i)"
  shows "snd (get (objectOf kappa obj) run from to holders st ans) = Inr () \<and>
     concat (fst (get (objectOf kappa obj) run from to holders st ans)) = subarray obj from (Suc to)"
proof -
  have ne: "obj \<noteq> []" using assms(2) by auto
  have "b * PIECE < length obj" if "(a, b) \<in> set (runsFrom (from div PIECE) (to div PIECE) (max 1 (run div PIECE)))" for a b
  proof -
    have "b * PIECE \<le> to div PIECE * PIECE" using runsFrom_bound [OF that] by simp
    also have "\<dots> \<le> to" by (rule div_times_less_eq_dividend)
    finally show ?thesis using assms(2) by simp
  qed
  then have "snd (get (objectOf kappa obj) run from to holders st ans) = Inr ()"
    unfolding get_runs [OF ne] by (intro yieldRuns_honest [OF assms(4,5)]) auto
  with get_prefix [OF assms(1-3), of kappa run holders st] show ?thesis by (metis prod.collapse)
qed

subsection \<open>Concrete runs\<close>

definition mirror :: "bytes \<Rightarrow> nat \<Rightarrow> answers" where
  "mirror obj k i q = (case q of AskRange off len \<Rightarrow> (0, Sent (Some (subarray obj off (off + len)))) | AskPiece _ \<Rightarrow> (0, Sent None))"

lemma mirror_honest: "\<not> h_piece h \<Longrightarrow> honest obj h (mirror obj k i)"
  by (auto simp: honest_def mirror_def)

lemma mirror_received: "received (mirror (replicate n x)) b \<Longrightarrow> b = replicate (length b) x"
proof -
  assume "received (mirror (replicate n x)) b"
  then obtain k i q c s e where q: "snd (mirror (replicate n x) k i q) = Sent (Some c)" and b: "b = subarray c s e"
    by (auto simp: received_def sentBy_def)
  from q obtain m where "c = replicate m x" by (cases q) (auto simp: mirror_def subarray_def)
  then show ?thesis by (simp add: b subarray_def)
qed

lemma mirror_collisionFree: "collisionFree (replicate n x) (mirror (replicate n x))"
proof -
  have "pieceOf (replicate n x) p = replicate (length (pieceOf (replicate n x) p)) x" for p
    by (simp add: pieceOf_def subarray_def)
  then show ?thesis unfolding collisionFree_def using mirror_received by metis
qed

theorem get_never_wrong_witness:
  "\<exists>out r e. get (objectOf ''k'' [7, 7, 7]) RUN 1 2 [\<lparr>h_kind = ''hf'', h_piece = False\<rparr>] (\<lambda>_. Map.empty) (mirror [7, 7, 7]) = (out, r) \<and>
     e \<le> 3 \<and> concat out = subarray [7, 7, 7] 1 e"
proof -
  obtain out r where g: "get (objectOf ''k'' [7, 7, 7]) RUN 1 2 [\<lparr>h_kind = ''hf'', h_piece = False\<rparr>] (\<lambda>_. Map.empty) (mirror [7, 7, 7]) = (out, r)"
    by (cases "get (objectOf ''k'' [7, 7, 7]) RUN 1 2 [\<lparr>h_kind = ''hf'', h_piece = False\<rparr>] (\<lambda>_. Map.empty) (mirror [7, 7, 7])")
  have "collisionFree [7, 7, 7] (mirror [7, 7, 7])" using mirror_collisionFree [of 3 7] by (simp add: numeral_3_eq_3)
  from get_never_wrong [OF _ _ this g] g show ?thesis by (auto simp: numeral_3_eq_3 numeral_2_eq_2)
qed

theorem get_delivers_witness:
  "concat (fst (get (objectOf ''k'' [7, 7, 7]) RUN 1 2 [\<lparr>h_kind = ''hf'', h_piece = False\<rparr>] (\<lambda>_. Map.empty) (mirror [7, 7, 7]))) = [7, 7]"
proof -
  have "collisionFree [7, 7, 7] (mirror [7, 7, 7])" using mirror_collisionFree [of 3 7] by (simp add: numeral_3_eq_3)
  from get_delivers [OF _ _ this, of 1 2 "\<lparr>h_kind = ''hf'', h_piece = False\<rparr>" "[\<lparr>h_kind = ''hf'', h_piece = False\<rparr>]" "\<lambda>_. Map.empty" "''k''" RUN]
  show ?thesis by (simp add: mirror_honest subarray_def)
qed

lemma sorted_wrt_true_filter: "(\<And>x y. P x \<Longrightarrow> P y \<Longrightarrow> R x y) \<Longrightarrow> sorted_wrt R (filter P xs)"
  by (induction xs) auto

text \<open>
  A liar goes to the back of the line and stays there: the ranked holders are the holders, each
  as often as listed; none whose record is clean follows one with a strike; and after a lie or a
  missed deadline is noted the holder ranks behind for good, whatever is noted later.
\<close>
theorem rank_demotes:
  "mset (rank st holders) = mset holders \<and>
   sorted_wrt (\<lambda>x y. demoted st (h_kind x) \<longrightarrow> demoted st (h_kind y)) (rank st holders) \<and>
   demoted (fold noteHolder ns (noteHolder (kind, False) st)) kind"
proof -
  have keep: "demoted st' kind \<Longrightarrow> demoted (noteHolder e st') kind" for st' e
    by (auto simp: demoted_def noteHolder_def Let_def split: prod.splits option.splits if_splits)
  have "demoted st' kind \<Longrightarrow> demoted (fold noteHolder ns st') kind" for st'
    by (induction ns arbitrary: st') (auto intro: keep)
  moreover have "demoted (noteHolder (kind, False) st) kind"
    by (simp add: demoted_def noteHolder_def Let_def)
  moreover have "mset (rank st holders) = mset holders" by (simp add: rank_def union_filter_mset_complement fun_eq_iff)
  moreover have "sorted_wrt (\<lambda>x y. demoted st (h_kind x) \<longrightarrow> demoted st (h_kind y)) (rank st holders)"
    unfolding rank_def sorted_wrt_append
    using sorted_wrt_true_filter [of "\<lambda>h. \<not> demoted st (h_kind h)" "\<lambda>x y. demoted st (h_kind x) \<longrightarrow> demoted st (h_kind y)" holders]
    by (auto intro: sorted_wrt_true_filter)
  ultimately show ?thesis by blast
qed

theorem rank_demotes_witness:
  "demoted (fold noteHolder [(''a'', True)] (noteHolder (''a'', False) Map.empty)) ''a''"
  using rank_demotes [of Map.empty "[]" "[(''a'', True)]" "''a''"] by blast

end
