(* ===== verification/Cid.thy ===== *)
theory Cid
  imports Prelude
begin

text \<open>
  Addresses and file nodes of the bucket library (\<open>buckets/lib/buckets-lib.mjs\<close>): CIDv1 strings
  in base 32 and back, and the little of dag-pb and UnixFS that reads and writes a file node; and
  the second writer of CIDs, \<open>cidOf\<close> of \<open>deploy/kappa-get.mjs\<close>.

  The bit buffer \<open>value\<close> of the encoders and of the decoder is a 32-bit word: the code never
  clears it, so bits already written shift out of its top.
\<close>

subsection \<open>Base 32\<close>

abbreviation RAW :: byte where "RAW \<equiv> 0x55"
abbreviation DAG_PB :: byte where "DAG_PB \<equiv> 0x70"

definition B32 :: string where
  "B32 = ''abcdefghijklmnopqrstuvwxyz234567''"

text \<open>\<open>B32.indexOf(ch)\<close> as it enters the bitwise or: -1 when the character is not there.\<close>

fun indexOf :: "string \<Rightarrow> char \<Rightarrow> nat \<Rightarrow> nat option" where
  "indexOf [] c n = None"
| "indexOf (x # xs) c n = (if x = c then Some n else indexOf xs c (Suc n))"

definition b32Index :: "char \<Rightarrow> u32" where
  "b32Index c = (case indexOf B32 c 0 of Some n \<Rightarrow> of_nat n | None \<Rightarrow> - 1)"

definition quintet :: "u32 \<Rightarrow> char" where
  "quintet v = B32 ! unat (v AND 31)"

text \<open>The inner loop \<open>while (bits >= 5)\<close>.\<close>

function drain32 :: "u32 \<Rightarrow> nat \<Rightarrow> string \<Rightarrow> nat \<times> string" where
  "drain32 value bits out =
     (if bits \<ge> 5 then drain32 value (bits - 5) (out @ [quintet (drop_bit (bits - 5) value)]) else (bits, out))"
  by pat_completeness auto
termination
  by (relation "measure (\<lambda>(value, bits, out). bits)") auto

declare drain32.simps [simp del]

definition feed32 :: "byte \<Rightarrow> u32 \<times> nat \<times> string \<Rightarrow> u32 \<times> nat \<times> string" where
  "feed32 b st = (case st of (value, bits, out) \<Rightarrow>
     let value' = push_bit 8 value OR ucast b; (bits', out') = drain32 value' (bits + 8) out
     in (value', bits', out'))"

definition close32 :: "u32 \<times> nat \<times> string \<Rightarrow> string" where
  "close32 st = (case st of (value, bits, out) \<Rightarrow>
     if bits > 0 then out @ [quintet (push_bit (5 - bits) value)] else out)"

definition base32 :: "bytes \<Rightarrow> string" where
  "base32 bs = close32 (fold feed32 bs (0, 0, []))"

definition cidString :: "byte \<Rightarrow> bytes \<Rightarrow> string" where
  "cidString codec digest = ''b'' @ base32 ([0x01, codec, 0x12, 0x20] @ digest)"

text \<open>\<open>digest.split(':')[1]\<close> of an address, and the address as a CID.\<close>

definition digestToCid :: "string \<Rightarrow> byte \<Rightarrow> string" where
  "digestToCid digest codec = cidString codec (hexToBytes (splitAt CHR '':'' digest ! 1))"

definition take32 :: "char \<Rightarrow> u32 \<times> nat \<times> bytes \<Rightarrow> u32 \<times> nat \<times> bytes" where
  "take32 ch st = (case st of (value, bits, out) \<Rightarrow>
     let value' = push_bit 5 value OR b32Index ch; bits' = bits + 5
     in if bits' \<ge> 8 then (value', bits' - 8, out @ [ucast (drop_bit (bits' - 8) value' AND 255)])
        else (value', bits', out))"

definition cidBytes :: "string \<Rightarrow> bytes" where
  "cidBytes cid = snd (snd (fold take32 (drop 1 cid) (0, 0, [])))"

definition cidToDigest :: "string \<Rightarrow> string" where
  "cidToDigest cid = ''sha256:'' @ hex (drop 4 (cidBytes cid))"

definition codecOf :: "string \<Rightarrow> byte" where
  "codecOf cid = (if take 4 cid = ''bafk'' then RAW else DAG_PB)"

text \<open>\<open>cidOf\<close> of the piece reader: the raw CID of a SHA-256 in hexadecimal, in one loop.\<close>

definition cidOf :: "string \<Rightarrow> string" where
  "cidOf h = close32 (fold feed32 ([0x01, 0x55, 0x12, 0x20] @ hexToBytes h) (0, 0, ''b''))"

subsection \<open>The bits written\<close>

text \<open>The lowest \<open>k\<close> bits of a word, most significant first.\<close>

definition msb :: "nat \<Rightarrow> 'a::len word \<Rightarrow> bool list" where
  "msb k v = map (bit v) (rev [0..<k])"

abbreviation allBits :: "bytes \<Rightarrow> bool list" where
  "allBits bs \<equiv> concat (map (msb 8) bs)"

abbreviation textBits :: "string \<Rightarrow> bool list" where
  "textBits cs \<equiv> concat (map (\<lambda>c. msb 5 (b32Index c)) cs)"

lemma length_msb [simp]: "length (msb k v) = k"
  by (simp add: msb_def)

lemma msb_0 [simp]: "msb 0 v = []"
  by (simp add: msb_def)

lemma msb_cong: "(\<And>i. i < k \<Longrightarrow> bit v i = bit w i) \<Longrightarrow> msb k v = msb k w"
  by (simp add: msb_def)

lemma msb_split: "msb (m + k) v = msb k (drop_bit m v) @ msb m v"
proof -
  have "rev [0..<m + k] = rev (map (\<lambda>i. i + m) [0..<k]) @ rev [0..<m]"
    by (simp add: map_add_upt upt_add_eq_append [of 0 m k, simplified] add.commute [of k m])
  then show ?thesis by (simp add: msb_def rev_map bit_drop_bit_eq add.commute)
qed

lemma msb_push:
  assumes "m + k \<le> 32" and "\<And>i. bit w i \<Longrightarrow> i < k"
  shows "msb (m + k) (push_bit k (v::u32) OR w) = msb m v @ msb k w"
proof -
  have "msb m (drop_bit k (push_bit k v OR w)) = msb m v"
    using assms by (intro msb_cong) (auto simp: bit_simps)
  moreover have "msb k (push_bit k v OR w) = msb k w"
    using assms by (intro msb_cong) (auto simp: bit_simps)
  ultimately show ?thesis using msb_split [of k m "push_bit k v OR w"] by (simp add: add.commute)
qed

lemma msb_ucast: "k \<le> 8 \<Longrightarrow> msb k (ucast (b::byte) :: u32) = msb k b"
  by (rule msb_cong) (simp add: bit_simps)

lemma msb8_inject: "msb 8 (a::byte) = msb 8 b \<longleftrightarrow> a = b"
proof
  assume "msb 8 a = msb 8 b"
  then have "\<forall>i \<in> set (rev [0..<8]). bit a i = bit b i" by (simp only: msb_def map_eq_conv)
  then show "a = b" by (intro bit_word_eqI) simp
qed simp

lemma allBits_inject: "length as = length bs \<Longrightarrow> allBits as = allBits bs \<Longrightarrow> as = bs"
  by (induction as bs rule: list_induct2) (simp_all add: msb8_inject)

lemma length_allBits: "length (allBits bs) = 8 * length bs"
  by (induction bs) simp_all

lemma indexOf_bound: "indexOf cs c m = Some i \<Longrightarrow> m \<le> i \<and> i < m + length cs"
  by (induction cs c m rule: indexOf.induct) (fastforce split: if_splits)+

lemma indexOf_B32: "n < 32 \<Longrightarrow> indexOf B32 (B32 ! n) 0 = Some n"
proof -
  have "\<forall>n \<in> set [0..<32]. indexOf B32 (B32 ! n) 0 = Some n" by code_simp
  then show "n < 32 \<Longrightarrow> indexOf B32 (B32 ! n) 0 = Some n" by simp
qed

lemma and31_less: "unat (v AND 31 :: u32) < 32"
proof -
  have "v AND 31 = take_bit 5 v" by (simp add: take_bit_eq_mask mask_numeral)
  then have "unat (v AND 31) = take_bit 5 (unat v)" by (simp add: unsigned_take_bit_eq)
  also have "\<dots> < 2 ^ 5" by (rule take_bit_nat_less_exp)
  finally show ?thesis by simp
qed

lemma b32Index_quintet: "b32Index (quintet v) = v AND 31"
  by (simp add: b32Index_def quintet_def indexOf_B32 and31_less)

lemma bit_and31: "bit (v AND 31 :: u32) i \<longleftrightarrow> i < 5 \<and> bit v i"
proof -
  have "v AND 31 = take_bit 5 v" by (simp add: take_bit_eq_mask mask_numeral)
  then show ?thesis by (simp add: bit_take_bit_iff)
qed

lemma bit_and255: "bit (v AND 255 :: u32) i \<longleftrightarrow> i < 8 \<and> bit v i"
proof -
  have "v AND 255 = take_bit 8 v" by (simp add: take_bit_eq_mask mask_numeral)
  then show ?thesis by (simp add: bit_take_bit_iff)
qed

lemma msb_quintet: "msb 5 (b32Index (quintet v)) = msb 5 v"
  unfolding b32Index_quintet by (rule msb_cong) (simp add: bit_and31)

lemma drain32_bits:
  assumes "drain32 v bits out = (bits', out')"
  shows "bits' < 5 \<and> textBits out' @ msb bits' v = textBits out @ msb bits v"
  using assms
proof (induction v bits out rule: drain32.induct)
  case (1 v bits out)
  show ?case
  proof (cases "bits \<ge> 5")
    case True
    with "1.prems" have "drain32 v (bits - 5) (out @ [quintet (drop_bit (bits - 5) v)]) = (bits', out')"
      by (simp add: drain32.simps [of v bits out])
    from "1.IH" [OF True this]
    have "bits' < 5" and e: "textBits out' @ msb bits' v
        = textBits out @ msb 5 (drop_bit (bits - 5) v) @ msb (bits - 5) v"
      by (simp_all add: msb_quintet)
    moreover have "msb bits v = msb 5 (drop_bit (bits - 5) v) @ msb (bits - 5) v"
      using True msb_split [of "bits - 5" 5 v] by simp
    ultimately show ?thesis by simp
  next
    case False
    with "1.prems" show ?thesis by (simp add: drain32.simps [of v bits out])
  qed
qed

definition enc32 :: "u32 \<times> nat \<times> string \<Rightarrow> bool list" where
  "enc32 st = (case st of (value, bits, out) \<Rightarrow> textBits out @ msb bits value)"

lemma feed32_bits:
  assumes "fst (snd st) < 5"
  shows "fst (snd (feed32 b st)) < 5 \<and> enc32 (feed32 b st) = enc32 st @ msb 8 b"
proof -
  obtain v bits out where st: "st = (v, bits, out)" by (cases st)
  obtain bits' out' where d: "drain32 (push_bit 8 v OR ucast b) (bits + 8) out = (bits', out')"
    by (cases "drain32 (push_bit 8 v OR ucast b) (bits + 8) out")
  have "msb (bits + 8) (push_bit 8 v OR ucast b) = msb bits v @ msb 8 (ucast b :: u32)"
    using assms by (intro msb_push) (auto simp: st bit_simps dest: bit_imp_le_length)
  with drain32_bits [OF d] show ?thesis
    by (simp add: st feed32_def enc32_def Let_def d msb_ucast)
qed

lemma fold_feed32_bits:
  "fst (snd st) < 5 \<Longrightarrow> fst (snd (fold feed32 bs st)) < 5 \<and> enc32 (fold feed32 bs st) = enc32 st @ allBits bs"
proof (induction bs arbitrary: st)
  case (Cons b bs)
  from feed32_bits [OF Cons.prems, of b] Cons.IH [of "feed32 b st"] show ?case by simp
qed simp

lemma close32_bits:
  "fst (snd st) < 5 \<Longrightarrow> \<exists>p < 5. textBits (close32 st) = enc32 st @ replicate p False"
proof -
  assume "fst (snd st) < 5"
  then obtain v bits out where st: "st = (v, bits, out)" "bits < 5" by (cases st) auto
  have "msb 5 (push_bit (5 - bits) v) = msb bits v @ replicate (5 - bits) False"
  proof -
    have "msb (bits + (5 - bits)) (push_bit (5 - bits) v OR 0) = msb bits v @ msb (5 - bits) (0::u32)"
      using st(2) by (intro msb_push) auto
    moreover have "msb (5 - bits) (0::u32) = replicate (5 - bits) False"
      by (rule nth_equalityI) (simp_all add: msb_def)
    ultimately show ?thesis using st(2) by simp
  qed
  then have "textBits (close32 st) = enc32 st @ replicate (if bits = 0 then 0 else 5 - bits) False"
    using st by (simp add: close32_def enc32_def msb_quintet)
  then show ?thesis using st(2) by (intro exI [of _ "if bits = 0 then 0 else 5 - bits"]) auto
qed

lemma textBits_base32: "\<exists>p < 5. textBits (base32 bs) = allBits bs @ replicate p False"
proof -
  have "fst (snd (fold feed32 bs (0, 0, []))) < 5"
    and "enc32 (fold feed32 bs (0, 0, [])) = allBits bs"
    using fold_feed32_bits [of "(0, 0, [])" bs] by (simp_all add: enc32_def msb_def)
  with close32_bits [of "fold feed32 bs (0, 0, [])"] show ?thesis by (simp add: base32_def)
qed

subsection \<open>The bits read\<close>

definition dec32 :: "u32 \<times> nat \<times> bytes \<Rightarrow> bool list" where
  "dec32 st = (case st of (value, bits, out) \<Rightarrow> allBits out @ msb bits value)"

lemma take32_bits:
  assumes "fst (snd st) < 8"
  shows "fst (snd (take32 (quintet w) st)) < 8 \<and>
     dec32 (take32 (quintet w) st) = dec32 st @ msb 5 (b32Index (quintet w))"
proof -
  obtain v bits out where st: "st = (v, bits, out)" "bits < 8" using assms by (cases st) auto
  define v' where "v' = push_bit 5 v OR b32Index (quintet w)"
  have m: "msb (bits + 5) v' = msb bits v @ msb 5 (b32Index (quintet w))"
    unfolding v'_def by (rule msb_push) (use st in \<open>auto simp: b32Index_quintet bit_and31\<close>)
  show ?thesis
  proof (cases "bits + 5 \<ge> 8")
    case True
    define b where "b = (ucast (drop_bit (bits - 3) v' AND 255) :: byte)"
    have "msb 8 b = msb 8 (drop_bit (bits - 3) v')"
      unfolding b_def by (rule msb_cong) (simp add: bit_ucast_iff bit_and255)
    moreover have "msb (bits + 5) v' = msb 8 (drop_bit (bits - 3) v') @ msb (bits - 3) v'"
      using True msb_split [of "bits - 3" 8 v'] by (simp add: add.commute [of 5 bits])
    moreover have "bits - 3 < 8" using st(2) by simp
    ultimately show ?thesis
      using True st m by (simp add: take32_def Let_def dec32_def v'_def [symmetric] b_def [symmetric])
  next
    case False
    then show ?thesis using st m by (simp add: take32_def Let_def dec32_def v'_def [symmetric])
  qed
qed

lemma fold_take32_bits:
  "fst (snd st) < 8 \<Longrightarrow> \<forall>c \<in> set cs. \<exists>w. c = quintet w \<Longrightarrow>
   fst (snd (fold take32 cs st)) < 8 \<and> dec32 (fold take32 cs st) = dec32 st @ textBits cs"
proof (induction cs arbitrary: st)
  case (Cons c cs)
  then obtain w where c: "c = quintet w" by auto
  from take32_bits [OF Cons.prems(1), of w] Cons.IH [of "take32 c st"] Cons.prems(2) show ?case
    by (simp add: c)
qed simp

lemma drain32_chars:
  "\<forall>c \<in> set out. \<exists>w. c = quintet w \<Longrightarrow> \<forall>c \<in> set (snd (drain32 v bits out)). \<exists>w. c = quintet w"
proof (induction v bits out rule: drain32.induct)
  case (1 v bits out)
  then show ?case
    by (cases "bits \<ge> 5") (auto simp: drain32.simps [of v bits out])
qed

lemma fold_feed32_chars:
  "\<forall>c \<in> set (snd (snd st)). \<exists>w. c = quintet w \<Longrightarrow> \<forall>c \<in> set (snd (snd (fold feed32 bs st))). \<exists>w. c = quintet w"
proof (induction bs arbitrary: st)
  case (Cons b bs)
  have "snd (snd (feed32 b st)) = snd (drain32 (push_bit 8 (fst st) OR ucast b) (fst (snd st) + 8) (snd (snd st)))"
    by (simp add: feed32_def Let_def split: prod.splits)
  then have "\<forall>c \<in> set (snd (snd (feed32 b st))). \<exists>w. c = quintet w"
    using Cons.prems drain32_chars by metis
  then show ?case using Cons.IH by simp
qed simp

lemma base32_chars: "\<forall>c \<in> set (base32 bs). \<exists>w. c = quintet w"
proof -
  obtain v bits out where st: "fold feed32 bs (0, 0, []) = (v, bits, out)"
    by (cases "fold feed32 bs (0, 0, [])")
  then have "\<forall>c \<in> set out. \<exists>w. c = quintet w"
    using fold_feed32_chars [of "(0, 0, [])" bs] by simp
  then show ?thesis by (auto simp: base32_def close32_def st)
qed

lemma eight_cong: "8 * a + b = 8 * c + (p::nat) \<Longrightarrow> b < 8 \<Longrightarrow> p < 8 \<Longrightarrow> a = c"
  by presburger

text \<open>Every byte written in base 32 is read back: the encoder pads by less than a quintet.\<close>

lemma cidBytes_base32: "cidBytes (c # base32 bs) = bs"
proof -
  obtain p where p: "p < 5" "textBits (base32 bs) = allBits bs @ replicate p False"
    using textBits_base32 by blast
  obtain v bits out where st: "fold take32 (base32 bs) (0, 0, []) = (v, bits, out)"
    by (cases "fold take32 (base32 bs) (0, 0, [])")
  have b: "bits < 8" and e: "allBits out @ msb bits v = allBits bs @ replicate p False"
    using fold_take32_bits [of "(0, 0, [])" "base32 bs", OF _ base32_chars] p(2)
    by (simp_all add: st dec32_def msb_def)
  from arg_cong [OF e, of length] have "8 * length out + bits = 8 * length bs + p"
    unfolding length_append length_allBits length_msb length_replicate .
  then have len: "length out = length bs" by (rule eight_cong) (use b p(1) in simp_all)
  then have "length (allBits out) = length (allBits bs)" unfolding length_allBits by simp
  with e have "allBits out = allBits bs" using append_eq_append_conv by blast
  with len have "out = bs" by (rule allBits_inject)
  then show ?thesis by (simp add: cidBytes_def st)
qed

text \<open>
  The two spellings of one address agree: the digest read back from the CID string of a codec
  and a SHA-256 value is the \<open>sha256:\<close> spelling of that value, for every codec and every value.
\<close>
theorem cidToDigest_cidString: "cidToDigest (cidString codec d) = ''sha256:'' @ hex d"
  by (simp add: cidToDigest_def cidString_def cidBytes_base32)

subsection \<open>The codec of an address\<close>

lemma drain32_prefix: "\<exists>t. snd (drain32 v bits out) = out @ t"
proof (induction v bits out rule: drain32.induct)
  case (1 v bits out)
  then show ?case by (cases "bits \<ge> 5") (auto simp: drain32.simps [of v bits out])
qed

lemma fold_feed32_prefix: "\<exists>t. snd (snd (fold feed32 bs st)) = snd (snd st) @ t"
proof (induction bs arbitrary: st)
  case (Cons b bs)
  obtain t where "snd (snd (fold feed32 bs (feed32 b st))) = snd (snd (feed32 b st)) @ t"
    using Cons.IH by blast
  moreover obtain t' where "snd (snd (feed32 b st)) = snd (snd st) @ t'"
    using drain32_prefix by (fastforce simp: feed32_def Let_def split: prod.splits)
  ultimately show ?case by auto
qed simp

lemma close32_prefix: "\<exists>t. close32 st = snd (snd st) @ t"
  by (auto simp: close32_def split: prod.splits)

lemma base32_prefix: "\<exists>t. base32 (as @ bs) = snd (snd (fold feed32 as (0, 0, []))) @ t"
proof -
  obtain t where "snd (snd (fold feed32 bs (fold feed32 as (0, 0, [])))) = snd (snd (fold feed32 as (0, 0, []))) @ t"
    using fold_feed32_prefix by blast
  with close32_prefix [of "fold feed32 (as @ bs) (0, 0, [])"] show ?thesis
    by (auto simp: base32_def)
qed

lemma codecOf_cidString: "codecOf (cidString RAW d) = RAW" "codecOf (cidString DAG_PB d) = DAG_PB"
proof -
  have r: "snd (snd (fold feed32 [0x01, RAW, 0x12, 0x20] (0, 0, []))) = ''afkrei''"
    and p: "snd (snd (fold feed32 [0x01, DAG_PB, 0x12, 0x20] (0, 0, []))) = ''afybei''"
    by code_simp+
  from base32_prefix [of "[0x01, RAW, 0x12, 0x20]" d] show "codecOf (cidString RAW d) = RAW"
    unfolding r by (auto simp: codecOf_def cidString_def)
  from base32_prefix [of "[0x01, DAG_PB, 0x12, 0x20]" d] show "codecOf (cidString DAG_PB d) = DAG_PB"
    unfolding p by (auto simp: codecOf_def cidString_def)
qed

subsection \<open>The two writers of raw CIDs\<close>

lemma drain32_out: "drain32 v bits (pre @ out) = (let (b, o2) = drain32 v bits out in (b, pre @ o2))"
proof (induction v bits out rule: drain32.induct)
  case (1 v bits out)
  then show ?case
    by (cases "bits \<ge> 5") (simp_all add: drain32.simps [of v bits out] drain32.simps [of v bits "pre @ out"])
qed

lemma fold_feed32_out:
  "fold feed32 bs (v, bits, pre @ out) =
     (let (v', bits', out') = fold feed32 bs (v, bits, out) in (v', bits', pre @ out'))"
proof (induction bs arbitrary: v bits out)
  case (Cons b bs)
  then show ?case by (simp add: feed32_def Let_def drain32_out split: prod.splits)
qed simp

lemma cidOf_eq: "cidOf h = cidString RAW (hexToBytes h)"
  using fold_feed32_out [of "[0x01, RAW, 0x12, 0x20] @ hexToBytes h" 0 0 "''b''" "[]"]
  by (simp add: cidOf_def cidString_def base32_def close32_def Let_def split: prod.splits)

text \<open>
  The piece reader's \<open>cidOf\<close> and the bucket library's \<open>cidString\<close> write the same raw CID for
  the same SHA-256, so a piece's hash names the block any bucket or gateway holds; and the CID reads
  back as that very hash with the raw codec.
\<close>
theorem cidOf_cidString:
  "cidOf (hex d) = cidString RAW d \<and> cidToDigest (cidOf (hex d)) = ''sha256:'' @ hex d \<and> codecOf (cidOf (hex d)) = RAW"
proof -
  have "cidOf (hex d) = cidString RAW d" by (simp add: cidOf_eq hexToBytes_hex)
  moreover have "cidToDigest (cidString RAW d) = ''sha256:'' @ hex d"
    by (simp add: cidToDigest_def cidString_def cidBytes_base32)
  ultimately show ?thesis by (simp only: codecOf_cidString)
qed

end
