(* ===== verification/Uri.thy ===== *)
theory Uri
  imports Prelude
begin

text \<open>
  \<open>encodeURIComponent\<close> and \<open>decodeURIComponent\<close> of the language, and the \<open>encodePath\<close> that the edge,
  the page and the service worker share: each segment of a path, encoded.
\<close>

definition unreserved :: "char \<Rightarrow> bool" where
  "unreserved c \<longleftrightarrow> (let n = (of_char c :: nat) in 48 \<le> n \<and> n \<le> 57 \<or> 65 \<le> n \<and> n \<le> 90 \<or> 97 \<le> n \<and> n \<le> 122) \<or> c \<in> set ''-_.!~*()'' \<or> c = CHR 0x27"

definition HEXDIGITS :: string where "HEXDIGITS = ''0123456789ABCDEF''"

definition percent :: "byte \<Rightarrow> string" where
  "percent b = [CHR ''%'', HEXDIGITS ! (unat b div 16), HEXDIGITS ! (unat b mod 16)]"

definition encodeChar :: "char \<Rightarrow> string" where
  "encodeChar c = (if unreserved c then [c] else concat (map percent (utf8_char c)))"

definition encodeURIComponent :: "string \<Rightarrow> string" where
  "encodeURIComponent s = concat (map encodeChar s)"

definition encodePath :: "string \<Rightarrow> string" where
  "encodePath p = join ''/'' (map encodeURIComponent (splitAt (CHR ''/'') p))"

definition hexValue :: "char \<Rightarrow> nat option" where
  "hexValue c = (let n = of_char c in if 48 \<le> n \<and> n \<le> 57 then Some (n - 48) else if 65 \<le> n \<and> n \<le> 70 then Some (n - 55)
     else if 97 \<le> n \<and> n \<le> 102 then Some (n - 87) else None)"

text \<open>
  The bytes of a text with its escapes: a percent sign must have two hexadecimal digits after it. The
  text they spell must be UTF-8; a raw character stands for its own UTF-8 bytes.
\<close>

fun unescape :: "string \<Rightarrow> bytes option" where
  "unescape [] = Some []"
| "unescape (c # cs) = (if c = CHR ''%'' then
     (case cs of a # b # rest \<Rightarrow>
        (case (hexValue a, hexValue b) of
           (Some x, Some y) \<Rightarrow> map_option ((#) (of_nat (16 * x + y))) (unescape rest)
         | _ \<Rightarrow> None)
      | _ \<Rightarrow> None)
   else map_option ((@) (utf8_char c)) (unescape cs))"

definition decodeURIComponent :: "string \<Rightarrow> string option" where
  "decodeURIComponent s = (case unescape s of Some bs \<Rightarrow> unutf8 bs | None \<Rightarrow> None)"

lemma hexValue_digit: "n < 16 \<Longrightarrow> hexValue (HEXDIGITS ! n) = Some n"
proof -
  have "\<forall>n \<in> set [0..<16]. hexValue (HEXDIGITS ! n) = Some n" by code_simp
  moreover assume "n < 16"
  ultimately show ?thesis by simp
qed

lemma unescape_percent: "unescape (percent b @ s) = map_option ((#) b) (unescape s)"
proof -
  have "unat b div 16 < 16" using unat_byte_less [of b] by linarith
  then show ?thesis by (simp add: percent_def hexValue_digit)
qed

lemma unescape_percents: "unescape (concat (map percent bs) @ s) = map_option ((@) bs) (unescape s)"
  by (induction bs) (simp_all add: unescape_percent option.map_comp comp_def option.map_ident)

lemma unescape_encode: "unescape (encodeURIComponent s) = Some (utf8 s)"
proof (induction s)
  case (Cons c s)
  have "unescape (encodeChar c @ t) = map_option ((@) (utf8_char c)) (unescape t)" for t
    by (auto simp: encodeChar_def unescape_percents) (simp add: unreserved_def Let_def)
  with Cons show ?case by (simp add: encodeURIComponent_def utf8_def)
qed (simp add: encodeURIComponent_def utf8_def)

lemma decode_encode [js_simps]: "decodeURIComponent (encodeURIComponent s) = Some s"
  by (simp add: decodeURIComponent_def unescape_encode unutf8_utf8)

lemma slash_not_encoded: "CHR ''/'' \<notin> set (encodeURIComponent s)"
proof -
  have "\<forall>n \<in> set [0..<16]. HEXDIGITS ! n \<noteq> CHR ''/''" by code_simp
  then have h: "n < 16 \<Longrightarrow> CHR ''/'' \<noteq> HEXDIGITS ! n" for n by fastforce
  have "unat b div 16 < 16" for b :: byte using unat_byte_less [of b] by linarith
  with h show ?thesis
    by (auto simp: encodeURIComponent_def encodeChar_def percent_def) (auto simp: unreserved_def)
qed

lemma decode_path: "map decodeURIComponent (splitAt (CHR ''/'') (encodePath p)) = map Some (splitAt (CHR ''/'') p)"
proof -
  have "splitAt (CHR ''/'') (encodePath p) = map encodeURIComponent (splitAt (CHR ''/'') p)"
    unfolding encodePath_def by (rule splitAt_join) (auto simp: slash_not_encoded)
  then show ?thesis by (simp add: decode_encode)
qed

lemma unescape_plain: "CHR ''%'' \<notin> set s \<Longrightarrow> unescape s = Some (utf8 s)"
  by (induction s) (auto simp: utf8_def)

lemma decode_plain: "CHR ''%'' \<notin> set s \<Longrightarrow> decodeURIComponent s = Some s"
  by (simp add: decodeURIComponent_def unescape_plain unutf8_utf8)

end
