(* ===== verification/Read.thy ===== *)
theory Read
  imports KappaGet Cid Uri "HOL-Library.Char_ord"
begin

text \<open>
  Reading bytes from holders: \<open>readRange\<close> and what it stands on in \<open>deploy/tensor-assemble.mjs\<close>, and
  the HTTP and IPFS holders of \<open>deploy/kappa-get.mjs\<close>.

  The world \<open>'w\<close> is everything that may change while the code awaits: the network, the clock and the
  maps of the module, which other reads in flight change too. What a fetch answers is a parameter, and
  may leave any world. An answer is a status with its location, and chunks that end or break off;
  failures say whether the network is to blame. URLs are taken without credentials and dot segments.
\<close>

subsection \<open>URLs\<close>

definition isAlpha :: "char \<Rightarrow> bool" where
  "isAlpha c \<longleftrightarrow> (CHR ''a'' \<le> c \<and> c \<le> CHR ''z'') \<or> (CHR ''A'' \<le> c \<and> c \<le> CHR ''Z'')"

definition schemeOf :: "string \<Rightarrow> string option" where
  "schemeOf u = (let s = takeWhile (\<lambda>c. isAlpha c \<or> isDigit c \<or> c \<in> set ''+-.'') u in
     case s of [] \<Rightarrow> None | c # _ \<Rightarrow> if isAlpha c \<and> startsWith (drop (length s) u) '':'' then Some (lower s) else None)"

definition afterScheme :: "string \<Rightarrow> string" where
  "afterScheme u = (let r = drop 1 (dropWhile (\<lambda>c. c \<noteq> CHR '':'') u) in if startsWith r ''//'' then drop 2 r else r)"

definition authorityOf :: "string \<Rightarrow> string" where
  "authorityOf u = takeWhile (\<lambda>c. c \<notin> set ''/?#'') (afterScheme u)"

definition defaultPort :: "string \<Rightarrow> string" where
  "defaultPort scheme = (if scheme = ''https'' then '':443'' else if scheme = ''http'' then '':80'' else [])"

text \<open>\<open>new URL(u).host\<close>; \<open>None\<close> where the constructor throws.\<close>

definition urlHost :: "string \<Rightarrow> string option" where
  "urlHost u = (case schemeOf u of None \<Rightarrow> None | Some s \<Rightarrow> (let h = lower (authorityOf u); p = defaultPort s in
     if h = [] \<and> p \<noteq> [] then None
     else Some (if p \<noteq> [] \<and> drop (length h - length p) h = p then take (length h - length p) h else h)))"

definition urlOrigin :: "string \<Rightarrow> string" where
  "urlOrigin u = (case (schemeOf u, urlHost u) of (Some s, Some h) \<Rightarrow> if defaultPort s = [] then ''null'' else s @ ''://'' @ h | _ \<Rightarrow> ''null'')"

definition href :: "string \<Rightarrow> string option" where
  "href u = (case (schemeOf u, urlHost u) of
     (Some s, Some h) \<Rightarrow> (let r = drop (length (authorityOf u)) (afterScheme u) in
        Some (s @ ''://'' @ h @ (if startsWith r ''/'' then r else CHR ''/'' # r)))
   | _ \<Rightarrow> None)"

text \<open>\<open>new URL(loc, base).href\<close>: absolute, from the scheme, from the root, or beside the base.\<close>

definition parentOf :: "string \<Rightarrow> string" where
  "parentOf path = rev (dropWhile (\<lambda>c. c \<noteq> CHR ''/'') (rev (takeWhile (\<lambda>c. c \<notin> set ''?#'') path)))"

definition resolveUrl :: "string \<Rightarrow> string \<Rightarrow> string option" where
  "resolveUrl loc base = (if schemeOf loc \<noteq> None then href loc
     else case (schemeOf base, urlHost base) of
       (Some s, Some h) \<Rightarrow> if startsWith loc ''//'' then href (s @ '':'' @ loc)
         else if startsWith loc ''/'' then Some (s @ ''://'' @ h @ loc)
         else (let p = drop (length (authorityOf base)) (afterScheme base) in
           Some (s @ ''://'' @ h @ (if parentOf p = [] then ''/'' else parentOf p) @ loc))
     | _ \<Rightarrow> None)"

definition hostName :: "string \<Rightarrow> string" where
  "hostName u = (case urlHost u of Some h \<Rightarrow> h | None \<Rightarrow> [])"

subsection \<open>The world of a read\<close>

datatype answer =
    NoAnswer bool string
  | Answer nat "string option" "bytes list" "(bool \<times> string) option"

text \<open>What the module keeps: where a file resolved to and when, until when a host is skipped, and the holders' record.\<close>

record book =
  bk_cdn :: "string \<Rightarrow> (string \<times> nat) option"
  bk_down :: "string \<Rightarrow> nat option"
  bk_standing :: standing

record 'w site =
  si_fetch :: "string \<Rightarrow> (string \<times> string) list \<Rightarrow> 'w \<Rightarrow> answer \<times> 'w"
  si_now :: "'w \<Rightarrow> nat"
  si_wait :: "nat \<Rightarrow> 'w \<Rightarrow> 'w"
  si_book :: "'w \<Rightarrow> book"
  si_keep :: "book \<Rightarrow> 'w \<Rightarrow> 'w"

definition UA :: "(string \<times> string) list" where
  "UA = [(''user-agent'', ''hologram-tensor-assemble/0.1'')]"

definition isDown :: "'w site \<Rightarrow> string \<Rightarrow> 'w \<Rightarrow> bool" where
  "isDown s u w \<longleftrightarrow> (case bk_down (si_book s w) (hostName u) of Some t \<Rightarrow> t > si_now s w | None \<Rightarrow> False)"

definition markDown :: "'w site \<Rightarrow> string \<Rightarrow> 'w \<Rightarrow> 'w" where
  "markDown s u w = si_keep s (let b = si_book s w in b\<lparr>bk_down := (bk_down b)(hostName u \<mapsto> si_now s w + 60000)\<rparr>) w"

definition noteIn :: "'w site \<Rightarrow> string \<Rightarrow> bool \<Rightarrow> 'w \<Rightarrow> 'w" where
  "noteIn s holder ok w = si_keep s (let b = si_book s w in b\<lparr>bk_standing := noteHolder (holder, ok) (bk_standing b)\<rparr>) w"

definition demotedIn :: "'w site \<Rightarrow> string \<Rightarrow> 'w \<Rightarrow> bool" where
  "demotedIn s holder w = demoted (bk_standing (si_book s w)) holder"

subsection \<open>Where a file is served\<close>

definition KEEP_URL :: nat where "KEEP_URL = 30 * 60000"

definition remember :: "'w site \<Rightarrow> string \<Rightarrow> string \<Rightarrow> 'w \<Rightarrow> 'w" where
  "remember s key url w = si_keep s (let b = si_book s w in b\<lparr>bk_cdn := (bk_cdn b)(key \<mapsto> (url, si_now s w))\<rparr>) w"

fun cdnHops :: "'w site \<Rightarrow> string \<Rightarrow> string \<Rightarrow> nat \<Rightarrow> string \<Rightarrow> 'w \<Rightarrow> ((bool \<times> string) + string) \<times> 'w" where
  "cdnHops s origin key 0 url w = (Inl (False, ''resolve '' @ key @ '': redirect loop''), w)"
| "cdnHops s origin key (Suc n) url w = (case si_fetch s url UA w of
     (NoAnswer net e, w1) \<Rightarrow> (Inl (net, e), w1)
   | (Answer status loc cs ending, w1) \<Rightarrow>
       if 300 \<le> status \<and> status < 400 \<and> loc \<noteq> None \<and> loc \<noteq> Some [] then
         (case resolveUrl (the loc) url of
            None \<Rightarrow> (Inl (False, ''Invalid URL''), w1)
          | Some target \<Rightarrow> if urlOrigin target = urlOrigin origin then cdnHops s origin key n target w1 else (Inr target, remember s key target w1))
       else if 200 \<le> status \<and> status < 300 then (Inr url, remember s key url w1)
       else (Inl (False, ''resolve '' @ key @ '': '' @ decimal status), w1))"

definition cdnUrl :: "'w site \<Rightarrow> string \<Rightarrow> string \<Rightarrow> string \<Rightarrow> string \<Rightarrow> bool \<Rightarrow> 'w \<Rightarrow> ((bool \<times> string) + string) \<times> 'w" where
  "cdnUrl s origin repo rv path fresh w = (let key = repo @ ''@'' @ rv @ ''/'' @ path;
       hop = cdnHops s origin key 4 (origin @ ''/'' @ repo @ ''/resolve/'' @ rv @ ''/'' @ encodePath path) w in
     case bk_cdn (si_book s w) key of
       Some (url, at) \<Rightarrow> if \<not> fresh \<and> si_now s w < at + KEEP_URL then (Inr url, w) else hop
     | None \<Rightarrow> hop)"

subsection \<open>A range of a file\<close>

text \<open>A place: bytes of a file of a repository at a revision, or an object that a URL serves alone.\<close>

datatype place = InFile string string string nat | AtUrl string nat

definition directOf :: "place \<Rightarrow> string option" where
  "directOf p = (case p of AtUrl u _ \<Rightarrow> Some u | InFile _ _ _ _ \<Rightarrow> None)"

definition offOf :: "place \<Rightarrow> nat" where
  "offOf p = (case p of AtUrl _ off \<Rightarrow> off | InFile _ _ _ off \<Rightarrow> off)"

text \<open>The chunks of an answer up to the bytes still wanted, and how many are still missing.\<close>

fun pull :: "nat \<Rightarrow> bytes list \<Rightarrow> bytes list \<times> nat" where
  "pull left [] = ([], left)"
| "pull left (c # cs) = (let b = take left c; rest = left - length b; own = (if b = [] then [] else [b]) in
     if rest = 0 then (own, 0) else (let (out, l) = pull rest cs in (own @ out, l)))"

definition rangeHeader :: "nat \<Rightarrow> nat \<Rightarrow> string \<times> string" where
  "rangeHeader a b = (''range'', ''bytes='' @ decimal a @ ''-'' @ decimal b)"

definition whereFrom :: "'w site \<Rightarrow> string \<Rightarrow> place \<Rightarrow> bool \<Rightarrow> 'w \<Rightarrow> ((bool \<times> string) + string) \<times> 'w" where
  "whereFrom s origin p fresh w = (case p of
     AtUrl u _ \<Rightarrow> (Inr u, w)
   | InFile repo rv path _ \<Rightarrow> cdnUrl s origin repo rv path fresh w)"

text \<open>One attempt: the chunks it gave, the bytes still missing, and, when it failed, whether the network did.\<close>

definition attempt :: "'w site \<Rightarrow> string \<Rightarrow> place \<Rightarrow> bool \<Rightarrow> nat \<Rightarrow> nat \<Rightarrow> 'w \<Rightarrow> (bytes list \<times> nat \<times> bool option) \<times> 'w" where
  "attempt s origin p fresh pos left w = (case whereFrom s origin p fresh w of
     (Inl (net, e), w1) \<Rightarrow> (([], left, Some net), w1)
   | (Inr url, w1) \<Rightarrow> (case si_fetch s url (UA @ [rangeHeader pos (pos + left - 1)]) w1 of
       (NoAnswer net e, w2) \<Rightarrow> (([], left, Some net), w2)
     | (Answer status loc cs ending, w2) \<Rightarrow>
         if status \<noteq> 206 \<and> \<not> (status = 200 \<and> pos = 0) then (([], left, Some False), w2)
         else (let (out, l) = pull left cs in
           ((out, l, if l = 0 then None else map_option fst ending), w2))))"

fun tryRead :: "'w site \<Rightarrow> string \<Rightarrow> place \<Rightarrow> nat list \<Rightarrow> nat \<Rightarrow> nat \<Rightarrow> 'w \<Rightarrow> (bytes list \<times> nat) \<times> 'w" where
  "tryRead s origin p [] pos left w = (([], left), w)"
| "tryRead s origin p (k # ks) pos left w =
     (let host = (case directOf p of Some u \<Rightarrow> u | None \<Rightarrow> origin) in
      if left = 0 \<or> isDown s host w then (([], left), w)
      else (case attempt s origin p (0 < k) pos left w of
         ((out, l, Some True), w1) \<Rightarrow> ((out, l), markDown s host w1)
       | ((out, l, failed), w1) \<Rightarrow>
           (let ((out', l'), w2) = tryRead s origin p ks (pos + (left - l)) l (if failed = None then w1 else si_wait s (2 ^ k * 500) w1)
            in ((out @ out', l'), w2))))"

definition readRange :: "'w site \<Rightarrow> string \<Rightarrow> place \<Rightarrow> nat \<Rightarrow> nat \<Rightarrow> 'w \<Rightarrow> (bytes list \<times> unit result) \<times> 'w" where
  "readRange s origin p a len w = (let ((out, l), w1) = tryRead s origin p [0..<(if directOf p = None then 5 else 2)] a len w in
     ((out, if l = 0 then Inr ()
        else Inl (Error (''could not read '' @ (case p of AtUrl u _ \<Rightarrow> u | InFile _ _ path _ \<Rightarrow> path) @ '' '' @ decimal a @ ''+'' @ decimal len))), w1))"

definition readAll :: "bytes list \<times> unit result \<Rightarrow> bytes result" where
  "readAll g = andThen (snd g) (\<lambda>_. Inr (concat (fst g)))"

text \<open>\<open>within(readAll(\<dots>), deadline(len))\<close>: \<open>Inl None\<close> when it came too late.\<close>

definition readSoon :: "'w site \<Rightarrow> string \<Rightarrow> place \<Rightarrow> nat \<Rightarrow> nat \<Rightarrow> 'w \<Rightarrow> (js_error option + bytes) \<times> 'w" where
  "readSoon s origin p a len w = (let (g, w1) = readRange s origin p a len w in
     (if si_now s w + deadline len < si_now s w1 then Inl None else map_sum Some id (readAll g), w1))"

subsection \<open>Other holders\<close>

definition noTrailingSlash :: "string \<Rightarrow> string" where
  "noTrailingSlash u = (if u \<noteq> [] \<and> last u = CHR ''/'' then butlast u else u)"

text \<open>\<open>ipfsPieces(gateway).piece(h)\<close>: \<open>Inr None\<close> is its null.\<close>

definition ipfsKind :: "string \<Rightarrow> string result" where
  "ipfsKind gateway = (case urlHost gateway of Some h \<Rightarrow> Inr (''ipfs '' @ h) | None \<Rightarrow> Inl TypeError)"

definition ipfsPiece :: "'w site \<Rightarrow> string \<Rightarrow> string \<Rightarrow> 'w \<Rightarrow> (string + bytes option) \<times> 'w" where
  "ipfsPiece s gateway h w = (case si_fetch s (noTrailingSlash gateway @ ''/ipfs/'' @ cidOf h @ ''?format=raw'') [] w of
     (NoAnswer net e, w1) \<Rightarrow> (Inl e, w1)
   | (Answer status loc cs ending, w1) \<Rightarrow> if \<not> (200 \<le> status \<and> status < 300) then (Inr None, w1)
       else (case ending of Some (net, e) \<Rightarrow> (Inl e, w1) | None \<Rightarrow> (Inr (Some (concat cs)), w1)))"

text \<open>\<open>httpRange(kind, url, at, headers).range(off, len)\<close>.\<close>

definition httpRange :: "'w site \<Rightarrow> string \<Rightarrow> string \<Rightarrow> nat \<Rightarrow> (string \<times> string) list \<Rightarrow> nat \<Rightarrow> nat \<Rightarrow> 'w \<Rightarrow> (string + bytes) \<times> 'w" where
  "httpRange s kind url at headers off len w = (case si_fetch s url (headers @ [rangeHeader (at + off) (at + off + len - 1)]) w of
     (NoAnswer net e, w1) \<Rightarrow> (Inl e, w1)
   | (Answer status loc cs ending, w1) \<Rightarrow>
       if status \<noteq> 206 \<and> \<not> (status = 200 \<and> at + off = 0) then (Inl (kind @ '': HTTP '' @ decimal status), w1)
       else (case ending of Some (net, e) \<Rightarrow> (Inl e, w1)
         | None \<Rightarrow> (Inr (if status = 200 then take len (concat cs) else concat cs), w1)))"

subsection \<open>Views inside a storage\<close>

record view =
  vw_o :: nat
  vw_stride :: "nat list option"
  vw_itemsize :: nat

text \<open>The index of the next element: the last dimension first, as an odometer.\<close>

fun bump :: "(nat \<times> nat) list \<Rightarrow> nat list" where
  "bump [] = []"
| "bump ((i, n) # r) = (if Suc i < n then Suc i # map fst r else 0 # bump r)"

definition nextIndex :: "nat list \<Rightarrow> nat list \<Rightarrow> nat list" where
  "nextIndex shape idx = rev (bump (rev (zip idx shape)))"

definition elementAt :: "view \<Rightarrow> nat list \<Rightarrow> nat list \<Rightarrow> nat" where
  "elementAt v stride idx = vw_o v + sum_list (map2 (\<lambda>i s. i * s * vw_itemsize v) idx stride)"

text \<open>\<open>buf.copy(out, at, off, off + n)\<close>.\<close>

definition copyInto :: "bytes \<Rightarrow> nat \<Rightarrow> bytes \<Rightarrow> bytes" where
  "copyInto out at piece = take at out @ take (length out - at) piece @ drop (at + length piece) out"

text \<open>\<open>buf.copy\<close> throws where it would begin beyond the end of \<open>buf\<close>; where it would end there it copies what there is.\<close>

fun gatherFrom :: "bytes \<Rightarrow> view \<Rightarrow> nat list \<Rightarrow> nat list \<Rightarrow> nat \<Rightarrow> nat \<Rightarrow> nat list \<Rightarrow> bytes \<Rightarrow> bytes result" where
  "gatherFrom buf v stride shape 0 k idx out = Inr out"
| "gatherFrom buf v stride shape (Suc n) k idx out = (let off = elementAt v stride idx in
     if length buf < off then Inl (RangeError ''ERR_OUT_OF_RANGE'') else
     gatherFrom buf v stride shape n (Suc k) (nextIndex shape idx) (copyInto out (k * vw_itemsize v) (subarray buf off (off + vw_itemsize v))))"

text \<open>\<open>raw\<close> is what \<open>Buffer.allocUnsafe(len)\<close> happens to hold.\<close>

definition gather :: "bytes \<Rightarrow> bytes \<Rightarrow> view \<Rightarrow> nat list \<Rightarrow> nat \<Rightarrow> bytes result" where
  "gather raw buf v shape len = (case vw_stride v of
     None \<Rightarrow> Inr (subarray buf (vw_o v) (vw_o v + len))
   | Some stride \<Rightarrow> if vw_itemsize v = 0 \<or> length stride \<noteq> length shape then Inl Unmodelled
       else gatherFrom buf v stride shape ((len + vw_itemsize v - 1) div vw_itemsize v) 0 (replicate (length shape) 0) raw)"

subsection \<open>A read gives what was asked or fails\<close>

lemma pull_left: "pull left cs = (out, l) \<Longrightarrow> length (concat out) + l = left \<and> concat out = take (left - l) (concat cs)"
proof (induction cs arbitrary: left out l)
  case (Cons c cs)
  obtain out' l' where p: "pull (left - length (take left c)) cs = (out', l')" by fastforce
  note IH = Cons.IH [OF p]
  show ?case
  proof (cases "left - length (take left c) = 0")
    case True
    then show ?thesis using Cons.prems by (auto simp: Let_def min_def split: if_splits)
  next
    case False
    then have "length c < left" by simp
    then show ?thesis using Cons.prems p IH by (auto simp: Let_def add.commute split: if_splits)
  qed
qed auto

lemma attempt_left:
  assumes "attempt s origin p fresh pos left w = ((out, l, f), w1)"
  shows "length (concat out) + l = left"
  using assms by (auto simp: attempt_def split: prod.splits sum.splits answer.splits if_splits dest: pull_left)

lemma tryRead_left: "tryRead s origin p ks pos left w = ((out, l), w1) \<Longrightarrow> length (concat out) + l = left"
proof (induction ks arbitrary: pos left w out l w1)
  case (Cons k ks)
  define host where "host = (case directOf p of Some u \<Rightarrow> u | None \<Rightarrow> origin)"
  show ?case
  proof (cases "left = 0 \<or> isDown s host w")
    case True
    then show ?thesis using Cons.prems by (simp add: Let_def host_def [symmetric])
  next
    case False
    obtain out1 l1 f w2 where a: "attempt s origin p (0 < k) pos left w = ((out1, l1, f), w2)" by (metis prod.collapse)
    note L = attempt_left [OF a]
    show ?thesis
    proof (cases "f = Some True")
      case True
      then show ?thesis using Cons.prems False a L by (simp add: Let_def host_def [symmetric])
    next
      case nf: False
      obtain out2 l2 w3 where t: "tryRead s origin p ks (pos + (left - l1)) l1 (if f = None then w2 else si_wait s (2 ^ k * 500) w2) = ((out2, l2), w3)"
        by (metis prod.collapse)
      have "out = out1 @ out2 \<and> l = l2"
        using Cons.prems False a nf t by (cases f) (auto simp: Let_def host_def [symmetric] split: bool.splits)
      then show ?thesis using Cons.IH [OF t] L by simp
    qed
  qed
qed simp

lemma readRange_length: "readRange s origin p a len w = ((out, Inr ()), w1) \<Longrightarrow> length (concat out) = len"
  by (auto simp: readRange_def Let_def split: prod.splits if_splits dest!: tryRead_left)

lemma readAll_Inr: "readAll g = Inr b \<longleftrightarrow> snd g = Inr () \<and> b = concat (fst g)"
  by (auto simp: readAll_def andThen_Inr_iff)

end
