(* ===== verification/Assemble.thy ===== *)
theory Assemble
  imports Read
begin

text \<open>
  Rebuilding a file from its layout, \<open>deploy/tensor-assemble.mjs\<close>: the units a range of the file is cut
  into, how each is read and checked, and the loop that keeps a window of reads in flight and releases
  bytes in order.

  Reads in flight share the world. The model fixes no schedule: the reads of the \<open>k\<close>-th unit start in a
  world of their own, \<open>ws k\<close>, whatever the others made of it, and what a fetch answers may leave any
  world. The runs of \<open>get\<close> bring the standing they saw and their answers, as in \<open>KappaGet\<close>. Reports are
  left out; a unit's error is the one its reader would throw.
\<close>

subsection \<open>Layouts\<close>

text \<open>Where a segment says its bytes are: at an offset of this file, at an offset of a file of the model, or inside a storage.\<close>

datatype spot = Here nat | At string nat | Inside string nat nat string view "nat list" | Nowhere

record segment =
  sg_kind :: string
  sg_kappa :: string
  sg_len :: nat
  sg_where :: spot

record layout =
  lo_file :: string
  lo_size :: nat
  lo_segments :: "segment list"

record 'w source_ctx =
  cx_origin :: string
  cx_repo :: string
  cx_rev :: string
  cx_literal :: "string \<Rightarrow> 'w \<Rightarrow> bytes option \<times> 'w"
  cx_alternatives :: "string \<Rightarrow> (place \<times> nat) list"
  cx_prefer :: bool
  cx_pieces :: "string \<Rightarrow> string list option"
  cx_ipfs :: "string list"
  cx_runs :: "'w \<Rightarrow> (nat \<Rightarrow> standing) \<times> (nat \<Rightarrow> answers) \<times> 'w"
  cx_raw :: "nat \<Rightarrow> bytes"
  cx_buffer :: nat
  cx_window :: nat

definition named :: "bytes \<Rightarrow> string" where
  "named b = ''sha256:'' @ sha256hex b"

definition holderOf :: "string \<Rightarrow> place \<Rightarrow> string" where
  "holderOf origin p = hostName (case directOf p of Some u \<Rightarrow> u | None \<Rightarrow> origin)"

definition label :: "place \<Rightarrow> string" where
  "label p = (case p of AtUrl u _ \<Rightarrow> u | InFile repo _ path off \<Rightarrow> repo @ ''/'' @ path @ ''@'' @ decimal off)"

text \<open>The same place as far as the duplicates test looks: revisions are not compared.\<close>

definition samePlace :: "place \<Rightarrow> place \<Rightarrow> bool" where
  "samePlace p q \<longleftrightarrow> (case (p, q) of
     (InFile r _ f a, InFile r' _ f' a') \<Rightarrow> r = r' \<and> f = f' \<and> a = a'
   | (AtUrl u a, AtUrl u' a') \<Rightarrow> u = u' \<and> a = a'
   | _ \<Rightarrow> False)"

definition addPlace :: "nat \<Rightarrow> place list \<Rightarrow> place \<times> nat \<Rightarrow> place list" where
  "addPlace len out alt = (if snd alt = len \<and> \<not> list_ex (\<lambda>x. samePlace x (fst alt)) out then out @ [fst alt] else out)"

text \<open>\<open>None\<close> is the \<open>undefined\<close> that moving the first of no candidates to the end leaves.\<close>

definition candidates :: "'w source_ctx \<Rightarrow> layout \<Rightarrow> segment \<Rightarrow> place option list" where
  "candidates cx lay sg = (let own = (case sg_where sg of
         Here off \<Rightarrow> [InFile (cx_repo cx) (cx_rev cx) (lo_file lay) off]
       | At f off \<Rightarrow> if sg_kind sg = ''t'' then [InFile (cx_repo cx) (cx_rev cx) f off] else []
       | Inside f off _ _ _ _ \<Rightarrow> if sg_kind sg = ''t'' then [InFile (cx_repo cx) (cx_rev cx) f off] else []
       | Nowhere \<Rightarrow> []);
       out = map Some (foldl (addPlace (sg_len sg)) own (cx_alternatives cx (sg_kappa sg)))
     in if cx_prefer cx then (case out of [] \<Rightarrow> [None] | x # xs \<Rightarrow> xs @ [x]) else out)"

subsection \<open>Units\<close>

datatype unit_kind = Literal | Viewed | Pieced | PiecedLarge | Large | Joined

record item =
  it_seg :: segment
  it_a :: nat
  it_rel :: nat
  it_src :: "place option"

record unit' =
  un_kind :: unit_kind
  un_src :: "place option"
  un_start :: nat
  un_end :: nat
  un_items :: "item list"

definition GROUP :: "'w source_ctx \<Rightarrow> nat" where "GROUP cx = min (2 ^ 26) (cx_buffer cx)"
definition GAP :: nat where "GAP = 2 ^ 20"

definition itemOf :: "segment \<Rightarrow> nat \<Rightarrow> item" where
  "itemOf sg a = \<lparr>it_seg = sg, it_a = a, it_rel = 0, it_src = None\<rparr>"

definition single :: "unit_kind \<Rightarrow> item \<Rightarrow> unit'" where
  "single k it = \<lparr>un_kind = k, un_src = None, un_start = 0, un_end = 0, un_items = [it]\<rparr>"

definition joins :: "'w source_ctx \<Rightarrow> unit' \<Rightarrow> place option \<Rightarrow> nat \<Rightarrow> bool" where
  "joins cx u src len \<longleftrightarrow> (case (un_src u, src) of
     (Some (InFile r _ f _), Some (InFile r' _ f' off)) \<Rightarrow>
       r = r' \<and> f = f' \<and> un_end u \<le> off \<and> off - un_end u \<le> GAP \<and> off + len \<le> GROUP cx + un_start u
   | _ \<Rightarrow> False)"

text \<open>The units so far, the offset in the file, and whether the last unit is the read that may be joined.\<close>

type_synonym units_state = "unit' list \<times> nat \<times> bool"

definition wanted :: "int \<Rightarrow> int \<Rightarrow> nat \<Rightarrow> nat \<Rightarrow> bool" where
  "wanted start stop a len \<longleftrightarrow> \<not> (int a + int len - 1 < start \<or> stop < int a \<or> len = 0)"

definition addJoined :: "'w source_ctx \<Rightarrow> layout \<Rightarrow> segment \<Rightarrow> nat \<Rightarrow> unit' list \<Rightarrow> bool \<Rightarrow> unit' list" where
  "addJoined cx lay sg a us open' = (let src = (case candidates cx lay sg of [] \<Rightarrow> None | p # _ \<Rightarrow> p);
       it = (itemOf sg a)\<lparr>it_src := src\<rparr>; off = (case src of Some p \<Rightarrow> offOf p | None \<Rightarrow> 0); len = sg_len sg in
     if open' \<and> us \<noteq> [] \<and> joins cx (last us) src len
     then (let u = last us in butlast us @ [u\<lparr>un_items := un_items u @ [it\<lparr>it_rel := off - un_start u\<rparr>], un_end := off + len\<rparr>])
     else us @ [\<lparr>un_kind = Joined, un_src = src, un_start = off, un_end = (if src = None then 0 else off + len), un_items = [it]\<rparr>])"

definition unitStep :: "'w source_ctx \<Rightarrow> layout \<Rightarrow> int \<Rightarrow> int \<Rightarrow> units_state \<Rightarrow> segment \<Rightarrow> units_state" where
  "unitStep cx lay start stop st sg = (case st of (us, a, open') \<Rightarrow> (let len = sg_len sg; it = itemOf sg a in
     if \<not> wanted start stop a len then (us, a + len, False)
     else if sg_kind sg = ''l'' then (us @ [single Literal it], a + len, False)
     else if sg_kind sg = ''v'' then (us @ [single Viewed it], a + len, False)
     else if PIECE < len \<and> cx_pieces cx (sg_kappa sg) \<noteq> None
       then (us @ [single (if cx_buffer cx < len then PiecedLarge else Pieced) it], a + len, False)
     else if cx_buffer cx < len then (us @ [single Large it], a + len, False)
     else (addJoined cx lay sg a us open', a + len, True)))"

definition unitsOf :: "'w source_ctx \<Rightarrow> layout \<Rightarrow> int \<Rightarrow> int \<Rightarrow> unit' list" where
  "unitsOf cx lay start stop = fst (foldl (unitStep cx lay start stop) ([], 0, False) (lo_segments lay))"

definition cut :: "int \<Rightarrow> int \<Rightarrow> item \<Rightarrow> bytes \<Rightarrow> bytes" where
  "cut start stop it buf = subarray buf (nat (start - int (it_a it))) (nat (min (int (sg_len (it_seg it))) (stop - int (it_a it) + 1)))"

subsection \<open>One segment from any holder\<close>

text \<open>A gateway at a time; the kinds tried so far grow. A gateway that is no URL throws.\<close>

fun viaIpfs :: "'w site \<Rightarrow> string \<Rightarrow> string list \<Rightarrow> string list \<Rightarrow> 'w \<Rightarrow> (bytes option result \<times> string list) \<times> 'w" where
  "viaIpfs s kappa [] tried w = ((Inr None, tried), w)"
| "viaIpfs s kappa (gw # gws) tried w = (case ipfsKind gw of
     Inl e \<Rightarrow> ((Inl e, tried), w)
   | Inr from \<Rightarrow> (case ipfsPiece s gw (drop 7 kappa) w of
       (Inr (Some buf), w1) \<Rightarrow> if named buf = kappa then ((Inr (Some buf), tried @ [from]), noteIn s from True w1)
         else viaIpfs s kappa gws (tried @ [from]) (noteIn s from False w1)
     | (_, w1) \<Rightarrow> viaIpfs s kappa gws (tried @ [from]) w1))"

definition smallViaIpfs :: "'w site \<Rightarrow> 'w source_ctx \<Rightarrow> segment \<Rightarrow> string list \<Rightarrow> 'w \<Rightarrow> (bytes option result \<times> string list) \<times> 'w" where
  "smallViaIpfs s cx sg tried w = (if PIECE < sg_len sg then ((Inr None, tried), w) else viaIpfs s (sg_kappa sg) (cx_ipfs cx) tried w)"

definition sameFile :: "place option \<Rightarrow> place \<Rightarrow> bool" where
  "sameFile skip p \<longleftrightarrow> (case (skip, p) of
     (Some (InFile r _ f _), InFile r' _ f' _) \<Rightarrow> r = r' \<and> f = f'
   | _ \<Rightarrow> False)"

fun fromPlaces :: "'w site \<Rightarrow> string \<Rightarrow> segment \<Rightarrow> place option \<Rightarrow> place option list \<Rightarrow> string list \<Rightarrow> 'w
    \<Rightarrow> (bytes option result \<times> string list) \<times> 'w" where
  "fromPlaces s origin sg skip [] tried w = ((Inr None, tried), w)"
| "fromPlaces s origin sg skip (None # ps) tried w = ((Inl TypeError, tried), w)"
| "fromPlaces s origin sg skip (Some p # ps) tried w = (if sameFile skip p then fromPlaces s origin sg skip ps tried w
     else (let tried' = tried @ [label p] in
       case readSoon s origin p (offOf p) (sg_len sg) w of
         (Inr buf, w1) \<Rightarrow> if named buf = sg_kappa sg then ((Inr (Some buf), tried'), noteIn s (holderOf origin p) True w1)
           else fromPlaces s origin sg skip ps tried' (noteIn s (holderOf origin p) False w1)
       | (Inl None, w1) \<Rightarrow> fromPlaces s origin sg skip ps tried' (noteIn s (holderOf origin p) False w1)
       | (Inl (Some e), w1) \<Rightarrow> fromPlaces s origin sg skip ps tried' w1))"

definition unverified :: "segment \<Rightarrow> string list \<Rightarrow> js_error" where
  "unverified sg tried = Error (''no source verified '' @ sg_kappa sg @ '' (tried '' @ (if tried = [] then ''none'' else join '', '' tried) @ '')'')"

definition fallbackFrom :: "'w site \<Rightarrow> 'w source_ctx \<Rightarrow> layout \<Rightarrow> segment \<Rightarrow> place option \<Rightarrow> string list \<Rightarrow> 'w \<Rightarrow> bytes result \<times> 'w" where
  "fallbackFrom s cx lay sg skip tried w = (case fromPlaces s (cx_origin cx) sg skip (candidates cx lay sg) tried w of
     ((Inl e, _), w1) \<Rightarrow> (Inl e, w1)
   | ((Inr (Some buf), _), w1) \<Rightarrow> (Inr buf, w1)
   | ((Inr None, tried1), w1) \<Rightarrow> (case smallViaIpfs s cx sg tried1 w1 of
       ((Inl e, _), w2) \<Rightarrow> (Inl e, w2)
     | ((Inr (Some buf), _), w2) \<Rightarrow> (Inr buf, w2)
     | ((Inr None, tried2), w2) \<Rightarrow> (Inl (unverified sg tried2), w2)))"

definition fallback :: "'w site \<Rightarrow> 'w source_ctx \<Rightarrow> layout \<Rightarrow> segment \<Rightarrow> place option \<Rightarrow> 'w \<Rightarrow> bytes result \<times> 'w" where
  "fallback s cx lay sg skip w = (if demotedIn s (hostName (cx_origin cx)) w
     then (case smallViaIpfs s cx sg [] w of
         ((Inl e, _), w1) \<Rightarrow> (Inl e, w1)
       | ((Inr (Some buf), _), w1) \<Rightarrow> (Inr buf, w1)
       | ((Inr None, tried), w1) \<Rightarrow> fallbackFrom s cx lay sg skip tried w1)
     else fallbackFrom s cx lay sg skip [] w)"

subsection \<open>Pieced payloads\<close>

fun allSome :: "'a option list \<Rightarrow> 'a list option" where
  "allSome [] = Some []"
| "allSome (x # xs) = (case (x, allSome xs) of (Some y, Some ys) \<Rightarrow> Some (y # ys) | _ \<Rightarrow> None)"

definition pieceHolders :: "'w source_ctx \<Rightarrow> layout \<Rightarrow> segment \<Rightarrow> holder list result" where
  "pieceHolders cx lay sg = (case allSome (candidates cx lay sg) of
     None \<Rightarrow> Inl TypeError
   | Some ps \<Rightarrow> (case allSome (map (\<lambda>g. case ipfsKind g of Inr k \<Rightarrow> Some k | Inl _ \<Rightarrow> None) (cx_ipfs cx)) of
       None \<Rightarrow> Inl TypeError
     | Some ks \<Rightarrow> Inr (map (\<lambda>p. \<lparr>h_kind = holderOf (cx_origin cx) p, h_piece = False\<rparr>) ps @ map (\<lambda>k. \<lparr>h_kind = k, h_piece = True\<rparr>) ks)))"

definition viaPieces :: "'w source_ctx \<Rightarrow> layout \<Rightarrow> int \<Rightarrow> int \<Rightarrow> item \<Rightarrow> 'w \<Rightarrow> (bytes list \<times> unit result) \<times> 'w" where
  "viaPieces cx lay start stop it w = (let sg = it_seg it in case pieceHolders cx lay sg of
     Inl e \<Rightarrow> (([], Inl e), w)
   | Inr hs \<Rightarrow> (case cx_runs cx w of (st, ans, w1) \<Rightarrow>
       (get \<lparr>ob_kappa = sg_kappa sg, ob_size = sg_len sg, ob_pieces = (case cx_pieces cx (sg_kappa sg) of Some ps \<Rightarrow> ps | None \<Rightarrow> [])\<rparr>
         RUN (nat (start - int (it_a it))) (nat (min (int (sg_len sg) - 1) (stop - int (it_a it)))) hs st ans, w1)))"

subsection \<open>One unit\<close>

definition fetchLiteral :: "'w source_ctx \<Rightarrow> segment \<Rightarrow> 'w \<Rightarrow> bytes result \<times> 'w" where
  "fetchLiteral cx sg w = (case cx_literal cx (sg_kappa sg) w of
     (Some buf, w1) \<Rightarrow> (if named buf = sg_kappa sg then Inr buf else Inl (Error (''literal '' @ sg_kappa sg @ '' missing or corrupt'')), w1)
   | (None, w1) \<Rightarrow> (Inl (Error (''literal '' @ sg_kappa sg @ '' missing or corrupt'')), w1))"

definition fetchViewed :: "'w site \<Rightarrow> 'w source_ctx \<Rightarrow> segment \<Rightarrow> 'w \<Rightarrow> bytes result \<times> 'w" where
  "fetchViewed s cx sg w = (case sg_where sg of
     Inside f off n storage v shape \<Rightarrow>
       (let (g, w1) = readRange s (cx_origin cx) (InFile (cx_repo cx) (cx_rev cx) f off) off n w in
        (andThen (readAll g) (\<lambda>st. if named st \<noteq> storage then Inl (Error (''storage '' @ storage @ '' failed verification''))
           else andThen (gather (cx_raw cx (sg_len sg)) st v shape (sg_len sg)) (\<lambda>b.
             if named b \<noteq> sg_kappa sg then Inl (Error (''tensor '' @ sg_kappa sg @ '' failed verification after gather'')) else Inr b)), w1))
   | _ \<Rightarrow> (Inl Unmodelled, w))"

definition readWhole :: "'w site \<Rightarrow> 'w source_ctx \<Rightarrow> unit' \<Rightarrow> 'w \<Rightarrow> bytes option \<times> 'w" where
  "readWhole s cx u w = (case un_src u of None \<Rightarrow> (None, w)
   | Some p \<Rightarrow> if demotedIn s (holderOf (cx_origin cx) p) w \<and> cx_ipfs cx \<noteq> [] then (None, w)
       else (case readSoon s (cx_origin cx) p (un_start u) (un_end u - un_start u) w of
           (Inr b, w1) \<Rightarrow> (Some b, w1)
         | (Inl None, w1) \<Rightarrow> (None, noteIn s (holderOf (cx_origin cx) p) False w1)
         | (Inl (Some e), w1) \<Rightarrow> (None, w1)))"

definition fetchItem :: "'w site \<Rightarrow> 'w source_ctx \<Rightarrow> layout \<Rightarrow> place option \<Rightarrow> bytes option \<Rightarrow> item \<Rightarrow> 'w \<Rightarrow> bytes result \<times> 'w" where
  "fetchItem s cx lay src whole it w = (let sg = it_seg it in
     case map_option (\<lambda>b. subarray b (it_rel it) (it_rel it + sg_len sg)) whole of
       Some b \<Rightarrow> if named b = sg_kappa sg then (Inr b, w) else fallback s cx lay sg src w
     | None \<Rightarrow> fallback s cx lay sg src w)"

fun fetchItems :: "'w site \<Rightarrow> 'w source_ctx \<Rightarrow> layout \<Rightarrow> place option \<Rightarrow> bytes option \<Rightarrow> item list \<Rightarrow> 'w \<Rightarrow> bytes list result \<times> 'w" where
  "fetchItems s cx lay src whole [] w = (Inr [], w)"
| "fetchItems s cx lay src whole (it # its) w = (case fetchItem s cx lay src whole it w of
     (Inl e, w1) \<Rightarrow> (Inl e, w1)
   | (Inr b, w1) \<Rightarrow> (let (more, w2) = fetchItems s cx lay src whole its w1 in (map_sum id (\<lambda>bs. b # bs) more, w2)))"

definition fetchUnit :: "'w site \<Rightarrow> 'w source_ctx \<Rightarrow> layout \<Rightarrow> int \<Rightarrow> int \<Rightarrow> unit' \<Rightarrow> 'w \<Rightarrow> bytes list result \<times> 'w" where
  "fetchUnit s cx lay start stop u w = (let it = hd (un_items u); sg = it_seg it in
     case un_kind u of
       Literal \<Rightarrow> map_prod (map_sum id (\<lambda>b. [b])) id (fetchLiteral cx sg w)
     | Viewed \<Rightarrow> map_prod (map_sum id (\<lambda>b. [b])) id (fetchViewed s cx sg w)
     | Pieced \<Rightarrow> (let (g, w1) = viaPieces cx lay start stop it w in (map_sum id (\<lambda>b. [b]) (readAll g), w1))
     | Joined \<Rightarrow> (let (whole, w1) = readWhole s cx u w in fetchItems s cx lay (un_src u) whole (un_items u) w1)
     | _ \<Rightarrow> (Inr [], w))"

subsection \<open>In order, with a window of reads in flight\<close>

text \<open>A payload over the buffer and without pieces: streamed, hashed at its end.\<close>

fun slices :: "int \<Rightarrow> int \<Rightarrow> nat \<Rightarrow> bytes list \<Rightarrow> bytes list" where
  "slices start stop at [] = []"
| "slices start stop at (c # cs) = (let lo = max (int at) start; hi = min (int at + int (length c) - 1) stop in
     (if lo \<le> hi then [subarray c (nat (lo - int at)) (nat (hi - int at + 1))] else []) @ slices start stop (at + length c) cs)"

fun streamFrom :: "'w site \<Rightarrow> 'w source_ctx \<Rightarrow> int \<Rightarrow> int \<Rightarrow> item \<Rightarrow> place option list \<Rightarrow> string list \<Rightarrow> 'w \<Rightarrow> bytes list \<times> unit result" where
  "streamFrom s cx start stop it [] tried w =
     ([], Inl (Error (''no source verified '' @ sg_kappa (it_seg it) @ '' (tried '' @ join '', '' tried @ '')'')))"
| "streamFrom s cx start stop it (None # ps) tried w = ([], Inl TypeError)"
| "streamFrom s cx start stop it (Some p # ps) tried w =
     (case readRange s (cx_origin cx) p (offOf p) (sg_len (it_seg it)) w of
        ((cs, Inr ()), w1) \<Rightarrow> (slices start stop (it_a it) cs,
          if named (concat cs) = sg_kappa (it_seg it) then Inr ()
          else Inl (Error (''tensor '' @ sg_kappa (it_seg it) @ '' failed verification after release; aborting'')))
      | ((cs, Inl e), w1) \<Rightarrow> (let (out, r) = streamFrom s cx start stop it ps (tried @ [label p]) w1
          in (slices start stop (it_a it) cs @ out, r)))"

text \<open>What a unit releases once its turn comes; \<open>early\<close> is what its reads, started before, came to.\<close>

definition release :: "'w site \<Rightarrow> 'w source_ctx \<Rightarrow> layout \<Rightarrow> int \<Rightarrow> int \<Rightarrow> unit' \<Rightarrow> 'w \<Rightarrow> bytes list \<times> unit result" where
  "release s cx lay start stop u w = (case un_kind u of
     PiecedLarge \<Rightarrow> fst (viaPieces cx lay start stop (hd (un_items u)) w)
   | Large \<Rightarrow> streamFrom s cx start stop (hd (un_items u)) (candidates cx lay (it_seg (hd (un_items u)))) [] w
   | _ \<Rightarrow> (case fst (fetchUnit s cx lay start stop u w) of
       Inl e \<Rightarrow> ([], Inl e)
     | Inr bufs \<Rightarrow> (if un_kind u = Pieced then bufs else map2 (cut start stop) (un_items u) bufs, Inr ())))"

text \<open>
  The loop: \<open>pending\<close> units have their reads in flight (their number in the file says in which world),
  \<open>rest\<close> is still to be started. \<open>fill\<close> starts reads up to the window.
\<close>

definition fill :: "nat \<Rightarrow> (nat \<times> unit') list \<Rightarrow> (nat \<times> unit') list \<Rightarrow> (nat \<times> unit') list \<times> (nat \<times> unit') list" where
  "fill window pending rest = (pending @ take (window - length pending) rest, drop (window - length pending) rest)"

function drive :: "nat \<Rightarrow> (nat \<times> unit' \<Rightarrow> bytes list \<times> unit result) \<Rightarrow> (nat \<times> unit') list \<Rightarrow> (nat \<times> unit') list \<Rightarrow> bytes list \<times> unit result" where
  "drive window rel [] rest = ([], Inr ())"
| "drive window rel (u # ps) rest = (case rel u of
     (out, Inl e) \<Rightarrow> (out, Inl e)
   | (out, Inr _) \<Rightarrow> (let (ps', rest') = fill window ps rest; (more, r) = drive window rel ps' rest' in (out @ more, r)))"
  by pat_completeness auto
termination
  by (relation "measure (\<lambda>(window, rel, pending, rest). length pending + length rest)") (auto simp: fill_def)

definition assemble :: "'w site \<Rightarrow> 'w source_ctx \<Rightarrow> layout \<Rightarrow> int \<Rightarrow> int \<Rightarrow> (nat \<Rightarrow> 'w) \<Rightarrow> bytes list \<times> unit result" where
  "assemble s cx lay start stop ws = (let (pending, rest) = fill (cx_window cx) [] (enumerate 0 (unitsOf cx lay start stop)) in
     drive (cx_window cx) (\<lambda>(k, u). release s cx lay start stop u (ws k)) pending rest)"

subsection \<open>The window changes nothing but the time\<close>

fun inOrder :: "('u \<Rightarrow> bytes list \<times> unit result) \<Rightarrow> 'u list \<Rightarrow> bytes list \<times> unit result" where
  "inOrder rel [] = ([], Inr ())"
| "inOrder rel (u # us) = (case rel u of
     (out, Inl e) \<Rightarrow> (out, Inl e)
   | (out, Inr _) \<Rightarrow> (let (more, r) = inOrder rel us in (out @ more, r)))"

lemma fill_all: "fill window ps rest = (ps', rest') \<Longrightarrow> ps' @ rest' = ps @ rest \<and> (0 < window \<longrightarrow> ps' = [] \<longrightarrow> rest' = [])
    \<and> (length ps \<le> window \<longrightarrow> length ps' \<le> window)"
  by (auto simp: fill_def)

lemma drive_in_order: "0 < window \<Longrightarrow> (ps = [] \<Longrightarrow> rest = []) \<Longrightarrow> drive window rel ps rest = inOrder rel (ps @ rest)"
proof (induction window rel ps rest rule: drive.induct)
  case (2 window rel u ps rest)
  obtain ps' rest' where f: "fill window ps rest = (ps', rest')" by fastforce
  show ?case
  proof (cases "rel u")
    case (Pair out r)
    show ?thesis
    proof (cases r)
      case (Inr x)
      have "drive window rel ps' rest' = inOrder rel (ps' @ rest')"
        using "2.IH" [of out "Inr x" x "(ps', rest')" ps' rest'] Pair Inr f fill_all [OF f] "2.prems"(1) by auto
      then show ?thesis using fill_all [OF f] by (simp add: Pair Inr f)
    qed (simp add: Pair)
  qed
qed simp

lemma assemble_in_order:
  "0 < cx_window cx \<Longrightarrow> assemble s cx lay start stop ws
      = inOrder (\<lambda>(k, u). release s cx lay start stop u (ws k)) (enumerate 0 (unitsOf cx lay start stop))"
proof -
  assume "0 < cx_window cx"
  moreover obtain ps rest where f: "fill (cx_window cx) [] (enumerate 0 (unitsOf cx lay start stop)) = (ps, rest)" by fastforce
  ultimately show ?thesis using fill_all [OF f] by (simp add: assemble_def f drive_in_order)
qed

subsection \<open>What the units are\<close>

fun placed :: "nat \<Rightarrow> segment list \<Rightarrow> (segment \<times> nat) list" where
  "placed a [] = []"
| "placed a (sg # sgs) = (sg, a) # placed (a + sg_len sg) sgs"

definition wantedOf :: "int \<Rightarrow> int \<Rightarrow> (segment \<times> nat) list \<Rightarrow> (segment \<times> nat) list" where
  "wantedOf start stop xs = filter (\<lambda>(sg, a). wanted start stop a (sg_len sg)) xs"

definition spotOf :: "item \<Rightarrow> segment \<times> nat" where
  "spotOf it = (it_seg it, it_a it)"

definition itemsOf :: "unit' list \<Rightarrow> (segment \<times> nat) list" where
  "itemsOf us = map spotOf (concat (map un_items us))"

definition pieced :: "'w source_ctx \<Rightarrow> segment \<Rightarrow> bool" where
  "pieced cx sg \<longleftrightarrow> PIECE < sg_len sg \<and> cx_pieces cx (sg_kappa sg) \<noteq> None"

text \<open>A payload that is streamed before it is checked.\<close>

definition streamed :: "'w source_ctx \<Rightarrow> segment \<Rightarrow> bool" where
  "streamed cx sg \<longleftrightarrow> sg_kind sg \<noteq> ''l'' \<and> sg_kind sg \<noteq> ''v'' \<and> \<not> pieced cx sg \<and> cx_buffer cx < sg_len sg"

definition unitOk :: "'w source_ctx \<Rightarrow> unit' \<Rightarrow> bool" where
  "unitOk cx u \<longleftrightarrow> un_items u \<noteq> [] \<and> (un_kind u \<noteq> Joined \<longrightarrow> length (un_items u) = 1)
     \<and> (un_kind u = Pieced \<or> un_kind u = PiecedLarge \<longrightarrow> pieced cx (it_seg (hd (un_items u))))
     \<and> (un_kind u = Large \<longrightarrow> streamed cx (it_seg (hd (un_items u))))
     \<and> (un_kind u = Joined \<and> un_src u \<noteq> None \<longrightarrow> un_start u \<le> un_end u
          \<and> (\<forall>it \<in> set (un_items u). it_rel it + sg_len (it_seg it) \<le> un_end u - un_start u))"

lemma itemsOf_append [simp]: "itemsOf (us @ vs) = itemsOf us @ itemsOf vs"
  by (simp add: itemsOf_def)

lemma itemsOf_single [simp]: "itemsOf [single k it] = [spotOf it]"
  by (simp add: itemsOf_def single_def)

lemma spotOf_itemOf [simp]: "spotOf (itemOf sg a) = (sg, a)"
  by (simp add: spotOf_def itemOf_def)

lemma joins_last: "joins cx u src len \<Longrightarrow> \<exists>p. src = Some p \<and> un_src u \<noteq> None \<and> un_end u \<le> offOf p"
  by (auto simp: joins_def offOf_def split: option.splits place.splits)

lemma addJoined_ok:
  assumes "\<And>u. u \<in> set us \<Longrightarrow> unitOk cx u" and "open' \<Longrightarrow> us \<noteq> [] \<Longrightarrow> un_kind (last us) = Joined"
  shows "itemsOf (addJoined cx lay sg a us open') = itemsOf us @ [(sg, a)]
    \<and> (\<forall>u \<in> set (addJoined cx lay sg a us open'). unitOk cx u) \<and> un_kind (last (addJoined cx lay sg a us open')) = Joined"
proof -
  define src where "src = (case candidates cx lay sg of [] \<Rightarrow> None | p # _ \<Rightarrow> p)"
  define off where "off = (case src of Some p \<Rightarrow> offOf p | None \<Rightarrow> 0)"
  define it where "it = (itemOf sg a)\<lparr>it_src := src\<rparr>"
  have sp: "spotOf (it\<lparr>it_rel := n\<rparr>) = (sg, a)" "spotOf it = (sg, a)" "it_seg it = sg" "it_rel it = 0" for n
    by (simp_all add: it_def spotOf_def itemOf_def)
  show ?thesis
  proof (cases "open' \<and> us \<noteq> [] \<and> joins cx (last us) src (sg_len sg)")
    case True
    define u where "u = last us"
    define u' where "u' = u\<lparr>un_items := un_items u @ [it\<lparr>it_rel := off - un_start u\<rparr>], un_end := off + sg_len sg\<rparr>"
    have us: "us = butlast us @ [u]" using True by (simp add: u_def)
    have j: "addJoined cx lay sg a us open' = butlast us @ [u']"
      using True by (simp add: addJoined_def Let_def src_def [symmetric] off_def [symmetric] it_def [symmetric] u_def u'_def)
    obtain p where p: "src = Some p" "un_src u \<noteq> None" "un_end u \<le> offOf p" using True joins_last u_def by blast
    have k: "un_kind u = Joined" using True assms(2) by (simp add: u_def)
    have ok: "unitOk cx u" using True assms(1) by (simp add: u_def)
    have "unitOk cx u'" using ok k p sp(3) unfolding unitOk_def u'_def off_def by auto
    moreover have "itemsOf (butlast us @ [u']) = itemsOf (butlast us @ [u]) @ [(sg, a)]"
      by (simp add: itemsOf_def u'_def sp)
    ultimately show ?thesis using assms(1) k us j by (auto simp: u'_def dest: in_set_butlastD)
  next
    case False
    then have "addJoined cx lay sg a us open' = us @ [\<lparr>un_kind = Joined, un_src = src, un_start = off,
        un_end = (if src = None then 0 else off + sg_len sg), un_items = [it]\<rparr>]"
      unfolding addJoined_def Let_def src_def [symmetric] off_def [symmetric] it_def [symmetric] by (rule if_not_P)
    then show ?thesis using assms(1) sp by (auto simp: itemsOf_def unitOk_def)
  qed
qed

definition stateOk :: "'w source_ctx \<Rightarrow> units_state \<Rightarrow> bool" where
  "stateOk cx st = (case st of (us, a, open') \<Rightarrow> (\<forall>u \<in> set us. unitOk cx u) \<and> (open' \<longrightarrow> us \<noteq> [] \<longrightarrow> un_kind (last us) = Joined))"

lemma single_ok:
  "k \<noteq> Joined \<Longrightarrow> (k = Pieced \<or> k = PiecedLarge \<Longrightarrow> pieced cx (it_seg it)) \<Longrightarrow> (k = Large \<Longrightarrow> streamed cx (it_seg it)) \<Longrightarrow> unitOk cx (single k it)"
  by (auto simp: unitOk_def single_def)

lemma unitStep_ok:
  assumes "unitStep cx lay start stop (us, a, open') sg = (us', a', open2)" and "stateOk cx (us, a, open')"
  shows "itemsOf us' = itemsOf us @ wantedOf start stop [(sg, a)] \<and> a' = a + sg_len sg \<and> stateOk cx (us', a', open2)"
proof -
  have us: "\<And>u. u \<in> set us \<Longrightarrow> unitOk cx u" and l: "open' \<Longrightarrow> us \<noteq> [] \<Longrightarrow> un_kind (last us) = Joined"
    using assms(2) by (auto simp: stateOk_def)
  have one: ?thesis if "us' = us @ [single k (itemOf sg a)]" "a' = a + sg_len sg" "\<not> open2" "wanted start stop a (sg_len sg)" "unitOk cx (single k (itemOf sg a))" for k
    using that us by (auto simp: stateOk_def wantedOf_def)
  have seg: "it_seg (itemOf sg a) = sg" by (simp add: itemOf_def)
  consider "\<not> wanted start stop a (sg_len sg)" | "wanted start stop a (sg_len sg)" "sg_kind sg = ''l''"
    | "wanted start stop a (sg_len sg)" "sg_kind sg = ''v''"
    | "wanted start stop a (sg_len sg)" "sg_kind sg \<noteq> ''l''" "sg_kind sg \<noteq> ''v''" "pieced cx sg"
    | "wanted start stop a (sg_len sg)" "sg_kind sg \<noteq> ''l''" "sg_kind sg \<noteq> ''v''" "\<not> pieced cx sg" "cx_buffer cx < sg_len sg"
    | "wanted start stop a (sg_len sg)" "sg_kind sg \<noteq> ''l''" "sg_kind sg \<noteq> ''v''" "\<not> pieced cx sg" "\<not> cx_buffer cx < sg_len sg"
    by blast
  then show ?thesis
  proof cases
    case 1
    then show ?thesis using assms us by (auto simp: unitStep_def stateOk_def wantedOf_def Let_def)
  next
    case 2
    then show ?thesis using assms(1) by (intro one [of Literal] single_ok) (auto simp: unitStep_def Let_def)
  next
    case 3
    then show ?thesis using assms(1) by (intro one [of Viewed] single_ok) (auto simp: unitStep_def Let_def)
  next
    case 4
    then show ?thesis using assms(1) seg
      by (intro one [of "if cx_buffer cx < sg_len sg then PiecedLarge else Pieced"] single_ok)
        (auto simp: unitStep_def Let_def pieced_def split: if_splits)
  next
    case 5
    then show ?thesis using assms(1) seg
      by (intro one [of Large] single_ok) (auto simp: unitStep_def Let_def pieced_def streamed_def)
  next
    case 6
    then have "us' = addJoined cx lay sg a us open'" "a' = a + sg_len sg" "open2"
      using assms(1) by (auto simp: unitStep_def Let_def pieced_def)
    moreover have "itemsOf (addJoined cx lay sg a us open') = itemsOf us @ [(sg, a)] \<and> (\<forall>u \<in> set (addJoined cx lay sg a us open'). unitOk cx u)
        \<and> un_kind (last (addJoined cx lay sg a us open')) = Joined"
      by (rule addJoined_ok) (use us l in auto)
    ultimately show ?thesis using 6(1) by (simp add: stateOk_def wantedOf_def)
  qed
qed

lemma unitsOf_fold:
  "foldl (unitStep cx lay start stop) (us, a, open') sgs = (us', a', open2) \<Longrightarrow> stateOk cx (us, a, open') \<Longrightarrow>
     itemsOf us' = itemsOf us @ wantedOf start stop (placed a sgs) \<and> stateOk cx (us', a', open2)"
proof (induction sgs arbitrary: us a open')
  case (Cons sg sgs)
  obtain us1 a1 o1 where s: "unitStep cx lay start stop (us, a, open') sg = (us1, a1, o1)" by (metis prod.collapse)
  note U = unitStep_ok [OF s Cons.prems(2)]
  have "foldl (unitStep cx lay start stop) (us1, a1, o1) sgs = (us', a', open2)" using Cons.prems(1) s by simp
  from Cons.IH [OF this] U show ?case by (auto simp: wantedOf_def)
qed (simp add: wantedOf_def)

lemma units_cover:
  "itemsOf (unitsOf cx lay start stop) = wantedOf start stop (placed 0 (lo_segments lay)) \<and> (\<forall>u \<in> set (unitsOf cx lay start stop). unitOk cx u)"
proof -
  obtain us a o' where f: "foldl (unitStep cx lay start stop) ([], 0, False) (lo_segments lay) = (us, a, o')" by (metis prod.collapse)
  show ?thesis using unitsOf_fold [OF f] by (simp add: unitsOf_def f stateOk_def itemsOf_def)
qed

subsection \<open>What reaches the reader\<close>

text \<open>Bytes that a holder of some kind sent for a segment of \<open>n\<close> bytes, in any world.\<close>

definition arrived :: "'w site \<Rightarrow> 'w source_ctx \<Rightarrow> layout \<Rightarrow> nat \<Rightarrow> bytes \<Rightarrow> bool" where
  "arrived s cx lay n x \<longleftrightarrow> (\<exists>k w. fst (cx_literal cx k w) = Some x) \<or> (\<exists>gw h w. fst (ipfsPiece s gw h w) = Inr (Some x))
     \<or> (length x = n \<and> (\<exists>origin p a len w b i. readAll (fst (readRange s origin p a len w)) = Inr b \<and> x = subarray b i (i + n)))
     \<or> (\<exists>sg \<in> set (lo_segments lay). \<exists>f off m storage v shape w b. sg_where sg = Inside f off m storage v shape
          \<and> readAll (fst (readRange s (cx_origin cx) (InFile (cx_repo cx) (cx_rev cx) f off) off m w)) = Inr b
          \<and> gather (cx_raw cx n) b v shape n = Inr x)"

definition blockOf :: "bytes \<Rightarrow> segment \<Rightarrow> nat \<Rightarrow> bytes" where
  "blockOf obj sg a = subarray obj a (a + sg_len sg)"

text \<open>
  \<open>obj\<close> is the file the layout describes: the segments are its bytes in order, the piece lists are those
  of the segments, and nothing that arrived has the \<open>\<kappa>\<close> of a segment, or the hash of a piece, without being it.
\<close>

definition describes :: "'w site \<Rightarrow> 'w source_ctx \<Rightarrow> layout \<Rightarrow> bytes \<Rightarrow> bool" where
  "describes s cx lay obj \<longleftrightarrow> length obj = sum_list (map sg_len (lo_segments lay))
     \<and> (\<forall>(sg, a) \<in> set (placed 0 (lo_segments lay)).
          (\<forall>x. arrived s cx lay (sg_len sg) x \<and> named x = sg_kappa sg \<longrightarrow> x = blockOf obj sg a)
        \<and> (\<forall>ps. cx_pieces cx (sg_kappa sg) = Some ps \<longrightarrow> ps = map sha256hex (chunks PIECE (blockOf obj sg a)))
        \<and> (\<forall>w. collisionFree (blockOf obj sg a) (fst (snd (cx_runs cx w)))))"

lemma viaIpfs_checked: "viaIpfs s kappa gws tried w = ((Inr (Some x), t), w1) \<Longrightarrow> named x = kappa \<and> arrived s cx lay n x"
proof (induction gws arbitrary: tried w)
  case (Cons gw gws)
  obtain r w2 where p: "ipfsPiece s gw (drop 7 kappa) w = (r, w2)" by fastforce
  then have "r = Inr (Some y) \<Longrightarrow> arrived s cx lay n y" for y unfolding arrived_def by (metis fst_conv)
  with Cons p show ?case by (auto split: sum.splits option.splits if_splits)
qed simp

lemma arrived_read: "readAll (fst (readRange s origin p a len w)) = Inr b \<Longrightarrow> i + n \<le> len \<Longrightarrow> arrived s cx lay n (subarray b i (i + n))"
proof -
  assume r: "readAll (fst (readRange s origin p a len w)) = Inr b" and i: "i + n \<le> len"
  obtain out w1 where "readRange s origin p a len w = ((out, Inr ()), w1)" "b = concat out"
    using r by (cases "readRange s origin p a len w") (auto simp: readAll_Inr)
  then have "length b = len" using readRange_length [of s origin p a len w out w1] by simp
  then have "length (subarray b i (i + n)) = n" using i by (simp add: length_subarray)
  then show ?thesis using r unfolding arrived_def by blast
qed

lemma readSoon_Inr: "readSoon s origin p a len w = (Inr b, w1) \<Longrightarrow> readAll (fst (readRange s origin p a len w)) = Inr b \<and> length b = len"
proof -
  assume r: "readSoon s origin p a len w = (Inr b, w1)"
  obtain out q w2 where g: "readRange s origin p a len w = ((out, q), w2)" by (metis prod.collapse)
  then have a: "readAll (out, q) = Inr b" using r by (cases "readAll (out, q)") (auto simp: readSoon_def split: if_splits)
  then have "length b = len" using g readRange_length [of s origin p a len w out w2] by (auto simp: readAll_Inr)
  with a g show ?thesis by simp
qed

lemma arrived_gather:
  "sg \<in> set (lo_segments lay) \<Longrightarrow> sg_where sg = Inside f off m storage v shape \<Longrightarrow>
    readAll (fst (readRange s (cx_origin cx) (InFile (cx_repo cx) (cx_rev cx) f off) off m w)) = Inr b \<Longrightarrow>
    gather (cx_raw cx n) b v shape n = Inr x \<Longrightarrow> arrived s cx lay n x"
  unfolding arrived_def by (intro disjI2 bexI exI conjI)

lemma fromPlaces_checked:
  "fromPlaces s origin sg skip ps tried w = ((Inr (Some x), t), w1) \<Longrightarrow> named x = sg_kappa sg \<and> arrived s cx lay (sg_len sg) x"
proof (induction s origin sg skip ps tried w rule: fromPlaces.induct)
  case (3 s origin sg skip p ps tried w)
  obtain r w2 where q: "readSoon s origin p (offOf p) (sg_len sg) w = (r, w2)" by fastforce
  have "arrived s cx lay (sg_len sg) b" if "r = Inr b" for b
    using readSoon_Inr [of s origin p "offOf p" "sg_len sg" w b w2] q that arrived_read [of s origin p "offOf p" "sg_len sg" w b 0 "sg_len sg" cx lay]
    by (auto simp: subarray_def)
  with 3 q show ?case by (auto simp: Let_def split: if_splits sum.splits option.splits)
qed simp_all

lemma fallback_checked: "fallback s cx lay sg skip w = (Inr x, w1) \<Longrightarrow> named x = sg_kappa sg \<and> arrived s cx lay (sg_len sg) x"
proof -
  have ip: "smallViaIpfs s cx sg tried w = ((Inr (Some x), t), w1) \<Longrightarrow> named x = sg_kappa sg \<and> arrived s cx lay (sg_len sg) x" for tried t w w1
    using viaIpfs_checked [of s "sg_kappa sg" "cx_ipfs cx" tried w x t w1 cx lay "sg_len sg"] by (auto simp: smallViaIpfs_def split: if_splits)
  have ff: "fallbackFrom s cx lay sg skip tried w = (Inr x, w1) \<Longrightarrow> named x = sg_kappa sg \<and> arrived s cx lay (sg_len sg) x" for tried w w1
    using ip fromPlaces_checked [of s "cx_origin cx" sg skip "candidates cx lay sg" _ _ x _ _ cx lay]
    by (auto simp: fallbackFrom_def split: prod.splits sum.splits option.splits)
  assume "fallback s cx lay sg skip w = (Inr x, w1)"
  then show ?thesis using ip ff by (auto simp: fallback_def split: if_splits prod.splits sum.splits option.splits)
qed

definition checkedItem :: "'w site \<Rightarrow> 'w source_ctx \<Rightarrow> layout \<Rightarrow> item \<Rightarrow> bytes \<Rightarrow> bool" where
  "checkedItem s cx lay it x \<longleftrightarrow> named x = sg_kappa (it_seg it) \<and> arrived s cx lay (sg_len (it_seg it)) x"

lemma fetchItems_checked:
  assumes "fetchItems s cx lay src whole its w = (Inr bs, w1)"
    and "\<And>b. whole = Some b \<Longrightarrow> \<exists>origin p a len w. readAll (fst (readRange s origin p a len w)) = Inr b \<and> (\<forall>it \<in> set its. it_rel it + sg_len (it_seg it) \<le> len)"
  shows "list_all2 (checkedItem s cx lay) its bs"
  using assms
proof (induction its arbitrary: w bs w1)
  case (Cons it its)
  obtain q w2 where rq: "fetchItem s cx lay src whole it w = (q, w2)" by fastforce
  obtain b where q: "q = Inr b" using Cons.prems(1) rq by (cases q) auto
  obtain more w3 where f: "fetchItems s cx lay src whole its w2 = (more, w3)" by fastforce
  obtain bs' where bs: "more = Inr bs'" "bs = b # bs'" using Cons.prems(1) rq q f by (cases more) auto
  have "checkedItem s cx lay it b"
  proof (cases whole)
    case None
    then show ?thesis using rq q by (auto simp: fetchItem_def checkedItem_def dest: fallback_checked)
  next
    case (Some c)
    obtain origin p a len w where "readAll (fst (readRange s origin p a len w)) = Inr c" "it_rel it + sg_len (it_seg it) \<le> len"
      using Cons.prems(2) [OF Some] by auto
    then have "arrived s cx lay (sg_len (it_seg it)) (subarray c (it_rel it) (it_rel it + sg_len (it_seg it)))" by (rule arrived_read)
    then show ?thesis using Some rq q by (auto simp: fetchItem_def checkedItem_def Let_def split: if_splits dest: fallback_checked)
  qed
  moreover have "list_all2 (checkedItem s cx lay) its bs'"
  proof (rule Cons.IH)
    show "fetchItems s cx lay src whole its w2 = (Inr bs', w3)" using f bs by simp
  next
    fix b assume "whole = Some b"
    from Cons.prems(2) [OF this] show "\<exists>origin p a len w. readAll (fst (readRange s origin p a len w)) = Inr b
        \<and> (\<forall>it \<in> set its. it_rel it + sg_len (it_seg it) \<le> len)" by (metis list.set_intros(2))
  qed
  ultimately show ?case using bs by simp
qed simp

lemma fetchLiteral_checked: "fetchLiteral cx sg w = (Inr x, w1) \<Longrightarrow> named x = sg_kappa sg \<and> arrived s cx lay n x"
proof -
  assume f: "fetchLiteral cx sg w = (Inr x, w1)"
  obtain r w2 where l: "cx_literal cx (sg_kappa sg) w = (r, w2)" by fastforce
  then have r: "r = Some x \<and> named x = sg_kappa sg" using f by (auto simp: fetchLiteral_def split: option.splits if_splits)
  then have "fst (cx_literal cx (sg_kappa sg) w) = Some x" using l by simp
  then show ?thesis using r unfolding arrived_def by (intro conjI disjI1 exI) auto
qed

lemma fetchViewed_checked: "fetchViewed s cx sg w = (Inr x, w1) \<Longrightarrow> sg \<in> set (lo_segments lay) \<Longrightarrow> named x = sg_kappa sg \<and> arrived s cx lay (sg_len sg) x"
proof -
  assume f: "fetchViewed s cx sg w = (Inr x, w1)" and sg: "sg \<in> set (lo_segments lay)"
  from f obtain g off n storage v shape where sp: "sg_where sg = Inside g off n storage v shape" by (cases "sg_where sg") (auto simp: fetchViewed_def)
  define p where "p = InFile (cx_repo cx) (cx_rev cx) g off"
  obtain q w2 where r: "readRange s (cx_origin cx) p off n w = (q, w2)" by fastforce
  obtain st where st: "readAll q = Inr st" "gather (cx_raw cx (sg_len sg)) st v shape (sg_len sg) = Inr x" "named x = sg_kappa sg"
    using f r by (auto simp: fetchViewed_def sp p_def [symmetric] andThen_Inr_iff split: if_splits)
  have "readAll (fst (readRange s (cx_origin cx) p off n w)) = Inr st" using st(1) r by simp
  then show ?thesis using arrived_gather [OF sg sp, of s cx w st "sg_len sg" x] st(2,3) by (simp add: p_def)
qed

lemma readWhole_Some:
  assumes "readWhole s cx u w = (Some b, w1)"
  obtains p where "un_src u = Some p" "readAll (fst (readRange s (cx_origin cx) p (un_start u) (un_end u - un_start u) w)) = Inr b"
proof -
  obtain p where p: "un_src u = Some p" using assms by (auto simp: readWhole_def split: option.splits)
  obtain r w2 where r: "readSoon s (cx_origin cx) p (un_start u) (un_end u - un_start u) w = (r, w2)" by fastforce
  have "r = Inr b" using assms p r by (auto simp: readWhole_def split: if_splits sum.splits option.splits)
  then have "readSoon s (cx_origin cx) p (un_start u) (un_end u - un_start u) w = (Inr b, w2)" using r by simp
  then show ?thesis by (intro that [OF p]) (rule readSoon_Inr [THEN conjunct1])
qed

end
