(* ===== verification/Json.thy ===== *)
theory Json
  imports Prelude
begin

text \<open>
  \<open>JSON.stringify\<close> and \<open>JSON.parse\<close> of the language, as the components use them to write and
  read manifests, index nodes, log entries and records: compact output, an object's properties in
  JavaScript's own order, and a parser that skips white space. Numbers are the integers; the
  components write no others.
\<close>

datatype json =
    JNull
  | JBool bool
  | JNum int
  | JStr string
  | JArr "json list"
  | JObj "(string \<times> json) list"

subsection \<open>Objects\<close>

text \<open>
  A property whose name is an array index (a canonical decimal below \<open>2 ^ 32 - 1\<close>) is listed
  before the others, in ascending order; the others are listed in order of creation.
\<close>

definition isIndex :: "string \<Rightarrow> bool" where
  "isIndex k \<longleftrightarrow> k \<noteq> [] \<and> list_all isDigit k \<and> decimal (undecimal k) = k \<and> int (undecimal k) < 2 ^ 32 - 1"

fun insertIndex :: "(string \<times> 'a) list \<Rightarrow> string \<Rightarrow> 'a \<Rightarrow> (string \<times> 'a) list" where
  "insertIndex [] k v = [(k, v)]"
| "insertIndex ((k', v') # kvs) k v =
     (if isIndex k' \<and> undecimal k' < undecimal k then (k', v') # insertIndex kvs k v
      else (k, v) # (k', v') # kvs)"

text \<open>\<open>o[k] = v\<close> and \<open>o[k]\<close>.\<close>

fun updProp :: "(string \<times> 'a) list \<Rightarrow> string \<Rightarrow> 'a \<Rightarrow> (string \<times> 'a) list" where
  "updProp [] k v = []"
| "updProp ((k', v') # kvs) k v = (if k' = k then (k, v) # kvs else (k', v') # updProp kvs k v)"

definition setProp :: "(string \<times> 'a) list \<Rightarrow> string \<Rightarrow> 'a \<Rightarrow> (string \<times> 'a) list" where
  "setProp kvs k v =
     (if k \<in> fst ` set kvs then updProp kvs k v
      else if isIndex k then insertIndex kvs k v else kvs @ [(k, v)])"

definition fromEntries :: "(string \<times> 'a) list \<Rightarrow> (string \<times> 'a) list" where
  "fromEntries kvs = foldl (\<lambda>m (k, v). setProp m k v) [] kvs"

fun getProp :: "string \<Rightarrow> json \<Rightarrow> json option" where
  "getProp k (JObj kvs) = map_of kvs k"
| "getProp k _ = None"

text \<open>An object as a literal builds it when no two names agree and none is an index.\<close>

definition plainKeys :: "string list \<Rightarrow> bool" where
  "plainKeys ks \<longleftrightarrow> distinct ks \<and> list_all (\<lambda>k. \<not> isIndex k) ks"

lemma setProp_new: "k \<notin> fst ` set kvs \<Longrightarrow> \<not> isIndex k \<Longrightarrow> setProp kvs k v = kvs @ [(k, v)]"
  by (simp add: setProp_def)

lemma keys_updProp: "map fst (updProp kvs k v) = map fst kvs"
  by (induction kvs k v rule: updProp.induct) auto

lemma set_updProp: "set (updProp kvs k v) \<subseteq> insert (k, v) (set kvs)"
  by (induction kvs k v rule: updProp.induct) auto

lemma set_insertIndex: "set (insertIndex kvs k v) = insert (k, v) (set kvs)"
  by (induction kvs k v rule: insertIndex.induct) auto

lemma set_setProp: "set (setProp kvs k v) \<subseteq> insert (k, v) (set kvs)"
  using set_updProp [of kvs k v] by (auto simp: setProp_def set_insertIndex)

lemma distinct_insertIndex: "distinct (map fst kvs) \<Longrightarrow> k \<notin> fst ` set kvs \<Longrightarrow> distinct (map fst (insertIndex kvs k v))"
proof (induction kvs k v rule: insertIndex.induct)
  case (2 k' v' kvs k v)
  then show ?case by (auto simp: set_insertIndex)
qed simp

lemma distinct_setProp: "distinct (map fst kvs) \<Longrightarrow> distinct (map fst (setProp kvs k v))"
  by (auto simp: setProp_def keys_updProp distinct_insertIndex)

lemma map_of_insertIndex: "k \<notin> fst ` set kvs \<Longrightarrow> map_of (insertIndex kvs k v) = (map_of kvs)(k \<mapsto> v)"
  by (induction kvs k v rule: insertIndex.induct) (auto simp: fun_eq_iff)

lemma map_of_setProp: "map_of (setProp kvs k v) = (map_of kvs)(k \<mapsto> v)"
proof (cases "k \<in> fst ` set kvs")
  case True
  then have "map_of kvs k \<noteq> None" by (simp add: map_of_eq_None_iff)
  moreover have "map_of (updProp kvs k v) x = (if x = k \<and> map_of kvs k \<noteq> None then Some v else map_of kvs x)" for x
    by (induction kvs k v rule: updProp.induct) auto
  ultimately show ?thesis using True by (simp add: setProp_def fun_eq_iff)
next
  case False
  then have "map_of kvs k = None" by (simp add: map_of_eq_None_iff)
  then have "map_of (kvs @ [(k, v)]) = (map_of kvs)(k \<mapsto> v)"
    by (auto simp: map_add_def fun_eq_iff split: option.splits)
  with False show ?thesis by (simp add: setProp_def map_of_insertIndex)
qed

lemma foldl_setProp_plain:
  "plainKeys (map fst (acc @ kvs)) \<Longrightarrow> foldl (\<lambda>m (k, v). setProp m k v) acc kvs = acc @ kvs"
proof (induction kvs arbitrary: acc)
  case (Cons kv kvs)
  obtain k v where kv: "kv = (k, v)" by (cases kv)
  with Cons.prems have "setProp acc k v = acc @ [(k, v)]"
    by (intro setProp_new) (auto simp: plainKeys_def)
  moreover have "plainKeys (map fst ((acc @ [(k, v)]) @ kvs))" using Cons.prems by (simp add: kv)
  ultimately show ?case using Cons.IH kv by simp
qed simp

lemma fromEntries_plain: "plainKeys (map fst kvs) \<Longrightarrow> fromEntries kvs = kvs"
  by (simp add: fromEntries_def foldl_setProp_plain)

subsection \<open>JSON.stringify\<close>

definition escapeChar :: "char \<Rightarrow> string" where
  "escapeChar c =
     (if c = CHR 0x22 then [CHR 0x5C, CHR 0x22]
      else if c = CHR 0x5C then [CHR 0x5C, CHR 0x5C]
      else if c = CHR 0x08 then [CHR 0x5C, CHR ''b'']
      else if c = CHR 0x09 then [CHR 0x5C, CHR ''t'']
      else if c = CHR 0x0A then [CHR 0x5C, CHR ''n'']
      else if c = CHR 0x0C then [CHR 0x5C, CHR ''f'']
      else if c = CHR 0x0D then [CHR 0x5C, CHR ''r'']
      else if (of_char c :: nat) < 32
        then [CHR 0x5C, CHR ''u'', CHR ''0'', CHR ''0'', hexdigit (of_char c div 16), hexdigit (of_char c mod 16)]
      else [c])"

definition quote :: "string \<Rightarrow> string" where
  "quote s = CHR 0x22 # concat (map escapeChar s) @ [CHR 0x22]"

definition numText :: "int \<Rightarrow> string" where
  "numText i = (if i < 0 then CHR ''-'' # decimal (nat (- i)) else decimal (nat i))"

fun stringify :: "json \<Rightarrow> string"
and stringifyElems :: "json list \<Rightarrow> string"
and stringifyMembers :: "(string \<times> json) list \<Rightarrow> string" where
  "stringify JNull = ''null''"
| "stringify (JBool True) = ''true''"
| "stringify (JBool False) = ''false''"
| "stringify (JNum i) = numText i"
| "stringify (JStr s) = quote s"
| "stringify (JArr []) = ''[]''"
| "stringify (JArr (v # vs)) = ''['' @ stringify v @ stringifyElems vs @ '']''"
| "stringify (JObj []) = ''{}''"
| "stringify (JObj ((k, v) # kvs)) = ''{'' @ quote k @ '':'' @ stringify v @ stringifyMembers kvs @ ''}''"
| "stringifyElems [] = []"
| "stringifyElems (v # vs) = '','' @ stringify v @ stringifyElems vs"
| "stringifyMembers [] = []"
| "stringifyMembers ((k, v) # kvs) = '','' @ quote k @ '':'' @ stringify v @ stringifyMembers kvs"

subsection \<open>JSON.parse\<close>

definition isSpace :: "char \<Rightarrow> bool" where
  "isSpace c \<longleftrightarrow> (of_char c :: nat) \<in> {32, 9, 10, 13}"

abbreviation skip :: "string \<Rightarrow> string" where
  "skip s \<equiv> dropWhile isSpace s"

text \<open>The rest of a string literal after its opening quote.\<close>

fun parseString :: "string \<Rightarrow> (string \<times> string) option" where
  "parseString [] = None"
| "parseString (c # cs) =
     (if c = CHR 0x22 then Some ([], cs)
      else if c = CHR 0x5C then
        (case cs of
           [] \<Rightarrow> None
         | e # es \<Rightarrow>
             if e = CHR 0x22 \<or> e = CHR 0x5C \<or> e = CHR ''/'' then map_option (\<lambda>(s, r). (e # s, r)) (parseString es)
             else if e = CHR ''b'' then map_option (\<lambda>(s, r). (CHR 0x08 # s, r)) (parseString es)
             else if e = CHR ''t'' then map_option (\<lambda>(s, r). (CHR 0x09 # s, r)) (parseString es)
             else if e = CHR ''n'' then map_option (\<lambda>(s, r). (CHR 0x0A # s, r)) (parseString es)
             else if e = CHR ''f'' then map_option (\<lambda>(s, r). (CHR 0x0C # s, r)) (parseString es)
             else if e = CHR ''r'' then map_option (\<lambda>(s, r). (CHR 0x0D # s, r)) (parseString es)
             else if e = CHR ''u'' then
               (case es of
                  z0 # z1 # h # l # rest \<Rightarrow>
                    if z0 = CHR ''0'' \<and> z1 = CHR ''0''
                    then map_option (\<lambda>(s, r). (char_of (16 * unhexdigit h + unhexdigit l) # s, r)) (parseString rest)
                    else None
                | _ \<Rightarrow> None)
             else None)
      else if (of_char c :: nat) < 32 then None
      else map_option (\<lambda>(s, r). (c # s, r)) (parseString cs))"

definition parseDigits :: "string \<Rightarrow> (nat \<times> string) option" where
  "parseDigits s = (case takeWhile isDigit s of
     [] \<Rightarrow> None
   | d # ds \<Rightarrow> if d = CHR ''0'' \<and> ds \<noteq> [] then None else Some (undecimal (d # ds), dropWhile isDigit s))"

definition stripLit :: "string \<Rightarrow> json \<Rightarrow> string \<Rightarrow> (json \<times> string) option" where
  "stripLit lit v s = (if take (length lit) s = lit then Some (v, drop (length lit) s) else None)"

text \<open>
  The recursive descent. The first argument bounds the depth of the calls; the length of the text
  is always enough, as every call consumes at least one character.
\<close>

fun parseValue :: "nat \<Rightarrow> string \<Rightarrow> (json \<times> string) option"
and parseElems :: "nat \<Rightarrow> json list \<Rightarrow> string \<Rightarrow> (json \<times> string) option"
and parseMembers :: "nat \<Rightarrow> (string \<times> json) list \<Rightarrow> string \<Rightarrow> (json \<times> string) option" where
  "parseValue 0 s = None"
| "parseValue (Suc n) s =
     (case skip s of
        [] \<Rightarrow> None
      | c # cs \<Rightarrow>
          if c = CHR ''n'' then stripLit ''null'' JNull (c # cs)
          else if c = CHR ''t'' then stripLit ''true'' (JBool True) (c # cs)
          else if c = CHR ''f'' then stripLit ''false'' (JBool False) (c # cs)
          else if c = CHR ''-'' then map_option (\<lambda>(m, r). (JNum (- int m), r)) (parseDigits cs)
          else if isDigit c then map_option (\<lambda>(m, r). (JNum (int m), r)) (parseDigits (c # cs))
          else if c = CHR 0x22 then map_option (\<lambda>(t, r). (JStr t, r)) (parseString cs)
          else if c = CHR ''['' then
            (case skip cs of
               [] \<Rightarrow> None
             | d # ds \<Rightarrow> if d = CHR '']'' then Some (JArr [], ds)
                 else (case parseValue n (d # ds) of None \<Rightarrow> None | Some (v, r) \<Rightarrow> parseElems n [v] r))
          else if c = CHR ''{'' then
            (case skip cs of
               [] \<Rightarrow> None
             | d # ds \<Rightarrow> if d = CHR ''}'' then Some (JObj [], ds)
                 else parseMembers n [] (CHR '','' # d # ds))
          else None)"
| "parseElems 0 vs s = None"
| "parseElems (Suc n) vs s =
     (case skip s of
        [] \<Rightarrow> None
      | c # cs \<Rightarrow>
          if c = CHR '']'' then Some (JArr vs, cs)
          else if c = CHR '','' then
            (case parseValue n cs of None \<Rightarrow> None | Some (v, r) \<Rightarrow> parseElems n (vs @ [v]) r)
          else None)"
| "parseMembers 0 kvs s = None"
| "parseMembers (Suc n) kvs s =
     (case skip s of
        [] \<Rightarrow> None
      | c # cs \<Rightarrow>
          if c = CHR ''}'' then Some (JObj kvs, cs)
          else if c = CHR '','' then
            (case skip cs of
               [] \<Rightarrow> None
             | q # qs \<Rightarrow>
                 if q \<noteq> CHR 0x22 then None
                 else (case parseString qs of
                     None \<Rightarrow> None
                   | Some (k, r) \<Rightarrow>
                       (case skip r of
                          [] \<Rightarrow> None
                        | d # ds \<Rightarrow>
                            if d \<noteq> CHR '':'' then None
                            else (case parseValue n ds of
                                None \<Rightarrow> None
                              | Some (v, r') \<Rightarrow> parseMembers n (setProp kvs k v) r'))))
          else None)"

definition parse :: "string \<Rightarrow> json option" where
  "parse s = (case parseValue (2 * length s + 2) s of
     Some (v, r) \<Rightarrow> if skip r = [] then Some v else None
   | None \<Rightarrow> None)"

subsection \<open>Reading back what was written\<close>

text \<open>The values the components write: every object has distinct names, none an array index.\<close>

fun plain :: "json \<Rightarrow> bool" where
  "plain (JArr vs) \<longleftrightarrow> (\<forall>v \<in> set vs. plain v)"
| "plain (JObj kvs) \<longleftrightarrow> plainKeys (map fst kvs) \<and> (\<forall>kv \<in> set kvs. plain (snd kv))"
| "plain _ \<longleftrightarrow> True"

lemma parseString_quote: "parseString (concat (map escapeChar s) @ CHR 0x22 # r) = Some (s, r)"
proof (induction s)
  case (Cons c s)
  have "(of_char c :: nat) < 32 \<Longrightarrow> of_char c div 16 < (16::nat)" by auto
  moreover have "of_char c mod 16 < (16::nat)" by simp
  ultimately have "(of_char c :: nat) < 32 \<Longrightarrow>
      char_of (16 * unhexdigit (hexdigit (of_char c div 16)) + unhexdigit (hexdigit (of_char c mod 16))) = c"
    by (simp only: unhexdigit_hexdigit) simp
  with Cons.IH show ?case by (simp add: escapeChar_def)
qed simp

definition numEnd :: "string \<Rightarrow> bool" where
  "numEnd r \<longleftrightarrow> (case r of [] \<Rightarrow> True | c # _ \<Rightarrow> \<not> isDigit c)"

lemma decimal_no_leading_zero: "0 < n \<Longrightarrow> hd (decimal n) \<noteq> CHR ''0''"
proof (induction n rule: decimal.induct)
  case (1 n)
  show ?case
  proof (cases "n < 10")
    case True
    then have "n \<in> {1,2,3,4,5,6,7,8,9}" using "1.prems" by auto
    then show ?thesis by (auto simp: decimal.simps [of n] char_of_def)
  next
    case False
    then show ?thesis using "1.IH" by (simp add: decimal.simps [of n] hd_append)
  qed
qed

lemma parseDigits_decimal: "numEnd r \<Longrightarrow> parseDigits (decimal n @ r) = Some (n, r)"
proof -
  assume r: "numEnd r"
  have "\<forall>c \<in> set (decimal n). isDigit c" using decimal_digits by blast
  then have t: "takeWhile isDigit (decimal n @ r) = decimal n" and d: "dropWhile isDigit (decimal n @ r) = r"
    using r by (auto simp: numEnd_def takeWhile_append dropWhile_append split: list.splits)
  obtain c cs where c: "decimal n = c # cs" by (cases "decimal n") auto
  have "cs = []" if "c = CHR ''0''"
    using decimal_no_leading_zero [of n] c that by (cases n) (auto simp: decimal.simps [of 0])
  then show ?thesis using c t d undecimal_decimal [of n] by (auto simp: parseDigits_def)
qed

lemma decimal_hd_digit: "\<exists>c cs. decimal n = c # cs \<and> isDigit c"
  by (metis decimal_digits decimal_nonempty list.exhaust list.set_intros(1))

lemma isDigit_not_space: "isDigit c \<Longrightarrow> \<not> isSpace c"
  by (auto simp: isDigit_def isSpace_def)

lemma isDigit_range: "isDigit c \<Longrightarrow> c \<noteq> CHR '']'' \<and> c \<noteq> CHR ''n'' \<and> c \<noteq> CHR ''t'' \<and> c \<noteq> CHR ''f'' \<and> c \<noteq> CHR ''-''"
  by (auto simp: isDigit_def)

lemma parse_num: "numEnd r \<Longrightarrow> parseValue (Suc n) (numText i @ r) = Some (JNum i, r)"
proof (cases "i < 0")
  case True
  assume "numEnd r"
  then show ?thesis using True by (simp add: numText_def isSpace_def parseDigits_decimal)
next
  case False
  assume r: "numEnd r"
  obtain c cs where c: "decimal (nat i) = c # cs" "isDigit c" using decimal_hd_digit by blast
  have "parseDigits (c # cs @ r) = Some (nat i, r)" using parseDigits_decimal [OF r, of "nat i"] c by simp
  then show ?thesis
    using False c isDigit_not_space [OF c(2)] isDigit_range [OF c(2)] by (simp add: numText_def)
qed

lemma stringify_not_space: "\<exists>c cs. stringify v = c # cs \<and> \<not> isSpace c \<and> c \<noteq> CHR '']''"
proof (cases v)
  case (JNum i)
  then show ?thesis
    using decimal_hd_digit [of "nat i"] isDigit_not_space isDigit_range
    by (auto simp: numText_def isSpace_def)
next
  case (JBool b)
  then show ?thesis by (cases b) (auto simp: isSpace_def)
next
  case (JArr vs)
  then show ?thesis by (cases vs) (auto simp: isSpace_def)
next
  case (JObj kvs)
  then show ?thesis by (cases kvs) (auto simp: isSpace_def)
qed (auto simp: isSpace_def quote_def)

lemma skip_stringify: "skip (stringify v @ r) = stringify v @ r"
  using stringify_not_space [of v] by auto

lemma stringify_nonempty: "0 < length (stringify v)"
  using stringify_not_space [of v] by auto

lemma numEnd_elems: "numEnd (stringifyElems vs @ CHR '']'' # r)"
  by (cases vs) (auto simp: numEnd_def isDigit_def)

lemma numEnd_members: "numEnd (stringifyMembers kvs @ CHR ''}'' # r)"
  by (cases kvs) (auto simp: numEnd_def isDigit_def)

lemma parseValue_skip: "skip s = skip t \<Longrightarrow> parseValue n s = parseValue n t"
  by (cases n) simp_all

lemma parseMembers_step:
  assumes "parseValue m (stringify v @ t) = Some (v, t)"
    and "setProp kacc k v = kacc @ [(k, v)]"
  shows "parseMembers (Suc m) kacc (CHR '','' # quote k @ CHR '':'' # stringify v @ t) = parseMembers m (kacc @ [(k, v)]) t"
  using assms parseString_quote [of k "CHR '':'' # stringify v @ t"]
  by (simp add: isSpace_def quote_def)

lemma parse_stringify_all:
  "plain v \<Longrightarrow> length (stringify v) \<le> n \<Longrightarrow> numEnd r \<Longrightarrow> parseValue n (stringify v @ r) = Some (v, r)"
  "\<forall>v \<in> set vs. plain v \<Longrightarrow> length (stringifyElems vs) \<le> n \<Longrightarrow> 0 < n \<Longrightarrow>
     parseElems n acc (stringifyElems vs @ CHR '']'' # r) = Some (JArr (acc @ vs), r)"
  "\<forall>kv \<in> set kvs. plain (snd kv) \<Longrightarrow> plainKeys (map fst (kacc @ kvs)) \<Longrightarrow>
     length (stringifyMembers kvs) \<le> n \<Longrightarrow> 0 < n \<Longrightarrow>
     parseMembers n kacc (stringifyMembers kvs @ CHR ''}'' # r) = Some (JObj (kacc @ kvs), r)"
proof (induction v and vs and kvs arbitrary: n r and n r acc and n r kacc
    rule: stringify_stringifyElems_stringifyMembers.induct)
  case 1
  then show ?case by (cases n) (simp_all add: stripLit_def isSpace_def)
next
  case 2
  then show ?case by (cases n) (simp_all add: stripLit_def isSpace_def)
next
  case 3
  then show ?case by (cases n) (simp_all add: stripLit_def isSpace_def)
next
  case (4 i)
  then show ?case
    using stringify_nonempty [of "JNum i"] parse_num [OF 4(3), of "n - 1" i] by (cases n) auto
next
  case (5 s)
  then show ?case
    using parseString_quote [of s r] by (cases n) (simp_all add: quote_def isSpace_def isDigit_def)
next
  case 6
  then show ?case by (cases n) (simp_all add: isSpace_def isDigit_def)
next
  case (7 v vs)
  then obtain m where m: "n = Suc m" by (cases n) auto
  obtain c cs where c: "stringify v = c # cs" "\<not> isSpace c" "c \<noteq> CHR '']''"
    using stringify_not_space by blast
  have "parseValue m (stringify v @ stringifyElems vs @ CHR '']'' # r) = Some (v, stringifyElems vs @ CHR '']'' # r)"
    using 7 by (intro "7.IH"(1)) (auto simp: m intro: numEnd_elems)
  moreover have "parseElems m [v] (stringifyElems vs @ CHR '']'' # r) = Some (JArr ([v] @ vs), r)"
    using 7 stringify_nonempty [of v] by (intro "7.IH"(2)) (auto simp: m)
  ultimately show ?case using c by (simp add: m isSpace_def isDigit_def)
next
  case 8
  then show ?case by (cases n) (simp_all add: isSpace_def isDigit_def)
next
  case (9 k v kvs)
  then obtain m where m: "n = Suc (Suc m)" by (cases n; cases "n - 1") (auto simp: quote_def)
  have "setProp [] k v = [] @ [(k, v)]" using 9 by (intro setProp_new) (auto simp: plainKeys_def)
  moreover have "parseValue m (stringify v @ stringifyMembers kvs @ CHR ''}'' # r) = Some (v, stringifyMembers kvs @ CHR ''}'' # r)"
    using 9 by (intro "9.IH"(1)) (auto simp: m quote_def intro: numEnd_members)
  moreover have "parseMembers m ([] @ [(k, v)]) (stringifyMembers kvs @ CHR ''}'' # r) = Some (JObj (([] @ [(k, v)]) @ kvs), r)"
    using 9 by (intro "9.IH"(2)) (auto simp: m quote_def plainKeys_def)
  ultimately have "parseMembers (Suc m) [] (CHR '','' # quote k @ CHR '':'' # stringify v @ stringifyMembers kvs @ CHR ''}'' # r)
      = Some (JObj ((k, v) # kvs), r)" by (simp only: parseMembers_step) simp
  then show ?case by (simp add: m isSpace_def isDigit_def quote_def)
next
  case 10
  then show ?case by (cases n) (simp_all add: isSpace_def)
next
  case (11 v vs)
  then obtain m where m: "n = Suc m" by (cases n) auto
  have "parseValue m (stringify v @ stringifyElems vs @ CHR '']'' # r) = Some (v, stringifyElems vs @ CHR '']'' # r)"
    using 11 by (intro "11.IH"(1)) (auto simp: m intro: numEnd_elems)
  moreover have "parseElems m (acc @ [v]) (stringifyElems vs @ CHR '']'' # r) = Some (JArr ((acc @ [v]) @ vs), r)"
    using 11 stringify_nonempty [of v]
    by (intro "11.IH"(2)) (auto simp: m simp del: length_greater_0_conv)
  ultimately show ?case by (simp add: m isSpace_def)
next
  case 12
  then show ?case by (cases n) (simp_all add: isSpace_def)
next
  case (13 k v kvs)
  then obtain m where m: "n = Suc m" by (cases n) auto
  have "setProp kacc k v = kacc @ [(k, v)]"
    using 13 by (intro setProp_new) (auto simp: plainKeys_def)
  moreover have "parseValue m (stringify v @ stringifyMembers kvs @ CHR ''}'' # r) = Some (v, stringifyMembers kvs @ CHR ''}'' # r)"
    using 13 by (intro "13.IH"(1)) (auto simp: m intro: numEnd_members)
  moreover have "parseMembers m (kacc @ [(k, v)]) (stringifyMembers kvs @ CHR ''}'' # r) = Some (JObj ((kacc @ [(k, v)]) @ kvs), r)"
    using 13 stringify_nonempty [of v] by (intro "13.IH"(2)) (auto simp: m)
  ultimately have "parseMembers (Suc m) kacc (CHR '','' # quote k @ CHR '':'' # stringify v @ stringifyMembers kvs @ CHR ''}'' # r)
      = Some (JObj (kacc @ (k, v) # kvs), r)" by (simp only: parseMembers_step) simp
  then show ?case by (simp add: m)
qed

lemma parse_stringify [js_simps]: "plain v \<Longrightarrow> parse (stringify v) = Some v"
  using parse_stringify_all(1) [of v "2 * length (stringify v) + 2" "[]"]
  by (simp add: parse_def numEnd_def)

lemma stringify_inject: "plain v \<Longrightarrow> plain w \<Longrightarrow> stringify v = stringify w \<longleftrightarrow> v = w"
  by (metis option.inject parse_stringify)

subsection \<open>Conversions\<close>

text \<open>
  \<open>Number(text)\<close> on decimal integers, with \<open>None\<close> for \<open>NaN\<close>; fractions, exponents and radix
  prefixes, which the hub never writes, count as \<open>NaN\<close>.
\<close>

definition digits :: "string \<Rightarrow> int option" where
  "digits s = (if s \<noteq> [] \<and> list_all isDigit s then Some (int (undecimal s)) else None)"

definition numberText :: "string \<Rightarrow> int option" where
  "numberText s = (case trim s of
     [] \<Rightarrow> Some 0
   | c # cs \<Rightarrow> if c = CHR ''-'' then map_option uminus (digits cs)
       else if c = CHR ''+'' then digits cs else digits (c # cs))"

text \<open>\<open>String(v)\<close> and \<open>Number(v)\<close>; an array converts through its elements joined by commas.\<close>

fun toText :: "json \<Rightarrow> string" where
  "toText JNull = ''null''"
| "toText (JBool b) = (if b then ''true'' else ''false'')"
| "toText (JNum i) = numText i"
| "toText (JStr s) = s"
| "toText (JArr vs) = join '','' (map (\<lambda>v. if v = JNull then [] else toText v) vs)"
| "toText (JObj _) = ''[object Object]''"

fun toNumber :: "json \<Rightarrow> int option" where
  "toNumber JNull = Some 0"
| "toNumber (JBool b) = Some (if b then 1 else 0)"
| "toNumber (JNum i) = Some i"
| "toNumber (JStr s) = numberText s"
| "toNumber v = numberText (toText v)"

text \<open>A value that \<open>||\<close> passes over.\<close>

fun falsy :: "json option \<Rightarrow> bool" where
  "falsy None = True"
| "falsy (Some v) = (v \<in> {JNull, JBool False, JNum 0, JStr []})"

definition orElse :: "json option \<Rightarrow> json \<Rightarrow> json" where
  "orElse v d = (if falsy v then d else the v)"

lemma numberText_decimal [simp]: "numberText (decimal n) = Some (int n)"
proof -
  obtain c cs where d: "decimal n = c # cs" by (cases "decimal n") auto
  have dig: "\<forall>c \<in> set (decimal n). isDigit c" using decimal_digits by blast
  have "\<forall>c \<in> set (decimal n). \<not> isTrimmed c" using dig by (auto simp: isDigit_def isTrimmed_def)
  then have t: "trim (decimal n) = decimal n" by (rule trim_none)
  have "c \<noteq> CHR ''-''" "c \<noteq> CHR ''+''" using dig by (auto simp: d isDigit_def)
  with dig show ?thesis by (simp add: numberText_def t) (simp add: d digits_def list_all_iff undecimal_decimal [of n, unfolded d])
qed

end
