(* ===== verification/Doc.thy ===== *)
theory Doc
  imports Json Uri
begin

text \<open>
  The document of a model that the edge and the page read: its revision, the index and the
  address of its records when it has them, its files (path, size,
  address, whether it is a weight file, its URL at Hugging Face) and the sources that hold them.
\<close>

record source =
  src_kind :: string
  src_resolve :: "string option"
  src_missing :: "string list"
  src_p2p :: bool
  src_pull :: bool
  src_byDigest :: bool

record row =
  f_path :: string
  f_size :: nat
  f_address :: string
  f_weights :: bool
  f_url :: string

record doc =
  doc_id :: string
  doc_revision :: string
  doc_manifest :: string
  doc_records :: "(string \<times> string) option"
  doc_sources :: "source list"
  doc_files :: "row list"

text \<open>\<open>address.split(":")[1]\<close>.\<close>

definition digestOf :: "string \<Rightarrow> string" where
  "digestOf address = (case splitAt (CHR '':'') address of _ # h # _ \<Rightarrow> h | _ \<Rightarrow> ''undefined'')"

text \<open>\<open>list.indexOf(x)\<close>.\<close>

fun indexOf :: "'a list \<Rightarrow> 'a \<Rightarrow> int" where
  "indexOf [] x = -1"
| "indexOf (y # ys) x = (if y = x then 0 else (let i = indexOf ys x in if i < 0 then -1 else i + 1))"

text \<open>\<open>source.resolve + tail\<close>; a source without one spells \<open>null\<close>.\<close>

definition resolveWith :: "source \<Rightarrow> string \<Rightarrow> string" where
  "resolveWith s tail = (case src_resolve s of Some r \<Rightarrow> r | None \<Rightarrow> ''null'') @ tail"

text \<open>\<open>/^[0-9a-f]{64}$/\<close>.\<close>

definition isHexChar :: "char \<Rightarrow> bool" where
  "isHexChar c \<longleftrightarrow> isDigit c \<or> (97 \<le> (of_char c :: nat) \<and> of_char c \<le> (102 :: nat))"

definition isHex64 :: "string \<Rightarrow> bool" where
  "isHex64 s \<longleftrightarrow> length s = 64 \<and> list_all isHexChar s"

lemma indexOf_bounds: "-1 \<le> indexOf xs x \<and> indexOf xs x < int (length xs)"
  by (induction xs) (auto simp: Let_def)

lemma indexOf_mem: "0 \<le> indexOf xs x \<longleftrightarrow> x \<in> set xs"
  by (induction xs) (auto simp: Let_def)

lemma indexOf_nth: "x \<in> set xs \<Longrightarrow> xs ! nat (indexOf xs x) = x"
proof (induction xs)
  case (Cons y ys)
  then show ?case using indexOf_mem [of ys x] by (auto simp: Let_def nat_add_distrib)
qed simp

lemma digestOf_address: "CHR '':'' \<notin> set a \<Longrightarrow> CHR '':'' \<notin> set h \<Longrightarrow> digestOf (a @ CHR '':'' # h) = h"
  by (simp add: digestOf_def splitAt_app splitAt_none)

lemma isHexChar_hex: "c \<in> set (hex bs) \<Longrightarrow> isHexChar c"
proof -
  have d: "isHexChar (hexdigit n)" if "n < 16" for n using that by (auto simp: isHexChar_def isDigit_def hexdigit_def)
  assume "c \<in> set (hex bs)"
  then obtain b where "c \<in> set (hex2 b)" unfolding hex_def by auto
  then have c: "c = hexdigit (unat b div 16) \<or> c = hexdigit (unat b mod 16)" by (simp add: hex2_def)
  have "unat b div 16 < 16" using unat_byte_less [of b] by linarith
  from d [OF this] d [of "unat b mod 16"] c show ?thesis by auto
qed

lemma isHex64_hex: "length bs = 32 \<Longrightarrow> isHex64 (hex bs)"
  by (simp add: isHex64_def length_hex list_all_iff isHexChar_hex)

end
