(* ===== verification/Records.thy ===== *)
theory Records
  imports Assemble Doc
begin

text \<open>
  The records of every object a model reaches, \<open>deploy/kappa-records.mjs\<close>: one walk from the model's index.
  What \<open>models.json\<close> says of a model is a record. Held objects are JSON values, read by decoders of the
  shapes the pipeline writes; on another shape the walk is \<open>Unmodelled\<close>. The map of records keeps the order
  of insertion, and \<open>put\<close> and \<open>hold\<close> change one record in place.
\<close>

subsection \<open>What is read\<close>

record blob =
  bl_path :: "string option"
  bl_size :: nat
  bl_layout :: "string option"
  bl_held :: bool
  bl_upstream :: bool

record kmodel =
  md_rev :: string
  md_license :: string
  md_index :: string
  md_manifests :: "(string \<times> string) list"
  md_table :: string
  md_blobs :: "(string \<times> blob) list"
  md_gated :: bool
  md_canonical :: "string option"
  md_provenance :: "string option"
  md_tensors :: nat
  md_weightBytes :: nat

record layer =
  ly_digest :: string
  ly_size :: "nat option"
  ly_title :: "string option"
  ly_layout :: "string option"

record manifest =
  mf_media :: "string option"
  mf_config :: string
  mf_configMedia :: "string option"
  mf_configSize :: "nat option"
  mf_layers :: "layer list"

definition textProp :: "string \<Rightarrow> json \<Rightarrow> string option" where
  "textProp k v = (case getProp k v of Some (JStr t) \<Rightarrow> Some t | _ \<Rightarrow> None)"

definition natOf :: "json \<Rightarrow> nat option" where
  "natOf v = (case v of JNum n \<Rightarrow> if n < 0 then None else Some (nat n) | _ \<Rightarrow> None)"

definition natProp :: "string \<Rightarrow> json \<Rightarrow> nat option" where
  "natProp k v = (case getProp k v of Some x \<Rightarrow> natOf x | None \<Rightarrow> None)"

definition arrayProp :: "string \<Rightarrow> json \<Rightarrow> json list option" where
  "arrayProp k v = (case getProp k v of Some (JArr xs) \<Rightarrow> Some xs | _ \<Rightarrow> None)"

definition readLayer :: "json \<Rightarrow> layer option" where
  "readLayer v = (case textProp ''digest'' v of None \<Rightarrow> None | Some d \<Rightarrow>
     (let notes' = (case getProp ''annotations'' v of Some a \<Rightarrow> a | None \<Rightarrow> JObj []) in
      Some \<lparr>ly_digest = d, ly_size = natProp ''size'' v, ly_title = textProp ''org.opencontainers.image.title'' notes',
        ly_layout = textProp ''org.hologram.layout'' notes'\<rparr>))"

definition readManifest :: "json \<Rightarrow> manifest option" where
  "readManifest v = (case (getProp ''config'' v, arrayProp ''layers'' v) of
     (Some c, Some ls) \<Rightarrow> (case (textProp ''digest'' c, allSome (map readLayer ls)) of
         (Some d, Some layers) \<Rightarrow> Some \<lparr>mf_media = textProp ''mediaType'' v, mf_config = d, mf_configMedia = textProp ''mediaType'' c,
            mf_configSize = natProp ''size'' c, mf_layers = layers\<rparr>
       | _ \<Rightarrow> None)
   | _ \<Rightarrow> None)"

definition readView :: "json \<Rightarrow> view option" where
  "readView v = (case natProp ''o'' v of None \<Rightarrow> None | Some off \<Rightarrow> (case arrayProp ''stride'' v of
     None \<Rightarrow> Some \<lparr>vw_o = off, vw_stride = None, vw_itemsize = 0\<rparr>
   | Some xs \<Rightarrow> (case (allSome (map natOf xs), natProp ''itemsize'' v) of
       (Some st, Some z) \<Rightarrow> Some \<lparr>vw_o = off, vw_stride = Some st, vw_itemsize = z\<rparr> | _ \<Rightarrow> None)))"

definition readSpot :: "json \<Rightarrow> spot option" where
  "readSpot v = (case v of JNum _ \<Rightarrow> map_option Here (natOf v)
   | JObj _ \<Rightarrow> (case (textProp ''f'' v, natProp ''o'' v) of
       (Some f, Some off) \<Rightarrow> (case (natProp ''n'' v, textProp ''s'' v, getProp ''sub'' v, arrayProp ''shape'' v) of
           (Some n, Some s, Some sub, Some shape) \<Rightarrow> (case (readView sub, allSome (map natOf shape)) of
               (Some w, Some sh) \<Rightarrow> Some (Inside f off n s w sh) | _ \<Rightarrow> None)
         | _ \<Rightarrow> Some (At f off))
     | _ \<Rightarrow> None)
   | _ \<Rightarrow> None)"

definition readSegment :: "json \<Rightarrow> segment option" where
  "readSegment v = (case v of
     JArr [JStr k, JStr kappa, n] \<Rightarrow> map_option (\<lambda>l. \<lparr>sg_kind = k, sg_kappa = kappa, sg_len = l, sg_where = Nowhere\<rparr>) (natOf n)
   | JArr [JStr k, JStr kappa, n, at] \<Rightarrow> (case (natOf n, readSpot at) of
       (Some l, Some p) \<Rightarrow> Some \<lparr>sg_kind = k, sg_kappa = kappa, sg_len = l, sg_where = p\<rparr> | _ \<Rightarrow> None)
   | _ \<Rightarrow> None)"

definition readLayout :: "json \<Rightarrow> layout option" where
  "readLayout v = (case (textProp ''file'' v, natProp ''size'' v, arrayProp ''segments'' v) of
     (Some f, Some n, Some xs) \<Rightarrow> map_option (\<lambda>sgs. \<lparr>lo_file = f, lo_size = n, lo_segments = sgs\<rparr>) (allSome (map readSegment xs))
   | _ \<Rightarrow> None)"

text \<open>\<open>Object.entries(P?.of || {})\<close>: each payload and the number of its pieces.\<close>

definition readPieces :: "json option \<Rightarrow> (string \<times> string list) list" where
  "readPieces p = (case p of Some v \<Rightarrow> (case getProp ''of'' v of
       Some (JObj kvs) \<Rightarrow> map (\<lambda>(k, xs). (k, case xs of JArr hs \<Rightarrow> map toText hs | _ \<Rightarrow> [])) kvs | _ \<Rightarrow> [])
     | None \<Rightarrow> [])"

subsection \<open>Records\<close>

datatype keeper =
    Hub string
  | Hf string nat
  | Url string
  | Ipfs string
  | IpfsPieces
  | Layout string

record krec =
  rc_kappa :: string
  rc_type :: string
  rc_size :: "nat option"
  rc_media :: "string option"
  rc_path :: "string option"
  rc_names :: "(string \<times> string option) list"
  rc_refs :: "string list"
  rc_holders :: "keeper list"
  rc_pieces :: "(string \<times> nat) option"

type_synonym recs = "(string \<times> krec) list"

fun onRec :: "(krec \<Rightarrow> krec) \<Rightarrow> string \<Rightarrow> recs \<Rightarrow> recs" where
  "onRec f k [] = []"
| "onRec f k ((k', r) # rs) = (if k' = k then (k', f r) # rs else (k', r) # onRec f k rs)"

definition addOnce :: "'a \<Rightarrow> 'a list \<Rightarrow> 'a list" where
  "addOnce x xs = (if x \<in> set xs then xs else xs @ [x])"

definition assign :: "string \<Rightarrow> nat option \<Rightarrow> string option \<Rightarrow> krec \<Rightarrow> krec" where
  "assign ty sz media r = r\<lparr>rc_type := ty, rc_size := (if sz = None then rc_size r else sz), rc_media := (if media = None then rc_media r else media)\<rparr>"

definition put :: "string \<Rightarrow> string \<Rightarrow> nat option \<Rightarrow> string option \<Rightarrow> string option \<Rightarrow> recs \<Rightarrow> recs" where
  "put kappa ty sz media ref recs = (let recs1 = (case map_of recs kappa of
       None \<Rightarrow> recs @ [(kappa, \<lparr>rc_kappa = kappa, rc_type = ty, rc_size = sz, rc_media = media, rc_path = None, rc_names = [], rc_refs = [],
          rc_holders = [], rc_pieces = None\<rparr>)]
     | Some _ \<Rightarrow> onRec (assign ty sz media) kappa recs)
     in (case ref of None \<Rightarrow> recs1 | Some p \<Rightarrow> onRec (\<lambda>r. r\<lparr>rc_refs := addOnce p (rc_refs r)\<rparr>) kappa recs1))"

definition hold :: "string \<Rightarrow> keeper \<Rightarrow> recs \<Rightarrow> recs" where
  "hold kappa h recs = onRec (\<lambda>r. r\<lparr>rc_holders := addOnce h (rc_holders r)\<rparr>) kappa recs"

definition small :: "string \<Rightarrow> recs \<Rightarrow> recs" where
  "small kappa recs = (case map_of recs kappa of
     Some r \<Rightarrow> (case rc_size r of Some n \<Rightarrow> if n \<le> PIECE then hold kappa (Ipfs (cidOf (drop 7 kappa))) recs else recs | None \<Rightarrow> recs)
   | None \<Rightarrow> recs)"

subsection \<open>The walk\<close>

definition HF :: string where "HF = ''https://huggingface.co''"

definition hub :: "string \<Rightarrow> string \<Rightarrow> keeper" where
  "hub repo k = Hub (''/v2/models/'' @ lower repo @ ''/blobs/'' @ k)"

definition hfAt :: "string \<Rightarrow> string \<Rightarrow> string \<Rightarrow> nat \<Rightarrow> keeper" where
  "hfAt repo rv path at = Hf (HF @ ''/'' @ repo @ ''/resolve/'' @ rv @ ''/'' @ encodePath path) at"

definition keeperOf :: "place \<Rightarrow> keeper" where
  "keeperOf p = (case p of AtUrl u _ \<Rightarrow> Url u | InFile repo rv path off \<Rightarrow> hfAt repo rv path off)"

text \<open>What the walk is given: the model, the held objects, and the places of a payload.\<close>

record walk =
  wk_repo :: string
  wk_model :: kmodel
  wk_json :: "string \<Rightarrow> json option"
  wk_alts :: "string \<Rightarrow> place list"

definition segmentRec :: "walk \<Rightarrow> string \<Rightarrow> string \<Rightarrow> segment \<Rightarrow> recs \<Rightarrow> recs" where
  "segmentRec wk lk file' sg recs = (let k = sg_kappa sg in
     if sg_kind sg = ''l'' then small k (hold k (hub (wk_repo wk) k) (put k ''literal'' (Some (sg_len sg)) None (Some lk) recs))
     else (let r1 = put k (if sg_kind sg = ''s'' then ''storage'' else ''tensor'') (Some (sg_len sg)) None (Some lk) recs;
               r2 = (case sg_where sg of Here a \<Rightarrow> hold k (hfAt (wk_repo wk) (md_rev (wk_model wk)) file' a) r1 | _ \<Rightarrow> r1)
           in small k (fold (\<lambda>a. hold k (keeperOf a)) (wk_alts wk k) r2)))"

definition layoutRec :: "walk \<Rightarrow> string \<Rightarrow> string \<Rightarrow> recs \<Rightarrow> recs result" where
  "layoutRec wk d lk recs = (let r1 = hold lk (hub (wk_repo wk) lk) (put lk ''layout'' None (Some ''application/vnd.hologram.layout.v1+json'') (Some d)
       (hold d (Layout lk) recs)) in
     case wk_json wk lk of None \<Rightarrow> Inr r1
     | Some v \<Rightarrow> (case readLayout v of None \<Rightarrow> Inl Unmodelled | Some lay \<Rightarrow> Inr (fold (segmentRec wk lk (lo_file lay)) (lo_segments lay) r1)))"

definition nameFile :: "string \<Rightarrow> string option \<Rightarrow> krec \<Rightarrow> krec" where
  "nameFile format path r = r\<lparr>rc_path := (if rc_path r = None \<or> rc_path r = Some [] then path else rc_path r), rc_names := addOnce (format, path) (rc_names r)\<rparr>"

text \<open>\<open>blob.path || path\<close>; without either \<open>enc\<close> throws.\<close>

definition upstreamRec :: "walk \<Rightarrow> string \<Rightarrow> string option \<Rightarrow> blob option \<Rightarrow> recs \<Rightarrow> recs result" where
  "upstreamRec wk d title b recs = (case b of None \<Rightarrow> Inr recs | Some x \<Rightarrow>
     if \<not> bl_upstream x then Inr recs
     else (case (if bl_path x = None \<or> bl_path x = Some [] then title else bl_path x) of
         Some p \<Rightarrow> Inr (hold d (hfAt (wk_repo wk) (md_rev (wk_model wk)) p 0) recs) | None \<Rightarrow> Inl TypeError))"

definition heldRec :: "walk \<Rightarrow> string \<Rightarrow> blob option \<Rightarrow> recs \<Rightarrow> recs" where
  "heldRec wk d b recs = (case b of Some x \<Rightarrow> if bl_held x then hold d (hub (wk_repo wk) d) recs else recs | None \<Rightarrow> recs)"

definition layerRec :: "walk \<Rightarrow> string \<Rightarrow> string \<Rightarrow> layer \<Rightarrow> recs \<Rightarrow> recs result" where
  "layerRec wk format md l recs = (let d = ly_digest l; b = map_of (md_blobs (wk_model wk)) d;
       r1 = onRec (nameFile format (ly_title l)) d (put d ''file'' (ly_size l) None (Some md) recs)
     in andThen (upstreamRec wk d (ly_title l) b (heldRec wk d b r1)) (\<lambda>r3. case ly_layout l of None \<Rightarrow> Inr (small d r3)
         | Some lk \<Rightarrow> if lk = [] then Inr (small d r3) else layoutRec wk d lk (small d r3)))"

fun foldOk :: "('a \<Rightarrow> 's \<Rightarrow> 's result) \<Rightarrow> 'a list \<Rightarrow> 's \<Rightarrow> 's result" where
  "foldOk f [] st = Inr st"
| "foldOk f (x # xs) st = andThen (f x st) (foldOk f xs)"

text \<open>The piece lists met so far go along: the pieces object of a table and what it lists.\<close>

type_synonym sets = "(string \<times> (string \<times> string list) list) list"

definition tableRec :: "walk \<Rightarrow> string \<Rightarrow> recs \<times> sets \<Rightarrow> recs \<times> sets" where
  "tableRec wk tk st = (case st of (recs, sets) \<Rightarrow>
     (case wk_json wk tk of None \<Rightarrow> (recs, sets)
      | Some v \<Rightarrow> (case textProp ''pieces'' v of None \<Rightarrow> (recs, sets)
          | Some pk \<Rightarrow> if pk = [] \<or> pk \<in> fst ` set sets then (recs, sets)
              else (hold pk (hub (wk_repo wk) pk) (put pk ''pieces'' None (Some ''application/vnd.hologram.pieces.v1+json'') (Some tk) recs),
                sets @ [(pk, readPieces (wk_json wk pk))]))))"

definition formatRec :: "walk \<Rightarrow> string \<times> string \<Rightarrow> recs \<times> sets \<Rightarrow> (recs \<times> sets) result" where
  "formatRec wk fmt st = (case (fmt, st) of ((format, md), (recs, sets)) \<Rightarrow>
     (let v = wk_json wk md; media = (case v of Some x \<Rightarrow> textProp ''mediaType'' x | None \<Rightarrow> None);
          r1 = hold md (hub (wk_repo wk) md) (put md ''oci-manifest'' None media (Some (md_index (wk_model wk))) recs) in
      case v of None \<Rightarrow> Inr (r1, sets)
      | Some x \<Rightarrow> (case readManifest x of None \<Rightarrow> Inl Unmodelled
          | Some man \<Rightarrow> (let tk = mf_config man;
                 r2 = small tk (hold tk (hub (wk_repo wk) tk) (put tk ''tensor-table'' (mf_configSize man) (mf_configMedia man) (Some md) r1));
                 (r3, sets') = tableRec wk tk (r2, sets)
              in andThen (foldOk (layerRec wk format md) (mf_layers man) r3) (\<lambda>r4. Inr (r4, sets'))))))"

definition pieceRec :: "string \<Rightarrow> string \<times> string list \<Rightarrow> recs \<Rightarrow> recs" where
  "pieceRec pk e recs = (case map_of recs (fst e) of None \<Rightarrow> recs
     | Some _ \<Rightarrow> hold (fst e) IpfsPieces (onRec (\<lambda>r. r\<lparr>rc_pieces := Some (pk, length (snd e))\<rparr>) (fst e) recs))"

definition formatsOf :: "kmodel \<Rightarrow> (string \<times> string) list" where
  "formatsOf m = sort_key (\<lambda>e. if fst e = ''original'' then 0 else (1 :: nat)) (md_manifests m)"

definition optionRec :: "walk \<Rightarrow> string option \<Rightarrow> string \<Rightarrow> string \<Rightarrow> recs \<Rightarrow> recs" where
  "optionRec wk k ty media recs = (case k of None \<Rightarrow> recs | Some d \<Rightarrow> if d = [] then recs
     else hold d (hub (wk_repo wk) d) (put d ty None (Some media) (Some (md_index (wk_model wk))) recs))"

definition recordsOf :: "walk \<Rightarrow> recs result" where
  "recordsOf wk = (let m = wk_model wk; i = md_index m;
       r0 = hold i (hub (wk_repo wk) i) (put i ''oci-index'' None (case wk_json wk i of Some v \<Rightarrow> textProp ''mediaType'' v | None \<Rightarrow> None) None [])
     in andThen (foldOk (formatRec wk) (formatsOf m) (r0, [])) (\<lambda>(r1, sets).
       let r2 = optionRec wk (md_canonical m) ''model'' ''text/plain; charset=utf-8'' r1;
           r3 = optionRec wk (md_provenance m) ''provenance'' ''application/vnd.hologram.provenance.v1+json'' r2
       in Inr (fold (\<lambda>(pk, es). fold (pieceRec pk) es) sets r3)))"

text \<open>\<open>digestsIn\<close>: every SHA-256 address in a text, each once, in the order they are met.\<close>

function addressesFrom :: "string \<Rightarrow> string list" where
  "addressesFrom t = (if t = [] then [] else if startsWith t ''sha256:'' \<and> isHex64 (take 64 (drop 7 t))
     then take 71 t # addressesFrom (drop 71 t) else addressesFrom (tl t))"
  by pat_completeness auto
termination
  by (relation "measure length") auto

declare addressesFrom.simps [simp del]

definition digestsIn :: "string \<Rightarrow> string list" where
  "digestsIn t = foldl (\<lambda>out d. addOnce d out) [] (addressesFrom t)"

subsection \<open>A record for exactly the objects reached\<close>

abbreviation keysOf :: "recs \<Rightarrow> string set" where
  "keysOf recs \<equiv> fst ` set recs"

definition recOk :: "string \<Rightarrow> string set \<Rightarrow> string \<times> krec \<Rightarrow> bool" where
  "recOk i K e \<longleftrightarrow> rc_kappa (snd e) = fst e \<and> distinct (rc_refs (snd e)) \<and> set (rc_refs (snd e)) \<subseteq> K
     \<and> (fst e \<noteq> i \<longrightarrow> rc_refs (snd e) \<noteq> []) \<and> distinct (rc_holders (snd e))"

definition recsOk :: "string \<Rightarrow> recs \<Rightarrow> bool" where
  "recsOk i recs \<longleftrightarrow> distinct (map fst recs) \<and> (\<forall>e \<in> set recs. recOk i (keysOf recs) e)"

text \<open>A step of the walk from records in order: they stay in order, and the objects met are \<open>S\<close>.\<close>

definition grows :: "string \<Rightarrow> recs \<Rightarrow> recs \<Rightarrow> string set \<Rightarrow> bool" where
  "grows i recs recs' S \<longleftrightarrow> recsOk i recs' \<and> keysOf recs' = keysOf recs \<union> S"

lemma onRec_keys [simp]: "map fst (onRec f k recs) = map fst recs"
  by (induction f k recs rule: onRec.induct) auto

lemma onRec_keysOf [simp]: "keysOf (onRec f k recs) = keysOf recs"
  using onRec_keys [of f k recs] by (metis set_map)

lemma onRec_set: "e \<in> set (onRec f k recs) \<Longrightarrow> e \<in> set recs \<or> (fst e = k \<and> (\<exists>r. (k, r) \<in> set recs \<and> e = (k, f r)))"
  by (induction f k recs rule: onRec.induct) (auto split: if_splits)

lemma onRec_ok:
  assumes "recsOk i recs" and "\<And>r. recOk i (keysOf recs) (k, r) \<Longrightarrow> recOk i (keysOf recs) (k, f r)"
  shows "recsOk i (onRec f k recs)"
  unfolding recsOk_def
proof (intro conjI ballI)
  show "distinct (map fst (onRec f k recs))" using assms(1) by (simp add: recsOk_def)
next
  fix e assume "e \<in> set (onRec f k recs)"
  from onRec_set [OF this] show "recOk i (keysOf (onRec f k recs)) e"
  proof (elim disjE conjE exE)
    fix r assume "(k, r) \<in> set recs" and e: "e = (k, f r)"
    then have "recOk i (keysOf recs) (k, r)" using assms(1) unfolding recsOk_def by blast
    then show ?thesis unfolding onRec_keysOf e by (rule assms(2))
  qed (use assms(1) in \<open>simp add: recsOk_def\<close>)
qed

lemma addOnce_simps [simp]: "distinct (addOnce x xs) = distinct xs" "set (addOnce x xs) = insert x (set xs)" "addOnce x xs \<noteq> []"
  by (auto simp: addOnce_def)

lemma hold_grows: "recsOk i recs \<Longrightarrow> grows i recs (hold k h recs) {}"
  unfolding grows_def hold_def by (intro conjI onRec_ok) (auto simp: recOk_def)

lemma small_grows: "recsOk i recs \<Longrightarrow> grows i recs (small k recs) {}"
  using hold_grows by (auto simp: small_def grows_def split: option.splits)

lemma nameFile_grows: "recsOk i recs \<Longrightarrow> grows i recs (onRec (nameFile format p) k recs) {}"
  unfolding grows_def by (intro conjI onRec_ok) (auto simp: recOk_def nameFile_def)

lemma put_grows:
  assumes "recsOk i recs" and "ref = None \<Longrightarrow> k = i" and "\<And>p. ref = Some p \<Longrightarrow> p \<in> keysOf recs"
  shows "grows i recs (put k ty sz media ref recs) {k}"
proof -
  define new where "new = (k, \<lparr>rc_kappa = k, rc_type = ty, rc_size = sz, rc_media = media, rc_path = None, rc_names = [], rc_refs = [], rc_holders = [], rc_pieces = None\<rparr>)"
  define recs1 where "recs1 = (case map_of recs k of None \<Rightarrow> recs @ [new] | Some _ \<Rightarrow> onRec (assign ty sz media) k recs)"
  have old: "recOk i (insert k (keysOf recs)) e" if "e \<in> set recs" for e using assms(1) that unfolding recsOk_def recOk_def by blast
  have k1: "keysOf recs1 = insert k (keysOf recs)"
    by (auto simp: recs1_def new_def split: option.splits) (metis domI dom_map_of_conv_image_fst)
  have d1: "distinct (map fst recs1)"
    using assms(1) by (auto simp: recs1_def new_def recsOk_def map_of_eq_None_iff split: option.splits)
  have e1: "recOk i (insert k (keysOf recs)) e" if e: "e \<in> set recs1" "fst e \<noteq> k" for e
  proof (cases "map_of recs k")
    case None
    then have "e \<in> set recs" using e by (auto simp: recs1_def new_def)
    then show ?thesis by (rule old)
  next
    case (Some r)
    then show ?thesis using e onRec_set [of e "assign ty sz media" k recs] old by (auto simp: recs1_def)
  qed
  have w1: "rc_kappa r = k \<and> distinct (rc_refs r) \<and> set (rc_refs r) \<subseteq> insert k (keysOf recs) \<and> distinct (rc_holders r)" if kr: "(k, r) \<in> set recs1" for r
  proof (cases "map_of recs k")
    case None
    then have "k \<notin> keysOf recs" by (simp add: map_of_eq_None_iff)
    then have "(k, r) = new" using kr None by (force simp: recs1_def)
    then show ?thesis by (simp add: new_def)
  next
    case (Some r')
    then have "(k, r) \<in> set (onRec (assign ty sz media) k recs)" using kr by (simp add: recs1_def)
    then have "(k, r) \<in> set recs \<or> (\<exists>r'. (k, r') \<in> set recs \<and> r = assign ty sz media r')" using onRec_set by fastforce
    then show ?thesis
    proof (elim disjE exE conjE)
      assume "(k, r) \<in> set recs"
      from old [OF this] show ?thesis by (simp add: recOk_def)
    next
      fix r' assume "(k, r') \<in> set recs" and r: "r = assign ty sz media r'"
      from old [OF this(1)] show ?thesis by (simp add: recOk_def assign_def r)
    qed
  qed
  have eq: "put k ty sz media ref recs = (case ref of None \<Rightarrow> recs1 | Some p \<Rightarrow> onRec (\<lambda>r. r\<lparr>rc_refs := addOnce p (rc_refs r)\<rparr>) k recs1)"
    unfolding put_def Let_def recs1_def new_def by (rule refl)
  show ?thesis
  proof (cases ref)
    case None
    have "recsOk i recs1" unfolding recsOk_def
    proof (intro conjI ballI)
      fix e assume "e \<in> set recs1"
      then show "recOk i (keysOf recs1) e" using e1 [of e] w1 [of "snd e"] assms(2) [OF None] k1 by (cases "fst e = k"; cases e) (auto simp: recOk_def)
    qed (rule d1)
    then show ?thesis unfolding eq using k1 None by (simp add: grows_def)
  next
    case (Some p)
    let ?f = "\<lambda>r :: krec. r\<lparr>rc_refs := addOnce p (rc_refs r)\<rparr>"
    have p: "p \<in> keysOf recs" using assms(3) [OF Some] .
    have only: "(k, r') = e" if "(k, r') \<in> set recs1" "e \<in> set recs1" "fst e = k" for r' e
      using d1 that by (metis eq_key_imp_eq_value prod.collapse)
    have "recOk i (keysOf recs1) e" if e: "e \<in> set (onRec ?f k recs1)" for e
    proof (cases "fst e = k")
      case True
      then have "e \<in> set (onRec ?f k recs1) \<Longrightarrow> \<exists>r. (k, r) \<in> set recs1 \<and> e = (k, ?f r)"
        using d1
      proof (induction ?f k recs1 rule: onRec.induct)
        case (2 k k' r rs)
        then show ?case by (cases "k' = k") (auto dest: onRec_set)
      qed simp
      then obtain r where "(k, r) \<in> set recs1" "e = (k, ?f r)" using e by blast
      then show ?thesis using w1 [of r] p k1 by (auto simp: recOk_def)
    next
      case False
      then have "e \<in> set recs1" using onRec_set [OF e] by auto
      then show ?thesis using e1 False k1 by simp
    qed
    then have "recsOk i (onRec ?f k recs1)" using d1 by (simp add: recsOk_def)
    then show ?thesis unfolding eq using k1 Some by (simp add: grows_def)
  qed
qed

lemma grows_trans: "grows i a b S \<Longrightarrow> (recsOk i b \<Longrightarrow> grows i b c T) \<Longrightarrow> grows i a c (S \<union> T)"
  by (auto simp: grows_def)

lemma growsD: "grows i a b S \<Longrightarrow> recsOk i b" "grows i a b S \<Longrightarrow> keysOf b = keysOf a \<union> S"
  by (simp_all add: grows_def)

lemma grows_refl: "recsOk i recs \<Longrightarrow> grows i recs recs {}"
  by (simp add: grows_def)

lemma fold_grows:
  assumes "\<And>x r. x \<in> set xs \<Longrightarrow> recsOk i r \<Longrightarrow> keysOf recs \<subseteq> keysOf r \<Longrightarrow> grows i r (f x r) (g x)" and "recsOk i recs"
  shows "grows i recs (fold f xs recs) (\<Union>x \<in> set xs. g x)"
  using assms
proof (induction xs arbitrary: recs)
  case (Cons x xs)
  have s: "grows i recs (f x recs) (g x)" using Cons.prems by simp
  have "grows i (f x recs) (fold f xs (f x recs)) (\<Union>x \<in> set xs. g x)"
    by (rule Cons.IH) (use Cons.prems growsD [OF s] in auto)
  with s show ?case by (auto simp: grows_def)
qed (simp add: grows_refl)

definition layoutReach :: "walk \<Rightarrow> string \<Rightarrow> string set" where
  "layoutReach wk lk = insert lk (case wk_json wk lk of None \<Rightarrow> {}
     | Some v \<Rightarrow> (case readLayout v of None \<Rightarrow> {} | Some lay \<Rightarrow> sg_kappa ` set (lo_segments lay)))"

definition layerReach :: "walk \<Rightarrow> layer \<Rightarrow> string set" where
  "layerReach wk l = insert (ly_digest l) (case ly_layout l of None \<Rightarrow> {} | Some lk \<Rightarrow> if lk = [] then {} else layoutReach wk lk)"

definition tableReach :: "walk \<Rightarrow> string \<Rightarrow> string set" where
  "tableReach wk tk = (case wk_json wk tk of None \<Rightarrow> {}
     | Some v \<Rightarrow> (case textProp ''pieces'' v of None \<Rightarrow> {} | Some pk \<Rightarrow> if pk = [] then {} else {pk}))"

definition formatReach :: "walk \<Rightarrow> string \<times> string \<Rightarrow> string set" where
  "formatReach wk fmt = insert (snd fmt) (case wk_json wk (snd fmt) of None \<Rightarrow> {}
     | Some x \<Rightarrow> (case readManifest x of None \<Rightarrow> {}
         | Some man \<Rightarrow> {mf_config man} \<union> tableReach wk (mf_config man) \<union> (\<Union>l \<in> set (mf_layers man). layerReach wk l)))"

definition optionReach :: "string option \<Rightarrow> string set" where
  "optionReach k = (case k of None \<Rightarrow> {} | Some d \<Rightarrow> if d = [] then {} else {d})"

definition reach :: "walk \<Rightarrow> string set" where
  "reach wk = insert (md_index (wk_model wk)) ((\<Union>fmt \<in> set (md_manifests (wk_model wk)). formatReach wk fmt)
     \<union> optionReach (md_canonical (wk_model wk)) \<union> optionReach (md_provenance (wk_model wk)))"

lemma putRef_grows: "recsOk i recs \<Longrightarrow> p \<in> keysOf recs \<Longrightarrow> grows i recs (put k ty sz media (Some p) recs) {k}"
  by (rule put_grows) auto

lemma put_hold_grows: "recsOk i recs \<Longrightarrow> p \<in> keysOf recs \<Longrightarrow> grows i recs (hold k h (put k ty sz media (Some p) recs)) {k}"
  using grows_trans [OF putRef_grows hold_grows, of i recs p k ty sz media k h] by simp

lemma segment_grows:
  assumes "recsOk i recs" and "lk \<in> keysOf recs"
  shows "grows i recs (segmentRec wk lk file' sg recs) {sg_kappa sg}"
proof (cases "sg_kind sg = ''l''")
  case True
  show ?thesis using grows_trans [OF put_hold_grows [OF assms] small_grows, of "sg_kappa sg" _ "''literal''" "Some (sg_len sg)" None "sg_kappa sg"] True
    by (simp add: segmentRec_def Let_def)
next
  case False
  let ?k = "sg_kappa sg"
  define r1 where "r1 = put ?k (if sg_kind sg = ''s'' then ''storage'' else ''tensor'') (Some (sg_len sg)) None (Some lk) recs"
  define r2 where "r2 = (case sg_where sg of Here a \<Rightarrow> hold ?k (hfAt (wk_repo wk) (md_rev (wk_model wk)) file' a) r1 | _ \<Rightarrow> r1)"
  define r3 where "r3 = fold (\<lambda>a. hold ?k (keeperOf a)) (wk_alts wk ?k) r2"
  have 1: "grows i recs r1 {?k}" unfolding r1_def by (rule putRef_grows [OF assms])
  have 2: "grows i r1 r2 {}" unfolding r2_def using growsD(1) [OF 1] by (auto intro: hold_grows grows_refl split: spot.splits)
  have "grows i r2 r3 (\<Union>a \<in> set (wk_alts wk ?k). {})" unfolding r3_def by (rule fold_grows) (rule hold_grows | rule growsD(1) [OF 2] | assumption)+
  then have 3: "grows i r2 r3 {}" by simp
  have 4: "grows i r3 (small ?k r3) {}" by (rule small_grows [OF growsD(1) [OF 3]])
  have "segmentRec wk lk file' sg recs = small ?k r3" unfolding segmentRec_def Let_def r3_def r2_def r1_def if_not_P [OF False] by (rule refl)
  then show ?thesis using 1 2 3 4 by (auto simp: grows_def)
qed

lemma layout_grows:
  assumes "recsOk i recs" and "d \<in> keysOf recs" and "layoutRec wk d lk recs = Inr recs'"
  shows "grows i recs recs' (layoutReach wk lk)"
proof -
  define r1 where "r1 = hold lk (hub (wk_repo wk) lk) (put lk ''layout'' None (Some ''application/vnd.hologram.layout.v1+json'') (Some d) (hold d (Layout lk) recs))"
  have h: "grows i recs (hold d (Layout lk) recs) {}" by (rule hold_grows [OF assms(1)])
  have "grows i (hold d (Layout lk) recs) r1 {lk}" unfolding r1_def
    by (rule put_hold_grows) (use growsD [OF h] assms(2) in auto)
  then have 1: "grows i recs r1 {lk}" using h by (auto simp: grows_def)
  show ?thesis
  proof (cases "wk_json wk lk")
    case None
    then show ?thesis using assms(3) 1 by (simp add: layoutRec_def r1_def layoutReach_def Let_def)
  next
    case (Some v)
    then obtain lay where lay: "readLayout v = Some lay" "recs' = fold (segmentRec wk lk (lo_file lay)) (lo_segments lay) r1"
      using assms(3) by (auto simp: layoutRec_def Let_def r1_def split: option.splits)
    have "grows i r1 recs' (\<Union>sg \<in> set (lo_segments lay). {sg_kappa sg})" unfolding lay(2)
      by (rule fold_grows) (use growsD [OF 1] in \<open>auto intro!: segment_grows\<close>)
    then show ?thesis using 1 Some lay(1) by (auto simp: grows_def layoutReach_def)
  qed
qed

lemma layer_grows:
  assumes "recsOk i recs" and "md \<in> keysOf recs" and "layerRec wk format md l recs = Inr recs'"
  shows "grows i recs recs' (layerReach wk l)"
proof -
  define d where "d = ly_digest l"
  define b where "b = map_of (md_blobs (wk_model wk)) d"
  define r1 where "r1 = onRec (nameFile format (ly_title l)) d (put d ''file'' (ly_size l) None (Some md) recs)"
  define r2 where "r2 = heldRec wk d b r1"
  obtain r3 where r3: "upstreamRec wk d (ly_title l) b r2 = Inr r3" and eq: "(case ly_layout l of None \<Rightarrow> Inr (small d r3)
      | Some lk \<Rightarrow> if lk = [] then Inr (small d r3) else layoutRec wk d lk (small d r3)) = Inr recs'"
    using assms(3) unfolding layerRec_def Let_def andThen_Inr_iff d_def [symmetric] b_def [symmetric] r1_def [symmetric] r2_def [symmetric] by blast
  have 0: "grows i recs (put d ''file'' (ly_size l) None (Some md) recs) {d}" by (rule putRef_grows [OF assms(1,2)])
  have 1: "grows i recs r1 {d}" unfolding r1_def using 0 nameFile_grows [OF growsD(1) [OF 0], of format "ly_title l" d] by (auto simp: grows_def)
  have 2: "grows i r1 r2 {}" unfolding r2_def heldRec_def using growsD(1) [OF 1] by (auto intro: hold_grows grows_refl split: option.splits)
  have 3: "grows i r2 r3 {}" using r3 growsD(1) [OF 2] by (auto simp: upstreamRec_def intro: hold_grows grows_refl split: option.splits if_splits)
  have 4: "grows i r3 (small d r3) {}" by (rule small_grows [OF growsD(1) [OF 3]])
  have all: "grows i recs (small d r3) {d}" using 1 2 3 4 by (auto simp: grows_def)
  show ?thesis
  proof (cases "ly_layout l = None \<or> ly_layout l = Some []")
    case True
    then have "recs' = small d r3" using eq by auto
    then show ?thesis using all True by (auto simp: layerReach_def d_def)
  next
    case False
    then obtain lk where lk: "ly_layout l = Some lk" "lk \<noteq> []" by auto
    then have "layoutRec wk d lk (small d r3) = Inr recs'" using eq by simp
    from layout_grows [OF growsD(1) [OF all] _ this] growsD(2) [OF all] have "grows i (small d r3) recs' (layoutReach wk lk)" by simp
    then show ?thesis using all lk by (auto simp: layerReach_def d_def grows_def)
  qed
qed

lemma layers_grow:
  "recsOk i recs \<Longrightarrow> md \<in> keysOf recs \<Longrightarrow> foldOk (layerRec wk format md) ls recs = Inr recs' \<Longrightarrow> grows i recs recs' (\<Union>l \<in> set ls. layerReach wk l)"
proof (induction ls arbitrary: recs)
  case (Cons l ls)
  obtain r1 where r1: "layerRec wk format md l recs = Inr r1" "foldOk (layerRec wk format md) ls r1 = Inr recs'"
    using Cons.prems(3) by (auto simp: andThen_Inr_iff)
  note g = layer_grows [OF Cons.prems(1,2) r1(1)]
  have "grows i r1 recs' (\<Union>l \<in> set ls. layerReach wk l)" by (rule Cons.IH [OF growsD(1) [OF g] _ r1(2)]) (use growsD(2) [OF g] Cons.prems(2) in auto)
  with g show ?case by (auto simp: grows_def)
qed (simp add: grows_refl)

lemma table_grows:
  assumes "recsOk i recs" and "tk \<in> keysOf recs" and "fst ` set sets \<subseteq> keysOf recs" and "tableRec wk tk (recs, sets) = (recs', sets')"
  shows "grows i recs recs' (tableReach wk tk) \<and> fst ` set sets' \<subseteq> keysOf recs'"
proof (cases "\<exists>v pk. wk_json wk tk = Some v \<and> textProp ''pieces'' v = Some pk \<and> pk \<noteq> []")
  case False
  then show ?thesis using assms by (auto simp: tableRec_def tableReach_def grows_refl split: option.splits)
next
  case True
  then obtain v pk where p: "wk_json wk tk = Some v" "textProp ''pieces'' v = Some pk" "pk \<noteq> []" by blast
  show ?thesis
  proof (cases "pk \<in> fst ` set sets")
    case True
    then have "recs' = recs" "sets' = sets" using assms(4) p by (auto simp: tableRec_def)
    moreover have "tableReach wk tk \<subseteq> keysOf recs" using True p assms(3) by (auto simp: tableReach_def)
    ultimately show ?thesis using assms(1,3) by (auto simp: grows_def)
  next
    case False
    let ?h = "hold pk (hub (wk_repo wk) pk) (put pk ''pieces'' None (Some ''application/vnd.hologram.pieces.v1+json'') (Some tk) recs)"
    have "grows i recs ?h {pk}" by (rule put_hold_grows [OF assms(1,2)])
    moreover have "recs' = ?h" "sets' = sets @ [(pk, readPieces (wk_json wk pk))]" using assms(4) p False by (auto simp: tableRec_def)
    ultimately show ?thesis using assms(3) p by (auto simp: grows_def tableReach_def)
  qed
qed

lemma format_grows:
  assumes "recsOk i recs" and "md_index (wk_model wk) \<in> keysOf recs" and "fst ` set sets \<subseteq> keysOf recs" and "formatRec wk fmt (recs, sets) = Inr (recs', sets')"
  shows "grows i recs recs' (formatReach wk fmt) \<and> fst ` set sets' \<subseteq> keysOf recs'"
proof -
  obtain format md where f: "fmt = (format, md)" by (cases fmt)
  define media where "media = (case wk_json wk md of Some x \<Rightarrow> textProp ''mediaType'' x | None \<Rightarrow> None)"
  define r1 where "r1 = hold md (hub (wk_repo wk) md) (put md ''oci-manifest'' None media (Some (md_index (wk_model wk))) recs)"
  have 1: "grows i recs r1 {md}" unfolding r1_def by (rule put_hold_grows [OF assms(1,2)])
  show ?thesis
  proof (cases "wk_json wk md")
    case None
    then have "recs' = r1" "sets' = sets" using assms(4) by (simp_all add: formatRec_def f r1_def media_def Let_def)
    then show ?thesis using 1 assms(3) None by (auto simp: formatReach_def f grows_def)
  next
    case (Some x)
    obtain man where man: "readManifest x = Some man" using assms(4) Some by (auto simp: formatRec_def f Let_def split: option.splits)
    define tk where "tk = mf_config man"
    define p2 where "p2 = hold tk (hub (wk_repo wk) tk) (put tk ''tensor-table'' (mf_configSize man) (mf_configMedia man) (Some md) r1)"
    define r2 where "r2 = small tk p2"
    obtain r3 sets2 where t: "tableRec wk tk (r2, sets) = (r3, sets2)" by fastforce
    have fo: "foldOk (layerRec wk format md) (mf_layers man) r3 = Inr recs'" "sets' = sets2"
      using assms(4) Some man t by (auto simp: formatRec_def f Let_def r1_def media_def tk_def p2_def r2_def andThen_Inr_iff)
    have "grows i r1 p2 {tk}" unfolding p2_def by (rule put_hold_grows) (use growsD [OF 1] in auto)
    then have 2: "grows i recs r2 {md, tk}" unfolding r2_def using 1 small_grows [of i p2 tk] by (auto simp: grows_def)
    have 3: "grows i r2 r3 (tableReach wk tk) \<and> fst ` set sets2 \<subseteq> keysOf r3"
      by (rule table_grows [OF _ _ _ t]) (use growsD [OF 2] assms(3) in auto)
    have 4: "grows i r3 recs' (\<Union>l \<in> set (mf_layers man). layerReach wk l)"
      by (rule layers_grow [OF _ _ fo(1)]) (use 3 growsD [OF 2] in \<open>auto simp: grows_def\<close>)
    have "fst ` set sets' \<subseteq> keysOf recs'" using 3 fo(2) growsD(2) [OF 4] by (simp add: subset_iff)
    moreover have "grows i recs recs' (formatReach wk fmt)" using 2 3 4 Some man by (auto simp: grows_def formatReach_def f tk_def)
    ultimately show ?thesis by simp
  qed
qed

lemma formats_grow:
  "recsOk i recs \<Longrightarrow> md_index (wk_model wk) \<in> keysOf recs \<Longrightarrow> fst ` set sets \<subseteq> keysOf recs \<Longrightarrow> foldOk (formatRec wk) fs (recs, sets) = Inr (recs', sets') \<Longrightarrow>
     grows i recs recs' (\<Union>f \<in> set fs. formatReach wk f)"
proof (induction fs arbitrary: recs sets)
  case (Cons f fs)
  obtain r1 s1 where r1: "formatRec wk f (recs, sets) = Inr (r1, s1)" "foldOk (formatRec wk) fs (r1, s1) = Inr (recs', sets')"
    using Cons.prems(4) by (auto simp: andThen_Inr_iff)
  note g = format_grows [OF Cons.prems(1-3) r1(1)]
  have "recsOk i r1" "md_index (wk_model wk) \<in> keysOf r1" using g Cons.prems(2) by (simp_all only: grows_def Un_iff simp_thms)
  from Cons.IH [OF this g [THEN conjunct2] r1(2)] g show ?case by (auto simp: grows_def)
qed (simp add: grows_refl)

lemma option_grows: "recsOk i recs \<Longrightarrow> md_index (wk_model wk) \<in> keysOf recs \<Longrightarrow> grows i recs (optionRec wk k ty media recs) (optionReach k)"
  by (auto simp: optionRec_def optionReach_def grows_refl split: option.splits intro: put_hold_grows)

lemma piece_grows: "recsOk i recs \<Longrightarrow> grows i recs (pieceRec pk e recs) {}"
proof -
  assume r: "recsOk i recs"
  have "recsOk i (onRec (\<lambda>r. r\<lparr>rc_pieces := x\<rparr>) k recs)" for x k by (rule onRec_ok [OF r]) (simp add: recOk_def)
  from hold_grows [OF this] show ?thesis using r by (auto simp: pieceRec_def grows_def split: option.splits)
qed

text \<open>
  C21. A model has a record for exactly the objects its index reaches (the index, each format's manifest,
  its table and pieces object, each file, its layout and the layout's segments, the model \<open>\<kappa>\<close> and the provenance
  sample), one each; every record but the index's is pointed to, only by recorded objects, and none names a
  pointer or a holder twice.
\<close>

theorem records_exact:
  assumes "recordsOf wk = Inr recs"
  shows "distinct (map fst recs) \<and> fst ` set recs = reach wk \<and> (\<forall>(k, r) \<in> set recs. rc_kappa r = k \<and> distinct (rc_refs r)
     \<and> set (rc_refs r) \<subseteq> reach wk \<and> (k \<noteq> md_index (wk_model wk) \<longrightarrow> rc_refs r \<noteq> []) \<and> distinct (rc_holders r))"
proof -
  let ?m = "wk_model wk" let ?i = "md_index ?m"
  define p0 where "p0 = put ?i ''oci-index'' None (case wk_json wk ?i of Some v \<Rightarrow> textProp ''mediaType'' v | None \<Rightarrow> None) None []"
  define r0 where "r0 = hold ?i (hub (wk_repo wk) ?i) p0"
  have "grows ?i [] p0 {?i}" unfolding p0_def by (rule put_grows) (simp_all add: recsOk_def)
  then have 0: "grows ?i [] r0 {?i}" unfolding r0_def using hold_grows [of ?i p0] by (auto simp: grows_def)
  obtain r1 sets where r1: "foldOk (formatRec wk) (formatsOf ?m) (r0, []) = Inr (r1, sets)"
    using assms by (auto simp: recordsOf_def Let_def andThen_Inr_iff r0_def p0_def)
  define r2 where "r2 = optionRec wk (md_canonical ?m) ''model'' ''text/plain; charset=utf-8'' r1"
  define r3 where "r3 = optionRec wk (md_provenance ?m) ''provenance'' ''application/vnd.hologram.provenance.v1+json'' r2"
  have recs: "recs = fold (\<lambda>(pk, es). fold (pieceRec pk) es) sets r3"
    using assms r1 by (simp add: recordsOf_def Let_def r0_def p0_def r2_def r3_def)
  have "grows ?i r0 r1 (\<Union>f \<in> set (formatsOf ?m). formatReach wk f)"
    by (rule formats_grow [OF _ _ _ r1]) (use growsD [OF 0] in auto)
  then have 1: "grows ?i [] r1 (insert ?i (\<Union>f \<in> set (md_manifests ?m). formatReach wk f))"
    using 0 by (auto simp: grows_def formatsOf_def)
  have 2: "grows ?i r1 r2 (optionReach (md_canonical ?m))" unfolding r2_def by (rule option_grows) (use growsD [OF 1] in auto)
  have 3: "grows ?i r2 r3 (optionReach (md_provenance ?m))" unfolding r3_def
    by (rule option_grows) (use growsD [OF 1] growsD [OF 2] in auto)
  have piece: "grows ?i r (fold (pieceRec pk) es r) {}" if "recsOk ?i r" for r pk es
    using fold_grows [where xs = es and recs = r and i = ?i and f = "pieceRec pk" and g = "\<lambda>e. {}"] piece_grows that by simp
  have 4: "grows ?i r3 recs {}" unfolding recs
    using fold_grows [where xs = sets and recs = r3 and i = ?i and f = "\<lambda>(pk, es). fold (pieceRec pk) es" and g = "\<lambda>x. {}"] piece growsD [OF 3] by (simp add: case_prod_beta)
  have "keysOf recs = reach wk" using 1 2 3 4 by (auto simp: grows_def reach_def)
  then show ?thesis using growsD(1) [OF 4] unfolding recsOk_def recOk_def case_prod_unfold by (elim conjE, intro conjI) (simp_all only:)
qed

subsection \<open>A concrete model\<close>

definition sampleModel :: kmodel where
  "sampleModel = \<lparr>md_rev = ''r'', md_license = ''mit'', md_index = ''i'', md_manifests = [(''original'', ''m'')], md_table = ''t'',
     md_blobs = [(''f'', \<lparr>bl_path = Some ''f.bin'', bl_size = 3, bl_layout = None, bl_held = True, bl_upstream = True\<rparr>)], md_gated = True,
     md_canonical = Some ''c'', md_provenance = None, md_tensors = 1, md_weightBytes = 3\<rparr>"

definition sampleWalk :: walk where
  "sampleWalk = \<lparr>wk_repo = ''O/m'', wk_model = sampleModel,
     wk_json = (\<lambda>k. if k = ''m'' then Some (JObj [(''config'', JObj [(''digest'', JStr ''t'')]), (''layers'', JArr [JObj [(''digest'', JStr ''f'')]])]) else None),
     wk_alts = (\<lambda>k. [])\<rparr>"

lemma sample_manifest: "readManifest (JObj [(''config'', JObj [(''digest'', JStr ''t'')]), (''layers'', JArr [JObj [(''digest'', JStr ''f'')]])])
    = Some \<lparr>mf_media = None, mf_config = ''t'', mf_configMedia = None, mf_configSize = None,
        mf_layers = [\<lparr>ly_digest = ''f'', ly_size = None, ly_title = None, ly_layout = None\<rparr>]\<rparr>"
  by (simp add: readManifest_def arrayProp_def textProp_def natProp_def readLayer_def)

theorem records_exact_witness: "\<exists>recs. recordsOf sampleWalk = Inr recs \<and> fst ` set recs = {''i'', ''m'', ''t'', ''f'', ''c''}"
proof -
  have "\<exists>recs. recordsOf sampleWalk = Inr recs"
    by (simp add: recordsOf_def sampleWalk_def sampleModel_def Let_def formatsOf_def formatRec_def tableRec_def layerRec_def upstreamRec_def heldRec_def sample_manifest)
  then obtain recs where r: "recordsOf sampleWalk = Inr recs" ..
  have "reach sampleWalk = {''i'', ''m'', ''t'', ''f'', ''c''}"
    by (auto simp: reach_def sampleWalk_def sampleModel_def formatReach_def tableReach_def layerReach_def optionReach_def sample_manifest)
  then show ?thesis using records_exact [OF r] r by metis
qed

end
