(* ===== verification/Sha1.thy ===== *)
theory Sha1
  imports Sha256
begin

text \<open>
  SHA-1 of the language's \<open>createHash("sha1")\<close>, as FIPS 180-4 defines it over the same padded blocks
  as SHA-256: the edge names a folder of a listing by it.
\<close>

definition rotl :: "nat \<Rightarrow> u32 \<Rightarrow> u32" where
  "rotl n x = push_bit n x OR drop_bit (32 - n) x"

type_synonym regs1 = "u32 \<times> u32 \<times> u32 \<times> u32 \<times> u32"

text \<open>The schedule of a block, its last words first.\<close>

definition schedule1 :: "bytes \<Rightarrow> u32 list" where
  "schedule1 blk = rev (fold (\<lambda>_ ws. rotl 1 (ws ! 2 XOR ws ! 7 XOR ws ! 13 XOR ws ! 15) # ws) [16..<80]
     (rev (map (\<lambda>t. getUint32 blk (4 * t)) [0..<16])))"

definition f1 :: "nat \<Rightarrow> u32 \<Rightarrow> u32 \<Rightarrow> u32 \<Rightarrow> u32" where
  "f1 t x y z = (if t < 20 then (x AND y) XOR (NOT x AND z) else if t < 40 then x XOR y XOR z
     else if t < 60 then (x AND y) XOR (x AND z) XOR (y AND z) else x XOR y XOR z)"

definition k1 :: "nat \<Rightarrow> u32" where
  "k1 t = (if t < 20 then 0x5a827999 else if t < 40 then 0x6ed9eba1 else if t < 60 then 0x8f1bbcdc else 0xca62c1d6)"

definition round1 :: "nat \<times> u32 \<Rightarrow> regs1 \<Rightarrow> regs1" where
  "round1 tw r = (case (tw, r) of ((t, w), (a, b, c, d, e)) \<Rightarrow>
     (rotl 5 a + f1 t b c d + e + k1 t + w, a, rotl 30 b, c, d))"

definition block1 :: "bytes \<Rightarrow> regs1 \<Rightarrow> regs1" where
  "block1 blk h = (case (h, fold round1 (enumerate 0 (schedule1 blk)) h) of
     ((h0, h1, h2, h3, h4), (a, b, c, d, e)) \<Rightarrow> (h0 + a, h1 + b, h2 + c, h3 + d, h4 + e))"

definition sha1 :: "bytes \<Rightarrow> bytes" where
  "sha1 m = (case fold block1 (chunks 64 (fips_pad m)) (0x67452301, 0xefcdab89, 0x98badcfe, 0x10325476, 0xc3d2e1f0) of
     (h0, h1, h2, h3, h4) \<Rightarrow> be32 h0 @ be32 h1 @ be32 h2 @ be32 h3 @ be32 h4)"

lemma length_sha1 [simp]: "length (sha1 m) = 20"
  by (simp add: sha1_def be32_def split: prod.splits)

end
