(* ===== verification/Io.thy ===== *)
theory Io
  imports Prelude
begin

text \<open>
  Code that acts on the world. A world \<open>'w\<close> stands for everything outside the program (a network,
  a disk, a registry, a clock). An action takes the world, and either runs out of the depth it was
  given (\<open>None\<close>) or leaves a new world with the value returned or the error thrown. Sequencing is
  \<open>await\<close>: an error skips what follows. Requests and responses are those of \<open>fetch\<close>.
\<close>

type_synonym ('w, 'a) io = "'w \<Rightarrow> ('w \<times> 'a result) option"

definition ret :: "'a \<Rightarrow> ('w, 'a) io" where
  "ret x w = Some (w, Inr x)"

definition throw :: "js_error \<Rightarrow> ('w, 'a) io" where
  "throw e w = Some (w, Inl e)"

definition lift :: "'a result \<Rightarrow> ('w, 'a) io" where
  "lift r w = Some (w, r)"

definition bind :: "('w, 'a) io \<Rightarrow> ('a \<Rightarrow> ('w, 'b) io) \<Rightarrow> ('w, 'b) io" where
  "bind m f w = (case m w of None \<Rightarrow> None | Some (w', Inl e) \<Rightarrow> Some (w', Inl e) | Some (w', Inr x) \<Rightarrow> f x w')"

text \<open>\<open>try { m } catch (e) { h(e) }\<close>.\<close>

definition catchWith :: "('w, 'a) io \<Rightarrow> (js_error \<Rightarrow> ('w, 'a) io) \<Rightarrow> ('w, 'a) io" where
  "catchWith m h w = (case m w of None \<Rightarrow> None | Some (w', Inl e) \<Rightarrow> h e w' | Some (w', Inr x) \<Rightarrow> Some (w', Inr x))"

text \<open>A loop over a list that collects what each turn gives.\<close>

fun mapIO :: "('a \<Rightarrow> ('w, 'b) io) \<Rightarrow> 'a list \<Rightarrow> ('w, 'b list) io" where
  "mapIO f [] = ret []"
| "mapIO f (x # xs) = bind (f x) (\<lambda>y. bind (mapIO f xs) (\<lambda>ys. ret (y # ys)))"

text \<open>A loop that threads an accumulator.\<close>

fun foldIO :: "('b \<Rightarrow> 'a \<Rightarrow> ('w, 'b) io) \<Rightarrow> 'b \<Rightarrow> 'a list \<Rightarrow> ('w, 'b) io" where
  "foldIO f acc [] = ret acc"
| "foldIO f acc (x # xs) = bind (f acc x) (\<lambda>acc'. foldIO f acc' xs)"

lemma bind_ret [simp]: "bind (ret x) f = f x"
  by (simp add: bind_def ret_def fun_eq_iff)

lemma bind_throw [simp]: "bind (throw e) f = throw e"
  by (simp add: bind_def throw_def fun_eq_iff)

lemma bind_assoc: "bind (bind m f) g = bind m (\<lambda>x. bind (f x) g)"
  by (auto simp: bind_def fun_eq_iff split: option.splits sum.splits)

lemma bind_Inr_iff: "bind m f w = Some (w'', Inr y) \<longleftrightarrow> (\<exists>w' x. m w = Some (w', Inr x) \<and> f x w' = Some (w'', Inr y))"
  by (auto simp: bind_def split: option.splits sum.splits)

lemma bind_okI: "m w = Some (w', Inr x) \<Longrightarrow> f x w' = r \<Longrightarrow> bind m f w = r"
  by (simp add: bind_def)

lemma ret_iff [simp]: "ret x w = Some (w', Inr y) \<longleftrightarrow> w' = w \<and> y = x"
  by (auto simp: ret_def)

lemma throw_iff [simp]: "throw e w = Some (w', Inr y) \<longleftrightarrow> False"
  by (simp add: throw_def)

lemma lift_iff [simp]: "lift r w = Some (w', Inr y) \<longleftrightarrow> w' = w \<and> r = Inr y"
  by (auto simp: lift_def)

lemma foldIO_append: "foldIO f acc (xs @ ys) = bind (foldIO f acc xs) (\<lambda>acc'. foldIO f acc' ys)"
  by (induction xs arbitrary: acc) (simp_all add: bind_assoc)

text \<open>A loop each of whose turns succeeds whatever the world succeeds with the expected list.\<close>

lemma mapIO_ok:
  assumes "\<forall>x \<in> set xs. \<forall>w. \<exists>w'. f x w = Some (w', Inr (g x))"
  shows "\<exists>w'. mapIO f xs w = Some (w', Inr (map g xs))"
  using assms
proof (induction xs arbitrary: w)
  case (Cons x xs)
  obtain w1 where "f x w = Some (w1, Inr (g x))" using Cons.prems by (meson list.set_intros(1))
  moreover obtain w2 where "mapIO f xs w1 = Some (w2, Inr (map g xs))" using Cons by fastforce
  ultimately show ?case by (simp add: bind_def ret_def)
qed (simp add: ret_def)

lemma mapIO_Inr_cases:
  assumes "mapIO f xs w = Some (w', Inr ys)"
  shows "list_all2 (\<lambda>x y. \<exists>w1 w2. f x w1 = Some (w2, Inr y)) xs ys"
  using assms
proof (induction xs arbitrary: w ys)
  case (Cons x xs)
  then show ?case by (auto simp: bind_Inr_iff)
qed simp

lemma foldIO_inv:
  assumes "foldIO f acc xs w = Some (w', Inr acc')" and "P acc"
    and "\<And>acc x w1 w2 acc2. x \<in> set xs \<Longrightarrow> P acc \<Longrightarrow> f acc x w1 = Some (w2, Inr acc2) \<Longrightarrow> P acc2"
  shows "P acc'"
  using assms
proof (induction xs arbitrary: acc w)
  case (Cons x xs)
  from Cons.prems(1) obtain w1 acc1 where s: "f acc x w = Some (w1, Inr acc1)" "foldIO f acc1 xs w1 = Some (w', Inr acc')"
    by (auto simp: bind_Inr_iff)
  show ?case
    by (rule Cons.IH [OF s(2)]) (use Cons.prems s(1) in \<open>auto intro: Cons.prems(3)\<close>)
qed simp

text \<open>Actions that end, whatever the world.\<close>

definition answers :: "('w, 'a) io \<Rightarrow> bool" where
  "answers m \<longleftrightarrow> (\<forall>w. m w \<noteq> None)"

lemma answers_simps [simp]: "answers (ret x)" "answers (throw e)" "answers (lift r)"
  by (simp_all add: answers_def ret_def throw_def lift_def)

lemma answers_bind: "answers m \<Longrightarrow> (\<And>x. answers (f x)) \<Longrightarrow> answers (bind m f)"
  by (auto simp: answers_def bind_def split: option.splits sum.splits)

lemma answers_mapIO: "(\<And>x. answers (f x)) \<Longrightarrow> answers (mapIO f xs)"
  by (induction xs) (auto intro!: answers_bind)

subsection \<open>HTTP\<close>

record request =
  q_method :: string
  q_url :: string
  q_headers :: "(string \<times> string) list"
  q_body :: bytes

record response =
  s_status :: nat
  s_headers :: "(string \<times> string) list"
  s_body :: bytes

definition s_ok :: "response \<Rightarrow> bool" where
  "s_ok r \<longleftrightarrow> 200 \<le> s_status r \<and> s_status r < 300"

text \<open>\<open>fetch\<close>: what the other side does with a request; it rejects when the network fails.\<close>

type_synonym 'w net = "request \<Rightarrow> ('w, response) io"

abbreviation plainGet :: "string \<Rightarrow> request" where
  "plainGet url \<equiv> \<lparr>q_method = ''GET'', q_url = url, q_headers = [], q_body = []\<rparr>"

end
