(* ===== verification/Verified.thy ===== *)
theory Verified
  imports Io Json Sha256
begin

text \<open>
  Bytes that are checked while they pass: the verifying edge (\<open>deploy/verified-bytes.mjs\<close>), which
  holds back the last 64 KiB of a file until its hash is right, and keeps what it checked in a cache.
  A holder's answer is what its URL delivers: no answer, a status, or chunks that end or break off.
  The client's side of a response is its head, the bytes written and how it ended; whether the client
  is still there is a function of the bytes it has. The service worker's check has the same shape, and
  both are instances of one interface, \<open>holdback\<close>.
\<close>

subsection \<open>Holding back\<close>

text \<open>
  A relay takes chunks, lets some bytes out, and at the end lets the rest out only if the name is
  right. \<open>seen\<close> is what it took in, \<open>kept\<close> what it has not let out.
\<close>

locale holdback =
  fixes step :: "'s \<Rightarrow> bytes \<Rightarrow> bytes \<times> 's"
    and finish :: "'s \<Rightarrow> bytes option"
    and start :: "'s"
    and seen :: "'s \<Rightarrow> bytes"
    and kept :: "'s \<Rightarrow> bytes"
    and hold :: nat
    and right :: "bytes \<Rightarrow> bool"
  assumes start: "seen start = []" "kept start = []"
    and step: "step s c = (sent, s') \<Longrightarrow> seen s' = seen s @ c \<and> sent @ kept s' = kept s @ c"
    and tight: "step s c = (sent, s') \<Longrightarrow> sent \<noteq> [] \<Longrightarrow> length (kept s') = hold"
    and finish: "finish s = (if right (seen s) then Some (kept s) else None)"
begin

primrec relay :: "bytes list \<Rightarrow> 's \<Rightarrow> bytes \<times> 's" where
  "relay [] s = ([], s)"
| "relay (c # cs) s = (case step s c of (sent, s1) \<Rightarrow> case relay cs s1 of (next, s2) \<Rightarrow> (sent @ next, s2))"

lemma relay_all: "relay cs s = (sent, s') \<Longrightarrow> seen s' = seen s @ concat cs \<and> sent @ kept s' = kept s @ concat cs"
proof (induction cs arbitrary: s sent)
  case (Cons c cs)
  obtain a s1 where 1: "step s c = (a, s1)" by (cases "step s c")
  obtain b where 2: "relay cs s1 = (b, s')" "sent = a @ b" using Cons.prems 1 by (auto split: prod.splits)
  have k: "a @ kept s1 = kept s @ c" and e: "seen s1 = seen s @ c" using step [OF 1] by auto
  have "seen s' = seen s1 @ concat cs" and r: "b @ kept s' = kept s1 @ concat cs" using Cons.IH [OF 2(1)] by auto
  moreover have "a @ (b @ kept s') = (kept s @ c) @ concat cs" unfolding r using k by (metis append_assoc)
  ultimately show ?case using e 2(2) by simp
qed simp

text \<open>What went out is a prefix of what came in, complete exactly when the name is right.\<close>

lemma relay_prefix: "relay cs start = (sent, s') \<Longrightarrow> \<exists>rest. concat cs = sent @ rest \<and> kept s' = rest"
  using relay_all [of cs start sent s'] by (auto simp: start)

lemma relay_right: "relay cs start = (sent, s') \<Longrightarrow> finish s' = Some rest \<Longrightarrow> sent @ rest = concat cs \<and> right (concat cs)"
  using relay_all [of cs start sent s'] by (auto simp: finish start split: if_splits)

lemma relay_wrong: "relay cs start = (sent, s') \<Longrightarrow> \<not> right (concat cs) \<Longrightarrow> finish s' = None"
  using relay_all [of cs start sent s'] by (simp add: finish start)

text \<open>Once bytes went out, at least \<open>hold\<close> bytes are kept.\<close>

lemma relay_kept: "relay cs s = (sent, s') \<Longrightarrow> sent \<noteq> [] \<or> hold \<le> length (kept s) \<Longrightarrow> hold \<le> length (kept s')"
proof (induction cs arbitrary: s sent)
  case (Cons c cs)
  obtain a s1 where 1: "step s c = (a, s1)" by (cases "step s c")
  obtain b where 2: "relay cs s1 = (b, s')" "sent = a @ b" using Cons.prems(1) 1 by (auto split: prod.splits)
  have "a @ kept s1 = kept s @ c" using step [OF 1] by auto
  then have "a = [] \<Longrightarrow> length (kept s) \<le> length (kept s1)" by (metis append_Nil length_append le_add1)
  then have "b \<noteq> [] \<or> hold \<le> length (kept s1)" using Cons.prems(2) 2(2) tight [OF 1] by (cases "a = []") auto
  with Cons.IH [OF 2(1)] show ?case by blast
qed simp

end

subsection \<open>The cache\<close>

definition HOLD :: nat where "HOLD = 64 * 1024"

datatype delivery =
    NoAnswer string
  | Status nat
  | Stream "bytes list" "string option"

record vholder =
  h_url :: string
  h_kind :: string

datatype logLine = RefusedFrom string string string nat | VerifiedFrom string string nat

text \<open>What this process knows: the files of the cache by name, the names it re-hashed, and who lied.\<close>

record vcache =
  c_disk :: "string \<rightharpoonup> bytes"
  c_checked :: "string list"
  c_liars :: "(string \<times> string) list"
  c_log :: "logLine list"

definition hashFile :: "bytes \<Rightarrow> string" where
  "hashFile bs = hex (sha256 bs)"

definition cached :: "string \<Rightarrow> nat \<Rightarrow> vcache \<Rightarrow> bytes option \<times> vcache" where
  "cached name sz c = (case c_disk c name of
     None \<Rightarrow> (None, c)
   | Some bs \<Rightarrow> if length bs \<noteq> sz then (None, c)
       else if name \<in> set (c_checked c) \<or> hashFile bs = name then (Some bs, c\<lparr>c_checked := List.insert name (c_checked c)\<rparr>)
       else (None, c\<lparr>c_disk := (c_disk c)(name := None)\<rparr>))"

subsection \<open>One holder\<close>

record recv =
  v_hashed :: bytes
  v_held :: bytes

definition newRecv :: recv where
  "newRecv = \<lparr>v_hashed = [], v_held = []\<rparr>"

text \<open>One chunk: hashed, counted, and all but the last \<open>HOLD\<close> bytes let out.\<close>

definition recvChunk :: "recv \<Rightarrow> bytes \<Rightarrow> bytes \<times> recv" where
  "recvChunk v c = (let held = v_held v @ c; cut = length held - HOLD in
     if length held > HOLD then (take cut held, \<lparr>v_hashed = v_hashed v @ c, v_held = drop cut held\<rparr>)
     else ([], \<lparr>v_hashed = v_hashed v @ c, v_held = held\<rparr>))"

definition finishRecv :: "string \<Rightarrow> nat \<Rightarrow> recv \<Rightarrow> bytes option" where
  "finishRecv name sz v = (if hashFile (v_hashed v) = name \<and> length (v_hashed v) = sz then Some (v_held v) else None)"

text \<open>Why a fetch ended early: the holder's fault, or the client went away.\<close>

datatype stop = Lost string | Cut

text \<open>\<open>out\<close> says whether the client was still there, and what it has now.\<close>

type_synonym 'c sink = "bytes \<Rightarrow> 'c \<Rightarrow> bool \<times> 'c"

fun receive :: "nat \<Rightarrow> 'c sink \<Rightarrow> bytes list \<Rightarrow> string option \<Rightarrow> recv \<Rightarrow> 'c \<Rightarrow> (stop + recv) \<times> 'c" where
  "receive sz out [] ending v cl = (case ending of None \<Rightarrow> (Inr v, cl) | Some e \<Rightarrow> (Inl (Lost e), cl))"
| "receive sz out (c # cs) ending v cl =
     (if length (v_hashed v) + length c > sz then (Inl (Lost (''sent more than the '' @ decimal sz @ '' bytes the index names'')), cl)
      else (case recvChunk v c of (sent, v') \<Rightarrow>
        if sent = [] then receive sz out cs ending v' cl
        else (case out sent cl of (there, cl') \<Rightarrow> if there then receive sz out cs ending v' cl' else (Inl Cut, cl'))))"

datatype fetched = Got bytes bytes | WasCut | Nothing

definition lost :: "string \<Rightarrow> string \<Rightarrow> string" where
  "lost kind what = kind @ '': '' @ what"

definition fetchOne :: "string \<Rightarrow> nat \<Rightarrow> vholder \<Rightarrow> delivery \<Rightarrow> 'c sink \<Rightarrow> string list \<times> vcache \<times> 'c
    \<Rightarrow> fetched \<times> string list \<times> vcache \<times> 'c" where
  "fetchOne name sz h d out st = (case st of (tried, c, cl) \<Rightarrow> (case d of
     NoAnswer e \<Rightarrow> (Nothing, tried @ [lost (h_kind h) e], c, cl)
   | Status n \<Rightarrow> (Nothing, tried @ [lost (h_kind h) (''HTTP '' @ decimal n)], c, cl)
   | Stream cs ending \<Rightarrow> (case receive sz out cs ending newRecv cl of
       (Inl Cut, cl') \<Rightarrow> (WasCut, tried @ [lost (h_kind h) ''the client went away''], c, cl')
     | (Inl (Lost e), cl') \<Rightarrow> (Nothing, tried @ [lost (h_kind h) e], c, cl')
     | (Inr v, cl') \<Rightarrow> (let got = hashFile (v_hashed v); n = length (v_hashed v) in case finishRecv name sz v of
           None \<Rightarrow> (Nothing, tried @ [lost (h_kind h) (''sent '' @ decimal n @ '' bytes hashing to '' @ take 12 got @ ''..., refused'')],
             c\<lparr>c_liars := List.insert (name, h_kind h) (c_liars c), c_log := c_log c @ [RefusedFrom (h_kind h) name got n]\<rparr>, cl')
         | Some held \<Rightarrow> (Got (v_hashed v) held, tried,
             c\<lparr>c_disk := (c_disk c)(name \<mapsto> v_hashed v), c_checked := List.insert name (c_checked c),
               c_log := c_log c @ [VerifiedFrom name (h_kind h) n]\<rparr>, cl')))))"

definition honestOnes :: "string \<Rightarrow> vcache \<Rightarrow> vholder list \<Rightarrow> vholder list" where
  "honestOnes name c hs = filter (\<lambda>h. (name, h_kind h) \<notin> set (c_liars c)) hs"

definition noHolderSent :: "string \<Rightarrow> string list \<Rightarrow> string" where
  "noHolderSent name tried = ''no holder sent bytes matching sha256:'' @ name @ '' ('' @
     (if tried = [] then ''no holder'' else join ''; '' tried) @ '')''"

fun tryHolders :: "string \<Rightarrow> nat \<Rightarrow> (vholder \<Rightarrow> delivery) \<Rightarrow> vholder list \<Rightarrow> string list \<times> vcache \<Rightarrow> bytes result \<times> vcache" where
  "tryHolders name sz deliver [] (tried, c) = (Inl (Error (noHolderSent name tried)), c)"
| "tryHolders name sz deliver (h # hs) (tried, c) =
     (case fetchOne name sz h (deliver h) (\<lambda>_ u. (True, u)) (tried, c, ()) of
        (Got bs held, _, c', _) \<Rightarrow> (Inr bs, c')
      | (_, tried', c', _) \<Rightarrow> tryHolders name sz deliver hs (tried', c'))"

definition verified :: "string \<Rightarrow> nat \<Rightarrow> (vholder \<Rightarrow> delivery) \<Rightarrow> vholder list \<Rightarrow> vcache \<Rightarrow> bytes result \<times> vcache" where
  "verified name sz deliver hs c = (case cached name sz c of
     (Some bs, c') \<Rightarrow> (Inr bs, c')
   | (None, c') \<Rightarrow> tryHolders name sz deliver (honestOnes name c' hs) ([], c'))"

subsection \<open>Answering a client\<close>

datatype ended = Unfinished | Ended | Destroyed

record reply =
  y_head :: "(nat \<times> (string \<times> string) list) option"
  y_body :: bytes
  y_end :: ended

definition noReply :: reply where
  "noReply = \<lparr>y_head = None, y_body = [], y_end = Unfinished\<rparr>"

definition answer :: "nat \<Rightarrow> (string \<times> string) list \<Rightarrow> bytes \<Rightarrow> reply" where
  "answer status headers body = \<lparr>y_head = Some (status, headers), y_body = body, y_end = Ended\<rparr>"

definition wholeHead :: "nat \<Rightarrow> (string \<times> string) list \<Rightarrow> nat \<times> (string \<times> string) list" where
  "wholeHead sz headers = (200, [(''content-type'', ''application/octet-stream''), (''content-length'', decimal sz), (''accept-ranges'', ''bytes'')] @ headers)"

text \<open>\<open>/^bytes=(\\d*)-(\\d*)$/\<close>.\<close>

definition rangeOf :: "string \<Rightarrow> (string \<times> string) option" where
  "rangeOf s = (if startsWith s ''bytes='' then
     (let r = drop 6 s; a = takeWhile isDigit r; b = drop (length a) r in
      case b of c # b' \<Rightarrow> if c = CHR ''-'' \<and> list_all isDigit b' then Some (a, b') else None | [] \<Rightarrow> None)
   else None)"

definition sendFile :: "string \<Rightarrow> string option \<Rightarrow> bytes \<Rightarrow> nat \<Rightarrow> (string \<times> string) list \<Rightarrow> reply" where
  "sendFile verb rng file sz headers =
     (let m = (case rng of Some s \<Rightarrow> (case rangeOf s of Some (a, b) \<Rightarrow> if a = [] \<and> b = [] then None else Some (a, b) | None \<Rightarrow> None) | None \<Rightarrow> None);
          from = (case m of Some (a, b) \<Rightarrow> if a \<noteq> [] then undecimal a else sz - undecimal b | None \<Rightarrow> 0);
          stop = (case m of Some (a, b) \<Rightarrow> if a \<noteq> [] \<and> b \<noteq> [] then min (int (undecimal b)) (int sz - 1) else int sz - 1 | None \<Rightarrow> int sz - 1)
      in if m \<noteq> None \<and> (int from > stop \<or> from \<ge> sz) then answer 416 [(''content-range'', ''bytes */'' @ decimal sz)] []
         else answer (if m = None then 200 else 206)
           ([(''content-type'', ''application/octet-stream''), (''content-length'', numText (stop - int from + 1)), (''accept-ranges'', ''bytes'')]
            @ (if m = None then [] else [(''content-range'', ''bytes '' @ decimal from @ ''-'' @ numText stop @ ''/'' @ decimal sz)]) @ headers)
           (if verb = ''HEAD'' \<or> sz = 0 then [] else subarray file from (nat (stop + 1))))"

text \<open>\<open>out\<close> of \<open>streamVerified\<close>: the head before the first bytes, and an error when the client has gone.\<close>

definition writeOut :: "nat \<Rightarrow> (string \<times> string) list \<Rightarrow> (bytes \<Rightarrow> bool) \<Rightarrow> reply sink" where
  "writeOut sz headers there bs y = (let y1 = (if y_head y = None then y\<lparr>y_head := Some (wholeHead sz headers)\<rparr> else y) in
     if there (y_body y1) then (True, y1\<lparr>y_body := y_body y1 @ bs\<rparr>) else (False, y1\<lparr>y_end := Destroyed\<rparr>))"

fun streamHolders :: "string \<Rightarrow> nat \<Rightarrow> (vholder \<Rightarrow> delivery) \<Rightarrow> (string \<times> string) list \<Rightarrow> (bytes \<Rightarrow> bool) \<Rightarrow> vholder list
    \<Rightarrow> string list \<times> vcache \<times> reply \<Rightarrow> reply \<times> vcache" where
  "streamHolders name sz deliver headers there [] (tried, c, y) = (let message = noHolderSent name tried; body = utf8 (stringify (JObj [(''error'', JStr message)])) in
     (answer 502 [(''content-type'', ''application/json''), (''content-length'', decimal (length body)), (''x-error-code'', ''NoVerifiedSource''),
        (''x-error-message'', take 300 message)] body, c))"
| "streamHolders name sz deliver headers there (h # hs) (tried, c, y) =
     (case fetchOne name sz h (deliver h) (writeOut sz headers there) (tried, c, y) of
        (Got bs held, _, c', y') \<Rightarrow> (\<lparr>y_head = (if y_head y' = None then Some (wholeHead sz headers) else y_head y'),
             y_body = y_body y' @ held, y_end = Ended\<rparr>, c')
      | (_, tried', c', y') \<Rightarrow> if y_head y' \<noteq> None then (y'\<lparr>y_end := Destroyed\<rparr>, c')
          else streamHolders name sz deliver headers there hs (tried', c', y'))"

definition asksRange :: "string option \<Rightarrow> bool" where
  "asksRange rng \<longleftrightarrow> rng \<noteq> None \<and> rng \<noteq> Some []"

text \<open>
  \<open>other\<close> is a fetch of the same file that another request has under way: what it will settle with.
  It is looked at before the cache and, after the cache has been read, again.
\<close>

definition streamVerified :: "string \<Rightarrow> string option \<Rightarrow> string \<Rightarrow> nat \<Rightarrow> (vholder \<Rightarrow> delivery) \<Rightarrow> vholder list \<Rightarrow> (string \<times> string) list
    \<Rightarrow> (bytes \<Rightarrow> bool) \<Rightarrow> bytes result option \<Rightarrow> bytes result option \<Rightarrow> vcache \<Rightarrow> reply result \<times> vcache" where
  "streamVerified verb rng name sz deliver hs headers there other other' c =
     (case (if other \<noteq> None then (None, c) else cached name sz c) of (hit, c1) \<Rightarrow>
      if hit \<noteq> None \<or> verb = ''HEAD'' \<or> asksRange rng \<or> other' \<noteq> None then
        (case hit of
           Some bs \<Rightarrow> (Inr (sendFile verb rng bs sz headers), c1)
         | None \<Rightarrow> if verb = ''HEAD'' then
               (Inr (answer 200 ([(''content-length'', decimal sz), (''accept-ranges'', ''bytes''), (''content-type'', ''application/octet-stream'')] @ headers) []), c1)
             else (case (case other' of Some r \<Rightarrow> (r, c1) | None \<Rightarrow> verified name sz deliver hs c1) of
                 (Inl e, c2) \<Rightarrow> (Inl e, c2)
               | (Inr bs, c2) \<Rightarrow> (Inr (sendFile verb rng bs sz headers), c2)))
      else (case streamHolders name sz deliver headers there (honestOnes name c1 hs) ([], c1, noReply) of (y, c2) \<Rightarrow> (Inr y, c2)))"

subsection \<open>The relay of a holder's bytes\<close>

interpretation rv: holdback recvChunk "finishRecv name sz" newRecv v_hashed v_held HOLD "\<lambda>bs. hashFile bs = name \<and> length bs = sz"
  for name sz
  by unfold_locales (auto simp: newRecv_def recvChunk_def finishRecv_def Let_def simp del: take_append drop_append split: if_splits)

text \<open>A response that has its bytes from the relay, and is short of the rest.\<close>

definition behind :: "recv \<Rightarrow> nat \<Rightarrow> reply \<Rightarrow> bool" where
  "behind v sz y \<longleftrightarrow> y_body y @ v_held v = v_hashed v \<and> length (v_hashed v) \<le> sz \<and>
     (y_body y \<noteq> [] \<longrightarrow> HOLD \<le> length (v_held v)) \<and> (y_head y = None \<longrightarrow> y_body y = [])"

definition shortOf :: "nat \<Rightarrow> reply \<Rightarrow> bool" where
  "shortOf sz y \<longleftrightarrow> (y_body y = [] \<or> length (y_body y) + HOLD \<le> sz) \<and> (y_head y = None \<longrightarrow> y_body y = [])"

lemma behind_short: "behind v sz y \<Longrightarrow> shortOf sz y"
proof -
  assume b: "behind v sz y"
  then have "length (y_body y) + length (v_held v) = length (v_hashed v)" by (metis behind_def length_append)
  with b show ?thesis by (auto simp: behind_def shortOf_def)
qed

lemma recvChunk_behind:
  assumes "behind v sz y" and "length (v_hashed v) + length c \<le> sz" and "recvChunk v c = (sent, v')"
  shows "behind v' sz (y\<lparr>y_head := (if sent = [] then y_head y else Some h), y_body := y_body y @ sent\<rparr>)"
proof -
  have "v_hashed v' = v_hashed v @ c" "sent @ v_held v' = v_held v @ c" using rv.step [OF assms(3)] by auto
  moreover have "sent \<noteq> [] \<Longrightarrow> length (v_held v') = HOLD" using rv.tight [OF assms(3)] .
  moreover have "sent = [] \<Longrightarrow> length (v_held v) \<le> length (v_held v')" using calculation(2) by (metis append_Nil length_append le_add1)
  ultimately show ?thesis using assms(1,2) by (auto simp: behind_def)
qed

lemma writeOut_eq: "writeOut sz headers there bs y = (let y1 = y\<lparr>y_head := Some (if y_head y = None then wholeHead sz headers else the (y_head y))\<rparr> in
    if there (y_body y) then (True, y1\<lparr>y_body := y_body y @ bs\<rparr>) else (False, y1\<lparr>y_end := Destroyed\<rparr>))"
  by (auto simp: writeOut_def Let_def)

lemma receive_behind:
  "behind v sz y \<Longrightarrow> receive sz (writeOut sz headers there) cs ending v y = (r, y') \<Longrightarrow>
   shortOf sz y' \<and> (\<forall>v'. r = Inr v' \<longrightarrow> behind v' sz y' \<and> v_hashed v' = v_hashed v @ concat cs)"
proof (induction cs arbitrary: v y)
  case Nil
  from behind_short [OF Nil.prems(1)] Nil show ?case by (cases ending) auto
next
  case (Cons c cs)
  obtain sent v1 where 1: "recvChunk v c = (sent, v1)" by (cases "recvChunk v c")
  show ?case
  proof (cases "length (v_hashed v) + length c > sz")
    case True
    with Cons.prems(2) behind_short [OF Cons.prems(1)] show ?thesis by auto
  next
    case False
    then have le: "length (v_hashed v) + length c \<le> sz" by simp
    have h: "v_hashed v @ concat (c # cs) = v_hashed v1 @ concat cs" using rv.step [OF 1] by simp
    show ?thesis
    proof (cases "sent = []")
      case True
      have "behind v1 sz y" using recvChunk_behind [OF Cons.prems(1) le 1] True by simp
      have "receive sz (writeOut sz headers there) cs ending v1 y = (r, y')" using Cons.prems(2) False True 1 by simp
      from Cons.IH [OF \<open>behind v1 sz y\<close> this] show ?thesis unfolding h .
    next
      case s: False
      define hd where "hd = (if y_head y = None then wholeHead sz headers else the (y_head y))"
      define y1 where "y1 = y\<lparr>y_head := Some hd, y_body := y_body y @ sent\<rparr>"
      have b: "behind v1 sz y1" using recvChunk_behind [OF Cons.prems(1) le 1, of hd] s by (simp add: y1_def)
      have out: "writeOut sz headers there sent y = (if there (y_body y) then (True, y1) else (False, y\<lparr>y_head := Some hd, y_end := Destroyed\<rparr>))"
        by (simp add: writeOut_eq Let_def y1_def hd_def)
      have rec: "receive sz (writeOut sz headers there) (c # cs) ending v y =
          (if there (y_body y) then receive sz (writeOut sz headers there) cs ending v1 y1
           else (Inl Cut, y\<lparr>y_head := Some hd, y_end := Destroyed\<rparr>))"
        using False s by (simp add: 1 out)
      show ?thesis
      proof (cases "there (y_body y)")
        case True
        with rec Cons.prems(2) have "receive sz (writeOut sz headers there) cs ending v1 y1 = (r, y')" by simp
        from Cons.IH [OF b this] show ?thesis unfolding h .
      next
        case gone: False
        have "shortOf sz y" by (rule behind_short [OF Cons.prems(1)])
        with gone Cons.prems(2) rec show ?thesis by (auto simp: shortOf_def)
      qed
    qed
  qed
qed

subsection \<open>Nothing wrong is finished\<close>

definition cacheOk :: "vcache \<Rightarrow> bool" where
  "cacheOk c \<longleftrightarrow> (\<forall>name \<in> set (c_checked c). \<forall>bs. c_disk c name = Some bs \<longrightarrow> hashFile bs = name)"

definition isFile :: "string \<Rightarrow> nat \<Rightarrow> bytes \<Rightarrow> bool" where
  "isFile name sz bs \<longleftrightarrow> hashFile bs = name \<and> length bs = sz"

lemma cached_ok: "cacheOk c \<Longrightarrow> cached name sz c = (r, c') \<Longrightarrow> cacheOk c' \<and> (\<forall>bs. r = Some bs \<longrightarrow> isFile name sz bs)"
  by (auto simp: cached_def cacheOk_def isFile_def split: option.splits if_splits)

lemma fetchOne_ok:
  "cacheOk c \<Longrightarrow> fetchOne name sz h d out (tried, c, cl) = (r, tried', c', cl') \<Longrightarrow>
   cacheOk c' \<and> (\<forall>bs held. r = Got bs held \<longrightarrow> isFile name sz bs)"
  by (auto simp: fetchOne_def finishRecv_def cacheOk_def isFile_def Let_def split: delivery.splits prod.splits sum.splits stop.splits if_splits option.splits)

lemma tryHolders_ok:
  "tryHolders name sz deliver hs (tried, c) = (r, c') \<Longrightarrow> cacheOk c \<Longrightarrow> cacheOk c' \<and> (\<forall>bs. r = Inr bs \<longrightarrow> isFile name sz bs)"
proof (induction hs arbitrary: tried c)
  case (Cons h hs)
  obtain f tried1 c1 u where f: "fetchOne name sz h (deliver h) (\<lambda>_ u. (True, u)) (tried, c, ()) = (f, tried1, c1, u)" by (metis prod.exhaust)
  from fetchOne_ok [OF Cons.prems(2) f] have "cacheOk c1" "\<forall>bs held. f = Got bs held \<longrightarrow> isFile name sz bs" by auto
  with Cons.IH [of tried1 c1] Cons.prems(1) f show ?case by (cases f) auto
qed auto

lemma verified_ok: "cacheOk c \<Longrightarrow> verified name sz deliver hs c = (r, c') \<Longrightarrow> cacheOk c' \<and> (\<forall>bs. r = Inr bs \<longrightarrow> isFile name sz bs)"
  unfolding verified_def using cached_ok [of c name sz] tryHolders_ok [of name sz deliver _ "[]"] by (fastforce split: prod.splits option.splits)

text \<open>A reply that is right: finished with the file's bytes, or refused, or cut before the last bytes.\<close>

definition rightReply :: "string \<Rightarrow> nat \<Rightarrow> reply \<Rightarrow> bool" where
  "rightReply name sz y \<longleftrightarrow>
     (if y_end y = Ended then (\<exists>hs. y_head y = Some (502, hs)) \<or> isFile name sz (y_body y) else shortOf sz y)"

lemma fetchOne_reply:
  assumes "fetchOne name sz h d (writeOut sz headers there) (tried, c, y) = (r, tried', c', y')" and "y_body y = []"
  shows "shortOf sz y' \<and> (\<forall>bs held. r = Got bs held \<longrightarrow> y_body y' @ held = bs)"
proof (cases d)
  case (Stream cs ending)
  have b: "behind newRecv sz y" using assms(2) by (simp add: behind_def newRecv_def)
  obtain s y1 where r: "receive sz (writeOut sz headers there) cs ending newRecv y = (s, y1)" by fastforce
  have y': "y' = y1" using assms(1) Stream r by (auto simp: fetchOne_def Let_def split: sum.splits stop.splits option.splits)
  from receive_behind [OF b r] y' assms(1) Stream r show ?thesis
    by (auto simp: fetchOne_def Let_def finishRecv_def behind_def split: sum.splits stop.splits if_splits)
qed (use assms in \<open>auto simp: fetchOne_def shortOf_def\<close>)

lemma streamHolders_ok:
  "streamHolders name sz deliver headers there hs (tried, c, y) = (y', c') \<Longrightarrow> cacheOk c \<Longrightarrow> y_head y = None \<Longrightarrow> y_body y = [] \<Longrightarrow>
   cacheOk c' \<and> rightReply name sz y' \<and> y_end y' \<noteq> Unfinished"
proof (induction hs arbitrary: tried c y)
  case Nil
  then show ?case by (auto simp: rightReply_def answer_def Let_def)
next
  case (Cons h hs)
  obtain f tried1 c1 y1 where f: "fetchOne name sz h (deliver h) (writeOut sz headers there) (tried, c, y) = (f, tried1, c1, y1)" by (metis prod.exhaust)
  from fetchOne_ok [OF Cons.prems(2) f] have c1: "cacheOk c1" "\<forall>bs held. f = Got bs held \<longrightarrow> isFile name sz bs" by auto
  from fetchOne_reply [OF f Cons.prems(4)] have s: "shortOf sz y1" "\<forall>bs held. f = Got bs held \<longrightarrow> y_body y1 @ held = bs" by auto
  show ?case
  proof (cases "\<exists>bs held. f = Got bs held")
    case True
    with Cons.prems(1) f c1 s show ?thesis by (auto simp: rightReply_def)
  next
    case False
    then have step: "streamHolders name sz deliver headers there (h # hs) (tried, c, y) =
        (if y_head y1 \<noteq> None then (y1\<lparr>y_end := Destroyed\<rparr>, c1) else streamHolders name sz deliver headers there hs (tried1, c1, y1))"
      using f by (cases f) auto
    show ?thesis
    proof (cases "y_head y1 = None")
      case True
      with s have "y_body y1 = []" by (simp add: shortOf_def)
      with Cons.IH [OF _ c1(1) True] Cons.prems(1) step True show ?thesis by auto
    next
      case False
      with Cons.prems(1) step c1 s show ?thesis by (auto simp: rightReply_def shortOf_def)
    qed
  qed
qed

text \<open>
  C24. A verified file is never finished wrong: whatever the holders send and whenever the client goes,
  a GET of the whole file ends in one of three ways. It is finished, and its bytes are a file of the
  size and the SHA-256 the index names; it is refused with 502; or it is cut at least 64 KiB short of
  the length it promised. The cache still holds only what it checked.
\<close>
theorem stream_never_wrong:
  assumes "cacheOk c" and "streamVerified ''GET'' None name sz deliver hs headers there None None c = (Inr y, c')"
  shows "cacheOk c' \<and> (if y_end y = Ended then (\<exists>hd. y_head y = Some (502, hd)) \<or> (hashFile (y_body y) = name \<and> length (y_body y) = sz)
     else y_end y = Destroyed \<and> (y_body y = [] \<or> length (y_body y) + HOLD \<le> sz))"
proof -
  obtain hit c1 where c1: "cached name sz c = (hit, c1)" by fastforce
  from cached_ok [OF assms(1) c1] have ok: "cacheOk c1" "\<forall>bs. hit = Some bs \<longrightarrow> isFile name sz bs" by auto
  show ?thesis
  proof (cases hit)
    case (Some bs)
    have "subarray bs 0 (nat (int sz - 1 + 1)) = bs" using ok(2) Some by (auto simp: isFile_def)
    with assms(2) c1 Some ok show ?thesis by (auto simp: streamVerified_def sendFile_def answer_def isFile_def)
  next
    case None
    with assms(2) c1 have "streamHolders name sz deliver headers there (honestOnes name c1 hs) ([], c1, noReply) = (y, c')"
      by (auto simp: streamVerified_def asksRange_def split: prod.splits)
    from streamHolders_ok [OF this ok(1)] show ?thesis
      by (cases "y_end y") (auto simp: noReply_def rightReply_def isFile_def shortOf_def)
  qed
qed

theorem stream_never_wrong_witness:
  "\<exists>y c'. streamVerified ''GET'' None (hashFile [7]) 1 (\<lambda>_. Stream [[7]] None) [\<lparr>h_url = ''u'', h_kind = ''ipfs''\<rparr>] [] (\<lambda>_. True) None None
       \<lparr>c_disk = Map.empty, c_checked = [], c_liars = [], c_log = []\<rparr> = (Inr y, c') \<and> y_end y = Ended \<and> y_body y = [7] \<and> cacheOk c'"
proof -
  let ?c = "\<lparr>c_disk = Map.empty, c_checked = [], c_liars = [], c_log = []\<rparr>"
  obtain y c' where s: "streamVerified ''GET'' None (hashFile [7]) 1 (\<lambda>_. Stream [[7]] None) [\<lparr>h_url = ''u'', h_kind = ''ipfs''\<rparr>] [] (\<lambda>_. True) None None
      ?c = (Inr y, c')" "y_end y = Ended" "y_body y = [7]"
    by (simp add: streamVerified_def asksRange_def cached_def honestOnes_def fetchOne_def newRecv_def recvChunk_def finishRecv_def
        HOLD_def noReply_def wholeHead_def Let_def)
  have "cacheOk ?c" by (simp add: cacheOk_def)
  from stream_never_wrong [OF this s(1)] s show ?thesis by blast
qed

subsection \<open>An honest holder is enough\<close>

lemma receive_ends:
  "length (v_hashed v) + length (concat cs) \<le> sz \<Longrightarrow> (\<And>b. there b) \<Longrightarrow> \<exists>v' y'. receive sz (writeOut sz headers there) cs None v y = (Inr v', y')"
proof (induction cs arbitrary: v y)
  case (Cons c cs)
  obtain sent v1 where 1: "recvChunk v c = (sent, v1)" by (cases "recvChunk v c")
  have "length (v_hashed v1) + length (concat cs) \<le> sz" using Cons.prems(1) rv.step [OF 1] by simp
  then have "\<exists>v' y'. receive sz (writeOut sz headers there) cs None v1 z = (Inr v', y')" for z by (rule Cons.IH) (rule Cons.prems(2))
  moreover have "\<exists>z. writeOut sz headers there sent y = (True, z)" using Cons.prems(2) by (simp add: writeOut_def Let_def)
  ultimately show ?case using Cons.prems(1) 1 by auto
qed simp

lemma receive_head:
  "receive sz (writeOut sz headers there) cs ending v y = (r, y') \<Longrightarrow> y_head y = None \<or> y_head y = Some (wholeHead sz headers) \<Longrightarrow>
   y_head y' = None \<or> y_head y' = Some (wholeHead sz headers)"
proof (induction cs arbitrary: v y)
  case (Cons c cs)
  obtain sent v1 where 1: "recvChunk v c = (sent, v1)" by (cases "recvChunk v c")
  obtain t z where z: "writeOut sz headers there sent y = (t, z)" by (cases "writeOut sz headers there sent y")
  have "y_head z = Some (wholeHead sz headers)" using z Cons.prems(2) by (auto simp: writeOut_def Let_def split: if_splits)
  with Cons.IH [of v1 z] Cons.IH [of v1 y] Cons.prems 1 z show ?case by (auto split: if_splits)
qed (auto split: option.splits)

lemma streamHolders_skip:
  "\<forall>x \<in> set before. \<forall>cs e. deliver x \<noteq> Stream cs e \<Longrightarrow> y_head y = None \<Longrightarrow>
   \<exists>tried'. streamHolders name sz deliver headers there (before @ hs) (tried, c, y) = streamHolders name sz deliver headers there hs (tried', c, y)"
proof (induction before arbitrary: tried)
  case (Cons x xs)
  then have "\<forall>cs e. deliver x \<noteq> Stream cs e" by simp
  then obtain t where "fetchOne name sz x (deliver x) (writeOut sz headers there) (tried, c, y) = (Nothing, t, c, y)"
    by (cases "deliver x") (auto simp: fetchOne_def)
  with Cons.IH [of t] Cons.prems show ?case by simp
qed auto

text \<open>
  One honest holder is enough: if the file is not in the cache, the holders before it only fail
  without sending anything, and it sends the file's bytes in whatever chunks, a client that stays gets
  200 and exactly those bytes, and the file is in the cache for the next one.
\<close>
theorem stream_delivers:
  assumes "c_disk c name = None" and "honestOnes name c hs = before @ h # others"
    and "\<forall>x \<in> set before. \<forall>cs e. deliver x \<noteq> Stream cs e" and "deliver h = Stream cs None"
    and "hashFile (concat cs) = name" and "length (concat cs) = sz" and "\<And>b. there b"
  shows "\<exists>y c'. streamVerified ''GET'' None name sz deliver hs headers there None None c = (Inr y, c') \<and>
    y_end y = Ended \<and> y_head y = Some (wholeHead sz headers) \<and> y_body y = concat cs \<and> c_disk c' name = Some (concat cs)"
proof -
  have "y_head noReply = None" by (simp add: noReply_def)
  from streamHolders_skip [OF assms(3) this] obtain tried where skip:
    "streamHolders name sz deliver headers there (before @ h # others) ([], c, noReply) =
      streamHolders name sz deliver headers there (h # others) (tried, c, noReply)" by blast
  have b: "behind newRecv sz noReply" by (simp add: behind_def newRecv_def noReply_def)
  have "length (v_hashed newRecv) + length (concat cs) \<le> sz" using assms(6) by (simp add: newRecv_def)
  from receive_ends [of newRecv cs sz there headers noReply, OF this assms(7)] obtain v' y' where r: "receive sz (writeOut sz headers there) cs None newRecv noReply = (Inr v', y')" by blast
  from receive_behind [OF b r] have v: "v_hashed v' = concat cs" "y_body y' @ v_held v' = concat cs" by (auto simp: newRecv_def behind_def)
  have hd: "y_head y' = None \<or> y_head y' = Some (wholeHead sz headers)" using receive_head [OF r] by (simp add: noReply_def)
  have "cached name sz c = (None, c)" using assms(1) by (simp add: cached_def)
  then show ?thesis using assms(2,4,5,6) skip r v hd
    by (auto simp: streamVerified_def asksRange_def fetchOne_def finishRecv_def Let_def)
qed

theorem stream_delivers_witness:
  "\<exists>y c'. streamVerified ''GET'' None (hashFile [7, 8]) 2 (\<lambda>h. if h_kind h = ''ipfs'' then Stream [[7], [8]] None else Status 404)
       [\<lparr>h_url = ''u'', h_kind = ''hf''\<rparr>, \<lparr>h_url = ''v'', h_kind = ''ipfs''\<rparr>] [] (\<lambda>_. True) None None
       \<lparr>c_disk = Map.empty, c_checked = [], c_liars = [], c_log = []\<rparr> = (Inr y, c') \<and> y_body y = [7, 8]"
proof -
  let ?c = "\<lparr>c_disk = Map.empty, c_checked = [], c_liars = [], c_log = []\<rparr>"
  let ?hs = "[\<lparr>h_url = ''u'', h_kind = ''hf''\<rparr>, \<lparr>h_url = ''v'', h_kind = ''ipfs''\<rparr>]"
  have h: "honestOnes (hashFile [7, 8]) ?c ?hs = [\<lparr>h_url = ''u'', h_kind = ''hf''\<rparr>] @ \<lparr>h_url = ''v'', h_kind = ''ipfs''\<rparr> # []"
    by (simp add: honestOnes_def)
  show ?thesis
    using stream_delivers [OF _ h, of "\<lambda>h. if h_kind h = ''ipfs'' then Stream [[7], [8]] None else Status 404" "[[7], [8]]" 2 "\<lambda>_. True" "[]"]
    by auto
qed

end
