(* ===== verification/Resolve.thy ===== *)
theory Resolve
  imports Doc Sha1 Verified "HOL-Library.Char_ord" "HOL-Library.List_Lexorder"
begin

text \<open>
  The Hugging Face and ModelScope dialects of the edge, \<open>deploy/hub-resolve.mjs\<close>: which route a
  request takes, which source a file is sent to, folder listings and the answers. What the process
  knows when a request comes in is one record: the document of each model (the index, its caches and
  the records are behind \<open>model(id)\<close>), the outcome of the last probe of each source, and which requests
  the mirrors beside it answer themselves. A thrown error becomes the answer 500.
\<close>

definition QUOTE :: char where "QUOTE = CHR 0x27"

definition ORDER :: "string list" where
  "ORDER = [''huggingface.co'', ''modelscope.cn'', ''ipfs'', ''tensors'']"

record probeResult =
  p_ok :: bool
  p_checked :: "string option"
  p_reason :: string

record edge =
  v_model :: "string \<Rightarrow> doc option"
  v_health :: "string \<Rightarrow> probeResult"
  v_gated :: "string \<Rightarrow> bool"
  v_verify :: bool
  v_hub :: string
  v_api :: string

subsection \<open>Answers\<close>

record req =
  q_verb :: string
  q_url :: string
  q_path :: string
  q_query :: "(string \<times> string) list"
  q_heads :: "(string \<times> string) list"
  q_data :: bytes

record res =
  o_status :: nat
  o_headers :: "(string \<times> string) list"
  o_body :: bytes

text \<open>What a handler does with a request: answer it, or hand it to the verifying stream; and the models it asks to index.\<close>

datatype outcome =
    Reply res
  | Serve doc row "string option" "(string \<times> string) list"
  | Elsewhere

definition spread :: "(string \<times> string) list \<Rightarrow> (string \<times> string) list \<Rightarrow> (string \<times> string) list" where
  "spread base extra = foldl (\<lambda>o' (k, v). setProp o' k v) base extra"

definition json :: "string \<Rightarrow> nat \<Rightarrow> json \<Rightarrow> (string \<times> string) list \<Rightarrow> res" where
  "json verb status body headers = (let text = utf8 (stringify body) in
     \<lparr>o_status = status, o_headers = spread [(''content-type'', ''application/json; charset=utf-8''),
        (''content-length'', decimal (length text)), (''cache-control'', ''public, max-age=60'')] headers,
      o_body = (if verb = ''HEAD'' then [] else text)\<rparr>)"

definition refuse :: "string \<Rightarrow> nat \<Rightarrow> string \<Rightarrow> string \<Rightarrow> res" where
  "refuse verb status code message = json verb status (JObj [(''error'', JStr message)]) [(''x-error-code'', code), (''x-error-message'', message)]"

text \<open>\<open>writeHead\<close> throws \<open>ERR_INVALID_CHAR\<close> on a header with a control character other than a tab.\<close>

definition headerText :: "string \<Rightarrow> bool" where
  "headerText v \<longleftrightarrow> list_all (\<lambda>c. c = CHR 0x09 \<or> (32 \<le> (of_char c :: nat) \<and> of_char c \<noteq> (127 :: nat))) v"

definition sendable :: "res \<Rightarrow> bool" where
  "sendable r \<longleftrightarrow> list_all (\<lambda>kv. headerText (snd kv)) (o_headers r)"

lemma headerText_append [simp]: "headerText (a @ b) \<longleftrightarrow> headerText a \<and> headerText b"
  by (simp add: headerText_def)

lemma headerText_Nil [simp]: "headerText []"
  by (simp add: headerText_def)

lemma headerText_decimal [simp]: "headerText (decimal n)"
proof -
  have "32 \<le> (of_char c :: nat) \<and> of_char c \<noteq> (127 :: nat)" if "c \<in> set (decimal n)" for c
    using decimal_digits [OF that] by (auto simp: isDigit_def less_eq_char_def)
  then show ?thesis by (simp add: headerText_def list_all_iff)
qed

lemma headerText_join: "headerText sep \<Longrightarrow> \<forall>x \<in> set xs. headerText x \<Longrightarrow> headerText (join sep xs)"
  by (induction sep xs rule: join.induct) auto

lemma spread_all: "\<forall>kv \<in> set a \<union> set b. P (snd kv) \<Longrightarrow> \<forall>kv \<in> set (spread a b). P (snd kv)"
proof (induction b arbitrary: a)
  case (Cons kv b)
  have "\<forall>x \<in> set (setProp a (fst kv) (snd kv)). P (snd x)"
    using set_setProp [of a "fst kv" "snd kv"] Cons.prems by fastforce
  then have "\<forall>x \<in> set (setProp a (fst kv) (snd kv)) \<union> set b. P (snd x)" using Cons.prems by auto
  from Cons.IH [OF this] show ?case by (simp add: spread_def case_prod_beta)
qed (simp add: spread_def)

lemma sendable_json: "\<forall>kv \<in> set hs. headerText (snd kv) \<Longrightarrow> sendable (json verb status body hs)"
proof -
  assume "\<forall>kv \<in> set hs. headerText (snd kv)"
  moreover have "headerText ''application/json; charset=utf-8''" "headerText ''public, max-age=60''" by (simp_all add: headerText_def)
  ultimately show ?thesis
    unfolding sendable_def json_def Let_def list_all_iff res.simps by (intro spread_all) auto
qed

lemma sendable_refuse: "headerText code \<Longrightarrow> headerText message \<Longrightarrow> sendable (refuse verb status code message)"
  unfolding refuse_def by (rule sendable_json) simp

subsection \<open>Sources\<close>

definition urlFor :: "source \<Rightarrow> row \<Rightarrow> string" where
  "urlFor s f = (if src_kind s = ''huggingface.co'' then f_url f
     else if src_byDigest s then resolveWith s (f_address f) else resolveWith s (encodePath (f_path f)))"

text \<open>One source in a probe round: a drill marks it down, a source without the probe file is left up, else the bytes decide.\<close>

definition probeOne :: "string list \<Rightarrow> string \<Rightarrow> (source \<times> row) option \<Rightarrow> delivery \<Rightarrow> string \<Rightarrow> probeResult" where
  "probeOne forced kind found got now =
     (if kind \<in> set forced then \<lparr>p_ok = False, p_checked = Some now, p_reason = ''marked down for a drill''\<rparr>
      else case found of
        None \<Rightarrow> \<lparr>p_ok = True, p_checked = None, p_reason = ''no probe file on this source''\<rparr>
      | Some (s, f) \<Rightarrow> (case got of
          NoAnswer e \<Rightarrow> \<lparr>p_ok = False, p_checked = Some now, p_reason = take 80 e\<rparr>
        | Status n \<Rightarrow> \<lparr>p_ok = False, p_checked = Some now, p_reason = take 80 (''answered '' @ decimal n)\<rparr>
        | Stream cs ending \<Rightarrow> (case ending of
            Some e \<Rightarrow> \<lparr>p_ok = False, p_checked = Some now, p_reason = take 80 e\<rparr>
          | None \<Rightarrow> if ''sha256:'' @ hex (sha256 (concat cs)) \<noteq> f_address f
              then \<lparr>p_ok = False, p_checked = Some now, p_reason = ''served different bytes''\<rparr>
              else \<lparr>p_ok = True, p_checked = Some now, p_reason = ''verified''\<rparr>)))"

definition PROBE_FILE :: string where "PROBE_FILE = ''config.json''"

definition probe :: "string list \<Rightarrow> doc option \<Rightarrow> (string \<Rightarrow> delivery) \<Rightarrow> string \<Rightarrow> (string \<Rightarrow> probeResult) \<Rightarrow> (string \<Rightarrow> probeResult)" where
  "probe forced d get now health = (\<lambda>kind. if kind \<notin> set ORDER then health kind else
     (case d of
        None \<Rightarrow> probeOne forced kind None (NoAnswer []) now
      | Some d \<Rightarrow> (case (find (\<lambda>s. src_kind s = kind) (doc_sources d), find (\<lambda>f. f_path f = PROBE_FILE) (doc_files d)) of
          (Some s, Some f) \<Rightarrow> probeOne forced kind (Some (s, f)) (get (urlFor s f)) now
        | _ \<Rightarrow> probeOne forced kind None (NoAnswer []) now)))"

datatype choice = Denied string string | Chosen "source option" string

definition haveSources :: "doc \<Rightarrow> row \<Rightarrow> source list" where
  "haveSources d f = sort_key (\<lambda>s. indexOf ORDER (src_kind s))
     (filter (\<lambda>s. \<not> src_p2p s \<and> \<not> src_pull s \<and> src_kind s \<in> set ORDER \<and> f_path f \<notin> set (src_missing s)) (doc_sources d))"

definition chooseSource :: "(string \<Rightarrow> probeResult) \<Rightarrow> doc \<Rightarrow> row \<Rightarrow> string option \<Rightarrow> choice" where
  "chooseSource health d f via = (let have = haveSources d f in
     case via of
       Some v \<Rightarrow> (let offer = (if have \<noteq> [] then join '', '' (map src_kind have) else ''no source in this hub'' @ QUOTE # ''s index'') in
         if v \<notin> set ORDER then Denied ''UnknownSource'' (v @ '' is not a source this hub knows. It has '' @ join '', '' ORDER @ ''; for this file: '' @ offer @ ''.'')
         else (case find (\<lambda>s. src_kind s = v) have of
             None \<Rightarrow> Denied ''SourceHasNotGotIt'' (v @ '' does not hold '' @ f_path f @ '' of '' @ doc_id d @ ''. This file is on: '' @ offer
               @ ''. Drop the /via/ prefix to let the hub choose.'')
           | Some s \<Rightarrow> Chosen (Some s) ''asked for''))
     | None \<Rightarrow> (case find (\<lambda>s. p_ok (health (src_kind s))) have of
           Some s \<Rightarrow> Chosen (Some s) (if s = hd have then ''first choice'' else src_kind (hd have) @ '' is down'')
         | None \<Rightarrow> Chosen (case have of s # _ \<Rightarrow> Some s | [] \<Rightarrow> None) ''no source passed the last probe''))"

text \<open>\<open>const { source } = choose(\<dots>)\<close> where nothing looks at \<open>denied\<close>: without a source the next use of it throws.\<close>

definition sourceOnly :: "choice \<Rightarrow> source result" where
  "sourceOnly c = (case c of Chosen (Some s) _ \<Rightarrow> Inr s | _ \<Rightarrow> Inl TypeError)"

text \<open>The holders of the verifying edge: healthy ones first, then in order.\<close>

definition holders :: "(string \<Rightarrow> probeResult) \<Rightarrow> doc \<Rightarrow> row \<Rightarrow> string option \<Rightarrow> vholder list" where
  "holders health d f via =
     (let have = filter (\<lambda>s. \<not> src_p2p s \<and> \<not> src_pull s \<and> src_kind s \<in> set ORDER \<and> f_path f \<notin> set (src_missing s)
           \<and> (via = None \<or> via = Some (src_kind s))) (doc_sources d);
          srt = sort_key (\<lambda>s. (if p_ok (health (src_kind s)) then 0 else 4) + indexOf ORDER (src_kind s)) have
      in filter (\<lambda>h. h_url h \<noteq> []) (map (\<lambda>s. \<lparr>h_url = urlFor s f, h_kind = src_kind s\<rparr>) srt))"

subsection \<open>Listings\<close>

record lent =
  le_dir :: bool
  le_oid :: string
  le_size :: nat
  le_path :: string

definition fileEntry :: "row \<Rightarrow> lent" where
  "fileEntry f = \<lparr>le_dir = False, le_oid = digestOf (f_address f), le_size = f_size f, le_path = f_path f\<rparr>"

text \<open>\<open>dirs.get(d).update(text)\<close>: the text a folder's name is hashed over.\<close>

fun dirUpdate :: "(string \<times> string) list \<Rightarrow> string \<Rightarrow> string \<Rightarrow> (string \<times> string) list" where
  "dirUpdate [] d t = [(d, t)]"
| "dirUpdate ((d', t') # ds) d t = (if d' = d then (d', t' @ t) # ds else (d', t') # dirUpdate ds d t)"

definition partsOf :: "string \<Rightarrow> row \<Rightarrow> string list" where
  "partsOf dir f = splitAt (CHR ''/'') (drop (length dir) (f_path f))"

definition dirsOf :: "string \<Rightarrow> bool \<Rightarrow> row \<Rightarrow> string list" where
  "dirsOf dir recursive f = map (\<lambda>i. dir @ join ''/'' (take i (partsOf dir f)))
     (filter (\<lambda>i. recursive \<or> i = 1) [1..<length (partsOf dir f)])"

definition listStep :: "string \<Rightarrow> bool \<Rightarrow> lent list \<times> (string \<times> string) list \<Rightarrow> row \<Rightarrow> lent list \<times> (string \<times> string) list" where
  "listStep dir recursive st f = (case st of (out, dirs) \<Rightarrow>
     (if \<not> recursive \<and> length (partsOf dir f) > 1 then out else out @ [fileEntry f],
      foldl (\<lambda>ds d. dirUpdate ds d (f_path f @ '' '' @ f_address f @ [CHR 0x0A])) dirs (dirsOf dir recursive f)))"

definition listing :: "row list \<Rightarrow> string \<Rightarrow> bool \<Rightarrow> lent list" where
  "listing files dir recursive = (case foldl (listStep dir recursive) ([], []) files of (out, dirs) \<Rightarrow>
     sort_key le_path (out @ map (\<lambda>(d, t). \<lparr>le_dir = True, le_oid = hex (sha1 (utf8 t)), le_size = 0, le_path = d\<rparr>) dirs))"

definition lentJson :: "lent \<Rightarrow> json" where
  "lentJson e = (if le_dir e
     then JObj [(''type'', JStr ''directory''), (''oid'', JStr (le_oid e)), (''size'', JNum 0), (''path'', JStr (le_path e))]
     else JObj [(''type'', JStr ''file''), (''oid'', JStr (le_oid e)), (''size'', JNum (int (le_size e))), (''path'', JStr (le_path e)),
       (''lfs'', JObj [(''oid'', JStr (le_oid e)), (''size'', JNum (int (le_size e))), (''pointerSize'', JNum 0)])])"

subsection \<open>What is said of a model\<close>

definition revisionOk :: "doc \<Rightarrow> string \<Rightarrow> bool" where
  "revisionOk d rv \<longleftrightarrow> rv = ''main'' \<or> (length rv \<ge> 7 \<and> startsWith (doc_revision d) rv)"

definition trust :: "edge \<Rightarrow> doc \<Rightarrow> json" where
  "trust v d = (case doc_records d of
     Some (index, url) \<Rightarrow> JObj [(''index'', JStr index), (''records_url'', JStr url),
       (''check'', JStr ''every digest here is a record reached from index; fetch records_url and compare'')]
   | None \<Rightarrow> if startsWith (doc_manifest d) ''blake3:'' \<and> isHex64 (drop 7 (doc_manifest d))
       then JObj [(''manifest'', JStr (doc_manifest d)), (''manifest_url'', JStr (v_api v @ ''/v1/manifests/'' @ drop 7 (doc_manifest d) @ ''.json'')),
         (''check'', JStr (''blake3 of manifest_url'' @ QUOTE # ''s bytes equals manifest; its files equal this model'' @ QUOTE # ''s tree''))]
       else JObj [(''manifest'', if doc_manifest d = [] then JNull else JStr (doc_manifest d))])"

text \<open>\<open>/^[\\w.-]+\\/[\\w.-]+$/\<close>.\<close>

definition isIdPart :: "string \<Rightarrow> bool" where
  "isIdPart s \<longleftrightarrow> s \<noteq> [] \<and> list_all (\<lambda>c. isDigit c \<or> (CHR ''a'' \<le> c \<and> c \<le> CHR ''z'') \<or> (CHR ''A'' \<le> c \<and> c \<le> CHR ''Z'') \<or> c \<in> set ''_.-'') s"

definition isModelId :: "string \<Rightarrow> bool" where
  "isModelId s \<longleftrightarrow> (case splitAt (CHR ''/'') s of [a, b] \<Rightarrow> isIdPart a \<and> isIdPart b | _ \<Rightarrow> False)"

definition requested :: "string \<Rightarrow> string list" where
  "requested i = (if isModelId i then [i] else [])"

definition missingModel :: "edge \<Rightarrow> string \<Rightarrow> string \<Rightarrow> outcome \<times> string list" where
  "missingModel v verb i = (if v_gated v i
     then (Reply (refuse verb 403 ''GatedRepo'' (i @ '' is gated on Hugging Face. The hub serves public models only; use huggingface.co directly for this one.'')), [])
     else (Reply (refuse verb 404 ''RepoNotFound'' (i @ '' is not in the Hologram index yet. The request was recorded for the next index run; use huggingface.co directly meanwhile.'')), requested i))"

definition noRevision :: "string \<Rightarrow> doc \<Rightarrow> res" where
  "noRevision verb d = refuse verb 404 ''RevisionNotFound'' (''The hub has '' @ doc_id d @ '' at '' @ doc_revision d @ '' only.'')"

definition param :: "req \<Rightarrow> string \<Rightarrow> string option" where
  "param q k = map_of (q_query q) k"

definition headerOf :: "req \<Rightarrow> string \<Rightarrow> string option" where
  "headerOf q k = map_of (q_heads q) k"

text \<open>\<open>req.headers[a] || req.headers[b] || \<dots>\<close>: the first that is there and not empty.\<close>

fun hostOf :: "req \<Rightarrow> string list \<Rightarrow> string \<Rightarrow> string" where
  "hostOf q [] d = d"
| "hostOf q (k # ks) d = (case headerOf q k of Some h \<Rightarrow> if h = [] then hostOf q ks d else h | None \<Rightarrow> hostOf q ks d)"

definition yes :: "string option \<Rightarrow> bool" where
  "yes s \<longleftrightarrow> s = Some ''true'' \<or> s = Some ''1''"

subsection \<open>Which source\<close>

lemma haveSources_set: "set (haveSources d f) = {s \<in> set (doc_sources d). \<not> src_p2p s \<and> \<not> src_pull s \<and> src_kind s \<in> set ORDER \<and> f_path f \<notin> set (src_missing s)}"
  by (auto simp: haveSources_def)

lemma haveSources_sorted: "sorted (map (\<lambda>s. indexOf ORDER (src_kind s)) (haveSources d f))"
  by (simp add: haveSources_def)

lemma sorted_find_le:
  assumes "sorted (map g xs)" and "find P xs = Some x" and "y \<in> set xs" and "P y"
  shows "g x \<le> g y"
  using assms by (induction xs) (auto split: if_splits)

lemma choose_pinned: "chooseSource health d f (Some k) = Chosen c why \<Longrightarrow> \<exists>s. c = Some s \<and> s \<in> set (haveSources d f) \<and> src_kind s = k"
  by (auto simp: chooseSource_def Let_def find_Some_iff split: if_splits option.splits)

lemma find_NoneD: "find P xs = None \<Longrightarrow> x \<in> set xs \<Longrightarrow> \<not> P x"
  by (simp add: find_None_iff)

lemma choose_free:
  assumes "chooseSource health d f None = Chosen c why"
  shows "c = None \<and> haveSources d f = [] \<or> (\<exists>s. c = Some s \<and> s \<in> set (haveSources d f) \<and>
     (\<forall>t \<in> set (haveSources d f). p_ok (health (src_kind t)) \<longrightarrow> p_ok (health (src_kind s)) \<and> indexOf ORDER (src_kind s) \<le> indexOf ORDER (src_kind t)))"
proof (cases "find (\<lambda>s. p_ok (health (src_kind s))) (haveSources d f)")
  case None
  then have "\<forall>t \<in> set (haveSources d f). \<not> p_ok (health (src_kind t))" by (simp add: find_None_iff)
  moreover have "c = (case haveSources d f of s # _ \<Rightarrow> Some s | [] \<Rightarrow> None)" using assms None by (simp add: chooseSource_def Let_def)
  ultimately show ?thesis by (cases "haveSources d f") auto
next
  case (Some s)
  then have "c = Some s" using assms by (simp add: chooseSource_def Let_def)
  moreover have "indexOf ORDER (src_kind s) \<le> indexOf ORDER (src_kind t)" if "t \<in> set (haveSources d f)" "p_ok (health (src_kind t))" for t
    using sorted_find_le [OF haveSources_sorted Some, of t] that by simp
  ultimately show ?thesis using Some by (auto simp: find_Some_iff)
qed

subsection \<open>Headers\<close>

lemma map_of_spread: "map_of (spread base extra) k = (case map_of (rev extra) k of Some v \<Rightarrow> Some v | None \<Rightarrow> map_of base k)"
proof (induction extra arbitrary: base)
  case (Cons e extra)
  then show ?case by (cases e) (auto simp: spread_def map_of_setProp map_add_def split: option.splits)
qed (simp add: spread_def)

subsection \<open>What a listing holds\<close>

definition dirLine :: "row \<Rightarrow> string" where
  "dirLine f = f_path f @ '' '' @ f_address f @ [CHR 0x0A]"

lemma map_of_dirUpdate: "map_of (dirUpdate ds d t) x = (if x = d then Some ((case map_of ds d of None \<Rightarrow> [] | Some u \<Rightarrow> u) @ t) else map_of ds x)"
  by (induction ds d t rule: dirUpdate.induct) auto

lemma dirUpdate_keys: "fst ` set (dirUpdate ds d t) = insert d (fst ` set ds) \<and> (distinct (map fst ds) \<longrightarrow> distinct (map fst (dirUpdate ds d t)))"
  by (induction ds d t rule: dirUpdate.induct) auto

lemma dirUpdates:
  assumes "distinct xs"
  shows "map_of (foldl (\<lambda>ds d. dirUpdate ds d t) ds xs) x
      = (if x \<in> set xs then Some ((case map_of ds x of None \<Rightarrow> [] | Some u \<Rightarrow> u) @ t) else map_of ds x)"
    and "fst ` set (foldl (\<lambda>ds d. dirUpdate ds d t) ds xs) = fst ` set ds \<union> set xs"
    and "distinct (map fst ds) \<Longrightarrow> distinct (map fst (foldl (\<lambda>ds d. dirUpdate ds d t) ds xs))"
  using assms by (induction xs arbitrary: ds) (auto simp: map_of_dirUpdate dirUpdate_keys split: option.splits)

lemma join_snoc: "xs \<noteq> [] \<Longrightarrow> join sep (xs @ [y]) = join sep xs @ sep @ y"
proof (induction sep xs rule: join.induct)
  case (3 sep x y' xs)
  then show ?case by simp
qed auto

lemma length_join_take: "i < j \<Longrightarrow> j \<le> length ps \<Longrightarrow> 0 < i \<Longrightarrow> length (join ''/'' (take i ps)) < length (join ''/'' (take j ps))"
proof (induction j)
  case (Suc j)
  have "take (Suc j) ps = take j ps @ [ps ! j]" using Suc.prems by (simp add: take_Suc_conv_app_nth)
  moreover have "take j ps \<noteq> []" using Suc.prems by auto
  ultimately have "length (join ''/'' (take j ps)) < length (join ''/'' (take (Suc j) ps))" by (simp add: join_snoc)
  then show ?case using Suc by (cases "i = j") auto
qed simp

lemma distinct_dirsOf: "distinct (dirsOf dir r f)"
proof -
  define g where "g = (\<lambda>i. dir @ join ''/'' (take i (partsOf dir f)))"
  have inj: "i = j" if "0 < i" "i \<le> length (partsOf dir f)" "0 < j" "j \<le> length (partsOf dir f)" "g i = g j" for i j
  proof (rule ccontr)
    assume "i \<noteq> j"
    then consider "i < j" | "j < i" by linarith
    then show False
      using length_join_take [of i j "partsOf dir f"] length_join_take [of j i "partsOf dir f"] that by cases (simp_all add: g_def)
  qed
  have "distinct (map g (filter (\<lambda>i. r \<or> i = 1) [1..<length (partsOf dir f)]))"
    unfolding distinct_map by (intro conjI inj_onI) (simp_all, (intro inj; simp))
  then show ?thesis by (simp only: dirsOf_def g_def)
qed

definition dirText :: "string \<Rightarrow> bool \<Rightarrow> row list \<Rightarrow> string \<Rightarrow> string" where
  "dirText dir r fs d = concat (map dirLine (filter (\<lambda>f. d \<in> set (dirsOf dir r f)) fs))"

lemma listStep_fold:
  assumes "foldl (listStep dir r) ([], []) fs = (out, dirs)"
  shows "out = map fileEntry (filter (\<lambda>f. r \<or> length (partsOf dir f) \<le> 1) fs)
    \<and> fst ` set dirs = (\<Union>f \<in> set fs. set (dirsOf dir r f)) \<and> distinct (map fst dirs)
    \<and> (\<forall>d t. map_of dirs d = Some t \<longrightarrow> t = dirText dir r fs d)"
  using assms
proof (induction fs arbitrary: out dirs rule: rev_induct)
  case (snoc f fs)
  obtain out0 dirs0 where o: "foldl (listStep dir r) ([], []) fs = (out0, dirs0)" by fastforce
  have step: "listStep dir r (out0, dirs0) f = (out, dirs)" using snoc.prems o by simp
  have d: "dirs = foldl (\<lambda>ds d. dirUpdate ds d (dirLine f)) dirs0 (dirsOf dir r f)"
    and out: "out = (if \<not> r \<and> length (partsOf dir f) > 1 then out0 else out0 @ [fileEntry f])"
    using step by (auto simp: listStep_def dirLine_def)
  note IH = snoc.IH [OF o]
  note U = dirUpdates [OF distinct_dirsOf [of dir r f], where ds = dirs0 and t = "dirLine f"]
  have "t = dirText dir r (fs @ [f]) x" if "map_of dirs x = Some t" for x t
  proof (cases "map_of dirs0 x")
    case None
    then have "x \<notin> fst ` set dirs0" by (simp add: map_of_eq_None_iff)
    then have "\<forall>g \<in> set fs. x \<notin> set (dirsOf dir r g)" using IH by auto
    then have "filter (\<lambda>g. x \<in> set (dirsOf dir r g)) fs = []" by (simp add: filter_empty_conv)
    then show ?thesis using that None U(1) [of x] by (auto simp: d dirText_def split: if_splits)
  next
    case (Some u)
    then have "u = dirText dir r fs x" using IH by blast
    then show ?thesis using that Some U(1) [of x] by (auto simp: d dirText_def split: if_splits)
  qed
  then show ?case using IH U(2,3) by (auto simp: out d)
qed (auto simp: dirText_def)

lemma listing_parts:
  obtains dirs where "mset (listing fs dir r) = mset (map fileEntry (filter (\<lambda>f. r \<or> length (partsOf dir f) \<le> 1) fs)
       @ map (\<lambda>(d, t). \<lparr>le_dir = True, le_oid = hex (sha1 (utf8 t)), le_size = 0, le_path = d\<rparr>) dirs)"
    and "sorted (map le_path (listing fs dir r))" and "distinct (map fst dirs)"
    and "fst ` set dirs = (\<Union>f \<in> set fs. set (dirsOf dir r f))" and "\<And>d t. (d, t) \<in> set dirs \<Longrightarrow> t = dirText dir r fs d"
proof -
  obtain out dirs where o: "foldl (listStep dir r) ([], []) fs = (out, dirs)" by fastforce
  note L = listStep_fold [OF o]
  show ?thesis
    by (rule that [of dirs]) (use L o in \<open>auto simp: listing_def intro: map_of_is_SomeI\<close>)
qed

text \<open>The folders beneath \<open>dir\<close> that a file lies in, said of its path alone; without \<open>recursive\<close> only the first.\<close>

definition inFolder :: "string \<Rightarrow> bool \<Rightarrow> string \<Rightarrow> row \<Rightarrow> bool" where
  "inFolder dir r d f \<longleftrightarrow> (\<exists>s rest. d = dir @ s \<and> f_path f = dir @ s @ CHR ''/'' # rest \<and> (r \<or> CHR ''/'' \<notin> set s))"

lemma splitAt_append: "splitAt c (s @ c # t) = splitAt c s @ splitAt c t"
proof (induction s)
  case (Cons x s)
  then show ?case using splitAt_nonempty [of c s] by (cases "splitAt c s") auto
qed simp

lemma join_splitAt: "join [c] (splitAt c s) = s"
proof (induction s)
  case (Cons x s)
  then show ?case using splitAt_nonempty [of c s] by (cases "splitAt c s"; cases "tl (splitAt c s)") auto
qed simp

lemma join_append: "xs \<noteq> [] \<Longrightarrow> ys \<noteq> [] \<Longrightarrow> join sep (xs @ ys) = join sep xs @ sep @ join sep ys"
proof (induction sep xs rule: join.induct)
  case (2 sep x)
  then show ?case by (cases ys) auto
qed auto

lemma length_splitAt: "length (splitAt c s) = Suc (count_list s c)"
proof (induction s)
  case (Cons x s)
  then show ?case using splitAt_nonempty [of c s] by (cases "splitAt c s") auto
qed simp

lemma splitAt_free: "p \<in> set (splitAt c s) \<Longrightarrow> c \<notin> set p"
proof (induction s arbitrary: p)
  case (Cons x s)
  obtain q qs where "splitAt c s = q # qs" using splitAt_nonempty [of c s] by (cases "splitAt c s") auto
  then show ?case using Cons.IH [of q] Cons.IH [of p] Cons.prems by (auto split: if_splits)
qed simp

lemma one_part: "length (splitAt c s) \<le> 1 \<longleftrightarrow> c \<notin> set s"
  by (simp add: length_splitAt count_list_0_iff)

lemma dirsOf_inFolder:
  assumes "prefix dir (f_path f)"
  shows "d \<in> set (dirsOf dir r f) \<longleftrightarrow> inFolder dir r d f"
proof -
  obtain x where x: "f_path f = dir @ x" using assms by (auto simp: prefix_def)
  have ps: "partsOf dir f = splitAt (CHR ''/'') x" by (simp add: partsOf_def x)
  show ?thesis
  proof
    assume "d \<in> set (dirsOf dir r f)"
    then obtain i where i: "d = dir @ join ''/'' (take i (partsOf dir f))" "1 \<le> i" "i < length (partsOf dir f)" "r \<or> i = 1"
      by (auto simp: dirsOf_def)
    let ?p = "splitAt (CHR ''/'') x"
    have ne: "take i ?p \<noteq> []" "drop i ?p \<noteq> []" using i ps by auto
    have "x = join ''/'' (take i ?p @ drop i ?p)" by (simp add: join_splitAt)
    then have cut: "x = join ''/'' (take i ?p) @ CHR ''/'' # join ''/'' (drop i ?p)" using join_append [OF ne, of "''/''"] by simp
    have "r \<or> CHR ''/'' \<notin> set (join ''/'' (take i ?p))"
    proof (cases "i = 1")
      case True
      then have "join ''/'' (take i ?p) = hd ?p" using ne by (cases ?p) auto
      moreover have "hd ?p \<in> set ?p" by simp
      ultimately show ?thesis using splitAt_free [of "hd ?p"] by metis
    next
      case False
      then show ?thesis using i(4) by simp
    qed
    then show "inFolder dir r d f" unfolding inFolder_def using i(1) cut x ps by auto
  next
    assume "inFolder dir r d f"
    then obtain s rest where s: "d = dir @ s" "x = s @ CHR ''/'' # rest" "r \<or> CHR ''/'' \<notin> set s"
      using x by (auto simp: inFolder_def)
    define i where "i = length (splitAt (CHR ''/'') s)"
    have p: "partsOf dir f = splitAt (CHR ''/'') s @ splitAt (CHR ''/'') rest" by (simp add: ps s(2) splitAt_append)
    have "0 < i" "0 < length (splitAt (CHR ''/'') rest)" by (simp_all add: i_def)
    moreover have "r \<or> i = 1" using s(3) by (auto simp: i_def splitAt_none)
    moreover have "d = dir @ join ''/'' (take i (partsOf dir f))" by (simp add: p i_def s(1) join_splitAt)
    ultimately show "d \<in> set (dirsOf dir r f)" using p by (auto simp: dirsOf_def i_def Suc_le_eq intro!: image_eqI [of _ _ i])
  qed
qed

definition dirEntry :: "string \<Rightarrow> bool \<Rightarrow> row list \<Rightarrow> string \<Rightarrow> lent" where
  "dirEntry dir r fs d = \<lparr>le_dir = True, le_oid = hex (sha1 (utf8 (concat (map dirLine (filter (inFolder dir r d) fs))))), le_size = 0, le_path = d\<rparr>"

text \<open>
  C31. A folder listing is sorted by path and is exactly this: one entry per file under the folder (with \<open>recursive\<close>
  every one; without, those whose path has no further slash), and one entry, once, per folder beneath that some file
  lies in (without \<open>recursive\<close>, per direct one): a beginning of a path before a slash. A folder's oid is the SHA-1 of
  the lines \<open>path address\<close> of the files it holds, in the order of the index.
\<close>

theorem listing_spec:
  assumes "\<forall>f \<in> set fs. prefix dir (f_path f)"
  shows "sorted (map le_path (listing fs dir r))
   \<and> mset (filter (\<lambda>e. \<not> le_dir e) (listing fs dir r)) = mset (map fileEntry (filter (\<lambda>f. r \<or> CHR ''/'' \<notin> set (drop (length dir) (f_path f))) fs))
   \<and> distinct (map le_path (filter le_dir (listing fs dir r)))
   \<and> set (filter le_dir (listing fs dir r)) = dirEntry dir r fs ` {d. \<exists>f \<in> set fs. inFolder dir r d f}"
proof -
  let ?L = "listing fs dir r" and ?mk = "\<lambda>(d, t). \<lparr>le_dir = True, le_oid = hex (sha1 (utf8 t)), le_size = 0, le_path = d\<rparr>"
  obtain dirs where m: "mset ?L = mset (map fileEntry (filter (\<lambda>f. r \<or> length (partsOf dir f) \<le> 1) fs) @ map ?mk dirs)"
    and s: "sorted (map le_path ?L)" and d: "distinct (map fst dirs)"
    and k: "fst ` set dirs = (\<Union>f \<in> set fs. set (dirsOf dir r f))" and t: "\<And>d t. (d, t) \<in> set dirs \<Longrightarrow> t = dirText dir r fs d"
    by (rule listing_parts [of fs dir r]) blast
  have nofile: "\<not> le_dir (fileEntry f)" for f by (simp add: fileEntry_def)
  have flt: "mset (filter P ?L) = mset (filter P (map fileEntry (filter (\<lambda>f. r \<or> length (partsOf dir f) \<le> 1) fs) @ map ?mk dirs))" for P
    using m by (metis mset_filter)
  have nf: "filter le_dir (map fileEntry xs) = [] \<and> filter (\<lambda>e. \<not> le_dir e) (map fileEntry xs) = map fileEntry xs" for xs
    using nofile by (induction xs) auto
  have nd: "filter le_dir (map ?mk ds) = map ?mk ds \<and> filter (\<lambda>e. \<not> le_dir e) (map ?mk ds) = []" for ds
    by (induction ds) auto
  have D: "mset (filter le_dir ?L) = mset (map ?mk dirs)" using flt [of le_dir] nf nd by simp
  have "mset (map le_path (filter le_dir ?L)) = mset (map fst dirs)"
    using arg_cong [OF D, of "image_mset le_path"] by (simp add: multiset.map_comp comp_def case_prod_beta)
  then have "distinct (map le_path (filter le_dir ?L))" using d by (metis mset_eq_imp_distinct_iff)
  moreover have "set (filter le_dir ?L) = ?mk ` set dirs" using mset_eq_setD [OF D] by simp
  moreover have "?mk ` set dirs = dirEntry dir r fs ` fst ` set dirs"
  proof -
    have "dirText dir r fs d = concat (map dirLine (filter (inFolder dir r d) fs))" for d
      unfolding dirText_def by (rule arg_cong [where f = "\<lambda>xs. concat (map dirLine xs)"], rule filter_cong) (use assms in \<open>simp_all add: dirsOf_inFolder\<close>)
    then have "?mk x = dirEntry dir r fs (fst x)" if "x \<in> set dirs" for x
      using t [of "fst x" "snd x"] that by (simp add: dirEntry_def case_prod_beta)
    then show ?thesis by (simp add: image_image cong: image_cong)
  qed
  moreover have "fst ` set dirs = {d. \<exists>f \<in> set fs. inFolder dir r d f}"
    unfolding k using assms by (auto simp: dirsOf_inFolder)
  moreover have "filter (\<lambda>f. r \<or> length (partsOf dir f) \<le> 1) fs = filter (\<lambda>f. r \<or> CHR ''/'' \<notin> set (drop (length dir) (f_path f))) fs"
    by (simp only: partsOf_def one_part)
  ultimately show ?thesis using s flt [of "\<lambda>e. \<not> le_dir e"] nf nd by simp
qed

definition twoRows :: "row list" where
  "twoRows = [\<lparr>f_path = ''a/b/c'', f_size = 1, f_address = ''sha256:00'', f_weights = False, f_url = ''u''\<rparr>,
     \<lparr>f_path = ''a/d'', f_size = 2, f_address = ''sha256:11'', f_weights = False, f_url = ''v''\<rparr>]"

theorem listing_spec_witness:
  "sorted (map le_path (listing twoRows ''a/'' False)) \<and> mset (filter (\<lambda>e. \<not> le_dir e) (listing twoRows ''a/'' False)) = {#fileEntry (twoRows ! 1)#}"
  using listing_spec [of twoRows "''a/''" False] by (simp add: twoRows_def)

end
