(* ===== verification/Mirror.thy ===== *)
theory Mirror
  imports Records Resolve "HOL-Library.AList"
begin

text \<open>
  The tensor mirror, \<open>deploy/tensor-mirror.mjs\<close>: what the process keeps of the published index, the
  summaries and records it answers, the references of a model, and the blob route that redirects a file or
  rebuilds it. The disk at the time of a request is an argument, with its files read as the values they
  hold; the clock, the probe of Hugging Face and the reads of a rebuild come with the request.
\<close>

subsection \<open>The published index\<close>

datatype 'a stored = Absent | Broken | Has 'a

record relation =
  rl_a :: string
  rl_b :: string
  rl_bytes :: nat
  rl_tensors :: nat
  rl_same :: bool
  rl_licence :: bool

record dayRoot =
  dr_edges :: "relation list"
  dr_same :: "string list list"
  dr_day :: "string option"
  dr_digest :: string
  dr_car :: "string option"

record coverage =
  cv_pinned :: nat
  cv_total :: nat
  cv_sample :: "(string \<times> string \<times> nat) option"

type_synonym sourceRow = "string \<times> string \<times> string \<times> string \<times> nat \<times> nat"
type_synonym models = "(string \<times> kmodel) list"
type_synonym alternatives = "(string \<times> (place \<times> nat) list) list"

record tstate =
  ts_at :: int
  ts_mtime :: int
  ts_models :: models
  ts_alts :: alternatives
  ts_lower :: "(string \<times> string) list"
  ts_root :: "dayRoot option"
  ts_coverage :: "(string \<times> coverage) list"

text \<open>\<open>models.json\<close> with its time, the source files, the pins (\<open>\<kappa>\<close>, CID, length), \<open>latest.json\<close>, the day's CAR, the objects.\<close>

record disk =
  dk_models :: "(int \<times> models stored) option"
  dk_sources :: "sourceRow list stored list"
  dk_pins :: "(string \<times> string \<times> nat) list stored"
  dk_latest :: "string stored"
  dk_car :: "(string \<times> string) stored"
  dk_objects :: "string \<Rightarrow> bytes option"

definition isAddr :: "string \<Rightarrow> bool" where
  "isAddr d \<longleftrightarrow> startsWith d ''sha256:'' \<and> isHex64 (drop 7 d)"

definition held :: "disk \<Rightarrow> string \<Rightarrow> bytes option" where
  "held dk d = (if \<not> isAddr d then None else case dk_objects dk (drop 7 d) of
     Some b \<Rightarrow> if named b = d then Some b else None | None \<Rightarrow> None)"

text \<open>\<open>JSON.parse((await held(d))?.toString("utf8") || "null")\<close>.\<close>

definition heldJson :: "disk \<Rightarrow> string \<Rightarrow> json result" where
  "heldJson dk d = (case held dk d of None \<Rightarrow> Inr JNull | Some b \<Rightarrow> if b = [] then Inr JNull
     else (case parse (decodeText b) of Some v \<Rightarrow> Inr v | None \<Rightarrow> Inl SyntaxError))"

definition boolProp :: "string \<Rightarrow> json \<Rightarrow> bool" where
  "boolProp k v \<longleftrightarrow> \<not> falsy (getProp k v)"

definition readRelation :: "json \<Rightarrow> relation option" where
  "readRelation v = (case (textProp ''a'' v, textProp ''b'' v, natProp ''bytes'' v, natProp ''tensors'' v) of
     (Some a, Some b, Some n, Some t) \<Rightarrow> Some \<lparr>rl_a = a, rl_b = b, rl_bytes = n, rl_tensors = t, rl_same = boolProp ''sameWeights'' v, rl_licence = boolProp ''licenceDiffers'' v\<rparr>
   | _ \<Rightarrow> None)"

definition readTexts :: "json \<Rightarrow> string list option" where
  "readTexts v = (case v of JArr xs \<Rightarrow> allSome (map (\<lambda>x. case x of JStr t \<Rightarrow> Some t | _ \<Rightarrow> None) xs) | _ \<Rightarrow> None)"

definition readRoot :: "string \<Rightarrow> json \<Rightarrow> dayRoot option" where
  "readRoot digest v = (let es = (case arrayProp ''edges'' v of Some xs \<Rightarrow> xs | None \<Rightarrow> []); gs = (case arrayProp ''sameWeights'' v of Some xs \<Rightarrow> xs | None \<Rightarrow> []) in
     case (v, allSome (map readRelation es), allSome (map readTexts gs)) of
       (JObj _, Some e, Some g) \<Rightarrow> Some \<lparr>dr_edges = e, dr_same = g, dr_day = textProp ''day'' v, dr_digest = digest, dr_car = None\<rparr>
     | _ \<Rightarrow> None)"

subsection \<open>Loading it\<close>

record menv =
  me_origin :: string
  me_gateway :: string
  me_ipfs :: "string list"

definition pushAlt :: "string \<Rightarrow> place \<times> nat \<Rightarrow> alternatives \<Rightarrow> alternatives" where
  "pushAlt k a alts = AList.map_default k [a] (\<lambda>xs. xs @ [a]) alts"

definition gatedIn :: "models \<Rightarrow> string \<Rightarrow> bool" where
  "gatedIn ms repo \<longleftrightarrow> (case map_of ms repo of Some m \<Rightarrow> md_gated m | None \<Rightarrow> False)"

type_synonym lens = "(string \<times> (string \<times> nat) list) list"

definition sourceStep :: "models \<Rightarrow> alternatives \<times> lens \<Rightarrow> sourceRow \<Rightarrow> alternatives \<times> lens" where
  "sourceStep ms st row = (case (st, row) of ((alts, ls), (k, repo, rv, path, off, len)) \<Rightarrow>
     if \<not> gatedIn ms repo then (alts, ls)
     else (pushAlt k (InFile repo rv path off, len) alts, AList.map_default repo [(k, len)] (AList.update k len) ls))"

text \<open>All rows of all source files; a file that is no JSON throws.\<close>

fun sourceRows :: "sourceRow list stored list \<Rightarrow> sourceRow list option" where
  "sourceRows [] = Some []"
| "sourceRows (Has rows # fs) = map_option ((@) rows) (sourceRows fs)"
| "sourceRows (_ # fs) = None"

definition pinPlace :: "string \<Rightarrow> string \<times> string \<times> nat \<Rightarrow> alternatives \<Rightarrow> alternatives" where
  "pinPlace gw p alts = (case p of (k, cid, len) \<Rightarrow> pushAlt k (AtUrl (noTrailingSlash gw @ ''/ipfs/'' @ cid) 0, len) alts)"

definition coverStep :: "(string \<times> string \<times> nat) list \<Rightarrow> coverage \<Rightarrow> string \<times> nat \<Rightarrow> coverage" where
  "coverStep pins c e = (case (e, map_of pins (fst e)) of
     ((k, len), Some (cid, _)) \<Rightarrow> c\<lparr>cv_pinned := cv_pinned c + 1,
        cv_sample := (if 0 < len \<and> (case cv_sample c of None \<Rightarrow> True | Some (_, _, n) \<Rightarrow> len < n) then Some (k, cid, len) else cv_sample c)\<rparr>
   | _ \<Rightarrow> c)"

definition coverageOf :: "(string \<times> string \<times> nat) list \<Rightarrow> (string \<times> nat) list \<Rightarrow> coverage" where
  "coverageOf pins ks = foldl (coverStep pins) \<lparr>cv_pinned = 0, cv_total = length ks, cv_sample = None\<rparr> ks"

definition rootOf :: "disk \<Rightarrow> dayRoot option" where
  "rootOf dk = (case dk_latest dk of Has digest \<Rightarrow> (case heldJson dk digest of
       Inr v \<Rightarrow> (case (readRoot digest v, dk_car dk) of
           (None, _) \<Rightarrow> None
         | (Some r, Broken) \<Rightarrow> None
         | (Some r, Absent) \<Rightarrow> Some r
         | (Some r, Has (seal', car)) \<Rightarrow> Some (if seal' = digest then r\<lparr>dr_car := Some car\<rparr> else r))
     | Inl _ \<Rightarrow> None)
   | _ \<Rightarrow> None)"

definition STATE_KEEP :: int where "STATE_KEEP = 30000"

definition published :: "menv \<Rightarrow> int \<Rightarrow> disk \<Rightarrow> int \<Rightarrow> models \<Rightarrow> tstate option" where
  "published env now dk mtime ms = (case (sourceRows (dk_sources dk), dk_pins dk) of
     (None, _) \<Rightarrow> None
   | (_, Broken) \<Rightarrow> None
   | (Some rows, pf) \<Rightarrow> (let pins = (case pf of Has ps \<Rightarrow> ps | _ \<Rightarrow> []); (alts, ls) = foldl (sourceStep ms) ([], []) rows in
       Some \<lparr>ts_at = now, ts_mtime = mtime, ts_models = ms,
         ts_alts = (if me_gateway env = [] then alts else fold (pinPlace (me_gateway env)) pins alts),
         ts_lower = fold (\<lambda>(r, _). AList.update (lower r) r) ms [], ts_root = rootOf dk, ts_coverage = map (\<lambda>(r, ks). (r, coverageOf pins ks)) ls\<rparr>))"

definition loadState :: "menv \<Rightarrow> int \<Rightarrow> disk \<Rightarrow> tstate \<Rightarrow> tstate" where
  "loadState env now dk st = (if now - ts_at st < STATE_KEEP then st else
     (case dk_models dk of None \<Rightarrow> st\<lparr>ts_at := now\<rparr>
      | Some (mtime, f) \<Rightarrow> if mtime = ts_mtime st then st\<lparr>ts_at := now\<rparr> else
          (case f of Has ms \<Rightarrow> (case published env now dk mtime ms of Some st' \<Rightarrow> st' | None \<Rightarrow> st\<lparr>ts_at := now\<rparr>) | _ \<Rightarrow> st\<lparr>ts_at := now\<rparr>)))"

text \<open>A model by its name in any capitals, if it may be served.\<close>

definition repoOf :: "tstate \<Rightarrow> string \<Rightarrow> string option" where
  "repoOf st name = (if map_of (ts_models st) name \<noteq> None then Some name else map_of (ts_lower st) (lower name))"

definition servedModel :: "tstate \<Rightarrow> string \<Rightarrow> (string \<times> kmodel) option" where
  "servedModel st name = (case repoOf st name of None \<Rightarrow> None | Some r \<Rightarrow> (case map_of (ts_models st) r of
     Some m \<Rightarrow> if md_gated m then Some (r, m) else None | None \<Rightarrow> None))"

subsection \<open>References\<close>

definition FORMAT_TAG :: "(string \<times> string) list" where
  "FORMAT_TAG = [(''safetensors'', ''safetensors''), (''sharded'', ''safetensors-sharded''), (''safetensors-sharded'', ''safetensors-sharded''), (''original'', ''original'')]"

definition formatDigest :: "kmodel \<Rightarrow> string \<Rightarrow> string option" where
  "formatDigest m f = (case map_of (md_manifests m) f of Some d \<Rightarrow> if d = [] then None else Some d | None \<Rightarrow> None)"

definition resolveRef :: "kmodel \<Rightarrow> string \<Rightarrow> string option" where
  "resolveRef m ref = (if startsWith ref ''sha256:'' then Some ref
     else if ref = md_rev m \<or> ref = ''index'' then Some (md_index m)
     else if ref = ''main'' \<or> ref = ''latest'' then (case formatDigest m ''safetensors'' of Some d \<Rightarrow> Some d | None \<Rightarrow> formatDigest m ''original'')
     else case (case map_of FORMAT_TAG ref of Some f \<Rightarrow> formatDigest m f | None \<Rightarrow> None) of
       Some d \<Rightarrow> Some d
     | None \<Rightarrow> map_option snd (find (\<lambda>e. ref = ''main-'' @ fst e \<or> ref = md_rev m @ ''-'' @ fst e) (md_manifests m)))"

definition knownDigest :: "kmodel \<Rightarrow> string option \<Rightarrow> bool" where
  "knownDigest m d \<longleftrightarrow> (case d of Some x \<Rightarrow> x \<noteq> [] \<and> (x = md_index m \<or> x \<in> snd ` set (md_manifests m)) | None \<Rightarrow> False)"

subsection \<open>Answers\<close>

definition sayJson :: "string \<Rightarrow> json \<Rightarrow> (string \<times> string) list \<Rightarrow> res" where
  "sayJson verb v extra = (let text = utf8 (stringify v) in
     \<lparr>o_status = 200, o_headers = [(''content-type'', ''application/json''), (''content-length'', decimal (length text))] @ extra,
      o_body = (if verb = ''HEAD'' then [] else text)\<rparr>)"

definition FRESH :: "(string \<times> string) list" where "FRESH = [(''cache-control'', ''public, max-age=300'')]"

definition mirrorError :: "string \<Rightarrow> nat \<Rightarrow> string \<Rightarrow> string \<Rightarrow> res" where
  "mirrorError verb status code message = (let text = utf8 (stringify (JObj [(''errors'', JArr [JObj [(''code'', JStr code), (''message'', JStr message)]])])) in
     \<lparr>o_status = status, o_headers = [(''content-type'', ''application/json''), (''content-length'', decimal (length text)),
        (''docker-distribution-api-version'', ''registry/2.0'')], o_body = (if verb = ''HEAD'' then [] else text)\<rparr>)"

definition sendBytes :: "string \<Rightarrow> bytes \<Rightarrow> string \<Rightarrow> string \<Rightarrow> res" where
  "sendBytes verb b type digest = \<lparr>o_status = 200, o_headers = [(''content-type'', type), (''content-length'', decimal (length b)),
      (''docker-content-digest'', digest), (''etag'', CHR 0x22 # digest @ [CHR 0x22]), (''docker-distribution-api-version'', ''registry/2.0''),
      (''cache-control'', ''public, max-age=31536000, immutable'')], o_body = (if verb = ''HEAD'' then [] else b)\<rparr>"

definition textOr :: "string option \<Rightarrow> json" where
  "textOr t = (case t of Some x \<Rightarrow> if x = [] then JNull else JStr x | None \<Rightarrow> JNull)"

definition textIf :: "string \<Rightarrow> string option \<Rightarrow> (string \<times> json) list" where
  "textIf k t = (case t of Some x \<Rightarrow> [(k, JStr x)] | None \<Rightarrow> [])"

text \<open>\<open>rawCid\<close>: the mirror's own copy of the encoder.\<close>

definition rawCid :: "string \<Rightarrow> string" where
  "rawCid digest = close32 (fold feed32 ([0x01, 0x55, 0x12, 0x20] @ hexToBytes (drop 7 digest)) (0, 0, ''b''))"

definition shareJson :: "string \<Rightarrow> relation \<Rightarrow> json" where
  "shareJson repo e = JObj [(''repo'', JStr (if rl_a e = repo then rl_b e else rl_a e)), (''bytes'', JNum (int (rl_bytes e))),
     (''tensors'', JNum (int (rl_tensors e))), (''sameWeights'', JBool (rl_same e)), (''licenceDiffers'', JBool (rl_licence e))]"

definition coverageJson :: "string \<Rightarrow> coverage \<Rightarrow> json" where
  "coverageJson gw c = JObj [(''pinned'', JNum (int (cv_pinned c))), (''total'', JNum (int (cv_total c))),
     (''sample'', case cv_sample c of None \<Rightarrow> JNull
       | Some (k, cid, len) \<Rightarrow> JObj [(''kappa'', JStr k), (''cid'', JStr cid), (''len'', JNum (int len))]),
     (''gateway'', JStr (noTrailingSlash (if gw = [] then ''https://ipfs.filebase.io'' else gw)))]"

definition summaryJson :: "menv \<Rightarrow> string \<Rightarrow> kmodel \<Rightarrow> dayRoot option \<Rightarrow> (string \<times> coverage) list \<Rightarrow> json" where
  "summaryJson env repo m root cov = (let edges = filter (\<lambda>e. rl_a e = repo \<or> rl_b e = repo) (case root of Some r \<Rightarrow> dr_edges r | None \<Rightarrow> []);
       same = (case find (\<lambda>g. repo \<in> set g) (case root of Some r \<Rightarrow> dr_same r | None \<Rightarrow> []) of Some g \<Rightarrow> filter (\<lambda>r. r \<noteq> repo) g | None \<Rightarrow> []) in
     JObj ([(''repo'', JStr repo), (''revision'', JStr (md_rev m)), (''license'', JStr (md_license m)), (''index'', JStr (md_index m))]
       @ textIf ''canonical'' (md_canonical m) @ [(''tensors'', JNum (int (md_tensors m))), (''weightBytes'', JNum (int (md_weightBytes m))),
        (''reference'', JStr (lower repo)),
        (''formats'', JObj (fromEntries (map (\<lambda>(f, d). (f, JObj [(''digest'', JStr d), (''tag'', JStr (if f = ''safetensors-sharded'' then ''sharded'' else f))])) (md_manifests m)))),
        (''ipfs'', JStr (rawCid (md_index m))), (''pinned'', JBool (case root of Some r \<Rightarrow> textOr (dr_car r) \<noteq> JNull | None \<Rightarrow> False)),
        (''ipfsTensors'', case map_of cov repo of Some c \<Rightarrow> coverageJson (me_gateway env) c | None \<Rightarrow> JNull),
        (''sameWeights'', JArr (map JStr same)), (''shares'', JArr (map (shareJson repo) (sort_key (\<lambda>e. - int (rl_bytes e)) (filter (\<lambda>e. \<not> rl_same e) edges)))),
        (''root'', textOr (map_option dr_digest root)), (''day'', textOr (case root of Some r \<Rightarrow> dr_day r | None \<Rightarrow> None))]))"

subsection \<open>What the process keeps\<close>

record server =
  sv_state :: tstate
  sv_recs :: "(string \<times> recs) list"
  sv_pieces :: "(string \<times> (string \<times> string list) list option) list"
  sv_hf :: "int \<times> bool"

text \<open>The moment of a request: the clock, the disk, whether a probe of Hugging Face would succeed.\<close>

record moment =
  mm_now :: int
  mm_disk :: disk
  mm_probe :: bool

definition RECS_MOST :: nat where "RECS_MOST = 100"
definition PIECES_MOST :: nat where "PIECES_MOST = 200"
definition PROBE_KEEP :: int where "PROBE_KEEP = 60000"

definition loaded :: "menv \<Rightarrow> moment \<Rightarrow> server \<Rightarrow> server" where
  "loaded env mo sv = sv\<lparr>sv_state := loadState env (mm_now mo) (mm_disk mo) (sv_state sv)\<rparr>"

definition placesOf :: "alternatives \<Rightarrow> string \<Rightarrow> (place \<times> nat) list" where
  "placesOf alts k = (case map_of alts k of Some ps \<Rightarrow> ps | None \<Rightarrow> [])"

definition walkOf :: "disk \<Rightarrow> tstate \<Rightarrow> string \<Rightarrow> kmodel \<Rightarrow> walk" where
  "walkOf dk st repo m = \<lparr>wk_repo = repo, wk_model = m,
     wk_json = (\<lambda>d. case held dk d of Some b \<Rightarrow> parse (decodeText b) | None \<Rightarrow> None), wk_alts = (\<lambda>k. map fst (placesOf (ts_alts st) k))\<rparr>"

definition records :: "menv \<Rightarrow> moment \<Rightarrow> string \<Rightarrow> kmodel \<Rightarrow> server \<Rightarrow> recs result \<times> server" where
  "records env mo repo m sv = (case map_of (sv_recs sv) (md_index m) of
     Some r \<Rightarrow> (Inr r, sv)
   | None \<Rightarrow> (let sv1 = loaded env mo sv in case recordsOf (walkOf (mm_disk mo) (sv_state sv1) repo m) of
       Inl e \<Rightarrow> (Inl e, sv1)
     | Inr r \<Rightarrow> (Inr r, sv1\<lparr>sv_recs := AList.update (md_index m) r (if RECS_MOST < length (sv_recs sv1) then [] else sv_recs sv1)\<rparr>)))"

definition hfUp :: "moment \<Rightarrow> server \<Rightarrow> bool \<times> server" where
  "hfUp mo sv = (if mm_now mo - fst (sv_hf sv) < PROBE_KEEP then (snd (sv_hf sv), sv) else (mm_probe mo, sv\<lparr>sv_hf := (mm_now mo, mm_probe mo)\<rparr>))"

definition loadPieces :: "disk \<Rightarrow> kmodel \<Rightarrow> (string \<times> string list) list option" where
  "loadPieces dk m = (case heldJson dk (md_table m) of Inr t \<Rightarrow> (case textProp ''pieces'' t of
       Some p \<Rightarrow> if p = [] then None else (case heldJson dk p of Inr JNull \<Rightarrow> None | Inr v \<Rightarrow> Some (readPieces (Some v)) | Inl _ \<Rightarrow> None)
     | None \<Rightarrow> None)
   | Inl _ \<Rightarrow> None)"

definition piecesOf :: "disk \<Rightarrow> kmodel \<Rightarrow> server \<Rightarrow> (string \<times> string list) list option \<times> server" where
  "piecesOf dk m sv = (case map_of (sv_pieces sv) (md_table m) of
     Some p \<Rightarrow> (p, sv)
   | None \<Rightarrow> (let p = loadPieces dk m in (p, sv\<lparr>sv_pieces := AList.update (md_table m) p (if PIECES_MOST < length (sv_pieces sv) then [] else sv_pieces sv)\<rparr>)))"

subsection \<open>Ranges\<close>

text \<open>\<open>/^bytes=(\\d*)-(\\d*)$/\<close>.\<close>

definition parseRange :: "string \<Rightarrow> (string \<times> string) option" where
  "parseRange h = (case (startsWith h ''bytes='', splitAt (CHR ''-'') (drop 6 h)) of
     (True, [a, b]) \<Rightarrow> if list_all isDigit a \<and> list_all isDigit b then Some (a, b) else None
   | _ \<Rightarrow> None)"

definition rangeOf :: "nat \<Rightarrow> string \<Rightarrow> int \<times> int \<times> nat" where
  "rangeOf n h = (case parseRange h of
     None \<Rightarrow> (0, int n - 1, 200)
   | Some (a, b) \<Rightarrow> (if a \<noteq> [] then int (undecimal a) else int n - int (if b = [] then 0 else undecimal b),
       if a \<noteq> [] \<and> b \<noteq> [] then min (int (undecimal b)) (int n - 1) else int n - 1, 206))"

definition signed :: "int \<Rightarrow> string" where
  "signed n = (if n < 0 then CHR ''-'' # decimal (nat (- n)) else decimal (nat n))"

subsection \<open>Routes\<close>

text \<open>What becomes of a request: an answer, a head with chunks that end or break off, not this component's, or an error thrown.\<close>

datatype mirrored = Said res | Streaming nat "(string \<times> string) list" "bytes list" "unit result" | NotMine | Threw js_error

definition KINDS :: "string list" where
  "KINDS = [''manifests'', ''blobs'', ''tags'', ''tensors'', ''provenance'', ''alternatives'', ''records'']"

definition mirrorPath :: "string \<Rightarrow> (string \<times> string \<times> string \<times> string option) option" where
  "mirrorPath p = (let ok = (\<lambda>space a b kind. space \<in> {''models'', ''tensors''} \<and> a \<noteq> [] \<and> b \<noteq> [] \<and> kind \<in> set KINDS) in
     case splitAt (CHR ''/'') p of
       [z, v, space, a, b, kind] \<Rightarrow> if z = [] \<and> v = ''v2'' \<and> ok space a b kind then Some (space, a @ ''/'' @ b, kind, None) else None
     | [z, v, space, a, b, kind, ref] \<Rightarrow> if z = [] \<and> v = ''v2'' \<and> ok space a b kind \<and> ref \<noteq> [] then Some (space, a @ ''/'' @ b, kind, Some ref) else None
     | _ \<Rightarrow> None)"

definition summaryPath :: "string \<Rightarrow> string option" where
  "summaryPath p = (case splitAt (CHR ''/'') p of
     [z, v, space, a, b, kind] \<Rightarrow> if z = [] \<and> v = ''v2'' \<and> space = ''models'' \<and> a \<noteq> [] \<and> b \<noteq> [] \<and> kind = ''summary'' then Some (a @ ''/'' @ b) else None
   | _ \<Rightarrow> None)"

definition kappaPath :: "string \<Rightarrow> string option" where
  "kappaPath p = (if startsWith p ''/v2/kappa/'' \<and> isAddr (drop 10 p) then Some (drop 10 p) else None)"

definition noIndex :: "string \<Rightarrow> string \<Rightarrow> res" where
  "noIndex verb name = mirrorError verb 404 ''NAME_UNKNOWN'' (name @ '' has no tensor index yet'')"

definition ANYONE :: "(string \<times> string) list" where "ANYONE = FRESH @ [(''access-control-allow-origin'', ''*'')]"

definition catalogue :: "menv \<Rightarrow> req \<Rightarrow> tstate \<Rightarrow> res" where
  "catalogue env q st = (let gated = filter (\<lambda>(r, m). md_gated m) (ts_models st); root = ts_root st in
     sayJson (q_verb q) (JObj [(''day'', textOr (case root of Some r \<Rightarrow> dr_day r | None \<Rightarrow> None)), (''root'', textOr (map_option dr_digest root)),
       (''models'', JArr (map (\<lambda>(r, m). summaryJson env r m root (ts_coverage st)) gated))]) ANYONE)"

definition summaryAnswer :: "menv \<Rightarrow> req \<Rightarrow> string \<Rightarrow> tstate \<Rightarrow> res" where
  "summaryAnswer env q name st = (case servedModel st name of
     None \<Rightarrow> noIndex (q_verb q) name
   | Some (r, m) \<Rightarrow> sayJson (q_verb q) (summaryJson env r m (ts_root st) (ts_coverage st)) ANYONE)"

text \<open>A record as it is sent; fields that are not there are left out.\<close>

definition keeperJson :: "keeper \<Rightarrow> json" where
  "keeperJson h = (case h of
     Hub p \<Rightarrow> JObj [(''kind'', JStr ''hub''), (''path'', JStr p)]
   | Hf u a \<Rightarrow> JObj [(''kind'', JStr ''hf''), (''url'', JStr u), (''at'', JNum (int a))]
   | Url u \<Rightarrow> JObj [(''kind'', JStr ''url''), (''url'', JStr u)]
   | Ipfs c \<Rightarrow> JObj [(''kind'', JStr ''ipfs''), (''cid'', JStr c)]
   | IpfsPieces \<Rightarrow> JObj [(''kind'', JStr ''ipfs-pieces'')]
   | Layout k \<Rightarrow> JObj [(''kind'', JStr ''layout''), (''layout'', JStr k)])"

definition recJson :: "krec \<Rightarrow> (string \<times> json) list" where
  "recJson r = [(''kappa'', JStr (rc_kappa r)), (''refs'', JArr (map JStr (rc_refs r))), (''holders'', JArr (map keeperJson (rc_holders r))), (''type'', JStr (rc_type r))]
     @ textIf ''media'' (rc_media r) @ (case rc_size r of Some n \<Rightarrow> [(''size'', JNum (int n))] | None \<Rightarrow> []) @ textIf ''path'' (rc_path r)
     @ (if rc_names r = [] then [] else [(''names'', JArr (map (\<lambda>(f, p). JObj ((''format'', JStr f) # textIf ''path'' p)) (rc_names r)))])
     @ (case rc_pieces r of Some (k, n) \<Rightarrow> [(''pieces'', JObj [(''in'', JStr k), (''n'', JNum (int n))])] | None \<Rightarrow> [])"

fun findRecord :: "menv \<Rightarrow> moment \<Rightarrow> string \<Rightarrow> models \<Rightarrow> server \<Rightarrow> (string \<times> krec) option result \<times> server" where
  "findRecord env mo k [] sv = (Inr None, sv)"
| "findRecord env mo k ((repo, m) # ms) sv = (if \<not> md_gated m then findRecord env mo k ms sv
     else (case records env mo repo m sv of
         (Inl e, sv1) \<Rightarrow> (Inl e, sv1)
       | (Inr recs, sv1) \<Rightarrow> (case map_of recs k of Some r \<Rightarrow> (Inr (Some (repo, r)), sv1) | None \<Rightarrow> findRecord env mo k ms sv1)))"

definition kappaAnswer :: "menv \<Rightarrow> moment \<Rightarrow> req \<Rightarrow> string \<Rightarrow> server \<Rightarrow> mirrored \<times> server" where
  "kappaAnswer env mo q k sv = (case findRecord env mo k (ts_models (sv_state sv)) sv of
     (Inl e, sv1) \<Rightarrow> (Threw e, sv1)
   | (Inr (Some (repo, r)), sv1) \<Rightarrow> (Said (sayJson (q_verb q) (JObj (recJson r @ [(''model'', JStr repo)])) FRESH), sv1)
   | (Inr None, sv1) \<Rightarrow> (Said (mirrorError (q_verb q) 404 ''BLOB_UNKNOWN'' (k @ '' is not reached by any indexed model'')), sv1))"

definition tagsAnswer :: "req \<Rightarrow> string \<Rightarrow> kmodel \<Rightarrow> res" where
  "tagsAnswer q repo m = sayJson (q_verb q) (JObj [(''name'', JStr (''models/'' @ repo)), (''tags'', JArr (map JStr ([''latest'', ''index'', md_rev m]
     @ map fst (filter (\<lambda>(t, f). t \<noteq> ''safetensors-sharded'' \<and> formatDigest m f \<noteq> None) FORMAT_TAG))))]) []"

definition heldAnswer :: "disk \<Rightarrow> req \<Rightarrow> string option \<Rightarrow> string \<Rightarrow> string \<Rightarrow> res" where
  "heldAnswer dk q d type absent = (case d of
     Some k \<Rightarrow> (case held dk k of Some b \<Rightarrow> sendBytes (q_verb q) b type k | None \<Rightarrow> mirrorError (q_verb q) 404 ''BLOB_UNKNOWN'' absent)
   | None \<Rightarrow> mirrorError (q_verb q) 404 ''BLOB_UNKNOWN'' absent)"

definition recordsAnswer :: "menv \<Rightarrow> moment \<Rightarrow> req \<Rightarrow> string \<Rightarrow> kmodel \<Rightarrow> string option \<Rightarrow> server \<Rightarrow> mirrored \<times> server" where
  "recordsAnswer env mo q repo m ref sv = (case records env mo repo m sv of
     (Inl e, sv1) \<Rightarrow> (Threw e, sv1)
   | (Inr recs, sv1) \<Rightarrow> (Said (case ref of
       None \<Rightarrow> sayJson (q_verb q) (JObj [(''v'', JNum 1), (''repo'', JStr repo), (''revision'', JStr (md_rev m)), (''index'', JStr (md_index m)),
          (''records'', JArr (map (\<lambda>e. JObj (recJson (snd e))) recs))]) FRESH
     | Some k \<Rightarrow> (case map_of recs k of Some r \<Rightarrow> sayJson (q_verb q) (JObj (recJson r)) FRESH
         | None \<Rightarrow> mirrorError (q_verb q) 404 ''BLOB_UNKNOWN'' (k @ '' is not reached by models/'' @ repo))), sv1))"

definition OCI_INDEX :: string where "OCI_INDEX = ''application/vnd.oci.image.index.v1+json''"
definition IMAGE_MANIFEST :: string where "IMAGE_MANIFEST = ''application/vnd.oci.image.manifest.v1+json''"

definition shownRef :: "string option \<Rightarrow> string" where
  "shownRef ref = (case ref of Some r \<Rightarrow> r | None \<Rightarrow> ''undefined'')"

definition manifestAnswer :: "disk \<Rightarrow> req \<Rightarrow> string \<Rightarrow> kmodel \<Rightarrow> string option \<Rightarrow> res" where
  "manifestAnswer dk q repo m ref = (let d = resolveRef m (case ref of Some r \<Rightarrow> r | None \<Rightarrow> []) in
     case (if knownDigest m d then held dk (the d) else None) of
       Some b \<Rightarrow> sendBytes (q_verb q) b (if the d = md_index m then OCI_INDEX else IMAGE_MANIFEST) (the d)
     | None \<Rightarrow> mirrorError (q_verb q) 404 ''MANIFEST_UNKNOWN'' (''models/'' @ repo @ '':'' @ shownRef ref @ '' is not indexed''))"

definition placeJson :: "place \<times> nat \<Rightarrow> json" where
  "placeJson p = (case p of
     (InFile repo rv path off, len) \<Rightarrow> JObj [(''repo'', JStr repo), (''rev'', JStr rv), (''path'', JStr path), (''off'', JNum (int off)), (''len'', JNum (int len))]
   | (AtUrl u off, len) \<Rightarrow> JObj [(''url'', JStr u), (''off'', JNum (int off)), (''len'', JNum (int len))])"

definition alternativesAnswer :: "disk \<Rightarrow> req \<Rightarrow> alternatives \<Rightarrow> string option \<Rightarrow> mirrored" where
  "alternativesAnswer dk q alts ref = (case heldJson dk (case ref of Some r \<Rightarrow> r | None \<Rightarrow> []) of
     Inl e \<Rightarrow> Threw e
   | Inr v \<Rightarrow> (case readLayout v of
       None \<Rightarrow> if falsy (getProp ''segments'' v) then Said (mirrorError (q_verb q) 404 ''BLOB_UNKNOWN'' ''not a layout'') else Threw Unmodelled
     | Some lay \<Rightarrow> Said ((sayJson ''GET'' (JObj (fromEntries (map (\<lambda>sg. (sg_kappa sg, JArr (map placeJson (placesOf alts (sg_kappa sg)))))
         (filter (\<lambda>sg. sg_kind sg \<noteq> ''l'' \<and> map_of alts (sg_kappa sg) \<noteq> None) (lo_segments lay))))) FRESH))))"

subsection \<open>Files\<close>

text \<open>
  What a rebuild is given: the network and clock of its reads, the runs of its pieced payloads, the world in
  which each unit's reads start, and the sizes of the host's buffer and window.
\<close>

record 'w rebuild =
  rb_site :: "'w site"
  rb_runs :: "'w \<Rightarrow> (nat \<Rightarrow> standing) \<times> (nat \<Rightarrow> answers) \<times> 'w"
  rb_raw :: "nat \<Rightarrow> bytes"
  rb_worlds :: "nat \<Rightarrow> 'w"
  rb_buffer :: nat
  rb_window :: nat

definition rebuildCtx :: "menv \<Rightarrow> disk \<Rightarrow> 'w rebuild \<Rightarrow> string \<Rightarrow> kmodel \<Rightarrow> alternatives \<Rightarrow> bool \<Rightarrow> (string \<times> string list) list option \<Rightarrow> 'w source_ctx" where
  "rebuildCtx env dk rb repo m alts prefer pieces = \<lparr>cx_origin = me_origin env, cx_repo = repo, cx_rev = md_rev m,
     cx_literal = (\<lambda>k w. (held dk k, w)), cx_alternatives = placesOf alts, cx_prefer = prefer,
     cx_pieces = (\<lambda>k. case pieces of Some ps \<Rightarrow> map_of ps k | None \<Rightarrow> None), cx_ipfs = me_ipfs env,
     cx_runs = rb_runs rb, cx_raw = rb_raw rb, cx_buffer = rb_buffer rb, cx_window = rb_window rb\<rparr>"

text \<open>What \<open>m.blobs[ref]\<close> finds on \<open>Object.prototype\<close>: the code goes on with it as with a file.\<close>

definition INHERITED :: "string list" where
  "INHERITED = [''constructor'', ''toString'', ''toLocaleString'', ''valueOf'', ''hasOwnProperty'', ''isPrototypeOf'', ''propertyIsEnumerable'',
     ''__proto__'', ''__defineGetter__'', ''__defineSetter__'', ''__lookupGetter__'', ''__lookupSetter__'']"

definition quoted :: "string \<Rightarrow> string" where "quoted t = CHR 0x22 # t @ [CHR 0x22]"

definition hfMeta :: "kmodel \<Rightarrow> string \<Rightarrow> blob \<Rightarrow> (string \<times> string) list" where
  "hfMeta m ref b = [(''x-repo-commit'', md_rev m), (''etag'', quoted (drop 7 ref)), (''x-linked-etag'', quoted (drop 7 ref)), (''x-linked-size'', decimal (bl_size b))]"

definition baseHeads :: "kmodel \<Rightarrow> string \<Rightarrow> blob \<Rightarrow> (string \<times> string) list" where
  "baseHeads m ref b = hfMeta m ref b @ [(''docker-content-digest'', ref), (''docker-distribution-api-version'', ''registry/2.0''), (''accept-ranges'', ''bytes'')]"

definition OCTETS :: "string \<times> string" where "OCTETS = (''content-type'', ''application/octet-stream'')"

definition heldFile :: "req \<Rightarrow> kmodel \<Rightarrow> string \<Rightarrow> blob \<Rightarrow> bytes \<Rightarrow> res" where
  "heldFile q m ref b bs = (if q_verb q = ''HEAD''
     then \<lparr>o_status = 200, o_headers = hfMeta m ref b @ [(''docker-content-digest'', ref), (''content-length'', decimal (length bs)), OCTETS], o_body = []\<rparr>
     else (let r = sendBytes (q_verb q) bs ''application/octet-stream'' ref in r\<lparr>o_headers := (''x-repo-commit'', md_rev m) # o_headers r\<rparr>))"

definition forceOf :: "req \<Rightarrow> string \<Rightarrow> string option" where
  "forceOf q space = (if space = ''tensors'' then Some ''tensors'' else case param q ''source'' of
     Some v \<Rightarrow> if v = [] then headerOf q ''x-hub-source'' else Some v | None \<Rightarrow> headerOf q ''x-hub-source'')"

definition redirect :: "menv \<Rightarrow> string \<Rightarrow> kmodel \<Rightarrow> string \<Rightarrow> blob \<Rightarrow> string \<Rightarrow> res" where
  "redirect env repo m ref b path = \<lparr>o_status = 307, o_headers = baseHeads m ref b
     @ [(''location'', me_origin env @ ''/'' @ repo @ ''/resolve/'' @ md_rev m @ ''/'' @ encodePath path), (''x-hub-source'', ''huggingface.co''),
        (''cache-control'', ''no-store''), (''content-length'', ''0'')], o_body = []\<rparr>"

definition streamHeads :: "(string \<times> string) list \<Rightarrow> int \<Rightarrow> int \<Rightarrow> nat \<Rightarrow> nat \<Rightarrow> (string \<times> string) list" where
  "streamHeads base start stop size' status = base @ [OCTETS, (''content-length'', signed (stop - start + 1)), (''x-hub-source'', ''tensors''), (''cache-control'', ''no-store'')]
     @ (if status = 206 then [(''content-range'', ''bytes '' @ signed start @ ''-'' @ signed stop @ ''/'' @ decimal size')] else [])"

definition rebuildFile :: "menv \<Rightarrow> moment \<Rightarrow> 'w rebuild \<Rightarrow> req \<Rightarrow> string \<Rightarrow> kmodel \<Rightarrow> string \<Rightarrow> blob \<Rightarrow> bool \<Rightarrow> layout \<Rightarrow> server \<Rightarrow> mirrored \<times> server" where
  "rebuildFile env mo rb q repo m ref b prefer lay sv =
     (let (start, stop, status) = rangeOf (lo_size lay) (case headerOf q ''range'' of Some h \<Rightarrow> h | None \<Rightarrow> []) in
      if stop < start \<or> int (lo_size lay) \<le> start
      then (Said \<lparr>o_status = 416, o_headers = [(''content-range'', ''bytes */'' @ decimal (lo_size lay))], o_body = []\<rparr>, sv)
      else (let (pieces, sv1) = piecesOf (mm_disk mo) m sv;
                (cs, r) = assemble (rb_site rb) (rebuildCtx env (mm_disk mo) rb repo m (ts_alts (sv_state sv)) prefer pieces) lay start stop (rb_worlds rb)
            in (Streaming status (streamHeads (baseHeads m ref b) start stop (lo_size lay) status) cs r, sv1)))"

definition fileAnswer :: "menv \<Rightarrow> moment \<Rightarrow> 'w rebuild \<Rightarrow> req \<Rightarrow> string \<Rightarrow> string \<Rightarrow> kmodel \<Rightarrow> string \<Rightarrow> blob \<Rightarrow> server \<Rightarrow> mirrored \<times> server" where
  "fileAnswer env mo rb q space repo m ref b sv = (let force = forceOf q space; verb = q_verb q;
       ask = bl_upstream b \<and> force \<noteq> Some ''tensors''; (up, sv1) = (if ask then hfUp mo sv else (False, sv)) in
     if up then (case bl_path b of None \<Rightarrow> (Threw TypeError, sv1) | Some p \<Rightarrow> (Said (redirect env repo m ref b p), sv1))
     else if bl_layout b = None \<or> bl_layout b = Some []
       then (Said (mirrorError verb 503 ''UNAVAILABLE'' (shownRef (bl_path b) @ '' has no tensor layout and its upstream is down'')), sv1)
     else (case heldJson (mm_disk mo) (the (bl_layout b)) of
         Inl e \<Rightarrow> (Threw e, sv1)
       | Inr v \<Rightarrow> if v = JNull then (Said (mirrorError verb 500 ''UNKNOWN'' (''layout '' @ the (bl_layout b) @ '' not held'')), sv1)
           else (case readLayout v of None \<Rightarrow> (Threw Unmodelled, sv1)
             | Some lay \<Rightarrow> rebuildFile env mo rb q repo m ref b (force = Some ''tensors'') lay sv1)))"

definition blobAnswer :: "menv \<Rightarrow> moment \<Rightarrow> 'w rebuild \<Rightarrow> req \<Rightarrow> string \<Rightarrow> string \<Rightarrow> kmodel \<Rightarrow> string \<Rightarrow> server \<Rightarrow> mirrored \<times> server" where
  "blobAnswer env mo rb q space repo m ref sv = (let dk = mm_disk mo; verb = q_verb q in
     if ref = md_table m then (case held dk ref of
         Some b \<Rightarrow> (Said (sendBytes verb b ''application/vnd.hologram.tensors.v1+json'' ref), sv) | None \<Rightarrow> (Threw TypeError, sv))
     else (case map_of (md_blobs m) ref of
         None \<Rightarrow> if ref \<in> set INHERITED then (Threw Unmodelled, sv)
           else (case held dk ref of
               Some b \<Rightarrow> (Said (sendBytes verb b ''application/octet-stream'' ref), sv)
             | None \<Rightarrow> (Said (mirrorError verb 404 ''BLOB_UNKNOWN'' (ref @ '' is not a file of models/'' @ repo)), sv))
       | Some b \<Rightarrow> (case (if bl_held b then held dk ref else None) of
             Some bs \<Rightarrow> (Said (heldFile q m ref b bs), sv)
           | None \<Rightarrow> if verb = ''HEAD''
               then (Said \<lparr>o_status = 200, o_headers = baseHeads m ref b @ [(''content-length'', decimal (bl_size b)), OCTETS], o_body = []\<rparr>, sv)
               else fileAnswer env mo rb q space repo m ref b sv)))"

subsection \<open>The component's routes\<close>

definition modelRoute :: "menv \<Rightarrow> moment \<Rightarrow> 'w rebuild \<Rightarrow> req \<Rightarrow> string \<Rightarrow> string \<Rightarrow> string option \<Rightarrow> string \<Rightarrow> kmodel \<Rightarrow> server \<Rightarrow> mirrored \<times> server" where
  "modelRoute env mo rb q space kind ref repo m sv = (let dk = mm_disk mo in
     if kind = ''tags'' then (Said (tagsAnswer q repo m), sv)
     else if kind = ''provenance'' then (Said (heldAnswer dk q (case md_provenance m of Some p \<Rightarrow> if p = [] then None else Some p | None \<Rightarrow> None)
       ''application/vnd.hologram.provenance.v1+json'' ''no provenance sample for this model''), sv)
     else if kind = ''records'' then recordsAnswer env mo q repo m ref sv
     else if kind = ''tensors'' then (Said (heldAnswer dk q (Some (md_table m)) ''application/vnd.hologram.tensors.v1+json'' ''table not held''), sv)
     else if kind = ''manifests'' then (Said (manifestAnswer dk q repo m ref), sv)
     else if kind = ''alternatives'' then (alternativesAnswer dk q (ts_alts (sv_state sv)) ref, sv)
     else blobAnswer env mo rb q space repo m (shownRef ref) sv)"

definition tensorMirror :: "menv \<Rightarrow> moment \<Rightarrow> 'w rebuild \<Rightarrow> req \<Rightarrow> string \<Rightarrow> server \<Rightarrow> mirrored \<times> server" where
  "tensorMirror env mo rb q path sv = (let sv1 = loaded env mo sv; st = sv_state sv1 in
     if path = ''/v2/models/_catalog'' then (Said (catalogue env q st), sv1)
     else case summaryPath path of Some name \<Rightarrow> (Said (summaryAnswer env q name st), sv1)
     | None \<Rightarrow> (case kappaPath path of Some k \<Rightarrow> kappaAnswer env mo q k sv1
       | None \<Rightarrow> (case mirrorPath path of None \<Rightarrow> (NotMine, sv)
         | Some (space, name, kind, ref) \<Rightarrow> (case servedModel st name of
               None \<Rightarrow> (Said (noIndex (q_verb q) name), sv1)
             | Some (repo, m) \<Rightarrow> modelRoute env mo rb q space kind ref repo m sv1))))"

text \<open>For the edge: the source of a model at a revision, with the files that it can neither send nor rebuild.\<close>

definition canSend :: "kmodel \<Rightarrow> string \<Rightarrow> bool" where
  "canSend m addr \<longleftrightarrow> (case map_of (md_blobs m) addr of Some b \<Rightarrow> (bl_layout b \<noteq> None \<and> bl_layout b \<noteq> Some []) \<or> bl_held b | None \<Rightarrow> False)"

definition tensorSource :: "menv \<Rightarrow> moment \<Rightarrow> string \<Rightarrow> string \<Rightarrow> row list \<Rightarrow> server \<Rightarrow> source option \<times> server" where
  "tensorSource env mo i revision files sv = (let sv1 = loaded env mo sv in
     (case servedModel (sv_state sv1) i of None \<Rightarrow> None
      | Some (repo, m) \<Rightarrow> if md_rev m \<noteq> revision then None
          else Some \<lparr>src_kind = ''tensors'', src_resolve = Some (''/v2/tensors/'' @ lower repo @ ''/blobs/''),
            src_missing = map f_path (filter (\<lambda>f. \<not> canSend m (f_address f)) files), src_p2p = False, src_pull = False, src_byDigest = True\<rparr>, sv1))"

text \<open>The plain name of a model: only what the index holds is answered here.\<close>

definition rootPath :: "string \<Rightarrow> (string \<times> string \<times> string) option" where
  "rootPath p = (case splitAt (CHR ''/'') p of
     [z, v, a, b, kind, ref] \<Rightarrow> if z = [] \<and> v = ''v2'' \<and> a \<noteq> [] \<and> b \<noteq> [] \<and> kind \<in> {''manifests'', ''blobs'', ''tags''} \<and> ref \<noteq> []
       then Some (a @ ''/'' @ b, kind, ref) else None
   | _ \<Rightarrow> None)"

definition rootHas :: "disk \<Rightarrow> kmodel \<Rightarrow> string \<Rightarrow> string \<Rightarrow> bool" where
  "rootHas dk m kind ref \<longleftrightarrow> (kind = ''manifests'' \<longrightarrow> knownDigest m (resolveRef m ref))
     \<and> (kind = ''blobs'' \<longrightarrow> map_of (md_blobs m) ref \<noteq> None \<or> ref \<in> set INHERITED \<or> ref = md_table m \<or> held dk ref \<noteq> None)
     \<and> (kind = ''tags'' \<longrightarrow> ref = ''list'')"

definition tensorMirrorRoot :: "menv \<Rightarrow> moment \<Rightarrow> 'w rebuild \<Rightarrow> req \<Rightarrow> string \<Rightarrow> server \<Rightarrow> mirrored \<times> server" where
  "tensorMirrorRoot env mo rb q path sv = (case rootPath path of None \<Rightarrow> (NotMine, sv)
   | Some (name, kind, ref) \<Rightarrow> (let sv1 = loaded env mo sv in case servedModel (sv_state sv1) name of
         None \<Rightarrow> (NotMine, sv1)
       | Some (repo, m) \<Rightarrow> if rootHas (mm_disk mo) m kind ref then tensorMirror env mo rb q (''/v2/models/'' @ name @ ''/'' @ kind @ ''/'' @ ref) sv1
           else (NotMine, sv1)))"

text \<open>A name opened in a browser; \<open>known\<close> is the edge's own index, \<open>None\<close> also when asking it fails.\<close>

definition pagePath :: "string \<Rightarrow> (string \<times> string) option" where
  "pagePath p = (case splitAt (CHR ''/'') p of
     [z, a, b] \<Rightarrow> if z = [] \<and> a \<noteq> [] \<and> b \<noteq> [] then Some (a, b) else None
   | [z, a, b, e] \<Rightarrow> if z = [] \<and> a \<noteq> [] \<and> b \<noteq> [] \<and> e = [] then Some (a, b) else None
   | _ \<Rightarrow> None)"

definition containsText :: "string \<Rightarrow> string \<Rightarrow> bool" where
  "containsText t h \<longleftrightarrow> list_ex (\<lambda>i. startsWith (drop i h) t) [0..<Suc (length h)]"

definition modelPageRedirect :: "menv \<Rightarrow> moment \<Rightarrow> req \<Rightarrow> string \<Rightarrow> (string \<Rightarrow> string option) \<Rightarrow> server \<Rightarrow> mirrored \<times> server" where
  "modelPageRedirect env mo q path known sv = (case pagePath path of None \<Rightarrow> (NotMine, sv)
   | Some (a, b) \<Rightarrow> if q_verb q \<noteq> ''GET'' \<or> \<not> containsText ''text/html'' (case headerOf q ''accept'' of Some h \<Rightarrow> h | None \<Rightarrow> []) then (NotMine, sv)
     else (case (decodeURIComponent a, decodeURIComponent b) of
         (Some x, Some y) \<Rightarrow> (let i = x @ ''/'' @ y; sv1 = loaded env mo sv;
             repo = (case repoOf (sv_state sv1) i of Some r \<Rightarrow> Some r | None \<Rightarrow> known i) in
           (Said \<lparr>o_status = 302, o_headers = [(''location'', case repo of Some r \<Rightarrow> ''/models/'' @ encodePath r @ ''/'' | None \<Rightarrow> ''/models/?q='' @ encodeURIComponent i),
              (''cache-control'', ''no-store''), (''content-length'', ''0'')], o_body = []\<rparr>, sv1))
       | _ \<Rightarrow> (Threw (Error ''URI malformed''), sv)))"

end
