(* ===== verification/Rebuilt.thy ===== *)
theory Rebuilt
  imports Assemble
begin

text \<open>
  What a rebuilt file is (\<open>deploy/tensor-assemble.mjs\<close>): the bytes released are a beginning of the range of
  the file that the layout describes, and all of it after a normal end, unless a payload is streamed
  unchecked; a view is gathered in the order of its indices.
\<close>

subsection \<open>The range, and nothing but the range\<close>

lemma placed_end: "(sg, a) \<in> set (placed a0 sgs) \<Longrightarrow> a0 \<le> a \<and> a + sg_len sg \<le> a0 + sum_list (map sg_len sgs)"
proof (induction sgs arbitrary: a0)
  case (Cons sg' sgs)
  from Cons.prems consider "sg = sg'" "a = a0" | "(sg, a) \<in> set (placed (a0 + sg_len sg') sgs)" by auto
  then show ?case
  proof cases
    case 2
    from Cons.IH [OF this] show ?thesis by simp
  qed simp
qed simp

lemma placed_seg: "(sg, a) \<in> set (placed a0 sgs) \<Longrightarrow> sg \<in> set sgs"
  by (induction sgs arbitrary: a0) auto

lemma blockOf_length: "describes s cx lay obj \<Longrightarrow> (sg, a) \<in> set (placed 0 (lo_segments lay)) \<Longrightarrow> length (blockOf obj sg a) = sg_len sg"
  using placed_end [of sg a 0 "lo_segments lay"] by (simp add: describes_def blockOf_def length_subarray)

lemma described: "describes s cx lay obj \<Longrightarrow> (sg, a) \<in> set (placed 0 (lo_segments lay)) \<Longrightarrow> named x = sg_kappa sg \<Longrightarrow>
    arrived s cx lay (sg_len sg) x \<Longrightarrow> x = blockOf obj sg a"
  unfolding describes_def by blast

lemma describes_pieces: "describes s cx lay obj \<Longrightarrow> (sg, a) \<in> set (placed 0 (lo_segments lay)) \<Longrightarrow>
    (\<forall>ps. cx_pieces cx (sg_kappa sg) = Some ps \<longrightarrow> ps = map sha256hex (chunks PIECE (blockOf obj sg a)))
    \<and> (\<forall>w. collisionFree (blockOf obj sg a) (fst (snd (cx_runs cx w))))"
  unfolding describes_def by blast

lemma take_again: "e \<le> n \<Longrightarrow> take (n - i) xs = take (e - i) xs @ drop (e - i) (take (n - i) xs)"
  by (metis append_take_drop_id diff_le_mono min.absorb1 take_take)

lemma subarray_window:
  assumes "a \<le> b" and "b \<le> c"
  shows "subarray xs (max a s) (min b e) @ subarray xs (max b s) (min c e) = subarray xs (max a s) (min c e)"
proof -
  consider "b \<le> s" | "s < b" "e \<le> b" | "s < b" "b < e" by linarith
  then show ?thesis
  proof cases
    case 1
    then show ?thesis using assms by (simp add: subarray_def max_absorb2 min_def)
  next
    case 2
    then have "min b e = e" "min c e = e" "e \<le> max b s" using assms by auto
    then show ?thesis by (simp add: subarray_def)
  next
    case 3
    then have "min b e = b" "max b s = b" "max a s \<le> b" "b \<le> min c e" using assms by auto
    then show ?thesis by (simp add: subarray_append_take)
  qed
qed

definition cutBlock :: "bytes \<Rightarrow> int \<Rightarrow> int \<Rightarrow> segment \<times> nat \<Rightarrow> bytes" where
  "cutBlock obj start stop x = (case x of (sg, a) \<Rightarrow> cut start stop (itemOf sg a) (blockOf obj sg a))"

lemma cut_block:
  assumes "a + sg_len sg \<le> length obj"
  shows "cutBlock obj start stop (sg, a) = subarray obj (max a (nat start)) (min (a + sg_len sg) (nat (stop + 1)))"
proof -
  have d: "drop x (take (sg_len sg) (drop a obj)) = take (sg_len sg - x) (drop (a + x) obj)" for x
    by (simp add: drop_take add.commute)
  let ?s = "nat start" let ?e = "nat (stop + 1)" let ?l = "sg_len sg"
  have n: "nat (start - int a) = ?s - a" "nat (min (int ?l) (stop - int a + 1)) = min ?l (?e - a)" by linarith+
  have "cutBlock obj start stop (sg, a) = take (min (min ?l (?e - a) - (?s - a)) (?l - (?s - a))) (drop (a + (?s - a)) obj)"
    unfolding cutBlock_def cut_def itemOf_def blockOf_def subarray_def by (simp add: d n)
  also have "a + (?s - a) = max a ?s" by linarith
  also have "min (min ?l (?e - a) - (?s - a)) (?l - (?s - a)) = min (a + ?l) ?e - max a ?s"
  proof -
    have "max a ?s = a + (?s - a)" and "min (a + ?l) ?e - a = min ?l (?e - a)" by linarith+
    then have "min (a + ?l) ?e - max a ?s = min ?l (?e - a) - (?s - a)" by (metis diff_diff_left)
    moreover have "min (min ?l (?e - a)) ?l = min ?l (?e - a)" by simp
    ultimately show ?thesis by (simp only: min_diff)
  qed
  finally show ?thesis by (simp add: subarray_def)
qed

lemma cuts_cover:
  "a0 + sum_list (map sg_len sgs) \<le> length obj \<Longrightarrow> concat (map (cutBlock obj start stop) (wantedOf start stop (placed a0 sgs)))
     = subarray obj (max a0 (nat start)) (min (a0 + sum_list (map sg_len sgs)) (nat (stop + 1)))"
proof (induction sgs arbitrary: a0)
  case Nil
  then show ?case by (simp add: wantedOf_def subarray_def)
next
  case (Cons sg sgs)
  let ?b = "a0 + sg_len sg" let ?c = "a0 + sum_list (map sg_len (sg # sgs))"
  have IH: "concat (map (cutBlock obj start stop) (wantedOf start stop (placed ?b sgs))) = subarray obj (max ?b (nat start)) (min ?c (nat (stop + 1)))"
    using Cons.IH [of ?b] Cons.prems by (simp add: add.assoc)
  have "concat (map (cutBlock obj start stop) (wantedOf start stop [(sg, a0)])) = subarray obj (max a0 (nat start)) (min ?b (nat (stop + 1)))"
  proof (cases "wanted start stop a0 (sg_len sg)")
    case True
    then show ?thesis using cut_block [of a0 sg obj start stop] Cons.prems by (simp add: wantedOf_def)
  next
    case False
    then have "min ?b (nat (stop + 1)) \<le> max a0 (nat start)" by (auto simp: wanted_def)
    then show ?thesis using False by (simp add: wantedOf_def subarray_def)
  qed
  moreover have "wantedOf start stop (placed a0 (sg # sgs)) = wantedOf start stop [(sg, a0)] @ wantedOf start stop (placed ?b sgs)"
    by (simp add: wantedOf_def)
  ultimately show ?case using IH subarray_window [of a0 ?b ?c obj "nat start" "nat (stop + 1)"] by simp
qed

text \<open>What was released is the beginning of what was due, and all of it after a normal end.\<close>

definition goes :: "bytes list \<times> unit result \<Rightarrow> bytes \<Rightarrow> bool" where
  "goes g due \<longleftrightarrow> (\<exists>more. due = concat (fst g) @ more \<and> (snd g = Inr () \<longrightarrow> more = []))"

lemma goes_fail [simp]: "goes ([], Inl e) due"
  by (simp add: goes_def)

lemma inOrder_goes: "(\<And>u. u \<in> set us \<Longrightarrow> goes (rel u) (due u)) \<Longrightarrow> goes (inOrder rel us) (concat (map due us))"
proof (induction us)
  case (Cons u us)
  obtain out r where u: "rel u = (out, r)" by fastforce
  obtain more q where m: "inOrder rel us = (more, q)" by fastforce
  have "goes (out, r) (due u)" "goes (more, q) (concat (map due us))" using Cons u m by (metis list.set_intros)+
  then show ?case by (cases r) (auto simp: u m goes_def)
qed (simp add: goes_def)

definition dueOf :: "bytes \<Rightarrow> int \<Rightarrow> int \<Rightarrow> unit' \<Rightarrow> bytes" where
  "dueOf obj start stop u = concat (map (\<lambda>it. cutBlock obj start stop (spotOf it)) (un_items u))"

lemma cut_spot: "cut start stop it (blockOf obj (it_seg it) (it_a it)) = cutBlock obj start stop (spotOf it)"
  by (simp add: cutBlock_def spotOf_def cut_def itemOf_def)

lemma items_goes:
  assumes "describes s cx lay obj" and "\<And>it. it \<in> set its \<Longrightarrow> spotOf it \<in> set (placed 0 (lo_segments lay))"
    and "list_all2 (checkedItem s cx lay) its bs"
  shows "concat (map2 (cut start stop) its bs) = concat (map (\<lambda>it. cutBlock obj start stop (spotOf it)) its)"
  using assms(3,2)
proof (induction rule: list_all2_induct)
  case (Cons it its b bs)
  have "b = blockOf obj (it_seg it) (it_a it)"
    using Cons.hyps(1) Cons.prems [of it] by (intro described [OF assms(1)]) (auto simp: checkedItem_def spotOf_def)
  with Cons show ?case by (simp add: cut_spot)
qed simp

lemma pieces_goes:
  assumes d: "describes s cx lay obj" and m: "spotOf it \<in> set (wantedOf start stop (placed 0 (lo_segments lay)))" and p: "pieced cx (it_seg it)"
    and se: "start \<le> stop"
  shows "goes (fst (viaPieces cx lay start stop it w)) (cutBlock obj start stop (spotOf it))"
proof (cases "pieceHolders cx lay (it_seg it)")
  case (Inl e)
  then show ?thesis by (simp add: viaPieces_def)
next
  case (Inr hs)
  define sg where "sg = it_seg it"
  define a where "a = it_a it"
  define block where "block = blockOf obj sg a"
  obtain st ans w1 where r: "cx_runs cx w = (st, ans, w1)" by (metis prod.collapse)
  have in_p: "(sg, a) \<in> set (placed 0 (lo_segments lay))" and wd: "wanted start stop a (sg_len sg)"
    using m by (auto simp: wantedOf_def spotOf_def sg_def a_def)
  have len: "length block = sg_len sg" unfolding block_def by (rule blockOf_length [OF d in_p])
  obtain ps where ps: "cx_pieces cx (sg_kappa sg) = Some ps" using p by (auto simp: pieced_def sg_def)
  have pl: "ps = map sha256hex (chunks PIECE block)" and cf: "collisionFree block ans"
    using describes_pieces [OF d in_p] ps r by (auto simp: block_def) (metis fst_conv snd_conv)
  let ?from = "nat (start - int a)" let ?to = "nat (min (int (sg_len sg) - 1) (stop - int a))"
  have le: "?from \<le> ?to" and lt: "?to < length block" using wd len se by (auto simp: wanted_def)
  define g where "g = get (objectOf (sg_kappa sg) block) RUN ?from ?to hs st ans"
  obtain out q where q: "g = (out, q)" by (cases g)
  from get_prefix [OF le lt cf q [unfolded g_def]] obtain e where
    e: "e \<le> Suc ?to" "concat out = subarray block ?from e" "q = Inr () \<longrightarrow> e = Suc ?to" by blast
  have v: "fst (viaPieces cx lay start stop it w) = g"
    using Inr r ps pl len by (simp add: viaPieces_def Let_def g_def objectOf_def sg_def a_def)
  have to: "Suc ?to = nat (min (int (sg_len sg)) (stop - int a + 1))" using wd by (auto simp: wanted_def)
  have "cutBlock obj start stop (spotOf it) = subarray block ?from (Suc ?to)"
    unfolding to by (simp add: cutBlock_def spotOf_def cut_def itemOf_def sg_def a_def block_def)
  also have "\<dots> = subarray block ?from e @ drop (e - ?from) (take (Suc ?to - ?from) (drop ?from block))"
    using e(1) unfolding subarray_def by (rule take_again)
  finally show ?thesis using e(2,3) v q by (auto simp: goes_def subarray_def)
qed

lemma release_goes:
  assumes d: "describes s cx lay obj" and ok: "unitOk cx u" and k: "un_kind u \<noteq> Large" and se: "start \<le> stop"
    and m: "\<And>it. it \<in> set (un_items u) \<Longrightarrow> spotOf it \<in> set (wantedOf start stop (placed 0 (lo_segments lay)))"
  shows "goes (release s cx lay start stop u w) (dueOf obj start stop u)"
proof -
  define it where "it = hd (un_items u)"
  have mem: "it \<in> set (un_items u)" and one: "un_kind u \<noteq> Joined \<Longrightarrow> un_items u = [it]"
    using ok by (auto simp: unitOk_def it_def length_Suc_conv)
  have pl: "\<And>it. it \<in> set (un_items u) \<Longrightarrow> spotOf it \<in> set (placed 0 (lo_segments lay))" using m by (auto simp: wantedOf_def)
  have seg: "it_seg it \<in> set (lo_segments lay)" using pl [OF mem] placed_seg by (fastforce simp: spotOf_def)
  have due1: "un_kind u \<noteq> Joined \<Longrightarrow> dueOf obj start stop u = cutBlock obj start stop (spotOf it)" by (simp add: dueOf_def one)
  obtain r w1 where f: "fetchUnit s cx lay start stop u w = (r, w1)" by fastforce
  have single: "goes (release s cx lay start stop u w) (dueOf obj start stop u)"
    if "un_kind u \<noteq> Pieced" "un_kind u \<noteq> PiecedLarge" and ch: "\<And>bs. r = Inr bs \<Longrightarrow> list_all2 (checkedItem s cx lay) (un_items u) bs"
  proof (cases r)
    case (Inr bs)
    from items_goes [OF d pl ch [OF Inr]] that k f Inr show ?thesis by (cases "un_kind u") (auto simp: release_def goes_def dueOf_def)
  qed (use that k f in \<open>cases "un_kind u"; simp add: release_def\<close>)
  show ?thesis
  proof (cases "un_kind u")
    case Literal
    have "list_all2 (checkedItem s cx lay) (un_items u) bs" if "r = Inr bs" for bs
      using f Literal one that fetchLiteral_checked [of cx "it_seg it" w _ _ s lay "sg_len (it_seg it)"]
      by (cases "fetchLiteral cx (it_seg it) w"; cases "fst (fetchLiteral cx (it_seg it) w)")
        (auto simp: fetchUnit_def it_def [symmetric] checkedItem_def)
    then show ?thesis using Literal by (intro single) auto
  next
    case Viewed
    have "list_all2 (checkedItem s cx lay) (un_items u) bs" if "r = Inr bs" for bs
      using f Viewed one that fetchViewed_checked [of s cx "it_seg it" w _ _ lay] seg
      by (cases "fetchViewed s cx (it_seg it) w"; cases "fst (fetchViewed s cx (it_seg it) w)")
        (auto simp: fetchUnit_def it_def [symmetric] checkedItem_def)
    then show ?thesis using Viewed by (intro single) auto
  next
    case Joined
    have "list_all2 (checkedItem s cx lay) (un_items u) bs" if rb: "r = Inr bs" for bs
    proof -
      obtain whole w2 where wh: "readWhole s cx u w = (whole, w2)" by fastforce
      have fi: "fetchItems s cx lay (un_src u) whole (un_items u) w2 = (Inr bs, w1)" using f Joined wh rb by (simp add: fetchUnit_def Let_def)
      show ?thesis
      proof (rule fetchItems_checked [OF fi])
        fix b assume "whole = Some b"
        then obtain p where "un_src u = Some p" "readAll (fst (readRange s (cx_origin cx) p (un_start u) (un_end u - un_start u) w)) = Inr b"
          using wh readWhole_Some by metis
        then show "\<exists>origin p a len w. readAll (fst (readRange s origin p a len w)) = Inr b \<and> (\<forall>it \<in> set (un_items u). it_rel it + sg_len (it_seg it) \<le> len)"
          using ok Joined unfolding unitOk_def by blast
      qed
    qed
    then show ?thesis using Joined by (intro single) auto
  next
    case Pieced
    then have "pieced cx (it_seg it)" using ok by (simp add: unitOk_def it_def)
    from pieces_goes [OF d m [OF mem] this se, of w] Pieced due1 show ?thesis
      by (cases "viaPieces cx lay start stop it w"; cases "snd (fst (viaPieces cx lay start stop it w))")
        (auto simp: release_def fetchUnit_def Let_def it_def [symmetric] readAll_def goes_def)
  next
    case PiecedLarge
    then have "pieced cx (it_seg it)" using ok by (simp add: unitOk_def it_def)
    from pieces_goes [OF d m [OF mem] this se, of w] PiecedLarge due1 show ?thesis by (simp add: release_def it_def [symmetric])
  qed (use k in simp)
qed

lemma enumerate_items: "concat (map (\<lambda>(k, u). f u) (enumerate n us)) = concat (map f us)"
  by (induction us arbitrary: n) auto

lemma concat_due: "concat (map (dueOf obj start stop) us) = concat (map (cutBlock obj start stop) (itemsOf us))"
  by (induction us) (simp_all add: dueOf_def itemsOf_def comp_def)

lemma assembled_range:
  assumes "describes s cx lay obj" and "start \<le> stop" and "0 < cx_window cx"
    and "\<forall>(sg, a) \<in> set (wantedOf start stop (placed 0 (lo_segments lay))). \<not> streamed cx sg"
    and "assemble s cx lay start stop ws = (out, r)"
  shows "(\<exists>more. subarray obj (nat start) (nat (stop + 1)) = concat out @ more)
    \<and> (r = Inr () \<longrightarrow> concat out = subarray obj (nat start) (nat (stop + 1)))"
proof -
  let ?us = "unitsOf cx lay start stop"
  have items: "itemsOf ?us = wantedOf start stop (placed 0 (lo_segments lay))" and ok: "\<And>u. u \<in> set ?us \<Longrightarrow> unitOk cx u"
    using units_cover [of cx lay start stop] by auto
  have spots: "spotOf it \<in> set (wantedOf start stop (placed 0 (lo_segments lay)))" if "u \<in> set ?us" "it \<in> set (un_items u)" for u it
    unfolding items [symmetric] itemsOf_def using that by auto
  have kind: "un_kind u \<noteq> Large" if u: "u \<in> set ?us" for u
  proof
    assume "un_kind u = Large"
    then have "streamed cx (it_seg (hd (un_items u)))" "un_items u \<noteq> []" using ok [OF u] by (auto simp: unitOk_def)
    moreover from this(2) have "spotOf (hd (un_items u)) \<in> set (wantedOf start stop (placed 0 (lo_segments lay)))" by (intro spots [OF u]) simp
    ultimately show False using assms(4) by (auto simp: spotOf_def)
  qed
  have "goes (release s cx lay start stop u w) (dueOf obj start stop u)" if "u \<in> set ?us" for u w
    by (rule release_goes [OF assms(1) ok [OF that] kind [OF that] assms(2)]) (rule spots [OF that])
  then have "goes (inOrder (\<lambda>(k, u). release s cx lay start stop u (ws k)) (enumerate 0 ?us)) (concat (map (\<lambda>(k, u). dueOf obj start stop u) (enumerate 0 ?us)))"
    by (intro inOrder_goes) (auto simp: in_set_enumerate_eq)
  then have g: "goes (out, r) (concat (map (cutBlock obj start stop) (wantedOf start stop (placed 0 (lo_segments lay)))))"
    using assms(5) by (simp add: assemble_in_order [OF assms(3)] enumerate_items concat_due items)
  have len: "sum_list (map sg_len (lo_segments lay)) = length obj" using assms(1) by (simp add: describes_def)
  have "concat (map (cutBlock obj start stop) (wantedOf start stop (placed 0 (lo_segments lay)))) = subarray obj (nat start) (min (length obj) (nat (stop + 1)))"
    using cuts_cover [of 0 "lo_segments lay" obj start stop] len by simp
  also have "\<dots> = subarray obj (nat start) (nat (stop + 1))" by (simp add: subarray_def min_def)
  finally show ?thesis using g by (auto simp: goes_def)
qed

text \<open>
  C4. A rebuilt file is never wrong: whatever the holders answer and however the reads in flight interleave,
  the bytes \<open>assemble\<close> has released when it ends or throws are a beginning of the range of the file that the
  layout describes, and all of it after a normal end. It holds where no payload of the range is streamed
  unchecked (over the buffer and without a piece list).
\<close>

theorem assembled_exact:
  assumes "describes s cx lay obj" and "start \<le> stop" and "0 < cx_window cx"
    and "\<forall>(sg, a) \<in> set (wantedOf start stop (placed 0 (lo_segments lay))). \<not> streamed cx sg"
    and "assemble s cx lay start stop ws = (out, r)"
  shows "(\<exists>more. subarray obj (nat start) (nat (stop + 1)) = concat out @ more)
    \<and> (r = Inr () \<longrightarrow> concat out = subarray obj (nat start) (nat (stop + 1)))"
  by (rule assembled_range [OF assms])

subsection \<open>A payload that is streamed\<close>

text \<open>
  A host whose file breaks off after one byte, and another that serves the payload alone; the buffer is
  one byte, so the payload of two is streamed.
\<close>

definition brokenSite :: "unit site" where
  "brokenSite = \<lparr>si_fetch = (\<lambda>url hs w. (if url = ''https://b/x'' then Answer 206 None [[1, 2]] None
       else if hs = UA then Answer 200 None [] None else Answer 206 None [[1]] (Some (True, ''ECONNRESET'')), w)),
     si_now = (\<lambda>w. 0), si_wait = (\<lambda>n w. w), si_book = (\<lambda>w. \<lparr>bk_cdn = Map.empty, bk_down = Map.empty, bk_standing = Map.empty\<rparr>),
     si_keep = (\<lambda>b w. w)\<rparr>"

definition streamCtx :: "unit source_ctx" where
  "streamCtx = \<lparr>cx_origin = ''https://a'', cx_repo = ''o/m'', cx_rev = ''r'', cx_literal = (\<lambda>k w. (None, w)),
     cx_alternatives = (\<lambda>k. [(AtUrl ''https://b/x'' 0, 2)]), cx_prefer = False, cx_pieces = (\<lambda>k. None), cx_ipfs = [],
     cx_runs = (\<lambda>w. (\<lambda>k. Map.empty, \<lambda>k i q. (0, Sent None), w)), cx_raw = (\<lambda>n. replicate n 0), cx_buffer = 1, cx_window = 4\<rparr>"

definition streamLayout :: layout where
  "streamLayout = \<lparr>lo_file = ''f'', lo_size = 2, lo_segments = [\<lparr>sg_kind = ''t'', sg_kappa = named [1, 2], sg_len = 2, sg_where = Here 0\<rparr>]\<rparr>"

lemma UA_range [simp]: "UA @ [x] \<noteq> UA"
  by (simp add: UA_def)

lemma notDown [simp]: "isDown brokenSite u w = False"
  by (simp add: isDown_def brokenSite_def)

lemma broken_cdn: "cdnUrl brokenSite ''https://a'' repo rv path fresh w
    = (Inr (''https://a'' @ ''/'' @ repo @ ''/resolve/'' @ rv @ ''/'' @ encodePath path), w)"
  by (simp add: cdnUrl_def Let_def brokenSite_def remember_def eval_nat_numeral)

lemma broken_first: "readRange brokenSite ''https://a'' (InFile ''o/m'' ''r'' ''f'' 0) 0 2 w = (([[1]], Inl (Error (''could not read '' @ ''f'' @ '' '' @ decimal 0 @ ''+'' @ decimal 2))), w)"
proof -
  have "attempt brokenSite ''https://a'' (InFile ''o/m'' ''r'' ''f'' 0) False 0 2 w = (([[1]], 1, Some True), w)"
    unfolding attempt_def whereFrom_def place.case broken_cdn by (simp add: brokenSite_def rangeHeader_def)
  moreover have "markDown brokenSite u w = w" for u by (simp add: markDown_def brokenSite_def)
  moreover have "[0..<5] = 0 # [Suc 0..<5]" by (simp add: upt_rec)
  ultimately have "tryRead brokenSite ''https://a'' (InFile ''o/m'' ''r'' ''f'' 0) [0..<5] 0 2 w = (([[1]], 1), w)"
    by (simp add: Let_def directOf_def)
  then show ?thesis by (simp add: readRange_def directOf_def)
qed

lemma broken_second: "readRange brokenSite ''https://a'' (AtUrl ''https://b/x'' 0) 0 2 w = (([[1, 2]], Inr ()), w)"
proof -
  have "attempt brokenSite ''https://a'' (AtUrl ''https://b/x'' 0) False 0 2 w = (([[1, 2]], 0, None), w)"
    unfolding attempt_def whereFrom_def place.case by (simp add: brokenSite_def)
  moreover have "[0..<2::nat] = [0, 1]" by (simp add: upt_rec)
  ultimately have "tryRead brokenSite ''https://a'' (AtUrl ''https://b/x'' 0) [0..<2] 0 2 w = (([[1, 2]], 0), w)"
    by (simp add: Let_def directOf_def)
  then show ?thesis by (simp add: readRange_def directOf_def)
qed

text \<open>What the places of a payload give that break off, one after another: the bytes of each before it did.\<close>

fun brokenOff :: "'w site \<Rightarrow> 'w source_ctx \<Rightarrow> nat \<Rightarrow> place list \<Rightarrow> 'w \<Rightarrow> (bytes list \<times> 'w) option" where
  "brokenOff s cx n [] w = Some ([], w)"
| "brokenOff s cx n (p # ps) w = (case readRange s (cx_origin cx) p (offOf p) n w of
     ((cs, Inl e), w1) \<Rightarrow> map_option (\<lambda>(bs, w2). (concat cs # bs, w2)) (brokenOff s cx n ps w1) | _ \<Rightarrow> None)"

lemma slices_whole: "concat (slices 0 (int n - 1) a cs) = take (n - a) (concat cs)"
proof (induction cs arbitrary: a)
  case (Cons c cs)
  have m: "max (int a) 0 = int a" by simp
  have tk: "take (min (length c) k) c = take k c" for k by (simp add: min_def)
  show ?case
  proof (cases "c \<noteq> [] \<and> a < n")
    case True
    then have "nat (min (int a + int (length c) - 1) (int n - 1) - int a + 1) = min (length c) (n - a)" by (auto simp: min_def)
    with True Cons.IH [of "a + length c"] show ?thesis by (simp add: m subarray_def Let_def tk)
  next
    case False
    then have "\<not> int a \<le> min (int a + int (length c) - 1) (int n - 1)" by auto
    with False Cons.IH [of "a + length c"] show ?thesis by (simp only: slices.simps Let_def m if_False append.simps) auto
  qed
qed simp

lemma streamFrom_broken:
  assumes "it_a it = 0" and "brokenOff s cx (sg_len (it_seg it)) ps w = Some (bs, w1)"
    and "readRange s (cx_origin cx) p (offOf p) (sg_len (it_seg it)) w1 = ((ds, Inr ()), w2)" and "named (concat ds) = sg_kappa (it_seg it)"
  shows "\<exists>out. streamFrom s cx 0 (int (sg_len (it_seg it)) - 1) it (map Some ps @ Some p # rest) tried w = (out, Inr ())
     \<and> concat out = concat (map (take (sg_len (it_seg it))) bs) @ concat ds"
  using assms(2)
proof (induction ps arbitrary: w bs tried)
  case Nil
  have "concat (slices 0 (int (sg_len (it_seg it)) - 1) 0 ds) = concat ds"
    using readRange_length [OF assms(3)] by (simp add: slices_whole)
  with Nil assms(1,3,4) show ?case by (simp split: unit.split)
next
  case (Cons q qs)
  from Cons.prems obtain cs e w' bs' where q: "readRange s (cx_origin cx) q (offOf q) (sg_len (it_seg it)) w = ((cs, Inl e), w')"
    and b: "brokenOff s cx (sg_len (it_seg it)) qs w' = Some (bs', w1)" "bs = concat cs # bs'"
    by (auto split: prod.splits sum.splits)
  obtain out where o: "streamFrom s cx 0 (int (sg_len (it_seg it)) - 1) it (map Some qs @ Some p # rest) (tried @ [label q]) w' = (out, Inr ())"
    and c: "concat out = concat (map (take (sg_len (it_seg it))) bs') @ concat ds" using Cons.IH [OF b(1)] by blast
  show ?case using q o c b(2) assms(1) by (simp add: slices_whole split: unit.split)
qed

text \<open>
  C26. A payload that is streamed is sent again from its start by every holder after one that breaks off: what each of
  them had sent stays released, the payload of the first that is whole follows, and the transfer ends normally. So
  the file is too long by all that was sent in vain, and wrong, unless nothing was.
\<close>

theorem streamed_repeats:
  assumes "0 < cx_window cx" and "lo_segments lay = [sg]" and "streamed cx sg" and "candidates cx lay sg = map Some ps @ Some p # rest"
    and "brokenOff s cx (sg_len sg) ps (ws 0) = Some (bs, w1)"
    and "readRange s (cx_origin cx) p (offOf p) (sg_len sg) w1 = ((ds, Inr ()), w2)" and "named (concat ds) = sg_kappa sg"
  shows "\<exists>out. assemble s cx lay 0 (int (sg_len sg) - 1) ws = (out, Inr ()) \<and> concat out = concat (map (take (sg_len sg)) bs) @ concat ds
     \<and> (length (concat out) = sg_len sg \<longleftrightarrow> (\<forall>b \<in> set bs. b = []))"
proof -
  have len: "0 < sg_len sg" using assms(3) by (simp add: streamed_def)
  have us: "unitsOf cx lay 0 (int (sg_len sg) - 1) = [single Large (itemOf sg 0)]"
    using assms(3) len by (auto simp: unitsOf_def assms(2) unitStep_def wanted_def streamed_def pieced_def Let_def)
  obtain out where out: "streamFrom s cx 0 (int (sg_len sg) - 1) (itemOf sg 0) (map Some ps @ Some p # rest) [] (ws 0) = (out, Inr ())"
    and c: "concat out = concat (map (take (sg_len sg)) bs) @ concat ds"
    using streamFrom_broken [of "itemOf sg 0" s cx ps "ws 0" bs w1 p ds w2 rest "[]"] assms(5-7) by (auto simp: itemOf_def)
  have "release s cx lay 0 (int (sg_len sg) - 1) (single Large (itemOf sg 0)) (ws 0) = (out, Inr ())"
    using out assms(4) by (simp add: release_def single_def itemOf_def)
  then have "assemble s cx lay 0 (int (sg_len sg) - 1) ws = (out, Inr ())"
    using assemble_in_order [OF assms(1), of s lay 0 "int (sg_len sg) - 1" ws] by (simp add: us)
  moreover have "length (concat out) = sg_len sg \<longleftrightarrow> (\<forall>b \<in> set bs. b = [])"
    using len readRange_length [OF assms(6)] by (simp add: c length_concat sum_list_eq_0_iff) (auto simp: min_def)
  ultimately show ?thesis using c by blast
qed

text \<open>Here a file of the two bytes 1, 2 ends normally as the three bytes 1, 1, 2.\<close>

theorem streamed_repeats_witness:
  "\<exists>out. assemble brokenSite streamCtx streamLayout 0 1 (\<lambda>k. ()) = (out, Inr ()) \<and> concat out = [1, 1, 2] \<and> length (concat out) \<noteq> lo_size streamLayout"
proof -
  define sg where "sg = \<lparr>sg_kind = ''t'', sg_kappa = named [1, 2], sg_len = 2, sg_where = Here 0\<rparr>"
  have c: "candidates streamCtx streamLayout sg = map Some [InFile ''o/m'' ''r'' ''f'' 0] @ Some (AtUrl ''https://b/x'' 0) # []"
    by (simp add: candidates_def streamCtx_def streamLayout_def sg_def addPlace_def samePlace_def)
  have l: "lo_segments streamLayout = [sg]" by (simp add: streamLayout_def sg_def)
  have w: "0 < cx_window streamCtx" "cx_origin streamCtx = ''https://a''" "streamed streamCtx sg"
    by (simp_all add: streamCtx_def streamed_def pieced_def sg_def)
  have b: "brokenOff brokenSite streamCtx (sg_len sg) [InFile ''o/m'' ''r'' ''f'' 0] () = Some ([[1]], ())"
    by (simp add: w sg_def offOf_def broken_first)
  have r: "readRange brokenSite (cx_origin streamCtx) (AtUrl ''https://b/x'' 0) (offOf (AtUrl ''https://b/x'' 0)) (sg_len sg) () = (([[1, 2]], Inr ()), ())"
    by (simp add: w sg_def offOf_def broken_second)
  have "named (concat [[1, 2]]) = sg_kappa sg" by (simp add: sg_def)
  from streamed_repeats [OF w(1) l w(3) c, of brokenSite "\<lambda>k. ()", OF b r this]
  show ?thesis by (auto simp: sg_def streamLayout_def)
qed

subsection \<open>A concrete file\<close>

definition sevenSite :: "unit site" where
  "sevenSite = \<lparr>si_fetch = (\<lambda>url hs w. (if length hs = 2 then Answer 206 None [[7, 7, 7]] None else Answer 200 None [] (Some (False, ''x'')), w)),
     si_now = (\<lambda>w. 0), si_wait = (\<lambda>n w. w), si_book = (\<lambda>w. \<lparr>bk_cdn = Map.empty, bk_down = Map.empty, bk_standing = Map.empty\<rparr>),
     si_keep = (\<lambda>b w. w)\<rparr>"

definition sevenCtx :: "unit source_ctx" where
  "sevenCtx = streamCtx\<lparr>cx_literal := (\<lambda>k w. (Some [7, 7, 7], w)), cx_alternatives := (\<lambda>k. []), cx_buffer := 10\<rparr>"

definition sevenLayout :: layout where
  "sevenLayout = \<lparr>lo_file = ''f'', lo_size = 6, lo_segments =
     [\<lparr>sg_kind = ''l'', sg_kappa = named [7, 7, 7], sg_len = 3, sg_where = Nowhere\<rparr>,
      \<lparr>sg_kind = ''t'', sg_kappa = named [7, 7, 7], sg_len = 3, sg_where = Here 3\<rparr>]\<rparr>"

lemma tryRead_set:
  assumes "\<And>u hs w a b cs e w1. si_fetch s u hs w = (Answer a b cs e, w1) \<Longrightarrow> set (concat cs) \<subseteq> X"
  shows "tryRead s origin p ks pos left w = ((out, l), w1) \<Longrightarrow> set (concat out) \<subseteq> X"
proof (induction ks arbitrary: pos left w out l w1)
  case (Cons k ks)
  obtain out1 l1 f w2 where a: "attempt s origin p (0 < k) pos left w = ((out1, l1, f), w2)" by (metis prod.collapse)
  have X: "set (concat out1) \<subseteq> X"
  proof -
    have "out1 = [] \<or> (\<exists>u hs v st loc cs e v1 n. si_fetch s u hs v = (Answer st loc cs e, v1) \<and> pull left cs = (out1, n))"
      using a by (auto simp: attempt_def split: prod.splits sum.splits answer.splits if_splits) blast+
    then show ?thesis
    proof
      assume "\<exists>u hs v st loc cs e v1 n. si_fetch s u hs v = (Answer st loc cs e, v1) \<and> pull left cs = (out1, n)"
      then obtain u hs v st loc cs e v1 n where c: "si_fetch s u hs v = (Answer st loc cs e, v1)" "pull left cs = (out1, n)" by (elim exE conjE)
      have "set (concat out1) \<subseteq> set (concat cs)" using pull_left [OF c(2)] set_take_subset by metis
      then show ?thesis using assms [OF c(1)] by blast
    qed simp
  qed
  obtain out2 l2 w3 where t: "tryRead s origin p ks (pos + (left - l1)) l1 (if f = None then w2 else si_wait s (2 ^ k * 500) w2) = ((out2, l2), w3)"
    by (metis prod.collapse)
  have "out = [] \<or> out = out1 \<or> out = out1 @ out2" using Cons.prems a t by (cases f) (auto simp: Let_def split: bool.splits if_splits)
  then show ?case
  proof (elim disjE)
    assume "out = out1 @ out2"
    then show ?thesis using X Cons.IH [OF t] by (simp only: concat_append set_append Un_subset_iff)
  qed (simp_all only: X concat.simps set_simps empty_subsetI)
qed simp

lemma seven_read: "readAll (fst (readRange sevenSite origin p a len w)) = Inr b \<Longrightarrow> set b \<subseteq> {7}"
proof -
  assume r: "readAll (fst (readRange sevenSite origin p a len w)) = Inr b"
  obtain out l w1 where t: "tryRead sevenSite origin p [0..<(if directOf p = None then 5 else 2)] a len w = ((out, l), w1)" by (metis prod.collapse)
  have "set (concat out) \<subseteq> {7}" by (rule tryRead_set [OF _ t]) (auto simp: sevenSite_def split: if_splits)
  moreover have "b = concat out" using r t by (auto simp: readRange_def readAll_def andThen_Inr_iff split: if_splits)
  ultimately show ?thesis by simp
qed

lemma all_seven: "length x = 3 \<Longrightarrow> set x \<subseteq> {7} \<Longrightarrow> x = [7, 7, 7]"
  by (auto simp: numeral_3_eq_3 length_Suc_conv)

lemma seven_arrived: "arrived sevenSite sevenCtx sevenLayout 3 x \<Longrightarrow> x = [7, 7, 7]"
proof -
  assume "arrived sevenSite sevenCtx sevenLayout 3 x"
  moreover have "fst (ipfsPiece sevenSite gw h w) \<noteq> Inr (Some y)" for gw h w y by (simp add: ipfsPiece_def sevenSite_def)
  moreover have "x = [7, 7, 7]" if "length x = 3" "readAll (fst (readRange sevenSite origin p a len w)) = Inr b" "x = subarray b i (i + 3)"
    for origin p a len w b i
  proof (rule all_seven [OF that(1)])
    show "set x \<subseteq> {7}" unfolding that(3) subarray_def using seven_read [OF that(2)] by (meson set_drop_subset set_take_subset subset_trans)
  qed
  ultimately show ?thesis unfolding arrived_def by (auto simp: sevenCtx_def sevenLayout_def)
qed

lemma seven_describes: "describes sevenSite sevenCtx sevenLayout [7, 7, 7, 7, 7, 7]"
proof -
  have "collisionFree obj (fst (snd (cx_runs sevenCtx w)))" for obj w
    by (simp add: sevenCtx_def streamCtx_def collisionFree_def received_def sentBy_def)
  then show ?thesis using seven_arrived
    by (auto simp: describes_def sevenLayout_def blockOf_def subarray_def sevenCtx_def [THEN arg_cong [of _ _ cx_pieces]] streamCtx_def)
qed

lemma seven_range: "readRange sevenSite ''https://a'' (InFile repo rv path 3) 3 3 w = (([[7, 7, 7]], Inr ()), w)"
proof -
  have "cdnUrl sevenSite ''https://a'' repo rv path fresh w = (Inr (''https://a'' @ ''/'' @ repo @ ''/resolve/'' @ rv @ ''/'' @ encodePath path), w)" for fresh
    by (simp add: cdnUrl_def Let_def sevenSite_def remember_def eval_nat_numeral UA_def)
  then have "attempt sevenSite ''https://a'' (InFile repo rv path 3) False 3 3 w = (([[7, 7, 7]], 0, None), w)"
    unfolding attempt_def whereFrom_def place.case by (simp add: sevenSite_def rangeHeader_def UA_def)
  moreover have "tryRead sevenSite ''https://a'' (InFile repo rv path 3) ks pos 0 w = (([], 0), w)" for ks pos by (cases ks) simp_all
  moreover have "isDown sevenSite u w = False" for u by (simp add: isDown_def sevenSite_def)
  moreover have "[0..<5] = 0 # [Suc 0..<5]" by (simp add: upt_rec)
  ultimately show ?thesis by (simp add: readRange_def directOf_def Let_def)
qed

lemma seven_ends: "snd (assemble sevenSite sevenCtx sevenLayout 1 4 (\<lambda>k. ())) = Inr ()"
proof -
  define l where "l = \<lparr>sg_kind = ''l'', sg_kappa = named [7, 7, 7], sg_len = 3, sg_where = Nowhere\<rparr>"
  define t where "t = \<lparr>sg_kind = ''t'', sg_kappa = named [7, 7, 7], sg_len = 3, sg_where = Here 3\<rparr>"
  define u where "u = \<lparr>un_kind = Joined, un_src = Some (InFile ''o/m'' ''r'' ''f'' 3), un_start = 3, un_end = 6,
    un_items = [(itemOf t 3)\<lparr>it_src := Some (InFile ''o/m'' ''r'' ''f'' 3)\<rparr>]\<rparr>"
  have c: "candidates sevenCtx sevenLayout t = [Some (InFile ''o/m'' ''r'' ''f'' 3)]"
    by (simp add: candidates_def sevenCtx_def streamCtx_def sevenLayout_def t_def)
  have "lo_segments sevenLayout = [l, t]" by (simp add: sevenLayout_def l_def t_def)
  moreover have "cx_pieces sevenCtx k = None" "cx_buffer sevenCtx = 10" for k by (simp_all add: sevenCtx_def streamCtx_def)
  ultimately have us: "unitsOf sevenCtx sevenLayout 1 4 = [single Literal (itemOf l 0), u]"
    using c by (simp add: unitsOf_def unitStep_def wanted_def l_def Let_def addJoined_def) (simp add: t_def u_def offOf_def)
  have lit: "release sevenSite sevenCtx sevenLayout 1 4 (single Literal (itemOf l 0)) () = ([[7, 7]], Inr ())"
    by (simp add: release_def fetchUnit_def fetchLiteral_def single_def itemOf_def l_def sevenCtx_def cut_def subarray_def)
  have cx: "cx_origin sevenCtx = ''https://a''" "cx_ipfs sevenCtx = []" "0 < cx_window sevenCtx" by (simp_all add: sevenCtx_def streamCtx_def)
  have "readSoon sevenSite ''https://a'' (InFile ''o/m'' ''r'' ''f'' 3) 3 3 () = (Inr [7, 7, 7], ())"
    by (simp add: readSoon_def seven_range readAll_def)
  then have "readWhole sevenSite sevenCtx u () = (Some [7, 7, 7], ())" by (simp add: readWhole_def u_def cx)
  then obtain more where "release sevenSite sevenCtx sevenLayout 1 4 u () = (more, Inr ())"
    by (simp add: release_def fetchUnit_def u_def fetchItem_def itemOf_def t_def subarray_def Let_def)
  then show ?thesis using lit by (simp add: assemble_in_order [OF cx(3)] us split: prod.splits sum.splits)
qed

theorem assembled_exact_witness: "concat (fst (assemble sevenSite sevenCtx sevenLayout 1 4 (\<lambda>k. ()))) = [7, 7, 7, 7]"
proof -
  have w: "0 < cx_window sevenCtx" by (simp add: sevenCtx_def streamCtx_def)
  have s: "\<forall>(sg, a) \<in> set (wantedOf 1 4 (placed 0 (lo_segments sevenLayout))). \<not> streamed sevenCtx sg"
    by (simp add: wantedOf_def wanted_def sevenLayout_def streamed_def sevenCtx_def)
  show ?thesis using assembled_exact [OF seven_describes _ w s prod.collapse [symmetric]] seven_ends by (simp add: subarray_def)
qed

subsection \<open>A view is gathered in the order of its indices\<close>

text \<open>The index of the \<open>k\<close>-th element of a shape in row-major order.\<close>

fun unravel :: "nat list \<Rightarrow> nat \<Rightarrow> nat list" where
  "unravel [] k = []"
| "unravel (n # ns) k = k div prod_list ns # unravel ns (k mod prod_list ns)"

definition carries :: "nat list \<Rightarrow> nat list \<Rightarrow> bool" where
  "carries ns idx \<longleftrightarrow> (\<forall>(i, n) \<in> set (zip idx ns). n \<le> Suc i)"

lemma length_unravel [simp]: "length (unravel ns k) = length ns"
  by (induction ns arbitrary: k) auto

lemma unravel_0: "unravel ns 0 = replicate (length ns) 0"
  by (induction ns) auto

lemma bump_snoc: "bump (xs @ [(i, n)]) = (if \<forall>(j, m) \<in> set xs. m \<le> Suc j then replicate (length xs) 0 @ bump [(i, n)] else bump xs @ [i])"
  by (induction xs) auto

lemma nextIndex_Cons: "nextIndex (n # ns) (i # js) = (if carries ns js
    then (if Suc i < n then Suc i else 0) # replicate (min (length js) (length ns)) 0 else i # nextIndex ns js)"
proof -
  have "(\<forall>(j, m) \<in> set (rev (zip js ns)). m \<le> Suc j) \<longleftrightarrow> carries ns js" by (simp add: carries_def)
  then show ?thesis by (simp add: nextIndex_def bump_snoc)
qed

lemma nextIndex_unravel:
  assumes "\<forall>n \<in> set ns. 0 < n" and "k < prod_list ns"
  shows "(carries ns (unravel ns k) \<longleftrightarrow> Suc k = prod_list ns) \<and> (Suc k < prod_list ns \<longrightarrow> nextIndex ns (unravel ns k) = unravel ns (Suc k))"
  using assms
proof (induction ns arbitrary: k)
  case Nil
  then show ?case by (simp add: carries_def)
next
  case (Cons n ns)
  define q where "q = prod_list ns"
  define i where "i = k div q"
  define j where "j = k mod q"
  have q: "0 < q" using Cons.prems(1) unfolding q_def by (induction ns) auto
  have k: "k = i * q + j" and j: "j < q" using q by (simp_all add: i_def j_def)
  have i: "i < n" using Cons.prems(2) q by (simp add: i_def q_def [symmetric] less_mult_imp_div_less)
  have IH: "carries ns (unravel ns j) \<longleftrightarrow> Suc j = q" "Suc j < q \<Longrightarrow> nextIndex ns (unravel ns j) = unravel ns (Suc j)"
    using Cons.IH [of j] Cons.prems(1) j by (simp_all add: q_def)
  have u: "unravel (n # ns) k = i # unravel ns j" by (simp add: i_def j_def q_def)
  have last: "Suc k = n * q \<longleftrightarrow> Suc i = n \<and> Suc j = q"
  proof
    assume "Suc k = n * q"
    moreover have "i * q + q \<le> n * q" using i mult_le_mono1 [of "Suc i" n q] by simp
    ultimately have "Suc j = q" using k j by linarith
    moreover from this have "Suc i * q = n * q" using \<open>Suc k = n * q\<close> k by simp
    ultimately show "Suc i = n \<and> Suc j = q" using q by (metis mult_right_cancel less_numeral_extra(3))
  qed (auto simp: k)
  have "carries (n # ns) (unravel (n # ns) k) \<longleftrightarrow> n \<le> Suc i \<and> Suc j = q" unfolding u using IH(1) by (simp add: carries_def)
  then have c: "carries (n # ns) (unravel (n # ns) k) \<longleftrightarrow> Suc k = prod_list (n # ns)" using last i by (auto simp: q_def [symmetric])
  have "nextIndex (n # ns) (unravel (n # ns) k) = unravel (n # ns) (Suc k)" if lt: "Suc k < prod_list (n # ns)"
  proof (cases "Suc j = q")
    case True
    then have s: "Suc k = Suc i * q" using k by simp
    then have "Suc i * q < n * q" using lt by (simp add: q_def [symmetric] del: mult_Suc)
    then have "Suc i < n" by (rule mult_less_cancel2 [THEN iffD1, THEN conjunct2])
    moreover have "unravel (n # ns) (Suc k) = Suc i # unravel ns 0" using s q by (simp add: q_def [symmetric] del: mult_Suc)
    ultimately show ?thesis unfolding u using True IH(1) by (simp add: nextIndex_Cons unravel_0)
  next
    case False
    then have sj: "Suc j < q" using j by simp
    have "Suc k = Suc j + i * q" using k by simp
    then have "Suc k div q = i + Suc j div q" "Suc k mod q = Suc j mod q" using q by (simp_all only: div_mult_self1 mod_mult_self1)
    then have "Suc k div q = i" "Suc k mod q = Suc j" using sj by simp_all
    then have "unravel (n # ns) (Suc k) = i # unravel ns (Suc j)" by (simp add: q_def [symmetric])
    then show ?thesis unfolding u using False IH(1) IH(2) [OF sj] by (simp add: nextIndex_Cons)
  qed
  with c show ?case by blast
qed

definition elementOf :: "bytes \<Rightarrow> view \<Rightarrow> nat list \<Rightarrow> nat list \<Rightarrow> nat \<Rightarrow> bytes" where
  "elementOf buf v stride shape k = subarray buf (elementAt v stride (unravel shape k)) (elementAt v stride (unravel shape k) + vw_itemsize v)"

lemma gatherFrom_elements:
  assumes "\<forall>n \<in> set shape. 0 < n" and "\<And>k. k < prod_list shape \<Longrightarrow> elementAt v stride (unravel shape k) + vw_itemsize v \<le> length buf"
    and "k + n = prod_list shape" and "length out = prod_list shape * vw_itemsize v" and "take (k * vw_itemsize v) out = concat (map (elementOf buf v stride shape) [0..<k])"
  shows "gatherFrom buf v stride shape n k (unravel shape k) out = Inr (concat (map (elementOf buf v stride shape) [0..<prod_list shape]))"
  using assms(3-5)
proof (induction n arbitrary: k out)
  case 0
  then show ?case by simp
next
  case (Suc n)
  let ?e = "elementOf buf v stride shape k" let ?z = "vw_itemsize v"
  define out' where "out' = copyInto out (k * ?z) ?e"
  have k: "k < prod_list shape" using Suc.prems(1) by simp
  have e: "length ?e = ?z" using assms(2) [OF k] by (simp add: elementOf_def length_subarray)
  have "Suc k * ?z \<le> length out" using k Suc.prems(2) mult_le_mono1 [of "Suc k" "prod_list shape" ?z] by simp
  then have o: "out' = take (k * ?z) out @ ?e @ drop (k * ?z + ?z) out" and l: "length out' = length out"
    using e by (simp_all add: out'_def copyInto_def)
  have "length (take (k * ?z) out @ ?e) = Suc k * ?z" using e \<open>Suc k * ?z \<le> length out\<close> by simp
  then have "take (Suc k * ?z) out' = take (k * ?z) out @ ?e" unfolding o by (metis append.assoc append_eq_conv_conj)
  then have t: "take (Suc k * ?z) out' = concat (map (elementOf buf v stride shape) [0..<Suc k])"
    using Suc.prems(3) by simp
  have step: "gatherFrom buf v stride shape (Suc n) k (unravel shape k) out = gatherFrom buf v stride shape n (Suc k) (nextIndex shape (unravel shape k)) out'"
    using assms(2) [OF k] by (simp add: Let_def out'_def elementOf_def)
  show ?case
  proof (cases n)
    case 0
    then have "Suc k = prod_list shape" using Suc.prems(1) by simp
    then show ?thesis using t l Suc.prems(2) 0 unfolding step by simp
  next
    case (Suc m)
    then have "Suc k < prod_list shape" using Suc.prems(1) by simp
    then have "nextIndex shape (unravel shape k) = unravel shape (Suc k)" using nextIndex_unravel [OF assms(1) k] by blast
    then show ?thesis unfolding step using Suc.IH [of "Suc k" out'] Suc.prems(1,2) l t by simp
  qed
qed

text \<open>
  C20. A strided view inside a storage is gathered exactly: when every element lies in the storage, the bytes of
  the tensor are its elements in row-major order of their indices, whatever the new buffer held before.
\<close>

theorem gathered_in_order:
  assumes "vw_stride v = Some stride" and "length stride = length shape" and "0 < vw_itemsize v" and "\<forall>n \<in> set shape. 0 < n"
    and "len = prod_list shape * vw_itemsize v" and "length raw = len"
    and "\<And>k. k < prod_list shape \<Longrightarrow> elementAt v stride (unravel shape k) + vw_itemsize v \<le> length buf"
  shows "gather raw buf v shape len = Inr (concat (map (elementOf buf v stride shape) [0..<prod_list shape]))"
proof -
  have "len + vw_itemsize v - 1 = (vw_itemsize v - 1) + prod_list shape * vw_itemsize v" using assms(3,5) by simp
  then have "(len + vw_itemsize v - 1) div vw_itemsize v = (vw_itemsize v - 1) div vw_itemsize v + prod_list shape"
    using assms(3) by (simp only: div_mult_self1)
  then have "(len + vw_itemsize v - 1) div vw_itemsize v = prod_list shape" using assms(3) by simp
  moreover have "gatherFrom buf v stride shape (prod_list shape) 0 (unravel shape 0) raw = Inr (concat (map (elementOf buf v stride shape) [0..<prod_list shape]))"
    by (rule gatherFrom_elements) (use assms in auto)
  ultimately show ?thesis using assms(1-3) by (simp add: gather_def unravel_0)
qed

theorem gathered_in_order_witness:
  "gather [0, 0, 0, 0, 0, 0] [1, 2, 3, 4, 5, 6] \<lparr>vw_o = 0, vw_stride = Some [1, 3], vw_itemsize = 1\<rparr> [3, 2] 6 = Inr [1, 4, 2, 5, 3, 6]"
proof -
  let ?v = "\<lparr>vw_o = 0, vw_stride = Some [1, 3], vw_itemsize = 1\<rparr>"
  have "[0..<6] = [0, 1, 2, 3, 4, 5::nat]" by (simp add: upt_rec)
  moreover have "\<forall>k \<in> set [0..<6]. elementAt ?v [1, 3] (unravel [3, 2] k) + 1 \<le> 6" by code_simp
  ultimately show ?thesis
    using gathered_in_order [of ?v "[1, 3]" "[3, 2]" 6 "[0, 0, 0, 0, 0, 0]" "[1, 2, 3, 4, 5, 6]"]
    by (simp add: elementOf_def elementAt_def subarray_def)
qed

end
