(* ===== verification/Mirrored.thy ===== *)
theory Mirrored
  imports Mirror Rebuilt
begin

text \<open>
  What the tensor mirror promises (\<open>deploy/tensor-mirror.mjs\<close>): an answer that names a digest has that
  digest, a rebuilt range is the range its head announces, and only models that passed the gate are sources.
\<close>

subsection \<open>A named answer has its digest\<close>

definition namedRight :: "req \<Rightarrow> res \<Rightarrow> bool" where
  "namedRight q r \<longleftrightarrow> (\<forall>d. q_verb q \<noteq> ''HEAD'' \<and> map_of (o_headers r) ''docker-content-digest'' = Some d \<and> o_status r = 200 \<longrightarrow> named (o_body r) = d)"

lemma held_named: "held dk d = Some b \<Longrightarrow> named b = d"
  by (auto simp: held_def split: if_splits option.splits)

lemma namedRight_plain: "map_of (o_headers r) ''docker-content-digest'' = None \<Longrightarrow> namedRight q r"
  by (simp add: namedRight_def)

lemma sayJson_right: "map_of extra ''docker-content-digest'' = None \<Longrightarrow> namedRight q (sayJson v j extra)"
  by (rule namedRight_plain) (simp add: sayJson_def Let_def map_add_def)

lemma fresh_right [simp]: "map_of FRESH ''docker-content-digest'' = None" "map_of ANYONE ''docker-content-digest'' = None"
  by (simp_all add: FRESH_def ANYONE_def)

lemma mirrorError_right [simp]: "namedRight q (mirrorError v n c t)"
  by (rule namedRight_plain) (simp add: mirrorError_def Let_def)

lemma sendBytes_right: "named b = d \<Longrightarrow> namedRight q (sendBytes (q_verb q) b ty d)"
  by (simp add: namedRight_def sendBytes_def)

lemma heldAnswer_right: "namedRight q (heldAnswer dk q d ty t)"
  by (auto simp: heldAnswer_def split: option.splits intro: sendBytes_right held_named)

lemma manifestAnswer_right: "namedRight q (manifestAnswer dk q repo m ref)"
  by (auto simp: manifestAnswer_def Let_def split: option.splits if_splits intro: sendBytes_right held_named)

lemma heldFile_right: "named bs = ref \<Longrightarrow> namedRight q (heldFile q m ref b bs)"
  by (simp add: namedRight_def heldFile_def sendBytes_def Let_def)

lemma redirect_right [simp]: "namedRight q (redirect env repo m ref b p)"
  by (simp add: namedRight_def redirect_def)

lemma rebuildFile_right: "fst (rebuildFile env mo rb q repo m ref b pf lay sv) = Said r \<Longrightarrow> namedRight q r"
  by (auto simp: rebuildFile_def Let_def namedRight_def split: prod.splits if_splits)

lemma fileAnswer_right: "fst (fileAnswer env mo rb q space repo m ref b sv) = Said r \<Longrightarrow> namedRight q r"
  using rebuildFile_right [of env mo rb q repo m ref b]
  by (auto simp: fileAnswer_def Let_def split: prod.splits if_splits option.splits sum.splits)

lemma blobAnswer_right: "fst (blobAnswer env mo rb q space repo m ref sv) = Said r \<Longrightarrow> namedRight q r"
  using fileAnswer_right [of env mo rb q space repo m ref _ sv r]
  by (auto simp: blobAnswer_def Let_def namedRight_def [of q "\<lparr>o_status = _, o_headers = _, o_body = _\<rparr>"]
      split: if_splits option.splits intro: sendBytes_right heldFile_right held_named)

lemma records_right: "fst (recordsAnswer env mo q repo m ref sv) = Said r \<Longrightarrow> namedRight q r"
  by (auto simp: recordsAnswer_def sayJson_right split: prod.splits sum.splits option.splits)

lemma kappa_right: "fst (kappaAnswer env mo q k sv) = Said r \<Longrightarrow> namedRight q r"
  by (auto simp: kappaAnswer_def sayJson_right split: prod.splits sum.splits option.splits)

lemma alternatives_right: "alternativesAnswer dk q alts ref = Said r \<Longrightarrow> namedRight q r"
  by (auto simp: alternativesAnswer_def sayJson_right split: sum.splits option.splits if_splits)

lemma modelRoute_right: "fst (modelRoute env mo rb q space kind ref repo m sv) = Said r \<Longrightarrow> namedRight q r"
  using blobAnswer_right [of env mo rb q space repo m "shownRef ref" sv r] alternatives_right records_right [of env mo q repo m ref sv r]
  by (auto simp: modelRoute_def Let_def tagsAnswer_def sayJson_right heldAnswer_right manifestAnswer_right split: if_splits)

text \<open>
  C22. Whatever is on the disk, damaged files included, an answer that the tensor mirror composes itself with status
  200, a digest and a body has the body of that digest. (A rebuilt file is streamed; what is sent of it is another
  property.)
\<close>

theorem mirror_named:
  assumes "tensorMirror env mo rb q path sv = (Said r, sv')" and "q_verb q \<noteq> ''HEAD''" and "o_status r = 200"
    and "map_of (o_headers r) ''docker-content-digest'' = Some d"
  shows "named (o_body r) = d"
proof -
  have "namedRight q r"
    using assms(1) modelRoute_right [of env mo rb q] kappa_right [of env mo q]
    by (auto simp: tensorMirror_def Let_def catalogue_def summaryAnswer_def noIndex_def sayJson_right
        split: if_splits option.splits prod.splits) (metis fst_conv)+
  then show ?thesis using assms(2-4) unfolding namedRight_def by blast
qed

subsection \<open>Ranges\<close>

lemma parse_suffix: "parseRange (''bytes=-'' @ decimal k) = Some ([], decimal k)"
proof -
  have "CHR ''-'' \<notin> set (decimal k)" using decimal_digits by (fastforce simp: isDigit_def)
  then have "splitAt (CHR ''-'') (CHR ''-'' # decimal k) = [[], decimal k]" by (simp add: splitAt_none)
  then show ?thesis using decimal_digits by (auto simp: parseRange_def startsWith_def list_all_iff)
qed

lemma decimal_ne [simp]: "decimal k \<noteq> []"
  by (subst decimal.simps) simp

lemma baseHeads_none: "k \<in> {''content-length'', ''content-range''} \<Longrightarrow> map_of (baseHeads m ref b) k = None"
  by (auto simp: baseHeads_def hfMeta_def)

lemma streamHeads_length: "map_of (streamHeads (baseHeads m ref b) start stop n status) ''content-length'' = Some (signed (stop - start + 1))"
  by (simp add: streamHeads_def baseHeads_none map_add_def OCTETS_def)

lemma streamHeads_range: "map_of (streamHeads (baseHeads m ref b) start stop n 206) ''content-range'' = Some (''bytes '' @ signed start @ ''-'' @ signed stop @ ''/'' @ decimal n)"
  by (simp add: streamHeads_def baseHeads_none map_add_def OCTETS_def)

lemma rangeOf_end: "rangeOf n h = (start, stop, status) \<Longrightarrow> stop < int n"
  by (auto simp: rangeOf_def split: option.splits prod.splits if_splits)

text \<open>
  C6. A rebuilt range is what its head announces: for the file that the layout describes, what was sent is a
  beginning of the bytes of the announced range, and after a normal end it is all of them, as many as the
  Content-Length says, unless the range is a suffix longer than the file or a payload is streamed unchecked.
\<close>

theorem rebuilt_range:
  assumes "rebuildFile env mo rb q repo m ref b pf lay sv = (Streaming status heads cs r, sv')"
    and "cx = rebuildCtx env (mm_disk mo) rb repo m (ts_alts (sv_state sv)) pf (fst (piecesOf (mm_disk mo) m sv))"
    and "describes (rb_site rb) cx lay obj" and "lo_size lay = length obj" and "0 < rb_window rb"
    and "\<forall>sg \<in> set (lo_segments lay). \<not> streamed cx sg"
  shows "\<exists>start stop. start \<le> stop \<and> stop < int (length obj) \<and> map_of heads ''content-length'' = Some (signed (stop - start + 1))
    \<and> (status = 206 \<longrightarrow> map_of heads ''content-range'' = Some (''bytes '' @ signed start @ ''-'' @ signed stop @ ''/'' @ decimal (length obj)))
    \<and> (\<exists>more. subarray obj (nat start) (nat (stop + 1)) = concat cs @ more)
    \<and> (r = Inr () \<longrightarrow> concat cs = subarray obj (nat start) (nat (stop + 1)))
    \<and> (r = Inr () \<and> 0 \<le> start \<longrightarrow> int (length (concat cs)) = stop - start + 1)"
proof -
  obtain start stop st where rg: "rangeOf (lo_size lay) (case headerOf q ''range'' of Some h \<Rightarrow> h | None \<Rightarrow> []) = (start, stop, st)" by (metis prod.collapse)
  have ok: "start \<le> stop" using assms(1) rg by (auto simp: rebuildFile_def Let_def split: if_splits)
  have st: "stop < int (length obj)" using rangeOf_end [OF rg] assms(4) by simp
  obtain pieces sv1 where p: "piecesOf (mm_disk mo) m sv = (pieces, sv1)" by fastforce
  have as: "assemble (rb_site rb) cx lay start stop (rb_worlds rb) = (cs, r)" and h: "heads = streamHeads (baseHeads m ref b) start stop (lo_size lay) status" "st = status"
    using assms(1,2) rg p by (auto simp: rebuildFile_def Let_def split: if_splits prod.splits)
  have w: "0 < cx_window cx" using assms(2,5) by (simp add: rebuildCtx_def)
  have ns: "\<forall>(sg, a) \<in> set (wantedOf start stop (placed 0 (lo_segments lay))). \<not> streamed cx sg"
    using assms(6) placed_seg by (fastforce simp: wantedOf_def)
  note A = assembled_range [OF assms(3) ok w ns as]
  have "int (length (subarray obj (nat start) (nat (stop + 1)))) = stop - start + 1" if "0 \<le> start"
    using that ok st by (simp add: length_subarray)
  then have len: "r = Inr () \<and> 0 \<le> start \<longrightarrow> int (length (concat cs)) = stop - start + 1" using A by simp
  have cl: "map_of heads ''content-length'' = Some (signed (stop - start + 1))" unfolding h(1) by (rule streamHeads_length)
  have cr: "status = 206 \<longrightarrow> map_of heads ''content-range'' = Some (''bytes '' @ signed start @ ''-'' @ signed stop @ ''/'' @ decimal (length obj))"
    unfolding h(1) assms(4) [symmetric] using streamHeads_range by blast
  show ?thesis by (rule exI [of _ start], rule exI [of _ stop]) (intro conjI ok st cl cr A [THEN conjunct1] A [THEN conjunct2] len)
qed

text \<open>
  C27. A suffix longer than the file is answered wrongly: a request for the last \<open>k\<close> bytes of a rebuilt file of
  \<open>n < k\<close> bytes announces \<open>k\<close> bytes from a negative offset, where the protocol asks for the whole file.
\<close>

theorem suffix_overlong:
  assumes "headerOf q ''range'' = Some (''bytes=-'' @ decimal k)" and "0 < lo_size lay" and "lo_size lay < k"
  shows "\<exists>heads cs r. fst (rebuildFile env mo rb q repo m ref b pf lay sv) = Streaming 206 heads cs r
    \<and> map_of heads ''content-length'' = Some (decimal k)
    \<and> map_of heads ''content-range'' = Some (''bytes -'' @ decimal (k - lo_size lay) @ ''-'' @ decimal (lo_size lay - 1) @ ''/'' @ decimal (lo_size lay))"
proof -
  let ?n = "lo_size lay"
  have rg: "rangeOf ?n (''bytes=-'' @ decimal k) = (int ?n - int k, int ?n - 1, 206)" 
    unfolding rangeOf_def parse_suffix by (simp add: undecimal_decimal)
  obtain pieces sv1 where p: "piecesOf (mm_disk mo) m sv = (pieces, sv1)" by fastforce
  obtain cs r where a: "assemble (rb_site rb) (rebuildCtx env (mm_disk mo) rb repo m (ts_alts (sv_state sv)) pf pieces) lay (int ?n - int k) (int ?n - 1) (rb_worlds rb) = (cs, r)"
    by fastforce
  have "fst (rebuildFile env mo rb q repo m ref b pf lay sv)
      = Streaming 206 (streamHeads (baseHeads m ref b) (int ?n - int k) (int ?n - 1) ?n 206) cs r"
    using assms rg p a by (simp add: rebuildFile_def)
  moreover have "signed (int ?n - 1 - (int ?n - int k) + 1) = decimal k" by (simp add: signed_def)
  moreover have "signed (int ?n - int k) = CHR ''-'' # decimal (k - ?n)" using assms(3) by (simp add: signed_def nat_diff_distrib)
  moreover have "signed (int ?n - 1) = decimal (?n - 1)" using assms(2) by (simp add: signed_def nat_diff_distrib)
  ultimately show ?thesis using streamHeads_length streamHeads_range by (intro exI conjI) auto
qed

subsection \<open>Who may be a source\<close>

text \<open>The state after any number of loads, at any times, from any disks.\<close>

inductive keeps :: "menv \<Rightarrow> tstate \<Rightarrow> bool" for env where
  fresh: "keeps env \<lparr>ts_at = 0, ts_mtime = 0, ts_models = [], ts_alts = [], ts_lower = [], ts_root = None, ts_coverage = []\<rparr>"
| load: "keeps env st \<Longrightarrow> keeps env (loadState env now dk st)"

definition placeOk :: "menv \<Rightarrow> models \<Rightarrow> place \<Rightarrow> bool" where
  "placeOk env ms p \<longleftrightarrow> (case p of InFile repo _ _ _ \<Rightarrow> gatedIn ms repo | AtUrl u _ \<Rightarrow> me_gateway env \<noteq> [] \<and> startsWith u (noTrailingSlash (me_gateway env) @ ''/ipfs/''))"

definition altsOk :: "menv \<Rightarrow> models \<Rightarrow> alternatives \<Rightarrow> bool" where
  "altsOk env ms alts \<longleftrightarrow> (\<forall>k ps p. (k, ps) \<in> set alts \<longrightarrow> p \<in> set ps \<longrightarrow> placeOk env ms (fst p))"

lemma map_default_set: "(k', ps) \<in> set (AList.map_default k [a] (\<lambda>xs. xs @ [a]) alts) \<Longrightarrow> p \<in> set ps \<Longrightarrow> p = a \<or> (\<exists>qs. (k', qs) \<in> set alts \<and> p \<in> set qs)"
  by (induction alts) (auto split: if_splits)

lemma pushAlt_ok: "altsOk env ms alts \<Longrightarrow> placeOk env ms (fst a) \<Longrightarrow> altsOk env ms (pushAlt k a alts)"
  unfolding altsOk_def pushAlt_def by (metis map_default_set)

lemma sourceStep_ok: "altsOk env ms (fst st) \<Longrightarrow> altsOk env ms (fst (sourceStep ms st row))"
  by (auto simp: sourceStep_def placeOk_def intro!: pushAlt_ok split: prod.splits)

lemma sources_ok: "altsOk env ms (fst st) \<Longrightarrow> altsOk env ms (fst (foldl (sourceStep ms) st rows))"
  by (induction rows arbitrary: st) (simp_all add: sourceStep_ok)

lemma pins_ok: "me_gateway env \<noteq> [] \<Longrightarrow> altsOk env ms alts \<Longrightarrow> altsOk env ms (fold (pinPlace (me_gateway env)) ps alts)"
proof (induction ps arbitrary: alts)
  case (Cons p ps)
  have "altsOk env ms (pinPlace (me_gateway env) p alts)"
    using Cons.prems by (auto simp: pinPlace_def placeOk_def startsWith_def intro!: pushAlt_ok split: prod.splits)
  then show ?case using Cons by simp
qed simp

lemma published_ok: "published env now dk t ms = Some st \<Longrightarrow> ts_models st = ms \<and> altsOk env ms (ts_alts st)"
proof -
  assume p: "published env now dk t ms = Some st"
  then obtain rows where r: "sourceRows (dk_sources dk) = Some rows" by (auto simp: published_def split: option.splits)
  obtain alts ls where a: "foldl (sourceStep ms) ([], []) rows = (alts, ls)" by fastforce
  have "altsOk env ms ([] :: alternatives)" by (simp add: altsOk_def)
  then have "altsOk env ms alts" using sources_ok [of env ms "([], [])" rows] a by simp
  moreover have "ts_models st = ms \<and> (\<exists>ps. ts_alts st = (if me_gateway env = [] then alts else fold (pinPlace (me_gateway env)) ps alts))"
  proof (cases "dk_pins dk")
    case Absent
    then show ?thesis using p r a by (intro conjI exI [of _ "[]"]) (auto simp: published_def Let_def)
  next
    case (Has ps)
    then show ?thesis using p r a by (intro conjI exI [of _ ps]) (auto simp: published_def Let_def)
  qed (use p r in \<open>simp add: published_def\<close>)
  ultimately show ?thesis using pins_ok by auto
qed

text \<open>
  C23. Only models that passed the gate are sources: at any time of the process, whatever was published
  meanwhile, broken files included, every alternative place of a payload is in a file of a gated model of the
  index in use, or is an object of the configured gateway.
\<close>

theorem only_gated_sources:
  assumes "keeps env st" and "p \<in> set (placesOf (ts_alts st) k)"
  shows "case fst p of InFile repo _ _ _ \<Rightarrow> gatedIn (ts_models st) repo
    | AtUrl u _ \<Rightarrow> me_gateway env \<noteq> [] \<and> startsWith u (noTrailingSlash (me_gateway env) @ ''/ipfs/'')"
proof -
  have "altsOk env (ts_models st) (ts_alts st)" using assms(1)
  proof induction
    case fresh
    then show ?case by (simp add: altsOk_def)
  next
    case (load st now dk)
    then show ?case using published_ok [of env now dk _ _ _] by (auto simp: loadState_def split: option.splits stored.splits)
  qed
  moreover obtain ps where "(k, ps) \<in> set (ts_alts st)" "p \<in> set ps"
    using assms(2) by (cases "map_of (ts_alts st) k") (auto simp: placesOf_def dest: map_of_SomeD)
  ultimately have "placeOk env (ts_models st) (fst p)" unfolding altsOk_def by blast
  then show ?thesis by (simp add: placeOk_def)
qed

subsection \<open>Concrete requests\<close>

definition sampleReq :: req where
  "sampleReq = \<lparr>q_verb = ''GET'', q_url = ''/'', q_path = ''/'', q_query = [], q_heads = [(''range'', ''bytes=1-4'')], q_data = []\<rparr>"

definition sampleDisk :: disk where
  "sampleDisk = \<lparr>dk_models = Some (1, Has [(''O/m'', sampleModel)]), dk_sources = [Has [(''k'', ''O/m'', ''r'', ''f.bin'', 0, 3)]], dk_pins = Absent, dk_latest = Absent, dk_car = Absent,
     dk_objects = (\<lambda>h. if h = sha256hex [7, 7, 7] then Some [7, 7, 7] else None)\<rparr>"

definition sampleEnv :: menv where
  "sampleEnv = \<lparr>me_origin = ''https://a'', me_gateway = [], me_ipfs = []\<rparr>"

definition sampleMoment :: moment where
  "sampleMoment = \<lparr>mm_now = 100000, mm_disk = sampleDisk, mm_probe = False\<rparr>"

definition emptyState :: tstate where
  "emptyState = \<lparr>ts_at = 0, ts_mtime = 0, ts_models = [], ts_alts = [], ts_lower = [], ts_root = None, ts_coverage = []\<rparr>"

definition sampleServer :: server where
  "sampleServer = \<lparr>sv_state = emptyState, sv_recs = [], sv_pieces = [(''t'', None)], sv_hf = (0, True)\<rparr>"

lemma sample_loaded: "loadState sampleEnv 100000 sampleDisk emptyState = \<lparr>ts_at = 100000, ts_mtime = 1, ts_models = [(''O/m'', sampleModel)],
    ts_alts = [(''k'', [(InFile ''O/m'' ''r'' ''f.bin'' 0, 3)])], ts_lower = [(lower ''O/m'', ''O/m'')], ts_root = None,
    ts_coverage = [(''O/m'', \<lparr>cv_pinned = 0, cv_total = 1, cv_sample = None\<rparr>)]\<rparr>"
  by (simp add: loadState_def emptyState_def sampleDisk_def sampleEnv_def STATE_KEEP_def published_def sourceStep_def gatedIn_def pushAlt_def
      rootOf_def coverageOf_def coverStep_def) (simp add: sampleModel_def)

theorem only_gated_sources_witness: "gatedIn (ts_models (loadState sampleEnv 100000 sampleDisk emptyState)) ''O/m''"
proof -
  have "keeps sampleEnv (loadState sampleEnv 100000 sampleDisk emptyState)" unfolding emptyState_def by (intro keeps.load keeps.fresh)
  moreover have "(InFile ''O/m'' ''r'' ''f.bin'' 0, 3) \<in> set (placesOf (ts_alts (loadState sampleEnv 100000 sampleDisk emptyState)) ''k'')"
    by (simp add: sample_loaded placesOf_def)
  ultimately show ?thesis using only_gated_sources by fastforce
qed

definition sampleRebuild :: "unit rebuild" where
  "sampleRebuild = \<lparr>rb_site = sevenSite, rb_runs = cx_runs sevenCtx, rb_raw = cx_raw sevenCtx, rb_worlds = (\<lambda>k. ()), rb_buffer = 10, rb_window = 4\<rparr>"

definition sampleCtx :: "unit source_ctx" where
  "sampleCtx = rebuildCtx sampleEnv sampleDisk sampleRebuild ''o/m'' sampleModel [] False None"

lemma sample_held: "held sampleDisk (named [7, 7, 7]) = Some [7, 7, 7]" "held sampleDisk d = Some x \<Longrightarrow> x = [7, 7, 7]"
proof -
  have "isHex64 (sha256hex [7, 7, 7])" using isHex64_hex [of "sha256 [7, 7, 7]"] by (simp add: sha256hex_def length_sha256)
  then show "held sampleDisk (named [7, 7, 7]) = Some [7, 7, 7]" by (simp add: held_def isAddr_def named_def startsWith_def sampleDisk_def)
qed (auto simp: held_def sampleDisk_def split: if_splits option.splits)

lemma sample_arrived: "arrived sevenSite sampleCtx sevenLayout 3 x \<Longrightarrow> x = [7, 7, 7]"
proof -
  assume "arrived sevenSite sampleCtx sevenLayout 3 x"
  then have "(\<exists>k w. fst (cx_literal sampleCtx k w) = Some x) \<or> arrived sevenSite sevenCtx sevenLayout 3 x"
    unfolding arrived_def by (auto simp: sevenLayout_def)
  then show ?thesis using seven_arrived sample_held(2) by (auto simp: sampleCtx_def rebuildCtx_def)
qed

lemma sample_describes: "describes sevenSite sampleCtx sevenLayout [7, 7, 7, 7, 7, 7]"
proof -
  have "cx_runs sampleCtx = cx_runs sevenCtx" by (simp add: sampleCtx_def rebuildCtx_def sampleRebuild_def)
  moreover have "collisionFree obj (fst (snd (cx_runs sevenCtx w)))" for obj w
    by (simp add: sevenCtx_def streamCtx_def collisionFree_def received_def sentBy_def)
  moreover have "cx_pieces sampleCtx k = None" for k by (simp add: sampleCtx_def rebuildCtx_def)
  ultimately show ?thesis using sample_arrived by (auto simp: describes_def sevenLayout_def blockOf_def subarray_def)
qed

definition sampleBlob :: blob where
  "sampleBlob = \<lparr>bl_path = Some ''f'', bl_size = 6, bl_layout = Some ''l'', bl_held = False, bl_upstream = False\<rparr>"

theorem rebuilt_range_witness:
  "\<exists>start stop heads cs r. fst (rebuildFile sampleEnv sampleMoment sampleRebuild sampleReq ''o/m'' sampleModel ''sha256:x'' sampleBlob False sevenLayout sampleServer)
      = Streaming 206 heads cs r \<and> map_of heads ''content-length'' = Some (signed (stop - start + 1))
      \<and> (r = Inr () \<longrightarrow> concat cs = subarray [7, 7, 7, 7, 7, 7] (nat start) (nat (stop + 1)))"
proof -
  have rg: "rangeOf (lo_size sevenLayout) (case headerOf sampleReq ''range'' of Some h \<Rightarrow> h | None \<Rightarrow> []) = (1, 4, 206)"
    by (simp add: rangeOf_def parseRange_def headerOf_def sampleReq_def startsWith_def isDigit_def undecimal_def digitVal_def sevenLayout_def)
  have pc: "piecesOf (mm_disk sampleMoment) sampleModel sampleServer = (None, sampleServer)"
    by (simp add: piecesOf_def sampleServer_def sampleModel_def)
  have cx: "sampleCtx = rebuildCtx sampleEnv (mm_disk sampleMoment) sampleRebuild ''o/m'' sampleModel (ts_alts (sv_state sampleServer)) False
      (fst (piecesOf (mm_disk sampleMoment) sampleModel sampleServer))"
    unfolding pc by (simp add: sampleCtx_def sampleMoment_def sampleServer_def emptyState_def)
  obtain cs r where a: "assemble (rb_site sampleRebuild) sampleCtx sevenLayout 1 4 (rb_worlds sampleRebuild) = (cs, r)" by fastforce
  have f: "rebuildFile sampleEnv sampleMoment sampleRebuild sampleReq ''o/m'' sampleModel ''sha256:x'' sampleBlob False sevenLayout sampleServer
      = (Streaming 206 (streamHeads (baseHeads sampleModel ''sha256:x'' sampleBlob) 1 4 (lo_size sevenLayout) 206) cs r, sampleServer)"
    unfolding rebuildFile_def rg using pc a cx by (simp add: sevenLayout_def [THEN arg_cong [of _ _ lo_size]])
  have s: "describes (rb_site sampleRebuild) sampleCtx sevenLayout [7, 7, 7, 7, 7, 7]" "lo_size sevenLayout = length [7, 7, 7, 7, 7, 7 :: byte]" "0 < rb_window sampleRebuild"
    using sample_describes by (simp_all add: sampleRebuild_def sevenLayout_def)
  have ns: "\<forall>sg \<in> set (lo_segments sevenLayout). \<not> streamed sampleCtx sg"
    by (simp add: sevenLayout_def streamed_def sampleCtx_def rebuildCtx_def sampleRebuild_def)
  from rebuilt_range [OF f cx s ns] f show ?thesis by (metis fst_conv)
qed

theorem suffix_overlong_witness:
  "\<exists>heads cs r. fst (rebuildFile sampleEnv sampleMoment sampleRebuild (sampleReq\<lparr>q_heads := [(''range'', ''bytes=-'' @ decimal 100)]\<rparr>) ''o/m'' sampleModel ''sha256:x''
      sampleBlob False sevenLayout sampleServer) = Streaming 206 heads cs r \<and> map_of heads ''content-length'' = Some (decimal 100)"
proof -
  have "headerOf (sampleReq\<lparr>q_heads := [(''range'', ''bytes=-'' @ decimal 100)]\<rparr>) ''range'' = Some (''bytes=-'' @ decimal 100)"
    by (simp add: headerOf_def)
  moreover have "0 < lo_size sevenLayout" "lo_size sevenLayout < 100" by (simp_all add: sevenLayout_def)
  ultimately show ?thesis
    using suffix_overlong [of "sampleReq\<lparr>q_heads := [(''range'', ''bytes=-'' @ decimal 100)]\<rparr>" 100 sevenLayout sampleEnv sampleMoment sampleRebuild
      "''o/m''" sampleModel "''sha256:x''" sampleBlob False sampleServer] by blast
qed

lemma sample_served: "servedModel (loadState sampleEnv 100000 sampleDisk emptyState) ''o/m'' = Some (''O/m'', sampleModel)"
proof -
  have "lower ''O/m'' = ''o/m''" "lower ''o/m'' = ''o/m''" by code_simp+
  then show ?thesis by (simp add: sample_loaded servedModel_def repoOf_def) (simp add: sampleModel_def)
qed

lemma sample_path:
  fixes k :: string
  assumes "CHR ''/'' \<notin> set k" and "k \<noteq> []"
  shows "mirrorPath (''/v2/models/o/m/blobs/'' @ k) = Some (''models'', ''o/m'', ''blobs'', Some k)" "summaryPath (''/v2/models/o/m/blobs/'' @ k) = None"
    "kappaPath (''/v2/models/o/m/blobs/'' @ k) = None"
proof -
  have "splitAt (CHR ''/'') (''/v2/models/o/m/blobs/'' @ k) = [[], ''v2'', ''models'', ''o'', ''m'', ''blobs'', k]"
    using assms(1) by (simp add: splitAt_none)
  then show "mirrorPath (''/v2/models/o/m/blobs/'' @ k) = Some (''models'', ''o/m'', ''blobs'', Some k)" "summaryPath (''/v2/models/o/m/blobs/'' @ k) = None"
    using assms(2) by (simp_all add: mirrorPath_def summaryPath_def KINDS_def)
qed (simp add: kappaPath_def startsWith_def)

lemma named_chars: "c \<in> set (named b) \<Longrightarrow> c \<noteq> CHR ''/''"
  using isHexChar_hex [of c "sha256 b"] by (auto simp: named_def sha256hex_def isHexChar_def isDigit_def)

theorem mirror_named_witness:
  "\<exists>r sv'. tensorMirror sampleEnv sampleMoment sampleRebuild sampleReq (''/v2/models/o/m/blobs/'' @ named [7, 7, 7]) sampleServer = (Said r, sv')
     \<and> named (o_body r) = named [7, 7, 7]"
proof -
  let ?k = "named [7, 7, 7]"
  have "CHR ''/'' \<notin> set ?k" "?k \<noteq> []" using named_chars by (auto simp: named_def)
  note P = sample_path [OF this]
  define st where "st = loadState sampleEnv 100000 sampleDisk emptyState"
  have l: "loaded sampleEnv sampleMoment sampleServer = sampleServer\<lparr>sv_state := st\<rparr>"
    by (simp add: loaded_def sampleMoment_def sampleServer_def st_def)
  have n: "?k \<noteq> ''t''" "map_of (md_blobs sampleModel) ?k = None" "?k \<notin> set INHERITED" "md_table sampleModel = ''t''"
    by (simp_all add: named_def sampleModel_def INHERITED_def)
  have "blobAnswer sampleEnv sampleMoment sampleRebuild sampleReq ''models'' ''O/m'' sampleModel ?k (sampleServer\<lparr>sv_state := st\<rparr>)
      = (Said (sendBytes ''GET'' [7, 7, 7] ''application/octet-stream'' ?k), sampleServer\<lparr>sv_state := st\<rparr>)"
    using n sample_held(1) by (simp add: blobAnswer_def sampleMoment_def sampleReq_def)
  then have t: "tensorMirror sampleEnv sampleMoment sampleRebuild sampleReq (''/v2/models/o/m/blobs/'' @ ?k) sampleServer
      = (Said (sendBytes ''GET'' [7, 7, 7] ''application/octet-stream'' ?k), sampleServer\<lparr>sv_state := st\<rparr>)"
    unfolding tensorMirror_def l Let_def P using sample_served by (simp add: st_def modelRoute_def shownRef_def)
  show ?thesis using mirror_named [OF t] t by (simp add: sampleReq_def) (simp add: sendBytes_def)
qed

end
