(* ===== verification/KappaMirror.thy ===== *)
theory KappaMirror
  imports Mirror
begin

text \<open>
  The mirror of OCI images, \<open>deploy/kappa-mirror.mjs\<close>: the published index of repositories, the routes for
  tags, referrers, manifests and blobs, and the upstream registries with their pull tokens. The disk at the
  time of a request is an argument. The upstreams, the clock and the token map, which other requests in
  flight change too, are a world \<open>'w\<close>; what a fetch answers may leave any world. Addresses of token services
  are taken without query and fragment.
\<close>

subsection \<open>The published index\<close>

record krepo =
  kr_tags :: "(string \<times> string) list"
  kr_manifests :: "string list"
  kr_layers :: "(string \<times> nat) list"
  kr_referrers :: "string list"

type_synonym krepos = "(string \<times> krepo) list"

record kstate =
  ks_at :: int
  ks_mtime :: int
  ks_repos :: krepos

record kdisk =
  kd_index :: "(int \<times> krepos stored) option"
  kd_objects :: "string \<Rightarrow> bytes option"

definition loadRepos :: "int \<Rightarrow> kdisk \<Rightarrow> kstate \<Rightarrow> kstate" where
  "loadRepos now dk st = (if now - ks_at st < 30000 then st else
     (case kd_index dk of
        Some (mtime, Has repos) \<Rightarrow> if mtime = ks_mtime st then st\<lparr>ks_at := now\<rparr> else \<lparr>ks_at = now, ks_mtime = mtime, ks_repos = repos\<rparr>
      | _ \<Rightarrow> st\<lparr>ks_at := now\<rparr>))"

definition heldIn :: "kdisk \<Rightarrow> string \<Rightarrow> bytes option" where
  "heldIn dk digest = (if \<not> isAddr digest then None else case kd_objects dk (drop 7 digest) of
     Some b \<Rightarrow> if named b = digest then Some b else None | None \<Rightarrow> None)"

subsection \<open>Hosts\<close>

definition hostChar :: "char \<Rightarrow> bool" where
  "hostChar c \<longleftrightarrow> CHR ''a'' \<le> c \<and> c \<le> CHR ''z'' \<or> isDigit c \<or> c = CHR ''-''"

definition FIXED_HOSTS :: "string list" where
  "FIXED_HOSTS = [''docker.io'', ''mcr.microsoft.com'', ''ghcr.io'', ''quay.io'', ''registry.k8s.io'', ''gcr.io'', ''public.ecr.aws'', ''registry.werf.io'', ''registry.gitlab.com'']"

definition under :: "(char \<Rightarrow> bool) \<Rightarrow> string \<Rightarrow> string \<Rightarrow> bool" where
  "under ok h sfx \<longleftrightarrow> endsWith h sfx \<and> length sfx < length h \<and> list_all ok (take (length h - length sfx) h)"

text \<open>\<open>HOSTS.test(name + "/")\<close>: the alternatives hold no slash, so it is the first part of the name that must match.\<close>

definition knownHost :: "string \<Rightarrow> bool" where
  "knownHost name \<longleftrightarrow> (let h = hd (splitAt (CHR ''/'') name) in
     h \<in> set FIXED_HOSTS \<or> under hostChar h ''.gcr.io'' \<or> under (\<lambda>c. hostChar c \<or> c = CHR ''.'') h ''.azurecr.io'')"

definition API_HOST :: "string \<Rightarrow> string" where
  "API_HOST h = (if h = ''docker.io'' then ''registry-1.docker.io'' else h)"

subsection \<open>Answers\<close>

definition ociHeads :: "nat \<Rightarrow> (string \<times> string) list" where
  "ociHeads n = [(''content-type'', ''application/json''), (''content-length'', decimal n), (''cache-control'', ''no-store''),
     (''docker-distribution-api-version'', ''registry/2.0'')]"

text \<open>The message as it is spelled in JSON, between its quotes.\<close>

definition ociErrorRaw :: "string \<Rightarrow> nat \<Rightarrow> string \<Rightarrow> bytes \<Rightarrow> res" where
  "ociErrorRaw verb status code message = (let q = CHR 0x22;
       t = utf8 (''{'' @ quote ''errors'' @ '':[{'' @ quote ''code'' @ '':'' @ quote code @ '','' @ quote ''message'' @ '':'' @ [q]) @ message @ utf8 (q # ''}]}'') in
     \<lparr>o_status = status, o_headers = ociHeads (length t), o_body = (if verb = ''HEAD'' then [] else t)\<rparr>)"

definition ociError :: "string \<Rightarrow> nat \<Rightarrow> string \<Rightarrow> string \<Rightarrow> res" where
  "ociError verb status code message = ociErrorRaw verb status code (utf8 (concat (map escapeChar message)))"

definition sendObject :: "string \<Rightarrow> bytes \<Rightarrow> string \<Rightarrow> string \<Rightarrow> bool \<Rightarrow> res" where
  "sendObject verb b type digest immutable = \<lparr>o_status = 200, o_headers = [(''content-type'', type), (''content-length'', decimal (length b)),
     (''docker-content-digest'', digest), (''etag'', quoted digest), (''docker-distribution-api-version'', ''registry/2.0''),
     (''cache-control'', if immutable then ''public, max-age=31536000, immutable'' else ''public, max-age=300'')],
     o_body = (if verb = ''HEAD'' then [] else b)\<rparr>"

definition sayFresh :: "string \<Rightarrow> string \<Rightarrow> json \<Rightarrow> res" where
  "sayFresh verb type v = (let t = utf8 (stringify v) in
     \<lparr>o_status = 200, o_headers = [(''content-type'', type), (''content-length'', decimal (length t)), (''cache-control'', ''public, max-age=300'')],
      o_body = (if verb = ''HEAD'' then [] else t)\<rparr>)"

definition INDEX_TYPE :: string where "INDEX_TYPE = ''application/vnd.oci.image.index.v1+json''"
definition MANIFEST_TYPE :: string where "MANIFEST_TYPE = ''application/vnd.oci.image.manifest.v1+json''"

definition unknownName :: "string \<Rightarrow> string \<Rightarrow> res" where
  "unknownName verb name = ociErrorRaw verb 404 ''NAME_UNKNOWN''
     (utf8 (concat (map escapeChar (name @ '' is not in the ''))) @ [0xCE, 0xBA] @ utf8 '' mirror; see https://hub.uor.foundation/registry/'')"

definition tagsOf :: "string \<Rightarrow> string \<Rightarrow> krepo \<Rightarrow> res" where
  "tagsOf verb name r = sayFresh verb ''application/json'' (JObj [(''name'', JStr name), (''tags'', JArr (map JStr (sort (map fst (kr_tags r)))))])"

text \<open>\<open>v?.k\<close>\<close>

definition optProp :: "string \<Rightarrow> json option \<Rightarrow> json option" where
  "optProp k v = (case v of None \<Rightarrow> None | Some j \<Rightarrow> getProp k j)"

definition withProp :: "string \<Rightarrow> json option \<Rightarrow> (string \<times> json) list" where
  "withProp k v = (case v of Some j \<Rightarrow> [(k, j)] | None \<Rightarrow> [])"

definition referrerRow :: "string \<Rightarrow> bytes \<Rightarrow> json \<Rightarrow> json" where
  "referrerRow d b mm = JObj (withProp ''mediaType'' (getProp ''mediaType'' mm) @ [(''digest'', JStr d), (''size'', JNum (int (length b)))]
     @ withProp ''artifactType'' (if falsy (getProp ''artifactType'' mm) then optProp ''mediaType'' (getProp ''config'' mm) else getProp ''artifactType'' mm)
     @ (if falsy (getProp ''annotations'' mm) then [] else withProp ''annotations'' (getProp ''annotations'' mm)))"

fun referrersFrom :: "kdisk \<Rightarrow> string \<Rightarrow> string list \<Rightarrow> json list result" where
  "referrersFrom dk ref [] = Inr []"
| "referrersFrom dk ref (d # ds) = (case heldIn dk d of
     None \<Rightarrow> referrersFrom dk ref ds
   | Some b \<Rightarrow> (case parse (decodeText b) of
       None \<Rightarrow> Inl SyntaxError
     | Some JNull \<Rightarrow> Inl TypeError
     | Some mm \<Rightarrow> if optProp ''digest'' (getProp ''subject'' mm) \<noteq> Some (JStr ref) then referrersFrom dk ref ds
         else andThen (referrersFrom dk ref ds) (\<lambda>out. Inr (referrerRow d b mm # out))))"

definition referrersOf :: "string \<Rightarrow> kdisk \<Rightarrow> krepo \<Rightarrow> string \<Rightarrow> mirrored" where
  "referrersOf verb dk r ref = (case referrersFrom dk ref (kr_referrers r) of
     Inl e \<Rightarrow> Threw e
   | Inr out \<Rightarrow> Said (sayFresh verb INDEX_TYPE (JObj [(''schemaVersion'', JNum 2), (''mediaType'', JStr INDEX_TYPE), (''manifests'', JArr out)])))"

definition typeOf :: "json \<Rightarrow> string option" where
  "typeOf mm = (case getProp ''mediaType'' mm of
     Some (JStr t) \<Rightarrow> Some (if t = [] then (if falsy (getProp ''manifests'' mm) then MANIFEST_TYPE else INDEX_TYPE) else t)
   | v \<Rightarrow> if falsy v then Some (if falsy (getProp ''manifests'' mm) then MANIFEST_TYPE else INDEX_TYPE) else None)"

text \<open>A tag that only \<open>Object.prototype\<close> has names no manifest either.\<close>

definition manifestOf :: "string \<Rightarrow> kdisk \<Rightarrow> string \<Rightarrow> krepo \<Rightarrow> string \<Rightarrow> mirrored" where
  "manifestOf verb dk name r ref = (case (if startsWith ref ''sha256:'' then Some ref else map_of (kr_tags r) ref) of
     None \<Rightarrow> Said (ociError verb 404 ''MANIFEST_UNKNOWN'' (name @ '':'' @ ref @ '' is not mirrored''))
   | Some digest \<Rightarrow> if digest = [] \<or> digest \<notin> set (kr_manifests r) \<and> digest \<notin> set (kr_referrers r)
       then Said (ociError verb 404 ''MANIFEST_UNKNOWN'' (name @ '':'' @ ref @ '' is not mirrored''))
       else (case heldIn dk digest of
           None \<Rightarrow> Said (ociError verb 404 ''MANIFEST_UNKNOWN'' (digest @ '' is indexed but not held''))
         | Some b \<Rightarrow> (case parse (decodeText b) of
               None \<Rightarrow> Threw SyntaxError
             | Some JNull \<Rightarrow> Threw TypeError
             | Some mm \<Rightarrow> (case typeOf mm of
                   None \<Rightarrow> Threw Unmodelled
                 | Some type \<Rightarrow> Said (sendObject verb b type digest (startsWith ref ''sha256:''))))))"

subsection \<open>Upstream\<close>

record ureply =
  ur_status :: nat
  ur_heads :: "(string \<times> string) list"
  ur_chunks :: "bytes list"
  ur_ending :: "string option"

text \<open>A token with the time until when it is used; no time when the expiry is no number.\<close>

record token =
  tk_text :: string
  tk_until :: "int option"

record 'w upstream =
  up_fetch :: "string \<Rightarrow> string \<Rightarrow> (string \<times> string) list \<Rightarrow> 'w \<Rightarrow> (string + ureply) \<times> 'w"
  up_now :: "'w \<Rightarrow> int"
  up_tokens :: "'w \<Rightarrow> string \<Rightarrow> token option"
  up_keep :: "string \<Rightarrow> token \<Rightarrow> 'w \<Rightarrow> 'w"
  up_syntax :: "string \<Rightarrow> string"

definition bearerOf :: "'w upstream \<Rightarrow> string \<Rightarrow> 'w \<Rightarrow> (string \<times> string) list" where
  "bearerOf u key w = (case up_tokens u w key of
     Some t \<Rightarrow> (case tk_until t of Some e \<Rightarrow> if up_now u w < e then [(''authorization'', ''Bearer '' @ tk_text t)] else [] | None \<Rightarrow> [])
   | None \<Rightarrow> [])"

text \<open>\<open>/Bearer realm="([^"]+)"(?:,service="([^"]+)")?/i\<close>: the first place where it matches.\<close>

definition quotedText :: "string \<Rightarrow> (string \<times> string) option" where
  "quotedText s = (let t = takeWhile (\<lambda>c. c \<noteq> CHR 0x22) s; r = drop (length t) s in if t \<noteq> [] \<and> r \<noteq> [] then Some (t, drop 1 r) else None)"

definition bearerAt :: "string \<Rightarrow> (string \<times> string option) option" where
  "bearerAt s = (let p = ''bearer realm='' @ [CHR 0x22]; q = '',service='' @ [CHR 0x22] in
     if \<not> startsWith (lower s) p then None else (case quotedText (drop (length p) s) of
       None \<Rightarrow> None
     | Some (realm, r) \<Rightarrow> Some (realm, if startsWith (lower r) q then map_option fst (quotedText (drop (length q) r)) else None)))"

fun bearer :: "string \<Rightarrow> (string \<times> string option) option" where
  "bearer [] = None"
| "bearer (c # cs) = (case bearerAt (c # cs) of Some m \<Rightarrow> Some m | None \<Rightarrow> bearer cs)"

text \<open>\<open>searchParams.set\<close> on an address without a query.\<close>

definition formChar :: "char \<Rightarrow> string" where
  "formChar c = (if c = CHR '' '' then ''+'' else if isAlpha c \<or> isDigit c \<or> c \<in> set ''*-._'' then [c] else concat (map percent (utf8_char c)))"

definition formPairs :: "(string \<times> string) list \<Rightarrow> string" where
  "formPairs ps = join ''&'' (map (\<lambda>(k, v). concat (map formChar k) @ ''='' @ concat (map formChar v)) ps)"

definition tokenUrl :: "string \<Rightarrow> string option \<Rightarrow> string \<Rightarrow> string result" where
  "tokenUrl realm service repo = (if CHR ''?'' \<in> set realm \<or> CHR ''#'' \<in> set realm then Inl Unmodelled else
     case href realm of
       None \<Rightarrow> Inl TypeError
     | Some u \<Rightarrow> Inr (u @ ''?'' @ formPairs ((case service of Some v \<Rightarrow> [(''service'', v)] | None \<Rightarrow> []) @ [(''scope'', ''repository:'' @ repo @ '':pull'')])))"

definition messageOf :: "js_error \<Rightarrow> string" where
  "messageOf e = (case e of Error m \<Rightarrow> m | TypeError \<Rightarrow> ''Invalid URL'' | _ \<Rightarrow> [])"

definition textOfProp :: "json option \<Rightarrow> string" where
  "textOfProp v = (case v of Some j \<Rightarrow> toText j | None \<Rightarrow> ''undefined'')"

definition tokenOf :: "int \<Rightarrow> json \<Rightarrow> token" where
  "tokenOf now j = \<lparr>tk_text = textOfProp (if falsy (getProp ''token'' j) then getProp ''access_token'' j else getProp ''token'' j),
     tk_until = map_option (\<lambda>n. now + max 60 (n - 30) * 1000) (toNumber (orElse (getProp ''expires_in'' j) (JNum 300)))\<rparr>"

definition okStatus :: "nat \<Rightarrow> bool" where
  "okStatus n \<longleftrightarrow> 200 \<le> n \<and> n < 300"

text \<open>Asking for a token: it is kept (\<open>Inr True\<close>), refused (\<open>Inr False\<close>), or asking fails.\<close>

definition askToken :: "'w upstream \<Rightarrow> string \<Rightarrow> string \<Rightarrow> string \<Rightarrow> string option \<Rightarrow> 'w \<Rightarrow> bool result \<times> 'w" where
  "askToken u key repo realm service w = (case tokenUrl realm service repo of
     Inl e \<Rightarrow> (Inl e, w)
   | Inr url \<Rightarrow> (case up_fetch u url ''GET'' [] w of
       (Inl m, w1) \<Rightarrow> (Inl (Error m), w1)
     | (Inr r, w1) \<Rightarrow> if \<not> okStatus (ur_status r) then (Inr False, w1) else
         (case ur_ending r of Some m \<Rightarrow> (Inl (Error m), w1) | None \<Rightarrow>
           (case parse (decodeText (concat (ur_chunks r))) of
              None \<Rightarrow> (Inl (Error (up_syntax u (decodeText (concat (ur_chunks r))))), w1)
            | Some JNull \<Rightarrow> (Inl (Error (''Cannot read properties of null (reading '' @ [CHR 0x27] @ ''token'' @ [CHR 0x27] @ '')'')), w1)
            | Some j \<Rightarrow> (Inr True, up_keep u key (tokenOf (up_now u w1) j) w1)))))"

definition askUp :: "'w upstream \<Rightarrow> string \<Rightarrow> string \<Rightarrow> string \<Rightarrow> string \<Rightarrow> 'w \<Rightarrow> ureply result \<times> 'w" where
  "askUp u host repo path verb w = apfst (map_sum Error id) (up_fetch u (''https://'' @ API_HOST host @ ''/v2/'' @ repo @ ''/'' @ path) verb
     ((''user-agent'', ''hologram-kappa-mirror/1'') # bearerOf u (host @ ''/'' @ repo) w) w)"

text \<open>Two attempts at most: the second with the token that the first was asked to get.\<close>

definition upstreamFetch :: "'w upstream \<Rightarrow> string \<Rightarrow> string \<Rightarrow> string \<Rightarrow> string \<Rightarrow> 'w \<Rightarrow> ureply result \<times> 'w" where
  "upstreamFetch u host repo path verb w = (case askUp u host repo path verb w of
     (Inl m, w1) \<Rightarrow> (Inl m, w1)
   | (Inr r, w1) \<Rightarrow> if ur_status r \<noteq> 401 then (Inr r, w1) else
       (case bearer (case map_of (ur_heads r) ''www-authenticate'' of Some h \<Rightarrow> h | None \<Rightarrow> []) of
          None \<Rightarrow> (Inr r, w1)
        | Some (realm, service) \<Rightarrow> (case askToken u (host @ ''/'' @ repo) repo realm service w1 of
            (Inl m, w2) \<Rightarrow> (Inl m, w2)
          | (Inr False, w2) \<Rightarrow> (Inr r, w2)
          | (Inr True, w2) \<Rightarrow> askUp u host repo path verb w2)))"

subsection \<open>Blobs and routes\<close>

definition layerHead :: "string \<Rightarrow> nat \<Rightarrow> res" where
  "layerHead ref n = \<lparr>o_status = 200, o_headers = [(''content-length'', decimal n), (''docker-content-digest'', ref),
     (''content-type'', ''application/octet-stream''), (''cache-control'', ''public, max-age=31536000, immutable'')], o_body = []\<rparr>"

definition layerRedirect :: "string \<Rightarrow> string \<Rightarrow> string \<Rightarrow> res" where
  "layerRedirect ref host loc = \<lparr>o_status = 307, o_headers = [(''location'', loc), (''docker-content-digest'', ref), (''x-hub-source'', host),
     (''cache-control'', ''no-store''), (''content-length'', ''0'')], o_body = []\<rparr>"

definition relayHeads :: "string \<Rightarrow> string \<Rightarrow> ureply \<Rightarrow> nat \<Rightarrow> (string \<times> string) list" where
  "relayHeads ref host up n = [(''content-type'', ''application/octet-stream''),
     (''content-length'', case map_of (ur_heads up) ''content-length'' of Some l \<Rightarrow> if l = [] then decimal n else l | None \<Rightarrow> decimal n),
     (''docker-content-digest'', ref), (''x-hub-source'', host @ '' (relayed)''), (''cache-control'', ''no-store'')]"

definition layerOf :: "'w upstream \<Rightarrow> string \<Rightarrow> string \<Rightarrow> string \<Rightarrow> nat \<Rightarrow> 'w \<Rightarrow> mirrored \<times> 'w" where
  "layerOf u verb name ref n w = (let parts = splitAt (CHR ''/'') name; host = hd parts in
     if verb = ''HEAD'' then (Said (layerHead ref n), w) else
     (case upstreamFetch u host (join ''/'' (tl parts)) (''blobs/'' @ ref) ''GET'' w of
        (Inl Unmodelled, w1) \<Rightarrow> (Threw Unmodelled, w1)
      | (Inl e, w1) \<Rightarrow> (Said (ociError verb 502 ''UNAVAILABLE'' (''upstream '' @ host @ '': '' @ messageOf e)), w1)
      | (Inr up, w1) \<Rightarrow> (let loc = (case map_of (ur_heads up) ''location'' of Some l \<Rightarrow> l | None \<Rightarrow> []) in
          if 300 \<le> ur_status up \<and> ur_status up < 400 \<and> loc \<noteq> []
          then (case resolveUrl loc (''https://'' @ API_HOST host) of
                  Some l \<Rightarrow> (Said (layerRedirect ref host l), w1) | None \<Rightarrow> (Threw TypeError, w1))
          else if okStatus (ur_status up)
          then (Streaming 200 (relayHeads ref host up n) (ur_chunks up) (case ur_ending up of None \<Rightarrow> Inr () | Some m \<Rightarrow> Inl (Error m)), w1)
          else (Said (ociError verb 502 ''UNAVAILABLE'' (''upstream '' @ host @ '' answered '' @ decimal (ur_status up) @ '' for '' @ ref)), w1))))"

text \<open>A name that \<open>Object.prototype\<close> has is found among the layers, and does not destructure.\<close>

definition blobOf :: "'w upstream \<Rightarrow> string \<Rightarrow> kdisk \<Rightarrow> string \<Rightarrow> krepo \<Rightarrow> string \<Rightarrow> 'w \<Rightarrow> mirrored \<times> 'w" where
  "blobOf u verb dk name r ref w = (case heldIn dk ref of
     Some b \<Rightarrow> (Said (sendObject verb b ''application/octet-stream'' ref True), w)
   | None \<Rightarrow> (case map_of (kr_layers r) ref of
       None \<Rightarrow> if ref \<in> set INHERITED then (Threw TypeError, w)
         else (Said (ociError verb 404 ''BLOB_UNKNOWN'' (ref @ '' is not a layer of '' @ name)), w)
     | Some n \<Rightarrow> layerOf u verb name ref n w))"

text \<open>\<open>/^\\/v2\\/(.+)\\/(manifests|blobs|tags|referrers)\\/([^/]+)$/\<close>; paths hold no line ends.\<close>

definition kappaRoute :: "string \<Rightarrow> (string \<times> string \<times> string) option" where
  "kappaRoute p = (let parts = splitAt (CHR ''/'') p; n = length parts; name = join ''/'' (take (n - 4) (drop 2 parts));
       kind = parts ! (n - 2); ref = parts ! (n - 1) in
     if 5 \<le> n \<and> take 2 parts = [[], ''v2''] \<and> name \<noteq> [] \<and> kind \<in> {''manifests'', ''blobs'', ''tags'', ''referrers''} \<and> ref \<noteq> []
     then Some (name, kind, ref) else None)"

definition kappaMirror :: "'w upstream \<Rightarrow> int \<Rightarrow> kdisk \<Rightarrow> string \<Rightarrow> string \<Rightarrow> kstate \<times> 'w \<Rightarrow> mirrored \<times> kstate \<times> 'w" where
  "kappaMirror u now dk verb path sw = (case (kappaRoute path, sw) of
     (None, _) \<Rightarrow> (NotMine, sw)
   | (Some (name, kind, ref), (st, w)) \<Rightarrow> if \<not> knownHost name then (NotMine, sw) else
       (let st1 = loadRepos now dk st in case map_of (ks_repos st1) name of
          None \<Rightarrow> (Said (unknownName verb name), st1, w)
        | Some r \<Rightarrow>
            if kind = ''tags'' then (Said (tagsOf verb name r), st1, w)
            else if kind = ''referrers'' then (referrersOf verb dk r ref, st1, w)
            else if kind = ''manifests'' then (manifestOf verb dk name r ref, st1, w)
            else (let (a, w1) = blobOf u verb dk name r ref w in (a, st1, w1))))"

subsection \<open>A named answer has its digest\<close>

definition saysRight :: "string \<Rightarrow> mirrored \<Rightarrow> bool" where
  "saysRight verb a \<longleftrightarrow> (case a of Said r \<Rightarrow> (\<forall>d. verb \<noteq> ''HEAD'' \<and> o_status r = 200 \<and> map_of (o_headers r) ''docker-content-digest'' = Some d \<longrightarrow> named (o_body r) = d) | _ \<Rightarrow> True)"

lemma heldIn_named: "heldIn dk d = Some b \<Longrightarrow> named b = d"
  by (auto simp: heldIn_def split: if_splits option.splits)

lemma ociError_right [simp]: "saysRight verb (Said (ociError v n c t))" "saysRight verb (Said (ociErrorRaw v n c m))"
  by (simp_all add: saysRight_def ociError_def ociErrorRaw_def ociHeads_def Let_def)

lemma sayFresh_right [simp]: "saysRight verb (Said (sayFresh v type j))"
  by (simp add: saysRight_def sayFresh_def Let_def)

lemma sendObject_right: "named b = d \<Longrightarrow> saysRight verb (Said (sendObject verb b type d im))"
  by (simp add: saysRight_def sendObject_def)

lemma referrersOf_right: "saysRight verb (referrersOf v dk r ref)"
  by (auto simp: referrersOf_def saysRight_def [of _ "Threw _"] split: sum.splits)


lemma saysRight_other [simp]: "saysRight verb (Threw e)" "saysRight verb (Streaming n hs cs rs)" "saysRight ''HEAD'' (Said r)" "saysRight verb (Said (layerRedirect ref host l))"
  by (simp_all add: saysRight_def layerRedirect_def)

lemma manifestOf_cases:
  "manifestOf verb dk name r ref = Said (ociError verb 404 ''MANIFEST_UNKNOWN'' (name @ '':'' @ ref @ '' is not mirrored'')) \<or>
   (\<exists>digest. manifestOf verb dk name r ref = Said (ociError verb 404 ''MANIFEST_UNKNOWN'' (digest @ '' is indexed but not held''))) \<or>
   (\<exists>digest b type im. heldIn dk digest = Some b \<and> manifestOf verb dk name r ref = Said (sendObject verb b type digest im)) \<or>
   (\<exists>e. manifestOf verb dk name r ref = Threw e)"
proof (cases "if startsWith ref ''sha256:'' then Some ref else map_of (kr_tags r) ref")
  case (Some digest)
  show ?thesis
  proof (cases "heldIn dk digest")
    case None
    with Some show ?thesis by (auto simp: manifestOf_def)
  next
    case held: (Some b)
    show ?thesis
    proof (cases "parse (decodeText b)")
      case parsed: (Some mm)
      show ?thesis
      proof (cases "typeOf mm")
        case None
        with Some held parsed show ?thesis by (cases mm) (auto simp: manifestOf_def)
      next
        case (Some type)
        with held parsed \<open>(if startsWith ref ''sha256:'' then Some ref else map_of (kr_tags r) ref) = Some digest\<close>
        have "manifestOf verb dk name r ref \<in> {Said (ociError verb 404 ''MANIFEST_UNKNOWN'' (name @ '':'' @ ref @ '' is not mirrored'')), Threw TypeError,
            Said (sendObject verb b type digest (startsWith ref ''sha256:''))}"
          by (cases mm) (simp_all add: manifestOf_def)
        with held show ?thesis by blast
      qed
    qed (use Some held in \<open>auto simp: manifestOf_def\<close>)
  qed
qed (auto simp: manifestOf_def)

lemma manifestOf_right: "saysRight verb (manifestOf verb dk name r ref)"
  using manifestOf_cases [of verb dk name r ref] by (auto intro!: sendObject_right dest: heldIn_named)

lemma layerOf_right: "saysRight verb (fst (layerOf u verb name ref n w))"
  by (auto simp: layerOf_def Let_def split: if_splits prod.splits sum.splits option.splits js_error.splits)

lemma blobOf_right: "saysRight verb (fst (blobOf u verb dk name r ref w))"
  by (auto simp: blobOf_def layerOf_right split: option.splits intro: sendObject_right heldIn_named)

text \<open>A redirect is only ever sent for a layer of the published index, and names it.\<close>

definition redirectsRight :: "krepos \<Rightarrow> mirrored \<Rightarrow> bool" where
  "redirectsRight repos a \<longleftrightarrow> (case a of Said r \<Rightarrow> o_status r = 307 \<longrightarrow> (\<exists>name kr ref n. map_of repos name = Some kr \<and> map_of (kr_layers kr) ref = Some n
     \<and> map_of (o_headers r) ''docker-content-digest'' = Some ref \<and> map_of (o_headers r) ''x-hub-source'' = Some (hd (splitAt (CHR ''/'') name))) | _ \<Rightarrow> True)"

lemma status_other [simp]: "o_status (ociError v n c t) = n" "o_status (ociErrorRaw v n c m) = n" "o_status (sayFresh v ty j) = 200"
  "o_status (sendObject v b ty d im) = 200" "o_status (layerHead ref k) = 200"
  by (simp_all add: ociError_def ociErrorRaw_def sayFresh_def sendObject_def layerHead_def Let_def)

lemma status_cases:
  "referrersOf v dk r ref = Said a \<Longrightarrow> o_status a = 200"
  "manifestOf v dk name r ref = Said a \<Longrightarrow> o_status a \<in> {200, 404}"
  using manifestOf_cases [of v dk name r ref] by (auto simp: referrersOf_def split: sum.splits)

lemma layerOf_redirect: "fst (layerOf u verb name ref n w) = Said a \<Longrightarrow> o_status a = 307 \<Longrightarrow>
    map_of (o_headers a) ''docker-content-digest'' = Some ref \<and> map_of (o_headers a) ''x-hub-source'' = Some (hd (splitAt (CHR ''/'') name))"
  by (auto simp: layerOf_def Let_def layerRedirect_def split: if_splits prod.splits sum.splits option.splits js_error.splits)

lemma blobOf_redirect: "fst (blobOf u verb dk name r ref w) = Said a \<Longrightarrow> o_status a = 307 \<Longrightarrow> \<exists>n. map_of (kr_layers r) ref = Some n \<and>
    map_of (o_headers a) ''docker-content-digest'' = Some ref \<and> map_of (o_headers a) ''x-hub-source'' = Some (hd (splitAt (CHR ''/'') name))"
  by (auto simp: blobOf_def split: option.splits if_splits dest: layerOf_redirect)

text \<open>
  C13. Whatever is on the disk, damaged files included, and whatever the upstream registries answer: an answer that the
  OCI mirror composes itself (anything but a layer's bytes that it relays from the registry as they come, which nobody
  compares) with status 200, a digest and a body has the body of that digest, and a redirect is sent only for a layer that the
  published index gives for a repository, under that layer's digest and with that repository's host.
\<close>

theorem kappa_mirror_named:
  assumes "kappaMirror u now dk verb path (st, w) = (Said r, st', w')" and "verb \<noteq> ''HEAD''"
  shows "(o_status r = 200 \<and> map_of (o_headers r) ''docker-content-digest'' = Some d \<longrightarrow> named (o_body r) = d) \<and>
    (o_status r = 307 \<longrightarrow> (\<exists>name kr ref n. map_of (ks_repos st') name = Some kr \<and> map_of (kr_layers kr) ref = Some n \<and>
      map_of (o_headers r) ''docker-content-digest'' = Some ref \<and> map_of (o_headers r) ''x-hub-source'' = Some (hd (splitAt (CHR ''/'') name))))"
proof -
  have "saysRight verb (Said r) \<and> redirectsRight (ks_repos st') (Said r)"
  proof (cases "kappaRoute path")
    case (Some route)
    obtain name kind ref where route: "route = (name, kind, ref)" by (cases route) auto
    show ?thesis
    proof (cases "map_of (ks_repos (loadRepos now dk st)) name")
      case None
      with assms Some route show ?thesis
        by (auto simp: kappaMirror_def Let_def unknownName_def redirectsRight_def split: if_splits)
    next
      case kr: (Some kr)
      obtain a w1 where b: "blobOf u verb dk name kr ref w = (a, w1)" by fastforce
      have "saysRight verb a" using blobOf_right [of verb u dk name kr ref w] b by simp
      moreover have "redirectsRight (ks_repos (loadRepos now dk st)) a"
      proof (cases a)
        case (Said ra)
        show ?thesis using blobOf_redirect [of u verb dk name kr ref w ra] b kr unfolding Said redirectsRight_def by auto
      qed (simp_all add: redirectsRight_def)
      ultimately show ?thesis
        using assms Some route kr b referrersOf_right [of verb verb dk kr ref] manifestOf_right [of verb dk name kr ref]
        by (auto simp: kappaMirror_def Let_def tagsOf_def redirectsRight_def dest: status_cases split: if_splits)
    qed
  qed (use assms in \<open>simp add: kappaMirror_def\<close>)
  then show ?thesis using assms(2) by (auto simp: saysRight_def redirectsRight_def)
qed

definition emptyManifest :: bytes where "emptyManifest = utf8 ''{}''"

definition sampleRepos :: krepos where
  "sampleRepos = [(''docker.io/library/x'', \<lparr>kr_tags = [(''latest'', named emptyManifest)], kr_manifests = [named emptyManifest], kr_layers = [], kr_referrers = []\<rparr>)]"

definition sampleDisk :: kdisk where
  "sampleDisk = \<lparr>kd_index = Some (1, Has sampleRepos), kd_objects = (\<lambda>k. if k = sha256hex emptyManifest then Some emptyManifest else None)\<rparr>"

definition noUpstream :: "unit upstream" where
  "noUpstream = \<lparr>up_fetch = (\<lambda>_ _ _ w. (Inl ''down'', w)), up_now = (\<lambda>_. 0), up_tokens = (\<lambda>_ _. None), up_keep = (\<lambda>_ _ w. w), up_syntax = id\<rparr>"

lemma empty_held: "heldIn sampleDisk (named emptyManifest) = Some emptyManifest"
proof -
  have "isHex64 (sha256hex emptyManifest)" using isHex64_hex [of "sha256 emptyManifest"] by (simp add: sha256hex_def)
  then show ?thesis by (simp add: heldIn_def isAddr_def named_def startsWith_def sampleDisk_def)
qed

lemma empty_manifest:
  "kappaMirror noUpstream 100000 sampleDisk ''GET'' ''/v2/docker.io/library/x/manifests/latest'' (\<lparr>ks_at = 0, ks_mtime = 0, ks_repos = []\<rparr>, ())
   = (Said (sendObject ''GET'' emptyManifest MANIFEST_TYPE (named emptyManifest) False), \<lparr>ks_at = 100000, ks_mtime = 1, ks_repos = sampleRepos\<rparr>, ())"
proof -
  have r: "kappaRoute ''/v2/docker.io/library/x/manifests/latest'' = Some (''docker.io/library/x'', ''manifests'', ''latest'')" by code_simp
  have k: "knownHost ''docker.io/library/x''" by code_simp
  have p: "parse (decodeText emptyManifest) = Some (JObj [])" using parse_stringify [of "JObj []"] by (simp add: emptyManifest_def plainKeys_def)
  have n: "named emptyManifest \<noteq> []" "\<not> startsWith ''latest'' ''sha256:''" by (simp_all add: named_def startsWith_def)
  show ?thesis
    by (simp add: kappaMirror_def r k Let_def loadRepos_def) (simp add: sampleDisk_def [unfolded sampleRepos_def] sampleRepos_def manifestOf_def n empty_held [unfolded sampleDisk_def sampleRepos_def] p typeOf_def)
qed

theorem kappa_mirror_named_witness: "named emptyManifest = named emptyManifest \<and>
   fst (kappaMirror noUpstream 100000 sampleDisk ''GET'' ''/v2/docker.io/library/x/manifests/latest'' (\<lparr>ks_at = 0, ks_mtime = 0, ks_repos = []\<rparr>, ()))
     = Said (sendObject ''GET'' emptyManifest MANIFEST_TYPE (named emptyManifest) False)"
  using kappa_mirror_named [OF empty_manifest, of "named emptyManifest"] empty_manifest by (simp add: sendObject_def)

subsection \<open>Where tokens go\<close>

text \<open>
  \<open>lg\<close> is what is recorded of the fetches of this request, their addresses and headers; \<open>know\<close> is all that the process
  has been answered so far, under the address asked. A token is \<open>obtained\<close> for a repository of a registry when that
  registry's own API refused a request for that repository and named a token service, and this service, asked for
  pulling that repository, answered with the token. Other requests may change the token map while a fetch is under way;
  they run the same code, so that they too keep what was obtained for the key alone.
\<close>

type_synonym answers = "(string \<times> (string + ureply)) set"

definition apiOf :: "string \<Rightarrow> string \<Rightarrow> string" where
  "apiOf host repo = ''https://'' @ API_HOST host @ ''/v2/'' @ repo @ ''/''"

definition challenged :: "answers \<Rightarrow> string \<Rightarrow> string \<Rightarrow> string \<Rightarrow> string option \<Rightarrow> bool" where
  "challenged ks host repo realm service \<longleftrightarrow> (\<exists>path r. (apiOf host repo @ path, Inr r) \<in> ks \<and> ur_status r = 401
     \<and> bearer (case map_of (ur_heads r) ''www-authenticate'' of Some h \<Rightarrow> h | None \<Rightarrow> []) = Some (realm, service))"

definition obtained :: "answers \<Rightarrow> string \<Rightarrow> string \<Rightarrow> string \<Rightarrow> bool" where
  "obtained ks host repo text \<longleftrightarrow> (\<exists>realm service url r j. challenged ks host repo realm service \<and> tokenUrl realm service repo = Inr url
     \<and> (url, Inr r) \<in> ks \<and> okStatus (ur_status r) \<and> parse (decodeText (concat (ur_chunks r))) = Some j \<and> text = tk_text (tokenOf 0 j))"

definition tokensSound :: "'w upstream \<Rightarrow> ('w \<Rightarrow> answers) \<Rightarrow> 'w \<Rightarrow> bool" where
  "tokensSound u know w \<longleftrightarrow> (\<forall>host repo t. CHR ''/'' \<notin> set host \<and> up_tokens u w (host @ ''/'' @ repo) = Some t \<longrightarrow> obtained (know w) host repo (tk_text t))"

definition recordsFetches :: "'w upstream \<Rightarrow> ('w \<Rightarrow> (string \<times> (string \<times> string) list) list) \<Rightarrow> ('w \<Rightarrow> answers) \<Rightarrow> bool" where
  "recordsFetches u lg know \<longleftrightarrow> (\<forall>url verb hs w a w'. up_fetch u url verb hs w = (a, w') \<longrightarrow> lg w' = lg w @ [(url, hs)]
       \<and> insert (url, a) (know w) \<subseteq> know w' \<and> (tokensSound u know w \<longrightarrow> tokensSound u know w'))
     \<and> (\<forall>k t w. lg (up_keep u k t w) = lg w \<and> know w \<subseteq> know (up_keep u k t w) \<and> up_tokens u (up_keep u k t w) = (up_tokens u w)(k \<mapsto> t))"

definition confined :: "answers \<Rightarrow> string \<Rightarrow> string \<Rightarrow> (string \<times> (string \<times> string) list) list \<Rightarrow> bool" where
  "confined ks host repo xs \<longleftrightarrow> list_all (\<lambda>(url, hs). \<forall>v. map_of hs ''authorization'' = Some v \<longrightarrow>
     startsWith url (apiOf host repo) \<and> (\<exists>t. v = ''Bearer '' @ t \<and> obtained ks host repo t)) xs"

lemma obtained_mono: "obtained ks host repo t \<Longrightarrow> ks \<subseteq> ks' \<Longrightarrow> obtained ks' host repo t"
  unfolding obtained_def challenged_def by blast

lemma confined_mono: "confined ks host repo xs \<Longrightarrow> ks \<subseteq> ks' \<Longrightarrow> confined ks' host repo xs"
  unfolding confined_def list_all_iff by (fastforce intro: obtained_mono)

lemma confined_append: "confined ks host repo xs \<Longrightarrow> confined ks host repo ys \<Longrightarrow> confined ks host repo (xs @ ys)"
  by (simp add: confined_def)

lemma confined_Nil [simp]: "confined ks host repo []"
  by (simp add: confined_def)

lemma tokenOf_text: "tk_text (tokenOf n j) = tk_text (tokenOf 0 j)"
  by (simp add: tokenOf_def)

lemma host_of_key: "CHR ''/'' \<notin> set host \<Longrightarrow> takeWhile (\<lambda>c. c \<noteq> CHR ''/'') (host @ ''/'' @ repo) = host"
  by (induction host) auto

lemma key_inj: "host @ ''/'' @ repo = host' @ ''/'' @ repo' \<Longrightarrow> CHR ''/'' \<notin> set host \<Longrightarrow> CHR ''/'' \<notin> set host' \<Longrightarrow> host = host' \<and> repo = repo'"
  using host_of_key [of host repo] host_of_key [of host' repo'] by auto

lemma keep_sound:
  assumes "recordsFetches u lg know" and "tokensSound u know w" and "obtained (know w) host repo (tk_text t)" and "CHR ''/'' \<notin> set host"
  shows "tokensSound u know (up_keep u (host @ ''/'' @ repo) t w)"
  unfolding tokensSound_def
proof (intro allI impI)
  fix h rp t'
  assume h: "CHR ''/'' \<notin> set h \<and> up_tokens u (up_keep u (host @ ''/'' @ repo) t w) (h @ ''/'' @ rp) = Some t'"
  have k: "know w \<subseteq> know (up_keep u (host @ ''/'' @ repo) t w)"
    and u: "up_tokens u (up_keep u (host @ ''/'' @ repo) t w) = (up_tokens u w)(host @ ''/'' @ repo \<mapsto> t)"
    using assms(1) unfolding recordsFetches_def by blast+
  have "obtained (know w) h rp (tk_text t')"
  proof (cases "h @ ''/'' @ rp = host @ ''/'' @ repo")
    case True
    then have "h = host \<and> rp = repo" using key_inj h assms(4) by blast
    with assms(3) h u show ?thesis by simp
  next
    case False
    then show ?thesis using assms(2) h u by (simp add: tokensSound_def)
  qed
  with k show "obtained (know (up_keep u (host @ ''/'' @ repo) t w)) h rp (tk_text t')" by (rule obtained_mono [rotated])
qed

text \<open>What a step of a request does to the record: at most \<open>n\<close> more fetches, confined, and the token map stays sound.\<close>

definition stepOk :: "'w upstream \<Rightarrow> ('w \<Rightarrow> (string \<times> (string \<times> string) list) list) \<Rightarrow> ('w \<Rightarrow> answers) \<Rightarrow> string \<Rightarrow> string \<Rightarrow> nat \<Rightarrow> 'w \<Rightarrow> 'w \<Rightarrow> bool" where
  "stepOk u lg know host repo n w w' \<longleftrightarrow> tokensSound u know w' \<and> know w \<subseteq> know w' \<and> (\<exists>xs. lg w' = lg w @ xs \<and> length xs \<le> n \<and> confined (know w') host repo xs)"

lemma stepOk_trans:
  assumes "stepOk u lg know host repo m w w1" and "stepOk u lg know host repo n w1 w2"
  shows "stepOk u lg know host repo (m + n) w w2"
proof -
  obtain xs where xs: "lg w1 = lg w @ xs" "length xs \<le> m" "confined (know w1) host repo xs" "know w \<subseteq> know w1"
    using assms(1) unfolding stepOk_def by blast
  obtain ys where ys: "lg w2 = lg w1 @ ys" "length ys \<le> n" "confined (know w2) host repo ys" "know w1 \<subseteq> know w2" "tokensSound u know w2"
    using assms(2) unfolding stepOk_def by blast
  have "confined (know w2) host repo (xs @ ys)" using xs ys by (blast intro: confined_append confined_mono)
  with xs ys show ?thesis unfolding stepOk_def by (auto intro!: exI [of _ "xs @ ys"])
qed

lemma stepOk_refl: "tokensSound u know w \<Longrightarrow> stepOk u lg know host repo n w w"
  by (simp add: stepOk_def)

lemma stepOk_more: "stepOk u lg know host repo m w w' \<Longrightarrow> m \<le> n \<Longrightarrow> stepOk u lg know host repo n w w'"
  unfolding stepOk_def by fastforce

lemma fetch_step:
  assumes "recordsFetches u lg know" and "tokensSound u know w" and "up_fetch u url verb hs w = (a, w')"
    and "\<And>v. map_of hs ''authorization'' = Some v \<Longrightarrow> startsWith url (apiOf host repo) \<and> (\<exists>t. v = ''Bearer '' @ t \<and> obtained (know w) host repo t)"
  shows "stepOk u lg know host repo 1 w w'" and "(url, a) \<in> know w'"
proof -
  have f: "lg w' = lg w @ [(url, hs)]" "insert (url, a) (know w) \<subseteq> know w'" "tokensSound u know w'"
    using assms(1-3) unfolding recordsFetches_def by blast+
  then show "(url, a) \<in> know w'" by blast
  have "confined (know w) host repo [(url, hs)]" using assms(4) by (simp add: confined_def)
  then have "confined (know w') host repo [(url, hs)]" using f(2) by (blast intro: confined_mono)
  with f show "stepOk u lg know host repo 1 w w'" by (simp add: stepOk_def)
qed

lemma bearer_obtained:
  "tokensSound u know w \<Longrightarrow> CHR ''/'' \<notin> set host \<Longrightarrow> map_of (bearerOf u (host @ ''/'' @ repo) w) ''authorization'' = Some v
    \<Longrightarrow> \<exists>t. v = ''Bearer '' @ t \<and> obtained (know w) host repo t"
  by (auto simp: bearerOf_def tokensSound_def split: option.splits if_splits)

lemma askUp_step:
  assumes "recordsFetches u lg know" and "tokensSound u know w" and "CHR ''/'' \<notin> set host" and "askUp u host repo path verb w = (a, w')"
  shows "stepOk u lg know host repo 1 w w'" and "a = Inr r \<Longrightarrow> (apiOf host repo @ path, Inr r) \<in> know w'"
proof -
  obtain b where f: "up_fetch u (apiOf host repo @ path) verb ((''user-agent'', ''hologram-kappa-mirror/1'') # bearerOf u (host @ ''/'' @ repo) w) w = (b, w')"
    and b: "a = map_sum Error id b"
    using assms(4) by (cases "up_fetch u (apiOf host repo @ path) verb ((''user-agent'', ''hologram-kappa-mirror/1'') # bearerOf u (host @ ''/'' @ repo) w) w")
      (auto simp: askUp_def apiOf_def)
  note st = fetch_step [OF assms(1,2) f, of host repo]
  have h: "map_of ((''user-agent'', ''hologram-kappa-mirror/1'') # bearerOf u (host @ ''/'' @ repo) w) ''authorization'' = Some v
      \<Longrightarrow> startsWith (apiOf host repo @ path) (apiOf host repo) \<and> (\<exists>t. v = ''Bearer '' @ t \<and> obtained (know w) host repo t)" for v
    using bearer_obtained [OF assms(2,3), of repo v] startsWith_append by auto
  show "stepOk u lg know host repo 1 w w'" by (rule st(1)) (rule h)
  have "(apiOf host repo @ path, b) \<in> know w'" by (rule st(2)) (rule h)
  then show "a = Inr r \<Longrightarrow> (apiOf host repo @ path, Inr r) \<in> know w'" using b by (cases b) auto
qed

lemma askToken_step:
  assumes "recordsFetches u lg know" and "tokensSound u know w" and "CHR ''/'' \<notin> set host" and "challenged (know w) host repo realm service"
  shows "stepOk u lg know host repo 1 w (snd (askToken u (host @ ''/'' @ repo) repo realm service w))"
proof (cases "tokenUrl realm service repo")
  case (Inr url)
  obtain a w1 where f: "up_fetch u url ''GET'' [] w = (a, w1)" by fastforce
  have s1: "stepOk u lg know host repo 1 w w1" and k1: "(url, a) \<in> know w1" by (rule fetch_step [OF assms(1,2) f]; simp)+
  have ch: "challenged (know w1) host repo realm service" using assms(4) s1 unfolding stepOk_def challenged_def by blast
  show ?thesis
  proof (cases "\<exists>r j. a = Inr r \<and> okStatus (ur_status r) \<and> ur_ending r = None \<and> parse (decodeText (concat (ur_chunks r))) = Some j \<and> j \<noteq> JNull")
    case True
    then obtain r j where a: "a = Inr r" "okStatus (ur_status r)" "ur_ending r = None" "parse (decodeText (concat (ur_chunks r))) = Some j" "j \<noteq> JNull" by blast
    let ?t = "tokenOf (up_now u w1) j"
    have w': "snd (askToken u (host @ ''/'' @ repo) repo realm service w) = up_keep u (host @ ''/'' @ repo) ?t w1"
      using Inr f a by (cases j) (simp_all add: askToken_def)
    have "obtained (know w1) host repo (tk_text ?t)"
      unfolding obtained_def using ch Inr k1 a tokenOf_text by blast
    then have "tokensSound u know (up_keep u (host @ ''/'' @ repo) ?t w1)"
      using keep_sound [OF assms(1) _ _ assms(3)] s1 by (simp add: stepOk_def)
    then have "stepOk u lg know host repo 0 w1 (up_keep u (host @ ''/'' @ repo) ?t w1)"
      using assms(1) by (simp add: stepOk_def recordsFetches_def)
    from stepOk_trans [OF s1 this] show ?thesis unfolding w' by simp
  next
    case False
    then have "snd (askToken u (host @ ''/'' @ repo) repo realm service w) = w1"
      using Inr f by (auto simp: askToken_def split: sum.splits option.splits json.splits)
    with s1 show ?thesis by simp
  qed
qed (use assms in \<open>simp add: askToken_def stepOk_refl\<close>)

lemma upstream_step:
  assumes "recordsFetches u lg know" and "tokensSound u know w" and "CHR ''/'' \<notin> set host"
  shows "stepOk u lg know host repo 3 w (snd (upstreamFetch u host repo path verb w))"
proof -
  obtain a w1 where 1: "askUp u host repo path verb w = (a, w1)" by fastforce
  note s1 = askUp_step [OF assms 1]
  have t1: "tokensSound u know w1" using s1(1) by (simp add: stepOk_def)
  show ?thesis
  proof (cases "\<exists>r realm service. a = Inr r \<and> ur_status r = 401
      \<and> bearer (case map_of (ur_heads r) ''www-authenticate'' of Some h \<Rightarrow> h | None \<Rightarrow> []) = Some (realm, service)")
    case True
    then obtain r realm service where a: "a = Inr r" "ur_status r = 401"
      "bearer (case map_of (ur_heads r) ''www-authenticate'' of Some h \<Rightarrow> h | None \<Rightarrow> []) = Some (realm, service)" by blast
    then have "challenged (know w1) host repo realm service" using s1(2) unfolding challenged_def by blast
    then have s2: "stepOk u lg know host repo 1 w1 (snd (askToken u (host @ ''/'' @ repo) repo realm service w1))"
      by (rule askToken_step [OF assms(1) t1 assms(3)])
    obtain b w2 where 2: "askToken u (host @ ''/'' @ repo) repo realm service w1 = (b, w2)" by fastforce
    have s12: "stepOk u lg know host repo (1 + 1) w w2" using stepOk_trans [OF s1(1) s2] 2 by simp
    show ?thesis
    proof (cases "b = Inr True")
      case True
      obtain c w3 where 3: "askUp u host repo path verb w2 = (c, w3)" by fastforce
      have "tokensSound u know w2" using s12 by (simp add: stepOk_def)
      from stepOk_trans [OF s12 askUp_step(1) [OF assms(1) this assms(3) 3]] have "stepOk u lg know host repo 3 w w3"
        by (simp add: eval_nat_numeral)
      moreover have "upstreamFetch u host repo path verb w = (c, w3)" using 2 3 True by (simp add: upstreamFetch_def 1 a)
      ultimately show ?thesis by simp
    next
      case False
      then have "snd (upstreamFetch u host repo path verb w) = w2"
        using 2 by (auto simp: upstreamFetch_def 1 a split: sum.splits bool.splits)
      with s12 show ?thesis by (simp add: stepOk_more)
    qed
  next
    case False
    then have "snd (upstreamFetch u host repo path verb w) = w1"
      by (auto simp: upstreamFetch_def 1 split: sum.splits option.splits prod.splits)
    with s1(1) show ?thesis by (simp add: stepOk_more)
  qed
qed

lemma host_no_slash: "CHR ''/'' \<notin> set (hd (splitAt (CHR ''/'') name))"
  using splitAt_free [of _ "CHR ''/''" name] by (simp add: hd_in_set)

lemma layerOf_world: "snd (layerOf u verb name ref n w) = (if verb = ''HEAD'' then w
    else snd (upstreamFetch u (hd (splitAt (CHR ''/'') name)) (join ''/'' (tl (splitAt (CHR ''/'') name))) (''blobs/'' @ ref) ''GET'' w))"
  by (auto simp: layerOf_def Let_def split: prod.splits sum.splits option.splits js_error.splits)

text \<open>
  C14. Pull tokens stay where they belong: a request to the OCI mirror makes at most three fetches, none unless it is
  for a blob of a repository of the index whose host is on the list and is no HEAD request; a fetch with a token goes
  to the API of that repository's own registry, never to a token service or a redirect's target; and the token sent
  was obtained for that repository of that registry: its API had named the token service, and the service, asked for
  that repository, had answered with this token. The same holds of every token in the map afterwards.
\<close>

theorem pull_tokens_confined:
  assumes "recordsFetches u lg know" and "tokensSound u know w" and "kappaMirror u now dk verb path (st, w) = (a, st', w')"
  shows "tokensSound u know w' \<and> (\<exists>xs. lg w' = lg w @ xs \<and> length xs \<le> 3 \<and> (xs \<noteq> [] \<longrightarrow> verb \<noteq> ''HEAD'' \<and>
    (\<exists>name ref. kappaRoute path = Some (name, ''blobs'', ref) \<and> knownHost name \<and> map_of (ks_repos st') name \<noteq> None \<and>
       confined (know w') (hd (splitAt (CHR ''/'') name)) (join ''/'' (tl (splitAt (CHR ''/'') name))) xs)))"
proof -
  have none: "w' = w \<Longrightarrow> ?thesis" using assms(2) by simp
  show ?thesis
  proof (cases "\<exists>name ref r n. kappaRoute path = Some (name, ''blobs'', ref) \<and> knownHost name \<and> map_of (ks_repos (loadRepos now dk st)) name = Some r
      \<and> heldIn dk ref = None \<and> map_of (kr_layers r) ref = Some n \<and> verb \<noteq> ''HEAD''")
    case True
    then obtain name ref r n where h: "kappaRoute path = Some (name, ''blobs'', ref)" "knownHost name" "map_of (ks_repos (loadRepos now dk st)) name = Some r"
      "heldIn dk ref = None" "map_of (kr_layers r) ref = Some n" "verb \<noteq> ''HEAD''" by blast
    let ?host = "hd (splitAt (CHR ''/'') name)" and ?repo = "join ''/'' (tl (splitAt (CHR ''/'') name))"
    have w': "w' = snd (layerOf u verb name ref n w)" and st': "st' = loadRepos now dk st"
      using assms(3) h by (auto simp: kappaMirror_def Let_def blobOf_def split: prod.splits)
    have "stepOk u lg know ?host ?repo 3 w w'"
      using upstream_step [OF assms(1,2) host_no_slash, of name ?repo "''blobs/'' @ ref" "''GET''"] h(6) unfolding w' layerOf_world by simp
    with h st' show ?thesis unfolding stepOk_def by auto
  next
    case False
    have "w' = w"
      using assms(3) False
      by (auto simp: kappaMirror_def Let_def blobOf_def kappaRoute_def dest: arg_cong [of _ _ snd] split: if_splits option.splits prod.splits)
        (auto simp: layerOf_def)
    then show ?thesis by (rule none)
  qed
qed

text \<open>A registry that had named its token service, which had given a token; what is asked now is answered by nothing.\<close>

definition before :: answers where
  "before = {(''https://ghcr.io/v2/x/blobs/abc'', Inr \<lparr>ur_status = 401, ur_heads = [(''www-authenticate'', ''Bearer realm='' @ quote ''https://a/t'')], ur_chunks = [], ur_ending = None\<rparr>),
     (''https://a/t?scope=repository%3Ax%3Apull'', Inr \<lparr>ur_status = 200, ur_heads = [], ur_chunks = [utf8 (stringify (JObj [(''token'', JStr ''t'')]))], ur_ending = None\<rparr>)}"

definition sampleToken :: token where "sampleToken = \<lparr>tk_text = ''t'', tk_until = Some 1\<rparr>"

type_synonym logged = "(string \<times> (string \<times> string) list) list \<times> (string \<Rightarrow> token option)"

definition logUpstream :: "logged upstream" where
  "logUpstream = \<lparr>up_fetch = (\<lambda>url verb hs w. (Inl ''down'', (fst w @ [(url, hs)], snd w))), up_now = (\<lambda>_. 0),
     up_tokens = snd, up_keep = (\<lambda>k t w. (fst w, (snd w)(k \<mapsto> t))), up_syntax = id\<rparr>"

definition knownNow :: "logged \<Rightarrow> answers" where
  "knownNow w = before \<union> (\<lambda>(url, hs). (url, Inl ''down'')) ` set (fst w)"

definition layerState :: kstate where
  "layerState = \<lparr>ks_at = 0, ks_mtime = 1, ks_repos = [(''ghcr.io/x'', \<lparr>kr_tags = [], kr_manifests = [], kr_layers = [(''abc'', 5)], kr_referrers = []\<rparr>)]\<rparr>"

definition sentOnce :: "(string \<times> (string \<times> string) list) list" where
  "sentOnce = [(''https://ghcr.io/v2/x/blobs/abc'', [(''user-agent'', ''hologram-kappa-mirror/1''), (''authorization'', ''Bearer t'')])]"

abbreviation oneToken :: "string \<Rightarrow> token option" where "oneToken \<equiv> [''ghcr.io/x'' \<mapsto> sampleToken]"

lemma sample_fetch: "kappaMirror logUpstream 0 \<lparr>kd_index = None, kd_objects = (\<lambda>_. None)\<rparr> ''GET'' ''/v2/ghcr.io/x/blobs/abc'' (layerState, ([], oneToken))
    = (Said (ociError ''GET'' 502 ''UNAVAILABLE'' ''upstream ghcr.io: down''), layerState, (sentOnce, oneToken))"
proof -
  have r: "kappaRoute ''/v2/ghcr.io/x/blobs/abc'' = Some (''ghcr.io/x'', ''blobs'', ''abc'')" by code_simp
  have k: "knownHost ''ghcr.io/x''" by code_simp
  have h: "heldIn \<lparr>kd_index = None, kd_objects = (\<lambda>_. None)\<rparr> ''abc'' = None" by (simp add: heldIn_def)
  have l: "loadRepos 0 \<lparr>kd_index = None, kd_objects = (\<lambda>_. None)\<rparr> layerState = layerState" by (simp add: loadRepos_def layerState_def)
  let ?r = "\<lparr>kr_tags = [], kr_manifests = [], kr_layers = [(''abc'', 5)], kr_referrers = []\<rparr>"
  have m: "map_of (ks_repos layerState) ''ghcr.io/x'' = Some ?r" by (simp add: layerState_def)
  have f: "upstreamFetch logUpstream ''ghcr.io'' ''x'' ''blobs/abc'' ''GET'' ([], oneToken) = (Inl (Error ''down''), (sentOnce, oneToken))"
    by (simp add: upstreamFetch_def askUp_def API_HOST_def bearerOf_def logUpstream_def sentOnce_def sampleToken_def)
  have y: "layerOf logUpstream ''GET'' ''ghcr.io/x'' ''abc'' 5 ([], oneToken) = (Said (ociError ''GET'' 502 ''UNAVAILABLE'' ''upstream ghcr.io: down''), (sentOnce, oneToken))"
    using f by (simp add: layerOf_def messageOf_def)
  show ?thesis using y by (simp add: kappaMirror_def r k Let_def l m blobOf_def h)
qed

lemma sample_obtained: "obtained before ''ghcr.io'' ''x'' ''t''"
proof -
  have b: "bearer (''Bearer realm='' @ quote ''https://a/t'') = Some (''https://a/t'', None)" by code_simp
  have u: "tokenUrl ''https://a/t'' None ''x'' = Inr ''https://a/t?scope=repository%3Ax%3Apull''" by code_simp
  let ?j = "JObj [(''token'', JStr ''t'')]"
  have p: "parse (decodeText (concat [utf8 (stringify ?j)])) = Some ?j" using parse_stringify [of ?j] by (simp add: plainKeys_def isIndex_def isDigit_def)
  have t: "tk_text (tokenOf 0 ?j) = ''t''" by (simp add: tokenOf_def textOfProp_def)
  have c: "challenged before ''ghcr.io'' ''x'' ''https://a/t'' None"
    unfolding challenged_def
    by (rule exI [of _ "''blobs/abc''"], rule exI [of _ "\<lparr>ur_status = 401, ur_heads = [(''www-authenticate'', ''Bearer realm='' @ quote ''https://a/t'')], ur_chunks = [], ur_ending = None\<rparr>"])
      (use b in \<open>simp add: before_def apiOf_def API_HOST_def\<close>)
  show ?thesis
    unfolding obtained_def
    by (rule exI [of _ "''https://a/t''"], rule exI [of _ None], rule exI, rule exI [of _ "\<lparr>ur_status = 200, ur_heads = [], ur_chunks = [utf8 (stringify ?j)], ur_ending = None\<rparr>"], rule exI [of _ ?j])
      (use c u p t in \<open>simp add: before_def okStatus_def\<close>)
qed

lemma sample_records: "recordsFetches logUpstream fst knownNow"
  unfolding recordsFetches_def by (auto simp: logUpstream_def knownNow_def tokensSound_def intro: obtained_mono)

theorem pull_tokens_confined_witness:
  "\<exists>xs. sentOnce = xs \<and> length xs \<le> 3 \<and> confined (knownNow (sentOnce, oneToken)) ''ghcr.io'' ''x'' xs"
proof -
  have "CHR ''/'' \<notin> set host \<Longrightarrow> host @ ''/'' @ repo = ''ghcr.io/x'' \<Longrightarrow> host = ''ghcr.io'' \<and> repo = ''x''" for host repo
    using key_inj [of host repo "''ghcr.io''" "''x''"] by simp
  then have "tokensSound logUpstream knownNow ([], oneToken)"
    using sample_obtained by (auto simp: tokensSound_def logUpstream_def knownNow_def sampleToken_def split: if_splits)
  moreover have "kappaRoute ''/v2/ghcr.io/x/blobs/abc'' = Some (''ghcr.io/x'', ''blobs'', ''abc'')" by code_simp
  moreover have "splitAt (CHR ''/'') ''ghcr.io/x'' = [''ghcr.io'', ''x'']" by simp
  ultimately show ?thesis
    using pull_tokens_confined [OF sample_records _ sample_fetch] by (auto simp: sentOnce_def)
qed

lemma inherited_name_throws:
  assumes "kappaRoute path = Some (name, ''blobs'', ref)" and "ref \<in> set INHERITED" and "knownHost name"
    and "map_of (ks_repos (loadRepos now dk st)) name = Some r" and "map_of (kr_layers r) ref = None"
  shows "kappaMirror u now dk verb path (st, w) = (Threw TypeError, loadRepos now dk st, w)"
proof -
  have "list_all (\<lambda>k. \<not> isAddr k) INHERITED" by code_simp
  then have "heldIn dk ref = None" using assms(2) by (auto simp: heldIn_def list_all_iff)
  with assms show ?thesis by (simp add: kappaMirror_def Let_def blobOf_def)
qed

end
