(* ===== verification/WebCrypto.thy ===== *)
theory WebCrypto
  imports Sha256
begin

text \<open>
  The calls of \<open>crypto.subtle\<close> that the sealing library makes, as the standards define them:
  HMAC with SHA-256 (RFC 2104), the AES block cipher (FIPS 197, encryption only, every key size)
  and AES in Galois/counter mode with a 16-byte tag (SP 800-38D). \<open>importKey\<close> refuses a key of
  another size. \<open>decrypt\<close> gives \<open>None\<close> where the platform rejects the promise.
\<close>

subsection \<open>HMAC\<close>

definition xorBytes :: "bytes \<Rightarrow> bytes \<Rightarrow> bytes" where
  "xorBytes as bs = map (\<lambda>(a, b). a XOR b) (zip as bs)"

definition hmacKey :: "bytes \<Rightarrow> bytes" where
  "hmacKey key = (let k = if length key > 64 then sha256 key else key in k @ replicate (64 - length k) 0)"

definition hmac :: "bytes \<Rightarrow> bytes \<Rightarrow> bytes" where
  "hmac key m = (let k = hmacKey key in
     sha256 (xorBytes k (replicate 64 0x5c) @ sha256 (xorBytes k (replicate 64 0x36) @ m)))"

lemma length_hmac [simp]: "length (hmac key m) = 32"
  by (simp add: hmac_def Let_def length_sha256)

subsection \<open>AES\<close>

definition xtime :: "byte \<Rightarrow> byte" where
  "xtime b = push_bit 1 b XOR (if bit b 7 then 0x1b else 0)"

text \<open>Multiplication in \<open>GF(2 ^ 8)\<close>, from the high bit down.\<close>

definition gmul :: "byte \<Rightarrow> byte \<Rightarrow> byte" where
  "gmul a b = fold (\<lambda>i r. xtime r XOR (if bit b i then a else 0)) (rev [0..<8]) 0"

text \<open>The inverse is the power 254: a product of the squares \<open>a ^ 2\<close>, \<open>a ^ 4\<close>, ..., \<open>a ^ 128\<close>.\<close>

definition ginv :: "byte \<Rightarrow> byte" where
  "ginv a = snd (fold (\<lambda>_ (p, r). let q = gmul p p in (q, gmul r q)) [0..<7] (a, 1))"

definition sbox :: "byte \<Rightarrow> byte" where
  "sbox b = (let i = ginv b in
     i XOR word_rotl 1 i XOR word_rotl 2 i XOR word_rotl 3 i XOR word_rotl 4 i XOR 0x63)"

definition rcon :: "nat \<Rightarrow> bytes" where
  "rcon i = [(xtime ^^ (i - 1)) 1, 0, 0, 0]"

text \<open>The key schedule, one 4-byte word at a time, the words so far in order.\<close>

definition nextWord :: "nat \<Rightarrow> bytes list \<Rightarrow> bytes" where
  "nextWord nk ws = (let i = length ws; t = last ws in
     xorBytes (ws ! (i - nk))
       (if i mod nk = 0 then xorBytes (map sbox (rotate1 t)) (rcon (i div nk))
        else if nk > 6 \<and> i mod nk = 4 then map sbox t else t))"

definition expandKey :: "bytes \<Rightarrow> bytes list" where
  "expandKey key = (let nk = length key div 4 in
     ((\<lambda>ws. ws @ [nextWord nk ws]) ^^ (4 * (nk + 7) - nk)) (chunks 4 key))"

text \<open>The state is its 16 bytes in column order.\<close>

definition shiftRows :: "bytes \<Rightarrow> bytes" where
  "shiftRows s = map (\<lambda>i. s ! ((i + 4 * (i mod 4)) mod 16)) [0..<16]"

definition mixColumn :: "bytes \<Rightarrow> bytes" where
  "mixColumn c = map (\<lambda>i. gmul 2 (c ! i) XOR gmul 3 (c ! ((i + 1) mod 4)) XOR c ! ((i + 2) mod 4) XOR c ! ((i + 3) mod 4)) [0..<4]"

definition aesRound :: "bytes list \<Rightarrow> nat \<Rightarrow> bytes \<Rightarrow> bytes" where
  "aesRound ws r s = xorBytes (concat (map mixColumn (chunks 4 (shiftRows (map sbox s))))) (concat (take 4 (drop (4 * r) ws)))"

definition aesEncrypt :: "bytes \<Rightarrow> bytes \<Rightarrow> bytes" where
  "aesEncrypt key b = (let ws = expandKey key; nr = length key div 4 + 6 in
     xorBytes (shiftRows (map sbox (fold (aesRound ws) [1..<nr] (xorBytes b (concat (take 4 ws))))))
       (concat (take 4 (drop (4 * nr) ws))))"

subsection \<open>Galois/counter mode\<close>

definition toBlock :: "bytes \<Rightarrow> 128 word" where
  "toBlock bs = foldl (\<lambda>w b. push_bit 8 w OR ucast b) 0 bs"

definition ofBlock :: "128 word \<Rightarrow> bytes" where
  "ofBlock w = map (\<lambda>i. ucast (drop_bit (8 * i) w)) (rev [0..<16])"

text \<open>Multiplication in \<open>GF(2 ^ 128)\<close>, the leftmost bit being the coefficient of 1.\<close>

definition gmul128 :: "128 word \<Rightarrow> 128 word \<Rightarrow> 128 word" where
  "gmul128 x y = fst (fold (\<lambda>i (z, v). (if bit x i then z XOR v else z,
     if bit v 0 then drop_bit 1 v XOR push_bit 120 0xe1 else drop_bit 1 v)) (rev [0..<128]) (0, y))"

definition padBlocks :: "bytes \<Rightarrow> bytes" where
  "padBlocks bs = bs @ replicate ((16 - length bs mod 16) mod 16) 0"

definition len64 :: "bytes \<Rightarrow> bytes" where
  "len64 bs = map (\<lambda>i. ucast (drop_bit (8 * i) (of_nat (8 * length bs) :: 64 word))) (rev [0..<8])"

definition ghash :: "128 word \<Rightarrow> bytes \<Rightarrow> 128 word" where
  "ghash h bs = fold (\<lambda>b y. gmul128 (y XOR toBlock b) h) (chunks 16 bs) 0"

definition inc32 :: "128 word \<Rightarrow> 128 word" where
  "inc32 c = (push_bit 32 (drop_bit 32 c)) OR ucast ((ucast c :: u32) + 1)"

definition gctr :: "bytes \<Rightarrow> 128 word \<Rightarrow> bytes \<Rightarrow> bytes" where
  "gctr key c bs = concat (map (\<lambda>(i, b). xorBytes b (aesEncrypt key (ofBlock ((inc32 ^^ i) c))))
     (enumerate 0 (chunks 16 bs)))"

definition preCounter :: "bytes \<Rightarrow> bytes \<Rightarrow> 128 word" where
  "preCounter key iv = (if length iv = 12 then toBlock (iv @ [0, 0, 0, 1])
     else ghash (toBlock (aesEncrypt key (replicate 16 0))) (padBlocks iv @ replicate 8 0 @ len64 iv))"

definition gcmTag :: "bytes \<Rightarrow> bytes \<Rightarrow> bytes \<Rightarrow> bytes \<Rightarrow> bytes" where
  "gcmTag key iv aad ct = gctr key (preCounter key iv)
     (ofBlock (ghash (toBlock (aesEncrypt key (replicate 16 0)))
        (padBlocks aad @ padBlocks ct @ len64 aad @ len64 ct)))"

definition gcmEncrypt :: "bytes \<Rightarrow> bytes \<Rightarrow> bytes \<Rightarrow> bytes \<Rightarrow> bytes" where
  "gcmEncrypt key iv aad p = (let ct = gctr key (inc32 (preCounter key iv)) p in ct @ gcmTag key iv aad ct)"

definition gcmDecrypt :: "bytes \<Rightarrow> bytes \<Rightarrow> bytes \<Rightarrow> bytes \<Rightarrow> bytes option" where
  "gcmDecrypt key iv aad c = (let n = length c - 16; ct = take n c; tag = drop n c in
     if length c < 16 \<or> tag \<noteq> gcmTag key iv aad ct then None
     else Some (gctr key (inc32 (preCounter key iv)) ct))"

text \<open>\<open>importKey('raw', ...)\<close>: the sizes each algorithm accepts.\<close>

definition importAes :: "bytes \<Rightarrow> bytes result" where
  "importAes key = (if length key \<in> {16, 24, 32} then Inr key else Inl (Error ''DataError''))"

definition importHmac :: "bytes \<Rightarrow> bytes result" where
  "importHmac key = (if key = [] then Inl (Error ''DataError'') else Inr key)"

subsection \<open>Opening what was sealed\<close>

lemma length_xorBytes [simp]: "length (xorBytes as bs) = min (length as) (length bs)"
  by (simp add: xorBytes_def)

lemma xorBytes_cancel: "length as \<le> length bs \<Longrightarrow> xorBytes (xorBytes as bs) bs = as"
  by (rule nth_equalityI) (simp_all add: xorBytes_def xor.assoc)

lemma nextWord_length:
  assumes "\<forall>w \<in> set ws. length w = 4" and "ws \<noteq> []" and "0 < nk"
  shows "length (nextWord nk ws) = 4"
proof -
  have "length ws - nk < length ws" using assms by (cases ws) auto
  then show ?thesis using assms by (simp add: nextWord_def Let_def rcon_def)
qed

lemma expandKey_steps:
  assumes "\<forall>w \<in> set ws. length w = 4" and "ws \<noteq> []" and "0 < nk"
  defines "f \<equiv> \<lambda>ws. ws @ [nextWord nk ws]"
  shows "length ((f ^^ n) ws) = length ws + n \<and> (\<forall>w \<in> set ((f ^^ n) ws). length w = 4) \<and> (f ^^ n) ws \<noteq> []"
  by (induction n) (use assms in \<open>auto simp: nextWord_length\<close>)

lemma chunks_exact: "length xs = n * m \<Longrightarrow> 0 < n \<Longrightarrow> (\<forall>c \<in> set (chunks n xs). length c = n) \<and> length (chunks n xs) = m"
proof (induction m arbitrary: xs)
  case (Suc m)
  then have "chunks n xs = take n xs # chunks n (drop n xs)" by (intro chunks_step) auto
  with Suc.IH [of "drop n xs"] Suc.prems show ?case by simp
qed simp

lemma length_concat_four: "\<forall>w \<in> set ws. length w = 4 \<Longrightarrow> length (concat ws) = 4 * length ws"
  by (induction ws) auto

lemma expandKey_shape:
  assumes "length key \<in> {16, 24, 32}"
  shows "length (expandKey key) = 4 * (length key div 4 + 7) \<and> (\<forall>w \<in> set (expandKey key). length w = 4)"
proof -
  define nk where "nk = length key div 4"
  have k: "length key = 4 * nk" and nk: "nk \<in> {4, 6, 8}" using assms by (auto simp: nk_def)
  have c: "\<forall>w \<in> set (chunks 4 key). length w = 4" "length (chunks 4 key) = nk"
    using chunks_exact [OF k] by auto
  moreover have "chunks 4 key \<noteq> []" using c(2) nk by auto
  ultimately show ?thesis using expandKey_steps [of "chunks 4 key" nk "4 * (nk + 7) - nk"] nk
    by (auto simp: expandKey_def Let_def nk_def [symmetric])
qed

lemma length_aesEncrypt: "length key \<in> {16, 24, 32} \<Longrightarrow> length (aesEncrypt key b) = 16"
proof -
  assume k: "length key \<in> {16, 24, 32}"
  define nr where "nr = length key div 4 + 6"
  define rk where "rk = take 4 (drop (4 * nr) (expandKey key))"
  have "length (expandKey key) = 4 * nr + 4" "\<forall>w \<in> set (expandKey key). length w = 4"
    using expandKey_shape [OF k] by (simp_all add: nr_def)
  then have "length rk = 4" "\<forall>w \<in> set rk. length w = 4" unfolding rk_def
    by (auto dest!: in_set_takeD in_set_dropD)
  then have "length (concat rk) = 16" by (simp add: length_concat_four)
  then show ?thesis by (simp add: aesEncrypt_def Let_def nr_def [symmetric] rk_def [symmetric] shiftRows_def)
qed

text \<open>Counter mode over any key stream of 16-byte blocks: the same call undoes it.\<close>

definition stream16 :: "(nat \<Rightarrow> bytes) \<Rightarrow> nat \<Rightarrow> bytes \<Rightarrow> bytes" where
  "stream16 ks k bs = concat (map (\<lambda>(i, b). xorBytes b (ks i)) (enumerate k (chunks 16 bs)))"

lemma stream16_Nil [simp]: "stream16 ks k [] = []"
  by (simp add: stream16_def)

lemma stream16_step:
  "bs \<noteq> [] \<Longrightarrow> stream16 ks k bs = xorBytes (take 16 bs) (ks k) @ stream16 ks (Suc k) (drop 16 bs)"
  by (simp add: stream16_def chunks_step)

lemma length_stream16: "\<forall>i. length (ks i) = 16 \<Longrightarrow> length (stream16 ks k bs) = length bs"
proof (induction "length bs" arbitrary: k bs rule: less_induct)
  case less
  show ?case
  proof (cases "bs = []")
    case False
    then have "length (stream16 ks (Suc k) (drop 16 bs)) = length (drop 16 bs)"
      using less by (metis length_drop diff_less length_greater_0_conv zero_less_numeral)
    with False less.prems show ?thesis by (simp add: stream16_step)
  qed simp
qed

lemma stream16_stream16: "\<forall>i. length (ks i) = 16 \<Longrightarrow> stream16 ks k (stream16 ks k bs) = bs"
proof (induction "length bs" arbitrary: k bs rule: less_induct)
  case less
  show ?case
  proof (cases "bs = []")
    case False
    define x r where "x = xorBytes (take 16 bs) (ks k)" and "r = stream16 ks (Suc k) (drop 16 bs)"
    have s: "stream16 ks k bs = x @ r" using False by (simp add: x_def r_def stream16_step)
    have x: "length x = min 16 (length bs)" using less.prems by (simp add: x_def min.commute)
    have r: "length bs \<le> 16 \<Longrightarrow> r = []" by (simp add: r_def)
    have "take 16 (x @ r) = x" "drop 16 (x @ r) = r" using x r by (cases "length bs \<le> 16"; simp)+
    moreover have "x @ r \<noteq> []" using x False by (metis append_is_Nil_conv length_0_conv min_def zero_neq_numeral)
    ultimately have "stream16 ks k (x @ r) = xorBytes x (ks k) @ stream16 ks (Suc k) r"
      by (simp add: stream16_step)
    moreover have "xorBytes x (ks k) = take 16 bs" unfolding x_def
      by (rule xorBytes_cancel) (use less.prems in simp)
    moreover have "stream16 ks (Suc k) r = drop 16 bs" unfolding r_def
      by (rule less.hyps) (use False less.prems in simp_all)
    ultimately show ?thesis by (simp add: s)
  qed simp
qed

lemma gctr_stream: "gctr key c = stream16 (\<lambda>i. aesEncrypt key (ofBlock ((inc32 ^^ i) c))) 0"
  by (simp add: gctr_def stream16_def fun_eq_iff)

lemma gctr_gctr: "length key \<in> {16, 24, 32} \<Longrightarrow> gctr key c (gctr key c bs) = bs"
  unfolding gctr_stream by (rule stream16_stream16) (simp add: length_aesEncrypt)

lemma length_gctr: "length key \<in> {16, 24, 32} \<Longrightarrow> length (gctr key c bs) = length bs"
  unfolding gctr_stream by (rule length_stream16) (simp add: length_aesEncrypt)

lemma length_gcmTag: "length key \<in> {16, 24, 32} \<Longrightarrow> length (gcmTag key iv aad ct) = 16"
  by (simp add: gcmTag_def length_gctr ofBlock_def)

lemma length_gcmEncrypt: "length key \<in> {16, 24, 32} \<Longrightarrow> length (gcmEncrypt key iv aad p) = length p + 16"
  by (simp add: gcmEncrypt_def Let_def length_gctr length_gcmTag)

lemma gcmDecrypt_gcmEncrypt: "length key \<in> {16, 24, 32} \<Longrightarrow> gcmDecrypt key iv aad (gcmEncrypt key iv aad p) = Some p"
  by (simp add: gcmDecrypt_def gcmEncrypt_def Let_def length_gctr length_gcmTag gctr_gctr)

text \<open>Whatever opens was sealed under the same key, nonce and purpose: opening inverts sealing.\<close>

lemma gcmDecrypt_Some:
  assumes "length key \<in> {16, 24, 32}" and "gcmDecrypt key iv aad c = Some p"
  shows "c = gcmEncrypt key iv aad p"
proof -
  define ct tag where "ct = take (length c - 16) c" and "tag = drop (length c - 16) c"
  have "tag = gcmTag key iv aad ct" and p: "p = gctr key (inc32 (preCounter key iv)) ct"
    using assms(2) by (auto simp: gcmDecrypt_def Let_def ct_def tag_def split: if_splits)
  moreover have "c = ct @ tag" by (simp add: ct_def tag_def)
  ultimately show ?thesis using gctr_gctr [OF assms(1)] by (simp add: gcmEncrypt_def Let_def)
qed

end
