(* ===== verification/Crypt.thy ===== *)
theory Crypt
  imports WebCrypto Cid
begin

text \<open>
  Sealed buckets, \<open>buckets/lib/crypt.mjs\<close>: keys as text in base64url, the fingerprint of a key,
  blocks and names sealed with AES-GCM under a nonce that is a function of the key and the
  plaintext, and the size a sealed file takes. Keys are bytes; the cache of imported keys is not
  observable. A refusal (\<open>e.refused\<close>) is the error whose text begins \<open>refused:\<close>.
\<close>

subsection \<open>The code\<close>

definition AAD_BLOCK :: bytes where "AAD_BLOCK = utf8 ''uor-bucket-block/v1''"
definition AAD_NAME :: bytes where "AAD_NAME = utf8 ''uor-bucket-name/v1''"

definition B64 :: string where
  "B64 = ''ABCDEFGHIJKLMNOPQRSTUVWXYZabcdefghijklmnopqrstuvwxyz0123456789-_''"

definition sextet :: "u32 \<Rightarrow> char" where
  "sextet v = B64 ! unat (v AND 63)"

text \<open>One turn of the loop of \<open>b64url\<close>: up to three bytes from \<open>i\<close>; \<open>?? 0\<close> past the end.\<close>

definition b64group :: "bytes \<Rightarrow> string" where
  "b64group g = (let at = (\<lambda>i. if i < length g then ucast (g ! i) else (0::u32));
       n = push_bit 16 (at 0) OR push_bit 8 (at 1) OR at 2
     in [B64 ! unat (drop_bit 18 n), sextet (drop_bit 12 n)]
        @ (if 1 < length g then [sextet (drop_bit 6 n)] else [])
        @ (if 2 < length g then [sextet n] else []))"

definition b64url :: "bytes \<Rightarrow> string" where
  "b64url bs = concat (map b64group (chunks 3 bs))"

definition un64 :: "u32 \<times> nat \<times> bytes \<Rightarrow> char \<Rightarrow> (u32 \<times> nat \<times> bytes) result" where
  "un64 st ch = (case st of (value, bits, out) \<Rightarrow>
     case indexOf B64 ch 0 of
       None \<Rightarrow> Inl (Error ''not base64url'')
     | Some v \<Rightarrow> (let value' = push_bit 6 value OR of_nat v; bits' = bits + 6
         in if bits' \<ge> 8 then Inr (value', bits' - 8, out @ [ucast (signed_drop_bit (bits' - 8) value' AND 255)])
            else Inr (value', bits', out)))"

fun unb64from :: "u32 \<times> nat \<times> bytes \<Rightarrow> string \<Rightarrow> bytes result" where
  "unb64from st [] = Inr (snd (snd st))"
| "unb64from st (ch # text) = andThen (un64 st ch) (\<lambda>st'. unb64from st' text)"

definition unb64url :: "string \<Rightarrow> bytes result" where
  "unb64url text = unb64from (0, 0, []) text"

definition keyToText :: "bytes \<Rightarrow> string" where
  "keyToText key = b64url key"

definition keyFromText :: "string \<Rightarrow> bytes result" where
  "keyFromText text = andThen (unb64url (trim text)) (\<lambda>k.
     if length k \<noteq> 32 then Inl (Error ''a bucket key is 32 bytes'') else Inr k)"

definition keyCheck :: "bytes \<Rightarrow> string" where
  "keyCheck key = take 16 (hex (sha256 (utf8 ''uor-bucket-key/v1'' @ key)))"

definition refused :: "string \<Rightarrow> js_error" where
  "refused why = Error (''refused: '' @ why)"

definition nonceFor :: "bytes \<Rightarrow> bytes \<Rightarrow> bytes result" where
  "nonceFor key bs = andThen (importHmac key) (\<lambda>k. Inr (take 12 (hmac k bs)))"

definition sealBlock :: "bytes \<Rightarrow> bytes \<Rightarrow> bytes result" where
  "sealBlock key text = andThen (nonceFor key text) (\<lambda>nonce.
     andThen (importAes key) (\<lambda>k. Inr (nonce @ gcmEncrypt k nonce AAD_BLOCK text)))"

definition openBlock :: "bytes \<Rightarrow> bytes \<Rightarrow> bytes result" where
  "openBlock key blk = (if length blk < 28 then Inl (refused ''a sealed block is at least 28 bytes'')
     else case importAes key of Inl e \<Rightarrow> Inl (refused ''this block does not open with this key'')
       | Inr k \<Rightarrow> (case gcmDecrypt k (subarray blk 0 12) AAD_BLOCK (drop 12 blk) of
           None \<Rightarrow> Inl (refused ''this block does not open with this key'')
         | Some p \<Rightarrow> Inr p))"

definition sealName :: "bytes \<Rightarrow> string \<Rightarrow> string result" where
  "sealName key name = (let text = utf8 name in
     andThen (nonceFor key (utf8 ''name/'' @ text)) (\<lambda>nonce.
     andThen (importAes key) (\<lambda>k. Inr (''e.'' @ b64url (nonce @ gcmEncrypt k nonce AAD_NAME text)))))"

definition isSealedName :: "string \<Rightarrow> bool" where
  "isSealedName s \<longleftrightarrow> take 2 s = ''e.''"

definition openName :: "bytes \<Rightarrow> string \<Rightarrow> string result" where
  "openName key blk = (if \<not> isSealedName blk then Inr blk
     else andThen (unb64url (drop 2 blk)) (\<lambda>bs.
       case importAes key of Inl e \<Rightarrow> Inl (refused ''this name does not open with this key'')
       | Inr k \<Rightarrow> (case gcmDecrypt k (subarray bs 0 12) AAD_NAME (drop 12 bs) of
           None \<Rightarrow> Inl (refused ''this name does not open with this key'')
         | Some p \<Rightarrow> Inr (decodeText p))))"

definition sealedSize :: "nat \<Rightarrow> nat \<Rightarrow> nat" where
  "sealedSize n chunk = (let blocks = if n = 0 then 1 else (n + chunk - 1) div chunk in n + 28 * blocks)"

subsection \<open>Base64url\<close>

abbreviation textBits6 :: "string \<Rightarrow> bool list" where
  "textBits6 cs \<equiv> concat (map (\<lambda>c. msb 6 (case indexOf B64 c 0 of Some n \<Rightarrow> of_nat n | None \<Rightarrow> (0::u32))) cs)"

lemma indexOf_B64: "n < 64 \<Longrightarrow> indexOf B64 (B64 ! n) 0 = Some n"
proof -
  have "\<forall>n \<in> set [0..<64]. indexOf B64 (B64 ! n) 0 = Some n" by code_simp
  then show "n < 64 \<Longrightarrow> indexOf B64 (B64 ! n) 0 = Some n" by simp
qed

lemma and63: "v AND 63 = take_bit 6 (v::u32)"
  by (simp add: take_bit_eq_mask mask_numeral)

lemma and63_less: "unat (v AND 63 :: u32) < 64"
proof -
  have "unat (v AND 63) = take_bit 6 (unat v)" by (simp add: and63 unsigned_take_bit_eq)
  also have "\<dots> < 2 ^ 6" by (rule take_bit_nat_less_exp)
  finally show ?thesis by simp
qed

lemma indexOf_sextet: "indexOf B64 (sextet v) 0 = Some (unat (v AND 63))"
  by (simp add: sextet_def indexOf_B64 and63_less)

lemma textBits6_sextet: "textBits6 [sextet v] = msb 6 v"
  by (simp add: indexOf_sextet and63) (rule msb_cong, simp add: bit_simps)

lemma sextet_small: "take_bit 6 v = v \<Longrightarrow> B64 ! unat v = sextet v"
  by (simp add: sextet_def and63)

definition word3 :: "byte \<Rightarrow> byte \<Rightarrow> byte \<Rightarrow> u32" where
  "word3 a b c = push_bit 16 (ucast a) OR push_bit 8 (ucast b) OR ucast c"

lemma msb_word3: "msb 24 (word3 a b c) = msb 8 a @ msb 8 b @ msb 8 c"
proof -
  have w: "word3 a b c = push_bit 8 (push_bit 8 (ucast a) OR ucast b) OR ucast c"
    by (simp add: word3_def push_bit_or or.assoc)
  have "msb (16 + 8) (word3 a b c) = msb 16 (push_bit 8 (ucast a) OR ucast b :: u32) @ msb 8 (ucast c :: u32)"
    unfolding w by (rule msb_push) (auto simp: bit_simps dest: bit_imp_le_length)
  moreover have "msb (8 + 8) (push_bit 8 (ucast a) OR ucast b :: u32) = msb 8 (ucast a :: u32) @ msb 8 (ucast b :: u32)"
    by (rule msb_push) (auto simp: bit_simps dest: bit_imp_le_length)
  ultimately show ?thesis by (simp add: msb_ucast)
qed

lemma msb_sextets: "msb 24 v = msb 6 (drop_bit 18 v) @ msb 6 (drop_bit 12 v) @ msb 6 (drop_bit 6 v) @ msb 6 v"
  using msb_split [of 18 6 v] msb_split [of 12 6 v] msb_split [of 6 6 v] by simp

lemma word3_top: "take_bit 6 (drop_bit 18 (word3 a b c)) = drop_bit 18 (word3 a b c)"
  by (rule bit_word_eqI) (auto simp: word3_def bit_simps dest: bit_imp_le_length)

lemma b64group_word3:
  "b64group [a] = [sextet (drop_bit 18 (word3 a 0 0)), sextet (drop_bit 12 (word3 a 0 0))]"
  "b64group [a, b] = [sextet (drop_bit 18 (word3 a b 0)), sextet (drop_bit 12 (word3 a b 0)), sextet (drop_bit 6 (word3 a b 0))]"
  "b64group [a, b, c] = [sextet (drop_bit 18 (word3 a b c)), sextet (drop_bit 12 (word3 a b c)),
      sextet (drop_bit 6 (word3 a b c)), sextet (word3 a b c)]"
  using sextet_small [OF word3_top, of a 0 0] sextet_small [OF word3_top, of a b 0] sextet_small [OF word3_top, of a b c]
  by (simp_all add: b64group_def Let_def word3_def)

lemma group3_cases:
  assumes "g \<noteq> []" and "length g \<le> 3"
  obtains (1) a where "g = [a]" | (2) a b where "g = [a, b]" | (3) a b c where "g = [a, b, c]"
proof -
  consider "length g = 1" | "length g = 2" | "length g = 3"
    using assms by (cases "length g" rule: nat.exhaust) (auto simp: le_Suc_eq numeral_3_eq_3)
  then show thesis
    by cases (auto simp: length_Suc_conv numeral_2_eq_2 numeral_3_eq_3 intro: that)
qed

lemma textBits6_group:
  assumes "g \<noteq> []" and "length g \<le> 3"
  shows "\<exists>p < 6. textBits6 (b64group g) = allBits g @ replicate p False \<and> (length g = 3 \<longrightarrow> p = 0)"
proof -
  have z: "msb k (0::byte) = replicate k False" for k by (rule nth_equalityI) (simp_all add: msb_def)
  note t = msb_word3 msb_sextets textBits6_sextet [simplified]
  from assms show ?thesis
  proof (cases rule: group3_cases)
    case (1 a)
    have "take 12 (msb 24 (word3 a 0 0)) = msb 8 a @ replicate 4 False" unfolding msb_word3 by (simp add: z)
    moreover have "take 12 (msb 24 (word3 a 0 0)) = textBits6 (b64group g)"
      unfolding msb_sextets by (simp add: 1 b64group_word3 t)
    ultimately show ?thesis by (intro exI [of _ 4]) (simp add: 1)
  next
    case (2 a b)
    have "take 18 (msb 24 (word3 a b 0)) = msb 8 a @ msb 8 b @ replicate 2 False" unfolding msb_word3 by (simp add: z)
    moreover have "take 18 (msb 24 (word3 a b 0)) = textBits6 (b64group g)"
      unfolding msb_sextets by (simp add: 2 b64group_word3 t)
    ultimately show ?thesis by (intro exI [of _ 2]) (simp add: 2)
  next
    case (3 a b c)
    have "textBits6 (b64group g) = msb 24 (word3 a b c)"
      unfolding msb_sextets by (simp add: 3 b64group_word3 t)
    then show ?thesis by (intro exI [of _ 0]) (simp add: 3 msb_word3)
  qed
qed

lemma textBits6_b64url: "\<exists>p < 6. textBits6 (b64url bs) = allBits bs @ replicate p False"
proof (induction "length bs" arbitrary: bs rule: less_induct)
  case less
  show ?case
  proof (cases "bs = []")
    case True
    then show ?thesis by (simp add: b64url_def exI [of _ 0])
  next
    case False
    then have s: "b64url bs = b64group (take 3 bs) @ b64url (drop 3 bs)" by (simp add: b64url_def chunks_step)
    from textBits6_group [of "take 3 bs"] False obtain p where
      p: "p < 6" "textBits6 (b64group (take 3 bs)) = allBits (take 3 bs) @ replicate p False"
      "length bs \<ge> 3 \<Longrightarrow> p = 0" by auto
    from less [of "drop 3 bs"] False obtain q where
      q: "q < 6" "textBits6 (b64url (drop 3 bs)) = allBits (drop 3 bs) @ replicate q False" by auto
    show ?thesis
    proof (cases "length bs \<ge> 3")
      case True
      then have "textBits6 (b64url bs) = allBits (take 3 bs @ drop 3 bs) @ replicate q False"
        unfolding s map_append concat_append using True p q by simp
      with q(1) show ?thesis unfolding append_take_drop_id by blast
    next
      case short: False
      then have "textBits6 (b64url bs) = allBits bs @ replicate p False"
        unfolding s using p by (simp add: b64url_def)
      with p(1) show ?thesis by blast
    qed
  qed
qed

lemma b64url_chars: "\<forall>c \<in> set (b64url bs). \<exists>w. c = sextet w"
proof -
  have "\<forall>c \<in> set (b64group g). \<exists>w. c = sextet w" if "g \<noteq> []" "length g \<le> 3" for g
    using that by (cases rule: group3_cases) (auto simp: b64group_word3)
  moreover have "g \<noteq> [] \<and> length g \<le> 3" if "g \<in> set (chunks 3 bs)" for g
    using chunks_piece [OF that] by simp
  ultimately show ?thesis by (auto simp: b64url_def)
qed

definition dec64 :: "u32 \<times> nat \<times> bytes \<Rightarrow> bool list" where
  "dec64 st = (case st of (value, bits, out) \<Rightarrow> allBits out @ msb bits value)"

lemma un64_bits:
  assumes "fst (snd st) < 8"
  shows "\<exists>st'. un64 st (sextet w) = Inr st' \<and> fst (snd st') < 8 \<and> dec64 st' = dec64 st @ textBits6 [sextet w]"
proof -
  obtain v bits out where st: "st = (v, bits, out)" "bits < 8" using assms by (cases st) auto
  define v' where "v' = push_bit 6 v OR (w AND 63)"
  have m: "msb (bits + 6) v' = msb bits v @ msb 6 (w AND 63)"
    unfolding v'_def by (rule msb_push) (use st in \<open>auto simp: and63 bit_simps\<close>)
  have t: "textBits6 [sextet w] = msb 6 (w AND 63)" by (simp add: indexOf_sextet)
  have u: "un64 st (sextet w) = (if bits + 6 \<ge> 8 then Inr (v', bits + 6 - 8, out @ [ucast (signed_drop_bit (bits + 6 - 8) v' AND 255)])
      else Inr (v', bits + 6, out))"
    by (simp add: un64_def st indexOf_sextet Let_def v'_def)
  show ?thesis
  proof (cases "bits + 6 \<ge> 8")
    case True
    define b where "b = (ucast (signed_drop_bit (bits - 2) v' AND 255) :: byte)"
    have "msb 8 b = msb 8 (drop_bit (bits - 2) v')"
      unfolding b_def by (rule msb_cong) (use st(2) in \<open>auto simp: bit_ucast_iff bit_and255 bit_signed_drop_bit_iff bit_drop_bit_eq\<close>)
    moreover have "msb (bits + 6) v' = msb 8 (drop_bit (bits - 2) v') @ msb (bits - 2) v'"
      using True msb_split [of "bits - 2" 8 v'] by (simp add: add.commute [of 6 bits])
    moreover have "bits - 2 < 8" using st(2) by simp
    ultimately show ?thesis using True st m t u by (simp add: dec64_def b_def [symmetric])
  next
    case False
    then show ?thesis using st m t u by (simp add: dec64_def)
  qed
qed

lemma unb64from_bits:
  assumes "fst (snd st) < 8" and "\<forall>c \<in> set cs. \<exists>w. c = sextet w"
  shows "\<exists>out rest. unb64from st cs = Inr out \<and> length rest < 8 \<and> allBits out @ rest = dec64 st @ textBits6 cs"
  using assms
proof (induction cs arbitrary: st)
  case Nil
  then show ?case by (cases st) (auto simp: dec64_def intro!: exI [of _ "msb (fst (snd st)) (fst st)"])
next
  case (Cons c cs)
  then obtain w where c: "c = sextet w" by auto
  from un64_bits [OF Cons.prems(1), of w] obtain st' where
    st': "un64 st c = Inr st'" "fst (snd st') < 8" "dec64 st' = dec64 st @ textBits6 [c]" unfolding c by blast
  from Cons.IH [OF st'(2)] Cons.prems(2) st' show ?case by auto
qed

lemma unb64url_b64url: "unb64url (b64url bs) = Inr bs"
proof -
  obtain p where p: "p < 6" "textBits6 (b64url bs) = allBits bs @ replicate p False"
    using textBits6_b64url by blast
  from unb64from_bits [of "(0, 0, [])" "b64url bs", OF _ b64url_chars] obtain out rest where
    o: "unb64url (b64url bs) = Inr out" "length rest < 8" "allBits out @ rest = allBits bs @ replicate p False"
    unfolding unb64url_def p(2) by (auto simp: dec64_def)
  from arg_cong [OF o(3), of length] have "8 * length out + length rest = 8 * length bs + p"
    unfolding length_append length_allBits length_replicate .
  then have len: "length out = length bs" by (rule eight_cong) (use o p(1) in simp_all)
  then have "length (allBits out) = length (allBits bs)" unfolding length_allBits by simp
  with o(3) have "allBits out = allBits bs" using append_eq_append_conv by blast
  with len have "out = bs" by (rule allBits_inject)
  then show ?thesis by (simp add: o)
qed

subsection \<open>Keys\<close>

lemma sextet_not_trimmed: "\<not> isTrimmed (sextet v)"
proof -
  have "\<forall>n \<in> set [0..<64]. \<not> isTrimmed (B64 ! n)" by code_simp
  then show ?thesis using and63_less [of v] by (simp add: sextet_def)
qed

lemma trim_b64url: "trim (b64url bs) = b64url bs"
proof -
  have "\<forall>c \<in> set (b64url bs). \<not> isTrimmed c" using b64url_chars [of bs] sextet_not_trimmed by auto
  then show ?thesis by (rule trim_none)
qed

text \<open>
  A key survives its text: the 32 bytes of any key are read back from its base64url spelling,
  and a spelling of any other number of bytes is refused.
\<close>
theorem key_text_roundtrip:
  "keyFromText (keyToText key) =
     (if length key = 32 then Inr key else Inl (Error ''a bucket key is 32 bytes''))"
  by (simp add: keyFromText_def keyToText_def trim_b64url unb64url_b64url)

subsection \<open>Blocks and names\<close>

lemma nonceFor_ok: "length key = 32 \<Longrightarrow> nonceFor key bs = Inr (take 12 (hmac key bs))"
  by (auto simp: nonceFor_def importHmac_def)

lemma importAes_ok: "length key = 32 \<Longrightarrow> importAes key = Inr key"
  by (simp add: importAes_def)

lemma sealBlock_ok:
  "length key = 32 \<Longrightarrow> sealBlock key p =
     Inr (take 12 (hmac key p) @ gcmEncrypt key (take 12 (hmac key p)) AAD_BLOCK p)"
  by (simp add: sealBlock_def nonceFor_ok importAes_ok)

lemma length_sealBlock: "length key = 32 \<Longrightarrow> sealBlock key p = Inr c \<Longrightarrow> length c = length p + 28"
  by (auto simp: sealBlock_ok length_gcmEncrypt)

lemma openBlock_sealBlock: "length key = 32 \<Longrightarrow> sealBlock key p = Inr c \<Longrightarrow> openBlock key c = Inr p"
  by (auto simp: sealBlock_ok openBlock_def importAes_ok length_gcmEncrypt subarray_def gcmDecrypt_gcmEncrypt)

lemma openBlock_Inr:
  assumes "openBlock key c = Inr p"
  shows "28 \<le> length c \<and> c = take 12 c @ gcmEncrypt key (take 12 c) AAD_BLOCK p"
proof -
  have l: "28 \<le> length c" and k: "length key \<in> {16, 24, 32}" and
    d: "gcmDecrypt key (take 12 c) AAD_BLOCK (drop 12 c) = Some p"
    using assms by (auto simp: openBlock_def importAes_def subarray_def split: if_splits sum.splits option.splits)
  from gcmDecrypt_Some [OF k d] l show ?thesis by (metis append_take_drop_id)
qed

text \<open>
  Sealing then opening a block is the identity for every 32-byte key and every plaintext, the
  sealed block is 28 bytes longer than the plaintext, and the same bytes always seal to the same
  block.
\<close>
theorem seal_open_block:
  assumes "length key = 32"
  shows "\<exists>c. sealBlock key p = Inr c \<and> length c = length p + 28 \<and> openBlock key c = Inr p"
  using sealBlock_ok [OF assms, of p] length_sealBlock [OF assms] openBlock_sealBlock [OF assms] by blast

theorem seal_open_block_witness:
  "\<exists>c. sealBlock (replicate 32 7) [1, 2, 3] = Inr c \<and> length c = 31 \<and> openBlock (replicate 32 7) c = Inr [1, 2, 3]"
  using seal_open_block [of "replicate 32 7" "[1, 2, 3]"] by simp

text \<open>
  What opens was sealed: a block that \<open>openBlock\<close> accepts is, byte for byte, the GCM sealing of
  the plaintext returned under this key, the nonce it carries and the purpose of a block, so two
  blocks with one nonce that open to the same plaintext are the same block; and a block under 28
  bytes never opens.
\<close>
theorem openBlock_authentic:
  assumes "openBlock key c = Inr p"
  shows "28 \<le> length c \<and> c = take 12 c @ gcmEncrypt key (take 12 c) AAD_BLOCK p"
  using assms by (rule openBlock_Inr)

theorem openBlock_authentic_witness:
  "\<exists>c. openBlock (replicate 32 7) c = Inr [1, 2, 3] \<and> c = take 12 c @ gcmEncrypt (replicate 32 7) (take 12 c) AAD_BLOCK [1, 2, 3]"
proof -
  obtain c where "sealBlock (replicate 32 7) [1, 2, 3] = Inr c" using sealBlock_ok [of "replicate 32 7"] by auto
  then have "openBlock (replicate 32 7) c = Inr [1, 2, 3]" by (intro openBlock_sealBlock) simp_all
  with openBlock_authentic [of "replicate 32 7" c "[1, 2, 3]"] show ?thesis by blast
qed

lemma sealName_ok:
  assumes "length key = 32"
  shows "\<exists>s. sealName key name = Inr s \<and> isSealedName s \<and> openName key s = Inr name"
proof -
  define nonce where "nonce = take 12 (hmac key (utf8 ''name/'' @ utf8 name))"
  define c where "c = gcmEncrypt key nonce AAD_NAME (utf8 name)"
  have "sealName key name = Inr (''e.'' @ b64url (nonce @ c))"
    using assms by (simp add: sealName_def nonceFor_ok importAes_ok Let_def nonce_def c_def)
  moreover have "isSealedName (''e.'' @ b64url (nonce @ c))" by (simp add: isSealedName_def)
  moreover have "length nonce = 12" by (simp add: nonce_def)
  ultimately show ?thesis using assms
    by (simp add: openName_def unb64url_b64url importAes_ok subarray_def c_def gcmDecrypt_gcmEncrypt)
qed

text \<open>
  A name sealed for the wire reads as written with the key: for every 32-byte key and every name
  the sealed spelling exists, is recognised as sealed and opens to the name.
\<close>
theorem seal_open_name:
  assumes "length key = 32"
  shows "\<exists>s. sealName key name = Inr s \<and> isSealedName s \<and> openName key s = Inr name"
  using assms by (rule sealName_ok)

theorem seal_open_name_witness:
  "\<exists>s. sealName (replicate 32 9) ''a/b.txt'' = Inr s \<and> isSealedName s \<and> openName (replicate 32 9) s = Inr ''a/b.txt''"
  using seal_open_name [of "replicate 32 9" "''a/b.txt''"] by simp

end
