(* ===== verification/DagPb.thy ===== *)
theory DagPb
  imports Cid
begin

text \<open>
  The dag-pb and UnixFS bytes of \<open>buckets/lib/buckets-lib.mjs\<close>: variable-length integers, the
  node that carries a file's leaves, and the reader of a node's links. The reader takes a length
  after every tag, whatever the tag's wire type, and a byte read past the end counts as zero.
\<close>

subsection \<open>The code\<close>

function varint :: "nat \<Rightarrow> bytes" where
  "varint n = (if n \<ge> 0x80 then of_nat (n mod 128 + 128) # varint (n div 128) else [of_nat n])"
  by pat_completeness auto
termination
  by (relation "measure id") auto

declare varint.simps [simp del]

text \<open>\<open>bytes[i]\<close> where the code then masks it: \<open>undefined\<close> beyond the end acts as zero.\<close>

definition byteAt :: "bytes \<Rightarrow> nat \<Rightarrow> nat" where
  "byteAt bs i = (if i < length bs then unat (bs ! i) else 0)"

function readVarintFrom :: "bytes \<Rightarrow> nat \<Rightarrow> nat \<Rightarrow> nat \<Rightarrow> nat \<times> nat" where
  "readVarintFrom bs i vl shift =
     (let b = byteAt bs i; vl' = vl + (b mod 128) * 2 ^ shift
      in if b < 128 then (vl', Suc i) else readVarintFrom bs (Suc i) vl' (shift + 7))"
  by pat_completeness auto
termination
proof (relation "measure (\<lambda>(bs, i, vl, shift). length bs - i)", simp)
  fix bs i vl shift b vl'
  assume "b = byteAt bs i" "\<not> b < 128"
  then have "i < length bs" by (auto simp: byteAt_def split: if_splits)
  then show "((bs, Suc i, vl', shift + 7), (bs, i, vl, shift)) \<in> measure (\<lambda>(bs, i, vl, shift). length bs - i)"
    by simp
qed

declare readVarintFrom.simps [simp del]

definition readVarint :: "bytes \<Rightarrow> nat \<Rightarrow> nat \<times> nat" where
  "readVarint bs i = readVarintFrom bs i 0 0"

text \<open>\<open>tag >> 3\<close>: a signed shift of the low 32 bits.\<close>

definition shr3 :: "nat \<Rightarrow> int" where
  "shr3 tag = sint (of_nat tag :: u32) div 8"

lemma readVarintFrom_progress: "i < snd (readVarintFrom bs i vl shift)"
proof (induction bs i vl shift rule: readVarintFrom.induct)
  case (1 bs i vl shift)
  then show ?case by (auto simp: readVarintFrom.simps [of bs i] Let_def intro: less_trans [OF lessI])
qed

lemma readVarint_progress: "i < snd (readVarint bs i)"
  by (simp add: readVarint_def readVarintFrom_progress)

text \<open>The inner loop over one link: the last field numbered 1 is its hash.\<close>

function linkHash :: "bytes \<Rightarrow> nat \<Rightarrow> bytes option \<Rightarrow> bytes option" where
  "linkHash link j hash =
     (if j < length link then
        (let (ltag, j1) = readVarint link j; (llen, j2) = readVarint link j1
         in linkHash link (j2 + llen) (if shr3 ltag = 1 then Some (subarray link j2 (j2 + llen)) else hash))
      else hash)"
  by pat_completeness auto
termination
proof (relation "measure (\<lambda>(link, j, hash). length link - j)", simp)
  fix link :: bytes and j hash x ltag j1 y llen j2
  assume "j < length link" "x = readVarint link j" "(ltag, j1) = x" "y = readVarint link j1" "(llen, j2) = y"
  then have "j < j1" "j1 < j2" using readVarint_progress by (metis snd_conv)+
  then show "((link, j2 + llen, if shr3 ltag = 1 then Some (subarray link j2 (j2 + llen)) else hash), (link, j, hash))
      \<in> measure (\<lambda>(link, j, hash). length link - j)"
    using \<open>j < length link\<close> by simp
qed

declare linkHash.simps [simp del]

definition linkCid :: "bytes \<Rightarrow> string" where
  "linkCid hash = cidString (of_nat (byteAt hash 1)) (drop 4 hash)"

function linksFrom :: "bytes \<Rightarrow> nat \<Rightarrow> string list \<Rightarrow> string list" where
  "linksFrom bs i links =
     (if i < length bs then
        (let (tag, i1) = readVarint bs i; (len, i2) = readVarint bs i1
         in linksFrom bs (i2 + len)
              (if shr3 tag = 2 then
                 (case linkHash (subarray bs i2 (i2 + len)) 0 None of
                    Some hash \<Rightarrow> links @ [linkCid hash] | None \<Rightarrow> links)
               else links))
      else links)"
  by pat_completeness auto
termination
proof (relation "measure (\<lambda>(bs, i, links). length bs - i)", simp)
  fix bs :: bytes and i links x tag i1 y len i2
  assume "i < length bs" "x = readVarint bs i" "(tag, i1) = x" "y = readVarint bs i1" "(len, i2) = y"
  then have "i < i1" "i1 < i2" using readVarint_progress by (metis snd_conv)+
  then show "((bs, i2 + len, if shr3 tag = 2 then (case linkHash (subarray bs i2 (i2 + len)) 0 None of
        Some hash \<Rightarrow> links @ [linkCid hash] | None \<Rightarrow> links) else links), (bs, i, links))
      \<in> measure (\<lambda>(bs, i, links). length bs - i)"
    using \<open>i < length bs\<close> by simp
qed

declare linksFrom.simps [simp del]

definition linksOf :: "bytes \<Rightarrow> string list" where
  "linksOf bs = linksFrom bs 0 []"

definition field :: "nat \<Rightarrow> nat \<Rightarrow> bytes \<Rightarrow> bytes" where
  "field num wire payload = varint (num * 8 + wire) @ (if wire = 2 then varint (length payload) else []) @ payload"

record leaf =
  l_digest :: bytes
  l_size :: nat

definition linkPart :: "leaf \<Rightarrow> bytes" where
  "linkPart l = field 2 2
     (field 1 2 ([0x01, RAW, 0x12, 0x20] @ l_digest l) @ field 2 2 [] @ field 3 0 (varint (l_size l)))"

definition unixfs :: "leaf list \<Rightarrow> nat \<Rightarrow> bytes" where
  "unixfs leaves totalSize = field 1 0 (varint 2) @ field 3 0 (varint totalSize)
     @ concat (map (\<lambda>l. field 4 0 (varint (l_size l))) leaves)"

definition fileNode :: "leaf list \<Rightarrow> nat \<Rightarrow> bytes" where
  "fileNode leaves totalSize = concat (map linkPart leaves) @ field 1 2 (unixfs leaves totalSize)"

subsection \<open>Variable-length integers\<close>

lemma byteAt_mid: "byteAt (pre @ b # post) (length pre) = unat b"
  by (simp add: byteAt_def nth_append)

lemma readVarintFrom_varint:
  "readVarintFrom (pre @ varint n @ post) (length pre) vl shift
     = (vl + n * 2 ^ shift, length pre + length (varint n))"
proof (induction n arbitrary: pre vl shift rule: varint.induct)
  case (1 n)
  show ?case
  proof (cases "n \<ge> 0x80")
    case True
    define b where "b = (of_nat (n mod 128 + 128) :: byte)"
    have v: "varint n = b # varint (n div 128)" using True by (simp add: varint.simps [of n] b_def)
    have "n mod 128 + 128 < 256" by (rule order.strict_trans2 [of _ "128 + 128"]) auto
    then have ub: "unat b = n mod 128 + 128" unfolding b_def by (rule unat_of_nat_byte)
    have "readVarintFrom (pre @ varint n @ post) (length pre) vl shift =
        readVarintFrom ((pre @ [b]) @ varint (n div 128) @ post) (length (pre @ [b])) (vl + (n mod 128) * 2 ^ shift) (shift + 7)"
      by (subst readVarintFrom.simps) (simp add: v byteAt_mid ub Let_def)
    also have "\<dots> = (vl + (n mod 128) * 2 ^ shift + n div 128 * 2 ^ (shift + 7),
        length (pre @ [b]) + length (varint (n div 128)))"
      by (rule "1.IH") (use True in simp)
    also have "vl + (n mod 128) * 2 ^ shift + n div 128 * 2 ^ (shift + 7) = vl + n * 2 ^ shift"
    proof -
      have "(n mod 128 + n div 128 * 128) * 2 ^ shift = (n mod 128) * 2 ^ shift + n div 128 * 2 ^ (shift + 7)"
        by (simp only: add_mult_distrib power_add) (simp add: ac_simps)
      then show ?thesis by simp
    qed
    finally show ?thesis by (simp add: v)
  next
    case False
    then have "varint n = [of_nat n]" and "unat (of_nat n :: byte) = n"
      by (simp_all add: varint.simps [of n] unat_of_nat_byte)
    then show ?thesis using False by (simp add: readVarintFrom.simps [of _ "length pre"] byteAt_mid Let_def)
  qed
qed

lemma readVarint_varint: "readVarint (pre @ varint n @ post) (length pre) = (n, length pre + length (varint n))"
  by (simp add: readVarint_def readVarintFrom_varint)

text \<open>
  A variable-length integer is read back exactly, wherever it stands in a buffer: the reader
  returns the value written and the position just after its last byte.
\<close>
theorem varint_roundtrip:
  "readVarint (pre @ varint n @ post) (length pre) = (n, length (pre @ varint n))"
  by (simp add: readVarint_varint)

subsection \<open>Fields and links\<close>

lemma sint_small: "t < 2 ^ 31 \<Longrightarrow> sint (of_nat t :: u32) = int t"
  by (simp add: signed_of_nat signed_take_bit_int_eq_self)

lemma shr3_tag: "num * 8 + wire < 2 ^ 31 \<Longrightarrow> wire < 8 \<Longrightarrow> shr3 (num * 8 + wire) = int num"
proof -
  assume n: "num * 8 + wire < 2 ^ 31" and w: "wire < 8"
  have "shr3 (num * 8 + wire) = int (num * 8 + wire) div 8" unfolding shr3_def sint_small [OF n] ..
  also have "\<dots> = int ((num * 8 + wire) div 8)" by (simp only: zdiv_int of_nat_numeral)
  also have "(num * 8 + wire) div 8 = num" using w by simp
  finally show ?thesis .
qed

lemma field_nonempty [simp]: "field num wire payload \<noteq> []"
  by (simp add: field_def varint.simps [of "num * 8 + wire"])

lemma field_read:
  assumes "bs = pre @ field num 2 payload @ post"
  shows "\<exists>i1 i2. readVarint bs (length pre) = (num * 8 + 2, i1) \<and> readVarint bs i1 = (length payload, i2) \<and>
     i2 + length payload = length (pre @ field num 2 payload) \<and> subarray bs i2 (i2 + length payload) = payload"
proof -
  define v w where "v = varint (num * 8 + 2)" and "w = varint (length payload)"
  have bs: "bs = pre @ v @ w @ payload @ post"
    by (simp add: assms field_def v_def w_def)
  have "readVarint bs (length pre) = (num * 8 + 2, length (pre @ v))"
    using readVarint_varint [of pre "num * 8 + 2" "w @ payload @ post"] by (simp add: bs v_def)
  moreover have "readVarint bs (length (pre @ v)) = (length payload, length (pre @ v @ w))"
    using readVarint_varint [of "pre @ v" "length payload" "payload @ post"] by (simp add: bs w_def)
  moreover have "subarray bs (length (pre @ v @ w)) (length (pre @ v @ w) + length payload) = payload"
    by (simp add: bs subarray_def)
  ultimately show ?thesis by (auto simp: field_def v_def w_def)
qed

lemma linkHash_field:
  assumes "link = pre @ field num 2 payload @ post" and "num < 16"
  shows "linkHash link (length pre) h =
     linkHash link (length (pre @ field num 2 payload)) (if num = 1 then Some payload else h)"
proof -
  obtain i1 i2 where r: "readVarint link (length pre) = (num * 8 + 2, i1)" "readVarint link i1 = (length payload, i2)"
    "i2 + length payload = length (pre @ field num 2 payload)" "subarray link i2 (i2 + length payload) = payload"
    using field_read [OF assms(1)] by blast
  have "length pre < length link" by (simp add: assms(1))
  moreover have "(shr3 (num * 8 + 2) = 1) = (num = 1)" using assms(2) shr3_tag [of num 2] by simp
  ultimately have "linkHash link (length pre) h =
      linkHash link (i2 + length payload) (if num = 1 then Some (subarray link i2 (i2 + length payload)) else h)"
    by (subst linkHash.simps) (simp only: r(1,2) Let_def split_conv if_True)
  then show ?thesis unfolding r(4) unfolding r(3) .
qed

lemma linkHash_tail: "linkHash (pre @ field 3 0 (varint n)) (length pre) h = h"
proof -
  define link where "link = pre @ field 3 0 (varint n)"
  have link: "link = pre @ varint 24 @ varint n" by (simp add: link_def field_def)
  have 1: "readVarint link (length pre) = (24, length (pre @ varint 24))"
    using readVarint_varint [of pre 24 "varint n"] by (simp add: link)
  have 2: "readVarint link (length (pre @ varint 24)) = (n, length link)"
    using readVarint_varint [of "pre @ varint 24" n "[]"] by (simp add: link)
  have "length pre < length link" using readVarint_progress [of "length pre" link] 1
    readVarint_progress [of "length (pre @ varint 24)" link] 2 by simp
  moreover have "shr3 24 = 3" using shr3_tag [of 3 0] by simp
  ultimately have "linkHash link (length pre) h = linkHash link (length link + n) h"
    using 1 2 by (subst linkHash.simps) (simp add: Let_def)
  also have "\<dots> = h" by (simp add: linkHash.simps)
  finally show ?thesis by (simp add: link_def)
qed

lemma linkHash_link:
  "linkHash (field 1 2 c @ field 2 2 [] @ field 3 0 (varint n)) 0 None = Some c"
proof -
  let ?l = "field 1 2 c @ field 2 2 [] @ field 3 0 (varint n)"
  have "linkHash ?l 0 None = linkHash ?l (length (field 1 2 c)) (Some c)"
    using linkHash_field [of ?l "[]" 1 c] by simp
  also have "\<dots> = linkHash ?l (length (field 1 2 c @ field 2 2 [])) (Some c)"
    using linkHash_field [of ?l "field 1 2 c" 2 "[]"] by simp
  also have "\<dots> = Some c"
    using linkHash_tail [of "field 1 2 c @ field 2 2 []" n "Some c"] by simp
  finally show ?thesis .
qed

lemma linksFrom_field:
  assumes "bs = pre @ field num 2 payload @ post" and "num < 16"
  shows "linksFrom bs (length pre) ls =
     linksFrom bs (length (pre @ field num 2 payload))
       (if num = 2 then (case linkHash payload 0 None of Some h \<Rightarrow> ls @ [linkCid h] | None \<Rightarrow> ls) else ls)"
proof -
  obtain i1 i2 where r: "readVarint bs (length pre) = (num * 8 + 2, i1)" "readVarint bs i1 = (length payload, i2)"
    "i2 + length payload = length (pre @ field num 2 payload)" "subarray bs i2 (i2 + length payload) = payload"
    using field_read [OF assms(1)] by blast
  have "length pre < length bs" by (simp add: assms(1))
  moreover have "(shr3 (num * 8 + 2) = 2) = (num = 2)" using assms(2) shr3_tag [of num 2] by simp
  ultimately have "linksFrom bs (length pre) ls = linksFrom bs (i2 + length payload)
      (if num = 2 then (case linkHash (subarray bs i2 (i2 + length payload)) 0 None of
         Some h \<Rightarrow> ls @ [linkCid h] | None \<Rightarrow> ls) else ls)"
    by (subst linksFrom.simps) (simp only: r(1,2) Let_def split_conv if_True)
  then show ?thesis unfolding r(4) unfolding r(3) .
qed

lemma linkCid_leaf: "linkCid ([0x01, RAW, 0x12, 0x20] @ d) = cidString RAW d"
  by (simp add: linkCid_def byteAt_def)

lemma linksFrom_leaves:
  "bs = pre @ concat (map linkPart leaves) @ post \<Longrightarrow>
   linksFrom bs (length pre) ls =
     linksFrom bs (length (pre @ concat (map linkPart leaves))) (ls @ map (\<lambda>l. cidString RAW (l_digest l)) leaves)"
proof (induction leaves arbitrary: pre ls)
  case (Cons l leaves)
  define payload where "payload = field 1 2 ([0x01, RAW, 0x12, 0x20] @ l_digest l) @ field 2 2 [] @ field 3 0 (varint (l_size l))"
  have bs: "bs = pre @ field 2 2 payload @ concat (map linkPart leaves) @ post"
    using Cons.prems by (simp add: linkPart_def [of l] payload_def)
  have "linksFrom bs (length pre) ls = linksFrom bs (length (pre @ field 2 2 payload)) (ls @ [cidString RAW (l_digest l)])"
    using linksFrom_field [OF bs] linkHash_link [of "[0x01, RAW, 0x12, 0x20] @ l_digest l" "l_size l"]
    by (simp add: payload_def linkCid_leaf [simplified])
  also have "\<dots> = linksFrom bs (length ((pre @ field 2 2 payload) @ concat (map linkPart leaves)))
      ((ls @ [cidString RAW (l_digest l)]) @ map (\<lambda>l. cidString RAW (l_digest l)) leaves)"
    by (rule Cons.IH) (simp add: bs)
  finally show ?case by (simp add: linkPart_def [of l] payload_def)
qed simp

lemma linksOf_fileNode: "linksOf (fileNode leaves totalSize) = map (\<lambda>l. cidString RAW (l_digest l)) leaves"
proof -
  define bs where "bs = fileNode leaves totalSize"
  define pre where "pre = concat (map linkPart leaves)"
  have bs: "bs = pre @ field 1 2 (unixfs leaves totalSize) @ []" by (simp add: bs_def pre_def fileNode_def)
  have "linksOf bs = linksFrom bs (length ([] :: bytes)) []" by (simp add: linksOf_def)
  also have "\<dots> = linksFrom bs (length ([] @ pre)) ([] @ map (\<lambda>l. cidString RAW (l_digest l)) leaves)"
    unfolding pre_def by (rule linksFrom_leaves) (simp add: bs pre_def)
  also have "\<dots> = linksFrom bs (length (pre @ field 1 2 (unixfs leaves totalSize))) (map (\<lambda>l. cidString RAW (l_digest l)) leaves)"
    using linksFrom_field [OF bs] by simp
  also have "\<dots> = map (\<lambda>l. cidString RAW (l_digest l)) leaves"
    by (subst linksFrom.simps) (simp add: bs)
  finally show ?thesis by (simp add: bs_def)
qed

text \<open>
  The links read from the file node that was written over a list of leaves are the raw CIDs of
  those leaves, in order and without omission, whatever their digests, sizes and number.
\<close>
theorem fileNode_links: "linksOf (fileNode leaves totalSize) = map (\<lambda>l. cidString RAW (l_digest l)) leaves"
  by (rule linksOf_fileNode)

end
