(* ===== verification/Octree.thy ===== *)
theory Octree
  imports Json Sha256 "HOL-Library.Char_ord" "HOL-Library.List_Lexorder"
begin

text \<open>
  The bucket index as a tree of OCI indexes, \<open>buckets/lib/octree.mjs\<close>. A key ends a node at a level
  when the SHA-256 of the key begins with enough zero bits; the tree is built bottom-up over the
  sorted entries and every node is stored under the SHA-256 of its JSON text.

  Strings compare by code units: the lexicographic order of the library. The nodes made so far are
  the list that \<open>makeNode\<close> extends. A walk may follow the links of a hostile tree for ever, so it
  takes the depth it may descend; \<open>None\<close> is a walk that needs more.
\<close>

subsection \<open>The code\<close>

definition BOUNDARY_BITS :: nat where "BOUNDARY_BITS = 5"
definition NODE_TYPE :: string where "NODE_TYPE = ''application/vnd.uor.bucket.node.v1''"
definition OBJECT_TYPE :: string where "OBJECT_TYPE = ''application/vnd.uor.bucket.object.v1''"
definition INDEX_MT :: string where "INDEX_MT = ''application/vnd.oci.image.index.v1+json''"
definition MANIFEST_MT :: string where "MANIFEST_MT = ''application/vnd.oci.image.manifest.v1+json''"
definition BLOCK_MT :: string where "BLOCK_MT = ''application/vnd.ipld.raw''"

definition EMPTY_CONFIG :: json where
  "EMPTY_CONFIG = JObj [(''mediaType'', JStr ''application/vnd.oci.empty.v1+json''),
     (''digest'', JStr ''sha256:44136fa355b3678a1146ad16f7e8649e94fb4fc21fe77e8310c060f61caaff8a''),
     (''size'', JNum 2)]"

definition keyHash :: "string \<Rightarrow> bytes" where
  "keyHash k = sha256 (utf8 k)"

text \<open>\<open>Math.clz32\<close>.\<close>

definition clz32 :: "u32 \<Rightarrow> nat" where
  "clz32 w = length (takeWhile (\<lambda>i. \<not> bit w i) (rev [0..<32]))"

fun zeroBits :: "bytes \<Rightarrow> nat" where
  "zeroBits [] = 0"
| "zeroBits (b # h) = (if b = 0 then 8 + zeroBits h else clz32 (ucast b) - 24)"

definition leadingZeroBits :: "string \<Rightarrow> nat" where
  "leadingZeroBits key = zeroBits (keyHash key)"

definition isBoundary :: "string \<Rightarrow> nat \<Rightarrow> bool" where
  "isBoundary key level \<longleftrightarrow> leadingZeroBits key \<ge> BOUNDARY_BITS * (level + 1)"

record block =
  b_bytes :: bytes
  b_digest :: string
  b_size :: nat

definition jsonBlock :: "json \<Rightarrow> block" where
  "jsonBlock v = (let bs = utf8 (stringify v) in
     \<lparr>b_bytes = bs, b_digest = ''sha256:'' @ sha256hex bs, b_size = length bs\<rparr>)"

text \<open>One object's manifest: every block of the file is a layer.\<close>

definition objectManifest :: "string \<Rightarrow> string \<Rightarrow> nat \<Rightarrow> nat \<Rightarrow> (string \<times> nat) list \<Rightarrow> block" where
  "objectManifest key root sz mtime blocks = jsonBlock (JObj [
     (''schemaVersion'', JNum 2),
     (''mediaType'', JStr MANIFEST_MT),
     (''artifactType'', JStr OBJECT_TYPE),
     (''config'', EMPTY_CONFIG),
     (''layers'', JArr (map (\<lambda>(digest, n). JObj [(''mediaType'', JStr BLOCK_MT), (''digest'', JStr digest), (''size'', JNum (int n))]) blocks)),
     (''annotations'', JObj [
        (''org.opencontainers.image.title'', JStr key),
        (''foundation.uor.object.root'', JStr root),
        (''foundation.uor.object.size'', JStr (decimal sz)),
        (''foundation.uor.object.mtime'', JStr (decimal mtime))])])"

text \<open>What the index keeps of an object. An absent \<open>mtime\<close> is written as 0.\<close>

record entry =
  e_manifest :: string
  e_manifestSize :: nat
  e_root :: string
  e_size :: nat
  e_mtime :: nat

definition descriptorFor :: "string \<times> entry \<Rightarrow> json" where
  "descriptorFor kv = (case kv of (key, v) \<Rightarrow> JObj [
     (''mediaType'', JStr MANIFEST_MT),
     (''digest'', JStr (e_manifest v)),
     (''size'', JNum (int (e_manifestSize v))),
     (''annotations'', JObj [
        (''foundation.uor.bucket.key'', JStr key),
        (''foundation.uor.bucket.size'', JStr (decimal (e_size v))),
        (''foundation.uor.bucket.mtime'', JStr (decimal (e_mtime v))),
        (''foundation.uor.object.root'', JStr (e_root v))])])"

record nodeRef =
  n_digest :: string
  n_size :: nat
  n_last :: string

definition nodeJson :: "json list \<Rightarrow> nat \<Rightarrow> string \<Rightarrow> json" where
  "nodeJson children level lst = JObj [
     (''schemaVersion'', JNum 2),
     (''mediaType'', JStr INDEX_MT),
     (''artifactType'', JStr NODE_TYPE),
     (''manifests'', JArr children),
     (''annotations'', JObj [(''foundation.uor.bucket.last'', JStr lst), (''foundation.uor.bucket.level'', JStr (decimal level))])]"

definition makeNode :: "json list \<Rightarrow> nat \<Rightarrow> string \<Rightarrow> block list \<Rightarrow> nodeRef \<times> block list" where
  "makeNode children level lst nodes = (let b = jsonBlock (nodeJson children level lst) in
     (\<lparr>n_digest = b_digest b, n_size = b_size b, n_last = lst\<rparr>, nodes @ [b]))"

text \<open>\<open>groups.map(g => makeNode(...))\<close>: the nodes are made in order.\<close>

fun makeNodes :: "('a \<Rightarrow> json list) \<Rightarrow> ('a \<Rightarrow> string) \<Rightarrow> nat \<Rightarrow> 'a list \<Rightarrow> block list \<Rightarrow> nodeRef list \<times> block list" where
  "makeNodes children lst level [] nodes = ([], nodes)"
| "makeNodes children lst level (g # gs) nodes =
     (let (r, nodes1) = makeNode (children g) level (lst g) nodes;
          (rs, nodes2) = makeNodes children lst level gs nodes1 in (r # rs, nodes2))"

text \<open>The loop that cuts a list after every element that ends a node: finished groups and the open run.\<close>

definition cutAt :: "('a \<Rightarrow> bool) \<Rightarrow> 'a list list \<times> 'a list \<Rightarrow> 'a \<Rightarrow> 'a list list \<times> 'a list" where
  "cutAt ends st e = (case st of (groups, run) \<Rightarrow>
     if ends e then (groups @ [run @ [e]], []) else (groups, run @ [e]))"

definition leafGroups :: "(string \<times> entry) list \<Rightarrow> (string \<times> entry) list list" where
  "leafGroups srt = (case foldl (cutAt (\<lambda>e. isBoundary (fst e) 0)) ([], []) srt of
     (groups, run) \<Rightarrow> if run \<noteq> [] \<or> groups = [] then groups @ [run] else groups)"

definition packsOf :: "nat \<Rightarrow> nodeRef list \<Rightarrow> nodeRef list list" where
  "packsOf levels level = (case foldl (cutAt (\<lambda>n. isBoundary (n_last n) levels)) ([], []) level of
     (packs, g) \<Rightarrow> let packs' = if g \<noteq> [] then packs @ [g] else packs
       in if length packs' = length level then [level] else packs')"

definition childRef :: "nodeRef \<Rightarrow> json" where
  "childRef n = JObj [
     (''mediaType'', JStr INDEX_MT),
     (''digest'', JStr (n_digest n)),
     (''size'', JNum (int (n_size n))),
     (''annotations'', JObj [(''foundation.uor.bucket.last'', JStr (n_last n))])]"

lemma cutAt_groups:
  "foldl (cutAt P) (gs, r) xs = (gs', r') \<Longrightarrow> concat gs' @ r' = concat gs @ r @ xs"
  by (induction xs arbitrary: gs r) (auto simp: cutAt_def split: if_splits)

lemma cutAt_nonempty:
  "foldl (cutAt P) (gs, r) xs = (gs', r') \<Longrightarrow> [] \<notin> set gs \<Longrightarrow> [] \<notin> set gs'"
proof (induction xs arbitrary: gs r)
  case (Cons x xs)
  show ?case
  proof (cases "P x")
    case True
    with Cons.prems(1) have "foldl (cutAt P) (gs @ [r @ [x]], []) xs = (gs', r')" by (simp add: cutAt_def [of P "(gs, r)"])
    from Cons.IH [OF this] Cons.prems(2) show ?thesis by simp
  next
    case False
    with Cons.prems(1) have "foldl (cutAt P) (gs, r @ [x]) xs = (gs', r')" by (simp add: cutAt_def [of P "(gs, r)"])
    from Cons.IH [OF this] Cons.prems(2) show ?thesis .
  qed
qed simp

lemma packsOf_concat: "concat (packsOf levels level) = level"
  by (auto simp: packsOf_def Let_def split: prod.splits dest: cutAt_groups)

lemma packsOf_nonempty: "level \<noteq> [] \<Longrightarrow> [] \<notin> set (packsOf levels level)"
  using cutAt_nonempty [of "\<lambda>n. isBoundary (n_last n) levels" "[]" "[]" level]
  by (cases "foldl (cutAt (\<lambda>n. isBoundary (n_last n) levels)) ([], []) level") (auto simp: packsOf_def Let_def)

lemma length_concat_ge: "[] \<notin> set gs \<Longrightarrow> length gs \<le> length (concat gs)"
proof (induction gs)
  case (Cons g gs)
  then have "1 \<le> length g" by (cases g) auto
  with Cons show ?case by simp
qed simp

lemma packsOf_shrinks: "1 < length level \<Longrightarrow> length (packsOf levels level) < length level"
proof -
  assume l: "1 < length level"
  then have "length (packsOf levels level) \<le> length level"
    using length_concat_ge [of "packsOf levels level"] packsOf_nonempty [of level levels] packsOf_concat [of levels level]
    by fastforce
  moreover have "length (packsOf levels level) = length level \<Longrightarrow> packsOf levels level = [level]"
    using l by (auto simp: packsOf_def Let_def split: prod.splits if_splits)
  ultimately show ?thesis using l by (cases "length (packsOf levels level) = length level") auto
qed

definition refOf :: "json \<Rightarrow> string \<Rightarrow> nodeRef" where
  "refOf node lst = \<lparr>n_digest = b_digest (jsonBlock node), n_size = b_size (jsonBlock node), n_last = lst\<rparr>"

lemma makeNodes_eq:
  "makeNodes c l lv gs nodes =
     (map (\<lambda>g. refOf (nodeJson (c g) lv (l g)) (l g)) gs, nodes @ map (\<lambda>g. jsonBlock (nodeJson (c g) lv (l g))) gs)"
  by (induction gs arbitrary: nodes) (simp_all add: makeNode_def Let_def refOf_def)

text \<open>The loop \<open>while (level.length > 1)\<close>.\<close>

function buildUp :: "nat \<Rightarrow> nodeRef list \<Rightarrow> block list \<Rightarrow> nodeRef list \<times> block list \<times> nat" where
  "buildUp levels level nodes =
     (if length level > 1 then
        (let r = makeNodes (map childRef) (\<lambda>pack. n_last (last pack)) levels (packsOf levels level) nodes
         in buildUp (levels + 1) (fst r) (snd r))
      else (level, nodes, levels))"
  by pat_completeness auto
termination
  by (relation "measure (\<lambda>(levels, level, nodes). length level)") (simp_all add: packsOf_shrinks makeNodes_eq)

declare buildUp.simps [simp del]

record tree =
  t_root :: string
  t_rootSize :: nat
  t_nodes :: "block list"
  t_levels :: nat

definition build :: "(string \<times> entry) list \<Rightarrow> tree" where
  "build entries =
     (let srt = sort_key fst entries;
          (level, nodes) = makeNodes (map descriptorFor) (\<lambda>g. if g \<noteq> [] then fst (last g) else []) 0 (leafGroups srt) [];
          (level', nodes', levels) = buildUp 1 level nodes
      in \<lparr>t_root = n_digest (hd level'), t_rootSize = n_size (hd level'), t_nodes = nodes', t_levels = levels\<rparr>)"

text \<open>
  What a walk yields for one object: a property that is missing is \<open>None\<close>, and a number whose text
  does not read as one is \<open>None\<close>.
\<close>

record found =
  f_manifest :: "json option"
  f_manifestSize :: "json option"
  f_size :: "int option"
  f_mtime :: "int option"
  f_root :: "json option"

definition annotation :: "string \<Rightarrow> json \<Rightarrow> json option" where
  "annotation k node = (case getProp ''annotations'' node of None \<Rightarrow> None | Some a \<Rightarrow> getProp k a)"

definition levelOf :: "json \<Rightarrow> int option" where
  "levelOf node = (case annotation ''foundation.uor.bucket.level'' node of
     None \<Rightarrow> Some 0 | Some JNull \<Rightarrow> Some 0 | Some v \<Rightarrow> toNumber v)"

definition foundIn :: "json \<Rightarrow> json option \<times> found" where
  "foundIn child = (annotation ''foundation.uor.bucket.key'' child,
     \<lparr>f_manifest = getProp ''digest'' child,
      f_manifestSize = getProp ''size'' child,
      f_size = toNumber (orElse (annotation ''foundation.uor.bucket.size'' child) (JNum 0)),
      f_mtime = toNumber (orElse (annotation ''foundation.uor.bucket.mtime'' child) (JNum 0)),
      f_root = annotation ''foundation.uor.object.root'' child\<rparr>)"

type_synonym loader = "string \<Rightarrow> json result"

text \<open>The children of a node in turn: the first that throws or runs out of depth ends the walk.\<close>

fun collect :: "('a \<Rightarrow> 'b list result option) \<Rightarrow> 'a list \<Rightarrow> 'b list result option" where
  "collect f [] = Some (Inr [])"
| "collect f (c # cs) = (case f c of
     None \<Rightarrow> None
   | Some (Inl e) \<Rightarrow> Some (Inl e)
   | Some (Inr xs) \<Rightarrow> map_option (\<lambda>r. andThen r (\<lambda>ys. Inr (xs @ ys))) (collect f cs))"

text \<open>\<open>for (const child of node.manifests)\<close>: an array, or the characters of a string.\<close>

definition childrenOf :: "json \<Rightarrow> json list option" where
  "childrenOf node = (case getProp ''manifests'' node of
     Some (JArr cs) \<Rightarrow> Some cs | Some (JStr s) \<Rightarrow> Some (map (\<lambda>c. JStr [c]) s) | _ \<Rightarrow> None)"

definition yieldLeaf :: "json \<Rightarrow> (json option \<times> found) list result option" where
  "yieldLeaf child = Some (if child = JNull then Inl TypeError else Inr [foundIn child])"

fun walk :: "nat \<Rightarrow> loader \<Rightarrow> json \<Rightarrow> (json option \<times> found) list result option" where
  "walk 0 load rootOrNode = None"
| "walk (Suc fuel) load rootOrNode =
     (case (case rootOrNode of JStr d \<Rightarrow> load d | node \<Rightarrow> Inr node) of
        Inl e \<Rightarrow> Some (Inl e)
      | Inr node \<Rightarrow> (case childrenOf node of
          None \<Rightarrow> Some (Inl TypeError)
        | Some cs \<Rightarrow> if levelOf node = Some 0 then collect yieldLeaf cs
            else collect (\<lambda>child. case getProp ''digest'' child of
                   None \<Rightarrow> Some (Inl TypeError) | Some d \<Rightarrow> walk fuel load d) cs))"

text \<open>\<open>toMap\<close>: a later entry of the same key replaces the earlier one.\<close>

definition toMap :: "nat \<Rightarrow> string \<Rightarrow> loader \<Rightarrow> (json option \<rightharpoonup> found) result option" where
  "toMap fuel rootDigest load = map_option (\<lambda>r. andThen r (\<lambda>xs. Inr (map_of (rev xs)))) (walk fuel load (JStr rootDigest))"

subsection \<open>Reading a tree back\<close>

text \<open>What a walk yields for an entry, and a registry that serves the nodes that were made.\<close>

definition seen :: "string \<times> entry \<Rightarrow> json option \<times> found" where
  "seen kv = (case kv of (key, v) \<Rightarrow> (Some (JStr key),
     \<lparr>f_manifest = Some (JStr (e_manifest v)), f_manifestSize = Some (JNum (int (e_manifestSize v))),
      f_size = Some (int (e_size v)), f_mtime = Some (int (e_mtime v)), f_root = Some (JStr (e_root v))\<rparr>))"

definition parsed :: "bytes \<Rightarrow> json result" where
  "parsed bs = (case parse (decodeText bs) of Some v \<Rightarrow> Inr v | None \<Rightarrow> Inl SyntaxError)"

definition serves :: "loader \<Rightarrow> block list \<Rightarrow> bool" where
  "serves load nodes \<longleftrightarrow> list_all (\<lambda>b. load (b_digest b) = parsed (b_bytes b)) nodes"

lemma parsed_jsonBlock: "plain v \<Longrightarrow> parsed (b_bytes (jsonBlock v)) = Inr v"
  by (simp add: parsed_def jsonBlock_def Let_def parse_stringify)

lemma isIndex_letter: "k \<noteq> [] \<Longrightarrow> \<not> isDigit (hd k) \<Longrightarrow> \<not> isIndex k"
  by (cases k) (auto simp: isIndex_def)

lemma plain_descriptorFor: "plain (descriptorFor kv)"
  by (simp add: descriptorFor_def plainKeys_def isIndex_letter isDigit_def split: prod.splits)

lemma plain_childRef: "plain (childRef n)"
  by (simp add: childRef_def plainKeys_def isIndex_letter isDigit_def)

lemma plain_nodeJson: "\<forall>c \<in> set cs. plain c \<Longrightarrow> plain (nodeJson cs lv lst)"
  by (simp add: nodeJson_def plainKeys_def isIndex_letter isDigit_def)

lemma foundIn_descriptorFor: "foundIn (descriptorFor kv) = seen kv"
  by (cases kv) (simp add: foundIn_def descriptorFor_def seen_def annotation_def orElse_def)

lemma nodeJson_parts: "childrenOf (nodeJson cs lv lst) = Some cs" "levelOf (nodeJson cs lv lst) = Some (int lv)"
  by (simp_all add: childrenOf_def levelOf_def nodeJson_def annotation_def)

lemma collect_ok: "\<forall>c \<in> set cs. f c = Some (Inr (g c)) \<Longrightarrow> collect f cs = Some (Inr (concat (map g cs)))"
  by (induction cs) simp_all

lemma collect_map: "collect f (map h cs) = collect (f \<circ> h) cs"
proof (induction cs)
  case (Cons c cs)
  show ?case unfolding list.map collect.simps Cons.IH comp_apply ..
qed simp

definition reads :: "loader \<Rightarrow> nat \<Rightarrow> nodeRef \<Rightarrow> (json option \<times> found) list \<Rightarrow> bool" where
  "reads load n r xs \<longleftrightarrow> (\<forall>fuel \<ge> n. walk fuel load (JStr (n_digest r)) = Some (Inr xs))"

lemma concat_map_concat: "concat (map (\<lambda>g. concat (map f g)) gs) = concat (map f (concat gs))"
  by (induction gs) simp_all

lemma reads_unique: "reads load n r xs \<Longrightarrow> reads load n r ys \<Longrightarrow> xs = ys"
  by (auto simp: reads_def)

lemma reads_some: "reads load n r xs \<Longrightarrow> (SOME xs. reads load n r xs) = xs"
  by (rule some_equality) (auto dest: reads_unique)

lemma load_made:
  assumes "serves load nodes" and "jsonBlock v \<in> set nodes" and "plain v"
  shows "load (n_digest (refOf v lst)) = Inr v"
  using assms parsed_jsonBlock [of v] by (auto simp: serves_def list_all_iff refOf_def)

lemma reads_leaf:
  assumes "serves load nodes" and "jsonBlock (nodeJson (map descriptorFor g) 0 lst) \<in> set nodes"
  shows "reads load 1 (refOf (nodeJson (map descriptorFor g) 0 lst) lst) (map seen g)"
proof -
  let ?v = "nodeJson (map descriptorFor g) 0 lst"
  have "load (n_digest (refOf ?v lst)) = Inr ?v"
    using assms by (rule load_made) (simp add: plain_nodeJson plain_descriptorFor)
  moreover have "collect yieldLeaf (map descriptorFor g) = Some (Inr (concat (map (\<lambda>c. [foundIn c]) (map descriptorFor g))))"
    by (rule collect_ok) (auto simp: yieldLeaf_def descriptorFor_def split: prod.splits)
  moreover have "concat (map (\<lambda>c. [foundIn c]) (map descriptorFor g)) = map seen g"
    by (induction g) (simp_all add: foundIn_descriptorFor)
  ultimately show ?thesis by (auto simp: reads_def nodeJson_parts Suc_le_eq gr0_conv_Suc)
qed

lemma reads_node:
  assumes "serves load nodes" and "jsonBlock (nodeJson (map childRef g) lv lst) \<in> set nodes" and "0 < lv"
    and "\<forall>r \<in> set g. reads load lv r (C r)"
  shows "reads load (Suc lv) (refOf (nodeJson (map childRef g) lv lst) lst) (concat (map C g))"
proof -
  let ?v = "nodeJson (map childRef g) lv lst"
  have l: "load (n_digest (refOf ?v lst)) = Inr ?v"
    using assms(1,2) by (rule load_made) (simp add: plain_nodeJson plain_childRef)
  have "walk (Suc fuel) load (JStr (n_digest (refOf ?v lst))) = Some (Inr (concat (map C g)))" if "lv \<le> fuel" for fuel
  proof -
    let ?f = "\<lambda>child. case getProp ''digest'' child of None \<Rightarrow> Some (Inl TypeError) | Some d \<Rightarrow> walk fuel load d"
    have "collect (?f \<circ> childRef) g = Some (Inr (concat (map C g)))"
      by (rule collect_ok) (use assms(4) that in \<open>auto simp: childRef_def reads_def\<close>)
    then have "collect ?f (map childRef g) = Some (Inr (concat (map C g)))" unfolding collect_map .
    then show ?thesis using assms(3) by (simp add: l nodeJson_parts)
  qed
  then show ?thesis unfolding reads_def by (metis Suc_le_D Suc_le_mono)
qed

lemma buildUp_nodes: "set nodes \<subseteq> set (fst (snd (buildUp levels level nodes)))"
proof (induction levels level nodes rule: buildUp.induct)
  case (1 levels level nodes)
  then show ?case
    by (cases "1 < length level") (auto simp: buildUp.simps [of levels level nodes] Let_def makeNodes_eq)
qed

lemma buildUp_reads:
  assumes "buildUp levels level nodes = (level', nodes', levels')" and "serves load nodes'"
    and "0 < levels" and "level \<noteq> []" and "\<forall>r \<in> set level. reads load levels r (C r)"
  shows "\<exists>r. level' = [r] \<and> reads load levels' r (concat (map C level))"
  using assms
proof (induction levels level nodes arbitrary: C rule: buildUp.induct)
  case (1 levels level nodes)
  show ?case
  proof (cases "1 < length level")
    case False
    then obtain r where "level = [r]" using "1.prems"(4) by (cases level) auto
    with False "1.prems" show ?thesis by (auto simp: buildUp.simps [of levels])
  next
    case True
    let ?n = "\<lambda>pack. nodeJson (map childRef pack) levels (n_last (last pack))"
    let ?packs = "packsOf levels level"
    define level1 nodes1 where "level1 = map (\<lambda>g. refOf (?n g) (n_last (last g))) ?packs"
      and "nodes1 = nodes @ map (\<lambda>g. jsonBlock (?n g)) ?packs"
    have m: "makeNodes (map childRef) (\<lambda>pack. n_last (last pack)) levels ?packs nodes = (level1, nodes1)"
      by (simp add: makeNodes_eq level1_def nodes1_def)
    have b: "buildUp (levels + 1) level1 nodes1 = (level', nodes', levels')"
      using "1.prems"(1) True by (simp add: buildUp.simps [of levels] m)
    have sub: "set nodes1 \<subseteq> set nodes'" using buildUp_nodes [of nodes1 "levels + 1" level1] b by simp
    define D where "D r = (SOME xs. reads load (levels + 1) r xs)" for r
    have rd: "reads load (levels + 1) (refOf (?n g) (n_last (last g))) (concat (map C g))" if "g \<in> set ?packs" for g
    proof -
      have "set g \<subseteq> set (concat ?packs)" using that by auto
      then have "set g \<subseteq> set level" by (simp only: packsOf_concat)
      moreover have "jsonBlock (?n g) \<in> set nodes'" using sub that by (auto simp: nodes1_def)
      ultimately show ?thesis using reads_node [OF "1.prems"(2) _ "1.prems"(3)] "1.prems"(5) by (simp add: subset_iff)
    qed
    have D: "D (refOf (?n g) (n_last (last g))) = concat (map C g)" if "g \<in> set ?packs" for g
      unfolding D_def by (rule reads_some [OF rd [OF that]])
    have "\<forall>r \<in> set level1. reads load (levels + 1) r (D r)" using rd D by (auto simp: level1_def)
    moreover have "level1 \<noteq> []" using True packsOf_concat [of levels level] by (auto simp: level1_def)
    ultimately have "\<exists>r. level' = [r] \<and> reads load levels' r (concat (map D level1))"
      using "1.IH" [OF True m [symmetric], of D] b "1.prems"(2) by simp
    moreover have "concat (map D level1) = concat (map C level)"
    proof -
      have "map D level1 = map (\<lambda>g. concat (map C g)) ?packs" using D by (simp add: level1_def)
      then have "concat (map D level1) = concat (map C (concat ?packs))" by (simp add: concat_map_concat)
      then show ?thesis by (simp add: packsOf_concat)
    qed
    ultimately show ?thesis by simp
  qed
qed

lemma leafGroups_concat: "concat (leafGroups xs) = xs"
  by (auto simp: leafGroups_def split: prod.splits dest: cutAt_groups)

lemma leafGroups_ne: "leafGroups xs \<noteq> []"
  by (auto simp: leafGroups_def split: prod.splits)

lemma walk_build_eq:
  assumes "serves load (t_nodes (build entries))" and "t_levels (build entries) \<le> fuel"
  shows "walk fuel load (JStr (t_root (build entries))) = Some (Inr (map seen (sort_key fst entries)))"
proof -
  let ?lst = "\<lambda>g. if g \<noteq> [] then fst (last g) else []"
  let ?n = "\<lambda>g. nodeJson (map descriptorFor g) 0 (?lst g)"
  define gs where "gs = leafGroups (sort_key fst entries)"
  define level nodes where "level = map (\<lambda>g. refOf (?n g) (?lst g)) gs" and "nodes = map (\<lambda>g. jsonBlock (?n g)) gs"
  obtain level' nodes' levels where b: "buildUp 1 level nodes = (level', nodes', levels)" by (cases "buildUp 1 level nodes")
  have t: "build entries = \<lparr>t_root = n_digest (hd level'), t_rootSize = n_size (hd level'), t_nodes = nodes', t_levels = levels\<rparr>"
    by (simp add: build_def makeNodes_eq b [simplified] gs_def [symmetric] level_def [symmetric] nodes_def [symmetric] Let_def)
  have srv: "serves load nodes'" using assms(1) by (simp add: t)
  have sub: "set nodes \<subseteq> set nodes'" using buildUp_nodes [of nodes 1 level] b by simp
  have rd: "reads load 1 (refOf (?n g) (?lst g)) (map seen g)" if "g \<in> set gs" for g
    by (rule reads_leaf [OF srv]) (use that sub in \<open>auto simp: nodes_def\<close>)
  define D where "D r = (SOME xs. reads load 1 r xs)" for r
  have D: "D (refOf (?n g) (?lst g)) = map seen g" if "g \<in> set gs" for g
    unfolding D_def by (rule reads_some [OF rd [OF that]])
  have "level \<noteq> []" "\<forall>r \<in> set level. reads load 1 r (D r)"
    using leafGroups_ne rd D by (auto simp: level_def gs_def)
  from buildUp_reads [OF b srv _ this] obtain r where
    r: "level' = [r]" "reads load levels r (concat (map D level))" by auto
  have "concat (map D level) = map seen (sort_key fst entries)"
  proof -
    have "map D level = map (map seen) gs" using D by (simp add: level_def)
    then show ?thesis by (simp only: map_concat [symmetric] gs_def leafGroups_concat)
  qed
  with r assms(2) show ?thesis by (simp add: t reads_def)
qed

text \<open>
  C39. Reading a bucket's index back gives every object once, in key order: when the registry serves
  the nodes that \<open>build\<close> made, the walk from the root returns, within the depth \<open>build\<close> reports,
  exactly the entries sorted by key, whatever their number and however the tree was cut.
\<close>
theorem walk_build:
  assumes "serves load (t_nodes (build entries))"
  shows "walk (t_levels (build entries)) load (JStr (t_root (build entries))) = Some (Inr (map seen (sort_key fst entries)))"
  using assms by (rule walk_build_eq) simp

lemma map_of_seen: "map_of (map seen kvs) (Some (JStr k)) = map_option (\<lambda>v. snd (seen (k, v))) (map_of kvs k)"
  by (induction kvs) (auto simp: seen_def)

lemma map_of_perm: "distinct (map fst xs) \<Longrightarrow> mset xs = mset ys \<Longrightarrow> map_of xs = map_of ys"
  using map_of_inject_set [of xs ys] mset_eq_imp_distinct_iff [of "map fst xs" "map fst ys"] mset_eq_setD [of xs ys] by (simp add: mset_map)

lemma build_one:
  "t_nodes (build [kv]) = [jsonBlock (nodeJson [descriptorFor kv] 0 (fst kv))] \<and> t_levels (build [kv]) = 1"
  by (cases kv) (simp add: build_def leafGroups_def cutAt_def makeNodes_eq buildUp.simps Let_def)

definition sample :: "string \<times> entry" where
  "sample = (''a.txt'', \<lparr>e_manifest = ''sha256:00'', e_manifestSize = 7, e_root = ''bafkrei'', e_size = 12, e_mtime = 5\<rparr>)"

theorem walk_build_witness:
  "\<exists>load. serves load (t_nodes (build [sample])) \<and>
     walk 1 load (JStr (t_root (build [sample]))) = Some (Inr [seen sample])"
proof -
  let ?b = "jsonBlock (nodeJson [descriptorFor sample] 0 (fst sample))"
  have s: "serves (\<lambda>_. parsed (b_bytes ?b)) (t_nodes (build [sample]))" using build_one [of sample] by (simp add: serves_def)
  with walk_build [OF s] show ?thesis using build_one [of sample] by auto
qed

text \<open>
  The index depends only on what the bucket holds: any two orders of the same objects, keys
  distinct, give the same root, the same node bytes and the same number of levels.
\<close>
theorem build_canonical:
  assumes "distinct (map fst xs)" and "mset xs = mset ys"
  shows "build xs = build ys"
proof -
  have "inj_on fst (set xs)" using assms(1) by (simp add: distinct_map)
  then have "sort_key fst xs = sort_key fst ys"
    by (intro sort_key_inj_key_eq) (use assms(2) in simp_all)
  then show ?thesis by (simp add: build_def)
qed

theorem build_canonical_witness:
  "build [(''b'', snd sample), sample] = build [sample, (''b'', snd sample)]"
  by (rule build_canonical) (simp_all add: sample_def)

lemma map_of_sorted: "distinct (map fst xs) \<Longrightarrow> map_of (sort_key fst xs) = map_of xs"
  using map_of_perm [of xs "sort_key fst xs"] by simp

text \<open>
  \<open>toMap\<close> is a lookup: with distinct keys, the map read from the tree holds at each key what
  was written for it, and nothing at any other.
\<close>
theorem toMap_build:
  assumes "serves load (t_nodes (build entries))" and "distinct (map fst entries)"
  shows "\<exists>m. toMap (t_levels (build entries)) (t_root (build entries)) load = Some (Inr m) \<and>
     (\<forall>k. m (Some (JStr k)) = map_option (\<lambda>v. snd (seen (k, v))) (map_of entries k))"
proof -
  have "mset (rev (sort_key fst entries)) = mset entries" by simp
  then have "map_of (rev (sort_key fst entries)) = map_of entries"
    using assms(2) by (metis map_of_perm)
  then have "map_of (rev (map seen (sort_key fst entries))) (Some (JStr k)) = map_option (\<lambda>v. snd (seen (k, v))) (map_of entries k)" for k
    by (simp only: rev_map map_of_seen)
  then show ?thesis using walk_build_eq [OF assms(1)] by (simp add: toMap_def)
qed

theorem toMap_build_witness:
  "\<exists>load m. toMap 1 (t_root (build [sample])) load = Some (Inr m) \<and> m (Some (JStr ''a.txt'')) = Some (snd (seen sample))"
proof -
  let ?b = "jsonBlock (nodeJson [descriptorFor sample] 0 (fst sample))"
  have s: "serves (\<lambda>_. parsed (b_bytes ?b)) (t_nodes (build [sample]))" using build_one [of sample] by (simp add: serves_def)
  have "distinct (map fst [sample])" by simp
  from toMap_build [OF s this] obtain m where
    m: "toMap 1 (t_root (build [sample])) (\<lambda>_. parsed (b_bytes ?b)) = Some (Inr m)"
      "\<And>k. m (Some (JStr k)) = map_option (\<lambda>v. snd (seen (k, v))) (map_of [sample] k)"
    using build_one [of sample] by auto
  have "m (Some (JStr ''a.txt'')) = Some (snd (seen sample))" unfolding m(2) by (simp add: sample_def)
  with m(1) show ?thesis by blast
qed

end
