(* ===== verification/Bucket.thy ===== *)
theory Bucket
  imports Io Crypt DagPb Octree
begin

text \<open>
  Reading and writing a bucket from a page, the rest of \<open>buckets/lib/buckets-lib.mjs\<close>: the client of
  an OCI registry, the index of a bucket, and objects as verified blocks. The registry behind
  \<open>fetch\<close> is a parameter. The module's own state, the repositories that already hold the empty
  configuration, is the first half of the world of the writing functions. Progress callbacks only
  inform the page and are left out; an arrow in an error's text is written in ASCII.
\<close>

subsection \<open>The registry\<close>

definition CHUNK :: nat where "CHUNK = 2 ^ 20"
definition DEFAULT_QUOTA :: int where "DEFAULT_QUOTA = 50000000000"
definition ACCEPT :: string where "ACCEPT = INDEX_MT @ '', '' @ MANIFEST_MT"

definition atPath :: "string \<Rightarrow> string \<Rightarrow> string" where
  "atPath base path = base @ ''/v2/'' @ path"

definition auth :: "string option \<Rightarrow> (string \<times> string) list" where
  "auth token = (case token of None \<Rightarrow> [] | Some t \<Rightarrow> if t = [] then [] else
     [(''authorization'', if startsWith t ''Basic '' \<or> startsWith t ''Bearer '' then t else ''Bearer '' @ t)])"

definition hashBytes :: "bytes \<Rightarrow> string" where
  "hashBytes bs = hex (sha256 bs)"

definition statusError :: "string \<Rightarrow> response \<Rightarrow> js_error" where
  "statusError what r = Error (what @ '' -> '' @ decimal (s_status r))"

record manifestRes =
  m_json :: json
  m_digest :: string

definition parseBody :: "response \<Rightarrow> json result" where
  "parseBody r = parsed (s_body r)"

definition reg_manifest :: "'w net \<Rightarrow> string \<Rightarrow> string \<Rightarrow> string \<Rightarrow> ('w, manifestRes option) io" where
  "reg_manifest fetch base repo ref = bind (fetch \<lparr>q_method = ''GET'', q_url = atPath base (repo @ ''/manifests/'' @ ref),
       q_headers = [(''accept'', ACCEPT)], q_body = []\<rparr>) (\<lambda>r.
     if s_status r = 404 then ret None
     else if \<not> s_ok r then throw (statusError (repo @ '':'' @ ref) r)
     else bind (lift (parseBody r)) (\<lambda>v. ret (Some \<lparr>m_json = v, m_digest =
       (case map_of (s_headers r) ''docker-content-digest'' of
          Some d \<Rightarrow> if d \<noteq> [] then d else ''sha256:'' @ sha256hex (utf8 (decodeText (s_body r)))
        | None \<Rightarrow> ''sha256:'' @ sha256hex (utf8 (decodeText (s_body r))))\<rparr>)))"

definition reg_blob :: "'w net \<Rightarrow> string \<Rightarrow> string \<Rightarrow> string \<Rightarrow> ('w, bytes) io" where
  "reg_blob fetch base repo digest = bind (fetch (plainGet (atPath base (repo @ ''/blobs/'' @ digest)))) (\<lambda>r.
     if \<not> s_ok r then throw (statusError (''blob '' @ digest) r) else ret (s_body r))"

text \<open>\<open>(await r.json()).name || []\<close>.\<close>

definition listProp :: "string \<Rightarrow> response \<Rightarrow> json result" where
  "listProp name r = andThen (parseBody r) (\<lambda>v.
     if v = JNull then Inl TypeError else Inr (orElse (getProp name v) (JArr [])))"

definition reg_catalogue :: "'w net \<Rightarrow> string \<Rightarrow> ('w, json) io" where
  "reg_catalogue fetch base = bind (fetch (plainGet (atPath base ''_catalog?n=200''))) (\<lambda>r.
     if s_ok r then lift (listProp ''repositories'' r) else ret (JArr []))"

definition reg_tags :: "'w net \<Rightarrow> string \<Rightarrow> string \<Rightarrow> ('w, json) io" where
  "reg_tags fetch base repo = bind (fetch (plainGet (atPath base (repo @ ''/tags/list?n=10000'')))) (\<lambda>r.
     if s_ok r then lift (listProp ''tags'' r) else ret (JArr []))"

definition reg_putBlob :: "'w net \<Rightarrow> string \<Rightarrow> string \<Rightarrow> bytes \<Rightarrow> string option \<Rightarrow> ('w, string \<times> bool) io" where
  "reg_putBlob fetch base repo bs token = (let digest = ''sha256:'' @ hashBytes bs in
     bind (fetch \<lparr>q_method = ''HEAD'', q_url = atPath base (repo @ ''/blobs/'' @ digest), q_headers = auth token, q_body = []\<rparr>) (\<lambda>h.
     if s_status h = 200 then ret (digest, False)
     else bind (fetch \<lparr>q_method = ''POST'', q_url = atPath base (repo @ ''/blobs/uploads/?digest='' @ digest),
            q_headers = (''content-type'', ''application/octet-stream'') # auth token, q_body = bs\<rparr>) (\<lambda>r.
          if s_status r \<noteq> 201 then throw (statusError ''upload'' r) else ret (digest, True))))"

definition reg_deleteManifest :: "'w net \<Rightarrow> string \<Rightarrow> string \<Rightarrow> string \<Rightarrow> string option \<Rightarrow> ('w, bool) io" where
  "reg_deleteManifest fetch base repo ref token =
     bind (fetch \<lparr>q_method = ''DELETE'', q_url = atPath base (repo @ ''/manifests/'' @ ref), q_headers = auth token, q_body = []\<rparr>) (\<lambda>r.
     if s_status r \<noteq> 202 \<and> s_status r \<noteq> 204 then throw (statusError ''delete'' r) else ret True)"

definition reg_putManifest :: "'w net \<Rightarrow> string \<Rightarrow> string \<Rightarrow> string \<Rightarrow> bytes \<Rightarrow> string \<Rightarrow> string option \<Rightarrow> ('w, string) io" where
  "reg_putManifest fetch base repo ref bs mediaType token =
     bind (fetch \<lparr>q_method = ''PUT'', q_url = atPath base (repo @ ''/manifests/'' @ ref),
       q_headers = (''content-type'', mediaType) # auth token, q_body = bs\<rparr>) (\<lambda>r.
     if s_status r \<noteq> 201 then throw (statusError ''manifest'' r) else ret (''sha256:'' @ hashBytes bs))"

subsection \<open>Objects\<close>

text \<open>A block of a private bucket is sealed before it leaves and opened after it is checked.\<close>

definition sealSlice :: "bytes option \<Rightarrow> bytes \<Rightarrow> bytes result" where
  "sealSlice bkey part = (case bkey of None \<Rightarrow> Inr part | Some k \<Rightarrow> sealBlock k part)"

definition openSlice :: "bytes option \<Rightarrow> bytes \<Rightarrow> bytes result" where
  "openSlice key bs = (case key of None \<Rightarrow> Inr bs | Some k \<Rightarrow> openBlock k bs)"

definition notNamed :: js_error where
  "notNamed = Error ''these bytes are not what this address names''"

text \<open>The recursive \<open>walk\<close> of \<open>readObject\<close>; its state is the parts so far and the count of blocks.\<close>

fun readWalk :: "nat \<Rightarrow> 'w net \<Rightarrow> string \<Rightarrow> string \<Rightarrow> bytes option \<Rightarrow> bytes list \<times> nat \<Rightarrow> string \<Rightarrow> ('w, bytes list \<times> nat) io" where
  "readWalk 0 fetch base repo key st cid = (\<lambda>w. None)"
| "readWalk (Suc fuel) fetch base repo key st cid =
     bind (reg_blob fetch base repo (cidToDigest cid)) (\<lambda>bs.
       if hashBytes bs \<noteq> drop 7 (cidToDigest cid) then throw notNamed
       else case st of (parts, blocks) \<Rightarrow>
         if codecOf cid = RAW
         then bind (lift (openSlice key bs)) (\<lambda>p. ret (parts @ [p], Suc blocks))
         else foldIO (readWalk fuel fetch base repo key) (parts, Suc blocks) (linksOf bs))"

declare readWalk.simps [simp del]

definition readObject :: "nat \<Rightarrow> 'w net \<Rightarrow> string \<Rightarrow> string \<Rightarrow> string \<Rightarrow> bytes option \<Rightarrow> ('w, bytes) io" where
  "readObject fuel fetch base repo rootCid key =
     bind (readWalk fuel fetch base repo key ([], 0) rootCid) (\<lambda>(parts, blocks). ret (concat parts))"

text \<open>The writing side's world: the repositories whose empty configuration was pushed, and the rest.\<close>

definition onNet :: "('w, 'a) io \<Rightarrow> (string set \<times> 'w, 'a) io" where
  "onNet m w = (case m (snd w) of None \<Rightarrow> None | Some (w', r) \<Rightarrow> Some ((fst w, w'), r))"

definition markPushed :: "string \<Rightarrow> (string set \<times> 'w, unit) io" where
  "markPushed repo w = Some ((insert repo (fst w), snd w), Inr ())"

definition ensureEmptyConfig :: "'w net \<Rightarrow> string \<Rightarrow> string \<Rightarrow> string option \<Rightarrow> (string set \<times> 'w, unit) io" where
  "ensureEmptyConfig fetch base repo token w = (if repo \<in> fst w then ret () w
     else bind (onNet (reg_putBlob fetch base repo (utf8 ''{}'') token)) (\<lambda>_. markPushed repo) w)"

text \<open>The slices of a file: an empty file is one empty slice.\<close>

definition slices :: "bytes \<Rightarrow> bytes list" where
  "slices file = (if file = [] then [[]] else chunks CHUNK file)"

definition pushLeaf :: "'w net \<Rightarrow> string \<Rightarrow> string \<Rightarrow> string option \<Rightarrow> bytes option \<Rightarrow> bytes \<Rightarrow> (string set \<times> 'w, leaf) io" where
  "pushLeaf fetch base repo token bkey part =
     bind (lift (sealSlice bkey part)) (\<lambda>s.
     bind (onNet (reg_putBlob fetch base repo s token)) (\<lambda>_.
     ret \<lparr>l_digest = hexToBytes (hashBytes s), l_size = length s\<rparr>))"

record object =
  o_key :: string
  o_wire :: string
  o_root :: string
  o_size :: nat
  o_mtime :: nat
  o_blocks :: "(string \<times> nat) list"

definition leafBlock :: "leaf \<Rightarrow> string \<times> nat" where
  "leafBlock l = (''sha256:'' @ hex (l_digest l), l_size l)"

text \<open>The root and the list of blocks: one leaf is its own root, more get a node.\<close>

definition pushRoot :: "'w net \<Rightarrow> string \<Rightarrow> string \<Rightarrow> string option \<Rightarrow> leaf list \<Rightarrow> (string set \<times> 'w, string \<times> (string \<times> nat) list) io" where
  "pushRoot fetch base repo token leaves =
     (if length leaves = 1 then ret (cidString RAW (l_digest (leaves ! 0)), map leafBlock leaves)
      else (let node = fileNode leaves (sum_list (map l_size leaves)) in
        bind (onNet (reg_putBlob fetch base repo node token)) (\<lambda>p.
          ret (digestToCid (fst p) DAG_PB, map leafBlock leaves @ [(fst p, length node)]))))"

definition writeObject :: "'w net \<Rightarrow> string \<Rightarrow> string \<Rightarrow> string \<Rightarrow> bytes \<Rightarrow> string option \<Rightarrow> bytes option \<Rightarrow> nat
    \<Rightarrow> (string set \<times> 'w, object) io" where
  "writeObject fetch base repo key file token bkey now =
     bind (ensureEmptyConfig fetch base repo token) (\<lambda>_.
     bind (mapIO (pushLeaf fetch base repo token bkey) (slices file)) (\<lambda>leaves.
     bind (pushRoot fetch base repo token leaves) (\<lambda>p.
     bind (lift (case bkey of None \<Rightarrow> Inr key | Some k \<Rightarrow> sealName k key)) (\<lambda>wire.
     ret \<lparr>o_key = key, o_wire = wire, o_root = fst p, o_size = length file, o_mtime = now, o_blocks = snd p\<rparr>))))"

subsection \<open>The contract of a block codec\<close>

text \<open>
  What the object code relies on of sealing, once for open and sealed buckets: under a valid key
  every slice is written as some block, which is read back as the slice and is longer by a constant.
\<close>

locale block_codec =
  fixes enc :: "'k \<Rightarrow> bytes \<Rightarrow> bytes result" and dec :: "'k \<Rightarrow> bytes \<Rightarrow> bytes result"
    and valid :: "'k \<Rightarrow> bool" and overhead :: "'k \<Rightarrow> nat"
  assumes enc_dec: "valid k \<Longrightarrow> \<exists>c. enc k p = Inr c \<and> length c = length p + overhead k \<and> dec k c = Inr p"
begin

definition coded :: "'k \<Rightarrow> bytes \<Rightarrow> bytes" where
  "coded k p = (case enc k p of Inr c \<Rightarrow> c | Inl e \<Rightarrow> [])"

lemma enc_coded: "valid k \<Longrightarrow> enc k p = Inr (coded k p)"
  using enc_dec [of k p] by (auto simp: coded_def)

lemma dec_coded: "valid k \<Longrightarrow> dec k (coded k p) = Inr p"
  using enc_dec [of k p] by (auto simp: coded_def)

lemma length_coded: "valid k \<Longrightarrow> length (coded k p) = length p + overhead k"
  using enc_dec [of k p] by (auto simp: coded_def)

lemma size_coded: "valid k \<Longrightarrow> sum_list (map (length \<circ> coded k) ps) = length (concat ps) + length ps * overhead k"
  by (induction ps) (simp_all add: length_coded)

end

definition validKey :: "bytes option \<Rightarrow> bool" where
  "validKey bkey = (case bkey of None \<Rightarrow> True | Some k \<Rightarrow> length k = 32)"

definition sealing :: "bytes option \<Rightarrow> nat" where
  "sealing bkey = (case bkey of None \<Rightarrow> 0 | Some k \<Rightarrow> 28)"

interpretation sliceCodec: block_codec sealSlice openSlice validKey sealing
proof
  fix bkey :: "bytes option" and p :: bytes
  assume v: "validKey bkey"
  show "\<exists>c. sealSlice bkey p = Inr c \<and> length c = length p + sealing bkey \<and> openSlice bkey c = Inr p"
  proof (cases bkey)
    case (Some k)
    with v have k: "length k = 32" by (simp add: validKey_def)
    from sealBlock_ok [OF k, of p] obtain c where "sealBlock k p = Inr c" by blast
    with openBlock_sealBlock [OF k this] length_sealBlock [OF k this] Some show ?thesis
      by (simp add: sealSlice_def openSlice_def sealing_def)
  qed (simp add: sealSlice_def openSlice_def sealing_def)
qed

subsection \<open>Only what an address names is released\<close>

text \<open>The parts an address stands for under a key: every block hashes to the address it was asked by.\<close>

inductive content :: "bytes option \<Rightarrow> string \<Rightarrow> bytes list \<Rightarrow> bool" for key where
  raw: "''sha256:'' @ hashBytes bs = cidToDigest cid \<Longrightarrow> codecOf cid = RAW \<Longrightarrow> openSlice key bs = Inr p \<Longrightarrow>
    content key cid [p]"
| node: "''sha256:'' @ hashBytes bs = cidToDigest cid \<Longrightarrow> codecOf cid \<noteq> RAW \<Longrightarrow>
    list_all2 (content key) (linksOf bs) pss \<Longrightarrow> content key cid (concat pss)"

inductive_cases content_rawE: "content key (cidString RAW d) ps"

lemma cidToDigest_prefix: "h = drop 7 (cidToDigest cid) \<longleftrightarrow> ''sha256:'' @ h = cidToDigest cid"
  by (auto simp: cidToDigest_def)

lemma readWalk_content:
  "readWalk fuel fetch base repo key st cid w = Some (w', Inr st') \<Longrightarrow>
   \<exists>ps. content key cid ps \<and> fst st' = fst st @ ps"
proof (induction fuel arbitrary: st cid w w' st')
  case (Suc fuel)
  obtain parts n where st: "st = (parts, n)" by (cases st)
  from Suc.prems obtain w1 bs where
    h0: "hashBytes bs = drop 7 (cidToDigest cid)" and
    r: "(if codecOf cid = RAW then bind (lift (openSlice key bs)) (\<lambda>p. ret (parts @ [p], Suc n))
         else foldIO (readWalk fuel fetch base repo key) (parts, Suc n) (linksOf bs)) w1 = Some (w', Inr st')"
    by (auto simp: readWalk.simps st bind_Inr_iff split: if_splits)
  from h0 have h: "''sha256:'' @ hashBytes bs = cidToDigest cid" by (simp only: cidToDigest_prefix)
  show ?case
  proof (cases "codecOf cid = RAW")
    case True
    with r obtain p where "openSlice key bs = Inr p" "st' = (parts @ [p], Suc n)" by (auto simp: bind_Inr_iff)
    with content.raw [OF h True] show ?thesis by (auto simp: st)
  next
    case False
    have "foldIO (readWalk fuel fetch base repo key) s ls v = Some (v', Inr s') \<Longrightarrow>
      \<exists>pss. list_all2 (content key) ls pss \<and> fst s' = fst s @ concat pss" for s ls v v' s'
    proof (induction ls arbitrary: s v)
      case (Cons l ls)
      then obtain v1 s1 where 1: "readWalk fuel fetch base repo key s l v = Some (v1, Inr s1)"
        and 2: "foldIO (readWalk fuel fetch base repo key) s1 ls v1 = Some (v', Inr s')"
        by (auto simp: bind_Inr_iff)
      from Suc.IH [OF 1] obtain ps where ps: "content key l ps" "fst s1 = fst s @ ps" by blast
      from Cons.IH [OF 2] obtain pss where "list_all2 (content key) ls pss" "fst s' = fst s1 @ concat pss" by blast
      with ps show ?case by (intro exI [of _ "ps # pss"]) simp
    qed simp
    with r False obtain pss where "list_all2 (content key) (linksOf bs) pss" "fst st' = parts @ concat pss" by fastforce
    with content.node [OF h False] show ?thesis by (auto simp: st)
  qed
qed (simp add: readWalk.simps)

text \<open>
  \<open>readObject\<close> releases only what the address names: whatever the registry answers, if it
  returns bytes they are the concatenation of opened leaves reached from the root address, and every
  block on the way, node or leaf, hashed to the very address it was asked by.
\<close>
theorem readObject_verified:
  assumes "readObject fuel fetch base repo rootCid key w = Some (w', Inr out)"
  shows "\<exists>parts. content key rootCid parts \<and> out = concat parts"
  using assms readWalk_content [of fuel fetch base repo key "([], 0)" rootCid w]
  by (fastforce simp: readObject_def bind_Inr_iff)

lemma cidToDigest_raw: "cidToDigest (cidString codec (sha256 bs)) = ''sha256:'' @ hashBytes bs"
  by (simp add: cidToDigest_def cidString_def cidBytes_base32 hashBytes_def)

text \<open>A registry that answers every read of a block with its bytes.\<close>

definition serving :: "'w net \<Rightarrow> string \<Rightarrow> string \<Rightarrow> bytes \<Rightarrow> bool" where
  "serving fetch base repo bs \<longleftrightarrow> (\<forall>w. \<exists>w'. reg_blob fetch base repo (''sha256:'' @ hashBytes bs) w = Some (w', Inr bs))"

lemma readWalk_leaf:
  assumes "serving fetch base repo bs" and "openSlice key bs = Inr p"
  shows "\<exists>w'. readWalk (Suc fuel) fetch base repo key (parts, n) (cidString RAW (sha256 bs)) w = Some (w', Inr (parts @ [p], Suc n))"
proof -
  obtain w' where "reg_blob fetch base repo (''sha256:'' @ hashBytes bs) w = Some (w', Inr bs)"
    using assms(1) by (auto simp: serving_def)
  then show ?thesis using assms(2) by (simp add: readWalk.simps bind_def cidToDigest_raw codecOf_cidString lift_def ret_def)
qed

lemma readWalk_node:
  assumes "reg_blob fetch base repo (''sha256:'' @ hashBytes bs) w = Some (w', Inr bs)"
  shows "readWalk (Suc fuel) fetch base repo key (parts, n) (cidString DAG_PB (sha256 bs)) w =
     foldIO (readWalk fuel fetch base repo key) (parts, Suc n) (linksOf bs) w'"
  using assms by (simp add: readWalk.simps bind_def cidToDigest_raw codecOf_cidString)

lemma foldIO_leaves:
  assumes "\<forall>b \<in> set bss. serving fetch base repo b \<and> openSlice key b = Inr (p b)"
  shows "\<exists>w'. foldIO (readWalk (Suc fuel) fetch base repo key) (parts, n) (map (\<lambda>b. cidString RAW (sha256 b)) bss) w
     = Some (w', Inr (parts @ map p bss, n + length bss))"
  using assms
proof (induction bss arbitrary: parts n w)
  case (Cons b bss)
  then obtain w1 where 1: "readWalk (Suc fuel) fetch base repo key (parts, n) (cidString RAW (sha256 b)) w = Some (w1, Inr (parts @ [p b], Suc n))"
    using readWalk_leaf [of fetch base repo b key "p b" fuel parts n w] by auto
  from Cons.IH [of "parts @ [p b]" "Suc n" w1] Cons.prems obtain w2 where
    "foldIO (readWalk (Suc fuel) fetch base repo key) (parts @ [p b], Suc n) (map (\<lambda>b. cidString RAW (sha256 b)) bss) w1
     = Some (w2, Inr (parts @ p b # map p bss, Suc n + length bss))" by auto
  then show ?case by (simp add: bind_def 1)
qed (simp add: ret_def)

text \<open>The blocks that an object is stored as.\<close>

definition leafOf :: "bytes \<Rightarrow> leaf" where
  "leafOf s = \<lparr>l_digest = sha256 s, l_size = length s\<rparr>"

definition objectNode :: "bytes list \<Rightarrow> bytes" where
  "objectNode bss = fileNode (map leafOf bss) (sum_list (map length bss))"

definition objectBlocks :: "bytes option \<Rightarrow> bytes \<Rightarrow> bytes list" where
  "objectBlocks bkey file = (let bss = map (sliceCodec.coded bkey) (slices file) in
     bss @ (if length bss = 1 then [] else [objectNode bss]))"

definition objectRoot :: "bytes option \<Rightarrow> bytes \<Rightarrow> string" where
  "objectRoot bkey file = (let bss = map (sliceCodec.coded bkey) (slices file) in
     if length bss = 1 then cidString RAW (sha256 (hd bss)) else cidString DAG_PB (sha256 (objectNode bss)))"

lemma slices_concat: "concat (slices file) = file"
  by (simp add: slices_def concat_chunks CHUNK_def)

lemma slices_ne: "slices file \<noteq> []"
  by (auto simp: slices_def CHUNK_def chunks_step)

lemma readObject_objectRoot:
  assumes "validKey bkey" and "\<forall>b \<in> set (objectBlocks bkey file). serving fetch base repo b"
  shows "\<exists>w'. readObject (Suc (Suc fuel)) fetch base repo (objectRoot bkey file) bkey w = Some (w', Inr file)"
proof -
  define bss where "bss = map (sliceCodec.coded bkey) (slices file)"
  have open_bss: "map (\<lambda>b. case openSlice bkey b of Inr p \<Rightarrow> p | Inl _ \<Rightarrow> []) bss = slices file"
    by (simp add: bss_def sliceCodec.dec_coded [OF assms(1)] comp_def)
  have srv: "\<forall>b \<in> set bss. serving fetch base repo b" using assms(2) by (auto simp: objectBlocks_def bss_def Let_def)
  have op: "\<forall>b \<in> set bss. openSlice bkey b = Inr (case openSlice bkey b of Inr p \<Rightarrow> p | Inl _ \<Rightarrow> [])"
    by (auto simp: bss_def sliceCodec.dec_coded [OF assms(1)])
  show ?thesis
  proof (cases "length bss = 1")
    case True
    then obtain b where b: "bss = [b]" by (auto simp: length_Suc_conv)
    then have "length (slices file) = 1" by (metis True bss_def length_map)
    then have "slices file = [file]" using slices_concat [of "file"] by (auto simp: length_Suc_conv)
    then have "openSlice bkey b = Inr file" using open_bss op b by auto
    moreover have "objectRoot bkey file = cidString RAW (sha256 b)" using b by (simp add: objectRoot_def bss_def [symmetric])
    ultimately show ?thesis
      using readWalk_leaf [of fetch base repo b bkey _ "Suc fuel" "[]" 0 w] srv b
      by (auto simp: readObject_def bind_def ret_def)
  next
    case False
    let ?node = "objectNode bss"
    have root: "objectRoot bkey file = cidString DAG_PB (sha256 ?node)" using False by (simp add: objectRoot_def bss_def [symmetric])
    have "serving fetch base repo ?node" using assms(2) False by (auto simp: objectBlocks_def bss_def Let_def)
    then obtain w1 where w1: "reg_blob fetch base repo (''sha256:'' @ hashBytes ?node) w = Some (w1, Inr ?node)" by (auto simp: serving_def)
    have links: "linksOf ?node = map (\<lambda>b. cidString RAW (sha256 b)) bss"
      by (simp add: objectNode_def linksOf_fileNode leafOf_def)
    from foldIO_leaves [of bss fetch base repo bkey _ fuel "[]" 1 w1] srv op obtain w2 where
      "foldIO (readWalk (Suc fuel) fetch base repo bkey) ([], 1) (linksOf ?node) w1
        = Some (w2, Inr (slices file, 1 + length bss))"
      unfolding links by (metis (no_types, lifting) open_bss append_Nil)
    then show ?thesis unfolding root readObject_def bind_def readWalk_node [OF w1]
      by (simp add: ret_def slices_concat)
  qed
qed

text \<open>A registry that holds one block, for concrete runs.\<close>

definition oneBlock :: "bytes \<Rightarrow> 'w net" where
  "oneBlock bs q = ret \<lparr>s_status = (if q_method q = ''GET'' then 200 else if q_method q = ''HEAD'' then 404 else 201),
     s_headers = [], s_body = bs\<rparr>"

lemma oneBlock_serving: "serving (oneBlock bs) base repo bs"
  by (simp add: serving_def reg_blob_def oneBlock_def s_ok_def ret_def)

theorem readObject_verified_witness:
  "\<exists>w' parts. readObject 1 (oneBlock [1, 2]) [] ''r'' (cidString RAW (sha256 [1, 2])) None (0 :: nat) = Some (w', Inr [1, 2]) \<and>
     content None (cidString RAW (sha256 [1, 2])) parts \<and> [1, 2] = concat parts"
proof -
  obtain w' where "readWalk (Suc 0) (oneBlock [1, 2]) [] ''r'' None ([], 0) (cidString RAW (sha256 [1, 2])) (0 :: nat) = Some (w', Inr ([] @ [[1, 2]], Suc 0))"
    using readWalk_leaf [OF oneBlock_serving, of None "[1, 2]" "[1, 2]"] by (fastforce simp: openSlice_def)
  then have "readObject 1 (oneBlock [1, 2]) [] ''r'' (cidString RAW (sha256 [1, 2])) None (0 :: nat) = Some (w', Inr [1, 2])"
    by (simp add: readObject_def bind_def ret_def)
  with readObject_verified [OF this] show ?thesis by blast
qed

lemma putBlob_digest: "reg_putBlob fetch base repo bs token w = Some (w', Inr (d, u)) \<Longrightarrow> d = ''sha256:'' @ hashBytes bs"
  by (auto simp: reg_putBlob_def Let_def bind_Inr_iff split: if_splits)

lemma onNet_Inr: "onNet m w = Some (w', Inr x) \<Longrightarrow> \<exists>v v'. m v = Some (v', Inr x)"
  by (auto simp: onNet_def split: option.splits)

lemma pushLeaf_Inr:
  "validKey bkey \<Longrightarrow> pushLeaf fetch base repo token bkey p w = Some (w', Inr l) \<Longrightarrow> l = leafOf (sliceCodec.coded bkey p)"
  by (auto simp: pushLeaf_def bind_Inr_iff sliceCodec.enc_coded leafOf_def hashBytes_def hexToBytes_hex)

lemma list_all2_eq_map: "list_all2 (\<lambda>x y. y = f x) xs ys \<longleftrightarrow> ys = map f xs"
  by (induction xs arbitrary: ys) (auto simp: list_all2_Cons1)

lemma digestToCid_hash: "digestToCid (''sha256:'' @ hashBytes bs) codec = cidString codec (sha256 bs)"
proof -
  have "splitAt CHR '':'' (''sha256'' @ CHR '':'' # hex (sha256 bs)) = ''sha256'' # splitAt CHR '':'' (hex (sha256 bs))"
    by (rule splitAt_app) simp
  moreover have "splitAt CHR '':'' (hex (sha256 bs)) = [hex (sha256 bs)]"
    by (rule splitAt_none) (rule colon_not_hex)
  ultimately show ?thesis by (simp add: digestToCid_def hashBytes_def hexToBytes_hex)
qed

lemma pushRoot_Inr:
  assumes "pushRoot fetch base repo token (map leafOf bss) w = Some (w', Inr p)"
  shows "p = (if length bss = 1 then cidString RAW (sha256 (hd bss)) else cidString DAG_PB (sha256 (objectNode bss)),
     map (\<lambda>b. (''sha256:'' @ hashBytes b, length b)) (bss @ (if length bss = 1 then [] else [objectNode bss])))"
proof (cases "length bss = 1")
  case True
  then obtain b where "bss = [b]" by (auto simp: length_Suc_conv)
  with assms show ?thesis by (simp add: pushRoot_def leafOf_def leafBlock_def hashBytes_def)
next
  case False
  have n: "fileNode (map leafOf bss) (sum_list (map l_size (map leafOf bss))) = objectNode bss"
    by (simp add: objectNode_def leafOf_def comp_def)
  from False assms obtain w1 q where
    q: "onNet (reg_putBlob fetch base repo (objectNode bss) token) w = Some (w1, Inr q)"
    and p: "p = (digestToCid (fst q) DAG_PB, map leafBlock (map leafOf bss) @ [(fst q, length (objectNode bss))])"
    unfolding pushRoot_def Let_def n by (auto simp: bind_Inr_iff)
  have "fst q = ''sha256:'' @ hashBytes (objectNode bss)"
    using onNet_Inr [OF q] putBlob_digest by (metis prod.collapse)
  with p False show ?thesis
    by (simp only: digestToCid_hash) (simp add: leafOf_def leafBlock_def hashBytes_def)
qed

lemma writeObject_Inr:
  assumes "validKey bkey" and "writeObject fetch base repo key file token bkey now w = Some (w', Inr obj)"
  shows "o_root obj = objectRoot bkey file" and "o_size obj = length file"
    and "o_blocks obj = map (\<lambda>b. (''sha256:'' @ hashBytes b, length b)) (objectBlocks bkey file)"
proof -
  define bss where "bss = map (sliceCodec.coded bkey) (slices file)"
  from assms(2) obtain w1 w2 w3 leaves p where
    m: "mapIO (pushLeaf fetch base repo token bkey) (slices file) w1 = Some (w2, Inr leaves)" and
    r: "pushRoot fetch base repo token leaves w2 = Some (w3, Inr p)" and
    o: "o_size obj = length file" "o_root obj = fst p" "o_blocks obj = snd p"
    by (auto simp: writeObject_def bind_Inr_iff)
  have "list_all2 (\<lambda>x y. y = leafOf (sliceCodec.coded bkey x)) (slices file) leaves"
    by (rule list_all2_mono [OF mapIO_Inr_cases [OF m]]) (auto dest: pushLeaf_Inr [OF assms(1)])
  then have leaves: "leaves = map leafOf bss" by (simp add: list_all2_eq_map bss_def comp_def)
  note p = pushRoot_Inr [OF r [unfolded leaves]]
  show "o_root obj = objectRoot bkey file"
    unfolding o p by (simp add: objectRoot_def bss_def [symmetric] Let_def)
  show "o_blocks obj = map (\<lambda>b. (''sha256:'' @ hashBytes b, length b)) (objectBlocks bkey file)"
    unfolding o p by (simp add: objectBlocks_def bss_def [symmetric] Let_def)
  show "o_size obj = length file" by (rule o)
qed

text \<open>
  C29. An object survives the registry: if \<open>writeObject\<close> returns for a file, in an open bucket or
  sealed under a 32-byte key, then reading the root it returned from any registry that serves the
  file's blocks gives the file back byte for byte, whatever its size, and depth 2 is enough.
\<close>
theorem read_written_object:
  assumes "validKey bkey"
    and "writeObject fetch base repo key file token bkey now w = Some (w', Inr obj)"
    and "\<forall>b \<in> set (objectBlocks bkey file). serving fetch' base' repo' b"
  shows "o_size obj = length file \<and> (\<exists>v'. readObject 2 fetch' base' repo' (o_root obj) bkey v = Some (v', Inr file))"
  using writeObject_Inr [OF assms(1,2)] readObject_objectRoot [OF assms(1,3), of 0 v] by (simp add: numeral_2_eq_2)

lemma write_small:
  assumes "length file \<le> CHUNK" and "validKey bkey"
  shows "\<exists>w' obj. writeObject (oneBlock (sliceCodec.coded bkey file)) base repo key file None bkey now w = Some (w', Inr obj)"
proof -
  have sl: "slices file = [file]" using assms(1) by (auto simp: slices_def chunks_short)
  have "\<exists>w1. ensureEmptyConfig (oneBlock (sliceCodec.coded bkey file)) base repo None w = Some (w1, Inr ())"
    by (cases "repo \<in> fst w")
      (simp_all add: ensureEmptyConfig_def reg_putBlob_def oneBlock_def markPushed_def onNet_def bind_def ret_def Let_def)
  then obtain w1 where 1: "ensureEmptyConfig (oneBlock (sliceCodec.coded bkey file)) base repo None w = Some (w1, Inr ())" by blast
  obtain w2 l where 2: "pushLeaf (oneBlock (sliceCodec.coded bkey file)) base repo None bkey file w1 = Some (w2, Inr l)"
    by (auto simp: pushLeaf_def sliceCodec.enc_coded [OF assms(2)] reg_putBlob_def oneBlock_def onNet_def bind_def ret_def lift_def Let_def)
  obtain wire where 3: "(case bkey of None \<Rightarrow> Inr key | Some k \<Rightarrow> sealName k key) = Inr wire"
    using assms(2) sealName_ok [of _ key] by (cases bkey) (auto simp: validKey_def)
  show ?thesis
    by (simp add: writeObject_def sl pushRoot_def 3) (simp add: bind_def 1 2 ret_def lift_def)
qed

theorem read_written_object_witness:
  "\<exists>w' obj v'. writeObject (oneBlock [1, 2, 3]) [] ''r'' ''k'' [1, 2, 3] None None 7 ({}, 0 :: nat) = Some (w', Inr obj) \<and>
     o_size obj = 3 \<and> readObject 2 (oneBlock [1, 2, 3]) [] ''r'' (o_root obj) None (0 :: nat) = Some (v', Inr [1, 2, 3])"
proof -
  have c: "sliceCodec.coded None p = p" for p by (simp add: sliceCodec.coded_def sealSlice_def)
  have small: "length [1 :: byte, 2, 3] \<le> CHUNK" by (simp add: CHUNK_def)
  obtain w' obj where w: "writeObject (oneBlock [1, 2, 3]) [] ''r'' ''k'' [1, 2, 3] None None 7 ({}, 0 :: nat) = Some (w', Inr obj)"
    using write_small [OF small, of None "[]" "''r''" "''k''" 7 "({}, 0 :: nat)"] by (auto simp: c validKey_def)
  have b: "objectBlocks None [1, 2, 3] = [[1, 2, 3]]"
    using small by (simp add: objectBlocks_def slices_def chunks_short c Let_def)
  from read_written_object [OF _ w, of "oneBlock [1, 2, 3]" "[]" "''r''" "0 :: nat"] w show ?thesis
    by (auto simp: b validKey_def oneBlock_serving)
qed

text \<open>
  The size a sealed bucket charges is the size it stores: the leaf blocks that \<open>writeObject\<close>
  reports for a sealed file add up to \<open>sealedSize\<close> of the file at the chunk size.
\<close>
theorem sealedSize_written:
  assumes "length k = 32"
    and "writeObject fetch base repo key file token (Some k) now w = Some (w', Inr obj)"
  shows "sum_list (map snd (take (length (slices file)) (o_blocks obj))) = sealedSize (length file) CHUNK"
proof -
  have v: "validKey (Some k)" using assms(1) by (simp add: validKey_def)
  let ?bss = "map (sliceCodec.coded (Some k)) (slices file)"
  have "map snd (take (length (slices file)) (o_blocks obj)) = map length ?bss"
    using writeObject_Inr [OF v assms(2)] by (simp add: objectBlocks_def Let_def take_map comp_def)
  then have "sum_list (map snd (take (length (slices file)) (o_blocks obj))) = length file + length (slices file) * 28"
    using sliceCodec.size_coded [OF v, of "slices file"] by (simp add: slices_concat sealing_def)
  moreover have "length (slices file) = (if file = [] then 1 else (length file + CHUNK - 1) div CHUNK)"
    by (simp add: slices_def length_chunks CHUNK_def)
  ultimately show ?thesis by (simp add: sealedSize_def Let_def)
qed

theorem sealedSize_written_witness:
  "\<exists>w' obj. writeObject (oneBlock (sliceCodec.coded (Some (replicate 32 1)) [1, 2, 3])) [] ''r'' ''k'' [1, 2, 3] None (Some (replicate 32 1)) 7 ({}, 0 :: nat)
      = Some (w', Inr obj) \<and> sum_list (map snd (take 1 (o_blocks obj))) = 31"
proof -
  have small: "length [1 :: byte, 2, 3] \<le> CHUNK" by (simp add: CHUNK_def)
  obtain w' obj where w: "writeObject (oneBlock (sliceCodec.coded (Some (replicate 32 1)) [1, 2, 3])) [] ''r'' ''k'' [1, 2, 3] None (Some (replicate 32 1)) 7 ({}, 0 :: nat)
      = Some (w', Inr obj)"
    using write_small [OF small, of "Some (replicate 32 1)" "[]" "''r''" "''k''" 7 "({}, 0 :: nat)"] by (auto simp: validKey_def)
  have "length (slices [1, 2, 3]) = 1" using small by (simp add: slices_def chunks_short)
  moreover have "sealedSize (Suc (Suc (Suc 0))) CHUNK = 31" by (simp add: sealedSize_def CHUNK_def)
  ultimately show ?thesis using sealedSize_written [OF _ w] w by auto
qed

end
