(* ===== verification/Names.thy ===== *)
theory Names
  imports Json Sha256 "HOL-Library.Char_ord" "HOL-Library.List_Lexorder"
begin

text \<open>
  The names log, \<open>tensors/lib/names.mjs\<close>: an appendEntry-only file of canonical JSON entries, each with the
  SHA-256 of the one before, whose head is signed. The clock is an argument of every operation that
  reads it; Ed25519 (\<open>node:crypto\<close>) is a pair of parameters, signing and verifying.
\<close>

definition FORMAT :: string where "FORMAT = ''hologram.names-log/v1''"

definition NL :: char where "NL = CHR 0x0A"

subsection \<open>Canonical JSON\<close>

fun canon :: "json \<Rightarrow> string" where
  "canon (JArr vs) = ''['' @ join '','' (map canon vs) @ '']''"
| "canon (JObj kvs) = ''{'' @ join '','' (map (\<lambda>kt. quote (fst kt) @ '':'' @ snd kt)
     (sort_key fst (map (\<lambda>kv. (fst kv, canon (snd kv))) kvs))) @ ''}''"
| "canon v = stringify v"

definition sha :: "string \<Rightarrow> string" where
  "sha s = hex (sha256 (utf8 s))"

definition propCanon :: "json \<Rightarrow> string \<Rightarrow> string" where
  "propCanon h k = (case getProp k h of None \<Rightarrow> ''undefined'' | Some v \<Rightarrow> canon v)"

text \<open>\<open>signed\<close>: five members of the head, in the order of their names.\<close>

definition signedText :: "json \<Rightarrow> string" where
  "signedText h = ''{'' @ join '','' (map (\<lambda>k. quote k @ '':'' @ propCanon h k)
     [''format'', ''head'', ''public_key'', ''seq'', ''witness'']) @ ''}''"

subsection \<open>The log\<close>

record namesLog =
  l_text :: string
  l_seq :: int
  l_prev :: json
  l_latest :: "string \<rightharpoonup> json"
  l_witness :: string

definition emptyLog :: "string \<Rightarrow> namesLog" where
  "emptyLog witness = \<lparr>l_text = [], l_seq = 0, l_prev = JNull, l_latest = Map.empty, l_witness = witness\<rparr>"

text \<open>The log's own entries name a model, a revision and files by text.\<close>

definition strProp :: "string \<Rightarrow> json \<Rightarrow> string" where
  "strProp k e = (case getProp k e of Some (JStr s) \<Rightarrow> s | _ \<Rightarrow> [])"

definition fileKey :: "string \<Rightarrow> string \<Rightarrow> string \<Rightarrow> string" where
  "fileKey name rv p = name @ CHR 0x00 # rv @ CHR 0x00 # p"

definition filesOf :: "json \<Rightarrow> (string \<times> json) list" where
  "filesOf e = (case getProp ''files'' e of Some (JObj kvs) \<Rightarrow> kvs | _ \<Rightarrow> [])"

definition track :: "json \<Rightarrow> (string \<rightharpoonup> json) \<Rightarrow> (string \<rightharpoonup> json)" where
  "track e latest = (if strProp ''kind'' e \<noteq> ''witnessed'' \<and> strProp ''kind'' e \<noteq> ''replaced'' then latest
     else (fold (\<lambda>(p, s) m. m(fileKey (strProp ''name'' e) (strProp ''revision'' e) p \<mapsto> s)) (filesOf e) latest)
            (strProp ''name'' e \<mapsto> JStr (strProp ''revision'' e)))"

text \<open>The constructor: replay the file.\<close>

fun replayLines :: "string list \<Rightarrow> namesLog \<Rightarrow> namesLog result" where
  "replayLines [] l = Inr l"
| "replayLines (line # ls) l = (if line = [] then replayLines ls l else case parse line of
     None \<Rightarrow> Inl SyntaxError
   | Some e \<Rightarrow> (case getProp ''seq'' e of
       Some (JNum n) \<Rightarrow> replayLines ls (l\<lparr>l_latest := track e (l_latest l), l_seq := n, l_prev := JStr (sha (canon e))\<rparr>)
     | _ \<Rightarrow> Inl Unmodelled))"

definition openLog :: "string \<Rightarrow> string \<Rightarrow> namesLog result" where
  "openLog witness text = replayLines (splitAt NL text) ((emptyLog witness)\<lparr>l_text := text\<rparr>)"

definition appendEntry :: "string \<Rightarrow> string \<Rightarrow> (string \<times> json) list \<Rightarrow> namesLog \<Rightarrow> json \<times> namesLog" where
  "appendEntry at kind flds l = (let
     e = JObj (foldl (\<lambda>o' (k, v). setProp o' k v)
       [(''format'', JStr FORMAT), (''seq'', JNum (l_seq l + 1)), (''kind'', JStr kind), (''at'', JStr at),
        (''witness'', JStr (l_witness l)), (''prev'', l_prev l)] flds);
     line = canon e
   in (e, l\<lparr>l_text := l_text l @ line @ [NL], l_seq := l_seq l + 1, l_prev := JStr (sha line), l_latest := track e (l_latest l)\<rparr>))"

type_synonym files = "(string \<times> string) list"

definition jsonFiles :: "(string \<times> json) list \<Rightarrow> json" where
  "jsonFiles fs = JObj (fromEntries fs)"

definition changedOf :: "namesLog \<Rightarrow> string \<Rightarrow> string \<Rightarrow> files \<Rightarrow> files" where
  "changedOf l name rv files = filter (\<lambda>(p, s). \<exists>v. l_latest l (fileKey name rv p) = Some v \<and> v \<noteq> JStr s) files"

definition freshOf :: "namesLog \<Rightarrow> string \<Rightarrow> string \<Rightarrow> files \<Rightarrow> files" where
  "freshOf l name rv files = filter (\<lambda>(p, _). l_latest l (fileKey name rv p) = None) files"

definition recordReplaced :: "string \<Rightarrow> string \<Rightarrow> string \<Rightarrow> files \<Rightarrow> namesLog \<Rightarrow> json list \<times> namesLog" where
  "recordReplaced at name rv files l = (let changed = changedOf l name rv files in
     if changed = [] then ([], l) else
     (case appendEntry at ''replaced'' [(''name'', JStr name), (''revision'', JStr rv),
        (''files'', jsonFiles (map (\<lambda>(p, s). (p, JStr s)) changed)),
        (''before'', jsonFiles (map (\<lambda>(p, _). (p, the (l_latest l (fileKey name rv p)))) changed))] l of
      (e, l') \<Rightarrow> ([e], l')))"

definition recordMoved :: "string \<Rightarrow> string \<Rightarrow> string \<Rightarrow> namesLog \<Rightarrow> namesLog" where
  "recordMoved at name rv l = (case l_latest l name of
     Some prior \<Rightarrow> if prior \<noteq> JStr [] \<and> prior \<noteq> JStr rv
       then snd (appendEntry at ''moved'' [(''name'', JStr name), (''revision'', JStr rv), (''previous'', prior)] l) else l
   | None \<Rightarrow> l)"

definition recordFresh :: "string \<Rightarrow> string \<Rightarrow> string \<Rightarrow> files \<Rightarrow> namesLog \<Rightarrow> namesLog" where
  "recordFresh at name rv files l = (let fresh = freshOf l name rv files in
     if fresh = [] then l
     else snd (appendEntry at ''witnessed'' [(''name'', JStr name), (''revision'', JStr rv),
        (''files'', jsonFiles (map (\<lambda>(p, s). (p, JStr s)) fresh))] l))"

text \<open>The clock is read at each of the three entries.\<close>

definition witnessFiles :: "(nat \<Rightarrow> string) \<Rightarrow> string \<Rightarrow> string \<Rightarrow> files \<Rightarrow> namesLog \<Rightarrow> json list \<times> namesLog" where
  "witnessFiles at name rv files l = (case recordReplaced (at 0) name rv files l of (alerts, l1) \<Rightarrow>
     (alerts, recordFresh (at 2) name rv files (recordMoved (at 1) name rv l1)))"

definition indexed :: "string \<Rightarrow> string \<Rightarrow> string \<Rightarrow> string \<Rightarrow> string \<Rightarrow> namesLog \<Rightarrow> json \<times> namesLog" where
  "indexed at name rv index table l = appendEntry at ''indexed''
     [(''name'', JStr name), (''revision'', JStr rv), (''index'', JStr index), (''table'', JStr table)] l"

definition headOf :: "string \<Rightarrow> string \<Rightarrow> namesLog \<Rightarrow> (string \<times> json) list" where
  "headOf at pub l = [(''format'', JStr FORMAT), (''seq'', JNum (l_seq l)), (''head'', l_prev l),
     (''witness'', JStr (l_witness l)), (''public_key'', JStr pub), (''at'', JStr at)]"

definition signHead :: "(bytes \<Rightarrow> bytes) \<Rightarrow> string \<Rightarrow> string \<Rightarrow> namesLog \<Rightarrow> json" where
  "signHead sign pub at l = JObj (headOf at pub l @ [(''signature'', JStr (hex (sign (utf8 (signedText (JObj (headOf at pub l)))))))])"

subsection \<open>Verifying\<close>

definition propText :: "string \<Rightarrow> json \<Rightarrow> string" where
  "propText k v = (case getProp k v of None \<Rightarrow> ''undefined'' | Some x \<Rightarrow> toText x)"

fun verifyLines :: "nat \<Rightarrow> json \<Rightarrow> string list \<Rightarrow> (json list \<times> string list \<times> json) result" where
  "verifyLines i prev [] = Inr ([], [], prev)"
| "verifyLines i prev (line # ls) = (case parse line of
     None \<Rightarrow> Inl SyntaxError
   | Some e \<Rightarrow> if e = JNull then Inl TypeError else
       andThen (verifyLines (Suc i) (JStr (sha (canon e))) ls) (\<lambda>(es, ps, last). Inr (e # es,
         (if getProp ''seq'' e \<noteq> Some (JNum (int (Suc i))) then [''entry '' @ decimal (Suc i) @ '': sequence '' @ propText ''seq'' e] else [])
         @ (if getProp ''prev'' e \<noteq> Some prev then [''entry '' @ decimal (Suc i) @ '': prev link broken''] else []) @ ps, last)))"

definition signatureOk :: "(bytes \<Rightarrow> bytes \<Rightarrow> bytes \<Rightarrow> bool) \<Rightarrow> json \<Rightarrow> bool" where
  "signatureOk edVerify head = (case (getProp ''public_key'' head, getProp ''signature'' head) of
     (Some (JStr pub), Some (JStr sig)) \<Rightarrow> edVerify (hexToBytes pub) (utf8 (signedText head)) (hexToBytes sig)
   | _ \<Rightarrow> False)"

definition verifyLog :: "(bytes \<Rightarrow> bytes \<Rightarrow> bytes \<Rightarrow> bool) \<Rightarrow> string \<Rightarrow> json \<Rightarrow> (json list \<times> string list) result" where
  "verifyLog edVerify text head =
     andThen (verifyLines 0 JNull (filter (\<lambda>l. l \<noteq> []) (splitAt NL text))) (\<lambda>(es, ps, prev).
       Inr (es, ps
         @ (if getProp ''seq'' head \<noteq> Some (JNum (int (length es))) \<or> getProp ''head'' head \<noteq> Some prev
            then [''head says '' @ propText ''seq'' head @ ''/'' @ propText ''head'' head @ '', log ends at '' @ decimal (length es) @ ''/'' @ toText prev] else [])
         @ (if signatureOk edVerify head then [] else [''head signature does not verify''])))"

subsection \<open>What a name pointed to\<close>

record pointed =
  d_revision :: json
  d_files :: "(string \<times> json) list"
  d_index :: json

definition orUndefined :: "json option \<Rightarrow> json" where
  "orUndefined v = (case v of Some x \<Rightarrow> x | None \<Rightarrow> JNull)"

definition later :: "string option \<Rightarrow> int option \<Rightarrow> json \<Rightarrow> bool" where
  "later till upTo e \<longleftrightarrow>
     (case till of Some t \<Rightarrow> t \<noteq> [] \<and> strProp ''at'' e > t | None \<Rightarrow> False) \<or>
     (case upTo of Some n \<Rightarrow> n \<noteq> 0 \<and> (case getProp ''seq'' e of Some (JNum s) \<Rightarrow> s > n | _ \<Rightarrow> False) | None \<Rightarrow> False)"

definition pointStep :: "string \<Rightarrow> string option \<Rightarrow> int option \<Rightarrow> json \<Rightarrow> pointed \<Rightarrow> pointed" where
  "pointStep name till upTo e d = (if getProp ''name'' e \<noteq> Some (JStr name) \<or> later till upTo e then d
     else if strProp ''kind'' e \<in> {''witnessed'', ''replaced'', ''moved''} then
       (let rv = orUndefined (getProp ''revision'' e);
            d1 = (if rv \<noteq> d_revision d then \<lparr>d_revision = rv, d_files = [], d_index = JNull\<rparr> else d)
        in d1\<lparr>d_files := foldl (\<lambda>o' (k, v). setProp o' k v) (d_files d1) (filesOf e)\<rparr>)
     else if strProp ''kind'' e = ''indexed'' \<and> orUndefined (getProp ''revision'' e) = d_revision d
       then d\<lparr>d_index := orUndefined (getProp ''index'' e)\<rparr> else d)"

definition pointedAt :: "json list \<Rightarrow> string \<Rightarrow> string option \<Rightarrow> int option \<Rightarrow> pointed" where
  "pointedAt entries name till upTo = fold (pointStep name till upTo) entries \<lparr>d_revision = JNull, d_files = [], d_index = JNull\<rparr>"

subsection \<open>Canonical text\<close>

fun canonical :: "json \<Rightarrow> json" where
  "canonical (JArr vs) = JArr (map canonical vs)"
| "canonical (JObj kvs) = JObj (sort_key fst (map (\<lambda>kv. (fst kv, canonical (snd kv))) kvs))"
| "canonical v = v"

lemma insort_map: "insort_key f (g x) (map g xs) = map g (insort_key (\<lambda>y. f (g y)) x xs)"
  by (induction xs) auto

lemma sort_map: "sort_key f (map g xs) = map g (sort_key (\<lambda>y. f (g y)) xs)"
  by (induction xs) (simp_all add: insort_map)

lemma join_elems: "join '','' (map stringify (v # vs)) = stringify v @ stringifyElems vs"
  by (induction vs arbitrary: v) auto

lemma join_members:
  "join '','' (map (\<lambda>kv. quote (fst kv) @ '':'' @ stringify (snd kv)) (kv # kvs)) = quote (fst kv) @ '':'' @ stringify (snd kv) @ stringifyMembers kvs"
proof (induction kvs arbitrary: kv)
  case (Cons kv' kvs)
  from Cons.IH [of kv'] show ?case by (cases kv') simp
qed simp

lemma stringify_arr: "stringify (JArr vs) = ''['' @ join '','' (map stringify vs) @ '']''"
  using join_elems [of "hd vs" "tl vs"] by (cases vs) simp_all

lemma stringify_obj: "stringify (JObj kvs) = ''{'' @ join '','' (map (\<lambda>kv. quote (fst kv) @ '':'' @ stringify (snd kv)) kvs) @ ''}''"
proof (cases kvs)
  case (Cons kv rest)
  then show ?thesis by (cases kv) (simp only: join_members, simp)
qed simp

lemma canon_canonical: "canon v = stringify (canonical v)"
proof (induction v rule: canon.induct)
  case (1 vs)
  then have "map canon vs = map stringify (map canonical vs)" by simp
  then show ?case by (simp only: canon.simps canonical.simps stringify_arr)
next
  case (2 kvs)
  then have "map (\<lambda>kv. (fst kv, canon (snd kv))) kvs = map (\<lambda>kv. (fst kv, stringify (snd kv))) (map (\<lambda>kv. (fst kv, canonical (snd kv))) kvs)"
    by simp
  then show ?case
    by (simp only: canon.simps canonical.simps stringify_obj sort_map [of fst "\<lambda>kv. (fst kv, stringify (snd kv))"])
      (simp add: comp_def)
qed simp_all

lemma canonical_keys: "set (map fst (sort_key fst (map (\<lambda>kv. (fst kv, f (snd kv))) kvs))) = set (map fst kvs)"
  by (force simp: image_iff)

lemma distinct_sorted_keys: "distinct (map fst (sort_key fst kvs)) = distinct (map fst kvs)"
  by (rule mset_eq_imp_distinct_iff) simp

lemma plainKeys_canonical: "plainKeys (map fst (sort_key fst (map (\<lambda>kv. (fst kv, f (snd kv))) kvs))) = plainKeys (map fst kvs)"
  unfolding plainKeys_def distinct_sorted_keys list_all_iff canonical_keys by (simp add: comp_def)

lemma plain_canonical: "plain v \<Longrightarrow> plain (canonical v)"
  by (induction v rule: canonical.induct) (simp_all only: canonical.simps plain.simps plainKeys_canonical set_sort, auto)

lemma canonical_idem: "canonical (canonical v) = canonical v"
proof (induction v rule: canonical.induct)
  case (2 kvs)
  let ?s = "sort_key fst (map (\<lambda>kv. (fst kv, canonical (snd kv))) kvs)"
  have "map (\<lambda>kv. (fst kv, canonical (snd kv))) ?s = ?s" by (rule map_idI) (use 2 in auto)
  then show ?case by (simp add: sort_key_id_if_sorted)
qed auto

lemma parse_canon: "plain v \<Longrightarrow> parse (canon v) = Some (canonical v)"
  by (simp add: canon_canonical parse_stringify plain_canonical)

lemma canon_idem [simp]: "canon (canonical v) = canon v"
  by (simp add: canon_canonical canonical_idem)

lemma map_of_canonical:
  assumes "distinct (map fst kvs)"
  shows "map_of (sort_key fst (map (\<lambda>kv. (fst kv, f (snd kv))) kvs)) k = map_option f (map_of kvs k)"
proof -
  have "map_of (sort_key fst (map (\<lambda>kv. (fst kv, f (snd kv))) kvs)) = map_of (map (\<lambda>kv. (fst kv, f (snd kv))) kvs)"
    by (rule map_of_inject_set [THEN iffD2]) (use assms in \<open>simp_all add: distinct_sorted_keys comp_def\<close>)
  moreover have "map_of (map (\<lambda>kv. (fst kv, f (snd kv))) kvs) k = map_option f (map_of kvs k)" by (induction kvs) auto
  ultimately show ?thesis by simp
qed

lemma getProp_canonical: "plain v \<Longrightarrow> getProp k (canonical v) = map_option canonical (getProp k v)"
  by (cases v) (simp_all add: map_of_canonical plainKeys_def)

lemma NL_not_escaped: "NL \<notin> set (quote s)"
proof -
  have "\<forall>n \<in> set [0..<16]. NL \<noteq> hexdigit n" by code_simp
  then have h: "n < 16 \<Longrightarrow> NL \<noteq> hexdigit n" for n by auto
  have d: "(of_char c :: nat) div 16 < 16" for c using of_char_less [of c] by linarith
  have "NL \<notin> set (escapeChar c)" for c using h [OF d [of c]] h [of "of_char c mod 16"] by (auto simp: escapeChar_def NL_def)
  then show ?thesis by (auto simp: quote_def NL_def)
qed

lemma NL_not_number: "NL \<notin> set (numText i)"
  using decimal_digits [of NL] by (auto simp: numText_def NL_def isDigit_def)

lemma NL_not_stringify: "NL \<notin> set (stringify v)" "NL \<notin> set (stringifyElems vs)" "NL \<notin> set (stringifyMembers kvs)"
  by (induction v and vs and kvs rule: stringify_stringifyElems_stringifyMembers.induct)
    (auto simp: NL_not_escaped NL_not_number, auto simp: NL_def)

lemma NL_not_canon: "NL \<notin> set (canon v)"
  by (simp add: canon_canonical NL_not_stringify)

lemma canon_nonempty: "canon v \<noteq> []"
  using stringify_nonempty [of "canonical v"] by (simp add: canon_canonical)

subsection \<open>A log that only grows by its own operations\<close>

text \<open>The entries a sequence number and a link lead through.\<close>

fun chained :: "nat \<Rightarrow> json \<Rightarrow> json list \<Rightarrow> bool" where
  "chained i prev [] \<longleftrightarrow> True"
| "chained i prev (e # es) \<longleftrightarrow> plain e \<and> canonical e = e \<and> e \<noteq> JNull \<and> getProp ''seq'' e = Some (JNum (int (Suc i))) \<and>
     getProp ''prev'' e = Some prev \<and> chained (Suc i) (JStr (sha (canon e))) es"

fun lastLink :: "json \<Rightarrow> json list \<Rightarrow> json" where
  "lastLink prev [] = prev"
| "lastLink prev (e # es) = lastLink (JStr (sha (canon e))) es"

definition logText :: "json list \<Rightarrow> string" where
  "logText es = concat (map (\<lambda>e. canon e @ [NL]) es)"

definition texts :: "(string \<rightharpoonup> json) \<Rightarrow> bool" where
  "texts m \<longleftrightarrow> (\<forall>v \<in> ran m. \<exists>s. v = JStr s)"

definition holds :: "string \<Rightarrow> json list \<Rightarrow> namesLog \<Rightarrow> bool" where
  "holds w es l \<longleftrightarrow> chained 0 JNull es \<and> l_text l = logText es \<and> l_seq l = int (length es) \<and> l_prev l = lastLink JNull es \<and>
     l_latest l = fold track es Map.empty \<and> l_witness l = w \<and> texts (l_latest l)"

lemma chained_snoc: "chained i prev (es @ [e]) \<longleftrightarrow> chained i prev es \<and> plain e \<and> canonical e = e \<and> e \<noteq> JNull \<and>
    getProp ''seq'' e = Some (JNum (int (Suc (i + length es)))) \<and> getProp ''prev'' e = Some (lastLink prev es)"
  by (induction i prev es rule: chained.induct) auto

lemma lastLink_snoc: "lastLink prev (es @ [e]) = JStr (sha (canon e))"
  by (induction prev es rule: lastLink.induct) auto

lemma lastLink_primitive: "canonical prev = prev \<and> plain prev \<Longrightarrow> canonical (lastLink prev es) = lastLink prev es \<and> plain (lastLink prev es)"
  by (induction prev es rule: lastLink.induct) auto

lemma splitAt_logText: "splitAt NL (logText es) = map canon es @ [[]]"
  by (induction es) (simp_all add: logText_def splitAt_app NL_not_canon)

lemma log_lines: "filter (\<lambda>l. l \<noteq> []) (splitAt NL (logText es)) = map canon es"
  using canon_nonempty by (simp add: splitAt_logText filter_map comp_def)

lemma verifyLines_chained:
  "chained i prev es \<Longrightarrow> verifyLines i prev (map canon es) = Inr (es, [], lastLink prev es)"
  by (induction i prev es rule: chained.induct) (simp_all add: parse_canon)

lemma replayLines_chained:
  "chained i prev es \<Longrightarrow> l_seq l = int i \<Longrightarrow> l_prev l = prev \<Longrightarrow> replayLines (map canon es @ [[]]) l =
    Inr (l\<lparr>l_latest := fold track es (l_latest l), l_seq := int (i + length es), l_prev := lastLink prev es\<rparr>)"
  by (induction i prev es arbitrary: l rule: chained.induct) (simp_all add: parse_canon canon_nonempty)

subsection \<open>Appending\<close>

lemma strProp_canonical: "plain e \<Longrightarrow> strProp k (canonical e) = strProp k e"
proof (cases "getProp k e")
  case (Some v)
  moreover assume "plain e"
  ultimately show ?thesis by (cases v) (simp_all add: strProp_def getProp_canonical)
qed (simp add: strProp_def getProp_canonical)

lemma filesOf_canonical:
  assumes "plain e" and "\<forall>ps \<in> set (filesOf e). \<exists>t. snd ps = JStr t"
  shows "filesOf (canonical e) = sort_key fst (filesOf e)"
proof (cases "getProp ''files'' e")
  case (Some v)
  show ?thesis
  proof (cases v)
    case (JObj kvs)
    then have "map (\<lambda>kv. (fst kv, canonical (snd kv))) kvs = kvs" using assms(2) Some by (intro map_idI) (force simp: filesOf_def)
    then show ?thesis using Some JObj assms(1) by (simp add: filesOf_def getProp_canonical)
  qed (use Some assms(1) in \<open>simp_all add: filesOf_def getProp_canonical\<close>)
qed (use assms(1) in \<open>simp add: filesOf_def getProp_canonical\<close>)

lemma fold_upd_perm:
  assumes "distinct (map fst xs)" and "mset xs = mset ys" and "inj h"
  shows "fold (\<lambda>(p, s) m. m(h p \<mapsto> s)) xs = fold (\<lambda>(p, s) m. m(h p \<mapsto> s)) ys"
proof (rule fold_multiset_equiv [OF _ assms(2)])
  fix x y
  assume xy: "x \<in> set xs" "y \<in> set xs"
  show "(\<lambda>(p, s) m. m(h p \<mapsto> s)) x \<circ> (\<lambda>(p, s) m. m(h p \<mapsto> s)) y = (\<lambda>(p, s) m. m(h p \<mapsto> s)) y \<circ> (\<lambda>(p, s) m. m(h p \<mapsto> s)) x"
  proof (cases "fst x = fst y")
    case True
    with assms(1) xy have "x = y" by (metis inj_on_contraD distinct_map)
    then show ?thesis by simp
  next
    case False
    then have "h (fst x) \<noteq> h (fst y)" using assms(3) by (meson injD)
    then show ?thesis by (cases x, cases y) (simp add: comp_def fun_upd_twist)
  qed
qed

lemma inj_fileKey: "inj (fileKey name rv)"
  by (auto simp: inj_def fileKey_def)

lemma track_canonical:
  assumes "plain e" and "\<forall>ps \<in> set (filesOf e). \<exists>t. snd ps = JStr t" and "distinct (map fst (filesOf e))"
  shows "track (canonical e) = track e"
proof -
  have "fold (\<lambda>(p, s) m. m(fileKey name rv p \<mapsto> s)) (sort_key fst (filesOf e)) = fold (\<lambda>(p, s) m. m(fileKey name rv p \<mapsto> s)) (filesOf e)" for name rv
    by (rule fold_upd_perm [symmetric]) (use assms(3) inj_fileKey in auto)
  then show ?thesis by (simp add: track_def fun_eq_iff strProp_canonical [OF assms(1)] filesOf_canonical [OF assms(1,2)])
qed

lemma texts_upd: "texts m \<Longrightarrow> texts (m(k \<mapsto> JStr t))"
  by (auto simp: texts_def ran_def)

lemma fold_upd_texts: "texts m \<Longrightarrow> \<forall>ps \<in> set fs. \<exists>t. snd ps = JStr t \<Longrightarrow> texts (fold (\<lambda>(p, s) m. m(h p \<mapsto> s)) fs m)"
proof (induction fs arbitrary: m)
  case (Cons ps fs)
  then obtain t where "ps = (fst ps, JStr t)" by (cases ps) auto
  with Cons.IH [OF texts_upd [OF Cons.prems(1)], of "h (fst ps)" t] Cons.prems(2) show ?case
    by (metis (no_types, lifting) case_prod_conv fold_simps(2) list.set_intros(2))
qed simp

lemma track_texts: "texts m \<Longrightarrow> \<forall>ps \<in> set (filesOf e). \<exists>t. snd ps = JStr t \<Longrightarrow> texts (track e m)"
  using fold_upd_texts [of m "filesOf e" "fileKey (strProp ''name'' e) (strProp ''revision'' e)"] texts_upd
  by (simp add: track_def)

text \<open>The fields an operation may pass: fresh names, plain values, and the hashes of files as text.\<close>

definition BASE :: "string list" where
  "BASE = [''format'', ''seq'', ''kind'', ''at'', ''witness'', ''prev'']"

definition okFields :: "(string \<times> json) list \<Rightarrow> bool" where
  "okFields fs \<longleftrightarrow> plainKeys (BASE @ map fst fs) \<and> (\<forall>kv \<in> set fs. plain (snd kv)) \<and>
     (\<forall>kvs. map_of fs ''files'' = Some (JObj kvs) \<longrightarrow> (\<forall>ps \<in> set kvs. \<exists>t. snd ps = JStr t))"

lemma appendEntry_holds:
  assumes "holds w es l" and "okFields fs" and "appendEntry at kind fs l = (e, l')"
  shows "holds w (es @ [canonical e]) l'"
proof -
  let ?base = "[(''format'', JStr FORMAT), (''seq'', JNum (l_seq l + 1)), (''kind'', JStr kind), (''at'', JStr at),
        (''witness'', JStr (l_witness l)), (''prev'', l_prev l)]"
  have keys: "plainKeys (map fst (?base @ fs))" using assms(2) by (simp add: okFields_def BASE_def)
  then have e: "e = JObj (?base @ fs)" using assms(3) foldl_setProp_plain [OF keys] by (simp add: appendEntry_def Let_def)
  have prev: "l_prev l = lastLink JNull es" "plain (l_prev l)" "canonical (l_prev l) = l_prev l"
    using assms(1) lastLink_primitive [of JNull es] by (simp_all add: holds_def)
  have p: "plain e" using assms(2) keys prev(2) unfolding e plain.simps by (auto simp: okFields_def)
  have props: "getProp ''seq'' e = Some (JNum (l_seq l + 1))" "getProp ''prev'' e = Some (l_prev l)"
    "getProp ''files'' e = map_of fs ''files''" by (simp_all add: e)
  have str: "\<forall>ps \<in> set (filesOf e). \<exists>t. snd ps = JStr t"
  proof (cases "map_of fs ''files''")
    case (Some v)
    with assms(2) show ?thesis by (cases v) (simp_all add: filesOf_def props okFields_def)
  qed (simp add: filesOf_def props)
  have "distinct (map fst (filesOf e))"
  proof (cases "map_of fs ''files''")
    case (Some v)
    then have "plain v" using assms(2) by (auto simp: okFields_def dest!: map_of_SomeD)
    then show ?thesis by (cases v) (simp_all add: filesOf_def props Some plainKeys_def)
  qed (simp add: filesOf_def props)
  from track_canonical [OF p str this] have t: "track (canonical e) = track e" .
  have l': "l' = l\<lparr>l_text := l_text l @ canon e @ [NL], l_seq := l_seq l + 1, l_prev := JStr (sha (canon e)), l_latest := track e (l_latest l)\<rparr>"
    using assms(3) by (auto simp: appendEntry_def Let_def)
  have "canonical e \<noteq> JNull" by (simp add: e)
  moreover have "texts (track e (l_latest l))" by (rule track_texts [OF _ str]) (use assms(1) in \<open>auto simp: holds_def\<close>)
  ultimately show ?thesis using assms(1) p props prev
    by (simp add: holds_def l' chained_snoc lastLink_snoc logText_def t plain_canonical canonical_idem getProp_canonical)
qed

lemma jsonFiles_ok:
  assumes "plainKeys (map fst fs)" and "\<forall>ps \<in> set fs. \<exists>t. snd ps = JStr t"
  shows "plain (jsonFiles fs)" "jsonFiles fs = JObj fs"
proof -
  show j: "jsonFiles fs = JObj fs" using assms(1) by (simp add: jsonFiles_def fromEntries_plain)
  show "plain (jsonFiles fs)" unfolding j using assms by (force simp: plain.simps)
qed

lemma plainKeys_filter: "plainKeys (map fst fs) \<Longrightarrow> plainKeys (map fst (filter P fs))"
  by (auto simp: plainKeys_def list_all_iff distinct_map_filter)

lemma literal_fields: "\<not> isIndex ''name'' \<and> \<not> isIndex ''revision'' \<and> \<not> isIndex ''files'' \<and> \<not> isIndex ''before'' \<and>
    \<not> isIndex ''previous'' \<and> \<not> isIndex ''index'' \<and> \<not> isIndex ''table'' \<and> list_all (\<lambda>k. \<not> isIndex k) BASE"
  by (simp add: isIndex_def isDigit_def BASE_def)

lemma okFields_simple: "plainKeys (map fst fs) \<Longrightarrow> list_all (\<lambda>k. k \<notin> set BASE) (map fst fs) \<Longrightarrow>
    (\<forall>kv \<in> set fs. plain (snd kv)) \<Longrightarrow> (\<forall>kvs. map_of fs ''files'' = Some (JObj kvs) \<longrightarrow> (\<forall>ps \<in> set kvs. \<exists>t. snd ps = JStr t)) \<Longrightarrow> okFields fs"
  using literal_fields by (auto simp: okFields_def plainKeys_def list_all_iff) (simp add: BASE_def)

lemma fields_ok:
  "plain prior \<Longrightarrow> okFields [(''name'', JStr n), (''revision'', JStr r), (''previous'', prior)]"
  "okFields [(''name'', JStr n), (''revision'', JStr r), (''index'', JStr i), (''table'', JStr t)]"
  "plainKeys (map fst fs) \<Longrightarrow> \<forall>ps \<in> set fs. \<exists>t. snd ps = JStr t \<Longrightarrow>
   okFields [(''name'', JStr n), (''revision'', JStr r), (''files'', jsonFiles fs)]"
  "plainKeys (map fst fs) \<Longrightarrow> \<forall>ps \<in> set fs. \<exists>t. snd ps = JStr t \<Longrightarrow> plain before \<Longrightarrow>
   okFields [(''name'', JStr n), (''revision'', JStr r), (''files'', jsonFiles fs), (''before'', before)]"
  by (rule okFields_simple; use literal_fields in \<open>auto simp: BASE_def plainKeys_def jsonFiles_ok jsonFiles_ok(2) [unfolded plainKeys_def]\<close>)+

lemma texts_the: "texts m \<Longrightarrow> m k = Some v \<Longrightarrow> \<exists>t. v = JStr t"
  by (auto simp: texts_def ran_def)

lemma strings_of: "\<forall>ps \<in> set (map (\<lambda>(p, s). (p, JStr s)) fs). \<exists>t. snd ps = JStr t" "map fst (map (\<lambda>(p, s). (p, JStr s)) fs) = map fst fs"
  "map fst (map (\<lambda>(p, _). (p, f p)) fs) = map fst fs"
  by auto

lemma recordReplaced_holds:
  assumes "holds w es l" and "plainKeys (map fst files)" and "recordReplaced at name rv files l = (alerts, l')"
  shows "\<exists>es'. holds w es' l'"
proof (cases "changedOf l name rv files = []")
  case True
  with assms show ?thesis by (auto simp: recordReplaced_def)
next
  case False
  let ?c = "changedOf l name rv files"
  let ?b = "map (\<lambda>(p, _). (p, the (l_latest l (fileKey name rv p)))) ?c"
  have c: "plainKeys (map fst ?c)" unfolding changedOf_def by (rule plainKeys_filter [OF assms(2)])
  have "\<exists>t. snd ps = JStr t" if "ps \<in> set ?b" for ps
    using that assms(1) by (auto simp: changedOf_def holds_def dest: texts_the)
  then have "plain (jsonFiles ?b)" by (intro jsonFiles_ok(1)) (use c in \<open>simp_all only: strings_of(3), blast\<close>)
  then have ok: "okFields [(''name'', JStr name), (''revision'', JStr rv), (''files'', jsonFiles (map (\<lambda>(p, s). (p, JStr s)) ?c)), (''before'', jsonFiles ?b)]"
    by (intro fields_ok(4)) (use c strings_of(1) in \<open>simp_all only: strings_of(2)\<close>)
  from assms(3) False obtain e where "appendEntry at ''replaced'' [(''name'', JStr name), (''revision'', JStr rv),
      (''files'', jsonFiles (map (\<lambda>(p, s). (p, JStr s)) ?c)), (''before'', jsonFiles ?b)] l = (e, l')"
    by (auto simp: recordReplaced_def Let_def split: prod.splits)
  with appendEntry_holds [OF assms(1) ok] show ?thesis by blast
qed

lemma append_snd: "holds w es l \<Longrightarrow> okFields fs \<Longrightarrow> \<exists>es'. holds w es' (snd (appendEntry at kind fs l))"
  using appendEntry_holds by (metis prod.collapse)

lemma recordMoved_holds: "holds w es l \<Longrightarrow> \<exists>es'. holds w es' (recordMoved at name rv l)"
  using append_snd [OF _ fields_ok(1)] texts_the [of "l_latest l" name]
  by (auto simp: recordMoved_def holds_def split: option.splits)

lemma recordFresh_holds: "holds w es l \<Longrightarrow> plainKeys (map fst files) \<Longrightarrow> \<exists>es'. holds w es' (recordFresh at name rv files l)"
  unfolding recordFresh_def Let_def
  by (auto intro!: append_snd fields_ok(3) simp: freshOf_def plainKeys_filter comp_def split_beta)

lemma witnessFiles_holds:
  assumes "holds w es l" and "plainKeys (map fst files)"
  shows "\<exists>es'. holds w es' (snd (witnessFiles at name rv files l))"
proof -
  obtain alerts l1 where 1: "recordReplaced (at 0) name rv files l = (alerts, l1)" by fastforce
  from recordReplaced_holds [OF assms 1] obtain es1 where "holds w es1 l1" by blast
  from recordMoved_holds [OF this] obtain es2 where "holds w es2 (recordMoved (at 1) name rv l1)" by blast
  from recordFresh_holds [OF this assms(2)] show ?thesis by (simp add: witnessFiles_def 1)
qed

text \<open>The logs a witness can have: new, one operation further, or opened again from its file.\<close>

inductive reachable :: "string \<Rightarrow> namesLog \<Rightarrow> bool" for w where
  fresh: "reachable w (emptyLog w)"
| observed: "reachable w l \<Longrightarrow> plainKeys (map fst files) \<Longrightarrow> reachable w (snd (witnessFiles at name rv files l))"
| built: "reachable w l \<Longrightarrow> reachable w (snd (indexed at name rv index table l))"
| reopened: "reachable w l \<Longrightarrow> openLog w (l_text l) = Inr l' \<Longrightarrow> reachable w l'"

lemma holds_open: "holds w es l \<Longrightarrow> openLog w (l_text l) = Inr l"
proof -
  assume h: "holds w es l"
  then have "replayLines (map canon es @ [[]]) ((emptyLog w)\<lparr>l_text := l_text l\<rparr>) = Inr l"
    by (subst replayLines_chained [of 0 JNull]) (simp_all add: holds_def emptyLog_def)
  then show ?thesis using h by (simp add: openLog_def holds_def splitAt_logText)
qed

lemma reachable_holds: "reachable w l \<Longrightarrow> \<exists>es. holds w es l"
proof (induction rule: reachable.induct)
  case fresh
  have "holds w [] (emptyLog w)" by (simp add: holds_def emptyLog_def logText_def texts_def)
  then show ?case ..
next
  case (observed l files at name rv)
  then show ?case using witnessFiles_holds by blast
next
  case (built l at name rv index table)
  then show ?case unfolding indexed_def using append_snd [OF _ fields_ok(2)] by blast
next
  case (reopened l l')
  then show ?case using holds_open by fastforce
qed

lemma signed_head: "signedText (signHead sign pub at l) = signedText (JObj (headOf at pub l))"
  by (simp add: signedText_def signHead_def headOf_def propCanon_def)

lemma signHead_props: "getProp ''seq'' (signHead sign pub at l) = Some (JNum (l_seq l))"
  "getProp ''head'' (signHead sign pub at l) = Some (l_prev l)"
  "getProp ''public_key'' (signHead sign pub at l) = Some (JStr pub)"
  "getProp ''signature'' (signHead sign pub at l) = Some (JStr (hex (sign (utf8 (signedText (signHead sign pub at l))))))"
  by (simp_all add: signed_head) (simp_all add: signHead_def headOf_def)

text \<open>
  The names log is sound and durable: after any sequence of observations, index entries and
  restarts, the file with its signed head verifies with no problem and gives back one entry per
  sequence number, and opening the file again restores the log exactly (so the chain goes on from
  where it was).
\<close>
theorem names_log_verifies:
  assumes "reachable w l" and "\<And>m. edVerify pub m (sign m)"
  shows "(\<exists>entries. verifyLog edVerify (l_text l) (signHead sign (hex pub) at l) = Inr (entries, []) \<and> int (length entries) = l_seq l) \<and>
    openLog w (l_text l) = Inr l"
proof -
  obtain es where h: "holds w es l" using reachable_holds [OF assms(1)] by blast
  have "signatureOk edVerify (signHead sign (hex pub) at l)"
    by (simp add: signatureOk_def signHead_props hexToBytes_hex assms(2))
  then have "verifyLog edVerify (l_text l) (signHead sign (hex pub) at l) = Inr (es, [])"
    using h by (simp add: verifyLog_def holds_def log_lines verifyLines_chained signHead_props)
  then show ?thesis using h holds_open [OF h] by (simp add: holds_def)
qed

theorem names_log_verifies_witness:
  "openLog ''w'' (l_text (snd (witnessFiles (\<lambda>_. ''2026-09-26T00:00:00Z'') ''org/m'' ''r1'' [(''config.json'', ''sha256:aa'')] (emptyLog ''w''))))
     = Inr (snd (witnessFiles (\<lambda>_. ''2026-09-26T00:00:00Z'') ''org/m'' ''r1'' [(''config.json'', ''sha256:aa'')] (emptyLog ''w'')))"
proof -
  have "plainKeys (map fst [(''config.json'', ''sha256:aa'')])" by (simp add: plainKeys_def isIndex_def isDigit_def)
  from names_log_verifies [OF reachable.observed [OF reachable.fresh this], of "\<lambda>_ _ _. True" "[]" "\<lambda>_. []"] show ?thesis by blast
qed

subsection \<open>Tampering\<close>

fun linked :: "json \<Rightarrow> json list \<Rightarrow> bool" where
  "linked prev [] \<longleftrightarrow> True"
| "linked prev (e # es) \<longleftrightarrow> getProp ''prev'' e = Some prev \<and> linked (JStr (sha (canon e))) es"

lemma linked_snoc: "linked prev (es @ [e]) \<longleftrightarrow> linked prev es \<and> getProp ''prev'' e = Some (lastLink prev es)"
  by (induction prev es rule: linked.induct) auto

lemma verifyLines_linked: "verifyLines i prev ls = Inr (es, [], end') \<Longrightarrow> linked prev es \<and> end' = lastLink prev es"
proof (induction i prev ls arbitrary: es rule: verifyLines.induct)
  case (2 i prev line ls)
  then obtain e where e: "parse line = Some e" "e \<noteq> JNull" by (auto split: option.splits if_splits)
  with "2.prems" obtain fs where fs: "verifyLines (Suc i) (JStr (sha (canon e))) ls = Inr (fs, [], end')" "es = e # fs" "getProp ''prev'' e = Some prev"
    by (auto simp: andThen_Inr_iff split: if_splits)
  from "2.IH" [OF e fs(1)] fs show ?case by simp
qed simp

text \<open>The lines of a file, as they are hashed.\<close>

definition hashed :: "json list \<Rightarrow> bytes set" where
  "hashed es = (\<lambda>e. utf8 (canon e)) ` set es"

lemma sha_inject: "inj_on sha256 T \<Longrightarrow> utf8 s \<in> T \<Longrightarrow> utf8 t \<in> T \<Longrightarrow> sha s = sha t \<Longrightarrow> s = t"
  by (auto simp: sha_def dest: inj_onD)

lemma canon_inject: "plain a \<Longrightarrow> plain b \<Longrightarrow> canon a = canon b \<Longrightarrow> canonical a = canonical b"
  by (simp add: canon_canonical stringify_inject plain_canonical)

lemma lastLink_canonical: "canonical (lastLink JNull es) = lastLink JNull es"
  using lastLink_primitive [of JNull es] by simp

lemma same_link_same_log:
  "length es = length fs \<Longrightarrow> linked JNull es \<Longrightarrow> linked JNull fs \<Longrightarrow> list_all plain es \<Longrightarrow> list_all plain fs \<Longrightarrow>
   inj_on sha256 T \<Longrightarrow> hashed es \<union> hashed fs \<subseteq> T \<Longrightarrow>
   lastLink JNull es = lastLink JNull fs \<Longrightarrow> map canonical es = map canonical fs"
proof (induction es arbitrary: fs rule: rev_induct)
  case (snoc e es)
  then obtain f fs' where f: "fs = fs' @ [f]" by (cases fs rule: rev_cases) auto
  have "canon e = canon f"
    by (rule sha_inject [OF snoc.prems(6)]) (use snoc.prems(7,8) in \<open>auto simp: f hashed_def lastLink_snoc\<close>)
  then have c: "canonical e = canonical f" using snoc.prems(4,5) f by (simp add: canon_inject)
  have "getProp ''prev'' (canonical e) = Some (lastLink JNull es)" "getProp ''prev'' (canonical f) = Some (lastLink JNull fs')"
    using snoc.prems by (simp_all add: f linked_snoc getProp_canonical lastLink_canonical)
  with c have "lastLink JNull es = lastLink JNull fs'" by simp
  moreover have "hashed es \<union> hashed fs' \<subseteq> T" using snoc.prems(7) by (auto simp: f hashed_def)
  ultimately show ?case using snoc.IH [of fs'] snoc.prems c by (auto simp: f linked_snoc)
qed simp

text \<open>
  C40. History cannot be rewritten under a signed head: two files that both verify against one head with no problem
  hold the same entries, in the same order, unless two of the very lines they hold collide under SHA-256. (Entries
  have distinct names of members, none of them an array index, as the log writes them.)
\<close>
theorem names_log_tamper_evident:
  assumes "verifyLog edVerify text head = Inr (entries, [])" and "verifyLog edVerify text' head = Inr (entries', [])"
    and "list_all plain entries" and "list_all plain entries'" and "inj_on sha256 (hashed entries \<union> hashed entries')"
  shows "map canonical entries = map canonical entries'"
proof -
  have read: "linked JNull es \<and> getProp ''seq'' head = Some (JNum (int (length es))) \<and> getProp ''head'' head = Some (lastLink JNull es)"
    if "verifyLog edVerify t head = Inr (es, [])" for t es
    using that verifyLines_linked by (fastforce simp: verifyLog_def andThen_Inr_iff split: if_splits)
  from read [OF assms(1)] read [OF assms(2)] assms(3,4) same_link_same_log [OF _ _ _ _ _ assms(5) subset_refl] show ?thesis by simp
qed

lemma chained_plain: "chained i prev es \<Longrightarrow> list_all plain es"
  by (induction i prev es rule: chained.induct) auto

text \<open>One entry, and the same line between blank ones.\<close>

theorem names_log_tamper_evident_witness:
  "\<exists>text entries entries'. verifyLog (\<lambda>_ _ _. True) text (signHead (\<lambda>_. []) (hex []) [] (snd (indexed ''t'' ''n'' ''r'' ''i'' ''b'' (emptyLog ''w'')))) = Inr (entries, [])
     \<and> verifyLog (\<lambda>_ _ _. True) (NL # text) (signHead (\<lambda>_. []) (hex []) [] (snd (indexed ''t'' ''n'' ''r'' ''i'' ''b'' (emptyLog ''w'')))) = Inr (entries', [])
     \<and> length entries = 1 \<and> map canonical entries = map canonical entries'"
proof -
  let ?l = "snd (indexed ''t'' ''n'' ''r'' ''i'' ''b'' (emptyLog ''w''))" and ?ver = "\<lambda>_ _ _. True"
  let ?h = "signHead (\<lambda>_. []) (hex []) [] ?l"
  obtain es where h: "holds ''w'' es ?l" using reachable_holds [OF reachable.built [OF reachable.fresh]] by blast
  have "signatureOk ?ver ?h" by (simp add: signatureOk_def signHead_props)
  then have v: "verifyLog ?ver (l_text ?l) ?h = Inr (es, [])" and v': "verifyLog ?ver (NL # l_text ?l) ?h = Inr (es, [])"
    using h by (simp_all add: verifyLog_def holds_def log_lines verifyLines_chained signHead_props)
  have n: "length es = 1" using h by (simp add: holds_def indexed_def appendEntry_def emptyLog_def Let_def)
  then obtain e where "es = [e]" by (auto simp: length_Suc_conv)
  then have "inj_on sha256 (hashed es \<union> hashed es)" by (simp add: hashed_def)
  moreover have "list_all plain es" using h chained_plain by (auto simp: holds_def)
  ultimately show ?thesis using names_log_tamper_evident [OF v v'] v v' n by blast
qed

end
