(* ===== verification/Zip.thy ===== *)
theory Zip
  imports Prelude
begin

text \<open>
  The streaming zip writer, \<open>web/src/zip.mjs\<close>: CRC-32 by table, little-endian integers, one local
  header, data and descriptor per file, then the central directory, with zip64 records when a file
  or an offset passes 4 GB. A writer is the bytes it has handed to its sink, its running offset and
  the entries it will list. The sink accepts what it is given; the clock of an entry is an argument.
\<close>

subsection \<open>CRC-32\<close>

definition crcBit :: "u32 \<Rightarrow> u32" where
  "crcBit c = (if c AND 1 \<noteq> 0 then 0xedb88320 XOR drop_bit 1 c else drop_bit 1 c)"

definition CRC_TABLE :: "u32 \<Rightarrow> u32" where
  "CRC_TABLE n = (crcBit ^^ 8) n"

definition crcByte :: "byte \<Rightarrow> u32 \<Rightarrow> u32" where
  "crcByte b c = CRC_TABLE ((c XOR ucast b) AND 0xff) XOR drop_bit 8 c"

definition crc32 :: "u32 \<Rightarrow> bytes \<Rightarrow> u32" where
  "crc32 crc bs = NOT (fold crcByte bs (NOT crc))"

subsection \<open>The writer\<close>

definition LIMIT32 :: nat where "LIMIT32 = 0xffffffff"

definition u16 :: "nat \<Rightarrow> bytes" where
  "u16 v = [of_nat v, of_nat (v div 256)]"

definition u32 :: "nat \<Rightarrow> bytes" where
  "u32 v = [of_nat v, of_nat (v div 256), of_nat (v div 65536), of_nat (v div 16777216)]"

definition u64 :: "nat \<Rightarrow> bytes" where
  "u64 v = u32 (v mod 2 ^ 32) @ u32 (v div 2 ^ 32)"

record date =
  d_year :: nat
  d_month :: nat
  d_day :: nat
  d_hours :: nat
  d_minutes :: nat
  d_seconds :: nat

definition dosTime :: "date \<Rightarrow> nat" where
  "dosTime d = (push_bit 11 (d_hours d) OR push_bit 5 (d_minutes d)) OR drop_bit 1 (d_seconds d)"

text \<open>\<open>d_month\<close> is \<open>getMonth()\<close>, which counts from 0.\<close>

definition dosDate :: "date \<Rightarrow> nat" where
  "dosDate d = (push_bit 9 (max 1980 (d_year d) - 1980) OR push_bit 5 (d_month d + 1)) OR d_day d"

record zipEntry =
  z_nameBytes :: bytes
  z_size :: nat
  z_crc :: "32 word"
  z_start :: nat
  z_time :: nat
  z_date :: nat
  z_zip64 :: bool

record zipWriter =
  w_out :: bytes
  w_offset :: nat
  w_entries :: "zipEntry list"

definition newWriter :: zipWriter where
  "newWriter = \<lparr>w_out = [], w_offset = 0, w_entries = []\<rparr>"

definition put :: "bytes \<Rightarrow> zipWriter \<Rightarrow> zipWriter" where
  "put bs w = w\<lparr>w_out := w_out w @ bs, w_offset := w_offset w + length bs\<rparr>"

definition localExtra :: "nat \<Rightarrow> bytes" where
  "localExtra sz = (if sz \<ge> LIMIT32 then u16 0x0001 @ u16 16 @ u64 sz @ u64 sz else [])"

definition localHeader :: "bytes \<Rightarrow> nat \<Rightarrow> date \<Rightarrow> bytes" where
  "localHeader nameBytes sz d = (let zip64 = sz \<ge> LIMIT32; extra = localExtra sz in
     u32 0x04034b50 @ u16 (if zip64 then 45 else 20) @ u16 0x0808 @ u16 0 @ u16 (dosTime d) @ u16 (dosDate d)
     @ u32 0 @ u32 (if zip64 then LIMIT32 else 0) @ u32 (if zip64 then LIMIT32 else 0)
     @ u16 (length nameBytes) @ u16 (length extra) @ nameBytes @ extra)"

definition descriptor :: "nat \<Rightarrow> 32 word \<Rightarrow> bytes" where
  "descriptor sz crc = u32 0x08074b50 @ u32 (unat crc)
     @ (if sz \<ge> LIMIT32 then u64 sz @ u64 sz else u32 sz @ u32 sz)"

text \<open>The loop over the stream: the running CRC and cnt, and every chunk written as it arrives.\<close>

definition takeChunk :: "bytes \<Rightarrow> 32 word \<times> nat \<times> zipWriter \<Rightarrow> 32 word \<times> nat \<times> zipWriter" where
  "takeChunk chunk st = (case st of (crc, written, w) \<Rightarrow> (crc32 crc chunk, written + length chunk, put chunk w))"

definition wrongSize :: "string \<Rightarrow> nat \<Rightarrow> nat \<Rightarrow> js_error" where
  "wrongSize name sz written = Error (name @ '': expected '' @ decimal sz @ '' bytes, received '' @ decimal written)"

definition add :: "string \<Rightarrow> nat \<Rightarrow> bytes list \<Rightarrow> date \<Rightarrow> zipWriter \<Rightarrow> zipWriter result" where
  "add name sz stream d w =
     (let nameBytes = utf8 name; start = w_offset w;
          (crc, written, w1) = fold takeChunk stream (0, 0, put (localHeader nameBytes sz d) w)
      in if written \<noteq> sz then Inl (wrongSize name sz written)
         else let w2 = put (descriptor sz crc) w1
              in Inr (w2\<lparr>w_entries := w_entries w2 @ [\<lparr>z_nameBytes = nameBytes, z_size = sz, z_crc = crc, z_start = start,
                   z_time = dosTime d, z_date = dosDate d, z_zip64 = sz \<ge> LIMIT32\<rparr>]\<rparr>))"

definition centralExtra :: "zipEntry \<Rightarrow> bytes" where
  "centralExtra e = (let bigOffset = z_start e \<ge> LIMIT32 in
     if z_zip64 e \<or> bigOffset then u16 0x0001 @ u16 ((if z_zip64 e then 16 else 0) + (if bigOffset then 8 else 0))
       @ (if z_zip64 e then u64 (z_size e) @ u64 (z_size e) else []) @ (if bigOffset then u64 (z_start e) else [])
     else [])"

definition centralRecord :: "zipEntry \<Rightarrow> bytes" where
  "centralRecord e = (let bigOffset = z_start e \<ge> LIMIT32; needs64 = z_zip64 e \<or> bigOffset; extra = centralExtra e in
     u32 0x02014b50 @ u16 45 @ u16 (if needs64 then 45 else 20) @ u16 0x0808 @ u16 0 @ u16 (z_time e) @ u16 (z_date e)
     @ u32 (unat (z_crc e)) @ u32 (if z_zip64 e then LIMIT32 else z_size e) @ u32 (if z_zip64 e then LIMIT32 else z_size e)
     @ u16 (length (z_nameBytes e)) @ u16 (length extra)
     @ u16 0 @ u16 0 @ u16 0 @ u32 0 @ u32 (if bigOffset then LIMIT32 else z_start e) @ z_nameBytes e @ extra)"

definition eocd64 :: "nat \<Rightarrow> nat \<Rightarrow> nat \<Rightarrow> bytes" where
  "eocd64 cnt directorySize directoryStart = u32 0x06064b50 @ u64 44 @ u16 45 @ u16 45 @ u32 0 @ u32 0
     @ u64 cnt @ u64 cnt @ u64 directorySize @ u64 directoryStart"

definition locator64 :: "nat \<Rightarrow> bytes" where
  "locator64 at = u32 0x07064b50 @ u32 0 @ u64 at @ u32 1"

definition eocd :: "nat \<Rightarrow> nat \<Rightarrow> nat \<Rightarrow> bytes" where
  "eocd cnt directorySize directoryStart = u32 0x06054b50 @ u16 0 @ u16 0 @ u16 (min cnt 0xffff) @ u16 (min cnt 0xffff)
     @ u32 (min directorySize LIMIT32) @ u32 (min directoryStart LIMIT32) @ u16 0"

definition finish :: "zipWriter \<Rightarrow> zipWriter" where
  "finish w =
     (let directoryStart = w_offset w;
          w1 = fold (\<lambda>e w. put (centralRecord e) w) (w_entries w) w;
          directorySize = w_offset w1 - directoryStart; cnt = length (w_entries w);
          w2 = if cnt \<ge> 0xffff \<or> directoryStart \<ge> LIMIT32 \<or> directorySize \<ge> LIMIT32 \<or> list_ex z_zip64 (w_entries w)
               then put (locator64 (w_offset w1)) (put (eocd64 cnt directorySize directoryStart) w1) else w1
      in put (eocd cnt directorySize directoryStart) w2)"

text \<open>The size announced before the first byte.\<close>

definition sizeStep :: "nat \<times> nat \<times> bool \<Rightarrow> string \<times> nat \<Rightarrow> nat \<times> nat \<times> bool" where
  "sizeStep st e = (case st of (offset, directory, any64) \<Rightarrow> case e of (ename, sz) \<Rightarrow>
     let name = length (utf8 ename); zip64 = sz \<ge> LIMIT32; bigOffset = offset \<ge> LIMIT32
     in (offset + 30 + name + (if zip64 then 20 else 0) + sz + (if zip64 then 24 else 16),
         directory + 46 + name + (if zip64 \<or> bigOffset then 4 + (if zip64 then 16 else 0) + (if bigOffset then 8 else 0) else 0),
         any64 \<or> zip64))"

definition sizeOf :: "(string \<times> nat) list \<Rightarrow> nat" where
  "sizeOf entries = (case foldl sizeStep (0, 0, False) entries of (offset, directory, any64) \<Rightarrow>
     let needs64 = length entries \<ge> 0xffff \<or> offset \<ge> LIMIT32 \<or> directory \<ge> LIMIT32 \<or> any64
     in offset + directory + (if needs64 then 56 + 20 else 0) + 22)"

text \<open>One archive: the files in turn, each a name, a size, the chunks that arrive and the clock.\<close>

type_synonym input = "string \<times> nat \<times> bytes list \<times> date"

fun addAll :: "input list \<Rightarrow> zipWriter \<Rightarrow> zipWriter result" where
  "addAll [] w = Inr w"
| "addAll ((name, sz, stream, d) # es) w = andThen (add name sz stream d w) (addAll es)"

subsection \<open>The checksum\<close>

text \<open>CRC-32 as a shift register: one bit of input at a time, least significant first.\<close>

definition serialBit :: "32 word \<Rightarrow> bool \<Rightarrow> 32 word" where
  "serialBit c b = (if bit c 0 \<noteq> b then 0xedb88320 XOR drop_bit 1 c else drop_bit 1 c)"

definition serialCrc :: "bytes \<Rightarrow> 32 word" where
  "serialCrc bs = NOT (foldl serialBit (NOT 0) (concat (map (\<lambda>b. map (bit b) [0..<8]) bs)))"

lemma and1: "(c AND 1 \<noteq> 0) = bit (c :: 32 word) 0"
  by (simp add: and_one_eq odd_iff_mod_2_eq_one bit_0)

lemma crcBit_xor: "crcBit (x XOR y) = crcBit x XOR crcBit y"
  by (rule bit_word_eqI) (auto simp: crcBit_def and1 bit_simps)

lemma crcBits_xor: "(crcBit ^^ n) (x XOR y) = (crcBit ^^ n) x XOR (crcBit ^^ n) y"
  by (induction n) (simp_all add: crcBit_xor)

lemma crcBits_shift: "\<forall>i < n. \<not> bit x i \<Longrightarrow> (crcBit ^^ n) x = drop_bit n x"
proof (induction n arbitrary: x)
  case (Suc n)
  then have "crcBit x = drop_bit 1 x" by (simp add: crcBit_def and1)
  moreover have "\<forall>i < n. \<not> bit (drop_bit 1 x) i" using Suc.prems by (simp add: bit_drop_bit_eq)
  ultimately show ?case using Suc.IH [of "drop_bit 1 x"] by (simp only: funpow_Suc_right comp_apply drop_bit_drop_bit) simp
qed simp

lemma and255: "v AND 255 = take_bit 8 (v :: 32 word)"
  by (simp add: take_bit_eq_mask mask_numeral)

text \<open>A table step is eight steps of the register on the byte.\<close>

lemma crcByte_bits: "crcByte b c = (crcBit ^^ 8) (c XOR ucast b)"
proof -
  let ?x = "c XOR ucast b" let ?hi = "c XOR take_bit 8 c"
  have "?x = take_bit 8 ?x XOR ?hi"
    by (rule bit_word_eqI) (auto simp: bit_simps dest: bit_imp_le_length)
  then have "(crcBit ^^ 8) ?x = (crcBit ^^ 8) (take_bit 8 ?x) XOR (crcBit ^^ 8) ?hi" by (metis crcBits_xor)
  also have "(crcBit ^^ 8) ?hi = drop_bit 8 ?hi" by (rule crcBits_shift) (simp add: bit_simps)
  also have "drop_bit 8 ?hi = drop_bit 8 c" by (rule bit_word_eqI) (simp add: bit_simps)
  finally show ?thesis by (simp add: crcByte_def CRC_TABLE_def and255)
qed

lemma serialBit_crcBit: "serialBit c b = crcBit (c XOR (if b then 1 else 0))"
  by (rule bit_word_eqI) (auto simp: serialBit_def crcBit_def and1 bit_simps)

lemma serial_steps:
  "k \<le> 8 \<Longrightarrow> foldl serialBit c (map (bit (b :: byte)) [0..<k]) = (crcBit ^^ k) (c XOR take_bit k (ucast b))"
proof (induction k)
  case (Suc k)
  let ?t = "\<lambda>k. take_bit k (ucast b :: 32 word)"
  have split: "?t (Suc k) = ?t k XOR (if bit b k then push_bit k 1 else 0)"
    using Suc.prems by (intro bit_word_eqI) (auto simp: bit_simps less_Suc_eq)
  have one: "(crcBit ^^ k) (push_bit k 1) = 1"
    using Suc.prems by (subst crcBits_shift) (auto simp: bit_simps intro!: bit_word_eqI)
  have "foldl serialBit c (map (bit b) [0..<Suc k]) = serialBit ((crcBit ^^ k) (c XOR ?t k)) (bit b k)"
    using Suc by simp
  also have "\<dots> = crcBit ((crcBit ^^ k) (c XOR ?t k) XOR (crcBit ^^ k) (if bit b k then push_bit k 1 else 0))"
    using one crcBits_shift [of k 0] by (simp add: serialBit_crcBit)
  also have "\<dots> = (crcBit ^^ Suc k) (c XOR ?t (Suc k))"
    by (simp add: split crcBits_xor [symmetric] xor.assoc)
  finally show ?case .
qed simp

lemma crcByte_serial: "foldl serialBit c (map (bit b) [0..<8]) = crcByte b c"
proof -
  have "take_bit 8 (ucast b :: 32 word) = ucast b" by (rule bit_word_eqI) (auto simp: bit_simps dest: bit_imp_le_length)
  then show ?thesis by (simp add: serial_steps crcByte_bits)
qed

lemma fold_crcByte_serial: "fold crcByte bs c = foldl serialBit c (concat (map (\<lambda>b. map (bit b) [0..<8]) bs))"
  by (induction bs arbitrary: c) (simp_all add: crcByte_serial del: upt_Suc upt_conv_Cons_Cons)

lemma crc32_append: "crc32 (crc32 c xs) ys = crc32 c (xs @ ys)"
  by (simp add: crc32_def)

text \<open>
  The table-driven CRC is the CRC: over the chunks of a stream, in whatever pieces they arrive,
  the running checksum is the bit-serial CRC-32 of the whole.
\<close>
theorem crc32_chunks: "foldl crc32 0 stream = serialCrc (concat stream)"
proof -
  have "foldl crc32 c stream = crc32 c (concat stream)" for c
    by (induction stream arbitrary: c) (simp_all add: crc32_append [symmetric] crc32_def)
  then show ?thesis by (simp add: crc32_def serialCrc_def fold_crcByte_serial)
qed

subsection \<open>The announced size\<close>

lemma length_ints [simp]: "length (u16 v) = 2" "length (u32 v) = 4" "length (u64 v) = 8"
  by (simp_all add: u16_def u32_def u64_def)

lemma put_simps [simp]:
  "w_out (put bs w) = w_out w @ bs" "w_offset (put bs w) = w_offset w + length bs" "w_entries (put bs w) = w_entries w"
  by (simp_all add: put_def)

lemma length_parts:
  "length (localHeader n sz d) = 30 + length n + (if sz \<ge> LIMIT32 then 20 else 0)"
  "length (descriptor sz crc) = (if sz \<ge> LIMIT32 then 24 else 16)"
  "length (centralRecord e) = 46 + length (z_nameBytes e) + (if z_zip64 e \<or> z_start e \<ge> LIMIT32
     then 4 + (if z_zip64 e then 16 else 0) + (if z_start e \<ge> LIMIT32 then 8 else 0) else 0)"
  "length (eocd64 a b c) = 56" "length (locator64 at) = 20" "length (eocd a b c) = 22"
  by (simp_all add: localHeader_def localExtra_def descriptor_def centralRecord_def centralExtra_def
      eocd64_def locator64_def eocd_def Let_def)

lemma fold_takeChunk:
  "fold takeChunk stream (crc, n, w) =
     (foldl crc32 crc stream, n + length (concat stream),
      w\<lparr>w_out := w_out w @ concat stream, w_offset := w_offset w + length (concat stream)\<rparr>)"
  by (induction stream arbitrary: crc n w) (simp_all add: takeChunk_def put_def)

text \<open>What one successful \<open>add\<close> leaves.\<close>

definition entryOf :: "nat \<Rightarrow> input \<Rightarrow> zipEntry" where
  "entryOf start e = (case e of (name, sz, stream, d) \<Rightarrow> \<lparr>z_nameBytes = utf8 name, z_size = sz,
     z_crc = foldl crc32 0 stream, z_start = start, z_time = dosTime d, z_date = dosDate d, z_zip64 = sz \<ge> LIMIT32\<rparr>)"

definition bytesOf :: "input \<Rightarrow> bytes" where
  "bytesOf e = (case e of (name, sz, stream, d) \<Rightarrow>
     localHeader (utf8 name) sz d @ concat stream @ descriptor sz (foldl crc32 0 stream))"

definition exact :: "input \<Rightarrow> bool" where
  "exact e = (case e of (name, sz, stream, d) \<Rightarrow> length (concat stream) = sz)"

lemma add_eq:
  "add name sz stream d w = (if length (concat stream) = sz
     then Inr \<lparr>w_out = w_out w @ bytesOf (name, sz, stream, d), w_offset = w_offset w + length (bytesOf (name, sz, stream, d)),
       w_entries = w_entries w @ [entryOf (w_offset w) (name, sz, stream, d)]\<rparr>
     else Inl (wrongSize name sz (length (concat stream))))"
  by (simp add: add_def Let_def fold_takeChunk bytesOf_def entryOf_def put_def)

lemma fold_put: "fold (\<lambda>e w. put (f e) w) es w =
   w\<lparr>w_out := w_out w @ concat (map f es), w_offset := w_offset w + length (concat (map f es))\<rparr>"
  by (induction es arbitrary: w) (simp_all add: put_def)

definition tally :: "zipWriter \<Rightarrow> nat \<times> nat \<times> bool" where
  "tally w = (w_offset w, length (concat (map centralRecord (w_entries w))), list_ex z_zip64 (w_entries w))"

lemma addAll_tally:
  "addAll es w = Inr w' \<Longrightarrow> w_offset w = length (w_out w) \<Longrightarrow>
   w_offset w' = length (w_out w') \<and> length (w_entries w') = length (w_entries w) + length es \<and>
   tally w' = foldl sizeStep (tally w) (map (\<lambda>(n, s, _). (n, s)) es)"
proof (induction es arbitrary: w)
  case (Cons e es)
  obtain name sz stream d where e: "e = (name, sz, stream, d)" by (cases e)
  define w1 where "w1 = \<lparr>w_out = w_out w @ bytesOf e, w_offset = w_offset w + length (bytesOf e),
    w_entries = w_entries w @ [entryOf (w_offset w) e]\<rparr>"
  have x: "length (concat stream) = sz" and r: "addAll es w1 = Inr w'"
    using Cons.prems(1) by (auto simp: e add_eq andThen_Inr_iff w1_def split: if_splits)
  have "tally w1 = sizeStep (tally w) (name, sz)"
    using x by (simp add: tally_def w1_def sizeStep_def Let_def e bytesOf_def entryOf_def length_parts)
  with Cons.IH [OF r] Cons.prems(2) show ?case by (simp add: w1_def e)
qed simp

lemma finish_length:
  assumes "w_offset w = length (w_out w)"
  shows "length (w_out (finish w)) = (case tally w of (offset, directory, any64) \<Rightarrow>
     offset + directory + (if length (w_entries w) \<ge> 0xffff \<or> offset \<ge> LIMIT32 \<or> directory \<ge> LIMIT32 \<or> any64 then 56 + 20 else 0) + 22)"
  using assms by (simp add: finish_def Let_def fold_put tally_def length_parts)

lemma archive_length:
  assumes "addAll es newWriter = Inr w"
  shows "length (w_out (finish w)) = sizeOf (map (\<lambda>(n, s, _). (n, s)) es)"
proof -
  have "w_offset newWriter = length (w_out newWriter)" "tally newWriter = (0, 0, False)"
    by (simp_all add: newWriter_def tally_def)
  with addAll_tally [OF assms] have "w_offset w = length (w_out w)" "length (w_entries w) = length es"
    and t: "tally w = foldl sizeStep (0, 0, False) (map (\<lambda>(n, s, _). (n, s)) es)"
    by (simp_all add: newWriter_def)
  then show ?thesis unfolding finish_length [OF \<open>w_offset w = length (w_out w)\<close>] t sizeOf_def
    by (simp add: Let_def split: prod.splits)
qed

text \<open>
  The size a download declares before its first byte is the size it sends: when every file
  arrives, the archive written by \<open>add\<close> for each file and then \<open>finish\<close> is exactly \<open>sizeOf\<close> of the
  names and sizes long, with and without zip64 records.
\<close>
theorem sizeOf_exact:
  assumes "addAll es newWriter = Inr w"
  shows "length (w_out (finish w)) = sizeOf (map (\<lambda>(n, s, _). (n, s)) es)"
  using assms by (rule archive_length)

lemma addAll_Inr_iff: "(\<exists>w'. addAll es w = Inr w') \<longleftrightarrow> list_all exact es"
  by (induction es arbitrary: w) (auto simp: add_eq exact_def andThen_Inr_iff split: if_splits, metis)

definition someDay :: date where
  "someDay = \<lparr>d_year = 2025, d_month = 10, d_day = 18, d_hours = 9, d_minutes = 30, d_seconds = 12\<rparr>"

theorem sizeOf_exact_witness:
  "\<exists>w. addAll [(''a'', 3, [[1, 2], [3]], someDay), (''b'', 0, [], someDay)] newWriter = Inr w \<and> length (w_out (finish w)) = 213"
proof -
  have "list_all exact [(''a'', 3, [[1, 2], [3]], someDay), (''b'', 0, [], someDay)]" by (simp add: exact_def)
  then obtain w where w: "addAll [(''a'', 3, [[1, 2], [3]], someDay), (''b'', 0, [], someDay)] newWriter = Inr w"
    using addAll_Inr_iff by blast
  have "sizeOf [(''a'', 3), (''b'', 0)] = 213"
    by (simp add: sizeOf_def sizeStep_def LIMIT32_def utf8_def utf8_char_def Let_def)
  with sizeOf_exact [OF w] w show ?thesis by simp
qed

text \<open>
  A file of the wrong length never becomes an entry: the archive is accepted exactly when every
  stream delivers the size declared for it, and the first that does not stops it with an error that
  names the file and both sizes.
\<close>
theorem add_checks_size:
  "add name sz stream d w = Inl (wrongSize name sz (length (concat stream))) \<longleftrightarrow> length (concat stream) \<noteq> sz"
  by (simp add: add_eq)

end
