(* ===== verification/Unzip.thy ===== *)
theory Unzip
  imports Zip
begin

text \<open>
  An independent reader of zip archives, as an unpacker goes about it: the end record, the zip64 records where a field
  is full, the central directory record by record, and each file at the place its record names, with its checksum
  compared. What the streaming writer writes reads back as the files that were added.
\<close>

subsection \<open>The reader\<close>

definition num :: "bytes \<Rightarrow> nat" where
  "num bs = foldr (\<lambda>b n. unat b + 256 * n) bs 0"

definition field :: "nat \<Rightarrow> bytes \<Rightarrow> nat" where
  "field k s = num (take k s)"

text \<open>One file: its record in the directory is at the beginning of \<open>s\<close>, its header and bytes are elsewhere in \<open>bs\<close>.\<close>

definition entryAt :: "bytes \<Rightarrow> bytes \<Rightarrow> (bytes \<times> bytes) option" where
  "entryAt bs s = (let nl = field 2 (drop 28 s); size4 = field 4 (drop 24 s); at4 = field 4 (drop 42 s); x = drop (50 + nl) s;
       sz = (if size4 = 0xffffffff then field 8 x else size4);
       at = (if at4 = 0xffffffff then field 8 (if size4 = 0xffffffff then drop 16 x else x) else at4);
       l = drop at bs; ll = field 2 (drop 26 l); content = take sz (drop (30 + ll + field 2 (drop 28 l)) l) in
     if field 4 s = 0x02014b50 \<and> field 2 (drop 10 s) = 0 \<and> field 4 l = 0x04034b50 \<and> take ll (drop 30 l) = take nl (drop 46 s)
       \<and> length content = sz \<and> field 4 (drop 16 s) = unat (serialCrc content)
     then Some (take nl (drop 46 s), content) else None)"

definition skipRecord :: "bytes \<Rightarrow> bytes" where
  "skipRecord s = drop (46 + field 2 (drop 28 s) + field 2 (drop 30 s) + field 2 (drop 32 s)) s"

primrec entriesAt :: "bytes \<Rightarrow> nat \<Rightarrow> bytes \<Rightarrow> (bytes \<times> bytes) list option" where
  "entriesAt bs 0 s = Some []"
| "entriesAt bs (Suc n) s = (case entryAt bs s of None \<Rightarrow> None | Some e \<Rightarrow> map_option ((#) e) (entriesAt bs n (skipRecord s)))"

definition unzip :: "bytes \<Rightarrow> (bytes \<times> bytes) list option" where
  "unzip bs = (let e = drop (length bs - 22) bs; n = field 2 (drop 10 e); start = field 4 (drop 16 e);
       l = drop (length bs - 42) bs; z = drop (field 8 (drop 8 l)) bs in
     if field 4 e \<noteq> 0x06054b50 then None
     else if n = 0xffff \<or> field 4 (drop 12 e) = 0xffffffff \<or> start = 0xffffffff
     then (if field 4 l = 0x07064b50 \<and> field 4 z = 0x06064b50 then entriesAt bs (field 8 (drop 32 z)) (drop (field 8 (drop 48 z)) bs) else None)
     else entriesAt bs n (drop start bs))"

subsection \<open>Integers read back\<close>

lemma num_Nil [simp]: "num [] = 0"
  by (simp add: num_def)

lemma num_Cons [simp]: "num (b # bs) = unat b + 256 * num bs"
  by (simp add: num_def)

lemma unat_byte: "unat (of_nat v :: byte) = v mod 256"
  by (simp add: unat_of_nat)

lemma num_u16: "v < 2 ^ 16 \<Longrightarrow> num (u16 v) = v"
  by (simp add: u16_def unat_byte)

lemma num_u32: "v < 2 ^ 32 \<Longrightarrow> num (u32 v) = v"
proof -
  assume v: "v < 2 ^ 32"
  have d: "v div 65536 = v div 256 div 256" "v div 16777216 = v div 256 div 256 div 256" by (simp_all add: div_mult2_eq [symmetric])
  have l: "v div 256 div 256 div 256 < 256" using v by (simp add: div_mult2_eq [symmetric] less_mult_imp_div_less)
  have m: "x mod 256 + 256 * (x div 256) = x" for x :: nat by simp
  have "num (u32 v) = v mod 256 + 256 * (v div 256 mod 256 + 256 * (v div 256 div 256 mod 256 + 256 * (v div 256 div 256 div 256 mod 256)))"
    by (simp only: u32_def num_Cons num_Nil unat_byte d mult_0_right add_0_right)
  also have "\<dots> = v" using l by (simp only: mod_less m)
  finally show ?thesis .
qed

lemma num_append: "num (xs @ ys) = num xs + 256 ^ length xs * num ys"
  by (induction xs) (simp_all add: algebra_simps)

lemma num_u64: "v < 2 ^ 64 \<Longrightarrow> num (u64 v) = v"
proof -
  assume v: "v < 2 ^ 64"
  have "num (u64 v) = v mod 2 ^ 32 + 256 ^ 4 * (v div 2 ^ 32)"
    unfolding u64_def num_append using v by (simp add: num_u32 less_mult_imp_div_less)
  also have "\<dots> = v" using mod_mult_div_eq [of v "2 ^ 32"] by simp
  finally show ?thesis .
qed

lemma field_ints [simp]:
  "v < 2 ^ 16 \<Longrightarrow> field 2 (u16 v @ r) = v" "v < 2 ^ 32 \<Longrightarrow> field 4 (u32 v @ r) = v" "v < 2 ^ 64 \<Longrightarrow> field 8 (u64 v @ r) = v"
  by (simp_all add: field_def num_u16 num_u32 num_u64)

subsection \<open>One file\<close>

definition contentOf :: "input \<Rightarrow> bytes \<times> bytes" where
  "contentOf e = (case e of (name, sz, stream, d) \<Rightarrow> (utf8 name, concat stream))"

definition shortName :: "input \<Rightarrow> bool" where
  "shortName e = (length (utf8 (fst e)) < 2 ^ 16)"

lemma skip_written:
  assumes "length (z_nameBytes e) < 2 ^ 16"
  shows "skipRecord (centralRecord e @ r) = r"
proof -
  have x: "length (centralExtra e) < 2 ^ 16" by (simp add: centralExtra_def Let_def)
  have f: "field 2 (drop 28 (centralRecord e @ r)) = length (z_nameBytes e)" "field 2 (drop 30 (centralRecord e @ r)) = length (centralExtra e)"
    "field 2 (drop 32 (centralRecord e @ r)) = 0"
    using assms x by (simp_all add: centralRecord_def Let_def)
  have "46 + length (z_nameBytes e) + length (centralExtra e) = length (centralRecord e)"
    by (simp add: centralRecord_def Let_def)
  then show ?thesis unfolding skipRecord_def f by simp
qed

lemma entry_written:
  assumes "exact e" and "shortName e" and "bs = pre @ bytesOf e @ post" and "length bs < 2 ^ 64"
  shows "entryAt bs (centralRecord (entryOf (length pre) e) @ r) = Some (contentOf e)"
proof -
  obtain name sz stream d where e: "e = (name, sz, stream, d)" by (cases e)
  let ?z = "entryOf (length pre) e" and ?n = "utf8 name" and ?c = "concat stream"
  let ?s = "centralRecord ?z @ r"
  define post' where "post' = descriptor sz (foldl crc32 0 stream) @ post"
  have ex: "length ?c = sz" and sn: "length ?n < 2 ^ 16" using assms(1,2) by (simp_all add: e exact_def shortName_def)
  have bs: "bs = pre @ localHeader ?n sz d @ ?c @ post'" using assms(3) by (simp add: e bytesOf_def post'_def)
  then have small: "sz < 2 ^ 64" "length pre < 2 ^ 64" using assms(4) ex by auto
  have z: "z_nameBytes ?z = ?n" "z_size ?z = sz" "z_start ?z = length pre" "z_crc ?z = serialCrc ?c" "z_zip64 ?z \<longleftrightarrow> LIMIT32 \<le> sz"
    by (simp_all add: entryOf_def e crc32_chunks)
  have x: "length (centralExtra ?z) < 2 ^ 16" by (simp add: centralExtra_def Let_def)
  have crc: "unat (z_crc ?z) < 2 ^ 32" using unsigned_less [of "z_crc ?z"] by simp
  have nl: "field 2 (drop 28 ?s) = length ?n" and sig: "field 4 ?s = 0x02014b50" and st: "field 2 (drop 10 ?s) = 0"
    and cr: "field 4 (drop 16 ?s) = unat (serialCrc ?c)"
    using sn x crc by (simp_all add: centralRecord_def Let_def z)
  have s4: "field 4 (drop 24 ?s) = min sz LIMIT32" by (simp add: centralRecord_def Let_def z min_def LIMIT32_def)
  have a4: "field 4 (drop 42 ?s) = min (length pre) LIMIT32" by (simp add: centralRecord_def Let_def z min_def LIMIT32_def)
  have nm: "take (length ?n) (drop 46 ?s) = ?n" by (simp add: centralRecord_def Let_def z)
  have x8: "drop (50 + length ?n) ?s = drop 4 (centralExtra ?z @ r)" by (simp add: centralRecord_def Let_def z)
  have cx: "centralExtra ?z = (if LIMIT32 \<le> sz \<or> LIMIT32 \<le> length pre then u16 1 @ u16 ((if LIMIT32 \<le> sz then 16 else 0) + (if LIMIT32 \<le> length pre then 8 else 0))
      @ (if LIMIT32 \<le> sz then u64 sz @ u64 sz else []) @ (if LIMIT32 \<le> length pre then u64 (length pre) else []) else [])"
    unfolding centralExtra_def z Let_def by simp
  have szf: "(if min sz LIMIT32 = 0xffffffff then field 8 (drop (50 + length ?n) ?s) else min sz LIMIT32) = sz"
    unfolding x8 cx using small by (auto simp: LIMIT32_def min_def)
  have atf: "(if min (length pre) LIMIT32 = 0xffffffff then field 8 (if min sz LIMIT32 = 0xffffffff then drop 16 (drop (50 + length ?n) ?s)
      else drop (50 + length ?n) ?s) else min (length pre) LIMIT32) = length pre"
    unfolding x8 cx using small by (auto simp: LIMIT32_def min_def)
  let ?l = "localHeader ?n sz d @ ?c @ post'"
  have xl: "length (localExtra sz) < 2 ^ 16" by (simp add: localExtra_def)
  have ll: "field 2 (drop 26 ?l) = length ?n" "field 2 (drop 28 ?l) = length (localExtra sz)" "field 4 ?l = 0x04034b50"
    "take (length ?n) (drop 30 ?l) = ?n"
    using sn xl by (simp_all add: localHeader_def Let_def)
  have "length (localHeader ?n sz d) = 30 + length ?n + length (localExtra sz)" by (simp add: localHeader_def Let_def)
  then have dc: "take sz (drop (30 + length ?n + length (localExtra sz)) ?l) = ?c" using ex by simp
  have dp: "drop (length pre) bs = ?l" by (simp add: bs)
  show ?thesis
    unfolding entryAt_def Let_def nl s4 a4 szf atf dp ll dc using sig st cr nm ex by (simp add: contentOf_def e)
qed

fun entriesFrom :: "nat \<Rightarrow> input list \<Rightarrow> zipEntry list" where
  "entriesFrom p [] = []"
| "entriesFrom p (e # es) = entryOf p e # entriesFrom (p + length (bytesOf e)) es"

lemma entries_written:
  "list_all exact es \<Longrightarrow> list_all shortName es \<Longrightarrow> bs = pre @ concat (map bytesOf es) @ post \<Longrightarrow> length bs < 2 ^ 64
    \<Longrightarrow> entriesAt bs (length es) (concat (map centralRecord (entriesFrom (length pre) es)) @ r) = Some (map contentOf es)"
proof (induction es arbitrary: pre)
  case (Cons e es)
  let ?rest = "concat (map centralRecord (entriesFrom (length pre + length (bytesOf e)) es)) @ r"
  have "entryAt bs (centralRecord (entryOf (length pre) e) @ ?rest) = Some (contentOf e)"
    by (rule entry_written [where post = "concat (map bytesOf es) @ post"]) (use Cons.prems in auto)
  moreover have "length (z_nameBytes (entryOf (length pre) e)) < 2 ^ 16"
    using Cons.prems(2) by (cases e) (simp add: entryOf_def shortName_def)
  then have "skipRecord (centralRecord (entryOf (length pre) e) @ ?rest) = ?rest" by (rule skip_written)
  moreover have "entriesAt bs (length es) ?rest = Some (map contentOf es)"
    using Cons.IH [of "pre @ bytesOf e"] Cons.prems by simp
  ultimately show ?case by simp
qed simp

subsection \<open>The archive\<close>

lemma addAll_writes:
  "addAll es w = Inr w' \<Longrightarrow> list_all exact es \<and> w_out w' = w_out w @ concat (map bytesOf es) \<and> w_offset w' = w_offset w + length (concat (map bytesOf es))
     \<and> w_entries w' = w_entries w @ entriesFrom (w_offset w) es"
proof (induction es arbitrary: w)
  case (Cons e es)
  obtain name sz stream d where e: "e = (name, sz, stream, d)" by (cases e)
  from Cons.prems show ?case
    by (auto simp: e add_eq exact_def andThen_Inr_iff split: if_splits dest!: Cons.IH)
qed simp

lemma length_entriesFrom [simp]: "length (entriesFrom p es) = length es"
  by (induction p es rule: entriesFrom.induct) simp_all

text \<open>What the writer writes is an archive: the reader finds the files that were added, in order, with the bytes that came.\<close>

lemma unzip_written:
  assumes "addAll es newWriter = Inr w" and "list_all shortName es" and "length (w_out (finish w)) < 2 ^ 64"
  shows "unzip (w_out (finish w)) = Some (map contentOf es)"
proof -
  let ?A = "concat (map bytesOf es)" and ?C = "concat (map centralRecord (entriesFrom 0 es))" and ?n = "length es"
  let ?full = "?n \<ge> 0xffff \<or> length ?A \<ge> LIMIT32 \<or> length ?C \<ge> LIMIT32 \<or> list_ex z_zip64 (entriesFrom 0 es)"
  let ?z = "eocd64 ?n (length ?C) (length ?A)" and ?l = "locator64 (length (?A @ ?C))" and ?e = "eocd ?n (length ?C) (length ?A)"
  let ?E = "(if ?full then ?z @ ?l else []) @ ?e"
  have w: "list_all exact es" "w_out w = ?A" "w_offset w = length ?A" "w_entries w = entriesFrom 0 es"
    using addAll_writes [OF assms(1)] by (simp_all add: newWriter_def)
  define bs where "bs = w_out (finish w)"
  have bs: "bs = ?A @ ?C @ ?E"
    unfolding bs_def finish_def Let_def fold_put using w by simp
  have big: "length bs < 2 ^ 64" using assms(3) by (simp add: bs_def)
  have entries: "entriesAt bs ?n (?C @ ?E) = Some (map contentOf es)"
    using entries_written [OF w(1) assms(2), of bs "[]" "?C @ ?E" "?E"] big bs by simp
  have "length (entriesFrom 0 es) \<le> length ?C"
    using sum_list_mono [of "entriesFrom 0 es" "\<lambda>_. 1" "\<lambda>e. length (centralRecord e)"]
    by (simp add: length_concat o_def length_parts sum_list_triv)
  then have small: "?n < 2 ^ 64" "length ?A < 2 ^ 64" "length ?C < 2 ^ 64" "length (?A @ ?C) < 2 ^ 64" using big bs by auto
  have e: "drop (length bs - 22) bs = ?e" using bs by (simp add: length_parts)
  have fe: "field 4 ?e = 0x06054b50" "field 2 (drop 10 ?e) = min ?n 0xffff" "field 4 (drop 12 ?e) = min (length ?C) LIMIT32"
    "field 4 (drop 16 ?e) = min (length ?A) LIMIT32"
    by (simp_all add: eocd_def LIMIT32_def)
  show ?thesis
  proof (cases "?n \<ge> 0xffff \<or> length ?C \<ge> LIMIT32 \<or> length ?A \<ge> LIMIT32")
    case True
    then have full: "?full" by blast
    have b: "bs = ?A @ ?C @ ?z @ ?l @ ?e" using bs full by simp
    have l: "drop (length bs - 42) bs = ?l @ ?e" unfolding b by (simp add: length_parts)
    have fl: "field 4 (?l @ ?e) = 0x07064b50" "field 8 (drop 8 (?l @ ?e)) = length (?A @ ?C)"
      using small(4) by (simp_all add: locator64_def)
    have z: "drop (length (?A @ ?C)) bs = ?z @ ?l @ ?e" unfolding b by simp
    have fz: "field 4 (?z @ ?l @ ?e) = 0x06064b50" "field 8 (drop 32 (?z @ ?l @ ?e)) = ?n" "field 8 (drop 48 (?z @ ?l @ ?e)) = length ?A"
      using small by (simp_all add: eocd64_def)
    have s: "drop (length ?A) bs = ?C @ ?E" unfolding bs by simp
    have c: "min ?n 0xffff = 0xffff \<or> min (length ?C) LIMIT32 = 0xffffffff \<or> min (length ?A) LIMIT32 = 0xffffffff"
      using True by (auto simp: LIMIT32_def min_def)
    show ?thesis
      unfolding bs_def [symmetric] unfolding unzip_def Let_def e fe l fl z fz s if_P [OF c] entries by simp
  next
    case False
    then have c: "\<not> (min ?n 0xffff = 0xffff \<or> min (length ?C) LIMIT32 = 0xffffffff \<or> min (length ?A) LIMIT32 = 0xffffffff)"
      and m: "min ?n 0xffff = ?n" "min (length ?A) LIMIT32 = length ?A"
      by (auto simp: LIMIT32_def min_def)
    have s: "drop (length ?A) bs = ?C @ ?E" unfolding bs by simp
    show ?thesis
      unfolding bs_def [symmetric] unfolding unzip_def Let_def e fe if_not_P [OF c] unfolding m s entries by simp
  qed
qed

end
