(* ===== verification/ZipSw.thy ===== *)
theory ZipSw
  imports Verified Unzip Doc "HOL-Library.Char_ord"
begin

text \<open>
  The service worker, \<open>web/src/zip-sw.js\<close>: the check of every same-origin fetch whose bytes have a
  name, and the zip that is assembled while it streams. A request is its method, whether it has a
  Range, and the path of its URL below the worker's scope. The network is a parameter: what a fetch of
  the tree, of the request, or of a file's URL answers. A download is modelled when nobody cancels it;
  pacing and progress reports are left out.
\<close>

definition HOLD :: nat where "HOLD = 64 * 1024"

subsection \<open>Which name has a request\<close>

text \<open>\<open>NAMED\<close>: the path ends in a blob or an object named by its hash.\<close>

definition namedOf :: "string \<Rightarrow> string option" where
  "namedOf path = (let h = drop (length path - 64) path; before = take (length path - 64) path in
     if isHex64 h \<and> (endsWith before ''/blobs/sha256:'' \<or> endsWith before ''/objects/sha256:'') then Some h else None)"

text \<open>\<open>RESOLVE\<close>: \<open>/org/name/resolve/rev/path\<close>, with its three groups.\<close>

definition resolveOf :: "string \<Rightarrow> (string \<times> string \<times> string) option" where
  "resolveOf path = (case splitAt (CHR ''/'') path of
     e # org # name # word # rv # rest \<Rightarrow>
       if e = [] \<and> org \<noteq> [] \<and> name \<noteq> [] \<and> word = ''resolve'' \<and> rv \<noteq> [] \<and> join ''/'' rest \<noteq> []
       then Some (org @ ''/'' @ name, rv, join ''/'' rest) else None
   | _ \<Rightarrow> None)"

text \<open>
  The worker's memory of the trees it fetched: an answer that is no list, or a list with a null, on which the filter
  throws, counts as an empty tree, for good.
\<close>

type_synonym trees = "(string \<times> (string \<times> string) list) list"

definition treeFiles :: "json \<Rightarrow> (string \<times> string) list" where
  "treeFiles list = (case list of JArr es \<Rightarrow> if JNull \<in> set es then [] else [(p, oid). e \<leftarrow> es, getProp ''type'' e = Some (JStr ''file''),
       p \<leftarrow> (case getProp ''path'' e of Some (JStr p) \<Rightarrow> [p] | _ \<Rightarrow> []),
       oid \<leftarrow> (case getProp ''oid'' e of Some (JStr h) \<Rightarrow> [h] | _ \<Rightarrow> [[]])] | _ \<Rightarrow> [])"

definition treeOf :: "(string \<Rightarrow> string \<Rightarrow> json option) \<Rightarrow> string \<Rightarrow> string \<Rightarrow> trees \<Rightarrow> (string \<times> string) list \<times> trees" where
  "treeOf tree repo rv trees = (let key = repo @ ''@'' @ rv in case map_of trees key of
     Some t \<Rightarrow> (t, trees)
   | None \<Rightarrow> (let t = (case tree repo rv of Some list \<Rightarrow> treeFiles list | None \<Rightarrow> []) in (t, (key, t) # trees)))"

definition expectedFor :: "(string \<Rightarrow> string \<Rightarrow> json option) \<Rightarrow> nat \<Rightarrow> string \<Rightarrow> trees \<Rightarrow> string option result \<times> trees" where
  "expectedFor tree scope path trees = (case namedOf path of
     Some h \<Rightarrow> (Inr (Some h), trees)
   | None \<Rightarrow> (case resolveOf (drop (scope - 1) path) of
       None \<Rightarrow> (Inr None, trees)
     | Some (repo, rv, file) \<Rightarrow> if repo = ''api/models'' then (Inr None, trees) else
         (case treeOf tree repo rv trees of (t, trees') \<Rightarrow> (case decodeURIComponent file of
            None \<Rightarrow> (Inl (Error ''URI malformed''), trees')
          | Some p \<Rightarrow> (Inr (case map_of (rev t) p of Some oid \<Rightarrow> if isHex64 oid then Some oid else None | None \<Rightarrow> None), trees')))))"

subsection \<open>The check\<close>

record passing =
  k_hashed :: bytes
  k_held :: bytes

definition newPassing :: passing where
  "newPassing = \<lparr>k_hashed = [], k_held = []\<rparr>"

text \<open>\<open>transform\<close> and \<open>flush\<close>: what is enqueued, and the bytes kept back.\<close>

definition transform :: "passing \<Rightarrow> bytes \<Rightarrow> bytes \<times> passing" where
  "transform k chunk = (let all = k_held k @ chunk; hashed = k_hashed k @ chunk in
     if length all > HOLD then (take (length all - HOLD) all, \<lparr>k_hashed = hashed, k_held = drop (length all - HOLD) all\<rparr>)
     else ([], \<lparr>k_hashed = hashed, k_held = all\<rparr>))"

definition flush :: "string \<Rightarrow> passing \<Rightarrow> bytes option" where
  "flush want k = (if hex (sha256 (k_hashed k)) = want then Some (k_held k) else None)"

datatype passed =
    Passed nat "bytes list" "string option"
  | Refused nat string
  | Checked nat string bytes bool

text \<open>
  What the page gets: nothing to check (the answer as it came), a refusal, or a checked stream, with
  the bytes it enqueued and whether it was closed rather than put in error.
\<close>

definition checkStream :: "string \<Rightarrow> bytes list \<Rightarrow> string option \<Rightarrow> bytes \<times> bool" where
  "checkStream want cs ending =
     (let (sent, k) = foldl (\<lambda>(sent, k) c. case transform k c of (s, k') \<Rightarrow> (sent @ s, k')) ([], newPassing) cs in
      if ending \<noteq> None then (sent, False)
      else (case flush want k of Some rest \<Rightarrow> (sent @ rest, True) | None \<Rightarrow> (sent, False)))"

definition kappaCheck :: "(string \<Rightarrow> string \<Rightarrow> json option) \<Rightarrow> delivery \<Rightarrow> nat \<Rightarrow> string \<Rightarrow> bool \<Rightarrow> string \<Rightarrow> trees \<Rightarrow> passed option \<times> trees" where
  "kappaCheck tree got scope verb hasRange path trees =
     (if verb \<noteq> ''GET'' \<or> hasRange \<or> (namedOf path = None \<and> resolveOf (drop (scope - 1) path) = None) then (None, trees)
      else (case expectedFor tree scope path trees of
          (Inl (Error e), trees') \<Rightarrow> (Some (Refused 502 e), trees')
        | (Inl _, trees') \<Rightarrow> (Some (Refused 502 []), trees')
        | (Inr want, trees') \<Rightarrow> (case got of
            NoAnswer e \<Rightarrow> (Some (Refused 502 e), trees')
          | Status n \<Rightarrow> (Some (Passed n [] None), trees')
          | Stream cs ending \<Rightarrow> (case want of
              None \<Rightarrow> (Some (Passed 200 cs ending), trees')
            | Some w \<Rightarrow> (case checkStream w cs ending of (sent, ok) \<Rightarrow> (Some (Checked 200 w sent ok), trees'))))))"

subsection \<open>A stream that survives a dropped connection\<close>

text \<open>
  \<open>resilient\<close>: the attempts in order are four at each URL; a 403 or a 404 leaves the URL. An attempt
  fails, is answered without a body (which is tried again, whatever its status), or is answered: the status, the
  chunks, and how they ended.
\<close>

datatype attempt = Failed | NoBody nat | Answered nat "bytes list" "string option"

type_synonym attempts = "(nat \<times> nat) list"

definition attemptsOf :: "nat \<Rightarrow> attempts" where
  "attemptsOf n = concat (map (\<lambda>at. map (\<lambda>t. (at, t)) [0..<4]) [0..<n])"

text \<open>\<open>skipping\<close>: a source that ignored Range sends what was received again.\<close>

fun skipping :: "nat \<Rightarrow> bytes list \<Rightarrow> bytes list" where
  "skipping left [] = []"
| "skipping left (c # cs) = (if left = 0 then c # cs else if length c \<le> left then skipping (left - length c) cs else drop left c # cs)"

function connect :: "(nat \<Rightarrow> nat \<Rightarrow> nat \<Rightarrow> attempt) \<Rightarrow> nat \<Rightarrow> attempts \<Rightarrow> (nat \<times> attempts \<times> bytes list \<times> string option) option" where
  "connect get received [] = None"
| "connect get received ((at, t) # rest) = (case get at t received of
     Failed \<Rightarrow> connect get received rest
   | NoBody status \<Rightarrow> if status = 404 \<or> status = 403 then connect get received (dropWhile (\<lambda>(a, _). a = at) rest)
       else connect get received rest
   | Answered status cs ending \<Rightarrow>
       if 200 \<le> status \<and> status < 300 then Some (at, rest, if received > 0 \<and> status \<noteq> 206 then skipping received cs else cs, ending)
       else if status = 404 \<or> status = 403 then connect get received (dropWhile (\<lambda>(a, _). a = at) rest)
       else connect get received rest)"
  by pat_completeness auto
termination by (relation "measure (\<lambda>(get, received, as). length as)") (auto simp: le_imp_less_Suc length_dropWhile_le)

lemma connect_shorter: "connect get received as = Some (at, rest, cs, ending) \<Longrightarrow> length rest < length as"
proof (induction get received as rule: connect.induct)
  case (2 get received a t rest')
  then show ?case
    using length_dropWhile_le [of "\<lambda>(x, _). x = a" rest']
    by (auto split: attempt.splits if_splits)
qed simp

datatype drained = Closed nat | Errored

text \<open>The stream as the consumer reads it to its end: the chunks enqueued, and the index of the last source.\<close>

function drain :: "(nat \<Rightarrow> nat \<Rightarrow> nat \<Rightarrow> attempt) \<Rightarrow> nat \<Rightarrow> attempts \<Rightarrow> (bytes list \<times> string option) option \<Rightarrow> nat \<Rightarrow> nat \<Rightarrow> bytes list \<times> drained" where
  "drain get sz as None from received = (case connect get received as of
     None \<Rightarrow> ([], Errored)
   | Some (at, rest, cs, ending) \<Rightarrow> drain get sz rest (Some (cs, ending)) at received)"
| "drain get sz as (Some ([], ending)) from received =
     (if ending = None \<and> received \<ge> sz then ([], Closed from) else drain get sz as None from received)"
| "drain get sz as (Some (c # cs, ending)) from received =
     (if received + length c > sz then ([], Errored)
      else (case drain get sz as (Some (cs, ending)) from (received + length c) of (out, r) \<Rightarrow> (c # out, r)))"
  by pat_completeness auto
termination
  by (relation "measures [\<lambda>(get, sz, as, rd, from, received). length as,
      \<lambda>(get, sz, as, rd, from, received). case rd of None \<Rightarrow> 0 | Some (cs, e) \<Rightarrow> Suc (length cs)]")
    (auto dest: connect_shorter)

definition resilient :: "(nat \<Rightarrow> nat \<Rightarrow> nat \<Rightarrow> attempt) \<Rightarrow> nat \<Rightarrow> nat \<Rightarrow> bytes list \<times> drained" where
  "resilient get urls sz = drain get sz (attemptsOf urls) None 0 0"

subsection \<open>The zip of a model\<close>

definition SOURCE_ORDER :: "string list" where
  "SOURCE_ORDER = [''huggingface.co'', ''modelscope.cn'', ''ipfs'']"

record zfile =
  e_name :: string
  e_size :: nat
  e_address :: string
  e_urls :: "(string \<times> string) list"

definition zipSources :: "string \<Rightarrow> doc \<Rightarrow> source list" where
  "zipSources wanted d = sort_key (\<lambda>s. indexOf SOURCE_ORDER (src_kind s))
     (filter (\<lambda>s. \<not> src_p2p s \<and> \<not> src_pull s \<and> (wanted = ''auto'' \<or> src_kind s = wanted)) (doc_sources d))"

definition urlsOf :: "source list \<Rightarrow> row \<Rightarrow> (string \<times> string) list" where
  "urlsOf sources f = filter (\<lambda>u. snd u \<noteq> [])
     (map (\<lambda>s. (src_kind s, if src_kind s = ''huggingface.co'' then f_url f else resolveWith s (encodePath (f_path f))))
       (filter (\<lambda>s. f_path f \<notin> set (src_missing s)) sources))"

definition zipFiles :: "source list \<Rightarrow> doc \<Rightarrow> zfile list" where
  "zipFiles sources d = [\<lparr>e_name = f_path f, e_size = f_size f, e_address = f_address f, e_urls = urlsOf sources f\<rparr>.
     f \<leftarrow> doc_files d, urlsOf sources f \<noteq> []]"

definition sumsText :: "zfile list \<Rightarrow> bytes" where
  "sumsText files = utf8 (concat (map (\<lambda>e. digestOf (e_address e) @ ''  '' @ e_name e @ [CHR 0x0A]) files))"

text \<open>\<open>record()\<close>, with the index of the source that delivered each file.\<close>

definition recordText :: "string \<Rightarrow> doc \<Rightarrow> string \<Rightarrow> source list \<Rightarrow> zfile list \<Rightarrow> nat list \<Rightarrow> bytes" where
  "recordText repo d created sources files froms = utf8 (stringify (JObj
     [(''format'', JStr ''hologram.model-hub.zip/v1''), (''model'', JStr repo), (''revision'', JStr (doc_revision d)),
      (''manifest'', JStr (doc_manifest d)), (''created'', JStr created), (''sources'', JArr (map (\<lambda>s. JStr (src_kind s)) sources)),
      (''files'', JArr (map2 (\<lambda>e from. JArr [JStr (e_name e), JStr (e_address e), JNum (int from)]) files froms))]) @ [CHR 0x0A])"

text \<open>\<open>check\<close>.\<close>

definition servedWrong :: "zfile \<Rightarrow> nat \<Rightarrow> js_error" where
  "servedWrong e from = Error ((if from < length (e_urls e) then fst (e_urls e ! from) else ''A source'')
     @ '' served different bytes for '' @ e_name e @ ''. Nothing was kept.'')"

definition checkFile :: "zfile \<Rightarrow> nat \<Rightarrow> string \<Rightarrow> unit result" where
  "checkFile e from h = (if ''sha256:'' @ h \<noteq> e_address e then Inl (servedWrong e from) else Inr ())"

text \<open>
  The loop of \<open>download\<close> over the files: each is written as it streams, hashed, and checked when it
  ends; \<open>opened\<close> gives what the stream of the i-th file delivers. \<open>clock\<close> is the time each entry is
  begun.
\<close>

fun zipLoop :: "(nat \<Rightarrow> bytes list \<times> drained) \<Rightarrow> (nat \<Rightarrow> date) \<Rightarrow> nat \<Rightarrow> zfile list \<Rightarrow> nat list \<Rightarrow> zipWriter \<Rightarrow> (nat list \<times> zipWriter) result" where
  "zipLoop opened clock i [] froms w = Inr (froms, w)"
| "zipLoop opened clock i (e # es) froms w = (case opened i of
     (_, Errored) \<Rightarrow> Inl (Error (''No source delivered '' @ e_name e @ ''.''))
   | (cs, Closed from) \<Rightarrow> andThen (add (e_name e) (e_size e) cs (clock i) w) (\<lambda>w'.
       andThen (checkFile e from (hex (sha256 (concat cs)))) (\<lambda>_. zipLoop opened clock (Suc i) es (froms @ [from]) w')))"

text \<open>A response: the length it declares, and the stream that follows.\<close>

definition zipEntries :: "zfile list \<Rightarrow> (string \<times> bytes) list \<Rightarrow> (string \<times> nat) list" where
  "zipEntries files tails = map (\<lambda>e. (e_name e, e_size e)) files @ map (\<lambda>(n, b). (n, length b)) tails"

definition download :: "(nat \<Rightarrow> bytes list \<times> drained) \<Rightarrow> (nat \<Rightarrow> date) \<Rightarrow> zfile list \<Rightarrow> (string \<times> nat) list \<Rightarrow> (nat list \<Rightarrow> (string \<times> bytes) list)
    \<Rightarrow> nat \<times> bytes result" where
  "download opened clock files entries tails = (sizeOf entries,
     andThen (zipLoop opened clock 0 files [] newWriter) (\<lambda>(froms, w).
     andThen (addAll (map2 (\<lambda>(n, sz) (i, (_, b)). (n, sz, if b = [] then [] else [b], clock i)) (drop (length files) entries)
       (enumerate (length files) (tails froms))) w) (\<lambda>w'.
     Inr (w_out (Zip.finish w')))))"

definition modelZip :: "doc option \<Rightarrow> string \<Rightarrow> string \<Rightarrow> string \<Rightarrow> (nat \<Rightarrow> nat \<Rightarrow> nat \<Rightarrow> nat \<Rightarrow> attempt) \<Rightarrow> (nat \<Rightarrow> date)
    \<Rightarrow> (nat \<times> bytes result) result" where
  "modelZip index repo wanted created get clock = (case index of
     None \<Rightarrow> Inl (Error ''This model has no file index.'')
   | Some d \<Rightarrow> (let sources = zipSources wanted d; files = zipFiles sources d in
       if sources = [] then Inl (Error (''This model is not on '' @ wanted @ ''.''))
       else (let tails = (\<lambda>froms. [(''SHA256SUMS'', sumsText files), (''HOLOGRAM.json'', recordText repo d created sources files froms)]) in
         Inr (download (\<lambda>i. resilient (get i) (length (e_urls (files ! i))) (e_size (files ! i))) clock files
           (zipEntries files (tails (replicate (length files) 0))) tails))))"

subsection \<open>Generated downloads\<close>

definition MiB :: nat where "MiB = 1024 * 1024"

definition small :: "(string \<times> nat) list" where
  "small = map (\<lambda>i. (''small/'' @ decimal i @ ''.txt'', 1024 + i)) [0..<100]"

definition proofEntries :: "string \<Rightarrow> (string \<times> nat) list result" where
  "proofEntries spec = (if spec = ''tiny'' then Inr ((''a.bin'', 3 * MiB + 17) # small)
     else if spec = ''6g'' then Inr ([(''weights-00001.bin'', 4608 * MiB + 3), (''weights-00002.bin'', 1024 * MiB)] @ small)
     else Inl (Error (''unknown proof '' @ spec)))"

definition pattern :: bytes where
  "pattern = map (\<lambda>i. of_nat (i * 31 + i div 256)) [0..<MiB]"

function generated :: "nat \<Rightarrow> bytes list" where
  "generated left = (if left = 0 then [] else (let n = min left (length pattern) in take n pattern # generated (left - n)))"
  by pat_completeness auto
termination by (relation "measure id") (auto simp: pattern_def MiB_def)

declare generated.simps [simp del]

definition proofZip :: "string \<Rightarrow> (nat \<Rightarrow> date) \<Rightarrow> (nat \<times> bytes result) result" where
  "proofZip spec clock = andThen (proofEntries spec) (\<lambda>es. Inr (sizeOf es,
     andThen (addAll (map (\<lambda>(i, n, sz). (n, sz, generated sz, clock i)) (enumerate 0 es)) newWriter) (\<lambda>w. Inr (w_out (Zip.finish w)))))"

text \<open>\<open>answer\<close>: which zip a path below \<open>zip/\<close> names.\<close>

datatype asked = ProofZip string | ModelZip string string string | UnknownZip

definition askedFor :: "string \<Rightarrow> asked" where
  "askedFor path = (case splitAt (CHR ''/'') path of
     [a, b] \<Rightarrow> if a = ''_proof'' \<and> endsWith b ''.zip'' \<and> length b > 4 \<and> list_all (\<lambda>c. isDigit c \<or> (CHR ''a'' \<le> c \<and> c \<le> CHR ''z'')) (take (length b - 4) b)
       then ProofZip (take (length b - 4) b) else UnknownZip
   | [a, b, c] \<Rightarrow> if a \<noteq> [] \<and> b \<noteq> [] \<and> c \<in> {''auto.zip'', ''huggingface.co.zip'', ''modelscope.cn.zip'', ''ipfs.zip''}
       then ModelZip a b (take (length c - 4) c) else UnknownZip
   | _ \<Rightarrow> UnknownZip)"

subsection \<open>What the page gets is what was named\<close>

interpretation kp: holdback transform "flush want" newPassing k_hashed k_held HOLD "\<lambda>bs. hex (sha256 bs) = want"
  for want
  by unfold_locales (auto simp: newPassing_def transform_def flush_def Let_def simp del: take_append drop_append split: if_splits)

lemma fold_relay:
  "foldl (\<lambda>(sent, k) c. case transform k c of (s, k') \<Rightarrow> (sent @ s, k')) (acc, k) cs = (acc @ fst (kp.relay cs k), snd (kp.relay cs k))"
  by (induction cs arbitrary: acc k) (auto split: prod.splits)

lemma checkStream_right:
  assumes "checkStream want cs ending = (out, ok)"
  shows "if ok then ending = None \<and> out = concat cs \<and> hex (sha256 out) = want
    else (\<exists>rest. concat cs = out @ rest \<and> (out \<noteq> [] \<longrightarrow> HOLD \<le> length rest)) \<and> (ending = None \<longrightarrow> hex (sha256 (concat cs)) \<noteq> want)"
proof -
  obtain sent k where r: "kp.relay cs newPassing = (sent, k)" by fastforce
  have kept: "sent \<noteq> [] \<Longrightarrow> HOLD \<le> length (k_held k)" using kp.relay_kept [OF r] by blast
  from kp.relay_all [OF r] have all: "k_hashed k = concat cs" "sent @ k_held k = concat cs" by (simp_all add: newPassing_def)
  then have short: "\<exists>rest. concat cs = sent @ rest \<and> (sent \<noteq> [] \<longrightarrow> HOLD \<le> length rest)" using kept by metis
  show ?thesis
  proof (cases "ending = None \<and> hex (sha256 (concat cs)) = want")
    case True
    with assms all show ?thesis by (auto simp: checkStream_def fold_relay r flush_def)
  next
    case False
    with assms all have "out = sent" "\<not> ok" by (auto simp: checkStream_def fold_relay r flush_def split: if_splits)
    with short False show ?thesis by auto
  qed
qed

text \<open>
  What the worker can have been answered for the trees so far: \<open>seen\<close> are the lists, under the key \<open>repo@revision\<close>
  that it remembers them by. Its memory grows with every request it checks.
\<close>

type_synonym seen = "(string \<times> json) set"

definition answersOf :: "(string \<Rightarrow> string \<Rightarrow> json option) \<Rightarrow> seen" where
  "answersOf tree = {(repo @ ''@'' @ rv, list) | repo rv list. tree repo rv = Some list}"

inductive worker :: "trees \<Rightarrow> seen \<Rightarrow> bool" where
  started: "worker [] {}"
| request: "worker trees seen \<Longrightarrow> kappaCheck tree got scope verb hasRange path trees = (a, trees') \<Longrightarrow> worker trees' (seen \<union> answersOf tree)"

text \<open>A list names a hash for a path: it is the oid of the last entry of a file with that path.\<close>

definition isFileAt :: "string \<Rightarrow> json \<Rightarrow> bool" where
  "isFileAt p e \<longleftrightarrow> getProp ''type'' e = Some (JStr ''file'') \<and> getProp ''path'' e = Some (JStr p)"

definition namesHash :: "json \<Rightarrow> string \<Rightarrow> string \<Rightarrow> bool" where
  "namesHash list p h \<longleftrightarrow> (\<exists>before e after. list = JArr (before @ e # after) \<and> isFileAt p e \<and> getProp ''oid'' e = Some (JStr h) \<and> \<not> (\<exists>x \<in> set after. isFileAt p x))"

lemma treeFiles_names:
  assumes "map_of (rev (treeFiles list)) p = Some h" and "h \<noteq> []"
  shows "namesHash list p h"
proof -
  define one where "one = (\<lambda>e. if getProp ''type'' e = Some (JStr ''file'') then [(p, oid).
       p \<leftarrow> (case getProp ''path'' e of Some (JStr p) \<Rightarrow> [p] | _ \<Rightarrow> []),
       oid \<leftarrow> (case getProp ''oid'' e of Some (JStr h) \<Rightarrow> [h] | _ \<Rightarrow> [[]])] else [])"
  have one: "one e = (if \<exists>q. isFileAt q e then [(THE q. isFileAt q e, case getProp ''oid'' e of Some (JStr h) \<Rightarrow> h | _ \<Rightarrow> [])] else [])" for e
    by (auto simp: one_def isFileAt_def split: option.splits json.splits)
  have "map_of (rev (concat (map one es))) p = Some h \<Longrightarrow> \<exists>before e after. es = before @ e # after \<and> isFileAt p e
      \<and> getProp ''oid'' e = Some (JStr h) \<and> \<not> (\<exists>x \<in> set after. isFileAt p x)" for es
  proof (induction es rule: rev_induct)
    case (snoc x xs)
    show ?case
    proof (cases "isFileAt p x")
      case True
      then have "one x = [(p, case getProp ''oid'' x of Some (JStr h) \<Rightarrow> h | _ \<Rightarrow> [])]" by (auto simp: one isFileAt_def)
      with snoc.prems have "(case getProp ''oid'' x of Some (JStr h) \<Rightarrow> h | _ \<Rightarrow> []) = h" by simp
      with assms(2) have "getProp ''oid'' x = Some (JStr h)" by (auto split: option.splits json.splits)
      with True show ?thesis by (intro exI [of _ xs] exI [of _ x] exI [of _ "[]"]) simp
    next
      case False
      then have "map_of (rev (one x)) p = None" by (auto simp: one isFileAt_def)
      with snoc.prems have "map_of (rev (concat (map one xs))) p = Some h" by (simp add: map_add_def)
      then obtain before e after where "xs = before @ e # after" "isFileAt p e" "getProp ''oid'' e = Some (JStr h)" "\<not> (\<exists>x \<in> set after. isFileAt p x)"
        using snoc.IH by blast
      with False show ?thesis by (intro exI [of _ before] exI [of _ e] exI [of _ "after @ [x]"]) auto
    qed
  qed simp
  moreover have "treeFiles list = concat (map one es)" if "list = JArr es" "JNull \<notin> set es" for es
    using that by (simp add: treeFiles_def one_def if_distrib cong: if_cong)
  ultimately show ?thesis
    using assms(1) unfolding namesHash_def by (cases list) (auto simp: treeFiles_def split: if_splits)
qed

definition remembers :: "trees \<Rightarrow> seen \<Rightarrow> bool" where
  "remembers trees seen \<longleftrightarrow> (\<forall>key t. map_of trees key = Some t \<longrightarrow> t = [] \<or> (\<exists>list. (key, list) \<in> seen \<and> t = treeFiles list))"

lemma remembers_more: "remembers trees seen \<Longrightarrow> remembers trees (seen \<union> further)"
  unfolding remembers_def by blast

lemma treeOf_remembers:
  assumes "remembers trees seen" and "treeOf tree repo rv trees = (t, trees')"
  shows "remembers trees' (seen \<union> answersOf tree) \<and> (t = [] \<or> (\<exists>list. (repo @ ''@'' @ rv, list) \<in> seen \<union> answersOf tree \<and> t = treeFiles list))"
proof (cases "map_of trees (repo @ ''@'' @ rv)")
  case (Some t0)
  then have t: "t = t0" "trees' = trees" using assms(2) by (simp_all add: treeOf_def Let_def)
  have "t0 = [] \<or> (\<exists>list. (repo @ ''@'' @ rv, list) \<in> seen \<and> t0 = treeFiles list)"
    using assms(1) Some unfolding remembers_def by blast
  with t remembers_more [OF assms(1)] show ?thesis by blast
next
  case None
  have t: "t = (case tree repo rv of Some list \<Rightarrow> treeFiles list | None \<Rightarrow> [])" "trees' = (repo @ ''@'' @ rv, t) # trees"
    using assms(2) None by (auto simp: treeOf_def Let_def)
  have n: "t = [] \<or> (\<exists>list. (repo @ ''@'' @ rv, list) \<in> seen \<union> answersOf tree \<and> t = treeFiles list)"
  proof (cases "tree repo rv")
    case (Some list)
    then have "(repo @ ''@'' @ rv, list) \<in> answersOf tree" unfolding answersOf_def by blast
    with Some t(1) show ?thesis by auto
  qed (simp add: t(1))
  have "remembers trees' (seen \<union> answersOf tree)"
    unfolding remembers_def
  proof (intro allI impI)
    fix key u assume k: "map_of trees' key = Some u"
    show "u = [] \<or> (\<exists>list. (key, list) \<in> seen \<union> answersOf tree \<and> u = treeFiles list)"
    proof (cases "key = repo @ ''@'' @ rv")
      case True
      with k t(2) have "u = t" by simp
      with n True show ?thesis by blast
    next
      case False
      with k t(2) have "map_of trees key = Some u" by simp
      with remembers_more [OF assms(1)] show ?thesis unfolding remembers_def by blast
    qed
  qed
  with n show ?thesis by blast
qed

lemma expectedFor_remembers:
  assumes "remembers trees seen" and "expectedFor tree scope path trees = (w, trees')"
  shows "remembers trees' (seen \<union> answersOf tree)"
proof (cases "trees' = trees")
  case True
  with remembers_more [OF assms(1)] show ?thesis by simp
next
  case False
  with assms(2) obtain repo rv t where "treeOf tree repo rv trees = (t, trees')"
    by (auto simp: expectedFor_def split: option.splits if_splits prod.splits)
  with treeOf_remembers [OF assms(1)] show ?thesis by blast
qed

lemma worker_remembers: "worker trees seen \<Longrightarrow> remembers trees seen"
proof (induction rule: worker.induct)
  case (request trees seen tree got scope verb hasRange path a trees')
  have "trees' = trees \<or> (\<exists>w. expectedFor tree scope path trees = (w, trees'))"
  proof (cases "verb \<noteq> ''GET'' \<or> hasRange \<or> (namedOf path = None \<and> resolveOf (drop (scope - 1) path) = None)")
    case False
    obtain w t where w: "expectedFor tree scope path trees = (w, t)" by fastforce
    with False request.hyps(2) have "trees' = t"
      by (cases w) (auto simp: kappaCheck_def split: prod.splits js_error.splits delivery.splits option.splits)
    with w show ?thesis by blast
  qed (use request.hyps(2) in \<open>simp add: kappaCheck_def\<close>)
  then show ?case using expectedFor_remembers [OF request.IH] remembers_more [OF request.IH] by blast
qed (simp add: remembers_def)

lemma expectedFor_named:
  assumes "remembers trees seen" and "expectedFor tree scope path trees = (Inr (Some h), trees')" and "namedOf path = None"
  shows "\<exists>repo rv fl p list. resolveOf (drop (scope - 1) path) = Some (repo, rv, fl) \<and> decodeURIComponent fl = Some p
    \<and> (repo @ ''@'' @ rv, list) \<in> seen \<union> answersOf tree \<and> namesHash list p h"
proof -
  obtain repo rv fl where r: "resolveOf (drop (scope - 1) path) = Some (repo, rv, fl)" "repo \<noteq> ''api/models''"
    using assms(2,3) by (auto simp: expectedFor_def split: option.splits if_splits)
  obtain t trees1 where t: "treeOf tree repo rv trees = (t, trees1)" by fastforce
  obtain p where p: "decodeURIComponent fl = Some p" "map_of (rev t) p = Some h" "isHex64 h"
    using assms(2,3) r t by (auto simp: expectedFor_def split: option.splits if_splits)
  then have "t \<noteq> []" "h \<noteq> []" by (auto simp: isHex64_def)
  then obtain list where "(repo @ ''@'' @ rv, list) \<in> seen \<union> answersOf tree" "t = treeFiles list"
    using treeOf_remembers [OF assms(1) t] by blast
  with r p \<open>h \<noteq> []\<close> show ?thesis using treeFiles_names by blast
qed

text \<open>
  C25. The worker never completes a wrong file: when it checks an answer, a stream it closes is exactly what the
  network sent and hashes to the name; one it puts in error has given the page nothing, or at least 64 KiB less than
  arrived. The name is the right one: the hash that the URL ends in, or, for a file of a model, the hash that a list
  the worker was given for that model and revision has for just that path.
\<close>
theorem kappa_never_wrong:
  assumes "worker trees seen" and "kappaCheck tree (Stream cs ending) scope verb hasRange path trees = (Some (Checked n want out ok), trees')"
  shows "(if ok then ending = None \<and> out = concat cs \<and> hex (sha256 out) = want
      else (\<exists>rest. concat cs = out @ rest \<and> (out \<noteq> [] \<longrightarrow> HOLD \<le> length rest)) \<and> (ending = None \<longrightarrow> hex (sha256 (concat cs)) \<noteq> want)) \<and>
    (case namedOf path of Some h \<Rightarrow> want = h
     | None \<Rightarrow> (\<exists>repo rv fl p list. resolveOf (drop (scope - 1) path) = Some (repo, rv, fl) \<and> decodeURIComponent fl = Some p
         \<and> (repo @ ''@'' @ rv, list) \<in> seen \<union> answersOf tree \<and> namesHash list p want))"
proof -
  from assms(2) obtain w where e: "expectedFor tree scope path trees = (Inr (Some w), trees')" "checkStream w cs ending = (out, ok)" "want = w"
    by (auto simp: kappaCheck_def split: if_splits prod.splits sum.splits js_error.splits option.splits)
  have "namedOf path = Some h \<Longrightarrow> w = h" for h using e(1) by (simp add: expectedFor_def)
  then show ?thesis
    using checkStream_right [OF e(2)] expectedFor_named [OF worker_remembers [OF assms(1)] e(1)] e(3)
    by (cases "namedOf path") auto
qed

subsection \<open>A resumed stream is the file\<close>

lemma concat_skipping: "concat (skipping n cs) = drop n (concat cs)"
  by (induction n cs rule: skipping.induct) auto

lemma drain_size: "drain get sz as rd from received = (out, Closed f) \<Longrightarrow> received \<le> sz \<Longrightarrow> received + length (concat out) = sz"
proof (induction get sz "as" rd "from" received arbitrary: out rule: drain.induct)
  case (1 get sz as' from' received)
  then show ?case by (auto split: option.splits prod.splits)
next
  case (2 get sz as' ending from' received)
  then show ?case by (auto split: if_splits)
next
  case (3 get sz as' c cs ending from' received)
  then obtain out' where le: "received + length c \<le> sz" and o: "drain get sz as' (Some (cs, ending)) from' (received + length c) = (out', Closed f)"
    and out: "out = c # out'" by (auto split: if_splits prod.splits)
  from "3.IH" [OF _ o le] le out show ?case by simp
qed

text \<open>A source that serves the file: whole, cut short, from the byte asked for, or from the start.\<close>

definition honest :: "bytes \<Rightarrow> (nat \<Rightarrow> nat \<Rightarrow> nat \<Rightarrow> attempt) \<Rightarrow> bool" where
  "honest file get \<longleftrightarrow> (\<forall>at t r status cs ending. get at t r = Answered status cs ending \<longrightarrow>
     prefix (concat cs) (if r > 0 \<and> status = 206 then drop r file else file))"

lemma prefix_drop: "prefix xs ys \<Longrightarrow> prefix (drop n xs) (drop n ys)"
  by (metis append_take_drop_id drop_append prefix_def)

lemma connect_honest:
  "honest file get \<Longrightarrow> connect get received as = Some (at, rest, cs, ending) \<Longrightarrow> prefix (concat cs) (drop received file)"
proof (induction get received "as" rule: connect.induct)
  case (2 get received a t rest')
  show ?case
  proof (cases "get a t received")
    case Failed
    with "2.IH"(1) "2.prems" show ?thesis by simp
  next
    case (NoBody status)
    with "2.IH"(2,3) "2.prems" show ?thesis by (auto split: if_splits)
  next
    case (Answered status ds e)
    with "2.prems"(1) have p: "prefix (concat ds) (if received > 0 \<and> status = 206 then drop received file else file)"
      unfolding honest_def by blast
    show ?thesis
    proof (cases "200 \<le> status \<and> status < 300")
      case True
      with "2.prems"(2) Answered have "cs = (if received > 0 \<and> status \<noteq> 206 then skipping received ds else ds)" by auto
      with p prefix_drop [of "concat ds" "file" received] show ?thesis by (auto simp: concat_skipping split: if_splits)
    next
      case False
      with "2.IH"(4,5) [OF Answered] "2.prems" Answered show ?thesis by (auto split: if_splits)
    qed
  qed
qed simp

lemma prefix_split:
  assumes "prefix c (drop n xs)" and "prefix ys (drop (n + length c) xs)"
  shows "prefix (c @ ys) (drop n xs)"
proof -
  from assms(1) obtain zs where z: "drop n xs = c @ zs" by (auto simp: prefix_def)
  then have "drop (n + length c) xs = zs" by (metis add.commute append_eq_conv_conj drop_drop)
  with assms(2) z show ?thesis by (simp add: prefix_def)
qed

lemma drain_honest:
  "honest file get \<Longrightarrow> (\<forall>cs e. rd = Some (cs, e) \<longrightarrow> prefix (concat cs) (drop received file)) \<Longrightarrow>
   drain get sz as rd from received = (out, r) \<Longrightarrow> prefix (concat out) (drop received file)"
proof (induction get sz "as" rd "from" received arbitrary: out rule: drain.induct)
  case (1 get sz as' from' received)
  show ?case
  proof (cases "connect get received as'")
    case (Some x)
    obtain at rest cs ending where x: "connect get received as' = Some (at, rest, cs, ending)" using Some by (cases x) auto
    have d: "drain get sz rest (Some (cs, ending)) at received = (out, r)" using "1.prems"(3) x by simp
    have "\<forall>cs' e. Some (cs, ending) = Some (cs', e) \<longrightarrow> prefix (concat cs') (drop received file)"
      using connect_honest [OF "1.prems"(1) x] by blast
    from "1.IH" [OF x refl refl refl "1.prems"(1) this d] show ?thesis .
  next
    case None
    with "1.prems"(3) show ?thesis by auto
  qed
next
  case (2 get sz as' ending from' received)
  show ?case
  proof (cases "ending = None \<and> received \<ge> sz")
    case True
    with "2.prems"(3) show ?thesis by auto
  next
    case False
    with "2.prems"(3) have d: "drain get sz as' None from' received = (out, r)" by auto
    from "2.IH" [OF False "2.prems"(1) _ d] show ?thesis by simp
  qed
next
  case (3 get sz as' c cs ending from' received)
  show ?case
  proof (cases "received + length c > sz")
    case False
    then obtain out' where o: "drain get sz as' (Some (cs, ending)) from' (received + length c) = (out', r)" and out: "out = c # out'"
      using "3.prems"(3) by (auto split: prod.splits)
    have p: "prefix (c @ concat cs) (drop received file)" using "3.prems"(2) by simp
    then have "prefix (concat cs) (drop (received + length c) file)" using prefix_drop [OF p, of "length c"] by (simp add: add.commute)
    then have q: "\<forall>cs' e. Some (cs, ending) = Some (cs', e) \<longrightarrow> prefix (concat cs') (drop (received + length c) file)" by blast
    from "3.IH" [OF False "3.prems"(1) q o] have "prefix (concat out') (drop (received + length c) file)" .
    moreover have "prefix c (drop received file)" using p append_prefixD by blast
    ultimately show ?thesis unfolding out by (simp add: prefix_split)
  next
    case True
    with "3.prems"(3) show ?thesis by auto
  qed
qed

text \<open>
  A download that resumes is the file: whatever connections drop, whatever sources fail, refuse or
  ignore a Range, if each source that answers sends bytes of the file from where it says, then a stream
  that is closed is the file, byte for byte; and whatever the sources send, a stream that is closed has
  exactly the size the index names.
\<close>
theorem resilient_exact:
  assumes "resilient get urls sz = (out, Closed from)"
  shows "length (concat out) = sz \<and> (honest file get \<longrightarrow> length file = sz \<longrightarrow> concat out = file)"
proof -
  have d: "drain get sz (attemptsOf urls) None 0 0 = (out, Closed from)" using assms by (simp add: resilient_def)
  have len: "length (concat out) = sz" using drain_size [OF d] by simp
  have "honest file get \<Longrightarrow> prefix (concat out) file" using drain_honest [OF _ _ d, of "file"] by simp
  with len show ?thesis by (auto simp: prefix_def)
qed

theorem resilient_exact_witness:
  "concat (fst (resilient (\<lambda>at t r. if at = 0 then (if t = 0 then Answered 200 [[1, 2]] (Some ''reset'') else Answered 404 [] None)
     else Answered 200 [[1, 2, 3]] None) 2 3)) = [1, 2, 3]"
proof -
  let ?get = "\<lambda>at t r. if at = 0 then (if t = 0 then Answered 200 [[1, 2]] (Some ''reset'') else Answered 404 [] None)
     else Answered 200 [[1, 2, 3 :: byte]] None"
  have r: "resilient ?get 2 3 = ([[1, 2], [3]], Closed 1)" by (simp add: resilient_def attemptsOf_def upt_rec)
  have "honest [1, 2, 3] ?get" by (auto simp: honest_def)
  with resilient_exact [OF r, of "[1, 2, 3]"] show ?thesis unfolding r by simp
qed

subsection \<open>The archive is what was announced\<close>

definition delivered :: "(nat \<Rightarrow> bytes list \<times> drained) \<Rightarrow> nat \<Rightarrow> zfile \<Rightarrow> bool" where
  "delivered opened i e \<longleftrightarrow> (\<exists>cs from. opened i = (cs, Closed from) \<and> length (concat cs) = e_size e \<and>
     ''sha256:'' @ hex (sha256 (concat cs)) = e_address e)"

definition sentTo :: "(nat \<Rightarrow> bytes list \<times> drained) \<Rightarrow> nat \<Rightarrow> bytes" where
  "sentTo opened i = concat (fst (opened i))"

lemma zipLoop_inputs:
  "zipLoop opened clock i es froms w = Inr (froms', w') \<Longrightarrow>
   \<exists>ins. addAll ins w = Inr w' \<and> map (\<lambda>(n, s, _). (n, s)) ins = map (\<lambda>e. (e_name e, e_size e)) es \<and>
     map contentOf ins = zip (map (\<lambda>e. utf8 (e_name e)) es) (map (sentTo opened) [i..<i + length es]) \<and>
     length froms' = length froms + length es \<and> (\<forall>k < length es. delivered opened (i + k) (es ! k))"
proof (induction opened clock i es froms w rule: zipLoop.induct)
  case (2 opened clock i e es froms w)
  obtain cs r where o: "opened i = (cs, r)" by fastforce
  with "2.prems" obtain f where r: "r = Closed f" by (cases r) auto
  from "2.prems" o r obtain w1 where
    a: "add (e_name e) (e_size e) cs (clock i) w = Inr w1" and c: "checkFile e f (hex (sha256 (concat cs))) = Inr ()" and
    z: "zipLoop opened clock (Suc i) es (froms @ [f]) w1 = Inr (froms', w')" by (auto simp: andThen_Inr_iff)
  from "2.IH" [OF o [symmetric] r z] obtain ins where ins: "addAll ins w1 = Inr w'"
    "map (\<lambda>(n, s, _). (n, s)) ins = map (\<lambda>e. (e_name e, e_size e)) es" "length froms' = length (froms @ [f]) + length es"
    and ct: "map contentOf ins = zip (map (\<lambda>e. utf8 (e_name e)) es) (map (sentTo opened) [Suc i..<Suc i + length es])"
    and k: "\<forall>k < length es. delivered opened (Suc i + k) (es ! k)" by blast
  have "delivered opened i e" using o r a c by (auto simp: delivered_def add_eq checkFile_def split: if_splits)
  with k have "\<forall>k < length (e # es). delivered opened (i + k) ((e # es) ! k)" by (auto simp: less_Suc_eq_0_disj)
  moreover have "[i..<i + length (e # es)] = i # [Suc i..<Suc i + length es]" 
    by (rule trans [OF upt_conv_Cons]) (simp_all del: upt_Suc)
  then have "map contentOf ((e_name e, e_size e, cs, clock i) # ins)
      = zip (map (\<lambda>e. utf8 (e_name e)) (e # es)) (map (sentTo opened) [i..<i + length (e # es)])"
    using ct o by (simp add: contentOf_def sentTo_def)
  ultimately show ?case using ins a
    by (intro exI [of _ "(e_name e, e_size e, cs, clock i) # ins"]) simp
qed simp

lemma addAll_app: "addAll (xs @ ys) w = andThen (addAll xs w) (addAll ys)"
proof (induction xs arbitrary: w)
  case (Cons x xs)
  then show ?case by (cases x) (auto simp: add_eq)
qed simp

lemma tail_sizes: "length es = length ts \<Longrightarrow>
  map (\<lambda>(n, s, _). (n, s)) (map2 (\<lambda>(n, sz) (i, (_, b)). (n, sz, if b = [] then [] else [b], clock i)) es (enumerate k ts)) = es"
proof (induction es ts arbitrary: k rule: list_induct2)
  case (Cons e es t ts)
  then show ?case by (cases e, cases t) simp
qed simp

lemma tail_contents: "length es = length ts \<Longrightarrow>
  map contentOf (map2 (\<lambda>(n, sz) (i, (_, b)). (n, sz, if b = [] then [] else [b], clock i)) es (enumerate k ts)) = map2 (\<lambda>(n, _) (_, b). (utf8 n, b)) es ts"
proof (induction es ts arbitrary: k rule: list_induct2)
  case (Cons e es t ts)
  then show ?case by (cases e, cases t) (simp add: contentOf_def)
qed simp

lemma short_inputs: "map (\<lambda>(n, s, _). (n, s)) ins = es \<Longrightarrow> list_all shortName ins \<longleftrightarrow> list_all (\<lambda>(n, s). length (utf8 n) < 2 ^ 16) es"
  by (fastforce simp: list_all_iff shortName_def)

lemma download_exact:
  assumes "download opened clock files (zipEntries files tails0) tails = (len, Inr body)" and "\<And>froms. length (tails froms) = length tails0"
    and "list_all (\<lambda>(n, s). length (utf8 n) < 2 ^ 16) (zipEntries files tails0)" and "len < 2 ^ 64"
  shows "length body = len \<and> (\<exists>froms. length froms = length files \<and> unzip body = Some (zip (map (\<lambda>e. utf8 (e_name e)) files) (map (sentTo opened) [0..<length files])
      @ map2 (\<lambda>(n, _) (_, b). (utf8 n, b)) tails0 (tails froms))) \<and> (\<forall>k < length files. delivered opened k (files ! k))"
proof -
  let ?es = "drop (length files) (zipEntries files tails0)"
  from assms(1) obtain froms w ins w' where
    z: "zipLoop opened clock 0 files [] newWriter = Inr (froms, w)" and
    ins: "ins = map2 (\<lambda>(n, sz) (i, (_, b)). (n, sz, if b = [] then [] else [b], clock i)) ?es (enumerate (length files) (tails froms))" and
    a: "addAll ins w = Inr w'" and body: "body = w_out (Zip.finish w')" "len = sizeOf (zipEntries files tails0)"
    by (auto simp: download_def andThen_Inr_iff)
  from zipLoop_inputs [OF z] obtain ins0 where i0: "addAll ins0 newWriter = Inr w"
    "map (\<lambda>(n, s, _). (n, s)) ins0 = map (\<lambda>e. (e_name e, e_size e)) files"
    "map contentOf ins0 = zip (map (\<lambda>e. utf8 (e_name e)) files) (map (sentTo opened) [0..<length files])" "length froms = length files"
    and k: "\<forall>k < length files. delivered opened k (files ! k)" by auto
  have lt: "length ?es = length (tails froms)" by (simp add: zipEntries_def assms(2))
  have "map (\<lambda>(n, s, _). (n, s)) ins = ?es" unfolding ins by (rule tail_sizes [OF lt])
  then have all: "map (\<lambda>(n, s, _). (n, s)) (ins0 @ ins) = zipEntries files tails0" using i0(2) by (simp add: zipEntries_def)
  have added: "addAll (ins0 @ ins) newWriter = Inr w'" using i0(1) a by (simp add: addAll_app)
  have len: "length body = len" using archive_length [OF added] body all by metis
  have "map2 (\<lambda>(n, _) (_, b). (utf8 n, b)) ?es (tails froms) = map2 (\<lambda>(n, _) (_, b). (utf8 n, b)) tails0 (tails froms)"
    by (simp add: zipEntries_def zip_map1 case_prod_unfold o_def)
  moreover have "unzip body = Some (map contentOf (ins0 @ ins))"
    using unzip_written [OF added] short_inputs [OF all] assms(3,4) len body by simp
  ultimately show ?thesis using len k i0(3,4) tail_contents [OF lt, of clock "length files"] ins by auto
qed

text \<open>
  C38. A downloaded model is a complete archive: if the zip's stream is closed, it has exactly the length its response
  declared, and an unpacker that reads it finds, in the order of the index, every file that some source of the download
  holds, under its path, with the size and the SHA-256 of the index, and then the sums and the record. (Paths of less
  than 64 KiB, archives of less than 2^64 bytes: what the fields of a zip can hold.)
\<close>
theorem zip_complete:
  assumes "modelZip (Some d) repo wanted created get clock = Inr (len, Inr body)" and "files = zipFiles (zipSources wanted d) d"
    and "list_all (\<lambda>f. length (utf8 (e_name f)) < 2 ^ 16) files" and "len < 2 ^ 64"
  shows "length body = len \<and> (\<exists>contents froms. list_all2 (\<lambda>f b. length b = e_size f \<and> ''sha256:'' @ hex (sha256 b) = e_address f) files contents
    \<and> unzip body = Some (zip (map (\<lambda>f. utf8 (e_name f)) files) contents
        @ [(utf8 ''SHA256SUMS'', sumsText files), (utf8 ''HOLOGRAM.json'', recordText repo d created (zipSources wanted d) files froms)]))"
proof -
  let ?opened = "\<lambda>i. resilient (get i) (length (e_urls (files ! i))) (e_size (files ! i))" and ?sources = "zipSources wanted d"
  let ?tails = "\<lambda>froms. [(''SHA256SUMS'', sumsText files), (''HOLOGRAM.json'', recordText repo d created ?sources files froms)]"
  have d: "download ?opened clock files (zipEntries files (?tails (replicate (length files) 0))) ?tails = (len, Inr body)"
    using assms(1) by (auto simp: modelZip_def Let_def assms(2) split: if_splits)
  have short: "list_all (\<lambda>(n, s). length (utf8 n) < 2 ^ 16) (zipEntries files (?tails (replicate (length files) 0)))"
    using assms(3) by (simp add: zipEntries_def list_all_iff utf8_def utf8_char_def)
  obtain froms where len: "length body = len" and u: "unzip body = Some (zip (map (\<lambda>e. utf8 (e_name e)) files) (map (sentTo ?opened) [0..<length files])
      @ map2 (\<lambda>(n, _) (_, b). (utf8 n, b)) (?tails (replicate (length files) 0)) (?tails froms))" and k: "\<forall>k < length files. delivered ?opened k (files ! k)"
    using download_exact [OF d _ short assms(4)] by auto
  have "list_all2 (\<lambda>f b. length b = e_size f \<and> ''sha256:'' @ hex (sha256 b) = e_address f) files (map (sentTo ?opened) [0..<length files])"
    using k by (auto simp: list_all2_conv_all_nth sentTo_def delivered_def)
  with len u show ?thesis by fastforce
qed

lemma one_piece: "length (concat (if b = [] then [] else [b])) = length b"
  by simp

definition tinyDoc :: doc where
  "tinyDoc = \<lparr>doc_id = ''org/m'', doc_revision = ''0123456789'', doc_manifest = ''blake3:00'', doc_records = None,
     doc_sources = [\<lparr>src_kind = ''huggingface.co'', src_resolve = None, src_missing = [], src_p2p = False, src_pull = False, src_byDigest = False\<rparr>],
     doc_files = [\<lparr>f_path = ''a'', f_size = 1, f_address = ''sha256:'' @ hex (sha256 [7]), f_weights = True, f_url = ''u''\<rparr>]\<rparr>"

theorem zip_complete_witness:
  "\<exists>len body. modelZip (Some tinyDoc) ''org/m'' ''auto'' ''2026-09-26'' (\<lambda>i at t r. Answered 200 [[7]] None) (\<lambda>_. someDay) = Inr (len, Inr body) \<and>
     length body = len \<and> (\<exists>b r. unzip body = Some ((utf8 ''a'', b) # r) \<and> hex (sha256 b) = hex (sha256 [7]))"
proof -
  have files: "zipSources ''auto'' tinyDoc = doc_sources tinyDoc" "zipFiles (doc_sources tinyDoc) tinyDoc =
      [\<lparr>e_name = ''a'', e_size = 1, e_address = ''sha256:'' @ hex (sha256 [7]), e_urls = [(''huggingface.co'', ''u'')]\<rparr>]"
    by (simp_all add: zipSources_def zipFiles_def urlsOf_def tinyDoc_def)
  have r: "resilient (\<lambda>at t r. Answered 200 [[7]] None) (Suc 0) (Suc 0) = ([[7]], Closed 0)"
    by (simp add: resilient_def attemptsOf_def upt_rec)
  have ne: "doc_sources tinyDoc \<noteq> []" by (simp add: tinyDoc_def)
  obtain len body where m: "modelZip (Some tinyDoc) ''org/m'' ''auto'' ''2026-09-26'' (\<lambda>i at t r. Answered 200 [[7]] None) (\<lambda>_. someDay)
      = Inr (len, Inr body)"
    by (simp add: modelZip_def files ne download_def r add_eq checkFile_def zipEntries_def enumerate_eq_zip Let_def one_piece)
  let ?rec = "recordText ''org/m'' tinyDoc ''2026-09-26'' (doc_sources tinyDoc) (zipFiles (doc_sources tinyDoc) tinyDoc) [0]"
    and ?sums = "sumsText (zipFiles (doc_sources tinyDoc) tinyDoc)"
  have q: "length (quote s) \<le> 6 * length s + 2" for s by (induction s) (auto simp: quote_def escapeChar_def)
  have u: "length (utf8 s) \<le> 2 * length s" for s by (induction s) (auto simp: utf8_def utf8_char_def Let_def)
  have "length (stringify (JStr (''sha256:'' @ hex (sha256 [7])))) \<le> 428"
    using q [of "''sha256:'' @ hex (sha256 [7])"] by (simp add: length_hex length_sha256)
  moreover have "decimal 0 = ''0''" by code_simp
  moreover have dg: "digestOf (''sha256:'' @ hex (sha256 [7])) = hex (sha256 [7])"
    using digestOf_address [of "''sha256''" "hex (sha256 [7])"] colon_not_hex by simp
  ultimately have "length ?rec \<le> 10000"
    unfolding recordText_def files by (intro order.trans [OF u]) (simp add: tinyDoc_def quote_def escapeChar_def numText_def)
  moreover have "length ?sums \<le> 200"
    unfolding sumsText_def files by (intro order.trans [OF u]) (simp add: dg [simplified] length_hex length_sha256)
  moreover have "len = sizeOf [(''a'', 1), (''SHA256SUMS'', length ?sums), (''HOLOGRAM.json'', length ?rec)]"
    using m by (simp add: modelZip_def files ne Let_def download_def zipEntries_def)
  ultimately have "len < 2 ^ 64"
    by (simp add: sizeOf_def sizeStep_def LIMIT32_def utf8_def utf8_char_def Let_def)
  from zip_complete [OF m refl _ this] m show ?thesis by (auto simp: files list_all2_Cons1 utf8_def utf8_char_def)
qed

text \<open>A file of a model, named by the list the hub gives of it, from a holder that sends two chunks.\<close>

definition sampleTree :: "string \<Rightarrow> string \<Rightarrow> json option" where
  "sampleTree repo rv = (if repo = ''o/n'' then Some (JArr [JObj [(''type'', JStr ''file''), (''path'', JStr ''c''), (''oid'', JStr (hex (sha256 [1, 2])))]]) else None)"

theorem kappa_never_wrong_witness:
  "fst (kappaCheck sampleTree (Stream [[1], [2]] None) 1 ''GET'' False ''/o/n/resolve/main/c'' []) = Some (Checked 200 (hex (sha256 [1, 2])) [1, 2] True)
     \<and> (\<exists>list. (''o/n@main'', list) \<in> answersOf sampleTree \<and> namesHash list ''c'' (hex (sha256 [1, 2])))"
proof -
  have nm: "namedOf ''/o/n/resolve/main/c'' = None" by (simp add: namedOf_def isHex64_def)
  have r: "resolveOf ''/o/n/resolve/main/c'' = Some (''o/n'', ''main'', ''c'')" by (simp add: resolveOf_def)
  have d: "decodeURIComponent ''c'' = Some ''c''" by (rule decode_plain) simp
  have t: "treeFiles (JArr [JObj [(''type'', JStr ''file''), (''path'', JStr ''c''), (''oid'', JStr h)]]) = [(''c'', h)]" for h
    by (simp add: treeFiles_def)
  have k: "kappaCheck sampleTree (Stream [[1], [2]] None) 1 ''GET'' False ''/o/n/resolve/main/c'' []
       = (Some (Checked 200 (hex (sha256 [1, 2])) [1, 2] True), [(''o/n@main'', [(''c'', hex (sha256 [1, 2]))])])"
    by (simp add: kappaCheck_def expectedFor_def nm r treeOf_def sampleTree_def t d isHex64_hex Let_def length_sha256)
      (simp add: checkStream_def newPassing_def transform_def flush_def HOLD_def Let_def)
  from kappa_never_wrong [OF worker.started k] k show ?thesis by (simp add: nm r d)
qed

end
