(* ===== verification/Pattern.thy ===== *)
theory Pattern
  imports Doc "HOL-Library.Char_ord"
begin

text \<open>
  The regular expressions the hub recognises a model's files by: GGUF quantisations, shards,
  projectors, weights, documents and code. A pattern with the flag \<open>i\<close> is matched on the
  lower-case name; what it captures keeps its case.
\<close>

fun contains :: "string \<Rightarrow> string \<Rightarrow> bool" where
  "contains [] w \<longleftrightarrow> w = []"
| "contains (c # cs) w \<longleftrightarrow> startsWith (c # cs) w \<or> contains cs w"

fun anywhere :: "(string \<Rightarrow> bool) \<Rightarrow> string \<Rightarrow> bool" where
  "anywhere P [] \<longleftrightarrow> P []"
| "anywhere P (c # cs) \<longleftrightarrow> P (c # cs) \<or> anywhere P cs"

definition isWord :: "char \<Rightarrow> bool" where
  "isWord c \<longleftrightarrow> isDigit c \<or> (CHR ''a'' \<le> c \<and> c \<le> CHR ''z'') \<or> (CHR ''A'' \<le> c \<and> c \<le> CHR ''Z'') \<or> c = CHR ''_''"

definition segments :: "string \<Rightarrow> string list" where
  "segments path = splitAt (CHR ''/'') path"

text \<open>\<open>p.split("/").pop()\<close>.\<close>

definition baseName :: "string \<Rightarrow> string" where
  "baseName p = last (segments p)"

definition hasSuffix :: "string list \<Rightarrow> string \<Rightarrow> bool" where
  "hasSuffix endings p \<longleftrightarrow> list_ex (\<lambda>e. endsWith (lower p) (CHR ''.'' # e)) endings"

definition isGguf :: "string \<Rightarrow> bool" where
  "isGguf p \<longleftrightarrow> hasSuffix [''gguf''] p"

text \<open>\<open>I?Q\\d\\w*|BF16|F16|F32|MXFP4\\w*\<close>, the whole text.\<close>

definition quantBody :: "string \<Rightarrow> bool" where
  "quantBody t \<longleftrightarrow> (case t of q # d # rest \<Rightarrow> q = CHR ''q'' \<and> isDigit d \<and> list_all isWord rest | _ \<Rightarrow> False)"

definition isQuant :: "string \<Rightarrow> bool" where
  "isQuant s \<longleftrightarrow> (let t = lower s in quantBody t \<or> (case t of i # r \<Rightarrow> i = CHR ''i'' \<and> quantBody r | [] \<Rightarrow> False)
     \<or> t \<in> {''bf16'', ''f16'', ''f32''} \<or> (startsWith t ''mxfp4'' \<and> list_all isWord (drop 5 t)))"

text \<open>The first place, at the start or after \<open>-\<close>, \<open>.\<close> or \<open>_\<close>, from where the rest of the stem is a quantisation.\<close>

fun quantFrom :: "bool \<Rightarrow> string \<Rightarrow> string" where
  "quantFrom b [] = []"
| "quantFrom b (c # cs) = (if b \<and> isQuant (c # cs) then c # cs else quantFrom (c \<in> set ''-._'') cs)"

definition quantOf :: "string \<Rightarrow> string" where
  "quantOf p = (if isGguf p then quantFrom True (take (length p - 5) p) else [])"

text \<open>\<open>-\\d{5}-of-\\d{5}\<close> and \<open>-\\d{5}-of-\<close>.\<close>

definition shardHead :: "string \<Rightarrow> bool" where
  "shardHead s \<longleftrightarrow> length s \<ge> 10 \<and> s ! 0 = CHR ''-'' \<and> list_all isDigit (take 5 (drop 1 s)) \<and> startsWith (drop 6 s) ''-of-''"

definition isShard :: "string \<Rightarrow> bool" where
  "isShard s \<longleftrightarrow> anywhere (\<lambda>t. shardHead t \<and> length t \<ge> 15 \<and> list_all isDigit (take 5 (drop 10 t))) s"

definition isHelper :: "string \<Rightarrow> bool" where
  "isHelper p \<longleftrightarrow> contains (lower p) ''mmproj'' \<or> contains (lower p) ''imatrix''"

definition ggufsOf :: "doc \<Rightarrow> row list" where
  "ggufsOf d = filter (\<lambda>f. isGguf (f_path f) \<and> \<not> isHelper (f_path f)) (doc_files d)"

definition quantsOf :: "row list \<Rightarrow> string list" where
  "quantsOf fs = filter (\<lambda>t. t \<noteq> []) (map (\<lambda>f. quantOf (f_path f)) fs)"

text \<open>\<open>[...new Set(list)]\<close>: the first of each value, in order.\<close>

fun uniq :: "'a list \<Rightarrow> 'a list" where
  "uniq [] = []"
| "uniq (x # xs) = x # filter (\<lambda>y. y \<noteq> x) (uniq xs)"

lemma set_uniq [simp]: "set (uniq xs) = set xs"
  by (induction xs) auto

lemma distinct_uniq [simp]: "distinct (uniq xs)"
  by (induction xs) auto

record picked =
  pk_file :: "row option"
  pk_sharded :: bool
  pk_quants :: "string list"

definition matchGguf :: "string \<Rightarrow> row list \<Rightarrow> row option" where
  "matchGguf t fs = (case find (\<lambda>f. lower (f_path f) \<in> {t, t @ ''.gguf''} \<or> lower (baseName (f_path f)) \<in> {t, t @ ''.gguf''}) fs of
     Some f \<Rightarrow> Some f
   | None \<Rightarrow> find (\<lambda>f. lower (quantOf (f_path f)) = t) fs)"

definition pickGguf :: "doc \<Rightarrow> string \<Rightarrow> picked" where
  "pickGguf d tag = (let ggufs = ggufsOf d; whole = filter (\<lambda>f. \<not> isShard (f_path f)) ggufs; t = lower tag in
     if t = ''latest'' then \<lparr>pk_file = (case find (\<lambda>f. contains (lower (f_path f)) ''q4_k_m'') whole of
           Some f \<Rightarrow> Some f | None \<Rightarrow> (case whole of [] \<Rightarrow> None | f # _ \<Rightarrow> Some f)),
         pk_sharded = (whole = [] \<and> ggufs \<noteq> []), pk_quants = quantsOf whole\<rparr>
     else \<lparr>pk_file = matchGguf t whole, pk_sharded = (matchGguf t whole = None \<and> matchGguf t ggufs \<noteq> None), pk_quants = quantsOf whole\<rparr>)"

definition isWeights :: "string \<Rightarrow> bool" where
  "isWeights p \<longleftrightarrow> hasSuffix [''safetensors'', ''gguf'', ''bin'', ''pt'', ''pth'', ''ckpt'', ''onnx'', ''h5'', ''msgpack'', ''ot'', ''mlmodel'', ''npz'', ''tflite'', ''pb''] p"

definition beginsWith :: "string list \<Rightarrow> string \<Rightarrow> bool" where
  "beginsWith words s \<longleftrightarrow> list_ex (startsWith (lower s)) words"

definition layerType :: "row \<Rightarrow> string" where
  "layerType f = ''application/vnd.cncf.model.'' @ (if f_weights f \<or> isWeights (f_path f) then ''weight''
     else if beginsWith [''readme'', ''license'', ''notice'', ''changelog''] (baseName (f_path f)) \<or> hasSuffix [''md'', ''txt'', ''pdf''] (f_path f) then ''doc''
     else if hasSuffix [''py'', ''sh'', ''ipynb'', ''js'', ''ts'', ''c'', ''cpp'', ''h'', ''rs''] (f_path f) then ''code''
     else ''weight.config'') @ ''.v1.raw''"

text \<open>The files of a tag: all of them, or one GGUF file with the documents at the root; \<open>None\<close> when there is no such tag.\<close>

definition ociFiles :: "doc \<Rightarrow> string \<Rightarrow> row list option" where
  "ociFiles d tag = (if lower tag \<in> {''latest'', ''main''} \<or> (length tag \<ge> 7 \<and> startsWith (doc_revision d) tag) then Some (doc_files d)
     else case pk_file (pickGguf d tag) of
       Some file' \<Rightarrow> Some (filter (\<lambda>f. f = file' \<or> (beginsWith [''readme'', ''license''] (f_path f) \<and> CHR ''/'' \<notin> set (f_path f))) (doc_files d))
     | None \<Rightarrow> None)"

lemma find_SomeD: "find P xs = Some x \<Longrightarrow> x \<in> set xs \<and> P x"
  by (auto simp: find_Some_iff)

lemma matchGguf_mem: "matchGguf t fs = Some f \<Longrightarrow> f \<in> set fs"
  by (auto simp: matchGguf_def split: option.splits dest!: find_SomeD)

lemma find_filter_mem: "find P (filter Q xs) = Some x \<Longrightarrow> x \<in> set xs \<and> Q x"
  by (auto dest!: find_SomeD)

lemma pickGguf_mem: "pk_file (pickGguf d tag) = Some f \<Longrightarrow> f \<in> set (ggufsOf d) \<and> \<not> isShard (f_path f)"
proof -
  let ?w = "filter (\<lambda>f. \<not> isShard (f_path f)) (ggufsOf d)"
  assume "pk_file (pickGguf d tag) = Some f"
  then have "f \<in> set ?w"
    by (auto simp only: pickGguf_def Let_def picked.simps split: if_splits option.splits list.splits
        dest: find_SomeD matchGguf_mem intro: list.set_intros)
  then show ?thesis by simp
qed

lemma ociFiles_sub: "ociFiles d tag = Some fs \<Longrightarrow> set fs \<subseteq> set (doc_files d) \<and> (doc_files d \<noteq> [] \<longrightarrow> fs \<noteq> [])"
  by (auto simp: ociFiles_def ggufsOf_def filter_empty_conv split: if_splits option.splits dest!: pickGguf_mem)

end
