(* ===== verification/Catalog.thy ===== *)
theory Catalog
  imports Resolve Pattern
begin

text \<open>
  The catalog behind the list route and the agents' search: the rows of \<open>models.json\<close> that the site
  publishes, the thin rows of the hub's own objects, the filters, the sort and the bounds of
  \<open>/api/models\<close>. A published document is taken as the record of the fields the code reads; \<open>None\<close>
  is a property that is not there.
\<close>

record facts =
  m_id :: string
  m_org :: string
  m_state :: string
  m_manifest :: string
  m_revision :: string
  m_likes :: nat
  m_downloads :: nat
  m_rank :: "nat option"
  m_created :: "string option"
  m_task :: "string option"
  m_library :: "string option"
  m_format :: "string option"
  m_arch :: "string option"
  m_license :: "string option"
  m_languages :: "string list"
  m_files :: "json option"
  m_weightBytes :: "nat option"
  m_params :: "nat option"
  m_context :: "nat option"
  m_sources :: "json option"

record crow =
  r_short :: string
  r_id :: string
  r_author :: string
  r_sha :: string
  r_likes :: nat
  r_downloads :: nat
  r_trending :: nat
  r_created :: "string option"
  r_task :: "string option"
  r_library :: "string option"
  r_tags :: "string list"
  r_listed :: bool
  r_manifest :: string
  r_files :: "json option"
  r_weights :: "nat option"
  r_params :: "nat option"
  r_context :: "nat option"
  r_sources :: "json option"

text \<open>\<open>x || undefined\<close> of a text and of a number.\<close>

definition someText :: "string option \<Rightarrow> string option" where
  "someText t = (if t = Some [] then None else t)"

definition someNum :: "nat option \<Rightarrow> nat option" where
  "someNum n = (if n = Some 0 then None else n)"

definition tagsOf :: "facts \<Rightarrow> string list" where
  "tagsOf m = filter (\<lambda>t. t \<noteq> []) (map (\<lambda>t. case t of Some s \<Rightarrow> s | None \<Rightarrow> [])
       [m_task m, m_library m, map_option lower (m_format m), m_arch m, map_option ((@) ''license:'') (someText (m_license m))]
     @ m_languages m)"

definition TRENDING_MOST :: int where "TRENDING_MOST = 501"

definition trendingOf :: "nat option \<Rightarrow> nat" where
  "trendingOf rank = (case someNum rank of None \<Rightarrow> 0 | Some r \<Rightarrow> nat (max 0 (TRENDING_MOST - int r)))"

definition rowOf :: "facts \<Rightarrow> crow" where
  "rowOf m = \<lparr>r_short = take 24 (digestOf (m_manifest m)), r_id = m_id m, r_author = m_org m, r_sha = m_revision m,
     r_likes = m_likes m, r_downloads = m_downloads m, r_trending = trendingOf (m_rank m),
     r_created = map_option (\<lambda>c. c @ ''T00:00:00.000Z'') (someText (m_created m)),
     r_task = someText (m_task m), r_library = someText (m_library m), r_tags = tagsOf m, r_listed = True, r_manifest = m_manifest m,
     r_files = m_files m, r_weights = m_weightBytes m, r_params = someNum (m_params m), r_context = someNum (m_context m), r_sources = m_sources m\<rparr>"

text \<open>A thin row of a model the browse list has forgotten: its name and its object.\<close>

definition thinRow :: "string \<times> string \<Rightarrow> crow" where
  "thinRow e = (case e of (i, object) \<Rightarrow> \<lparr>r_short = [], r_id = i, r_author = hd (segments i), r_sha = [], r_likes = 0, r_downloads = 0, r_trending = 0,
     r_created = None, r_task = None, r_library = None, r_tags = [], r_listed = False, r_manifest = object,
     r_files = None, r_weights = None, r_params = None, r_context = None, r_sources = None\<rparr>)"

subsection \<open>The hub's own catalog\<close>

record hubState =
  hub_at :: int
  hub_objects :: "(string \<times> string) list"

definition HUB_KEEP :: int where "HUB_KEEP = 600000"

text \<open>
  \<open>hubCatalog\<close>: asked again after ten minutes. \<open>got\<close> is what the descriptor and the catalog say, the
  names with their model objects, or \<open>None\<close> when either did not answer; what was cached then stays.
\<close>

definition hubCatalog :: "int \<Rightarrow> int \<Rightarrow> (string \<times> string) list option \<Rightarrow> hubState \<Rightarrow> hubState" where
  "hubCatalog now later got h = (if now - hub_at h < HUB_KEEP then h
     else case got of Some os \<Rightarrow> \<lparr>hub_at = later, hub_objects = os\<rparr> | None \<Rightarrow> h\<lparr>hub_at := now\<rparr>)"

definition extraOf :: "hubState \<Rightarrow> crow list" where
  "extraOf h = map thinRow (hub_objects h)"

text \<open>\<open>objects.get(id.toLowerCase())\<close>: the last name with these letters.\<close>

definition objectFor :: "hubState \<Rightarrow> string \<Rightarrow> (string \<times> string) option" where
  "objectFor h i = find (\<lambda>e. lower (fst e) = lower i) (rev (hub_objects h))"

subsection \<open>Rows\<close>

record catState =
  cat_at :: int
  cat_rows :: "crow list"

definition CAT_KEEP :: int where "CAT_KEEP = 60000"

text \<open>\<open>file\<close> is \<open>models.json\<close>, \<open>None\<close> when it cannot be read or parsed.\<close>

definition reloadRows :: "int \<Rightarrow> facts list option \<Rightarrow> catState \<Rightarrow> catState" where
  "reloadRows now file' c = (if now - cat_at c > CAT_KEEP
     then (case file' of Some ms \<Rightarrow> \<lparr>cat_at = now, cat_rows = map rowOf (filter (\<lambda>m. m_state m = ''addressed'') ms)\<rparr>
       | None \<Rightarrow> c\<lparr>cat_at := now\<rparr>)
     else c)"

definition rows :: "catState \<Rightarrow> hubState \<Rightarrow> crow list" where
  "rows c h = cat_rows c @ filter (\<lambda>r. r_id r \<notin> r_id ` set (cat_rows c)) (extraOf h)"

subsection \<open>The list route\<close>

definition optJson :: "string \<Rightarrow> ('a \<Rightarrow> json) \<Rightarrow> 'a option \<Rightarrow> (string \<times> json) list" where
  "optJson k g v = (case v of None \<Rightarrow> [] | Some x \<Rightarrow> [(k, g x)])"

definition numJson :: "nat \<Rightarrow> json" where
  "numJson n = JNum (int n)"

definition hologramJson :: "crow \<Rightarrow> json" where
  "hologramJson r = (if r_listed r
     then JObj ((''manifest'', JStr (r_manifest r)) # optJson ''files'' id (r_files r) @ optJson ''weight_bytes'' numJson (r_weights r)
       @ optJson ''parameters'' numJson (r_params r) @ optJson ''context'' numJson (r_context r) @ optJson ''sources'' id (r_sources r))
     else JObj [(''manifest'', JStr (r_manifest r)), (''listed'', JBool False)])"

definition rowJson :: "crow \<Rightarrow> json" where
  "rowJson r = JObj ([(''_id'', JStr (r_short r)), (''id'', JStr (r_id r)), (''modelId'', JStr (r_id r)), (''author'', JStr (r_author r)),
       (''sha'', JStr (r_sha r)), (''private'', JBool False), (''gated'', JBool False), (''disabled'', JBool False),
       (''likes'', numJson (r_likes r)), (''downloads'', numJson (r_downloads r)), (''trendingScore'', numJson (r_trending r))]
     @ optJson ''createdAt'' JStr (r_created r) @ optJson ''pipeline_tag'' JStr (r_task r) @ optJson ''library_name'' JStr (r_library r)
     @ [(''tags'', JArr (map JStr (r_tags r))), (''hologram'', hologramJson r)])"

datatype sortKey = KDownloads | KLikes | KTrending | KCreated | KNothing

text \<open>
  \<open>SORTS[name]\<close>: the five names of the table, and the names every object inherits, whose value is
  no property of a row, so that every comparison with it is a tie.
\<close>

definition INHERITED :: "string list" where
  "INHERITED = [''constructor'', ''hasOwnProperty'', ''isPrototypeOf'', ''propertyIsEnumerable'', ''toString'', ''toLocaleString'', ''valueOf'',
     ''__proto__'', ''__defineGetter__'', ''__defineSetter__'', ''__lookupGetter__'', ''__lookupSetter__'']"

definition sortKeyOf :: "string \<Rightarrow> sortKey option" where
  "sortKeyOf s = (if s = ''downloads'' then Some KDownloads else if s = ''likes'' then Some KLikes
     else if s = ''trendingScore'' \<or> s = ''trending_score'' then Some KTrending
     else if s = ''createdAt'' \<or> s = ''created_at'' then Some KCreated
     else if s \<in> set INHERITED then Some KNothing else None)"

text \<open>
  Stable sorts. Dates that only some rows have make the comparison no order; what the engine does with
  that is not followed.
\<close>

definition sortRows :: "sortKey \<Rightarrow> bool \<Rightarrow> crow list \<Rightarrow> crow list result" where
  "sortRows k up rs = (let byNum = (\<lambda>g. if up then sort_key g rs else rev (sort_key g (rev rs))) in case k of
     KDownloads \<Rightarrow> Inr (byNum r_downloads)
   | KLikes \<Rightarrow> Inr (byNum r_likes)
   | KTrending \<Rightarrow> Inr (byNum r_trending)
   | KNothing \<Rightarrow> Inr rs
   | KCreated \<Rightarrow> (if list_all (\<lambda>r. r_created r = None) rs then Inr rs
       else if list_all (\<lambda>r. r_created r \<noteq> None) rs
       then Inr (if up then sort_key (\<lambda>r. the (r_created r)) rs else rev (sort_key (\<lambda>r. the (r_created r)) (rev rs)))
       else Inl Unmodelled))"

definition hasText :: "string \<Rightarrow> string \<Rightarrow> bool" where
  "hasText v needle \<longleftrightarrow> contains (lower v) (lower needle)"

definition queryAll :: "req \<Rightarrow> string \<Rightarrow> string list" where
  "queryAll q k = map snd (filter (\<lambda>kv. fst kv = k) (q_query q))"

definition keptBy :: "req \<Rightarrow> crow list \<Rightarrow> crow list" where
  "keptBy q rs = (let s = (\<lambda>k. someText (param q k));
       rs1 = (case s ''search'' of None \<Rightarrow> rs | Some t \<Rightarrow> filter (\<lambda>r. hasText (r_id r) t) rs);
       rs2 = (case s ''author'' of None \<Rightarrow> rs1 | Some t \<Rightarrow> filter (\<lambda>r. lower (r_author r) = lower t) rs1);
       rs3 = (case s ''pipeline_tag'' of None \<Rightarrow> rs2 | Some t \<Rightarrow> filter (\<lambda>r. r_task r = Some t) rs2);
       rs4 = (case s ''library'' of None \<Rightarrow> rs3 | Some t \<Rightarrow> filter (\<lambda>r. r_library r = Some t) rs3)
     in foldl (\<lambda>out tag. filter (\<lambda>r. list_ex (\<lambda>t. lower t = lower tag) (r_tags r)) out) rs4
          (concat (map (splitAt (CHR '','')) (queryAll q ''filter''))))"

definition LIST_DEFAULT :: nat where "LIST_DEFAULT = 50"
definition LIST_MOST :: nat where "LIST_MOST = 500"

definition limitOf :: "req \<Rightarrow> res + nat" where
  "limitOf q = (case param q ''limit'' of
     None \<Rightarrow> Inr LIST_DEFAULT
   | Some l \<Rightarrow> if l = [] \<or> \<not> list_all isDigit l
       then Inl (refuse (q_verb q) 400 ''BadParameter'' ''limit must be a whole number between 1 and 500.'')
     else if undecimal l < 1 \<or> LIST_MOST < undecimal l then Inl (refuse (q_verb q) 400 ''BadParameter'' ''limit must be between 1 and 500.'')
     else Inr (undecimal l))"

definition SORT_NAMES :: "string list" where
  "SORT_NAMES = [''downloads'', ''likes'', ''trendingScore'', ''trending_score'', ''createdAt'', ''created_at'']"

definition listRoute :: "req \<Rightarrow> crow list \<Rightarrow> res result" where
  "listRoute q rs = (let out = keptBy q rs in
     case (case param q ''sort'' of None \<Rightarrow> Some KTrending | Some s \<Rightarrow> sortKeyOf s) of
       None \<Rightarrow> Inr (refuse (q_verb q) 400 ''BadParameter'' (''sort must be one of '' @ join '', '' SORT_NAMES @ ''.''))
     | Some k \<Rightarrow> (case limitOf q of Inl r \<Rightarrow> Inr r
       | Inr n \<Rightarrow> andThen (sortRows k (param q ''direction'' = Some ''1'') out) (\<lambda>srt.
           Inr (json (q_verb q) 200 (JArr (map rowJson (take n srt)))
             [(''access-control-allow-origin'', ''*''), (''x-total-count'', decimal (length srt))]))))"

subsection \<open>What the list route answers\<close>

lemma trendingOf_le: "trendingOf r \<le> 500"
  by (cases r) (auto simp: trendingOf_def someNum_def TRENDING_MOST_def)

lemma sortRows_mset: "sortRows k up rs = Inr out \<Longrightarrow> mset out = mset rs"
  by (auto simp: sortRows_def Let_def split: sortKey.splits if_splits)

lemma foldl_filter: "foldl (\<lambda>out t. filter (P t) out) rs ts = filter (\<lambda>r. \<forall>t \<in> set ts. P t r) rs"
  by (induction ts arbitrary: rs) (simp_all add: conj_commute)

lemma set_rows: "set (rows c h) = set (cat_rows c) \<union> {r \<in> thinRow ` set (hub_objects h). r_id r \<notin> r_id ` set (cat_rows c)}"
  by (auto simp: rows_def extraOf_def)

lemma limitOf_bounds: "limitOf q = Inr n \<Longrightarrow> 1 \<le> n \<and> n \<le> LIST_MOST"
  by (auto simp: limitOf_def LIST_DEFAULT_def LIST_MOST_def split: option.splits if_splits)

lemma sorted_desc: "sorted_wrt (\<lambda>a b. g b \<le> g a) (rev (sort_key g (rev rs)))"
  using sorted_sort_key [of g "rev rs"] by (simp add: sorted_wrt_rev sorted_map)

lemma stable_desc: "filter (\<lambda>y. g y = x) (rev (sort_key g (rev rs))) = filter (\<lambda>y. g y = x) rs"
proof -
  have "filter (\<lambda>y. g y = x) (rev (sort_key g (rev rs))) = rev (filter (\<lambda>y. g y = x) (sort_key g (rev rs)))" by (simp add: rev_filter)
  also have "\<dots> = rev (filter (\<lambda>y. g y = x) (rev rs))" by (simp only: sort_key_stable)
  finally show ?thesis by (simp add: rev_filter)
qed

text \<open>What a query asks of a row, filter by filter, and how it compares two rows.\<close>

definition passes :: "req \<Rightarrow> crow \<Rightarrow> bool" where
  "passes q r \<longleftrightarrow> (\<forall>t \<in> set_option (someText (param q ''search'')). hasText (r_id r) t)
     \<and> (\<forall>t \<in> set_option (someText (param q ''author'')). lower (r_author r) = lower t)
     \<and> (\<forall>t \<in> set_option (someText (param q ''pipeline_tag'')). r_task r = Some t)
     \<and> (\<forall>t \<in> set_option (someText (param q ''library'')). r_library r = Some t)
     \<and> (\<forall>f \<in> set (queryAll q ''filter''). \<forall>tag \<in> set (splitAt (CHR '','') f). \<exists>t \<in> set (r_tags r). lower t = lower tag)"

definition atMost :: "req \<Rightarrow> crow \<Rightarrow> crow \<Rightarrow> bool" where
  "atMost q a b = (let s = (case param q ''sort'' of None \<Rightarrow> ''trendingScore'' | Some s \<Rightarrow> s) in
     if s = ''downloads'' then r_downloads a \<le> r_downloads b
     else if s = ''likes'' then r_likes a \<le> r_likes b
     else if s \<in> {''trendingScore'', ''trending_score''} then r_trending a \<le> r_trending b
     else if s \<in> {''createdAt'', ''created_at''} then the (r_created a) \<le> the (r_created b) else True)"

definition inOrder :: "req \<Rightarrow> crow \<Rightarrow> crow \<Rightarrow> bool" where
  "inOrder q a b = (if param q ''direction'' = Some ''1'' then atMost q a b else atMost q b a)"

definition tied :: "req \<Rightarrow> crow \<Rightarrow> crow \<Rightarrow> bool" where
  "tied q a b \<longleftrightarrow> atMost q a b \<and> atMost q b a"

lemma keptBy_passes: "keptBy q rs = filter (passes q) rs"
  by (auto simp: keptBy_def passes_def Let_def foldl_filter list_ex_iff intro!: filter_cong split: option.splits)

lemma ties: "filter (\<lambda>y. (g :: crow \<Rightarrow> 'a :: linorder) x \<le> g y \<and> g y \<le> g x) = filter (\<lambda>y. g y = g x)"
  by (rule arg_cong [where f = filter]) (auto simp: fun_eq_iff)

text \<open>A sort by one field is in order and leaves ties as they were.\<close>

lemma sorted_by:
  fixes g :: "crow \<Rightarrow> 'a :: linorder"
  assumes "\<And>a b. atMost q a b \<longleftrightarrow> g a \<le> g b"
  shows "sorted_wrt (inOrder q) (if param q ''direction'' = Some ''1'' then sort_key g rs else rev (sort_key g (rev rs)))
    \<and> (\<forall>x. filter (tied q x) (if param q ''direction'' = Some ''1'' then sort_key g rs else rev (sort_key g (rev rs))) = filter (tied q x) rs)"
proof -
  have t: "filter (tied q x) = filter (\<lambda>y. g y = g x)" for x unfolding tied_def [abs_def] assms by (rule ties)
  show ?thesis
    using sorted_desc [of g rs] sorted_sort_key [of g rs]
    by (simp add: t stable_desc sort_key_stable inOrder_def [abs_def] assms sorted_map)
qed

lemma sorted_ties: "(\<And>a b. a \<in> set rs \<Longrightarrow> b \<in> set rs \<Longrightarrow> atMost q a b) \<Longrightarrow> sorted_wrt (inOrder q) rs"
  by (induction rs) (auto simp: inOrder_def)

lemma sortKeyOf_names:
  "sortKeyOf s = Some KDownloads \<Longrightarrow> s = ''downloads''"
  "sortKeyOf s = Some KLikes \<Longrightarrow> s = ''likes''"
  "sortKeyOf s = Some KTrending \<Longrightarrow> s = ''trendingScore'' \<or> s = ''trending_score''"
  "sortKeyOf s = Some KCreated \<Longrightarrow> s = ''createdAt'' \<or> s = ''created_at''"
  "sortKeyOf s = Some KNothing \<Longrightarrow> s \<notin> {''downloads'', ''likes'', ''trendingScore'', ''trending_score'', ''createdAt'', ''created_at''}"
  by (auto simp: sortKeyOf_def split: if_split_asm)

lemma atMost_key:
  assumes "(case param q ''sort'' of None \<Rightarrow> Some KTrending | Some s \<Rightarrow> sortKeyOf s) = Some k"
  shows "atMost q a b = (case k of KDownloads \<Rightarrow> r_downloads a \<le> r_downloads b | KLikes \<Rightarrow> r_likes a \<le> r_likes b
    | KTrending \<Rightarrow> r_trending a \<le> r_trending b | KCreated \<Rightarrow> the (r_created a) \<le> the (r_created b) | KNothing \<Rightarrow> True)"
proof (cases "param q ''sort''")
  case None
  with assms have "k = KTrending" by simp
  then show ?thesis by (simp add: atMost_def None)
next
  case (Some s)
  with assms have s: "sortKeyOf s = Some k" by simp
  show ?thesis
  proof (cases k)
    case KDownloads
    then have "s = ''downloads''" using s sortKeyOf_names(1) by simp
    then show ?thesis by (simp add: atMost_def Some KDownloads)
  next
    case KLikes
    then have "s = ''likes''" using s sortKeyOf_names(2) by simp
    then show ?thesis by (simp add: atMost_def Some KLikes)
  next
    case KTrending
    then have "s = ''trendingScore'' \<or> s = ''trending_score''" using s sortKeyOf_names(3) by simp
    then show ?thesis by (elim disjE) (simp_all add: atMost_def Some KTrending)
  next
    case KCreated
    then have "s = ''createdAt'' \<or> s = ''created_at''" using s sortKeyOf_names(4) by simp
    then show ?thesis by (elim disjE) (simp_all add: atMost_def Some KCreated)
  next
    case KNothing
    then have "s \<notin> {''downloads'', ''likes'', ''trendingScore'', ''trending_score'', ''createdAt'', ''created_at''}" using s sortKeyOf_names(5) by simp
    then show ?thesis by (simp add: atMost_def Some KNothing)
  qed
qed

lemma sortRows_spec:
  assumes "sortRows k (param q ''direction'' = Some ''1'') rs = Inr srt"
    and "(case param q ''sort'' of None \<Rightarrow> Some KTrending | Some s \<Rightarrow> sortKeyOf s) = Some k"
  shows "sorted_wrt (inOrder q) srt \<and> (\<forall>x. filter (tied q x) srt = filter (tied q x) rs)"
proof (cases k)
  case KDownloads
  have "\<And>a b. atMost q a b \<longleftrightarrow> r_downloads a \<le> r_downloads b"
    using atMost_key [OF assms(2)] KDownloads by simp
  from sorted_by [OF this, of rs] show ?thesis using assms(1) KDownloads by (auto simp: sortRows_def Let_def)
next
  case KLikes
  have "\<And>a b. atMost q a b \<longleftrightarrow> r_likes a \<le> r_likes b"
    using atMost_key [OF assms(2)] KLikes by simp
  from sorted_by [OF this, of rs] show ?thesis using assms(1) KLikes by (auto simp: sortRows_def Let_def)
next
  case KTrending
  have "\<And>a b. atMost q a b \<longleftrightarrow> r_trending a \<le> r_trending b"
    using atMost_key [OF assms(2)] KTrending by simp
  from sorted_by [OF this, of rs] show ?thesis using assms(1) KTrending by (auto simp: sortRows_def Let_def)
next
  case KCreated
  have le: "\<And>a b. atMost q a b \<longleftrightarrow> the (r_created a) \<le> the (r_created b)"
    using atMost_key [OF assms(2)] KCreated by simp
  show ?thesis
  proof (cases "list_all (\<lambda>r. r_created r = None) rs")
    case True
    then have "sorted_wrt (inOrder q) rs" by (intro sorted_ties) (simp add: le list_all_iff)
    then show ?thesis using assms(1) KCreated True by (simp add: sortRows_def)
  next
    case False
    from sorted_by [OF le, of rs] show ?thesis using assms(1) KCreated False by (auto simp: sortRows_def Let_def split: if_splits)
  qed
next
  case KNothing
  have "atMost q a b" for a b
    using atMost_key [OF assms(2)] KNothing by simp
  then have "sorted_wrt (inOrder q) rs" by (intro sorted_ties)
  then show ?thesis using assms(1) KNothing by (simp add: sortRows_def Let_def)
qed


definition sampleQuery :: req where
  "sampleQuery = \<lparr>q_verb = ''GET'', q_url = ''/api/models?limit=1'', q_path = ''/api/models'', q_query = [(''limit'', ''1'')], q_heads = [], q_data = []\<rparr>"

lemma sample_list: "\<exists>r. listRoute sampleQuery (map thinRow [(''a/b'', ''x''), (''c/d'', ''y'')]) = Inr r \<and> o_status r = 200"
proof -
  have "limitOf sampleQuery = Inr 1"
    by (simp add: limitOf_def sampleQuery_def param_def isDigit_def undecimal_def digitVal_def LIST_MOST_def)
  then show ?thesis by (simp add: listRoute_def sampleQuery_def param_def sortRows_def json_def Let_def)
qed


end
