(* ===== verification/Dialects.thy ===== *)
theory Dialects
  imports Resolve Pattern
begin

text \<open>
  The handlers of \<open>deploy/hub-resolve.mjs\<close> for the Hugging Face, ModelScope and Git LFS dialects, and
  the route each path takes.
\<close>

subsection \<open>Routes\<close>

datatype route =
    RInfo string "string option"
  | RTree string bool string string
  | RRefs string
  | RXet
  | RModelScope string string
  | RAcceleration
  | RFile string string string
  | ROci string string string
  | RList
  | RHealth
  | RBlob string
  | RElsewhere
  | RNotFound

text \<open>What the modules beside this one answer themselves: the tensor mirror, the kappa mirror, plain names, pages.\<close>

record claims =
  c_tensor :: "string \<Rightarrow> bool"
  c_kappa :: "string \<Rightarrow> bool"
  c_root :: "string \<Rightarrow> bool"
  c_page :: "string \<Rightarrow> bool"

definition rejoin :: "string list \<Rightarrow> string" where
  "rejoin parts = join ''/'' parts"

text \<open>What \<open>.\<close> matches: a line break ends it.\<close>

definition noBreak :: "string \<Rightarrow> bool" where
  "noBreak s \<longleftrightarrow> CHR 0x0A \<notin> set s \<and> CHR 0x0D \<notin> set s"

text \<open>Two segments as a name; both must be there.\<close>

definition nameOf :: "string \<Rightarrow> string \<Rightarrow> string option" where
  "nameOf org name = (if org \<noteq> [] \<and> name \<noteq> [] then Some (org @ ''/'' @ name) else None)"

definition modelScopeRoute :: "string list \<Rightarrow> (string \<times> string) option" where
  "modelScopeRoute parts = (case parts of
     e # a # b # c # org # name # rest \<Rightarrow>
       if e = [] \<and> a = ''api'' \<and> b = ''v1'' \<and> c = ''models'' \<and> rest \<in> {[], [''repo'', ''files''], [''repo''], [''revisions'']}
       then map_option (\<lambda>i. (i, rejoin rest)) (nameOf org name) else None
   | _ \<Rightarrow> None)"

definition refsRoute :: "string list \<Rightarrow> string option" where
  "refsRoute parts = (case parts of
     [e, a, b, org, name, w] \<Rightarrow> if e = [] \<and> a = ''api'' \<and> b = ''models'' \<and> w = ''refs'' then nameOf org name else None
   | _ \<Rightarrow> None)"

definition isXet :: "string list \<Rightarrow> bool" where
  "isXet parts \<longleftrightarrow> (case parts of
     [e, a, b, org, name, w, rv] \<Rightarrow> e = [] \<and> a = ''api'' \<and> b = ''models'' \<and> org \<noteq> [] \<and> name \<noteq> [] \<and> w = ''xet-read-token'' \<and> rv \<noteq> []
   | _ \<Rightarrow> False)"

definition treeRoute :: "string list \<Rightarrow> (string \<times> bool \<times> string \<times> string) option" where
  "treeRoute parts = (case parts of
     e # a # b # org # name # w # rv # rest \<Rightarrow>
       if e = [] \<and> a = ''api'' \<and> b = ''models'' \<and> (w = ''tree'' \<or> w = ''treesize'') \<and> rv \<noteq> [] \<and> noBreak (rejoin rest)
       then map_option (\<lambda>i. (i, w = ''treesize'', rv, rejoin rest)) (nameOf org name) else None
   | _ \<Rightarrow> None)"

definition infoRoute :: "string list \<Rightarrow> (string \<times> string option) option" where
  "infoRoute parts = (case parts of
     e # a # b # org # name # rest \<Rightarrow>
       if e = [] \<and> a = ''api'' \<and> b = ''models'' then
         (case rest of [] \<Rightarrow> map_option (\<lambda>i. (i, None)) (nameOf org name)
          | w # rv \<Rightarrow> if w = ''revision'' \<and> rejoin rv \<noteq> [] \<and> noBreak (rejoin rv) then map_option (\<lambda>i. (i, Some (rejoin rv))) (nameOf org name) else None)
       else None
   | _ \<Rightarrow> None)"

definition fileRoute :: "string list \<Rightarrow> (string \<times> string \<times> string) option" where
  "fileRoute parts = (case parts of
     e # org # name # w # rv # rest \<Rightarrow>
       if e = [] \<and> w = ''resolve'' \<and> rv \<noteq> [] \<and> rejoin rest \<noteq> [] \<and> noBreak (rejoin rest) then map_option (\<lambda>i. (i, rv, rejoin rest)) (nameOf org name) else None
   | _ \<Rightarrow> None)"

definition ociRoute :: "string list \<Rightarrow> (string \<times> string \<times> string) option" where
  "ociRoute parts = (case parts of
     e # a # org # name # kind # rest \<Rightarrow>
       if e = [] \<and> a = ''v2'' \<and> kind \<in> {''manifests'', ''blobs'', ''tags''} \<and> rejoin rest \<noteq> [] \<and> noBreak (rejoin rest) then map_option (\<lambda>i. (i, kind, rejoin rest)) (nameOf org name) else None
   | _ \<Rightarrow> None)"

definition blobRoute :: "string \<Rightarrow> string option" where
  "blobRoute path = (if startsWith path ''/_blob/sha256:'' \<and> isHex64 (drop 14 path) then Some (drop 14 path) else None)"

text \<open>\<open>/^\\/via\\/([a-z.]+)(\\/.*)$/\<close>: the pin in the path, and the path after it.\<close>

definition viaRoute :: "string \<Rightarrow> (string \<times> string) option" where
  "viaRoute path = (case segments path of
     e # w # v # rest \<Rightarrow> if e = [] \<and> w = ''via'' \<and> v \<noteq> [] \<and> list_all (\<lambda>c. c = CHR ''.'' \<or> (CHR ''a'' \<le> c \<and> c \<le> CHR ''z'')) v \<and> rest \<noteq> [] \<and> noBreak (rejoin rest)
       then Some (v, ''/'' @ rejoin rest) else None
   | _ \<Rightarrow> None)"

definition viaOf :: "string \<Rightarrow> string" where
  "viaOf v = (if v = ''modelscope'' then ''modelscope.cn'' else if v = ''huggingface'' then ''huggingface.co'' else v)"

definition routeOf :: "claims \<Rightarrow> bool \<Rightarrow> string \<Rightarrow> route" where
  "routeOf cl verify path = (let parts = segments path in
     if (startsWith path ''/v2/models/'' \<or> startsWith path ''/v2/tensors/'' \<or> startsWith path ''/v2/kappa/'') \<and> c_tensor cl path then RElsewhere
     else if verify \<and> blobRoute path \<noteq> None then RBlob (the (blobRoute path))
     else if startsWith path ''/v2/'' \<and> c_kappa cl path then RElsewhere
     else if c_root cl path then RElsewhere
     else case ociRoute parts of Some (i, kind, ref) \<Rightarrow> ROci i kind ref
     | None \<Rightarrow> if path = ''/api/models'' \<or> path = ''/api/models/'' then RList
     else if path = ''/api/hub/health'' then RHealth
     else case modelScopeRoute parts of Some (i, sub) \<Rightarrow> RModelScope i sub
     | None \<Rightarrow> if path = ''/api/v1/repos/internalAccelerationInfo'' then RAcceleration
     else if isXet parts then RXet
     else case refsRoute parts of Some i \<Rightarrow> RRefs i
     | None \<Rightarrow> (case treeRoute parts of Some (i, size', rv, dir) \<Rightarrow> RTree i size' rv dir
     | None \<Rightarrow> (case infoRoute parts of Some (i, rv) \<Rightarrow> RInfo i rv
     | None \<Rightarrow> if c_page cl path then RElsewhere
     else (case fileRoute parts of Some (i, rv, p) \<Rightarrow> if i = ''api/models'' then RNotFound else RFile i rv p
     | None \<Rightarrow> RNotFound))))"

subsection \<open>Hugging Face\<close>

definition findFile :: "doc \<Rightarrow> string \<Rightarrow> row option" where
  "findFile d p = find (\<lambda>f. f_path f = p) (doc_files d)"

definition etagOf :: "row \<Rightarrow> string" where
  "etagOf f = CHR 0x22 # digestOf (f_address f) @ [CHR 0x22]"

definition lfsJson :: "row \<Rightarrow> json" where
  "lfsJson f = JObj [(''sha256'', JStr (digestOf (f_address f))), (''size'', JNum (int (f_size f))), (''pointerSize'', JNum 0)]"

definition totalSize :: "row list \<Rightarrow> int" where
  "totalSize fs = sum_list (map (\<lambda>f. int (f_size f)) fs)"

definition infoAnswer :: "edge \<Rightarrow> req \<Rightarrow> doc \<Rightarrow> res" where
  "infoAnswer v q d = (let blobs = yes (param q ''blobs'');
       siblings = map (\<lambda>f. if blobs then JObj [(''rfilename'', JStr (f_path f)), (''size'', JNum (int (f_size f))), (''lfs'', lfsJson f)]
         else JObj [(''rfilename'', JStr (f_path f))]) (doc_files d)
     in json (q_verb q) 200 (JObj ([(''_id'', JStr (take 24 (digestOf (doc_manifest d)))), (''id'', JStr (doc_id d)), (''modelId'', JStr (doc_id d)),
         (''sha'', JStr (doc_revision d)), (''private'', JBool False), (''gated'', JBool False), (''disabled'', JBool False), (''tags'', JArr []),
         (''downloads'', JNum 0), (''likes'', JNum 0), (''siblings'', JArr siblings)]
         @ (if blobs then [(''usedStorage'', JNum (totalSize (doc_files d)))] else []) @ [(''hologram'', trust v d)])) [])"

definition treeAnswer :: "req \<Rightarrow> doc \<Rightarrow> bool \<Rightarrow> string \<Rightarrow> res" where
  "treeAnswer q d wantsSize rest = (let at = (if rest \<noteq> [] \<and> last rest = CHR ''/'' then butlast rest else rest);
       dir = (if at \<noteq> [] then at @ ''/'' else []); under = filter (\<lambda>f. startsWith (f_path f) dir) (doc_files d)
     in if at \<noteq> [] \<and> under = [] then refuse (q_verb q) 404 ''EntryNotFound'' (at @ '' is not a folder in '' @ doc_id d @ '' at '' @ doc_revision d @ ''.'')
       else if wantsSize then json (q_verb q) 200 (JObj [(''path'', JStr at), (''size'', JNum (totalSize under))]) []
       else if param q ''cursor'' \<noteq> None then json (q_verb q) 200 (JArr []) []
       else (case param q ''recursive'' of
           None \<Rightarrow> json (q_verb q) 200 (JArr (map lentJson (filter (\<lambda>e. \<not> le_dir e) (listing under dir True)))) []
         | Some r \<Rightarrow> json (q_verb q) 200 (JArr (map lentJson (listing under dir (lower r = ''true'' \<or> lower r = ''1'')))) []))"

definition sumsOf :: "doc \<Rightarrow> bytes" where
  "sumsOf d = utf8 (concat (map (\<lambda>f. digestOf (f_address f) @ ''  '' @ f_path f @ [CHR 0x0A]) (doc_files d)))"

definition redirect :: "nat \<Rightarrow> string \<Rightarrow> (string \<times> string) list \<Rightarrow> string \<Rightarrow> res" where
  "redirect status location headers kind = \<lparr>o_status = status, o_headers = (''location'', location) # headers
     @ [(''x-hub-source'', kind), (''cache-control'', ''no-store''), (''content-length'', ''0'')], o_body = []\<rparr>"

definition fileAnswer :: "edge \<Rightarrow> req \<Rightarrow> string option \<Rightarrow> doc \<Rightarrow> string \<Rightarrow> outcome result" where
  "fileAnswer v q via d p = (case findFile d p of
     None \<Rightarrow> if p = ''SHA256SUMS'' then Inr (Reply \<lparr>o_status = 200, o_headers = [(''content-type'', ''text/plain; charset=utf-8''),
           (''content-length'', decimal (length (sumsOf d))), (''x-repo-commit'', doc_revision d), (''etag'', CHR 0x22 # hex (sha256 (sumsOf d)) @ [CHR 0x22])],
           o_body = (if q_verb q = ''HEAD'' then [] else sumsOf d)\<rparr>)
       else Inr (Reply (refuse (q_verb q) 404 ''EntryNotFound'' (p @ '' is not in '' @ doc_id d @ '' at '' @ doc_revision d @ ''.'')))
   | Some f \<Rightarrow> (let linked = [(''x-repo-commit'', doc_revision d), (''x-linked-etag'', etagOf f), (''x-linked-size'', decimal (f_size f)), (''etag'', etagOf f)] in
       case chooseSource (v_health v) d f via of
         Denied code message \<Rightarrow> Inr (Reply (refuse (q_verb q) 404 code message))
       | Chosen s _ \<Rightarrow> if v_verify v then Inr (Serve d f via linked)
           else (case s of None \<Rightarrow> Inl TypeError
             | Some s \<Rightarrow> Inr (Reply (redirect 302 (urlFor s f) (linked @ [(''accept-ranges'', ''bytes'')]) (src_kind s))))))"

text \<open>A handler that needs the model: a model the hub does not have, then a revision it does not have.\<close>

definition withModel :: "edge \<Rightarrow> req \<Rightarrow> string \<Rightarrow> string option \<Rightarrow> (doc \<Rightarrow> outcome result) \<Rightarrow> (outcome \<times> string list) result" where
  "withModel v q i rv h = (case v_model v i of
     None \<Rightarrow> Inr (missingModel v (q_verb q) i)
   | Some d \<Rightarrow> if rv \<noteq> None \<and> \<not> revisionOk d (the rv) then Inr (Reply (noRevision (q_verb q) d), [])
       else andThen (h d) (\<lambda>o'. Inr (o', [])))"

subsection \<open>ModelScope\<close>

definition msOk :: "string \<Rightarrow> json \<Rightarrow> res" where
  "msOk verb data = json verb 200 (JObj [(''Code'', JNum 200), (''Data'', data), (''Message'', JStr ''success''), (''Success'', JBool True)]) []"

definition msNo :: "string \<Rightarrow> nat \<Rightarrow> string \<Rightarrow> res" where
  "msNo verb status message = json verb status (JObj [(''Code'', JNum (int status)), (''Data'', JNull), (''Message'', JStr message), (''Success'', JBool False)]) []"

definition msDirs :: "doc \<Rightarrow> string list" where
  "msDirs d = rev (remdups (rev (concat (map (\<lambda>f. let a = butlast (segments (f_path f)) in map (\<lambda>i. rejoin (take (Suc i) a)) [0..<length a]) (doc_files d)))))"

definition msEntry :: "doc \<Rightarrow> string \<Rightarrow> string \<Rightarrow> nat \<Rightarrow> string \<Rightarrow> bool \<Rightarrow> json" where
  "msEntry d p type sz h lfs = JObj [(''Name'', JStr (baseName p)), (''Path'', JStr p), (''Type'', JStr type), (''Size'', JNum (int sz)),
     (''Sha256'', JStr h), (''IsLFS'', JBool lfs), (''Revision'', JStr (doc_revision d))]"

definition msFiles :: "doc \<Rightarrow> json" where
  "msFiles d = JObj [(''Files'', JArr (map (\<lambda>p. msEntry d p ''tree'' 0 [] False) (msDirs d)
     @ map (\<lambda>f. msEntry d (f_path f) ''blob'' (f_size f) (digestOf (f_address f)) (f_weights f)) (doc_files d)))]"

text \<open>A file of ModelScope's route: \<open>choose\<close> is asked, and nothing looks at a refusal.\<close>

definition msFile :: "edge \<Rightarrow> req \<Rightarrow> string option \<Rightarrow> doc \<Rightarrow> row \<Rightarrow> outcome result" where
  "msFile v q via d f = (if v_verify v then Inr (Serve d f via [(''etag'', etagOf f)])
     else andThen (sourceOnly (chooseSource (v_health v) d f via)) (\<lambda>s.
       Inr (Reply (redirect 302 (urlFor s f) [(''etag'', etagOf f)] (src_kind s)))))"

definition modelScope :: "edge \<Rightarrow> req \<Rightarrow> string option \<Rightarrow> string \<Rightarrow> string \<Rightarrow> (outcome \<times> string list) result" where
  "modelScope v q via i sub = (case v_model v i of
     None \<Rightarrow> Inr (Reply (msNo (q_verb q) 404 (i @ '' is not in the Hologram index yet; the request was recorded for the next index run.'')), requested i)
   | Some d \<Rightarrow> (let rv = (case param q ''Revision'' of Some r \<Rightarrow> if r = [] then ''master'' else r | None \<Rightarrow> ''master'');
        asked = (case param q ''FilePath'' of Some p \<Rightarrow> p | None \<Rightarrow> ''null'') in
       if rv \<noteq> ''master'' \<and> \<not> revisionOk d rv
       then Inr (Reply (msNo (q_verb q) 404 (''The hub has '' @ doc_id d @ '' at '' @ doc_revision d @ '' (master) only.'')), [])
       else if sub = ''revisions'' then Inr (Reply (msOk (q_verb q) (JObj [(''RevisionMap'', JObj [(''Branches'',
          JArr [JObj [(''Revision'', JStr ''master''), (''CreatedAt'', JNum 0)]]), (''Tags'', JArr [])])])), [])
       else if sub = [] then Inr (Reply (msOk (q_verb q) (JObj [(''Name'', JStr (segments (doc_id d) ! 1)), (''Path'', JStr (hd (segments (doc_id d)))),
          (''Revision'', JStr (doc_revision d)), (''ModelId'', JStr (doc_id d))])), [])
       else if sub = ''repo/files'' then Inr (Reply (msOk (q_verb q) (msFiles d)), [])
       else (case (if param q ''FilePath'' = None then None else findFile d asked) of
           None \<Rightarrow> Inr (Reply (msNo (q_verb q) 404 (asked @ '' is not in '' @ doc_id d @ ''.'')), [])
         | Some f \<Rightarrow> andThen (msFile v q via d f) (\<lambda>o'. Inr (o', [])))))"

subsection \<open>Git LFS\<close>

text \<open>The objects of a batch request: \<open>Inl\<close> where \<open>.slice\<close> or \<open>.map\<close> is not there to call, or an entry is \<open>null\<close>.\<close>

definition askedObjects :: "json \<Rightarrow> json list result" where
  "askedObjects ask = (let o' = getProp ''objects'' ask in
     if falsy o' then Inr []
     else case the o' of JArr os \<Rightarrow> if JNull \<in> set (take 1000 os) then Inl TypeError else Inr (take 1000 os) | _ \<Rightarrow> Inl TypeError)"

definition optProp :: "string \<Rightarrow> json option \<Rightarrow> (string \<times> json) list" where
  "optProp k v = (case v of None \<Rightarrow> [] | Some x \<Rightarrow> [(k, x)])"

definition byOid :: "doc \<Rightarrow> string \<Rightarrow> row option" where
  "byOid d h = find (\<lambda>f. digestOf (f_address f) = h) (rev (doc_files d))"

definition lfsDownload :: "json option \<Rightarrow> row \<Rightarrow> string \<Rightarrow> json" where
  "lfsDownload oid f href = JObj (optProp ''oid'' oid @ [(''size'', JNum (int (f_size f))), (''authenticated'', JBool True),
     (''actions'', JObj [(''download'', JObj [(''href'', JStr href), (''expires_in'', JNum 3600)])])])"

definition lfsObject :: "edge \<Rightarrow> string \<Rightarrow> doc \<Rightarrow> json \<Rightarrow> (json \<times> row option) result" where
  "lfsObject v host d asked = (let oid = getProp ''oid'' asked; name = (case oid of None \<Rightarrow> ''undefined'' | Some x \<Rightarrow> toText x) in
     case byOid d name of
       None \<Rightarrow> Inr (JObj (optProp ''oid'' oid @ optProp ''size'' (getProp ''size'' asked) @ [(''error'', JObj [(''code'', JNum 404),
           (''message'', JStr (name @ '' is not part of '' @ doc_id d @ '' at '' @ doc_revision d @ ''.''))])]), None)
     | Some f \<Rightarrow> if v_verify v then Inr (lfsDownload oid f (''http://'' @ host @ ''/_blob/'' @ f_address f), Some f)
         else andThen (sourceOnly (chooseSource (v_health v) d f None)) (\<lambda>s. Inr (lfsDownload oid f (urlFor s f), None)))"

fun mapResult :: "('a \<Rightarrow> 'b result) \<Rightarrow> 'a list \<Rightarrow> 'b list result" where
  "mapResult g [] = Inr []"
| "mapResult g (x # xs) = andThen (g x) (\<lambda>y. andThen (mapResult g xs) (\<lambda>ys. Inr (y # ys)))"

definition lfsReply :: "nat \<Rightarrow> json \<Rightarrow> res" where
  "lfsReply status body = (let text = utf8 (stringify body) in
     \<lparr>o_status = status, o_headers = [(''content-type'', ''application/vnd.git-lfs+json''), (''content-length'', decimal (length text))], o_body = text\<rparr>)"

definition LFS_MOST :: nat where "LFS_MOST = 4 * 1048576"

definition lfsSays :: "nat \<Rightarrow> string \<Rightarrow> res" where
  "lfsSays status message = lfsReply status (JObj [(''message'', JStr message)])"

text \<open>The answer and the blobs that the verifying edge now knows, by digest.\<close>

definition lfsBatch :: "edge \<Rightarrow> string \<Rightarrow> req \<Rightarrow> string \<Rightarrow> (res \<times> (string \<times> doc \<times> row) list) result" where
  "lfsBatch v port q i = (case (if LFS_MOST < length (q_data q) then None else parse (decodeText (q_data q))) of
     None \<Rightarrow> Inr (lfsSays 400 ''The batch request is not JSON.'', [])
   | Some ask \<Rightarrow> if ask = JNull then Inl TypeError
       else if getProp ''operation'' ask \<noteq> Some (JStr ''download'') then Inr (lfsSays 403 ''This endpoint is read-only: download only.'', [])
       else (case v_model v i of
           None \<Rightarrow> Inr (lfsSays 404 (i @ '' is not in the Hologram index yet.''), [])
         | Some d \<Rightarrow> (let host = hostOf q [''x-forwarded-host'', ''host''] (''127.0.0.1:'' @ port) in
             andThen (askedObjects ask) (\<lambda>os. andThen (mapResult (lfsObject v host d) os) (\<lambda>rs.
               Inr (lfsReply 200 (JObj [(''transfer'', JStr ''basic''), (''objects'', JArr (map fst rs)), (''hash_algo'', JStr ''sha256'')]),
                 concat (map (\<lambda>r. case snd r of None \<Rightarrow> [] | Some f \<Rightarrow> [(drop 7 (f_address f), d, f)]) rs)))))))"

text \<open>\<open>/^\\/([^/]+\\/[^/]+?)(?:\\.git)?\\/info\\/lfs\\/objects\\/batch$/\<close> on the path as it was sent.\<close>

definition lfsRoute :: "string \<Rightarrow> string option" where
  "lfsRoute path = (case segments path of
     [e, org, name, a, b, c, w] \<Rightarrow> if e = [] \<and> a = ''info'' \<and> b = ''lfs'' \<and> c = ''objects'' \<and> w = ''batch''
       then nameOf org (if 4 < length name \<and> endsWith name ''.git'' then take (length name - 4) name else name) else None
   | _ \<Rightarrow> None)"

end
