(* ===== verification/Oci.thy ===== *)
theory Oci
  imports Catalog Dialects
begin

text \<open>
  The \<open>/v2\<close> dialects of \<open>deploy/hub-resolve.mjs\<close>: the manifests it writes for OCI clients and for
  Ollama, the shelf of small blobs in memory and on disk, the relay to the registry, and the blob
  route. What Hugging Face and the registry answer are arguments.
\<close>

definition MANIFEST_TYPE :: string where "MANIFEST_TYPE = ''application/vnd.docker.distribution.manifest.v2+json''"
definition OCI_MANIFEST :: string where "OCI_MANIFEST = ''application/vnd.oci.image.manifest.v1+json''"

definition sha :: "bytes \<Rightarrow> string" where
  "sha b = ''sha256:'' @ hex (sha256 b)"

definition ociError :: "string \<Rightarrow> nat \<Rightarrow> string \<Rightarrow> string \<Rightarrow> res" where
  "ociError verb status code message = json verb status (JObj [(''errors'', JArr [JObj [(''code'', JStr code), (''message'', JStr message)]])])
     [(''cache-control'', ''no-store'')]"

definition prop2 :: "string \<Rightarrow> json option \<Rightarrow> json option" where
  "prop2 k v = (case v of None \<Rightarrow> None | Some x \<Rightarrow> getProp k x)"

subsection \<open>The shelf\<close>

text \<open>
  \<open>small\<close> in memory, the files under \<open>STATE/ollama\<close> (by name), whether the disk takes writes, the manifests
  kept for ten minutes, and the blobs a manifest named to the verifying edge.
\<close>

record shelf =
  sh_small :: "string \<Rightarrow> bytes option"
  sh_disk :: "string \<Rightarrow> bytes option"
  sh_writes :: bool
  sh_manifests :: "string \<Rightarrow> (int \<times> bytes) option"
  sh_blobs :: "string \<Rightarrow> (doc \<times> row) option"

text \<open>\<open>s.replace(a, b)\<close> of a one-character \<open>a\<close>: the first only.\<close>

fun replaceFirst :: "char \<Rightarrow> string \<Rightarrow> string \<Rightarrow> string" where
  "replaceFirst a b [] = []"
| "replaceFirst a b (c # cs) = (if c = a then b @ cs else c # replaceFirst a b cs)"

definition cacheFile :: "string \<Rightarrow> string" where
  "cacheFile digest = replaceFirst (CHR '':'') ''-'' digest"

definition toDisk :: "string \<Rightarrow> bytes \<Rightarrow> shelf \<Rightarrow> shelf" where
  "toDisk name b s = (if sh_writes s then s\<lparr>sh_disk := (sh_disk s)(name \<mapsto> b)\<rparr> else s)"

definition keep :: "bytes \<Rightarrow> shelf \<Rightarrow> string \<times> shelf" where
  "keep b s = (sha b, toDisk (cacheFile (sha b)) b (s\<lparr>sh_small := (sh_small s)(sha b \<mapsto> b)\<rparr>))"

text \<open>Hugging Face's answer to a blob: whether it is a 200, its Content-Length (\<open>None\<close>: not a number), its bytes.\<close>

datatype blobAnswer = NoBlob | BlobAnswer bool "int option" "bytes option"

definition SMALL_MOST :: nat where "SMALL_MOST = 1048576"

definition fetchSmall :: "string \<Rightarrow> blobAnswer \<Rightarrow> shelf \<Rightarrow> bytes option \<times> shelf" where
  "fetchSmall digest got s = (case got of
     NoBlob \<Rightarrow> (None, s)
   | BlobAnswer ok len body \<Rightarrow>
       if \<not> ok \<or> (case len of Some n \<Rightarrow> int SMALL_MOST < n | None \<Rightarrow> False) then (None, s)
       else (case body of None \<Rightarrow> (None, s)
         | Some b \<Rightarrow> if SMALL_MOST < length b \<or> sha b \<noteq> digest then (None, s) else (Some b, snd (keep b s))))"

definition smallBlob :: "string \<Rightarrow> blobAnswer \<Rightarrow> shelf \<Rightarrow> bytes option \<times> shelf" where
  "smallBlob digest got s = (case sh_small s digest of
     Some b \<Rightarrow> (Some b, s)
   | None \<Rightarrow> (case sh_disk s (cacheFile digest) of
       Some b \<Rightarrow> if sha b = digest then (Some b, s\<lparr>sh_small := (sh_small s)(digest \<mapsto> b)\<rparr>) else fetchSmall digest got s
     | None \<Rightarrow> fetchSmall digest got s))"

subsection \<open>Ollama's manifest\<close>

text \<open>\<open>(m.layers || []).find((l) => l.mediaType === \<dots>)\<close>; \<open>Inl\<close> where it throws.\<close>

fun findLayer :: "json list \<Rightarrow> json option result" where
  "findLayer [] = Inr None"
| "findLayer (l # ls) = (if l = JNull then Inl TypeError
     else if getProp ''mediaType'' l = Some (JStr ''application/vnd.ollama.image.model'') then Inr (Some l) else findLayer ls)"

definition modelLayer :: "json \<Rightarrow> json option result" where
  "modelLayer m = (if m = JNull then Inl TypeError
     else let ls = getProp ''layers'' m in if falsy ls then Inr None
     else case the ls of JArr xs \<Rightarrow> findLayer xs | _ \<Rightarrow> Inl TypeError)"

text \<open>Their manifest counts only if it names the very bytes the index names.\<close>

definition theirsIfOurs :: "row \<Rightarrow> bytes \<Rightarrow> bytes option" where
  "theirsIfOurs f theirs = (case parse (decodeText theirs) of
     None \<Rightarrow> None
   | Some m \<Rightarrow> (case modelLayer m of
       Inr (Some l) \<Rightarrow> if getProp ''digest'' l = Some (JStr (''sha256:'' @ digestOf (f_address f))) \<and> getProp ''size'' l = Some (JNum (int (f_size f)))
         then Some theirs else None
     | _ \<Rightarrow> None))"

definition savedName :: "doc \<Rightarrow> row \<Rightarrow> string" where
  "savedName d f = ''manifest-'' @ replaceFirst (CHR ''/'') ''--'' (doc_id d) @ ''-'' @ take 16 (digestOf (f_address f)) @ ''.json''"

definition ollamaConfig :: "row \<Rightarrow> bytes" where
  "ollamaConfig f = utf8 (stringify (JObj [(''model_format'', JStr ''gguf''), (''model_family'', JStr ''unknown''), (''model_families'', JArr []),
     (''model_type'', JStr []), (''file_type'', JStr (if quantOf (f_path f) = [] then ''unknown'' else quantOf (f_path f))),
     (''architecture'', JStr ''amd64''), (''os'', JStr ''linux''),
     (''rootfs'', JObj [(''type'', JStr ''layers''), (''diff_ids'', JArr [JStr (''sha256:'' @ digestOf (f_address f))])])]))"

definition minimalManifest :: "row \<Rightarrow> bytes" where
  "minimalManifest f = utf8 (stringify (JObj [(''schemaVersion'', JNum 2), (''mediaType'', JStr MANIFEST_TYPE),
     (''config'', JObj [(''digest'', JStr (sha (ollamaConfig f))), (''mediaType'', JStr ''application/vnd.docker.container.image.v1+json''),
       (''size'', numJson (length (ollamaConfig f)))]),
     (''layers'', JArr [JObj [(''digest'', JStr (''sha256:'' @ digestOf (f_address f))), (''mediaType'', JStr ''application/vnd.ollama.image.model''),
       (''size'', numJson (f_size f))]])]))"

definition MANIFEST_KEEP :: int where "MANIFEST_KEEP = 600000"

text \<open>\<open>theirs\<close>: the body of a good answer of Hugging Face, asked only while it is healthy.\<close>

definition manifestFor :: "int \<Rightarrow> bool \<Rightarrow> bytes option \<Rightarrow> doc \<Rightarrow> string \<Rightarrow> row \<Rightarrow> shelf \<Rightarrow> bytes \<times> shelf" where
  "manifestFor now healthy theirs d tag f s = (let key = doc_id d @ '':'' @ tag;
       build = (let ours = (if healthy then (case theirs of None \<Rightarrow> None | Some t \<Rightarrow> theirsIfOurs f t) else None);
           s1 = (case ours of Some t \<Rightarrow> toDisk (savedName d f) t s | None \<Rightarrow> s);
           got = (case ours of Some t \<Rightarrow> Some t | None \<Rightarrow> sh_disk s1 (savedName d f));
           s2 = (case got of Some _ \<Rightarrow> s1 | None \<Rightarrow> snd (keep (ollamaConfig f) s1));
           b = (case got of Some b \<Rightarrow> b | None \<Rightarrow> minimalManifest f)
         in (b, s2\<lparr>sh_manifests := (sh_manifests s2)(key \<mapsto> (now, b))\<rparr>))
     in case sh_manifests s key of Some (at, b) \<Rightarrow> if now - at < MANIFEST_KEEP then (b, s) else build | None \<Rightarrow> build)"

subsection \<open>The OCI manifest\<close>

text \<open>\<open>7.1B\<close>, \<open>560M\<close>.\<close>

definition paramSize :: "nat \<Rightarrow> string" where
  "paramSize n = (if n \<ge> 1000000000 then (let r = (n + 50000000) div 100000000 in
       decimal (r div 10) @ (if r mod 10 = 0 then [] else CHR ''.'' # decimal (r mod 10)) @ ''B'')
     else decimal ((n + 500000) div 1000000) @ ''M'')"

definition licenseOf :: "crow option \<Rightarrow> string" where
  "licenseOf r = (case r of None \<Rightarrow> [] | Some r \<Rightarrow> (case find (\<lambda>t. startsWith t ''license:'') (r_tags r) of Some t \<Rightarrow> drop 8 t | None \<Rightarrow> []))"

definition formatOf :: "row list \<Rightarrow> string" where
  "formatOf fs = (if list_ex (\<lambda>f. isGguf (f_path f)) fs then ''gguf'' else if list_ex (\<lambda>f. hasSuffix [''safetensors''] (f_path f)) fs then ''safetensors'' else ''other'')"

definition ociConfig :: "string \<Rightarrow> crow option \<Rightarrow> doc \<Rightarrow> row list \<Rightarrow> bytes" where
  "ociConfig hub r d fs = utf8 (stringify (JObj [
     (''descriptor'', JObj ([(''name'', JStr (doc_id d)), (''version'', JStr (doc_revision d)), (''revision'', JStr (doc_revision d)),
        (''vendor'', JStr (hd (segments (doc_id d)))), (''sourceURL'', JStr (''https://huggingface.co/'' @ doc_id d)),
        (''docURL'', JStr (hub @ ''/models/'' @ doc_id d @ ''/''))]
        @ (if licenseOf r = [] then [] else [(''licenses'', JArr [JStr (licenseOf r)])]))),
     (''config'', JObj ((''format'', JStr (formatOf fs))
        # (case r of None \<Rightarrow> [] | Some r \<Rightarrow> (case someNum (r_params r) of None \<Rightarrow> [] | Some n \<Rightarrow> [(''paramSize'', JStr (paramSize n))])))),
     (''modelfs'', JObj [(''type'', JStr ''layers''), (''diffIds'', JArr (map (\<lambda>f. JStr (f_address f)) fs))])]))"

definition fileMeta :: "row \<Rightarrow> string" where
  "fileMeta f = stringify (JObj [(''name'', JStr (f_path f)), (''mode'', JNum 420), (''uid'', JNum 0), (''gid'', JNum 0),
     (''size'', numJson (f_size f)), (''mtime'', JStr ''1970-01-01T00:00:00Z''), (''typeflag'', JNum 48)])"

definition layerJson :: "row \<Rightarrow> json" where
  "layerJson f = JObj [(''mediaType'', JStr (layerType f)), (''digest'', JStr (f_address f)), (''size'', numJson (f_size f)),
     (''annotations'', JObj [(''org.opencontainers.image.title'', JStr (f_path f)), (''org.cncf.model.filepath'', JStr (f_path f)),
       (''org.cncf.model.file.metadata+json'', JStr (fileMeta f))])]"

definition ociJson :: "string \<Rightarrow> crow option \<Rightarrow> doc \<Rightarrow> row list \<Rightarrow> json" where
  "ociJson hub r d fs = JObj [(''schemaVersion'', JNum 2), (''mediaType'', JStr OCI_MANIFEST),
     (''artifactType'', JStr ''application/vnd.cncf.model.manifest.v1+json''),
     (''config'', JObj [(''mediaType'', JStr ''application/vnd.cncf.model.config.v1+json''), (''digest'', JStr (sha (ociConfig hub r d fs))),
       (''size'', numJson (length (ociConfig hub r d fs)))]),
     (''layers'', JArr (map layerJson fs)),
     (''annotations'', JObj [(''org.opencontainers.image.source'', JStr (''https://huggingface.co/'' @ doc_id d)),
       (''org.opencontainers.image.revision'', JStr (doc_revision d)), (''org.opencontainers.image.url'', JStr (hub @ ''/models/'' @ doc_id d @ ''/''))])]"

definition ociManifest :: "string \<Rightarrow> crow list \<Rightarrow> doc \<Rightarrow> row list \<Rightarrow> shelf \<Rightarrow> bytes \<times> shelf" where
  "ociManifest hub rs d fs s = (let r = find (\<lambda>r. r_id r = doc_id d) rs; b = utf8 (stringify (ociJson hub r d fs))
     in (b, snd (keep b (snd (keep (ociConfig hub r d fs) s)))))"

subsection \<open>The registry\<close>

text \<open>What is asked of it, and how its answer is relayed; \<open>Inl\<close> is the message of the error it failed with.\<close>

definition registryAsk :: "req \<Rightarrow> string \<Rightarrow> string \<Rightarrow> string \<times> string \<times> (string \<times> string) list" where
  "registryAsk q root path = (q_verb q, root @ path @ dropWhile (\<lambda>c. c \<noteq> CHR ''?'') (q_url q),
     concat (map (\<lambda>n. case headerOf q n of None \<Rightarrow> [] | Some v \<Rightarrow> if v = [] then [] else [(n, v)]) [''accept'', ''range'', ''if-none-match'', ''user-agent'']))"

definition HOP_HEADERS :: "string list" where
  "HOP_HEADERS = [''transfer-encoding'', ''connection'', ''content-encoding'']"

definition registry :: "req \<Rightarrow> string + res \<Rightarrow> res" where
  "registry q up = (case up of
     Inl message \<Rightarrow> ociError (q_verb q) 502 ''UNAVAILABLE'' (''the registry did not answer: '' @ message)
   | Inr r \<Rightarrow> \<lparr>o_status = o_status r, o_headers = filter (\<lambda>h. lower (fst h) \<notin> set HOP_HEADERS) (o_headers r),
       o_body = (if q_verb q = ''HEAD'' then [] else o_body r)\<rparr>)"

subsection \<open>The handler\<close>

definition isDigest :: "string \<Rightarrow> bool" where
  "isDigest s \<longleftrightarrow> startsWith s ''sha256:'' \<and> isHex64 (drop 7 s)"

definition tagQuants :: "doc \<Rightarrow> string list" where
  "tagQuants d = uniq (quantsOf (filter (\<lambda>f. isGguf (f_path f) \<and> \<not> isHelper (f_path f) \<and> \<not> anywhere (\<lambda>t. shardHead (lower t)) (f_path f)) (doc_files d)))"

definition plainReply :: "req \<Rightarrow> nat \<Rightarrow> (string \<times> string) list \<Rightarrow> bytes \<Rightarrow> res" where
  "plainReply q status headers b = \<lparr>o_status = status, o_headers = headers, o_body = (if q_verb q = ''HEAD'' then [] else b)\<rparr>"

definition manifestReply :: "req \<Rightarrow> string \<Rightarrow> bytes \<Rightarrow> string \<Rightarrow> res" where
  "manifestReply q type b revision = plainReply q 200 [(''content-type'', type), (''content-length'', decimal (length b)),
     (''docker-content-digest'', sha b), (''x-repo-commit'', revision), (''cache-control'', ''no-store'')] b"

text \<open>A manifest asked again by its digest.\<close>

definition keptManifest :: "req \<Rightarrow> string \<Rightarrow> bytes option \<Rightarrow> res result" where
  "keptManifest q ref kept = (case kept of
     None \<Rightarrow> Inr (ociError (q_verb q) 404 ''MANIFEST_UNKNOWN'' (ref @ '' is not a manifest the hub has generated; ask by tag first.''))
   | Some b \<Rightarrow> (case parse (decodeText b) of
       None \<Rightarrow> Inl SyntaxError
     | Some m \<Rightarrow> if m = JNull then Inl TypeError else
         (case orElse (getProp ''mediaType'' m) (JStr OCI_MANIFEST) of
           JStr type \<Rightarrow> Inr (plainReply q 200 [(''content-type'', type), (''content-length'', decimal (length b)),
             (''docker-content-digest'', ref), (''cache-control'', ''no-store'')] b)
         | _ \<Rightarrow> Inl Unmodelled)))"

definition noTag :: "req \<Rightarrow> doc \<Rightarrow> string \<Rightarrow> picked \<Rightarrow> res" where
  "noTag q d ref pk = ociError (q_verb q) 404 ''MANIFEST_UNKNOWN'' (
     if pk_sharded pk then ref @ '' of '' @ doc_id d @ '' is split across several files; Ollama needs a single GGUF file.''
     else if pk_quants pk \<noteq> [] then doc_id d @ '' has no '' @ ref @ ''. It has: '' @ join '', '' (uniq (pk_quants pk)) @ ''.''
     else doc_id d @ '' has no GGUF file; Ollama pulls GGUF models.'')"

text \<open>llama.cpp's older user agent: the same manifest with \<open>ggufFile\<close> in it.\<close>

definition ggufJson :: "row \<Rightarrow> json" where
  "ggufJson f = JObj [(''rfilename'', JStr (f_path f)), (''blobId'', JStr (digestOf (f_address f))), (''size'', numJson (f_size f)), (''lfs'', lfsJson f)]"

definition llamaReply :: "req \<Rightarrow> doc \<Rightarrow> row \<Rightarrow> bytes \<Rightarrow> res result" where
  "llamaReply q d f b = (case parse (decodeText b) of
     None \<Rightarrow> Inl SyntaxError
   | Some (JObj kvs) \<Rightarrow> (let t = utf8 (stringify (JObj (setProp kvs ''ggufFile'' (ggufJson f)))) in
       Inr (plainReply q 200 [(''content-type'', ''application/json; charset=utf-8''), (''content-length'', decimal (length t)),
         (''x-repo-commit'', doc_revision d), (''cache-control'', ''no-store'')] t))
   | Some _ \<Rightarrow> Inl Unmodelled)"

text \<open>The other loopback name of this process.\<close>

definition otherHost :: "string \<Rightarrow> string" where
  "otherHost host = (if startsWith host ''localhost'' then ''127.0.0.1'' @ drop 9 host
     else if host \<noteq> [] \<and> hd host \<noteq> CHR '':'' then ''localhost'' @ dropWhile (\<lambda>c. c \<noteq> CHR '':'') host else host)"

text \<open>\<open>/^bytes=(\\d+)-(\\d*)$/\<close>.\<close>

definition blobRange :: "string \<Rightarrow> (nat \<times> nat option) option" where
  "blobRange h = (if \<not> startsWith h ''bytes='' then None else (case splitAt (CHR ''-'') (drop 6 h) of
     [a, b] \<Rightarrow> if a \<noteq> [] \<and> list_all isDigit a \<and> list_all isDigit b then Some (undecimal a, if b = [] then None else Some (undecimal b)) else None
   | _ \<Rightarrow> None))"

definition smallReply :: "req \<Rightarrow> string \<Rightarrow> bytes \<Rightarrow> res" where
  "smallReply q ref b = (let rg = blobRange (case headerOf q ''range'' of Some h \<Rightarrow> h | None \<Rightarrow> []);
       start = (case rg of Some (a, _) \<Rightarrow> a | None \<Rightarrow> 0);
       stop = (case rg of Some (_, Some z) \<Rightarrow> min (int z) (int (length b) - 1) | _ \<Rightarrow> int (length b) - 1);
       part = subarray b start (nat (stop + 1));
       host = (case headerOf q ''x-forwarded-host'' of Some h \<Rightarrow> if h = [] then headerOf q ''host'' else Some h | None \<Rightarrow> headerOf q ''host'')
     in plainReply q (if rg = None then 200 else 206) ([(''content-type'', ''application/octet-stream''), (''content-length'', decimal (length part)),
          (''docker-content-digest'', ref), (''accept-ranges'', ''bytes''),
          (''location'', ''https://'' @ (case host of Some h \<Rightarrow> h | None \<Rightarrow> ''undefined'') @ q_url q)]
        @ (if rg = None then [] else [(''content-range'', ''bytes '' @ decimal start @ ''-'' @ numText stop @ ''/'' @ decimal (length b))])) part)"

definition weightsReply :: "edge \<Rightarrow> string \<Rightarrow> req \<Rightarrow> doc \<Rightarrow> string \<Rightarrow> row \<Rightarrow> shelf \<Rightarrow> (res \<times> shelf) result" where
  "weightsReply v port q d ref f s = (if q_verb q = ''HEAD''
     then Inr (plainReply q 200 [(''content-length'', decimal (f_size f)), (''docker-content-digest'', ref), (''accept-ranges'', ''bytes''),
       (''content-type'', ''application/octet-stream'')] [], s)
     else if v_verify v then (let host = hostOf q [''host''] (''127.0.0.1:'' @ port) in
       Inr (plainReply q 307 [(''location'', ''http://'' @ otherHost host @ ''/_blob/'' @ ref), (''docker-content-digest'', ref),
           (''x-hub-source'', ''verified''), (''cache-control'', ''no-store''), (''content-length'', ''0'')] [],
         s\<lparr>sh_blobs := (sh_blobs s)(digestOf ref \<mapsto> (d, f))\<rparr>))
     else andThen (sourceOnly (chooseSource (v_health v) d f None)) (\<lambda>src.
       Inr (redirect 307 (urlFor src f) [(''docker-content-digest'', ref)] (src_kind src), s)))"

text \<open>What the world answers: Hugging Face's blobs and manifests, the registry; and the moment.\<close>

record upstream =
  up_blob :: "string \<Rightarrow> string \<Rightarrow> blobAnswer"
  up_manifest :: "string \<Rightarrow> string \<Rightarrow> bytes option"
  up_registry :: "string \<times> string \<times> (string \<times> string) list \<Rightarrow> string + res"
  up_now :: int

definition manifests :: "edge \<Rightarrow> upstream \<Rightarrow> crow list \<Rightarrow> req \<Rightarrow> doc \<Rightarrow> string \<Rightarrow> shelf \<Rightarrow> (res \<times> shelf) result" where
  "manifests v up rs q d ref s = (if isDigest ref
     then (let (kept, s') = smallBlob ref (up_blob up (doc_id d) ref) s in andThen (keptManifest q ref kept) (\<lambda>r. Inr (r, s')))
     else if contains (case headerOf q ''accept'' of Some a \<Rightarrow> a | None \<Rightarrow> []) OCI_MANIFEST
     then (case ociFiles d ref of
         None \<Rightarrow> Inr (ociError (q_verb q) 404 ''MANIFEST_UNKNOWN'' (doc_id d @ '' has no tag '' @ ref @ ''. Use latest, or one of its GGUF quantisations.''), s)
       | Some fs \<Rightarrow> (let (b, s') = ociManifest (v_hub v) rs d fs s in Inr (manifestReply q OCI_MANIFEST b (doc_revision d), s')))
     else (let pk = pickGguf d ref in case pk_file pk of
         None \<Rightarrow> Inr (noTag q d ref pk, s)
       | Some f \<Rightarrow> (let (b, s') = manifestFor (up_now up) (p_ok (v_health v ''huggingface.co'')) (up_manifest up (doc_id d) ref) d ref f s in
           if startsWith (lower (case headerOf q ''user-agent'' of Some a \<Rightarrow> a | None \<Rightarrow> [])) ''llama-cpp''
           then andThen (llamaReply q d f b) (\<lambda>r. Inr (r, s'))
           else Inr (manifestReply q MANIFEST_TYPE b (doc_revision d), s'))))"

definition blobsRoute :: "edge \<Rightarrow> upstream \<Rightarrow> string \<Rightarrow> req \<Rightarrow> doc \<Rightarrow> string \<Rightarrow> shelf \<Rightarrow> (res \<times> shelf) result" where
  "blobsRoute v up port q d ref s = (if \<not> isDigest ref
     then Inr (ociError (q_verb q) 400 ''DIGEST_INVALID'' ''A blob is named sha256:<64 hex digits>.'', s)
     else case find (\<lambda>f. f_address f = ref) (doc_files d) of
       Some f \<Rightarrow> weightsReply v port q d ref f s
     | None \<Rightarrow> (case smallBlob ref (up_blob up (doc_id d) ref) s of
         (None, s') \<Rightarrow> Inr (ociError (q_verb q) 404 ''BLOB_UNKNOWN'' (ref @ '' is not part of '' @ doc_id d @ ''.''), s')
       | (Some b, s') \<Rightarrow> Inr (smallReply q ref b, s')))"

definition ollama :: "edge \<Rightarrow> upstream \<Rightarrow> crow list \<Rightarrow> string \<Rightarrow> string \<Rightarrow> req \<Rightarrow> string \<Rightarrow> string \<Rightarrow> string \<Rightarrow> shelf \<Rightarrow> (res \<times> shelf) result" where
  "ollama v up rs root port q i kind ref s = (case v_model v i of
     None \<Rightarrow> Inr (registry q (up_registry up (registryAsk q root (''/v2/'' @ i @ ''/'' @ kind @ ''/'' @ ref))), s)
   | Some d \<Rightarrow> if kind = ''tags''
       then Inr (json (q_verb q) 200 (JObj [(''name'', JStr (doc_id d)), (''tags'', JArr (map JStr (''latest'' # tagQuants d)))]) [], s)
     else if kind = ''manifests'' then manifests v up rs q d ref s
     else blobsRoute v up port q d ref s)"

subsection \<open>The shelf holds what its names say\<close>

definition shelfOk :: "shelf \<Rightarrow> bool" where
  "shelfOk s \<longleftrightarrow> (\<forall>dg b. sh_small s dg = Some b \<longrightarrow> sha b = dg)"

lemma shelfOk_keep: "shelfOk s \<Longrightarrow> shelfOk (snd (keep b s))"
  by (simp add: shelfOk_def keep_def toDisk_def)

lemma shelfOk_toDisk [simp]: "shelfOk (toDisk n b s) = shelfOk s"
  by (simp add: shelfOk_def toDisk_def)

lemma shelfOk_manifests [simp]: "shelfOk (s\<lparr>sh_manifests := m\<rparr>) = shelfOk s"
  by (simp add: shelfOk_def)

lemma shelfOk_blobs [simp]: "shelfOk (s\<lparr>sh_blobs := m\<rparr>) = shelfOk s"
  by (simp add: shelfOk_def)

lemma fetchSmall_ok:
  "shelfOk s \<Longrightarrow> fetchSmall dg got s = (r, s') \<Longrightarrow> shelfOk s' \<and> (\<forall>b. r = Some b \<longrightarrow> sha b = dg)"
  by (auto simp: fetchSmall_def shelfOk_keep split: blobAnswer.splits if_splits option.splits)

lemma shelfOkD: "shelfOk s \<Longrightarrow> sh_small s dg = Some b \<Longrightarrow> sha b = dg"
  unfolding shelfOk_def by blast

lemma shelfOk_load: "shelfOk s \<Longrightarrow> shelfOk (s\<lparr>sh_small := (sh_small s)(sha b \<mapsto> b)\<rparr>)"
  by (simp add: shelfOk_def)

lemma smallBlob_ok:
  assumes "shelfOk s" and "smallBlob dg got s = (r, s')"
  shows "shelfOk s' \<and> (\<forall>b. r = Some b \<longrightarrow> sha b = dg)"
proof (cases "sh_small s dg")
  case (Some b)
  then have "r = Some b \<and> s' = s" using assms(2) by (simp add: smallBlob_def)
  then show ?thesis using shelfOkD [OF assms(1) Some] assms(1) by simp
next
  case none: None
  show ?thesis
  proof (cases "\<exists>b. sh_disk s (cacheFile dg) = Some b \<and> sha b = dg")
    case True
    then obtain b where b: "sh_disk s (cacheFile dg) = Some b" "sha b = dg" by blast
    then have "r = Some b \<and> s' = s\<lparr>sh_small := (sh_small s)(sha b \<mapsto> b)\<rparr>" using assms(2) none by (auto simp: smallBlob_def)
    then show ?thesis using b shelfOk_load [OF assms(1), of b] by simp
  next
    case False
    then have "fetchSmall dg got s = (r, s')" using assms(2) none by (auto simp: smallBlob_def split: option.splits if_splits)
    then show ?thesis using fetchSmall_ok [OF assms(1)] by blast
  qed
qed

lemma manifestFor_ok: "shelfOk s \<Longrightarrow> shelfOk (snd (manifestFor now healthy theirs d tag f s))"
  by (auto simp: manifestFor_def Let_def shelfOk_keep split: option.splits)

lemma ociManifest_ok: "shelfOk s \<Longrightarrow> shelfOk (snd (ociManifest hub rs d fs s))"
  by (simp add: ociManifest_def Let_def shelfOk_keep)

lemma manifests_ok:
  assumes "shelfOk s" and "manifests v up rs q d ref s = Inr (r, s')"
  shows "shelfOk s'"
proof (cases "isDigest ref")
  case True
  obtain k s2 where k: "smallBlob ref (up_blob up (doc_id d) ref) s = (k, s2)" by fastforce
  then have "s' = s2" using assms(2) True by (auto simp: manifests_def andThen_Inr_iff)
  then show ?thesis using smallBlob_ok [OF assms(1) k] by simp
next
  case nd: False
  define oci where "oci = contains (case headerOf q ''accept'' of Some a \<Rightarrow> a | None \<Rightarrow> []) OCI_MANIFEST"
  show ?thesis
  proof (cases oci)
    case True
    show ?thesis
    proof (cases "ociFiles d ref")
      case None
      then show ?thesis using assms nd True by (simp add: manifests_def oci_def)
    next
      case (Some fs)
      then have "s' = snd (ociManifest (v_hub v) rs d fs s)"
        using assms(2) nd True by (simp add: manifests_def oci_def case_prod_beta)
      then show ?thesis using ociManifest_ok [OF assms(1)] by simp
    qed
  next
    case no: False
    show ?thesis
    proof (cases "pk_file (pickGguf d ref)")
      case None
      then show ?thesis using assms nd no by (simp add: manifests_def oci_def Let_def)
    next
      case (Some f)
      then have "s' = snd (manifestFor (up_now up) (p_ok (v_health v ''huggingface.co'')) (up_manifest up (doc_id d) ref) d ref f s)"
        using assms(2) nd no by (auto simp: manifests_def oci_def Let_def case_prod_beta andThen_Inr_iff split: if_splits)
      then show ?thesis using manifestFor_ok [OF assms(1)] by simp
    qed
  qed
qed

lemma weightsReply_ok: "shelfOk s \<Longrightarrow> weightsReply v port q d ref f s = Inr (r, s') \<Longrightarrow> shelfOk s'"
  by (auto simp: weightsReply_def andThen_Inr_iff Let_def split: if_splits)

lemma blobsRoute_ok:
  assumes "shelfOk s" and "blobsRoute v up port q d ref s = Inr (r, s')"
  shows "shelfOk s'"
  using assms smallBlob_ok [OF assms(1)] weightsReply_ok [OF assms(1)]
  by (auto simp: blobsRoute_def split: if_splits option.splits prod.splits)

lemma ollama_ok: "shelfOk s \<Longrightarrow> ollama v up rs root port q i kind ref s = Inr (r, s') \<Longrightarrow> shelfOk s'"
  by (auto simp: ollama_def split: option.splits if_splits dest: manifests_ok blobsRoute_ok)

lemma smallReply_whole:
  assumes "q_verb q = ''GET''" and "headerOf q ''range'' = None"
  shows "o_body (smallReply q ref b) = b"
proof -
  have "blobRange [] = None" by (simp add: blobRange_def startsWith_def)
  moreover have "nat (int (length b) - 1 + 1) = length b" by simp
  ultimately show ?thesis using assms by (simp add: smallReply_def plainReply_def Let_def)
qed

lemma blob_named:
  assumes "shelfOk s" and "q_verb q = ''GET''" and "headerOf q ''range'' = None"
    and "blobsRoute v up port q d ref s = Inr (r, s')" and "o_status r = 200"
  shows "sha (o_body r) = ref"
proof (cases "find (\<lambda>f. f_address f = ref) (doc_files d)")
  case (Some f)
  then show ?thesis using assms
    by (auto simp: blobsRoute_def weightsReply_def andThen_Inr_iff plainReply_def redirect_def ociError_def json_def Let_def split: if_splits)
next
  case None
  obtain k s'' where k: "smallBlob ref (up_blob up (doc_id d) ref) s = (k, s'')" by fastforce
  show ?thesis
  proof (cases k)
    case None
    then show ?thesis using assms \<open>find _ _ = None\<close> k by (auto simp: blobsRoute_def ociError_def json_def Let_def split: if_splits)
  next
    case (Some b)
    then have "r = smallReply q ref b \<or> o_status r = 400" using assms \<open>find _ _ = None\<close> k
      by (auto simp: blobsRoute_def ociError_def json_def Let_def split: if_splits)
    then show ?thesis using assms(5) smallReply_whole [OF assms(2,3)] smallBlob_ok [OF assms(1) k] Some by auto
  qed
qed

subsection \<open>What an OCI manifest says\<close>

lemma not_index: "k \<noteq> [] \<Longrightarrow> \<not> isDigit (hd k) \<Longrightarrow> \<not> isIndex k"
  by (cases k) (simp_all add: isIndex_def)

lemma keep_recall: "smallBlob (sha b) got (snd (keep b s)) = (Some b, snd (keep b s))"
  by (simp add: smallBlob_def keep_def toDisk_def)

lemma plain_ociJson: "plain (ociJson hub r d fs)"
  by (auto simp: ociJson_def layerJson_def numJson_def plainKeys_def not_index isDigit_def)

text \<open>
  C30. The OCI manifest that is sent reads back as one layer per file of the tag, in order, each with
  the index's own digest and size; and both blobs it needs, itself and its config, are then answered
  under their digests without asking anyone.
\<close>

theorem oci_manifest_exact:
  "\<exists>j ls cd c. parse (decodeText (fst (ociManifest hub rs d fs s))) = Some j \<and> getProp ''layers'' j = Some (JArr ls)
    \<and> map (\<lambda>l. (getProp ''digest'' l, getProp ''size'' l)) ls = map (\<lambda>f. (Some (JStr (f_address f)), Some (JNum (int (f_size f))))) fs
    \<and> fst (smallBlob (sha (fst (ociManifest hub rs d fs s))) got (snd (ociManifest hub rs d fs s))) = Some (fst (ociManifest hub rs d fs s))
    \<and> prop2 ''digest'' (getProp ''config'' j) = Some (JStr cd)
    \<and> fst (smallBlob cd got (snd (ociManifest hub rs d fs s))) = Some c \<and> sha c = cd"
proof -
  define r where "r = find (\<lambda>r. r_id r = doc_id d) rs"
  define j where "j = ociJson hub r d fs"
  define b where "b = utf8 (stringify j)"
  define c where "c = ociConfig hub r d fs"
  define s1 where "s1 = snd (keep c s)"
  have M: "ociManifest hub rs d fs s = (b, snd (keep b s1))"
    by (simp add: ociManifest_def Let_def r_def j_def b_def c_def s1_def)
  have "parse (decodeText b) = Some j" using plain_ociJson by (simp add: b_def j_def parse_stringify)
  moreover have "getProp ''layers'' j = Some (JArr (map layerJson fs))" "prop2 ''digest'' (getProp ''config'' j) = Some (JStr (sha c))"
    by (simp_all add: j_def ociJson_def c_def prop2_def)
  moreover have "map (\<lambda>l. (getProp ''digest'' l, getProp ''size'' l)) (map layerJson fs)
      = map (\<lambda>f. (Some (JStr (f_address f)), Some (JNum (int (f_size f))))) fs"
    by (simp add: layerJson_def numJson_def)
  moreover have "\<exists>c'. fst (smallBlob (sha c) got (snd (keep b s1))) = Some c' \<and> sha c' = sha c"
    by (cases "sha c = sha b") (auto simp: smallBlob_def keep_def toDisk_def s1_def)
  ultimately show ?thesis
    using keep_recall [of b got s1] unfolding M by auto
qed

end
