(* ===== verification/Mcp.thy ===== *)
theory Mcp
  imports Oci
begin

text \<open>
  The same hub for agents, at \<open>/mcp\<close>: the three tools and the JSON-RPC around them. The prose of
  the tool list, and the order that \<open>localeCompare\<close> puts paths in, are arguments.
\<close>

definition toolError :: "string \<Rightarrow> json" where
  "toolError text = JObj [(''content'', JArr [JObj [(''type'', JStr ''text''), (''text'', JStr text)]]), (''isError'', JBool True)]"

definition toolResult :: "json \<Rightarrow> json" where
  "toolResult data = JObj [(''content'', JArr [JObj [(''type'', JStr ''text''), (''text'', JStr (stringify data))]]), (''structuredContent'', data)]"

text \<open>The sources of a document that a client may be sent to.\<close>

definition offered :: "doc \<Rightarrow> source list" where
  "offered d = filter (\<lambda>s. \<not> src_p2p s \<and> \<not> src_pull s \<and> src_kind s \<in> set ORDER) (doc_sources d)"

definition sourcesOf :: "(string \<Rightarrow> probeResult) \<Rightarrow> doc \<Rightarrow> json" where
  "sourcesOf health d = JArr (map (\<lambda>s. JObj [(''kind'', JStr (src_kind s)), (''healthy'', JBool (p_ok (health (src_kind s)))),
     (''missing_files'', numJson (length (src_missing s)))]) (offered d))"

subsection \<open>search_models\<close>

definition searchFilter :: "json \<Rightarrow> crow list \<Rightarrow> crow list result" where
  "searchFilter a rs = (let arg = (\<lambda>k. case getProp k a of None \<Rightarrow> None | Some v \<Rightarrow> if falsy (Some v) then None else Some v);
       rs1 = (case arg ''query'' of None \<Rightarrow> rs | Some v \<Rightarrow> filter (\<lambda>r. hasText (r_id r) (toText v)) rs);
       rs2 = (case arg ''task'' of None \<Rightarrow> rs1 | Some v \<Rightarrow> filter (\<lambda>r. map_option JStr (r_task r) = Some v) rs1);
       rs3 = (case arg ''license'' of None \<Rightarrow> rs2 | Some v \<Rightarrow> filter (\<lambda>r. ''license:'' @ lower (toText v) \<in> set (r_tags r)) rs2);
       rs4 = (case arg ''format'' of None \<Rightarrow> rs3 | Some v \<Rightarrow> filter (\<lambda>r. lower (toText v) \<in> set (r_tags r)) rs3)
     in case arg ''max_weights_gb'' of None \<Rightarrow> Inr rs4
       | Some v \<Rightarrow> (case toNumber v of None \<Rightarrow> Inr []
           | Some gb \<Rightarrow> Inr (filter (\<lambda>r. int (case r_weights r of Some w \<Rightarrow> w | None \<Rightarrow> 0) \<le> gb * 1000000000) rs4)))"

text \<open>\<open>{ trending: \<dots> }[a.sort || "trending"] || "trendingScore"\<close>: an inherited name is a key no row has.\<close>

definition searchKey :: "json \<Rightarrow> sortKey" where
  "searchKey a = (let t = toText (orElse (getProp ''sort'' a) (JStr ''trending'')) in
     if t = ''downloads'' then KDownloads else if t = ''likes'' then KLikes else if t = ''newest'' then KCreated
     else if t \<in> set INHERITED then KNothing else KTrending)"

definition searchLimit :: "json \<Rightarrow> nat" where
  "searchLimit a = (case toNumber (orElse (getProp ''limit'' a) (JNum 10)) of None \<Rightarrow> 0 | Some n \<Rightarrow> nat (min 50 (max 1 n)))"

text \<open>How many models match, and those that are answered.\<close>

definition searchModels :: "json \<Rightarrow> crow list \<Rightarrow> (nat \<times> crow list) result" where
  "searchModels a rs = andThen (searchFilter a rs) (\<lambda>out. andThen (sortRows (searchKey a) False out) (\<lambda>srt.
     Inr (length srt, take (searchLimit a) srt)))"

subsection \<open>get_model\<close>

definition ESSENTIAL :: "string list" where
  "ESSENTIAL = [''config'', ''tokenizer'', ''tokenizer_config'', ''special_tokens_map'', ''generation_config'', ''preprocessor_config'',
     ''vocab'', ''merges'', ''added_tokens'', ''chat_template'']"

definition isEssential :: "string \<Rightarrow> bool" where
  "isEssential p \<longleftrightarrow> beginsWith ESSENTIAL (baseName p) \<or> hasSuffix [''json'', ''txt'', ''model'', ''py'', ''md''] p"

definition FILES_MOST :: nat where "FILES_MOST = 200"

fun insertBy :: "('a \<Rightarrow> 'a \<Rightarrow> bool) \<Rightarrow> 'a \<Rightarrow> 'a list \<Rightarrow> 'a list" where
  "insertBy after x [] = [x]"
| "insertBy after x (y # ys) = (if after x y then y # insertBy after x ys else x # y # ys)"

text \<open>A stable sort by a comparison: \<open>after x y\<close> when it is positive.\<close>

definition sortBy :: "('a \<Rightarrow> 'a \<Rightarrow> bool) \<Rightarrow> 'a list \<Rightarrow> 'a list" where
  "sortBy after xs = foldr (insertBy after) xs []"

definition shownFiles :: "(string \<Rightarrow> string \<Rightarrow> bool) \<Rightarrow> row list \<Rightarrow> row list" where
  "shownFiles after fs = (if FILES_MOST < length fs
     then sortBy (\<lambda>a b. after (f_path a) (f_path b)) (take FILES_MOST (filter (\<lambda>f. isEssential (f_path f)) fs
        @ rev (sort_key f_size (rev (filter (\<lambda>f. \<not> isEssential (f_path f)) fs)))))
     else fs)"

definition fileJson :: "row \<Rightarrow> json" where
  "fileJson f = JObj [(''path'', JStr (f_path f)), (''size'', numJson (f_size f)), (''sha256'', JStr (digestOf (f_address f)))]"

definition getModel :: "edge \<Rightarrow> (string \<Rightarrow> string \<Rightarrow> bool) \<Rightarrow> doc \<Rightarrow> json" where
  "getModel v after d = (let all = doc_files d; shown = shownFiles after all in
     toolResult (JObj ([(''id'', JStr (doc_id d)), (''revision'', JStr (doc_revision d)),
       (''purl'', JStr (''pkg:huggingface/'' @ doc_id d @ ''@'' @ doc_revision d)), (''files_total'', numJson (length all)),
       (''bytes_total'', JNum (totalSize all)), (''files'', JArr (map fileJson shown)), (''files_truncated'', JBool (length all > length shown))]
       @ (if length all > length shown then [(''files_truncated_note'', JStr (''showing '' @ decimal (length shown) @ '' of '' @ decimal (length all)
           @ '': every config and tokenizer file, then the largest weights. The full list is at '' @ v_hub v @ ''/api/models/'' @ doc_id d @ ''/tree/main.''))] else [])
       @ [(''gguf_quants'', JArr (map JStr (uniq (quantsOf (ggufsOf d))))), (''sources'', sourcesOf (v_health v) d),
         (''sha256sums'', JStr (v_hub v @ ''/'' @ doc_id d @ ''/resolve/main/SHA256SUMS'')),
         (''download_all'', JArr [JStr (''export HF_ENDPOINT='' @ v_hub v), JStr (''hf download '' @ doc_id d)])])))"

subsection \<open>resolve_file\<close>

definition resolvedFile :: "edge \<Rightarrow> string \<Rightarrow> doc \<Rightarrow> row \<Rightarrow> source \<Rightarrow> json" where
  "resolvedFile v host d f src = (let url = v_hub v @ ''/'' @ doc_id d @ ''/resolve/'' @ doc_revision d @ ''/'' @ encodePath (f_path f);
       name0 = baseName (f_path f); h = digestOf (f_address f); quant = quantOf (f_path f)
     in toolResult (JObj [(''id'', JStr (doc_id d)), (''revision'', JStr (doc_revision d)), (''path'', JStr (f_path f)), (''size'', numJson (f_size f)),
       (''sha256'', JStr h), (''url'', JStr url),
       (''url_note'', JStr ''Redirects to a source that is up right now; supports Range. No credentials needed.''), (''served_by_now'', JStr (src_kind src)),
       (''sources'', JArr (map (\<lambda>s. JObj [(''kind'', JStr (src_kind s)), (''healthy'', JBool (p_ok (v_health v (src_kind s)))), (''url'', JStr (urlFor s f))])
          (filter (\<lambda>s. f_path f \<notin> set (src_missing s)) (offered d)))),
       (''download'', JStr (''curl -L -o '' @ stringify (JStr name0) @ '' '' @ stringify (JStr url))),
       (''verify'', JStr (''echo '' @ CHR 0x22 # h @ ''  '' @ name0 @ CHR 0x22 # '' | sha256sum -c'')),
       (''handoff'', JObj ((''hf'', JArr [JStr (''export HF_ENDPOINT='' @ v_hub v), JStr (''hf download '' @ doc_id d @ '' '' @ f_path f)])
         # (if quant \<noteq> [] then [(''ollama'', JStr (''ollama pull '' @ host @ ''/'' @ doc_id d @ '':'' @ quant)),
             (''llama_cpp'', JStr (''MODEL_ENDPOINT='' @ v_hub v @ ''/ llama-server -hf '' @ doc_id d @ '':'' @ quant))] else [])))]))"

definition truthyArg :: "json \<Rightarrow> string \<Rightarrow> json option" where
  "truthyArg a k = (case getProp k a of None \<Rightarrow> None | Some v \<Rightarrow> if falsy (Some v) then None else Some v)"

definition resolveFile :: "edge \<Rightarrow> string \<Rightarrow> doc \<Rightarrow> json \<Rightarrow> json result" where
  "resolveFile v host d a = (let found = (case truthyArg a ''path'' of
         Some p \<Rightarrow> find (\<lambda>f. JStr (f_path f) = p) (doc_files d)
       | None \<Rightarrow> (case truthyArg a ''quant'' of Some t \<Rightarrow> pk_file (pickGguf d (toText t)) | None \<Rightarrow> None)) in
     case found of
       None \<Rightarrow> Inr (toolError (case truthyArg a ''path'' of
           Some p \<Rightarrow> toText p @ '' is not a file of '' @ doc_id d @ '' at '' @ doc_revision d @ ''. get_model lists the files.''
         | None \<Rightarrow> (case truthyArg a ''quant'' of
             Some t \<Rightarrow> (let qs = join '', '' (uniq (quantsOf (ggufsOf d))) in doc_id d @ '' has no single-file GGUF for '' @ toText t
               @ ''. It has: '' @ (if qs = [] then ''no GGUF files'' else qs) @ ''.'')
           | None \<Rightarrow> ''Give a path or a quant.'')))
     | Some f \<Rightarrow> andThen (sourceOnly (chooseSource (v_health v) d f None)) (\<lambda>src. Inr (resolvedFile v host d f src)))"

subsection \<open>Calls\<close>

datatype toolAnswer = Tool json | Found nat "crow list"

definition callTool :: "edge \<Rightarrow> string \<Rightarrow> (string \<Rightarrow> string \<Rightarrow> bool) \<Rightarrow> crow list \<Rightarrow> json option \<Rightarrow> json option \<Rightarrow> toolAnswer result" where
  "callTool v host after rs name args = (if args = Some JNull then Inl TypeError
     else let a = (case args of None \<Rightarrow> JObj [] | Some x \<Rightarrow> x); named = (case name of None \<Rightarrow> ''undefined'' | Some x \<Rightarrow> toText x) in
     if name = Some (JStr ''search_models'') then andThen (searchModels a rs) (\<lambda>(n, out). Inr (Found n out))
     else (let i = truthyArg a ''id'' in
       case (case i of None \<Rightarrow> None | Some x \<Rightarrow> v_model v (toText x)) of
         None \<Rightarrow> Inr (Tool (toolError ((case i of None \<Rightarrow> ''(no id)'' | Some x \<Rightarrow> toText x)
           @ '' is not in the hub'' @ QUOTE # ''s index. search_models lists what is; Hugging Face has the rest.'')))
       | Some d \<Rightarrow> if name = Some (JStr ''get_model'') then Inr (Tool (getModel v after d))
           else if name = Some (JStr ''resolve_file'') then andThen (resolveFile v host d a) (\<lambda>j. Inr (Tool j))
           else Inr (Tool (toolError (''Unknown tool '' @ named @ ''.'')))))"

subsection \<open>JSON-RPC\<close>

definition MCP_VERSIONS :: "string list" where
  "MCP_VERSIONS = [''2026-07-28'', ''2025-11-25'', ''2025-06-18'', ''2025-03-26'']"

definition mcpInfo :: json where
  "mcpInfo = JObj [(''name'', JStr ''hologram-model-hub''), (''title'', JStr ''Hologram Model Hub''), (''version'', JStr ''1.0.0'')]"

definition mcpInstructions :: string where
  "mcpInstructions = ''Open models, every file named by its SHA-256. search_models to find one, get_model for its files, resolve_file for a download URL with the hash it must have. Weights are fetched by your shell or engine, never through a tool result.''"

text \<open>
  What a call is answered with. \<open>hits\<close> prints the models a search found, \<open>prose\<close> is the tool list
  and \<open>says\<close> the message of an error.
\<close>

record agent =
  a_edge :: edge
  a_host :: string
  a_after :: "string \<Rightarrow> string \<Rightarrow> bool"
  a_rows :: "crow list"
  a_prose :: json
  a_hits :: "nat \<Rightarrow> crow list \<Rightarrow> json"
  a_says :: "js_error \<Rightarrow> string"

definition rpcOk :: "json \<Rightarrow> json \<Rightarrow> json" where
  "rpcOk i result = JObj [(''jsonrpc'', JStr ''2.0''), (''id'', i), (''result'', result)]"

definition rpcError :: "json \<Rightarrow> int \<Rightarrow> string \<Rightarrow> json" where
  "rpcError i code message = JObj [(''jsonrpc'', JStr ''2.0''), (''id'', i), (''error'', JObj [(''code'', JNum code), (''message'', JStr message)])]"

definition discovered :: "(string \<times> json) list" where
  "discovered = [(''capabilities'', JObj [(''tools'', JObj [(''listChanged'', JBool False)])]), (''serverInfo'', mcpInfo), (''instructions'', JStr mcpInstructions)]"

definition toolCall :: "agent \<Rightarrow> json option \<Rightarrow> json" where
  "toolCall g params = (case callTool (a_edge g) (a_host g) (a_after g) (a_rows g) (prop2 ''name'' params) (prop2 ''arguments'' params) of
     Inr (Tool j) \<Rightarrow> j
   | Inr (Found n rs) \<Rightarrow> a_hits g n rs
   | Inl e \<Rightarrow> toolError (''The hub failed on this call: '' @ take 120 (a_says g e)))"

text \<open>One message; \<open>None\<close> for a notification.\<close>

definition oneCall :: "agent \<Rightarrow> json \<Rightarrow> json option" where
  "oneCall g m = (case getProp ''method'' m of
     Some (JStr meth) \<Rightarrow> if getProp ''jsonrpc'' m \<noteq> Some (JStr ''2.0'')
         then Some (rpcError (case getProp ''id'' m of Some i \<Rightarrow> i | None \<Rightarrow> JNull) (-32600) ''Invalid request'')
       else (case getProp ''id'' m of
         None \<Rightarrow> None
       | Some i \<Rightarrow> Some (
           if meth = ''initialize'' then rpcOk i (JObj ((''protocolVersion'', (case prop2 ''protocolVersion'' (getProp ''params'' m) of
                 Some (JStr ver) \<Rightarrow> JStr (if ver \<in> set MCP_VERSIONS then ver else ''2025-06-18'') | _ \<Rightarrow> JStr ''2025-06-18'')) # discovered))
           else if meth = ''server/discover'' then rpcOk i (JObj ((''protocolVersions'', JArr (map JStr MCP_VERSIONS)) # discovered))
           else if meth = ''ping'' then rpcOk i (JObj [])
           else if meth = ''tools/list'' then rpcOk i (JObj [(''tools'', a_prose g)])
           else if meth = ''tools/call'' then rpcOk i (toolCall g (getProp ''params'' m))
           else if meth = ''resources/list'' then rpcOk i (JObj [(''resources'', JArr [])])
           else if meth = ''prompts/list'' then rpcOk i (JObj [(''prompts'', JArr [])])
           else rpcError i (-32601) (''Method not found: '' @ meth)))
   | _ \<Rightarrow> Some (rpcError (case getProp ''id'' m of Some i \<Rightarrow> i | None \<Rightarrow> JNull) (-32600) ''Invalid request''))"

definition mcpCors :: "(string \<times> string) list" where
  "mcpCors = [(''access-control-allow-origin'', ''*''),
     (''access-control-allow-headers'', ''content-type, accept, mcp-protocol-version, mcp-session-id, mcp-method, mcp-name, last-event-id''),
     (''access-control-allow-methods'', ''POST, OPTIONS''), (''access-control-expose-headers'', ''mcp-protocol-version'')]"

definition MCP_MOST :: nat where "MCP_MOST = 65536"

definition mcpCalls :: "json \<Rightarrow> json list" where
  "mcpCalls body = (case body of JArr ms \<Rightarrow> ms | m \<Rightarrow> [m])"

definition mcpAnswers :: "agent \<Rightarrow> json \<Rightarrow> json list" where
  "mcpAnswers g body = concat (map (\<lambda>m. case oneCall g m of None \<Rightarrow> [] | Some a \<Rightarrow> [a]) (mcpCalls body))"

definition isArr :: "json \<Rightarrow> bool" where
  "isArr v \<longleftrightarrow> (case v of JArr _ \<Rightarrow> True | _ \<Rightarrow> False)"

definition mcp :: "agent \<Rightarrow> req \<Rightarrow> res" where
  "mcp g q = (let empty = (\<lambda>status headers. \<lparr>o_status = status, o_headers = headers, o_body = []\<rparr>); raw = decodeText (q_data q) in
     if q_verb q = ''OPTIONS'' then empty 204 mcpCors
     else if q_verb q \<noteq> ''POST'' then empty 405 ((''allow'', ''POST, OPTIONS'') # mcpCors)
     else if MCP_MOST < length raw then empty 413 mcpCors
     else case parse raw of
       None \<Rightarrow> json (q_verb q) 400 (JObj [(''jsonrpc'', JStr ''2.0''), (''id'', JNull), (''error'', JObj [(''code'', JNum (-32700)), (''message'', JStr ''Parse error'')])]) mcpCors
     | Some body \<Rightarrow> (case mcpAnswers g body of
         [] \<Rightarrow> empty 202 mcpCors
       | a # as' \<Rightarrow> json (q_verb q) 200 (if isArr body then JArr (a # as') else a)
           (mcpCors @ [(''cache-control'', ''no-store'')] @ (case headerOf q ''mcp-protocol-version'' of
              Some ver \<Rightarrow> if ver \<in> set MCP_VERSIONS then [(''mcp-protocol-version'', ver)] else [] | None \<Rightarrow> []))))"

subsection \<open>What the tools answer\<close>

lemma sortBy_mset [simp]: "mset (sortBy after xs) = mset xs"
proof -
  have "mset (insertBy after x ys) = add_mset x (mset ys)" for x :: 'a and ys by (induction ys) auto
  then show ?thesis by (induction xs) (simp_all add: sortBy_def)
qed

lemma sortBy_set [simp]: "set (sortBy after xs) = set xs"
  by (metis set_mset_mset sortBy_mset)

lemma sortBy_length [simp]: "length (sortBy after xs) = length xs"
  by (metis size_mset sortBy_mset)

lemma searchLimit_le: "searchLimit a \<le> 50"
  by (auto simp: searchLimit_def split: option.splits)

end
