(* ===== verification/Index.thy ===== *)
theory Index
  imports Catalog
begin

text \<open>
  Where the edge's documents come from: the site's published file lists, the address index, the
  hub's own objects and the registry's records, with the caches between them. What the world answers
  at the moment of a call is one record of arguments; a call takes the clock once.
\<close>

record pin =
  pin_revision :: string
  pin_root :: string
  pin_hidden :: bool

record pins =
  pins_at :: int
  pins_gateway :: string
  pins_models :: "(string \<times> pin) list"

text \<open>A file of the address index, a file of a model object, and a record of the registry.\<close>

record listed =
  li_name :: "string option"
  li_revision :: string
  li_manifest :: string
  li_files :: "row list"

record objFile =
  of_path :: string
  of_size :: nat
  of_sha256 :: string
  of_weights :: bool

record hubObject =
  ho_revision :: string
  ho_manifest :: "string option"
  ho_files :: "objFile list"

record holder =
  hd_kind :: string
  hd_at :: int
  hd_url :: "string option"

record recordRow =
  rr_type :: string
  rr_names :: "(string \<times> string) list option"
  rr_size :: nat
  rr_kappa :: string
  rr_holders :: "holder list"

record records =
  rs_repo :: string
  rs_revision :: string
  rs_index :: string
  rs_records :: "recordRow list option"

record outside =
  out_now :: int
  out_dir :: "string list option"
  out_file :: "string \<Rightarrow> doc option"
  out_latest :: "string \<Rightarrow> listed option"
  out_pins :: "(string \<times> (string \<times> pin) list) option"
  out_catalog :: "(string \<times> string) list option"
  out_object :: "string \<Rightarrow> hubObject option"
  out_hasRecords :: bool
  out_records :: "string \<Rightarrow> records option"
  out_tensors :: "doc \<Rightarrow> source option"

record index =
  ix_loaded :: int
  ix_names :: "string list"
  ix_remote :: "(string \<times> int \<times> doc option) list"
  ix_pins :: pins
  ix_hub :: hubState
  ix_records :: "(string \<times> int \<times> records option) list"

text \<open>A \<open>Map\<close> that is emptied when it has grown past 500 entries.\<close>

definition CACHE_MOST :: nat where "CACHE_MOST = 500"

definition remember :: "string \<Rightarrow> int \<Rightarrow> 'a \<Rightarrow> (string \<times> int \<times> 'a) list \<Rightarrow> (string \<times> int \<times> 'a) list" where
  "remember key at x c = (key, at, x) # (if CACHE_MOST < length c then [] else filter (\<lambda>e. fst e \<noteq> key) c)"

definition recall :: "int \<Rightarrow> int \<Rightarrow> string \<Rightarrow> (string \<times> int \<times> 'a) list \<Rightarrow> 'a option" where
  "recall now keep' key c = (case map_of c key of Some (at, x) \<Rightarrow> if now - at < keep' then Some x else None | None \<Rightarrow> None)"

subsection \<open>The index on disk\<close>

definition DIR_KEEP :: int where "DIR_KEEP = 60000"

definition refresh :: "outside \<Rightarrow> index \<Rightarrow> index" where
  "refresh w x = (if out_now w - ix_loaded x < DIR_KEEP then x
     else (let y = x\<lparr>ix_loaded := out_now w\<rparr> in case out_dir w of None \<Rightarrow> y | Some ids \<Rightarrow> y\<lparr>ix_names := ids\<rparr>))"

text \<open>\<open>byLower.get\<close>: the last file with these letters.\<close>

definition nameFor :: "index \<Rightarrow> string \<Rightarrow> string option" where
  "nameFor x i = find (\<lambda>n. lower n = lower i) (rev (ix_names x))"

subsection \<open>The address index\<close>

definition REMOTE_KEEP :: int where "REMOTE_KEEP = 600000"

definition hfSource :: source where
  "hfSource = \<lparr>src_kind = ''huggingface.co'', src_resolve = None, src_missing = [], src_p2p = False, src_pull = False, src_byDigest = False\<rparr>"

definition freshPins :: "outside \<Rightarrow> index \<Rightarrow> index" where
  "freshPins w x = (if out_now w - pins_at (ix_pins x) > REMOTE_KEEP
     then x\<lparr>ix_pins := (case out_pins w of Some (gateway, ms) \<Rightarrow> \<lparr>pins_at = out_now w, pins_gateway = gateway, pins_models = ms\<rparr>
       | None \<Rightarrow> (ix_pins x)\<lparr>pins_at := out_now w\<rparr>)\<rparr>
     else x)"

definition pinFor :: "pins \<Rightarrow> string \<Rightarrow> string \<Rightarrow> pin option" where
  "pinFor ps i revision = map_option snd (find (\<lambda>e. lower (fst e) = lower i \<and> pin_revision (snd e) = revision) (pins_models ps))"

definition ipfsSource :: "pins \<Rightarrow> pin \<Rightarrow> string list \<Rightarrow> source" where
  "ipfsSource ps p missing = \<lparr>src_kind = ''ipfs'', src_resolve = Some (pins_gateway ps @ pin_root p @ ''/''), src_missing = missing,
     src_p2p = False, src_pull = False, src_byDigest = False\<rparr>"

definition isHidden :: "string \<Rightarrow> bool" where
  "isHidden p \<longleftrightarrow> list_ex (\<lambda>part. startsWith part ''.'') (segments p)"

definition listedDoc :: "pins \<Rightarrow> string \<Rightarrow> listed \<Rightarrow> doc" where
  "listedDoc ps i li = \<lparr>doc_id = (case someText (li_name li) of Some n \<Rightarrow> n | None \<Rightarrow> i), doc_revision = li_revision li, doc_manifest = li_manifest li,
     doc_records = None, doc_sources = hfSource # (case pinFor ps i (li_revision li) of None \<Rightarrow> []
       | Some p \<Rightarrow> [ipfsSource ps p (if pin_hidden p then [] else filter isHidden (map f_path (li_files li)))]),
     doc_files = li_files li\<rparr>"

definition indexed :: "outside \<Rightarrow> string \<Rightarrow> index \<Rightarrow> doc option \<times> index" where
  "indexed w i x = (if \<not> isModelId i then (None, x)
     else case recall (out_now w) REMOTE_KEEP (lower i) (ix_remote x) of
       Some d \<Rightarrow> (d, x)
     | None \<Rightarrow> (let y = (case out_latest w i of Some _ \<Rightarrow> freshPins w x | None \<Rightarrow> x);
           d = map_option (listedDoc (ix_pins y) i) (out_latest w i)
         in (d, y\<lparr>ix_remote := remember (lower i) (out_now w) d (ix_remote y)\<rparr>)))"

subsection \<open>The hub's own objects\<close>

definition objectDoc :: "pins \<Rightarrow> string \<Rightarrow> string \<Rightarrow> string \<Rightarrow> hubObject \<Rightarrow> doc" where
  "objectDoc ps asked i address h = \<lparr>doc_id = i, doc_revision = ho_revision h,
     doc_manifest = (case someText (ho_manifest h) of Some m \<Rightarrow> m | None \<Rightarrow> address), doc_records = None,
     doc_sources = hfSource # (case pinFor ps asked (ho_revision h) of None \<Rightarrow> [] | Some p \<Rightarrow> [ipfsSource ps p []]),
     doc_files = map (\<lambda>f. \<lparr>f_path = of_path f, f_size = of_size f,
        f_address = (if startsWith (of_sha256 f) ''sha256:'' then of_sha256 f else ''sha256:'' @ of_sha256 f), f_weights = of_weights f,
        f_url = ''https://huggingface.co/'' @ i @ ''/resolve/'' @ ho_revision h @ ''/'' @ encodePath (of_path f)\<rparr>) (ho_files h)\<rparr>"

definition fromHub :: "outside \<Rightarrow> string \<Rightarrow> index \<Rightarrow> doc option \<times> index" where
  "fromHub w i x = (let h = hubCatalog (out_now w) (out_now w) (out_catalog w) (ix_hub x); x1 = x\<lparr>ix_hub := h\<rparr>; key = ''hub:'' @ lower i in
     case objectFor h i of
       None \<Rightarrow> (None, x1)
     | Some (name, address) \<Rightarrow> (case recall (out_now w) REMOTE_KEEP key (ix_remote x1) of
         Some d \<Rightarrow> (d, x1)
       | None \<Rightarrow> (let y = (case out_object w address of Some _ \<Rightarrow> freshPins w x1 | None \<Rightarrow> x1);
             d = map_option (objectDoc (ix_pins y) i name address) (out_object w address)
           in (d, y\<lparr>ix_remote := remember key (out_now w) d (ix_remote y)\<rparr>))))"

text \<open>A document, and the cache entry it is shared with.\<close>

definition baseModel :: "outside \<Rightarrow> string \<Rightarrow> index \<Rightarrow> ((doc \<times> string option) option \<times> index) result" where
  "baseModel w i x = (let y = refresh w x in case nameFor y i of
     Some name \<Rightarrow> (case out_file w name of Some d \<Rightarrow> Inr (Some (d\<lparr>doc_id := name\<rparr>, None), y) | None \<Rightarrow> Inl SyntaxError)
   | None \<Rightarrow> (case indexed w i y of
       (Some d, z) \<Rightarrow> Inr (Some (d, Some (lower i)), z)
     | (None, z) \<Rightarrow> (case fromHub w i z of
         (Some d, u) \<Rightarrow> Inr (Some (d, Some (''hub:'' @ lower i)), u)
       | (None, u) \<Rightarrow> Inr (None, u))))"

subsection \<open>The registry's records\<close>

definition RECS_KEEP :: int where "RECS_KEEP = 300000"
definition NORECS_KEEP :: int where "NORECS_KEEP = 30000"

definition recsFor :: "outside \<Rightarrow> string \<Rightarrow> index \<Rightarrow> records option \<times> index" where
  "recsFor w key x = (let hit = (case map_of (ix_records x) key of
         Some (at, r) \<Rightarrow> if out_now w - at < (if r = None then NORECS_KEEP else RECS_KEEP) then Some r else None | None \<Rightarrow> None) in
     case hit of Some r \<Rightarrow> (r, x)
     | None \<Rightarrow> (out_records w key, x\<lparr>ix_records := remember key (out_now w) (out_records w key) (ix_records x)\<rparr>))"

definition fileRecs :: "recordRow list \<Rightarrow> recordRow list" where
  "fileRecs rs = filter (\<lambda>r. rr_type r = ''file'') rs"

text \<open>Every name a file record has in the original format, in order of path.\<close>

definition originals :: "recordRow list \<Rightarrow> (string \<times> recordRow) list" where
  "originals rs = sort_key fst (concat (map (\<lambda>r. case rr_names r of None \<Rightarrow> []
     | Some ns \<Rightarrow> map (\<lambda>n. (snd n, r)) (filter (\<lambda>n. fst n = ''original'') ns)) (fileRecs rs)))"

definition hfUrl :: "recordRow \<Rightarrow> string option" where
  "hfUrl r = (case find (\<lambda>h. hd_kind h = ''hf'' \<and> hd_at h = 0) (rr_holders r) of Some h \<Rightarrow> hd_url h | None \<Rightarrow> None)"

definition recordFile :: "records \<Rightarrow> string \<times> recordRow \<Rightarrow> row" where
  "recordFile rs e = (case e of (path, r) \<Rightarrow> \<lparr>f_path = path, f_size = rr_size r, f_address = rr_kappa r,
     f_weights = (\<not> list_ex (\<lambda>h. hd_kind h = ''hub'') (rr_holders r)),
     f_url = (case someText (hfUrl r) of Some u \<Rightarrow> u
       | None \<Rightarrow> ''https://huggingface.co/'' @ rs_repo rs @ ''/resolve/'' @ rs_revision rs @ ''/'' @ encodePath path)\<rparr>)"

definition recordDoc :: "string \<Rightarrow> string \<Rightarrow> doc option \<Rightarrow> records \<Rightarrow> (string \<times> recordRow) list \<Rightarrow> doc" where
  "recordDoc hub key d rs files' = \<lparr>doc_id = rs_repo rs, doc_revision = rs_revision rs,
     doc_manifest = (case d of Some d \<Rightarrow> if doc_manifest d = [] then rs_index rs else doc_manifest d | None \<Rightarrow> rs_index rs),
     doc_records = Some (rs_index rs, hub @ ''/v2/models/'' @ key @ ''/records''),
     doc_sources = (case d of Some d \<Rightarrow> doc_sources d | None \<Rightarrow> [hfSource]), doc_files = map (recordFile rs) files'\<rparr>"

definition withRecords :: "string \<Rightarrow> outside \<Rightarrow> string \<Rightarrow> doc option \<Rightarrow> index \<Rightarrow> doc option \<times> index" where
  "withRecords hub w i d x = (if \<not> out_hasRecords w then (d, x)
     else (let key = lower i; (found, y) = recsFor w key x in
       case found of None \<Rightarrow> (d, y)
       | Some rs \<Rightarrow> (case rs_records rs of None \<Rightarrow> (d, y)
         | Some rows' \<Rightarrow> if fileRecs rows' = [] \<or> list_ex (\<lambda>r. rr_names r = None) (fileRecs rows') \<or> originals rows' = [] then (d, y)
             else (Some (recordDoc hub key d rs (originals rows')), y))))"

subsection \<open>A model\<close>

text \<open>
  \<open>doc.sources.push(t)\<close>: the array is the one of the cached document when it came from a cache, with
  the records laid over it or not.
\<close>

definition pushSource :: "source \<Rightarrow> doc \<Rightarrow> doc" where
  "pushSource t d = d\<lparr>doc_sources := doc_sources d @ [t]\<rparr>"

definition pushCached :: "source \<Rightarrow> string option \<Rightarrow> index \<Rightarrow> index" where
  "pushCached t key x = (case key of None \<Rightarrow> x
     | Some k \<Rightarrow> x\<lparr>ix_remote := map (\<lambda>(k', at, d). (k', at, if k' = k then map_option (pushSource t) d else d)) (ix_remote x)\<rparr>)"

definition model :: "string \<Rightarrow> outside \<Rightarrow> string \<Rightarrow> index \<Rightarrow> (doc option \<times> index) result" where
  "model hub w i x = andThen (baseModel w i x) (\<lambda>(base, y).
     case withRecords hub w i (map_option fst base) y of
       (None, z) \<Rightarrow> Inr (None, z)
     | (Some d, z) \<Rightarrow> if list_ex (\<lambda>s. src_kind s = ''tensors'') (doc_sources d) then Inr (Some d, z)
         else (case out_tensors w d of None \<Rightarrow> Inr (Some d, z)
           | Some t \<Rightarrow> Inr (Some (pushSource t d), pushCached t (case base of Some (_, k) \<Rightarrow> k | None \<Rightarrow> None) z)))"

subsection \<open>The caches stay small, and the records are the digests\<close>

lemma length_remember: "length (remember k at x c) \<le> Suc CACHE_MOST"
  by (auto simp: remember_def intro: order_trans [OF length_filter_le])

lemma remember_keys: "distinct (map fst c) \<Longrightarrow> distinct (map fst (remember k at x c))"
  by (auto simp: remember_def distinct_map_filter)

lemma recall_remember: "now - at < keep' \<Longrightarrow> recall now keep' k (remember k at x c) = Some x"
  by (simp add: recall_def remember_def)

text \<open>What every cached state has: few entries, one per name, and no cached document with records.\<close>

definition cachesOk :: "index \<Rightarrow> bool" where
  "cachesOk x \<longleftrightarrow> length (ix_remote x) \<le> Suc CACHE_MOST \<and> length (ix_records x) \<le> Suc CACHE_MOST
     \<and> distinct (map fst (ix_remote x)) \<and> distinct (map fst (ix_records x))
     \<and> (\<forall>(k, at, d) \<in> set (ix_remote x). \<forall>d'. d = Some d' \<longrightarrow> doc_records d' = None)"

lemma cachesOk_other [simp]:
  "cachesOk (x\<lparr>ix_pins := a\<rparr>) = cachesOk x" "cachesOk (x\<lparr>ix_hub := h\<rparr>) = cachesOk x"
  "cachesOk (x\<lparr>ix_names := n\<rparr>) = cachesOk x" "cachesOk (x\<lparr>ix_loaded := l\<rparr>) = cachesOk x"
  by (simp_all add: cachesOk_def)

lemma cachesOk_remember:
  assumes "cachesOk x" and "\<forall>d'. d = Some d' \<longrightarrow> doc_records d' = None"
  shows "cachesOk (x\<lparr>ix_remote := remember k at d (ix_remote x)\<rparr>)"
proof -
  have "e = (k, at, d) \<or> e \<in> set (ix_remote x)" if "e \<in> set (remember k at d (ix_remote x))" for e
    using that by (auto simp: remember_def split: if_splits)
  then have "\<forall>(k, at, d) \<in> set (remember k at d (ix_remote x)). \<forall>d'. d = Some d' \<longrightarrow> doc_records d' = None"
    using assms by (fastforce simp: cachesOk_def)
  then show ?thesis using assms(1) by (simp add: cachesOk_def length_remember remember_keys)
qed

lemma cachesOk_recs: "cachesOk x \<Longrightarrow> cachesOk (x\<lparr>ix_records := remember k at r (ix_records x)\<rparr>)"
  by (simp add: cachesOk_def length_remember remember_keys)

lemma recall_mem: "recall now keep' k c = Some v \<Longrightarrow> \<exists>at. (k, at, v) \<in> set c"
  by (auto simp: recall_def split: option.splits if_splits dest!: map_of_SomeD)

lemma recall_none: "cachesOk x \<Longrightarrow> recall now keep' k (ix_remote x) = Some (Some d) \<Longrightarrow> doc_records d = None"
  by (auto simp: cachesOk_def dest!: recall_mem)

lemma freshPins_remote [simp]: "ix_remote (freshPins w x) = ix_remote x" "cachesOk (freshPins w x) = cachesOk x"
  by (simp_all add: freshPins_def)

lemma refresh_ok: "cachesOk x \<Longrightarrow> cachesOk (refresh w x)"
  by (simp add: refresh_def Let_def split: option.splits)

lemma indexed_ok:
  assumes "cachesOk x" and "indexed w i x = (d, y)"
  shows "cachesOk y \<and> (\<forall>d'. d = Some d' \<longrightarrow> doc_records d' = None)"
proof (cases "isModelId i \<and> recall (out_now w) REMOTE_KEEP (lower i) (ix_remote x) = None")
  case False
  then show ?thesis using assms recall_none [OF assms(1)] by (auto simp: indexed_def split: if_splits option.splits)
next
  case True
  define z where "z = (case out_latest w i of Some _ \<Rightarrow> freshPins w x | None \<Rightarrow> x)"
  have z: "cachesOk z" "ix_remote z = ix_remote x" using assms(1) by (simp_all add: z_def split: option.splits)
  have d: "d = map_option (listedDoc (ix_pins z) i) (out_latest w i)" and y: "y = z\<lparr>ix_remote := remember (lower i) (out_now w) d (ix_remote z)\<rparr>"
    using assms(2) True by (auto simp: indexed_def z_def Let_def)
  have n: "\<forall>d'. d = Some d' \<longrightarrow> doc_records d' = None" by (auto simp: d listedDoc_def)
  then show ?thesis using cachesOk_remember [OF z(1)] y by blast
qed

lemma fromHub_ok:
  assumes "cachesOk x" and "fromHub w i x = (d, y)"
  shows "cachesOk y \<and> (\<forall>d'. d = Some d' \<longrightarrow> doc_records d' = None)"
proof -
  define x1 where "x1 = x\<lparr>ix_hub := hubCatalog (out_now w) (out_now w) (out_catalog w) (ix_hub x)\<rparr>"
  have x1: "cachesOk x1" using assms(1) by (simp add: x1_def)
  show ?thesis
  proof (cases "objectFor (ix_hub x1) i")
    case None
    then show ?thesis using assms(2) x1 by (auto simp: fromHub_def Let_def x1_def)
  next
    case (Some e)
    obtain name address where e: "e = (name, address)" by (cases e)
    show ?thesis
    proof (cases "recall (out_now w) REMOTE_KEEP (''hub:'' @ lower i) (ix_remote x1)")
      case (Some d')
      then have "d = d' \<and> y = x1" using assms(2) \<open>objectFor _ _ = Some e\<close> e by (simp add: fromHub_def Let_def x1_def)
      then show ?thesis using recall_none [OF x1] Some x1 by auto
    next
      case None
      define z where "z = (case out_object w address of Some _ \<Rightarrow> freshPins w x1 | None \<Rightarrow> x1)"
      have z: "cachesOk z" using x1 by (simp add: z_def split: option.splits)
      have "fromHub w i x = (map_option (objectDoc (ix_pins z) i name address) (out_object w address),
          z\<lparr>ix_remote := remember (''hub:'' @ lower i) (out_now w) (map_option (objectDoc (ix_pins z) i name address) (out_object w address)) (ix_remote z)\<rparr>)"
        unfolding fromHub_def Let_def x1_def [symmetric] using \<open>objectFor _ _ = Some e\<close> e None by (simp add: z_def x1_def)
      then have d: "d = map_option (objectDoc (ix_pins z) i name address) (out_object w address)"
        and y: "y = z\<lparr>ix_remote := remember (''hub:'' @ lower i) (out_now w) d (ix_remote z)\<rparr>"
        using assms(2) by (metis prod.inject)+
      have n: "\<forall>d'. d = Some d' \<longrightarrow> doc_records d' = None" by (auto simp: d objectDoc_def)
      then show ?thesis using cachesOk_remember [OF z] y by blast
    qed
  qed
qed

definition plainFiles :: "outside \<Rightarrow> bool" where
  "plainFiles w \<longleftrightarrow> (\<forall>n d. out_file w n = Some d \<longrightarrow> doc_records d = None)"

lemma baseModel_ok:
  assumes "cachesOk x" and "plainFiles w" and "baseModel w i x = Inr (b, y)"
  shows "cachesOk y \<and> (\<forall>d' k. b = Some (d', k) \<longrightarrow> doc_records d' = None)"
proof (cases "nameFor (refresh w x) i")
  case (Some n)
  then show ?thesis using assms refresh_ok [OF assms(1), of w]
    by (auto simp: baseModel_def Let_def plainFiles_def split: option.splits)
next
  case None
  obtain d1 z where 1: "indexed w i (refresh w x) = (d1, z)" by fastforce
  obtain d2 u where 2: "fromHub w i z = (d2, u)" by fastforce
  note o1 = indexed_ok [OF refresh_ok [OF assms(1)] 1]
  note o2 = fromHub_ok [OF conjunct1 [OF o1] 2]
  show ?thesis using assms(3) None 1 2 o1 o2
    by (cases d1; cases d2) (auto simp: baseModel_def Let_def)
qed

lemma recsFor_ok:
  assumes "cachesOk x" and "recsFor w key x = (r, y)"
  shows "cachesOk y \<and> ix_remote y = ix_remote x \<and> (\<forall>rs. r = Some rs \<longrightarrow> (\<exists>at. map_of (ix_records y) key = Some (at, Some rs) \<and> out_now w - at < RECS_KEEP))"
proof -
  let ?hit = "case map_of (ix_records x) key of
         Some (at, r) \<Rightarrow> if out_now w - at < (if r = None then NORECS_KEEP else RECS_KEEP) then Some r else None | None \<Rightarrow> None"
  show ?thesis
  proof (cases ?hit)
    case (Some r')
    then have "r = r' \<and> y = x" using assms(2) by (simp add: recsFor_def Let_def)
    then show ?thesis using Some assms(1) by (auto split: option.splits if_splits)
  next
    case None
    then have "r = out_records w key \<and> y = x\<lparr>ix_records := remember key (out_now w) (out_records w key) (ix_records x)\<rparr>"
      using assms(2) by (auto simp: recsFor_def Let_def)
    then show ?thesis using cachesOk_recs [OF assms(1)] by (auto simp: remember_def RECS_KEEP_def)
  qed
qed

definition recordedFiles :: "recordRow list \<Rightarrow> (string \<times> string \<times> nat) set" where
  "recordedFiles rows' = {(p, rr_kappa r, rr_size r) | p r ns. r \<in> set rows' \<and> rr_type r = ''file'' \<and> rr_names r = Some ns \<and> (''original'', p) \<in> set ns}"

definition fromRecords :: "outside \<Rightarrow> string \<Rightarrow> doc \<Rightarrow> index \<Rightarrow> bool" where
  "fromRecords w key d y \<longleftrightarrow> (\<exists>at rs rows'. map_of (ix_records y) key = Some (at, Some rs) \<and> out_now w - at < RECS_KEEP
     \<and> rs_records rs = Some rows' \<and> doc_revision d = rs_revision rs \<and> (\<lambda>f. (f_path f, f_address f, f_size f)) ` set (doc_files d) = recordedFiles rows')"

lemma originals_mem:
  "(p, r) \<in> set (originals rows') \<longleftrightarrow> r \<in> set rows' \<and> rr_type r = ''file'' \<and> (\<exists>ns. rr_names r = Some ns \<and> (''original'', p) \<in> set ns)"
proof -
  have "(p, r) \<in> set (case rr_names r' of None \<Rightarrow> [] | Some ns \<Rightarrow> map (\<lambda>n. (snd n, r')) (filter (\<lambda>n. fst n = ''original'') ns))
      \<longleftrightarrow> r = r' \<and> (\<exists>ns. rr_names r' = Some ns \<and> (''original'', p) \<in> set ns)" for r'
    by (cases "rr_names r'") (auto simp: image_iff)
  then show ?thesis by (auto simp: originals_def fileRecs_def)
qed

lemma originals_files: "(\<lambda>f. (f_path f, f_address f, f_size f)) ` set (map (recordFile rs) (originals rows')) = recordedFiles rows'"
proof -
  have "(\<lambda>f. (f_path f, f_address f, f_size f)) ` set (map (recordFile rs) (originals rows')) = (\<lambda>(p, r). (p, rr_kappa r, rr_size r)) ` set (originals rows')"
    by (simp add: image_image recordFile_def case_prod_beta)
  also have "\<dots> = {(p, rr_kappa r, rr_size r) | p r. (p, r) \<in> set (originals rows')}" by auto
  also have "\<dots> = recordedFiles rows'" unfolding originals_mem recordedFiles_def by blast
  finally show ?thesis .
qed

lemma withRecords_ok:
  assumes "cachesOk x" and "withRecords hub w i d x = (d', y)" and "\<forall>e. d = Some e \<longrightarrow> doc_records e = None"
  shows "cachesOk y \<and> ix_remote y = ix_remote x \<and> (\<forall>e. d' = Some e \<longrightarrow> doc_records e \<noteq> None \<longrightarrow> fromRecords w (lower i) e y)"
proof (cases "out_hasRecords w")
  case False
  then show ?thesis using assms by (auto simp: withRecords_def)
next
  case True
  obtain r z where r: "recsFor w (lower i) x = (r, z)" by fastforce
  note o = recsFor_ok [OF assms(1) r]
  show ?thesis
  proof (cases "d' = d \<and> y = z")
    case True
    then show ?thesis using o assms(3) by auto
  next
    case False
    then obtain rs rows' where *: "r = Some rs" "rs_records rs = Some rows'" "d' = Some (recordDoc hub (lower i) d rs (originals rows'))" "y = z"
      using assms(2) True r by (auto simp: withRecords_def Let_def split: option.splits if_splits)
    then have "fromRecords w (lower i) (recordDoc hub (lower i) d rs (originals rows')) z"
      using o originals_files [of rs rows'] by (auto simp: fromRecords_def recordDoc_def)
    then show ?thesis using * o by auto
  qed
qed

lemma pushCached_ok: "cachesOk x \<Longrightarrow> cachesOk (pushCached t k x)"
  by (fastforce simp: cachesOk_def pushCached_def pushSource_def comp_def case_prod_beta split: option.splits)

lemma pushCached_records [simp]: "ix_records (pushCached t k x) = ix_records x"
  by (simp add: pushCached_def split: option.splits)

lemma fromRecords_push: "fromRecords w k d y \<Longrightarrow> ix_records z = ix_records y \<Longrightarrow> fromRecords w k (pushSource t d) z"
  by (simp add: fromRecords_def pushSource_def)

lemma model_ok:
  assumes "cachesOk x" and "plainFiles w" and "model hub w i x = Inr (d, y)"
  shows "cachesOk y \<and> (\<forall>e. d = Some e \<longrightarrow> doc_records e \<noteq> None \<longrightarrow> fromRecords w (lower i) e y)"
proof -
  obtain b z where b: "baseModel w i x = Inr (b, z)" using assms(3) by (auto simp: model_def andThen_Inr_iff)
  note ob = baseModel_ok [OF assms(1,2) b]
  obtain d1 u where r: "withRecords hub w i (map_option fst b) z = (d1, u)" by fastforce
  have o: "cachesOk u \<and> ix_remote u = ix_remote z \<and> (\<forall>e. d1 = Some e \<longrightarrow> doc_records e \<noteq> None \<longrightarrow> fromRecords w (lower i) e u)"
    by (rule withRecords_ok [OF conjunct1 [OF ob] r]) (use ob in \<open>cases b; auto\<close>)
  show ?thesis
  proof (cases "d = d1 \<and> y = u")
    case True
    then show ?thesis using o by simp
  next
    case False
    then obtain e t where "d1 = Some e" "d = Some (pushSource t e)" "y = pushCached t (case b of Some (_, k) \<Rightarrow> k | None \<Rightarrow> None) u"
      using assms(3) b r by (auto simp: model_def split: option.splits if_splits)
    then show ?thesis using o pushCached_ok fromRecords_push by (auto simp: pushSource_def)
  qed
qed

text \<open>The states of the caches: empty at the start, then one lookup after another, in any worlds.\<close>

inductive lived :: "index \<Rightarrow> bool" where
  fresh: "ix_remote x = [] \<Longrightarrow> ix_records x = [] \<Longrightarrow> lived x"
| look: "lived x \<Longrightarrow> plainFiles w \<Longrightarrow> model hub w i x = Inr (d, y) \<Longrightarrow> lived y"

lemma lived_ok: "lived x \<Longrightarrow> cachesOk x"
  by (induction rule: lived.induct) (simp add: cachesOk_def, blast dest: model_ok)

text \<open>
  The caches of documents and of records never hold more than 501 entries, nor two for one name,
  however many models were asked for.
\<close>

theorem caches_bounded:
  assumes "lived x"
  shows "length (ix_remote x) \<le> 501 \<and> length (ix_records x) \<le> 501 \<and> distinct (map fst (ix_remote x)) \<and> distinct (map fst (ix_records x))"
  using lived_ok [OF assms] by (simp add: cachesOk_def CACHE_MOST_def)

text \<open>
  C28. A document that says it comes from records does: its revision, and the path, digest and size of
  every file, are those of one set of the registry's records for that model, at most five minutes old,
  and no file of those records is left out.
\<close>

theorem record_digests:
  assumes "lived x" and "plainFiles w" and "model hub w i x = Inr (Some d, y)" and "doc_records d \<noteq> None"
  shows "\<exists>at rs rows'. map_of (ix_records y) (lower i) = Some (at, Some rs) \<and> out_now w - at < RECS_KEEP \<and> rs_records rs = Some rows'
     \<and> doc_revision d = rs_revision rs \<and> (\<lambda>f. (f_path f, f_address f, f_size f)) ` set (doc_files d) = recordedFiles rows'"
  using model_ok [OF lived_ok [OF assms(1)] assms(2,3)] assms(4) by (simp add: fromRecords_def)

definition sampleRecs :: records where
  "sampleRecs = \<lparr>rs_repo = ''a/b'', rs_revision = ''r'', rs_index = ''x'',
     rs_records = Some [\<lparr>rr_type = ''file'', rr_names = Some [(''original'', ''c''), (''original'', ''d'')], rr_size = 3, rr_kappa = ''sha256:k'', rr_holders = []\<rparr>]\<rparr>"

definition sampleOutside :: outside where
  "sampleOutside = \<lparr>out_now = 0, out_dir = None, out_file = (\<lambda>n. None), out_latest = (\<lambda>i. None), out_pins = None, out_catalog = None,
     out_object = (\<lambda>a. None), out_hasRecords = True, out_records = (\<lambda>k. Some sampleRecs), out_tensors = (\<lambda>d. Some hfSource)\<rparr>"

definition sampleIndex :: index where
  "sampleIndex = \<lparr>ix_loaded = 0, ix_names = [], ix_remote = [], ix_pins = \<lparr>pins_at = 0, pins_gateway = [], pins_models = []\<rparr>,
     ix_hub = \<lparr>hub_at = 0, hub_objects = []\<rparr>, ix_records = []\<rparr>"

lemma sample_lived: "lived sampleIndex"
  by (rule lived.fresh) (simp_all add: sampleIndex_def)

theorem caches_bounded_witness: "length (ix_remote sampleIndex) \<le> 501 \<and> length (ix_records sampleIndex) \<le> 501"
  using caches_bounded [OF sample_lived] by simp

lemma sample_recs:
  "recsFor sampleOutside key sampleIndex = (Some sampleRecs, sampleIndex\<lparr>ix_records := [(key, 0, Some sampleRecs)]\<rparr>)"
  by (simp add: recsFor_def sampleOutside_def sampleIndex_def remember_def)

lemma sample_originals: "originals (the (rs_records sampleRecs)) = [(''c'', hd (the (rs_records sampleRecs))), (''d'', hd (the (rs_records sampleRecs)))]"
  by (simp add: sampleRecs_def originals_def fileRecs_def)

definition sampleFound :: doc where
  "sampleFound = pushSource hfSource (recordDoc ''h'' ''b'' None sampleRecs (originals (the (rs_records sampleRecs))))"

lemma sample_model:
  "model ''h'' sampleOutside ''b'' sampleIndex = Inr (Some sampleFound, sampleIndex\<lparr>ix_records := [(''b'', 0, Some sampleRecs)]\<rparr>)"
proof -
  have l: "lower ''b'' = ''b''" by (simp add: lower_def)
  have b: "baseModel sampleOutside ''b'' sampleIndex = Inr (None, sampleIndex)"
    by (simp add: baseModel_def refresh_def sampleOutside_def sampleIndex_def DIR_KEEP_def nameFor_def indexed_def isModelId_def fromHub_def
        hubCatalog_def HUB_KEEP_def objectFor_def)
  have w: "withRecords ''h'' sampleOutside ''b'' None sampleIndex
      = (Some (recordDoc ''h'' ''b'' None sampleRecs (originals (the (rs_records sampleRecs)))), sampleIndex\<lparr>ix_records := [(''b'', 0, Some sampleRecs)]\<rparr>)"
    using sample_originals sample_recs by (simp add: withRecords_def Let_def l sampleRecs_def fileRecs_def) (simp add: sampleOutside_def)
  have "\<not> list_ex (\<lambda>s. src_kind s = ''tensors'') (doc_sources (recordDoc ''h'' ''b'' None sampleRecs (originals (the (rs_records sampleRecs)))))"
    by (simp add: recordDoc_def hfSource_def)
  moreover have "out_tensors sampleOutside d = Some hfSource" for d by (simp add: sampleOutside_def)
  ultimately show ?thesis using b w by (simp add: model_def sampleFound_def pushCached_def)
qed

theorem record_digests_witness:
  "(\<lambda>f. (f_path f, f_address f, f_size f)) ` set (doc_files sampleFound) = recordedFiles (the (rs_records sampleRecs))"
proof -
  have p: "plainFiles sampleOutside" by (simp add: plainFiles_def sampleOutside_def)
  have r: "doc_records sampleFound \<noteq> None" by (simp add: sampleFound_def pushSource_def recordDoc_def)
  show ?thesis using record_digests [OF sample_lived p sample_model r] by (auto simp: lower_def)
qed

end
