(* ===== verification/Edge.thy ===== *)
theory Edge
  imports Mcp Index
begin

text \<open>
  The request handler of \<open>deploy/hub-resolve.mjs\<close>: the pin, the routes in order, and what becomes of
  an error. The body of the handler runs inside one \<open>try\<close>; a handler it calls with a bare
  \<open>return f(\<dots>)\<close> is a promise the \<open>try\<close> no longer covers, so what it throws is an unhandled rejection.
\<close>

datatype final =
    Final res
  | Stream' doc row "string option" "(string \<times> string) list"
  | Passed
  | Unhandled js_error

record hub =
  h_edge :: edge
  h_claims :: claims
  h_up :: upstream
  h_rows :: "crow list"
  h_agent :: agent
  h_registry :: string
  h_port :: string

definition cors :: "(string \<times> string) list" where
  "cors = [(''access-control-allow-origin'', ''*''),
     (''access-control-expose-headers'', ''etag, x-repo-commit, x-linked-etag, x-linked-size, x-hub-source, x-total-count, x-error-code, x-error-message, accept-ranges, content-range, docker-content-digest, location'')]"

definition withCors :: "res \<Rightarrow> res" where
  "withCors r = r\<lparr>o_headers := spread cors (o_headers r)\<rparr>"

definition preflight :: res where
  "preflight = \<lparr>o_status = 204, o_headers = [(''access-control-allow-methods'', ''GET, HEAD, OPTIONS''),
     (''access-control-allow-headers'', ''range, accept, content-type, if-none-match, user-agent''), (''access-control-max-age'', ''86400'')], o_body = []\<rparr>"

definition xetReply :: "string \<Rightarrow> res" where
  "xetReply path = \<lparr>o_status = 307, o_headers = [(''location'', ''https://huggingface.co'' @ path), (''cache-control'', ''no-store''), (''content-length'', ''0'')], o_body = []\<rparr>"

definition refsAnswer :: "req \<Rightarrow> doc \<Rightarrow> res" where
  "refsAnswer q d = json (q_verb q) 200 (JObj [(''branches'', JArr [JObj [(''name'', JStr ''main''), (''ref'', JStr ''refs/heads/main''),
     (''targetCommit'', JStr (doc_revision d))]]), (''tags'', JArr []), (''converts'', JArr [])]) []"

definition healthJson :: "(string \<Rightarrow> probeResult) \<Rightarrow> json" where
  "healthJson health = JObj [(''sources'', JObj (map (\<lambda>k. (k, JObj [(''ok'', JBool (p_ok (health k))),
       (''checked'', case p_checked (health k) of None \<Rightarrow> JNull | Some t \<Rightarrow> JStr t), (''reason'', JStr (p_reason (health k)))])) ORDER)),
     (''order'', JArr (map JStr ORDER))]"

definition hubError :: "req \<Rightarrow> res" where
  "hubError q = refuse (q_verb q) 500 ''HubError'' ''The hub endpoint failed on this request.''"

definition notFound :: "req \<Rightarrow> res" where
  "notFound q = refuse (q_verb q) 404 ''NotFound'' ''Not part of the hub endpoint.''"

text \<open>What a handler inside the \<open>try\<close> gives, and what one outside it gives.\<close>

text \<open>What is sent: a head that \<open>writeHead\<close> does not take is thrown inside the \<open>try\<close>, where nothing was sent yet.\<close>

definition written :: "req \<Rightarrow> res \<Rightarrow> res" where
  "written q r = (if sendable r then r else hubError q)"

definition finalOf :: "req \<Rightarrow> outcome \<Rightarrow> final" where
  "finalOf q o' = (case o' of Reply r \<Rightarrow> Final (withCors (written q r)) | Serve d f via hs \<Rightarrow> Stream' d f via hs | Elsewhere \<Rightarrow> Passed)"

definition covered :: "req \<Rightarrow> shelf \<Rightarrow> (outcome \<times> string list) result \<Rightarrow> final \<times> shelf \<times> string list" where
  "covered q s r = (case r of Inr (o', asked) \<Rightarrow> (finalOf q o', s, asked) | Inl _ \<Rightarrow> (Final (withCors (hubError q)), s, []))"

definition bare :: "shelf \<Rightarrow> (res \<times> shelf) result \<Rightarrow> final \<times> shelf \<times> string list" where
  "bare s r = (case r of Inr (a, s') \<Rightarrow> (if sendable a then Final (withCors a) else Unhandled TypeError, s', []) | Inl e \<Rightarrow> (Unhandled e, s, []))"

definition healthReply :: "edge \<Rightarrow> req \<Rightarrow> res" where
  "healthReply v q = json (q_verb q) 200 (healthJson (v_health v)) [(''cache-control'', ''no-store''), (''access-control-allow-origin'', ''*'')]"

definition blobHop :: "req \<Rightarrow> string \<Rightarrow> shelf \<Rightarrow> outcome" where
  "blobHop q h s = (case sh_blobs s h of
     None \<Rightarrow> Reply (refuse (q_verb q) 404 ''BlobUnknown'' (''Ask for the blob through its model'' @ QUOTE # ''s manifest first.''))
   | Some (d, f) \<Rightarrow> Serve d f None [(''docker-content-digest'', ''sha256:'' @ h)])"

definition dispatch :: "hub \<Rightarrow> req \<Rightarrow> string option \<Rightarrow> string \<Rightarrow> shelf \<Rightarrow> final \<times> shelf \<times> string list" where
  "dispatch h q via path s = (let v = h_edge h; now = (\<lambda>r. (Final (withCors (written q r)), s, [])) in
     case routeOf (h_claims h) (v_verify v) path of
       RElsewhere \<Rightarrow> (Passed, s, [])
     | RNotFound \<Rightarrow> now (notFound q)
     | RBlob dg \<Rightarrow> (finalOf q (blobHop q dg s), s, [])
     | ROci i kind ref \<Rightarrow> bare s (ollama v (h_up h) (h_rows h) (h_registry h) (h_port h) q i kind ref s)
     | RList \<Rightarrow> bare s (andThen (listRoute q (h_rows h)) (\<lambda>r. Inr (r, s)))
     | RHealth \<Rightarrow> now (healthReply v q)
     | RModelScope i sub \<Rightarrow> covered q s (modelScope v q via i sub)
     | RAcceleration \<Rightarrow> now (msOk (q_verb q) (JObj []))
     | RXet \<Rightarrow> now (xetReply path)
     | RRefs i \<Rightarrow> covered q s (withModel v q i None (\<lambda>d. Inr (Reply (refsAnswer q d))))
     | RTree i sz rv dir \<Rightarrow> covered q s (withModel v q i (Some rv) (\<lambda>d. Inr (Reply (treeAnswer q d sz dir))))
     | RInfo i rv \<Rightarrow> covered q s (withModel v q i rv (\<lambda>d. Inr (Reply (infoAnswer v q d))))
     | RFile i rv p \<Rightarrow> covered q s (withModel v q i (Some rv) (\<lambda>d. fileAnswer v q via d p)))"

definition lfsFinal :: "hub \<Rightarrow> req \<Rightarrow> string \<Rightarrow> shelf \<Rightarrow> final \<times> shelf \<times> string list" where
  "lfsFinal h q i s = (case lfsBatch (h_edge h) (h_port h) q i of
     Inl e \<Rightarrow> (Unhandled e, s, [])
   | Inr (r, bs) \<Rightarrow> (Final (withCors r), s\<lparr>sh_blobs := foldl (\<lambda>m (k, d, f). m(k \<mapsto> (d, f))) (sh_blobs s) bs\<rparr>, []))"

definition handle :: "hub \<Rightarrow> req \<Rightarrow> shelf \<Rightarrow> final \<times> shelf \<times> string list" where
  "handle h q s = (if q_path q = ''/mcp'' then (Final (mcp (h_agent h) q), s, [])
     else if q_verb q = ''OPTIONS'' then (Final (withCors preflight), s, [])
     else if lfsRoute (q_path q) \<noteq> None \<and> q_verb q = ''POST''
     then (case decodeURIComponent (the (lfsRoute (q_path q))) of
         None \<Rightarrow> (Final (withCors (hubError q)), s, [])
       | Some i \<Rightarrow> lfsFinal h q i s)
     else if q_verb q \<noteq> ''GET'' \<and> q_verb q \<noteq> ''HEAD''
     then (Final (withCors (refuse (q_verb q) 405 ''ReadOnly'' ''The hub endpoint is read-only.'')), s, [])
     else case decodeURIComponent (q_path q) of
       None \<Rightarrow> (Final (withCors (hubError q)), s, [])
     | Some path \<Rightarrow> (case viaRoute path of
         Some (v, p) \<Rightarrow> dispatch h q (Some (viaOf v)) p s
       | None \<Rightarrow> dispatch h q (someText (param q ''source'')) path s))"

subsection \<open>A pin is honoured or refused\<close>

lemma refuse_status: "o_status (refuse verb st code m) = st"
  by (simp add: refuse_def json_def Let_def)

lemma hex_chars: "c \<in> set (hex b) \<Longrightarrow> CHR ''0'' \<le> c \<and> c \<le> CHR ''f''"
proof -
  have "\<forall>n \<in> set [0..<16]. CHR ''0'' \<le> hexdigit n \<and> hexdigit n \<le> CHR ''f''" by code_simp
  then have "n < 16 \<Longrightarrow> CHR ''0'' \<le> hexdigit n \<and> hexdigit n \<le> CHR ''f''" for n by auto
  moreover have "unat x div 16 < 16" for x :: byte using unat_byte_less [of x] by linarith
  ultimately show "c \<in> set (hex b) \<Longrightarrow> ?thesis" by (auto simp: hex_def hex2_def)
qed

text \<open>The texts of an index that a file's answer puts in a header.\<close>

definition headersOk :: "doc \<Rightarrow> bool" where
  "headersOk d \<longleftrightarrow> headerText (doc_id d) \<and> headerText (doc_revision d)
     \<and> (\<forall>f \<in> set (doc_files d). headerText (etagOf f) \<and> (\<forall>s \<in> set (doc_sources d). headerText (urlFor s f)))"

definition sendsText :: "edge \<Rightarrow> string \<Rightarrow> string \<Rightarrow> bool" where
  "sendsText v i p \<longleftrightarrow> headerText i \<and> headerText p \<and> (\<forall>d. v_model v i = Some d \<longrightarrow> headersOk d)"

lemma headerText_order: "k \<in> set ORDER \<Longrightarrow> headerText k"
  by (auto simp: ORDER_def headerText_def)

lemma denied_text:
  assumes "chooseSource health d f (Some k) = Denied code message" and "headerText k" and "headerText (f_path f)" and "headerText (doc_id d)"
  shows "headerText code \<and> headerText message"
proof -
  define offer where "offer = (if haveSources d f \<noteq> [] then join '', '' (map src_kind (haveSources d f)) else ''no source in this hub'' @ QUOTE # ''s index'')"
  have o: "headerText offer"
    unfolding offer_def by (auto simp: QUOTE_def haveSources_set headerText_order intro!: headerText_join) (simp_all add: headerText_def)
  have ord: "headerText (join '', '' ORDER)" by (rule headerText_join) (auto simp: headerText_order, simp add: headerText_def)
  have "(code = ''UnknownSource'' \<and> message = k @ '' is not a source this hub knows. It has '' @ join '', '' ORDER @ ''; for this file: '' @ offer @ ''.'')
    \<or> (code = ''SourceHasNotGotIt'' \<and> message = k @ '' does not hold '' @ f_path f @ '' of '' @ doc_id d @ ''. This file is on: '' @ offer @ ''. Drop the /via/ prefix to let the hub choose.'')"
    using assms(1) unfolding chooseSource_def offer_def Let_def by (auto split: if_splits option.splits)
  then show ?thesis
    by (elim disjE conjE) (simp_all only: headerText_append assms o ord, simp_all add: headerText_def)
qed

lemma pinned_file_answer:
  assumes "fileAnswer v q (Some k) d p = a" and "\<not> v_verify v"
  shows "\<exists>r. a = Inr (Reply r) \<and> (o_status r = 404 \<or> o_status r = 200 \<and> p = ''SHA256SUMS'' \<or>
     (\<exists>f s. o_status r = 302 \<and> f \<in> set (doc_files d) \<and> f_path f = p \<and> s \<in> set (haveSources d f) \<and> src_kind s = k
       \<and> r = redirect 302 (urlFor s f) [(''x-repo-commit'', doc_revision d), (''x-linked-etag'', etagOf f), (''x-linked-size'', decimal (f_size f)),
           (''etag'', etagOf f), (''accept-ranges'', ''bytes'')] k))
     \<and> (headersOk d \<longrightarrow> headerText p \<longrightarrow> headerText k \<longrightarrow> sendable r)"
proof (cases "findFile d p")
  case None
  show ?thesis
  proof (cases "p = ''SHA256SUMS''")
    case True
    have "headerText (hex b)" for b
    proof -
      have "(32 :: nat) \<le> of_char c \<and> of_char c \<noteq> (127 :: nat)" if "c \<in> set (hex b)" for c
        using hex_chars [OF that] by (auto simp: less_eq_char_def)
      then show ?thesis by (simp add: headerText_def list_all_iff)
    qed
    then have "headerText (CHR 0x22 # hex b @ [CHR 0x22])" for b by (simp add: headerText_def)
    moreover have "headerText ''text/plain; charset=utf-8''" by (simp add: headerText_def)
    ultimately show ?thesis using assms(1) None True by (auto simp: fileAnswer_def sendable_def headersOk_def)
  next
    case False
    have "headerText ''EntryNotFound''" "headerText '' is not in ''" "headerText '' at ''" "headerText ''.''" by (simp_all add: headerText_def)
    then have "headersOk d \<longrightarrow> headerText p \<longrightarrow> sendable (refuse (q_verb q) 404 ''EntryNotFound'' (p @ '' is not in '' @ doc_id d @ '' at '' @ doc_revision d @ ''.''))"
      by (auto intro!: sendable_refuse simp: headersOk_def simp del: append_Cons)
    then show ?thesis using assms(1) None False by (auto simp: fileAnswer_def refuse_status)
  qed
next
  case (Some f)
  then have f: "f \<in> set (doc_files d)" "f_path f = p" by (auto simp: findFile_def find_Some_iff)
  show ?thesis
  proof (cases "chooseSource (v_health v) d f (Some k)")
    case (Denied code message)
    then have "headersOk d \<longrightarrow> headerText p \<longrightarrow> headerText k \<longrightarrow> sendable (refuse (q_verb q) 404 code message)"
      using denied_text [OF Denied] f by (auto intro!: sendable_refuse simp: headersOk_def)
    then show ?thesis using assms(1) Some Denied by (auto simp: fileAnswer_def refuse_status)
  next
    case (Chosen c why)
    then obtain s where s: "c = Some s" "s \<in> set (haveSources d f)" "src_kind s = k" using choose_pinned by blast
    let ?r = "redirect 302 (urlFor s f) [(''x-repo-commit'', doc_revision d), (''x-linked-etag'', etagOf f),
        (''x-linked-size'', decimal (f_size f)), (''etag'', etagOf f), (''accept-ranges'', ''bytes'')] k"
    have "a = Inr (Reply ?r)" using assms Some Chosen s by (simp add: fileAnswer_def)
    moreover have "o_status ?r = 302" by (simp add: redirect_def)
    moreover have "headersOk d \<longrightarrow> headerText k \<longrightarrow> sendable ?r"
    proof -
      have "headerText ''bytes''" "headerText ''no-store''" "headerText ''0''" by (simp_all add: headerText_def)
      then show ?thesis using f s by (auto simp: sendable_def redirect_def headersOk_def haveSources_set)
    qed
    ultimately show ?thesis using f s by blast
  qed
qed

lemma viaRoute_letters:
  assumes "viaRoute path = Some (v, rest)"
  shows "\<forall>c \<in> set v. c = CHR ''.'' \<or> (CHR ''a'' \<le> c \<and> c \<le> CHR ''z'')"
proof -
  obtain e w v' rest' where sg: "segments path = e # w # v' # rest'" using assms by (auto simp: viaRoute_def split: list.splits)
  show ?thesis using assms unfolding viaRoute_def sg list.case by (simp add: list_all_iff split: if_split_asm)
qed

lemma viaOf_text:
  assumes "viaRoute path = Some (v, rest)"
  shows "headerText (viaOf v)"
proof -
  have "(32 :: nat) \<le> of_char c \<and> of_char c \<noteq> (127 :: nat)" if "c \<in> set v" for c
  proof -
    have "c = CHR ''.'' \<or> (CHR ''a'' \<le> c \<and> c \<le> CHR ''z'')" using viaRoute_letters [OF assms] that by (rule bspec)
    then show ?thesis by (elim disjE conjE) (simp_all add: less_eq_char_def)
  qed
  then have "headerText v" by (simp add: headerText_def list_all_iff)
  moreover have "headerText ''modelscope.cn''" "headerText ''huggingface.co''" by (simp_all add: headerText_def)
  ultimately show ?thesis unfolding viaOf_def by (simp only: split: if_split) simp
qed

lemma missing_sendable: "headerText i \<Longrightarrow> missingModel v verb i = (Reply r, ids) \<Longrightarrow> sendable r"
proof -
  assume "headerText i" and m: "missingModel v verb i = (Reply r, ids)"
  moreover have "headerText ''GatedRepo''" "headerText ''RepoNotFound''"
    "headerText '' is gated on Hugging Face. The hub serves public models only; use huggingface.co directly for this one.''"
    "headerText '' is not in the Hologram index yet. The request was recorded for the next index run; use huggingface.co directly meanwhile.''"
    by (simp_all add: headerText_def)
  ultimately show ?thesis
    by (auto simp: missingModel_def simp del: append_Cons split: if_splits intro!: sendable_refuse)
qed

lemma noRevision_sendable: "headersOk d \<Longrightarrow> sendable (noRevision verb d)"
proof -
  assume "headersOk d"
  moreover have "headerText ''RevisionNotFound''" "headerText ''The hub has ''" "headerText '' at ''" "headerText '' only.''" by (simp_all add: headerText_def)
  ultimately show ?thesis unfolding noRevision_def by (intro sendable_refuse) (simp_all add: headersOk_def del: append_Cons)
qed

lemma missing_status: "fst (missingModel v verb i) = Reply r \<Longrightarrow> o_status r \<in> {403, 404}"
  by (auto simp: missingModel_def refuse_def json_def Let_def split: if_splits)

lemma missing_reply: "\<exists>r ids. missingModel v verb i = (Reply r, ids)"
  by (auto simp: missingModel_def)

lemma withCors_header:
  "map_of (o_headers (withCors r)) k = (case map_of (rev (o_headers r)) k of Some x \<Rightarrow> Some x | None \<Rightarrow> map_of cors k)"
  "o_status (withCors r) = o_status r"
  by (simp_all add: withCors_def map_of_spread)

definition pinnedTo :: "edge \<Rightarrow> string \<Rightarrow> string \<Rightarrow> string \<Rightarrow> res \<Rightarrow> bool" where
  "pinnedTo v k i p r \<longleftrightarrow> (\<exists>d f s. v_model v i = Some d \<and> f \<in> set (doc_files d) \<and> f_path f = p \<and> s \<in> set (doc_sources d) \<and> src_kind s = k
     \<and> p \<notin> set (src_missing s) \<and> map_of (o_headers r) ''location'' = Some (urlFor s f) \<and> map_of (o_headers r) ''x-hub-source'' = Some k
     \<and> map_of (o_headers r) ''etag'' = Some (etagOf f) \<and> map_of (o_headers r) ''x-repo-commit'' = Some (doc_revision d))"


subsection \<open>Bodies the LFS route does not survive\<close>

lemma mapResult_fails: "(\<exists>e. mapResult g xs = Inl e) \<longleftrightarrow> (\<exists>x \<in> set xs. \<exists>e. g x = Inl e)"
proof (induction xs)
  case (Cons x xs)
  then show ?case by (cases "g x"; cases "mapResult g xs") auto
qed simp

definition heldBy :: "doc \<Rightarrow> row \<Rightarrow> source \<Rightarrow> bool" where
  "heldBy d f s \<longleftrightarrow> s \<in> set (doc_sources d) \<and> \<not> src_p2p s \<and> \<not> src_pull s \<and> src_kind s \<in> set ORDER \<and> f_path f \<notin> set (src_missing s)"

lemma choose_fails: "(\<exists>e. sourceOnly (chooseSource health d f None) = Inl e) \<longleftrightarrow> (\<forall>s. \<not> heldBy d f s)"
proof -
  have "haveSources d f = [] \<longleftrightarrow> (\<forall>s. \<not> heldBy d f s)" unfolding set_empty [symmetric] haveSources_set by (auto simp: heldBy_def)
  moreover have "(\<exists>e. sourceOnly (chooseSource health d f None) = Inl e) \<longleftrightarrow> haveSources d f = []"
    by (auto simp: sourceOnly_def chooseSource_def Let_def split: option.splits list.splits)
  ultimately show ?thesis by simp
qed

text \<open>An object of a batch that names a file no source holds, on the redirecting edge.\<close>

definition unplaced :: "edge \<Rightarrow> doc \<Rightarrow> json \<Rightarrow> bool" where
  "unplaced v d x \<longleftrightarrow> \<not> v_verify v \<and> (case byOid d (case getProp ''oid'' x of None \<Rightarrow> ''undefined'' | Some o' \<Rightarrow> toText o') of
     None \<Rightarrow> False | Some f \<Rightarrow> (\<forall>s. \<not> heldBy d f s))"

lemma lfsObject_fails: "(\<exists>e. lfsObject v host d x = Inl e) \<longleftrightarrow> unplaced v d x"
  unfolding lfsObject_def unplaced_def Let_def
  by (simp add: andThen_Inl_iff choose_fails split: option.split)

definition badObjects :: "edge \<Rightarrow> doc \<Rightarrow> json option \<Rightarrow> bool" where
  "badObjects v d os \<longleftrightarrow> \<not> falsy os \<and> (case os of Some (JArr xs) \<Rightarrow> JNull \<in> set (take 1000 xs) \<or> (\<exists>x \<in> set (take 1000 xs). unplaced v d x) | _ \<Rightarrow> True)"


subsection \<open>The process over time\<close>

text \<open>
  The shelves a process can have: at the start nothing in memory and anything on disk, then one
  request after another, each with whatever the index, the sources and the world say at that moment.
\<close>

inductive running :: "shelf \<Rightarrow> bool" where
  start: "running \<lparr>sh_small = Map.empty, sh_disk = disk, sh_writes = w, sh_manifests = Map.empty, sh_blobs = Map.empty\<rparr>"
| serve: "running s \<Longrightarrow> handle h q s = (a, s', asked) \<Longrightarrow> running s'"

lemma bare_ok: "bare s r = (a, s', asked) \<Longrightarrow> shelfOk s \<Longrightarrow> (\<And>x t. r = Inr (x, t) \<Longrightarrow> shelfOk t) \<Longrightarrow> shelfOk s'"
  by (auto simp: bare_def split: sum.splits)

lemma covered_shelf: "covered q s r = (a, s', asked) \<Longrightarrow> s' = s"
  by (auto simp: covered_def split: sum.splits)

lemma dispatch_ok:
  assumes "shelfOk s" and "dispatch h q via path s = (a, s', asked)"
  shows "shelfOk s'"
proof (cases "routeOf (h_claims h) (v_verify (h_edge h)) path")
  case (ROci i kind ref)
  then have "bare s (ollama (h_edge h) (h_up h) (h_rows h) (h_registry h) (h_port h) q i kind ref s) = (a, s', asked)"
    using assms(2) by (simp add: dispatch_def Let_def)
  then show ?thesis using assms(1) by (rule bare_ok) (rule ollama_ok [OF assms(1)])
next
  case RList
  then have "bare s (andThen (listRoute q (h_rows h)) (\<lambda>r. Inr (r, s))) = (a, s', asked)" using assms(2) by (simp add: dispatch_def Let_def)
  then show ?thesis using assms(1) by (rule bare_ok) (use assms(1) in \<open>auto simp: andThen_Inr_iff\<close>)
qed (use assms in \<open>auto simp: dispatch_def Let_def dest!: covered_shelf\<close>)

lemma handle_ok:
  assumes "shelfOk s" and "handle h q s = (a, s', asked)"
  shows "shelfOk s'"
  using assms dispatch_ok
  by (auto simp: handle_def lfsFinal_def split: if_splits option.splits sum.splits prod.splits)

lemma running_ok: "running s \<Longrightarrow> shelfOk s"
  by (induction rule: running.induct) (simp add: shelfOk_def, blast intro: handle_ok)

text \<open>
  C15. Under a name that is a model of the hub, whatever the process has served before, whatever is on its disk and
  whatever Hugging Face answers: bytes that it sends itself for a blob, whole, are bytes with that very digest. (The
  blobs of any other name are relayed from the registry as they come; the process does not check those.)
\<close>

theorem blob_never_wrong:
  assumes "running s" and "v_model v i = Some d" and "q_verb q = ''GET''" and "headerOf q ''range'' = None"
    and "ollama v up rs root port q i ''blobs'' ref s = Inr (r, s')" and "o_status r = 200"
  shows "sha (o_body r) = ref"
  by (rule blob_named [OF running_ok [OF assms(1)] assms(3,4) _ assms(6)]) (use assms(2,5) in \<open>simp add: ollama_def\<close>)

definition sampleRow :: row where
  "sampleRow = \<lparr>f_path = ''c'', f_size = 3, f_address = ''sha256:ba'', f_weights = False, f_url = ''u''\<rparr>"

definition sampleDoc :: doc where
  "sampleDoc = \<lparr>doc_id = ''a/b'', doc_revision = ''0123456789'', doc_manifest = [], doc_records = None,
     doc_sources = [\<lparr>src_kind = ''huggingface.co'', src_resolve = None, src_missing = [], src_p2p = False, src_pull = False, src_byDigest = False\<rparr>,
       \<lparr>src_kind = ''ipfs'', src_resolve = Some ''g/'', src_missing = [], src_p2p = False, src_pull = False, src_byDigest = False\<rparr>],
     doc_files = [sampleRow]\<rparr>"

definition sampleEdge :: edge where
  "sampleEdge = \<lparr>v_model = (\<lambda>i. if i = ''a/b'' then Some sampleDoc else None), v_health = (\<lambda>k. \<lparr>p_ok = True, p_checked = None, p_reason = []\<rparr>),
     v_gated = (\<lambda>i. False), v_verify = False, v_hub = ''h'', v_api = ''p''\<rparr>"

definition sampleHub :: hub where
  "sampleHub = \<lparr>h_edge = sampleEdge, h_claims = \<lparr>c_tensor = (\<lambda>p. False), c_kappa = (\<lambda>p. False), c_root = (\<lambda>p. False), c_page = (\<lambda>p. False)\<rparr>,
     h_up = \<lparr>up_blob = (\<lambda>i dg. NoBlob), up_manifest = (\<lambda>i t. None), up_registry = (\<lambda>r. Inl ''down''), up_now = 0\<rparr>, h_rows = [],
     h_agent = \<lparr>a_edge = sampleEdge, a_host = ''h'', a_after = (\<lambda>a b. False), a_rows = [], a_prose = JArr [], a_hits = (\<lambda>n rs. JNull), a_says = (\<lambda>e. [])\<rparr>,
     h_registry = ''r'', h_port = ''8090''\<rparr>"

definition sampleShelf :: shelf where
  "sampleShelf = \<lparr>sh_small = Map.empty, sh_disk = (\<lambda>n. if n = cacheFile (sha [1]) then Some [1] else None), sh_writes = False, sh_manifests = Map.empty, sh_blobs = Map.empty\<rparr>"

definition ask :: "string \<Rightarrow> req" where
  "ask p = \<lparr>q_verb = ''GET'', q_url = p, q_path = p, q_query = [], q_heads = [], q_data = []\<rparr>"

lemma sample_via: "viaRoute ''/via/ipfs/a/b/resolve/main/c'' = Some (''ipfs'', ''/a/b/resolve/main/c'')"
  by (simp add: viaRoute_def segments_def rejoin_def noBreak_def)

lemma sample_route: "routeOf (h_claims sampleHub) False ''/a/b/resolve/main/c'' = RFile ''a/b'' ''main'' ''c''"
  by (simp add: routeOf_def segments_def sampleHub_def startsWith_def ociRoute_def modelScopeRoute_def isXet_def refsRoute_def treeRoute_def infoRoute_def
      fileRoute_def nameOf_def rejoin_def noBreak_def)


lemma sha_digest: "isDigest (sha b)"
  by (simp add: sha_def isDigest_def startsWith_def isHex64_hex length_sha256)

lemma sample_blob:
  "ollama sampleEdge (h_up sampleHub) [] ''r'' ''8090'' (ask ''/v2'') ''a/b'' ''blobs'' (sha [1]) sampleShelf
    = Inr (smallReply (ask ''/v2'') (sha [1]) [1], sampleShelf\<lparr>sh_small := [sha [1] \<mapsto> [1]]\<rparr>)"
proof -
  have "length (sha [1]) = 71" by (simp add: sha_def length_hex length_sha256)
  then have "sha [1] \<noteq> ''sha256:ba''" by auto
  then have "find (\<lambda>f. f_address f = sha [1]) (doc_files sampleDoc) = None" by (simp add: sampleDoc_def sampleRow_def)
  moreover have "smallBlob (sha [1]) got sampleShelf = (Some [1], sampleShelf\<lparr>sh_small := [sha [1] \<mapsto> [1]]\<rparr>)" for got
    by (simp add: smallBlob_def sampleShelf_def)
  ultimately show ?thesis using sha_digest [of "[1]"] by (simp add: ollama_def sampleEdge_def blobsRoute_def)
qed

theorem blob_never_wrong_witness:
  "o_status (smallReply (ask ''/v2'') (sha [1]) [1]) = 200 \<and> sha (o_body (smallReply (ask ''/v2'') (sha [1]) [1])) = sha [1]"
proof -
  have r: "running sampleShelf" unfolding sampleShelf_def by (rule running.start)
  have m: "v_model sampleEdge ''a/b'' = Some sampleDoc" by (simp add: sampleEdge_def)
  have q: "q_verb (ask ''/v2'') = ''GET''" "headerOf (ask ''/v2'') ''range'' = None" by (simp_all add: ask_def headerOf_def)
  have n: "blobRange [] = None" by (simp add: blobRange_def startsWith_def)
  have st: "o_status (smallReply (ask ''/v2'') (sha [1]) [1]) = 200" using q n by (simp add: smallReply_def plainReply_def Let_def)
  show ?thesis using st blob_never_wrong [OF r m q sample_blob st] by simp
qed


end
