(* ===== verification/Account.thy ===== *)
theory Account
  imports Resolve
begin

text \<open>
  The account service, \<open>deploy/hub-account.mjs\<close>: the access token and its checks, per-person records,
  the likes and comments of the Apps, and the rate of a person. The ECDSA check of \<open>node:crypto\<close> is an
  argument (\<open>None\<close> when no key is configured); the clock in milliseconds and the next random id come
  with the request. The disk takes every write, and a stored record is the record that was written.
\<close>

definition SKEW :: int where "SKEW = 60"
definition MAX_BODY :: nat where "MAX_BODY = 8192"
definition MAX_SAVED :: nat where "MAX_SAVED = 500"
definition MAX_REQUESTS :: nat where "MAX_REQUESTS = 100"
definition MAX_COMMENT :: nat where "MAX_COMMENT = 2000"
definition MAX_COMMENTS :: nat where "MAX_COMMENTS = 5000"

subsection \<open>The token\<close>

text \<open>\<open>Buffer.from(s, "base64")\<close> of text in either alphabet, without padding: other characters are passed over.\<close>

definition sextetOf :: "char \<Rightarrow> nat list" where
  "sextetOf c = (let n = (of_char c :: nat) in if 65 \<le> n \<and> n \<le> 90 then [n - 65] else if 97 \<le> n \<and> n \<le> 122 then [n - 71]
     else if 48 \<le> n \<and> n \<le> 57 then [n + 4] else if c = CHR ''+'' \<or> c = CHR ''-'' then [62] else if c = CHR ''/'' \<or> c = CHR ''_'' then [63] else [])"

fun fromSextets :: "nat list \<Rightarrow> bytes" where
  "fromSextets (a # b # c # d # r) = of_nat (4 * a + b div 16) # of_nat (16 * (b mod 16) + c div 4) # of_nat (64 * (c mod 4) + d) # fromSextets r"
| "fromSextets [a, b, c] = [of_nat (4 * a + b div 16), of_nat (16 * (b mod 16) + c div 4)]"
| "fromSextets [a, b] = [of_nat (4 * a + b div 16)]"
| "fromSextets _ = []"

definition b64text :: "string \<Rightarrow> bytes" where
  "b64text s = fromSextets (concat (map sextetOf s))"

datatype checked = Refused string | Signed string "json option" int

record config =
  ac_app :: string
  ac_key :: "(bytes \<Rightarrow> bytes \<Rightarrow> bool) option"

definition propOf :: "string \<Rightarrow> json \<Rightarrow> json option result" where
  "propOf k v = (if v = JNull then Inl TypeError else Inr (getProp k v))"

definition shown :: "json option \<Rightarrow> string" where
  "shown v = (case v of None \<Rightarrow> ''undefined'' | Some x \<Rightarrow> toText x)"

definition checkClaims :: "string \<Rightarrow> int \<Rightarrow> json \<Rightarrow> checked result" where
  "checkClaims app now claims = (if claims = JNull then Inl TypeError
     else if getProp ''iss'' claims \<noteq> Some (JStr ''privy.io'') then Inr (Refused (''issuer '' @ shown (getProp ''iss'' claims) @ '' refused''))
     else if app = [] \<or> getProp ''aud'' claims \<noteq> Some (JStr app) then Inr (Refused ''audience refused'')
     else case getProp ''exp'' claims of
       Some (JNum e) \<Rightarrow> if (e + SKEW) * 1000 < now then Inr (Refused ''expired'')
         else if (case getProp ''iat'' claims of Some (JNum t) \<Rightarrow> (t - SKEW) * 1000 > now | _ \<Rightarrow> False) then Inr (Refused ''issued in the future'')
         else (case getProp ''sub'' claims of
             Some (JStr did) \<Rightarrow> if did = [] then Inr (Refused ''no subject'')
               else Inr (Signed did (let sid = getProp ''sid'' claims in if falsy sid then None else sid) e)
           | _ \<Rightarrow> Inr (Refused ''no subject''))
     | _ \<Rightarrow> Inr (Refused ''expired''))"

definition verifyAccessToken :: "string \<Rightarrow> (bytes \<Rightarrow> bytes \<Rightarrow> bool) \<Rightarrow> int \<Rightarrow> string \<Rightarrow> checked result" where
  "verifyAccessToken app good now token = (case splitAt (CHR ''.'') token of
     [h, p, s] \<Rightarrow> (case (parse (decodeText (b64text h)), parse (decodeText (b64text p))) of
         (Some header, Some claims) \<Rightarrow> andThen (propOf ''alg'' header) (\<lambda>alg.
           if alg \<noteq> Some (JStr ''ES256'') then Inr (Refused (''alg '' @ shown alg @ '' refused''))
           else if \<not> falsy (getProp ''typ'' header) \<and> getProp ''typ'' header \<noteq> Some (JStr ''JWT'') then Inr (Refused ''typ refused'')
           else if length (b64text s) \<noteq> 64 then Inr (Refused ''signature is not raw rs'')
           else if \<not> good (utf8 (h @ ''.'' @ p)) (b64text s) then Inr (Refused ''bad signature'')
           else checkClaims app now claims)
       | _ \<Rightarrow> Inr (Refused ''malformed''))
   | _ \<Rightarrow> Inr (Refused ''not a JWT''))"

subsection \<open>What is kept\<close>

record user =
  us_did :: string
  us_created :: string
  us_wallet :: "string option"
  us_saved :: "json list"
  us_requests :: "json list"

record comment =
  cm_id :: string
  cm_parent :: "string option"
  cm_author :: string
  cm_handle :: string
  cm_text :: string
  cm_at :: string
  cm_votes :: "(string \<times> int) list"

record thread =
  th_votes :: "(string \<times> int) list"
  th_comments :: "comment list"

record account =
  st_users :: "string \<Rightarrow> user option"
  st_apps :: "string \<Rightarrow> thread option"
  st_requested :: "(string \<times> string \<times> json) list"
  st_publisher :: "(string \<times> string \<times> string) list"
  st_seen :: "(string \<times> int list) list"

text \<open>The moment of a request: milliseconds, the same as text, and the next random id.\<close>

record moment =
  mo_now :: int
  mo_iso :: string
  mo_uuid :: string
  mo_peer :: string

definition keyOf :: "string \<Rightarrow> string" where
  "keyOf did = hex (sha256 (utf8 did))"

definition blank :: "string \<Rightarrow> moment \<Rightarrow> user" where
  "blank did m = \<lparr>us_did = did, us_created = mo_iso m, us_wallet = None, us_saved = [], us_requests = []\<rparr>"

definition load :: "string \<Rightarrow> moment \<Rightarrow> account \<Rightarrow> user" where
  "load did m st = (case st_users st (keyOf did) of Some u \<Rightarrow> u | None \<Rightarrow> blank did m)"

definition save :: "user \<Rightarrow> account \<Rightarrow> account" where
  "save u st = st\<lparr>st_users := (st_users st)(keyOf (us_did u) \<mapsto> u)\<rparr>"

subsection \<open>Answers\<close>

definition accJson :: "string \<Rightarrow> nat \<Rightarrow> json \<Rightarrow> res" where
  "accJson verb status body = (let text = utf8 (stringify body) in
     \<lparr>o_status = status, o_headers = [(''content-type'', ''application/json; charset=utf-8''), (''content-length'', decimal (length text)),
        (''cache-control'', ''no-store''), (''referrer-policy'', ''no-referrer''), (''x-content-type-options'', ''nosniff'')],
      o_body = (if verb = ''HEAD'' then [] else text)\<rparr>)"

definition accRefuse :: "string \<Rightarrow> nat \<Rightarrow> string \<Rightarrow> res" where
  "accRefuse verb status message = accJson verb status (JObj [(''error'', JStr message)])"

definition tooLarge :: js_error where "tooLarge = Error ''too large''"

definition bodyOf :: "req \<Rightarrow> json result" where
  "bodyOf q = (if MAX_BODY < length (q_data q) then Inl tooLarge else if q_data q = [] then Inr (JObj [])
     else case parse (decodeText (q_data q)) of Some v \<Rightarrow> Inr v | None \<Rightarrow> Inl SyntaxError)"

text \<open>\<open>withinRate\<close>: the hits of the last minute with this one, and whether they are within the limit.\<close>

definition WINDOW :: int where "WINDOW = 60000"
definition SEEN_MOST :: nat where "SEEN_MOST = 10000"

definition withinRate :: "string \<Rightarrow> nat \<Rightarrow> int \<Rightarrow> account \<Rightarrow> bool \<times> account" where
  "withinRate key limit now st = (let old = (case map_of (st_seen st) key of Some ts \<Rightarrow> ts | None \<Rightarrow> []);
       hits = filter (\<lambda>t. now - t < WINDOW) old @ [now];
       seen = (key, hits) # filter (\<lambda>e. fst e \<noteq> key) (st_seen st);
       swept = (if SEEN_MOST < length seen then filter (\<lambda>e. list_ex (\<lambda>t. now - t < WINDOW) (snd e)) seen else seen)
     in (length hits \<le> limit, st\<lparr>st_seen := swept\<rparr>))"

text \<open>\<open>MODEL\<close> and \<open>APP\<close>.\<close>

definition isAlnum :: "char \<Rightarrow> bool" where
  "isAlnum c \<longleftrightarrow> isDigit c \<or> (CHR ''a'' \<le> c \<and> c \<le> CHR ''z'') \<or> (CHR ''A'' \<le> c \<and> c \<le> CHR ''Z'')"

definition isModelPart :: "string \<Rightarrow> bool" where
  "isModelPart s \<longleftrightarrow> (case s of [] \<Rightarrow> False | c # cs \<Rightarrow> isAlnum c \<and> length cs \<le> 95 \<and> list_all (\<lambda>c. isAlnum c \<or> c \<in> set ''_.-'') cs)"

definition isModelName :: "string \<Rightarrow> bool" where
  "isModelName s \<longleftrightarrow> (case splitAt (CHR ''/'') s of [a, b] \<Rightarrow> isModelPart a \<and> isModelPart b | _ \<Rightarrow> False)"

definition isAppId :: "string \<Rightarrow> bool" where
  "isAppId s \<longleftrightarrow> (let low = (\<lambda>c. isDigit c \<or> (CHR ''a'' \<le> c \<and> c \<le> CHR ''z'')) in
     case s of [] \<Rightarrow> False | c # cs \<Rightarrow> low c \<and> length cs \<le> 63 \<and> list_all (\<lambda>c. low c \<or> c = CHR ''-'') cs)"

definition isAddress :: "string \<Rightarrow> bool" where
  "isAddress s \<longleftrightarrow> length s = 42 \<and> startsWith s ''0x'' \<and> list_all (\<lambda>c. isDigit c \<or> (CHR ''a'' \<le> c \<and> c \<le> CHR ''f'') \<or> (CHR ''A'' \<le> c \<and> c \<le> CHR ''F'')) (drop 2 s)"

text \<open>\<open>String(v || "")\<close>.\<close>

definition orEmpty :: "json option \<Rightarrow> string" where
  "orEmpty v = (if falsy v then [] else toText (the v))"

text \<open>\<open>list.includes(v)\<close>: an array or an object that was just parsed is no element of any list.\<close>

definition hasValue :: "json list \<Rightarrow> json \<Rightarrow> bool" where
  "hasValue vs v \<longleftrightarrow> (case v of JArr _ \<Rightarrow> False | JObj _ \<Rightarrow> False | _ \<Rightarrow> v \<in> set vs)"

subsection \<open>Likes and comments\<close>

definition handleOf :: "string \<Rightarrow> string" where
  "handleOf key = ''user-'' @ take 6 key"

definition loadApp :: "string \<Rightarrow> account \<Rightarrow> thread" where
  "loadApp i st = (case st_apps st i of Some t \<Rightarrow> t | None \<Rightarrow> \<lparr>th_votes = [], th_comments = []\<rparr>)"

text \<open>One turn of an App's queue: the thread is loaded, changed and, unless the turn says not to, written.\<close>

definition withApp :: "string \<Rightarrow> (thread \<Rightarrow> 'a \<times> thread option) \<Rightarrow> account \<Rightarrow> 'a \<times> account" where
  "withApp i fn st = (case fn (loadApp i st) of
     (out, None) \<Rightarrow> (out, st)
   | (out, Some t) \<Rightarrow> (out, st\<lparr>st_apps := (st_apps st)(i \<mapsto> t)\<rparr>))"

definition likesOf :: "(string \<times> int) list \<Rightarrow> nat" where
  "likesOf vs = length (filter (\<lambda>e. 0 < snd e) vs)"

definition dislikesOf :: "(string \<times> int) list \<Rightarrow> nat" where
  "dislikesOf vs = length (filter (\<lambda>e. snd e < 0) vs)"

definition voteOf :: "(string \<times> int) list \<Rightarrow> string \<Rightarrow> int" where
  "voteOf vs me = (case map_of vs me of Some v \<Rightarrow> v | None \<Rightarrow> 0)"

definition vote :: "string \<Rightarrow> int \<Rightarrow> (string \<times> int) list \<Rightarrow> (string \<times> int) list" where
  "vote me v vs = (if v \<noteq> 0 then setProp vs me v else filter (\<lambda>e. fst e \<noteq> me) vs)"

definition natJson :: "nat \<Rightarrow> json" where "natJson n = JNum (int n)"

definition parentJson :: "string option \<Rightarrow> json" where
  "parentJson p = (case p of Some i \<Rightarrow> if i = [] then JNull else JStr i | None \<Rightarrow> JNull)"

definition present :: "comment \<Rightarrow> string option \<Rightarrow> (string \<times> json) list" where
  "present c me = [(''id'', JStr (cm_id c)), (''parent'', parentJson (cm_parent c)), (''handle'', JStr (cm_handle c)), (''text'', JStr (cm_text c)),
     (''at'', JStr (cm_at c)), (''likes'', natJson (likesOf (cm_votes c))),
     (''mine'', case me of None \<Rightarrow> JNull | Some k \<Rightarrow> JObj [(''react'', JNum (voteOf (cm_votes c) k)), (''own'', JBool (cm_author c = k))])]"

text \<open>Stable, the largest first; times are compared as the texts they are, all of one shape.\<close>

definition descending :: "('a \<Rightarrow> 'b::linorder) \<Rightarrow> 'a list \<Rightarrow> 'a list" where
  "descending g xs = rev (sort_key g (rev xs))"

definition threadJson :: "thread \<Rightarrow> string option \<Rightarrow> bool \<Rightarrow> json list" where
  "threadJson t me newest = (let top = filter (\<lambda>c. cm_parent c = None) (th_comments t); byNew = descending cm_at top;
       sorted' = (if newest then byNew else descending (\<lambda>c. likesOf (cm_votes c)) byNew)
     in map (\<lambda>c. JObj (present c me @ [(''replies'', JArr (map (\<lambda>r. JObj (present r me))
          (sort_key cm_at (filter (\<lambda>r. cm_parent r = Some (cm_id c)) (th_comments t)))))])) sorted')"

definition reaction :: "json option \<Rightarrow> int option" where
  "reaction v = (case v of Some (JNum n) \<Rightarrow> if n \<in> {1, -1, 0} then Some n else None | _ \<Rightarrow> None)"

text \<open>\<open>\\r\\n?\<close> becomes a line feed; three or more line feeds become two.\<close>

fun unixLines :: "string \<Rightarrow> string" where
  "unixLines (c # d # ds) = (if c = CHR 0x0D then CHR 0x0A # unixLines (if d = CHR 0x0A then ds else d # ds) else c # unixLines (d # ds))"
| "unixLines [c] = [if c = CHR 0x0D then CHR 0x0A else c]"
| "unixLines [] = []"

fun twoBreaks :: "nat \<Rightarrow> string \<Rightarrow> string" where
  "twoBreaks n [] = []"
| "twoBreaks n (c # cs) = (if c = CHR 0x0A then (if n < 2 then c # twoBreaks (Suc n) cs else twoBreaks n cs) else c # twoBreaks 0 cs)"

definition cleanText :: "json option \<Rightarrow> string" where
  "cleanText v = trim (twoBreaks 0 (unixLines (orEmpty v)))"

definition voteJson :: "(string \<times> int) list \<Rightarrow> int option \<Rightarrow> (string \<times> json) list" where
  "voteJson vs mine = [(''likes'', natJson (likesOf vs)), (''dislikes'', natJson (dislikesOf vs))]
     @ (case mine of None \<Rightarrow> [] | Some v \<Rightarrow> [(''mine'', JObj [(''react'', JNum v)])])"

definition postComment :: "string \<Rightarrow> moment \<Rightarrow> string \<Rightarrow> json option \<Rightarrow> thread \<Rightarrow> (string + json) \<times> thread option" where
  "postComment me m clean parent t = (if MAX_COMMENTS \<le> length (th_comments t) then (Inl ''this thread is full'', None)
     else let target = (if falsy parent then None else find (\<lambda>c. Some (JStr (cm_id c)) = parent) (th_comments t)) in
     if \<not> falsy parent \<and> target = None then (Inl ''that comment is gone'', None)
     else let c = \<lparr>cm_id = mo_uuid m, cm_parent = (case target of None \<Rightarrow> None | Some x \<Rightarrow> Some (case cm_parent x of Some p \<Rightarrow> p | None \<Rightarrow> cm_id x)),
            cm_author = me, cm_handle = handleOf me, cm_text = clean, cm_at = mo_iso m, cm_votes = []\<rparr>
       in (Inr (JObj (present c (Some me))), Some (t\<lparr>th_comments := th_comments t @ [c]\<rparr>)))"

text \<open>The first comment with this id, with a vote laid on it.\<close>

fun voteOn :: "string \<Rightarrow> string \<Rightarrow> int \<Rightarrow> comment list \<Rightarrow> comment list" where
  "voteOn cid me v [] = []"
| "voteOn cid me v (c # cs) = (if cm_id c = cid then c\<lparr>cm_votes := vote me v (cm_votes c)\<rparr> # cs else c # voteOn cid me v cs)"

definition reactComment :: "string \<Rightarrow> string \<Rightarrow> int \<Rightarrow> thread \<Rightarrow> json option \<times> thread option" where
  "reactComment me cid v t = (case find (\<lambda>c. cm_id c = cid) (th_comments t) of
     None \<Rightarrow> (None, None)
   | Some c \<Rightarrow> (Some (JObj (present (c\<lparr>cm_votes := vote me v (cm_votes c)\<rparr>) (Some me))), Some (t\<lparr>th_comments := voteOn cid me v (th_comments t)\<rparr>)))"

definition deleteComment :: "string \<Rightarrow> string \<Rightarrow> thread \<Rightarrow> nat \<times> thread option" where
  "deleteComment me cid t = (case find (\<lambda>c. cm_id c = cid) (th_comments t) of
     None \<Rightarrow> (404, None)
   | Some c \<Rightarrow> if cm_author c \<noteq> me then (403, None)
       else (200, Some (t\<lparr>th_comments := filter (\<lambda>x. cm_id x \<noteq> cid \<and> cm_parent x \<noteq> Some cid) (th_comments t)\<rparr>)))"

subsection \<open>The routes of the Apps\<close>

definition partAt :: "string list \<Rightarrow> nat \<Rightarrow> string" where
  "partAt ps n = (if n < length ps then ps ! n else [])"

definition isRead :: "req \<Rightarrow> bool" where
  "isRead q \<longleftrightarrow> q_verb q = ''GET'' \<or> q_verb q = ''HEAD''"

definition appSummary :: "string \<Rightarrow> thread \<Rightarrow> string option \<Rightarrow> json" where
  "appSummary i t me = JObj ((''id'', JStr i) # voteJson (th_votes t) None @ [(''comments'', natJson (length (th_comments t))),
     (''mine'', case me of None \<Rightarrow> JNull | Some k \<Rightarrow> JObj [(''react'', JNum (voteOf (th_votes t) k))])])"

definition appThread :: "string \<Rightarrow> thread \<Rightarrow> string option \<Rightarrow> bool \<Rightarrow> json" where
  "appThread i t me newest = JObj [(''id'', JStr i), (''count'', natJson (length (th_comments t))), (''sort'', JStr (if newest then ''new'' else ''top'')),
     (''comments'', JArr (threadJson t me newest))]"

definition bodyProp :: "string \<Rightarrow> req \<Rightarrow> json option result" where
  "bodyProp k q = andThen (bodyOf q) (propOf k)"

definition appReact :: "req \<Rightarrow> string \<Rightarrow> string \<Rightarrow> account \<Rightarrow> (res \<times> account) result" where
  "appReact q i me st = andThen (bodyProp ''value'' q) (\<lambda>v. case reaction v of
     None \<Rightarrow> Inr (accRefuse (q_verb q) 400 ''value is 1, -1 or 0'', st)
   | Some n \<Rightarrow> (let (out, st') = withApp i (\<lambda>t. let vs = vote me n (th_votes t) in (JObj (voteJson vs (Some n)), Some (t\<lparr>th_votes := vs\<rparr>))) st
       in Inr (accJson (q_verb q) 200 out, st')))"

definition appComment :: "req \<Rightarrow> moment \<Rightarrow> string \<Rightarrow> string \<Rightarrow> account \<Rightarrow> (res \<times> account) result" where
  "appComment q m i me st = andThen (bodyOf q) (\<lambda>b. if b = JNull then Inl TypeError
     else let clean = cleanText (getProp ''text'' b) in
       if clean = [] then Inr (accRefuse (q_verb q) 400 ''a comment needs some words'', st)
       else if MAX_COMMENT < length clean then Inr (accRefuse (q_verb q) 400 (''a comment is at most '' @ decimal MAX_COMMENT @ '' characters''), st)
       else (case withApp i (postComment me m clean (getProp ''parent'' b)) st of
           (Inl message, st') \<Rightarrow> Inr (accRefuse (q_verb q) 409 message, st')
         | (Inr out, st') \<Rightarrow> Inr (accJson (q_verb q) 201 out, st')))"

definition appVote :: "req \<Rightarrow> string \<Rightarrow> string \<Rightarrow> string \<Rightarrow> account \<Rightarrow> (res \<times> account) result" where
  "appVote q i cid me st = andThen (bodyProp ''value'' q) (\<lambda>v. case reaction v of
     None \<Rightarrow> Inr (accRefuse (q_verb q) 400 ''value is 1, -1 or 0'', st)
   | Some n \<Rightarrow> (case withApp i (reactComment me cid n) st of
         (Some out, st') \<Rightarrow> Inr (accJson (q_verb q) 200 out, st')
       | (None, st') \<Rightarrow> Inr (accRefuse (q_verb q) 404 ''that comment is gone'', st')))"

definition appDelete :: "req \<Rightarrow> string \<Rightarrow> string \<Rightarrow> string \<Rightarrow> account \<Rightarrow> res \<times> account" where
  "appDelete q i cid me st = (case withApp i (deleteComment me cid) st of
     (code, st') \<Rightarrow> (if code = 200 then accJson (q_verb q) 200 (JObj [(''deleted'', JStr cid)])
       else accRefuse (q_verb q) code (if code = 403 then ''only its author can delete a comment'' else ''that comment is gone''), st'))"

text \<open>The writes of a signed-in person, once the rate allows them.\<close>

definition appWrites :: "req \<Rightarrow> moment \<Rightarrow> string list \<Rightarrow> string \<Rightarrow> account \<Rightarrow> (res \<times> account) result" where
  "appWrites q m parts me st = (let i = partAt parts 0; section = partAt parts 1; cid = partAt parts 2; act = partAt parts 3 in
     if section = ''react'' \<and> cid = [] \<and> q_verb q = ''POST'' then appReact q i me st
     else if section = ''comments'' \<and> cid = [] \<and> q_verb q = ''POST'' then appComment q m i me st
     else if section = ''comments'' \<and> cid \<noteq> [] \<and> act = ''react'' \<and> q_verb q = ''POST'' then appVote q i cid me st
     else if section = ''comments'' \<and> cid \<noteq> [] \<and> act = [] \<and> q_verb q = ''DELETE'' then Inr (appDelete q i cid me st)
     else Inr (accRefuse (q_verb q) 404 ''no such apps route'', st))"

text \<open>\<open>Inl\<close> carries the state as it was when the error was thrown: the rate had counted the request.\<close>

definition apps :: "req \<Rightarrow> moment \<Rightarrow> string list \<Rightarrow> string option \<Rightarrow> account \<Rightarrow> (js_error \<times> account) + (res \<times> account)" where
  "apps q m parts who st = (let i = partAt parts 0; section = partAt parts 1; cid = partAt parts 2; me = map_option keyOf who in
     if \<not> isAppId i then Inr (accRefuse (q_verb q) 400 ''not an app id'', st)
     else if section = [] \<and> isRead q then Inr (accJson (q_verb q) 200 (appSummary i (loadApp i st) me), st)
     else if section = ''comments'' \<and> cid = [] \<and> isRead q
     then Inr (accJson (q_verb q) 200 (appThread i (loadApp i st) me (param q ''sort'' = Some ''new'')), st)
     else case me of
       None \<Rightarrow> Inr (accRefuse (q_verb q) 401 ''sign in to use this'', st)
     | Some k \<Rightarrow> (let (ok, st1) = withinRate (''w:'' @ k) 20 (mo_now m) st in
         if \<not> ok then Inr (accRefuse (q_verb q) 429 ''too many requests, slow down'', st1)
         else case appWrites q m parts k st1 of Inl e \<Rightarrow> Inl (e, st1) | Inr out \<Rightarrow> Inr out))"

subsection \<open>The account routes\<close>

definition strs :: "json list \<Rightarrow> json" where "strs vs = JArr vs"

definition meJson :: "string \<Rightarrow> user \<Rightarrow> json" where
  "meJson did u = JObj [(''did'', JStr did), (''created'', JStr (us_created u)), (''wallet'', case us_wallet u of None \<Rightarrow> JNull | Some w \<Rightarrow> JStr w),
     (''saved'', strs (us_saved u)), (''requests'', natJson (length (us_requests u)))]"

definition patchMe :: "req \<Rightarrow> user \<Rightarrow> account \<Rightarrow> (res \<times> account) result" where
  "patchMe q u st = andThen (bodyProp ''wallet'' q) (\<lambda>w.
     if w \<noteq> Some JNull \<and> \<not> isAddress (orEmpty w) then Inr (accRefuse (q_verb q) 400 ''not an address'', st)
     else (let u' = u\<lparr>us_wallet := (if w = Some JNull then None else Some (orEmpty w))\<rparr> in
       Inr (accJson (q_verb q) 200 (JObj [(''wallet'', case us_wallet u' of None \<Rightarrow> JNull | Some x \<Rightarrow> JStr x)]), save u' st)))"

definition postSaved :: "req \<Rightarrow> user \<Rightarrow> account \<Rightarrow> (res \<times> account) result" where
  "postSaved q u st = andThen (bodyProp ''model'' q) (\<lambda>v.
     if \<not> isModelName (orEmpty v) then Inr (accRefuse (q_verb q) 400 ''not a model id'', st)
     else if MAX_SAVED \<le> length (us_saved u) then Inr (accRefuse (q_verb q) 409 ''saved list is full'', st)
     else (let u' = (if hasValue (us_saved u) (the v) then u else u\<lparr>us_saved := the v # us_saved u\<rparr>) in
       Inr (accJson (q_verb q) 200 (JObj [(''saved'', strs (us_saved u'))]), save u' st)))"

definition deleteSaved :: "req \<Rightarrow> string \<Rightarrow> user \<Rightarrow> account \<Rightarrow> (res \<times> account) result" where
  "deleteSaved q name u st = (case decodeURIComponent name of
     None \<Rightarrow> Inl (Error ''URI malformed'')
   | Some i \<Rightarrow> (let u' = u\<lparr>us_saved := filter (\<lambda>x. x \<noteq> JStr i) (us_saved u)\<rparr> in
       Inr (accJson (q_verb q) 200 (JObj [(''saved'', strs (us_saved u'))]), save u' st)))"

definition postRequest :: "req \<Rightarrow> moment \<Rightarrow> string \<Rightarrow> user \<Rightarrow> account \<Rightarrow> (res \<times> account) result" where
  "postRequest q m did u st = andThen (bodyProp ''model'' q) (\<lambda>v.
     if \<not> isModelName (orEmpty v) then Inr (accRefuse (q_verb q) 400 ''not a model id'', st)
     else if MAX_REQUESTS \<le> length (us_requests u) then Inr (accRefuse (q_verb q) 409 ''you have asked for enough for now'', st)
     else Inr (accJson (q_verb q) 200 (JObj [(''requested'', the v)]),
       if hasValue (us_requests u) (the v) then st
       else (let st' = save (u\<lparr>us_requests := the v # us_requests u\<rparr>) st in st'\<lparr>st_requested := st_requested st' @ [(mo_iso m, keyOf did, the v)]\<rparr>)))"

definition publisherRequest :: "req \<Rightarrow> moment \<Rightarrow> string \<Rightarrow> account \<Rightarrow> (res \<times> account) result" where
  "publisherRequest q m did st = andThen (bodyProp ''note'' q) (\<lambda>v.
     Inr (accJson (q_verb q) 202 (JObj [(''recorded'', JBool True), (''issued'', JBool False)]),
       st\<lparr>st_publisher := st_publisher st @ [(mo_iso m, keyOf did, take 500 (orEmpty v))]\<rparr>))"

text \<open>The routes, over the record as it was loaded: other requests may have been served since.\<close>

definition accountRoute :: "req \<Rightarrow> moment \<Rightarrow> string \<Rightarrow> string \<Rightarrow> user \<Rightarrow> account \<Rightarrow> (res \<times> account) result" where
  "accountRoute q m path did u st = (
     if path = ''/me'' \<and> isRead q then Inr (accJson (q_verb q) 200 (meJson did u), st)
     else if path = ''/me'' \<and> q_verb q = ''PATCH'' then patchMe q u st
     else if path = ''/saved'' \<and> q_verb q = ''POST'' then postSaved q u st
     else if startsWith path ''/saved/'' \<and> q_verb q = ''DELETE'' then deleteSaved q (drop 7 path) u st
     else if path = ''/request'' \<and> q_verb q = ''POST'' then postRequest q m did u st
     else if path = ''/publisher-request'' \<and> q_verb q = ''POST'' then publisherRequest q m did st
     else Inr (accRefuse (q_verb q) 404 ''no such account route'', st))"

subsection \<open>The handler\<close>

text \<open>What is answered to an error inside the \<open>try\<close>; an error outside it is an unhandled rejection.\<close>

datatype served = Served res | Rejected js_error

definition caught :: "req \<Rightarrow> js_error \<Rightarrow> res" where
  "caught q e = (if e = SyntaxError \<or> e = tooLarge then accRefuse (q_verb q) 400 ''bad request body'' else accRefuse (q_verb q) 500 ''something went wrong'')"

definition bearer :: "req \<Rightarrow> string" where
  "bearer q = (case headerOf q ''authorization'' of Some a \<Rightarrow> if startsWith a ''Bearer '' then trim (drop 7 a) else [] | None \<Rightarrow> [])"

definition accPath :: "string \<Rightarrow> string" where
  "accPath p = (let r = (if startsWith p ''/api/account'' then drop 12 p else p) in if r = [] then ''/'' else r)"

definition clientOf :: "req \<Rightarrow> moment \<Rightarrow> string" where
  "clientOf q m = (let first = trim (hd (splitAt (CHR '','') (case headerOf q ''x-forwarded-for'' of Some x \<Rightarrow> x | None \<Rightarrow> []))) in
     if first \<noteq> [] then first else if mo_peer m \<noteq> [] then mo_peer m else ''?'')"

fun decodeAll :: "string list \<Rightarrow> string list option" where
  "decodeAll [] = Some []"
| "decodeAll (p # ps) = (case (decodeURIComponent p, decodeAll ps) of (Some x, Some xs) \<Rightarrow> Some (x # xs) | _ \<Rightarrow> None)"

definition appsRequest :: "config \<Rightarrow> req \<Rightarrow> moment \<Rightarrow> string \<Rightarrow> account \<Rightarrow> served \<times> account" where
  "appsRequest cf q m path st = (let token = bearer q;
       who = (case ac_key cf of None \<Rightarrow> Inr None
         | Some good \<Rightarrow> if token = [] \<or> ac_app cf = [] then Inr None else map_sum id Some (verifyAccessToken (ac_app cf) good (mo_now m) token)) in
     case who of Inl e \<Rightarrow> (Rejected e, st)
     | Inr w \<Rightarrow> (let did = (case w of Some (Signed d _ _) \<Rightarrow> Some d | _ \<Rightarrow> None) in
         if token \<noteq> [] \<and> did = None \<and> \<not> isRead q then (Served (accRefuse (q_verb q) 401 ''sign in to use this''), st)
         else (let (ok, st1) = withinRate (''ip:'' @ clientOf q m) 240 (mo_now m) st in
           if \<not> ok then (Served (accRefuse (q_verb q) 429 ''too many requests, slow down''), st1)
           else (case decodeAll (splitAt (CHR ''/'') (drop 6 path)) of
               None \<Rightarrow> (Served (caught q (Error ''URI malformed'')), st1)
             | Some parts \<Rightarrow> (case apps q m parts did st1 of
                 Inl (e, st2) \<Rightarrow> (Served (caught q e), st2)
               | Inr (r, st2) \<Rightarrow> (Served r, st2))))))"

definition configured :: "config \<Rightarrow> bool" where
  "configured cf \<longleftrightarrow> ac_key cf \<noteq> None \<and> ac_app cf \<noteq> []"

text \<open>
  A signed-in request up to the moment its record is loaded: \<open>Inl\<close> when it is over before that. Then
  the rest of it, on the state of the time.
\<close>

definition admit :: "config \<Rightarrow> req \<Rightarrow> moment \<Rightarrow> account \<Rightarrow> (served + string) \<times> account" where
  "admit cf q m st = (case ac_key cf of
     None \<Rightarrow> (Inl (Served (accRefuse (q_verb q) 503 ''sign-in is not configured on this hub'')), st)
   | Some good \<Rightarrow> if ac_app cf = [] then (Inl (Served (accRefuse (q_verb q) 503 ''sign-in is not configured on this hub'')), st)
     else (case verifyAccessToken (ac_app cf) good (mo_now m) (bearer q) of
         Inl e \<Rightarrow> (Inl (Rejected e), st)
       | Inr (Refused why) \<Rightarrow> (Inl (Served (accRefuse (q_verb q) 401 ''sign in to use this'')), st)
       | Inr (Signed did sid expires) \<Rightarrow> (let (ok, st1) = withinRate (keyOf did) 60 (mo_now m) st in
           if ok then (Inr did, st1) else (Inl (Served (accRefuse (q_verb q) 429 ''too many requests, slow down'')), st1))))"

definition complete :: "req \<Rightarrow> moment \<Rightarrow> string \<Rightarrow> string \<Rightarrow> user \<Rightarrow> account \<Rightarrow> served \<times> account" where
  "complete q m path did u st = (case accountRoute q m path did u st of Inl e \<Rightarrow> (Served (caught q e), st) | Inr (r, st') \<Rightarrow> (Served r, st'))"

definition serveAccount :: "config \<Rightarrow> req \<Rightarrow> moment \<Rightarrow> account \<Rightarrow> served \<times> account" where
  "serveAccount cf q m st = (let path = accPath (q_path q) in
     if path = ''/health'' then (Served (accJson (q_verb q) 200 (JObj [(''ok'', JBool True), (''configured'', JBool (configured cf))])), st)
     else if startsWith path ''/apps/'' then appsRequest cf q m path st
     else (case admit cf q m st of
         (Inl s, st1) \<Rightarrow> (s, st1)
       | (Inr did, st1) \<Rightarrow> complete q m path did (load did m st1) st1))"

subsection \<open>The verification key\<close>

text \<open>\<open>/-----(BEGIN|END) [A-Z ]+-----/g\<close> and \<open>/\\s+/g\<close>, taken out.\<close>

definition armourAt :: "string \<Rightarrow> nat" where
  "armourAt s = (let k = (if startsWith s ''-----BEGIN '' then 11 else if startsWith s ''-----END '' then 9 else 0);
       name = takeWhile (\<lambda>c. c = CHR '' '' \<or> (CHR ''A'' \<le> c \<and> c \<le> CHR ''Z'')) (drop k s)
     in if k = 0 \<or> name = [] \<or> \<not> startsWith (drop (k + length name) s) ''-----'' then 0 else k + length name + 5)"

function stripArmour :: "string \<Rightarrow> string" where
  "stripArmour [] = []"
| "stripArmour (c # cs) = (if armourAt (c # cs) = 0 then c # stripArmour cs else stripArmour (drop (armourAt (c # cs)) (c # cs)))"
  by pat_completeness auto
termination
  by (relation "measure length") auto

fun plainEscapes :: "string \<Rightarrow> string" where
  "plainEscapes (a # b # cs) = (if a = CHR 0x5C \<and> b = CHR ''n'' then CHR 0x0A # plainEscapes cs else a # plainEscapes (b # cs))"
| "plainEscapes cs = cs"

definition PEM_WIDTH :: nat where "PEM_WIDTH = 64"

definition armoured :: "string \<Rightarrow> string" where
  "armoured body = ''-----BEGIN PUBLIC KEY-----'' @ [CHR 0x0A] @ join [CHR 0x0A] (chunks PEM_WIDTH body) @ [CHR 0x0A] @ ''-----END PUBLIC KEY-----'' @ [CHR 0x0A]"

text \<open>The text that is handed to \<open>createPublicKey\<close>; \<open>None\<close> when there is none.\<close>

definition pemOf :: "string \<Rightarrow> string option" where
  "pemOf text = (let pem = trim (filter (\<lambda>c. c \<noteq> CHR 0x0D) (plainEscapes text)); body = filter (\<lambda>c. \<not> isTrimmed c) (stripArmour pem) in
     if pem = [] then None else Some (if body = [] then pem else armoured body))"

text \<open>What \<open>createPublicKey\<close> makes of a text: the type of the key, its curve, and the check of a signature.\<close>

record publicKey =
  pk_type :: string
  pk_curve :: "string option"
  pk_check :: "bytes \<Rightarrow> bytes \<Rightarrow> bool"

definition publicKeyFromEnv :: "(string \<Rightarrow> publicKey option) \<Rightarrow> string option option \<Rightarrow> string \<Rightarrow> (bytes \<Rightarrow> bytes \<Rightarrow> bool) option" where
  "publicKeyFromEnv create file' inline = (case (case file' of None \<Rightarrow> Some inline | Some t \<Rightarrow> t) of
     None \<Rightarrow> None
   | Some text \<Rightarrow> (case pemOf text of None \<Rightarrow> None
     | Some pem \<Rightarrow> (case create pem of None \<Rightarrow> None
       | Some k \<Rightarrow> if pk_type k \<noteq> ''ec'' then None
           else if pk_curve k \<noteq> None \<and> pk_curve k \<noteq> Some [] \<and> pk_curve k \<noteq> Some ''prime256v1'' then None else Some (pk_check k))))"

subsection \<open>Votes refine a function of persons\<close>

text \<open>
  What a thread promises of its votes: a person has at most one, a new one replaces it, zero withdraws
  it, and the counts are those of the persons.
\<close>

definition votesOk :: "(string \<times> int) list \<Rightarrow> bool" where
  "votesOk vs \<longleftrightarrow> distinct (map fst vs) \<and> (\<forall>(k, v) \<in> set vs. v = 1 \<or> v = - 1)"

definition personsOf :: "(string \<Rightarrow> int) \<Rightarrow> int \<Rightarrow> nat" where
  "personsOf f v = card {k. f k = v}"

lemma voteOf_vote: "distinct (map fst vs) \<Longrightarrow> voteOf (vote me v vs) = (voteOf vs)(me := v)"
proof -
  have "map_of (filter (\<lambda>e. fst e \<noteq> me) vs) = (map_of vs)(me := None)"
    by (induction vs) (auto simp: fun_eq_iff)
  then show ?thesis by (auto simp: vote_def voteOf_def map_of_setProp fun_eq_iff)
qed

lemma votesOk_vote:
  assumes "votesOk vs" and "v \<in> {1, -1, 0}"
  shows "votesOk (vote me v vs)"
proof (cases "v = 0")
  case True
  then show ?thesis using assms(1) by (auto simp: votesOk_def vote_def distinct_map_filter)
next
  case False
  have d: "distinct (map fst (setProp vs me v))" using assms(1) by (simp add: votesOk_def distinct_setProp)
  have "w = 1 \<or> w = - 1" if "(k, w) \<in> set (setProp vs me v)" for k w
  proof -
    have "map_of (setProp vs me v) k = Some w" using d that by simp
    then have "w = v \<or> map_of vs k = Some w" by (auto simp: map_of_setProp split: if_splits)
    then show ?thesis using assms False by (auto simp: votesOk_def dest!: map_of_SomeD)
  qed
  then show ?thesis using d False by (auto simp: votesOk_def vote_def)
qed

lemma counts_persons:
  assumes "votesOk vs"
  shows "likesOf vs = personsOf (voteOf vs) 1 \<and> dislikesOf vs = personsOf (voteOf vs) (- 1)"
proof -
  have d: "distinct (map fst vs)" and v: "\<And>k w. (k, w) \<in> set vs \<Longrightarrow> w = 1 \<or> w = - 1" using assms by (auto simp: votesOk_def)
  have count: "length (filter (\<lambda>e. snd e = x) vs) = card {k. voteOf vs k = x}" if "x \<noteq> 0" for x
  proof -
    have "{k. voteOf vs k = x} = fst ` set (filter (\<lambda>e. snd e = x) vs)"
    proof (rule set_eqI)
      fix k
      have "map_of vs k = Some x \<longleftrightarrow> (k, x) \<in> set vs" using d by simp
      moreover have "voteOf vs k = x \<longleftrightarrow> map_of vs k = Some x" using that by (simp add: voteOf_def split: option.splits)
      ultimately have "voteOf vs k = x \<longleftrightarrow> (k, x) \<in> set vs" by simp
      then show "k \<in> {k. voteOf vs k = x} \<longleftrightarrow> k \<in> fst ` set (filter (\<lambda>e. snd e = x) vs)" by (force simp: image_iff)
    qed
    moreover have "distinct (map fst (filter (\<lambda>e. snd e = x) vs))" using d by (rule distinct_map_filter)
    ultimately show ?thesis by (metis distinct_card length_map set_map)
  qed
  have "filter (\<lambda>e. 0 < snd e) vs = filter (\<lambda>e. snd e = 1) vs" by (rule filter_cong [OF refl]) (use v in force)
  moreover have "filter (\<lambda>e. snd e < 0) vs = filter (\<lambda>e. snd e = - 1) vs" by (rule filter_cong [OF refl]) (use v in force)
  ultimately show ?thesis using count [of 1] count [of "- 1"] by (simp add: likesOf_def dislikesOf_def personsOf_def)
qed

subsection \<open>What a token must say\<close>

definition tokenSays :: "config \<Rightarrow> req \<Rightarrow> moment \<Rightarrow> string \<Rightarrow> bool" where
  "tokenSays cf q m did \<longleftrightarrow> (\<exists>good h p s claims e. ac_key cf = Some good \<and> splitAt (CHR ''.'') (bearer q) = [h, p, s]
     \<and> length (b64text s) = 64 \<and> good (utf8 (h @ ''.'' @ p)) (b64text s) \<and> parse (decodeText (b64text p)) = Some claims
     \<and> getProp ''iss'' claims = Some (JStr ''privy.io'') \<and> ac_app cf \<noteq> [] \<and> getProp ''aud'' claims = Some (JStr (ac_app cf))
     \<and> getProp ''exp'' claims = Some (JNum e) \<and> mo_now m \<le> (e + SKEW) * 1000 \<and> getProp ''sub'' claims = Some (JStr did))"

lemma checkClaims_says:
  "checkClaims app now claims = Inr (Signed did sid e) \<Longrightarrow>
    getProp ''iss'' claims = Some (JStr ''privy.io'') \<and> app \<noteq> [] \<and> getProp ''aud'' claims = Some (JStr app)
    \<and> getProp ''exp'' claims = Some (JNum e) \<and> now \<le> (e + SKEW) * 1000 \<and> getProp ''sub'' claims = Some (JStr did)"
  unfolding checkClaims_def by (simp split: if_splits option.splits json.splits)

lemma verify_says:
  assumes "verifyAccessToken (ac_app cf) good (mo_now m) (bearer q) = Inr (Signed did sid e)" and "ac_key cf = Some good"
  shows "tokenSays cf q m did"
proof -
  obtain h p s where t: "splitAt (CHR ''.'') (bearer q) = [h, p, s]"
    using assms(1) by (auto simp: verifyAccessToken_def split: list.splits)
  obtain header claims where j: "parse (decodeText (b64text h)) = Some header" "parse (decodeText (b64text p)) = Some claims"
    using assms(1) by (auto simp: verifyAccessToken_def t split: option.splits)
  have "length (b64text s) = 64 \<and> good (utf8 (h @ ''.'' @ p)) (b64text s) \<and> checkClaims (ac_app cf) (mo_now m) claims = Inr (Signed did sid e)"
    using assms(1) by (simp add: verifyAccessToken_def t j andThen_Inr_iff split: if_splits)
  then show ?thesis using t j(2) assms(2) checkClaims_says unfolding tokenSays_def by blast
qed

subsection \<open>The service over time\<close>

text \<open>Every user under their own key, lists and threads within their bounds, votes in order.\<close>

definition userOk :: "user \<Rightarrow> bool" where
  "userOk u \<longleftrightarrow> length (us_saved u) \<le> MAX_SAVED \<and> length (us_requests u) \<le> MAX_REQUESTS"

definition commentOk :: "comment \<Rightarrow> bool" where
  "commentOk c \<longleftrightarrow> cm_text c \<noteq> [] \<and> length (cm_text c) \<le> MAX_COMMENT \<and> votesOk (cm_votes c)"

definition threadOk :: "thread \<Rightarrow> bool" where
  "threadOk t \<longleftrightarrow> votesOk (th_votes t) \<and> length (th_comments t) \<le> MAX_COMMENTS \<and> (\<forall>c \<in> set (th_comments t). commentOk c)"

definition accountOk :: "account \<Rightarrow> bool" where
  "accountOk st \<longleftrightarrow> (\<forall>k u. st_users st k = Some u \<longrightarrow> keyOf (us_did u) = k \<and> userOk u) \<and> (\<forall>i t. st_apps st i = Some t \<longrightarrow> threadOk t)"

text \<open>What one step may do: nothing that is kept, or something that is the person's own to do.\<close>

definition sameKept :: "account \<Rightarrow> account \<Rightarrow> bool" where
  "sameKept a b \<longleftrightarrow> st_users a = st_users b \<and> st_apps a = st_apps b \<and> st_requested a = st_requested b \<and> st_publisher a = st_publisher b"

definition goneFrom :: "thread \<Rightarrow> thread \<Rightarrow> comment \<Rightarrow> bool" where
  "goneFrom t t' c \<longleftrightarrow> c \<in> set (th_comments t) \<and> (\<forall>x \<in> set (th_comments t'). cm_id x \<noteq> cm_id c)"

definition ownChange :: "string \<Rightarrow> account \<Rightarrow> account \<Rightarrow> bool" where
  "ownChange key a b \<longleftrightarrow> (\<forall>k. k \<noteq> key \<longrightarrow> st_users b k = st_users a k)
     \<and> (\<forall>i c. goneFrom (loadApp i a) (loadApp i b) c \<longrightarrow>
         (\<exists>x \<in> set (th_comments (loadApp i a)). cm_author x = key \<and> (cm_id c = cm_id x \<or> cm_parent c = Some (cm_id x))))"

lemma rate_kept: "withinRate k n now st = (ok, st') \<Longrightarrow> sameKept st st'"
  by (auto simp: withinRate_def sameKept_def Let_def)

lemma sameKept_refl [simp]: "sameKept a a"
  by (simp add: sameKept_def)

lemma sameKept_trans: "sameKept a b \<Longrightarrow> sameKept b c \<Longrightarrow> sameKept a c"
  by (simp add: sameKept_def)

lemma accountOk_same: "sameKept a b \<Longrightarrow> accountOk b = accountOk a"
  by (simp add: accountOk_def sameKept_def)

lemma ownChange_same: "sameKept a b \<Longrightarrow> ownChange key b c = ownChange key a c"
  by (simp add: ownChange_def sameKept_def loadApp_def)

lemma not_gone [simp]: "\<not> goneFrom t t c"
  by (auto simp: goneFrom_def)

lemma ownChange_refl [simp]: "ownChange key a a"
  by (simp add: ownChange_def)

lemma load_ok:
  assumes "accountOk st"
  shows "keyOf (us_did (load did m st)) = keyOf did \<and> userOk (load did m st)"
proof (cases "st_users st (keyOf did)")
  case None
  then show ?thesis by (simp add: load_def blank_def userOk_def)
next
  case (Some u)
  then show ?thesis using assms unfolding accountOk_def load_def by simp
qed

lemma save_own: "keyOf (us_did u) = key \<Longrightarrow> ownChange key a (save u a)"
  by (simp add: ownChange_def save_def loadApp_def)

lemma save_ok: "accountOk st \<Longrightarrow> userOk u \<Longrightarrow> accountOk (save u st)"
  by (simp add: accountOk_def save_def)

lemma logs_kept [simp]:
  "accountOk (st\<lparr>st_requested := l\<rparr>) = accountOk st" "accountOk (st\<lparr>st_publisher := n\<rparr>) = accountOk st"
  "ownChange key a (st\<lparr>st_requested := l\<rparr>) = ownChange key a st" "ownChange key a (st\<lparr>st_publisher := n\<rparr>) = ownChange key a st"
  by (simp_all add: accountOk_def ownChange_def loadApp_def)

lemma accountRoute_ok:
  assumes "accountOk st" and "keyOf (us_did u) = keyOf did" and "userOk u" and "accountRoute q m path did u st = Inr (r, st')"
  shows "accountOk st' \<and> ownChange (keyOf did) st st'"
proof -
  have keep: "accountOk (save u' st) \<and> ownChange (keyOf did) st (save u' st)" if "us_did u' = us_did u" "userOk u'" for u'
    using that save_ok [OF assms(1)] save_own [of u' "keyOf did" st] assms(2) by simp
  have "length (filter P (us_saved u)) \<le> MAX_SAVED" for P
    using assms(3) order_trans [OF length_filter_le] by (auto simp: userOk_def)
  then have kept: "accountOk (save (u\<lparr>us_saved := filter P (us_saved u)\<rparr>) st) \<and> ownChange (keyOf did) st (save (u\<lparr>us_saved := filter P (us_saved u)\<rparr>) st)" for P
    using assms(3) by (intro keep) (simp_all add: userOk_def)
  from assms(4) show ?thesis
    unfolding accountRoute_def patchMe_def postSaved_def deleteSaved_def postRequest_def publisherRequest_def
    using assms(1,3) keep kept
    by (auto simp: andThen_Inr_iff Let_def userOk_def split: if_splits option.splits)
qed

lemma threadOk_load: "accountOk st \<Longrightarrow> threadOk (loadApp i st)"
  by (cases "st_apps st i") (auto simp: accountOk_def loadApp_def threadOk_def votesOk_def)

lemma app_ok: "accountOk st \<Longrightarrow> threadOk t \<Longrightarrow> accountOk (st\<lparr>st_apps := (st_apps st)(i \<mapsto> t)\<rparr>)"
  by (simp add: accountOk_def)

lemma app_own:
  assumes "\<And>c. goneFrom (loadApp i st) t c \<Longrightarrow> \<exists>x \<in> set (th_comments (loadApp i st)). cm_author x = key \<and> (cm_id c = cm_id x \<or> cm_parent c = Some (cm_id x))"
  shows "ownChange key st (st\<lparr>st_apps := (st_apps st)(i \<mapsto> t)\<rparr>)"
proof -
  have "loadApp j (st\<lparr>st_apps := (st_apps st)(i \<mapsto> t)\<rparr>) = (if j = i then t else loadApp j st)" for j
    by (simp add: loadApp_def)
  then show ?thesis using assms by (simp add: ownChange_def)
qed

lemma voteOn_ids: "map cm_id (voteOn cid me v cs) = map cm_id cs"
  by (induction cid me v cs rule: voteOn.induct) auto

lemma goneFrom_ids: "map cm_id (th_comments t') = map cm_id (th_comments t) \<Longrightarrow> \<not> goneFrom t t' c"
  by (auto simp: goneFrom_def) (metis image_eqI image_set list.set_map imageE)

lemma voteOn_ok:
  "\<forall>c \<in> set cs. commentOk c \<Longrightarrow> v \<in> {1, -1, 0} \<Longrightarrow> \<forall>c \<in> set (voteOn cid me v cs). commentOk c"
  by (induction cid me v cs rule: voteOn.induct) (auto simp: commentOk_def votesOk_vote)

lemma reaction_range: "reaction j = Some v \<Longrightarrow> v \<in> {1, -1, 0}"
  by (auto simp: reaction_def split: option.splits json.splits if_splits)

lemma postComment_ok:
  assumes "threadOk t" and "postComment me m clean parent t = (out, Some t')" and "clean \<noteq> []" and "length clean \<le> MAX_COMMENT"
  shows "threadOk t' \<and> \<not> goneFrom t t' c"
proof -
  obtain x where x: "t' = t\<lparr>th_comments := th_comments t @ [x]\<rparr>" "cm_text x = clean" "cm_votes x = []" "length (th_comments t) < MAX_COMMENTS"
    using assms(2) by (auto simp: postComment_def Let_def split: if_splits)
  then show ?thesis using assms(1,3,4) by (auto simp: threadOk_def commentOk_def votesOk_def goneFrom_def)
qed

lemma reactComment_ok:
  assumes "threadOk t" and "reactComment me cid v t = (out, Some t')" and "v \<in> {1, -1, 0}"
  shows "threadOk t' \<and> \<not> goneFrom t t' c"
proof -
  have t': "t' = t\<lparr>th_comments := voteOn cid me v (th_comments t)\<rparr>" using assms(2) by (simp add: reactComment_def split: option.splits)
  have "length (voteOn cid me v (th_comments t)) = length (th_comments t)" using arg_cong [OF voteOn_ids, of length] by simp
  then show ?thesis
    using assms(1,3) voteOn_ok [of "th_comments t" v cid me] goneFrom_ids [of t' t] voteOn_ids by (auto simp: t' threadOk_def)
qed

lemma found_mem: "find P xs = Some x \<Longrightarrow> x \<in> set xs \<and> P x"
  by (auto simp: find_Some_iff)

lemma deleteComment_cases:
  assumes "deleteComment me cid t = (out, Some t')"
  obtains x where "x \<in> set (th_comments t)" "cm_id x = cid" "cm_author x = me"
    "t' = t\<lparr>th_comments := filter (\<lambda>y. cm_id y \<noteq> cid \<and> cm_parent y \<noteq> Some cid) (th_comments t)\<rparr>"
proof -
  obtain x where f: "find (\<lambda>c. cm_id c = cid) (th_comments t) = Some x"
    using assms by (cases "find (\<lambda>c. cm_id c = cid) (th_comments t)") (simp_all add: deleteComment_def)
  show ?thesis by (rule that [of x]) (use assms f found_mem [OF f] in \<open>simp_all add: deleteComment_def split: if_splits\<close>)
qed

lemma threadOk_sub:
  assumes "threadOk t"
  shows "threadOk (t\<lparr>th_comments := filter P (th_comments t)\<rparr>)"
proof -
  have "length (filter P (th_comments t)) \<le> MAX_COMMENTS"
    by (rule order_trans [OF length_filter_le]) (use assms in \<open>simp add: threadOk_def\<close>)
  then show ?thesis using assms by (simp add: threadOk_def)
qed

lemma gone_filter: "goneFrom t (t\<lparr>th_comments := filter P (th_comments t)\<rparr>) c \<Longrightarrow> \<not> P c"
  unfolding goneFrom_def by auto

lemma deleteComment_ok:
  assumes "threadOk t" and d: "deleteComment me cid t = (out, Some t')"
  shows "threadOk t' \<and> (goneFrom t t' c \<longrightarrow> (\<exists>x \<in> set (th_comments t). cm_author x = me \<and> (cm_id c = cm_id x \<or> cm_parent c = Some (cm_id x))))"
proof (rule deleteComment_cases [OF d])
  fix x
  assume x: "x \<in> set (th_comments t)" "cm_id x = cid" "cm_author x = me"
    and t': "t' = t\<lparr>th_comments := filter (\<lambda>y. cm_id y \<noteq> cid \<and> cm_parent y \<noteq> Some cid) (th_comments t)\<rparr>"
  have "threadOk t'" unfolding t' by (rule threadOk_sub [OF assms(1)])
  moreover have "goneFrom t t' c \<Longrightarrow> cm_id c = cid \<or> cm_parent c = Some cid"
    unfolding t' by (drule gone_filter) simp
  ultimately show ?thesis using x(2,3) by (intro conjI impI bexI [OF _ x(1)]) auto
qed

definition mayGo :: "string \<Rightarrow> thread \<Rightarrow> thread \<Rightarrow> bool" where
  "mayGo key t t' \<longleftrightarrow> (\<forall>c. goneFrom t t' c \<longrightarrow> (\<exists>x \<in> set (th_comments t). cm_author x = key \<and> (cm_id c = cm_id x \<or> cm_parent c = Some (cm_id x))))"

definition appStep :: "string \<Rightarrow> string \<Rightarrow> account \<Rightarrow> account \<Rightarrow> bool" where
  "appStep key i st st' \<longleftrightarrow> st' = st \<or> (\<exists>t. st' = st\<lparr>st_apps := (st_apps st)(i \<mapsto> t)\<rparr> \<and> threadOk t \<and> mayGo key (loadApp i st) t)"

lemma appStep_ok: "accountOk st \<Longrightarrow> appStep key i st st' \<Longrightarrow> accountOk st' \<and> ownChange key st st'"
  using app_ok app_own by (fastforce simp: appStep_def mayGo_def)

lemma withApp_step:
  assumes "st' = snd (withApp i fn st)" and "\<And>o' t. fn (loadApp i st) = (o', Some t) \<Longrightarrow> threadOk t \<and> mayGo key (loadApp i st) t"
  shows "appStep key i st st'"
  using assms by (cases "fn (loadApp i st)") (auto simp: withApp_def appStep_def split: option.splits)

lemma mayGo_none: "(\<And>c. \<not> goneFrom t t' c) \<Longrightarrow> mayGo key t t'"
  by (simp add: mayGo_def)

lemma appReact_step:
  assumes "threadOk (loadApp i st)" and "appReact q i me st = Inr (r, st')"
  shows "appStep me i st st'"
proof -
  obtain v where v: "bodyProp ''value'' q = Inr v" using assms(2) by (auto simp: appReact_def andThen_Inr_iff)
  show ?thesis
  proof (cases "reaction v")
    case None
    then show ?thesis using assms(2) v by (simp add: appReact_def appStep_def)
  next
    case (Some n)
    let ?fn = "\<lambda>t. let vs = vote me n (th_votes t) in (JObj (voteJson vs (Some n)), Some (t\<lparr>th_votes := vs\<rparr>))"
    have "st' = snd (withApp i ?fn st)"
      using assms(2) v Some by (auto simp: appReact_def case_prod_beta)
    then show ?thesis
      by (rule withApp_step)
        (use assms(1) reaction_range [OF Some] in \<open>auto simp: threadOk_def votesOk_vote Let_def mayGo_def goneFrom_def\<close>)
  qed
qed

lemma appComment_step:
  assumes "threadOk (loadApp i st)" and "appComment q m i me st = Inr (r, st')"
  shows "appStep me i st st'"
proof -
  obtain b where b: "bodyOf q = Inr b" "b \<noteq> JNull" using assms(2) by (auto simp: appComment_def andThen_Inr_iff split: if_splits)
  define clean where "clean = cleanText (getProp ''text'' b)"
  show ?thesis
  proof (cases "clean = [] \<or> MAX_COMMENT < length clean")
    case True
    then have "st' = st" using assms(2) b by (auto simp: appComment_def clean_def Let_def split: if_splits)
    then show ?thesis by (simp add: appStep_def)
  next
    case False
    let ?fn = "postComment me m clean (getProp ''parent'' b)"
    have "st' = snd (withApp i ?fn st)"
      using assms(2) b False by (auto simp: appComment_def clean_def Let_def split: prod.splits sum.splits)
    then show ?thesis
      by (rule withApp_step) (use assms(1) False postComment_ok [where t = "loadApp i st"] in \<open>auto intro: mayGo_none\<close>)
  qed
qed

lemma appVote_step:
  assumes "threadOk (loadApp i st)" and "appVote q i cid me st = Inr (r, st')"
  shows "appStep me i st st'"
proof -
  obtain v where v: "bodyProp ''value'' q = Inr v" using assms(2) by (auto simp: appVote_def andThen_Inr_iff)
  show ?thesis
  proof (cases "reaction v")
    case None
    then show ?thesis using assms(2) v by (simp add: appVote_def appStep_def)
  next
    case (Some n)
    let ?fn = "reactComment me cid n"
    have "st' = snd (withApp i ?fn st)"
      using assms(2) v Some by (auto simp: appVote_def split: prod.splits option.splits)
    then show ?thesis
      by (rule withApp_step) (use assms(1) reaction_range [OF Some] reactComment_ok [where t = "loadApp i st"] in \<open>auto intro: mayGo_none\<close>)
  qed
qed

lemma appDelete_step:
  assumes "threadOk (loadApp i st)" and "appDelete q i cid me st = (r, st')"
  shows "appStep me i st st'"
proof -
  have "st' = snd (withApp i (deleteComment me cid) st)"
    using assms(2) by (auto simp: appDelete_def split: prod.splits)
  then show ?thesis
    by (rule withApp_step) (use deleteComment_ok [OF assms(1)] in \<open>auto simp: mayGo_def\<close>)
qed

lemma appWrites_ok:
  assumes ok: "accountOk st" and "appWrites q m parts me st = Inr (r, st')"
  shows "accountOk st' \<and> ownChange me st st'"
proof -
  define i where "i = partAt parts 0"
  define cid where "cid = partAt parts 2"
  have T: "threadOk (loadApp i st)" using ok by (rule threadOk_load)
  consider "appReact q i me st = Inr (r, st')" | "appComment q m i me st = Inr (r, st')" | "appVote q i cid me st = Inr (r, st')"
    | "appDelete q i cid me st = (r, st')" | "st' = st"
    using assms(2) by (auto simp: appWrites_def Let_def i_def cid_def split: if_splits)
  then have "appStep me i st st'"
  proof cases
    case 4
    then show ?thesis by (rule appDelete_step [OF T])
  next
    case 5
    then show ?thesis by (simp add: appStep_def)
  qed (use T appReact_step appComment_step appVote_step in blast)+
  then show ?thesis using appStep_ok [OF ok] by blast
qed

lemma apps_ok:
  assumes "accountOk st"
  shows "apps q m parts who st = Inr (r, st') \<Longrightarrow> accountOk st' \<and> (sameKept st st' \<or> (\<exists>did. who = Some did \<and> ownChange (keyOf did) st st'))"
    and "apps q m parts who st = Inl (e, st') \<Longrightarrow> sameKept st st'"
proof -
  obtain ok st1 where 1: "withinRate (''w:'' @ keyOf (the who)) 20 (mo_now m) st = (ok, st1)" by fastforce
  note k = rate_kept [OF 1]
  have ok1: "accountOk st1" using assms accountOk_same [OF k] by simp
  have w: "accountOk s \<and> ownChange (keyOf (the who)) st s" if "appWrites q m parts (keyOf (the who)) st1 = Inr (r, s)" for s
    using appWrites_ok [OF ok1 that] ownChange_same [OF k] by simp
  show "apps q m parts who st = Inr (r, st') \<Longrightarrow> accountOk st' \<and> (sameKept st st' \<or> (\<exists>did. who = Some did \<and> ownChange (keyOf did) st st'))"
    using assms 1 k ok1 w by (cases who) (auto simp: apps_def Let_def split: if_splits sum.splits)
  show "apps q m parts who st = Inl (e, st') \<Longrightarrow> sameKept st st'"
    using 1 k by (cases who) (auto simp: apps_def Let_def split: if_splits sum.splits)
qed

lemma appsRequest_ok:
  assumes "accountOk st" and "appsRequest cf q m path st = (r, st')"
  shows "accountOk st' \<and> (sameKept st st' \<or> (\<exists>did. tokenSays cf q m did \<and> ownChange (keyOf did) st st'))"
proof -
  define who where "who = (case ac_key cf of None \<Rightarrow> Inr None
         | Some good \<Rightarrow> if bearer q = [] \<or> ac_app cf = [] then Inr None else map_sum id Some (verifyAccessToken (ac_app cf) good (mo_now m) (bearer q)))"
  obtain ok st1 where 1: "withinRate (''ip:'' @ clientOf q m) 240 (mo_now m) st = (ok, st1)" by fastforce
  note k = rate_kept [OF 1]
  have ok1: "accountOk st1" using assms(1) accountOk_same [OF k] by simp
  show ?thesis
  proof (cases who)
    case (Inl e)
    then show ?thesis using assms by (auto simp: appsRequest_def who_def Let_def)
  next
    case (Inr w)
    define did where "did = (case w of Some (Signed d _ _) \<Rightarrow> Some d | _ \<Rightarrow> None)"
    have says: "tokenSays cf q m d" if d: "did = Some d" for d
    proof -
      obtain sid e where "w = Some (Signed d sid e)" using d unfolding did_def by (simp split: option.splits checked.splits)
      then obtain good where "ac_key cf = Some good" "verifyAccessToken (ac_app cf) good (mo_now m) (bearer q) = Inr (Signed d sid e)"
        using Inr by (auto simp: who_def map_sum_def split: option.splits if_splits sum.splits)
      then show ?thesis using verify_says by blast
    qed
    consider "st' = st" | "st' = st1" | parts s where "apps q m parts did st1 = Inl s" "st' = snd s" | parts s where "apps q m parts did st1 = Inr s" "st' = snd s"
      using assms(2) Inr 1 by (auto simp: appsRequest_def who_def [symmetric] did_def [symmetric] Let_def split: if_splits option.splits sum.splits)
    then show ?thesis
    proof cases
      case 3
      then have "sameKept st1 st'" using apps_ok(2) [OF ok1, of q m parts did "fst s" "snd s"] by simp
      then show ?thesis using sameKept_trans [OF k] assms(1) accountOk_same by metis
    next
      case 4
      then have "accountOk st' \<and> (sameKept st1 st' \<or> (\<exists>d. did = Some d \<and> ownChange (keyOf d) st1 st'))"
        using apps_ok(1) [OF ok1, of q m parts did "fst s" "snd s"] by simp
      then show ?thesis using sameKept_trans [OF k] says ownChange_same [OF k] by metis
    qed (use assms(1) k ok1 in auto)
  qed
qed

lemma admit_says:
  assumes "admit cf q m st = (Inr did, st1)"
  shows "tokenSays cf q m did \<and> sameKept st st1"
proof -
  obtain good where g: "ac_key cf = Some good" using assms by (auto simp: admit_def split: option.splits)
  obtain sid e ok where "verifyAccessToken (ac_app cf) good (mo_now m) (bearer q) = Inr (Signed did sid e)"
      "withinRate (keyOf did) 60 (mo_now m) st = (ok, st1)"
    using assms g by (auto simp: admit_def Let_def split: if_splits sum.splits checked.splits prod.splits)
  then show ?thesis using g verify_says rate_kept by blast
qed

lemma admit_kept:
  assumes "admit cf q m st = (a, st1)"
  shows "sameKept st st1"
  using assms rate_kept by (auto simp: admit_def Let_def split: if_splits option.splits sum.splits checked.splits prod.splits)

lemma complete_ok:
  assumes "accountOk st" and "keyOf (us_did u) = keyOf did" and "userOk u" and "complete q m path did u st = (r, st')"
  shows "accountOk st' \<and> ownChange (keyOf did) st st'"
proof (cases "accountRoute q m path did u st")
  case (Inl e)
  then show ?thesis using assms by (simp add: complete_def)
next
  case (Inr rs)
  then show ?thesis using assms accountRoute_ok [OF assms(1-3)] by (cases rs) (auto simp: complete_def)
qed

lemma serve_ok:
  assumes ok: "accountOk st" and "serveAccount cf q m st = (r, st')"
  shows "accountOk st' \<and> (sameKept st st' \<or> (\<exists>did. tokenSays cf q m did \<and> ownChange (keyOf did) st st'))"
proof (cases "accPath (q_path q) = ''/health'' \<or> startsWith (accPath (q_path q)) ''/apps/''")
  case True
  then show ?thesis using assms appsRequest_ok [OF ok] by (auto simp: serveAccount_def Let_def split: if_splits)
next
  case False
  obtain a st1 where a: "admit cf q m st = (a, st1)" by fastforce
  have k: "sameKept st st1" by (rule admit_kept [OF a])
  have ok1: "accountOk st1" using ok accountOk_same [OF k] by simp
  show ?thesis
  proof (cases a)
    case (Inl x)
    then show ?thesis using assms(2) False a k ok1 by (simp add: serveAccount_def Let_def)
  next
    case (Inr did)
    have "complete q m (accPath (q_path q)) did (load did m st1) st1 = (r, st')"
      using assms(2) False a Inr by (simp add: serveAccount_def Let_def)
    then have "accountOk st' \<and> ownChange (keyOf did) st1 st'"
      using complete_ok [OF ok1] load_ok [OF ok1] by blast
    then show ?thesis using admit_says [of cf q m st did st1] a Inr ownChange_same [OF k] by auto
  qed
qed

text \<open>
  The service with requests under way: any request whole, or the two halves of a signed-in one around
  its load, with other requests between them.
\<close>

type_synonym underway = "req \<times> moment \<times> string \<times> string \<times> user"

inductive service :: "config \<Rightarrow> account \<Rightarrow> underway list \<Rightarrow> bool" for cf where
  empty: "service cf \<lparr>st_users = Map.empty, st_apps = Map.empty, st_requested = [], st_publisher = [], st_seen = []\<rparr> []"
| whole: "service cf st ps \<Longrightarrow> serveAccount cf q m st = (r, st') \<Longrightarrow> service cf st' ps"
| begun: "service cf st ps \<Longrightarrow> admit cf q m st = (Inr did, st') \<Longrightarrow> service cf st' (ps @ [(q, m, accPath (q_path q), did, load did m st')])"
| ended: "service cf st (as @ (q, m, path, did, u) # bs) \<Longrightarrow> complete q m path did u st = (r, st') \<Longrightarrow> service cf st' (as @ bs)"

lemma service_ok:
  "service cf st ps \<Longrightarrow> accountOk st \<and> (\<forall>(q, m, path, did, u) \<in> set ps. keyOf (us_did u) = keyOf did \<and> userOk u)"
proof (induction rule: service.induct)
  case (begun st ps q m did st')
  then show ?case using load_ok accountOk_same [OF admit_kept [OF begun.hyps(2)]] by auto
next
  case (ended st as q m path did u bs r st')
  then show ?case using complete_ok [of st u did q m path r st'] by auto
next
  case (whole st ps q m r st')
  then show ?case using serve_ok by blast
qed (simp add: accountOk_def)

text \<open>
  C18. Whatever requests have been served, also with several of one person under way at once: every record
  stands under the hash of its own person, no saved list is longer than 500, no list of requests longer
  than 100, no thread longer than 5000, and every comment has between 1 and 2000 characters and at most
  one vote of each person.
\<close>

theorem account_bounded:
  assumes "service cf st ps"
  shows "(st_users st k = Some u \<longrightarrow> keyOf (us_did u) = k \<and> length (us_saved u) \<le> 500 \<and> length (us_requests u) \<le> 100)
    \<and> (st_apps st i = Some t \<longrightarrow> length (th_comments t) \<le> 5000 \<and> distinct (map fst (th_votes t))
        \<and> (\<forall>c \<in> set (th_comments t). 0 < length (cm_text c) \<and> length (cm_text c) \<le> 2000 \<and> distinct (map fst (cm_votes c))))"
  using service_ok [OF assms]
  by (auto simp: accountOk_def userOk_def threadOk_def commentOk_def votesOk_def MAX_SAVED_def MAX_REQUESTS_def MAX_COMMENTS_def MAX_COMMENT_def)

text \<open>
  C1. A request that changes anything that is kept carries a token whose signature the configured key
  verified, issued by Privy for this app and not expired; no other person's record changes, and a comment
  that is gone afterwards was that person's own, or a reply to their own.
\<close>

theorem account_writes_signed:
  assumes "service cf st ps" and "serveAccount cf q m st = (r, st')" and "\<not> sameKept st st'"
  shows "\<exists>did good h p s claims e. ac_key cf = Some good \<and> splitAt (CHR ''.'') (bearer q) = [h, p, s]
     \<and> good (utf8 (h @ ''.'' @ p)) (b64text s) \<and> parse (decodeText (b64text p)) = Some claims
     \<and> getProp ''iss'' claims = Some (JStr ''privy.io'') \<and> getProp ''aud'' claims = Some (JStr (ac_app cf)) \<and> getProp ''sub'' claims = Some (JStr did)
     \<and> getProp ''exp'' claims = Some (JNum e) \<and> mo_now m \<le> (e + SKEW) * 1000 \<and> (\<forall>k. k \<noteq> keyOf did \<longrightarrow> st_users st' k = st_users st k)
     \<and> (\<forall>i c. goneFrom (loadApp i st) (loadApp i st') c \<longrightarrow>
         (\<exists>x \<in> set (th_comments (loadApp i st)). cm_author x = keyOf did \<and> (cm_id c = cm_id x \<or> cm_parent c = Some (cm_id x))))"
proof -
  obtain did where "tokenSays cf q m did" "ownChange (keyOf did) st st'"
    using serve_ok [OF _ assms(2)] service_ok [OF assms(1)] assms(3) by blast
  then show ?thesis unfolding tokenSays_def ownChange_def by blast
qed

text \<open>
  C19. Likes refine a function from persons to votes: a reaction updates the person's own entry and no
  other, and the counts shown are the numbers of persons on either side.
\<close>

theorem react_refines:
  assumes "votesOk (th_votes (loadApp i st))" and "bodyProp ''value'' q = Inr v" and "reaction v = Some n"
  shows "\<exists>st'. appReact q i me st = Inr (accJson (q_verb q) 200 (JObj (voteJson (th_votes (loadApp i st')) (Some n))), st')
     \<and> voteOf (th_votes (loadApp i st')) = (voteOf (th_votes (loadApp i st)))(me := n)
     \<and> likesOf (th_votes (loadApp i st')) = personsOf ((voteOf (th_votes (loadApp i st)))(me := n)) 1
     \<and> dislikesOf (th_votes (loadApp i st')) = personsOf ((voteOf (th_votes (loadApp i st)))(me := n)) (- 1) \<and> votesOk (th_votes (loadApp i st'))"
proof -
  let ?vs = "th_votes (loadApp i st)"
  have ok: "votesOk (vote me n ?vs)" using assms(1) reaction_range [OF assms(3)] by (rule votesOk_vote)
  have f: "voteOf (vote me n ?vs) = (voteOf ?vs)(me := n)" using assms(1) by (simp add: votesOk_def voteOf_vote)
  have "appReact q i me st = Inr (accJson (q_verb q) 200 (JObj (voteJson (vote me n ?vs) (Some n))),
      st\<lparr>st_apps := (st_apps st)(i \<mapsto> (loadApp i st)\<lparr>th_votes := vote me n ?vs\<rparr>)\<rparr>)"
    using assms(2,3) by (simp add: appReact_def withApp_def Let_def)
  moreover have "th_votes (loadApp i (st\<lparr>st_apps := (st_apps st)(i \<mapsto> (loadApp i st)\<lparr>th_votes := vote me n ?vs\<rparr>)\<rparr>)) = vote me n ?vs"
    by (simp add: loadApp_def)
  ultimately show ?thesis using ok counts_persons [OF ok] f by auto
qed

subsection \<open>Witnesses\<close>

definition sampleHeader :: json where "sampleHeader = JObj [(''alg'', JStr ''ES256'')]"
definition sampleClaims :: json where
  "sampleClaims = JObj [(''iss'', JStr ''privy.io''), (''aud'', JStr ''a''), (''exp'', JNum 9), (''sub'', JStr ''d'')]"

definition sampleH :: string where "sampleH = ''eyJhbGciOiJFUzI1NiJ9''"
definition sampleP :: string where "sampleP = ''eyJpc3MiOiJwcml2eS5pbyIsImF1ZCI6ImEiLCJleHAiOjksInN1YiI6ImQifQ''"
definition sampleS :: string where "sampleS = replicate 86 (CHR ''A'')"

lemma sample_header: "parse (decodeText (b64text sampleH)) = Some sampleHeader"
proof -
  have "b64text sampleH = utf8 (stringify sampleHeader)"
    by (simp add: b64text_def sextetOf_def utf8_def utf8_char_def sampleHeader_def sampleH_def quote_def escapeChar_def)
  moreover have "plain sampleHeader" by (simp add: sampleHeader_def plainKeys_def isIndex_def isDigit_def)
  ultimately show ?thesis by (simp add: parse_stringify)
qed

lemma sample_claims: "parse (decodeText (b64text sampleP)) = Some sampleClaims"
proof -
  have "b64text sampleP = utf8 (stringify sampleClaims)"
    by (simp add: b64text_def sextetOf_def utf8_def utf8_char_def sampleClaims_def sampleP_def quote_def escapeChar_def numText_def decimal.simps)
  moreover have "plain sampleClaims" by (simp add: sampleClaims_def plainKeys_def isIndex_def isDigit_def)
  ultimately show ?thesis by (simp add: parse_stringify)
qed

lemma length_fromSextets: "length (fromSextets xs) = length xs * 3 div 4"
  by (induction xs rule: fromSextets.induct) auto

lemma sample_signature: "length (b64text sampleS) = 64"
proof -
  have "concat (map sextetOf (replicate n (CHR ''A''))) = replicate n 0" for n by (induction n) (simp_all add: sextetOf_def)
  then show ?thesis by (simp add: b64text_def sampleS_def length_fromSextets)
qed

definition sampleToken :: string where "sampleToken = sampleH @ CHR ''.'' # sampleP @ CHR ''.'' # sampleS"

lemma sample_parts: "splitAt (CHR ''.'') sampleToken = [sampleH, sampleP, sampleS]"
proof -
  have "CHR ''.'' \<notin> set sampleH" "CHR ''.'' \<notin> set sampleP" "CHR ''.'' \<notin> set sampleS"
    by (simp_all add: sampleH_def sampleP_def sampleS_def)
  then show ?thesis by (simp add: sampleToken_def splitAt_app splitAt_none)
qed

lemma sample_trim: "trim sampleToken = sampleToken"
  by (rule trim_none) (auto simp: sampleToken_def sampleH_def sampleP_def sampleS_def isTrimmed_def)

definition sampleConfig :: config where "sampleConfig = \<lparr>ac_app = ''a'', ac_key = Some (\<lambda>text sig. True)\<rparr>"
definition sampleMoment :: moment where "sampleMoment = \<lparr>mo_now = 0, mo_iso = ''t'', mo_uuid = ''u'', mo_peer = ''p''\<rparr>"
definition sampleAccount :: account where
  "sampleAccount = \<lparr>st_users = Map.empty, st_apps = Map.empty, st_requested = [], st_publisher = [], st_seen = []\<rparr>"
definition sampleDelete :: req where
  "sampleDelete = \<lparr>q_verb = ''DELETE'', q_url = ''/api/account/saved/x'', q_path = ''/api/account/saved/x'', q_query = [],
     q_heads = [(''authorization'', ''Bearer '' @ sampleToken)], q_data = []\<rparr>"

lemma sample_bearer: "bearer sampleDelete = sampleToken"
  using sample_trim by (simp add: bearer_def headerOf_def sampleDelete_def startsWith_def)

lemma sample_verify: "verifyAccessToken ''a'' (\<lambda>text sig. True) 0 sampleToken = Inr (Signed ''d'' None 9)"
proof -
  have "checkClaims ''a'' 0 sampleClaims = Inr (Signed ''d'' None 9)" by (simp add: checkClaims_def sampleClaims_def SKEW_def)
  moreover have "propOf ''alg'' sampleHeader = Inr (Some (JStr ''ES256''))" "getProp ''typ'' sampleHeader = None"
    by (simp_all add: propOf_def sampleHeader_def)
  ultimately show ?thesis by (simp add: verifyAccessToken_def sample_parts sample_header sample_claims sample_signature)
qed

lemma sample_serve: "st_users (snd (serveAccount sampleConfig sampleDelete sampleMoment sampleAccount)) (keyOf ''d'') = Some (blank ''d'' sampleMoment)"
proof -
  have p: "accPath (q_path sampleDelete) = ''/saved/x''" by (simp add: accPath_def sampleDelete_def startsWith_def)
  obtain st1 where a: "admit sampleConfig sampleDelete sampleMoment sampleAccount = (Inr ''d'', st1)" and u: "st_users st1 = Map.empty"
    using sample_verify by (simp add: admit_def sampleConfig_def sampleMoment_def sample_bearer withinRate_def Let_def sampleAccount_def)
  have "decodeURIComponent ''x'' = Some ''x''" by (rule decode_plain) simp
  then have "accountRoute sampleDelete sampleMoment ''/saved/x'' ''d'' (load ''d'' sampleMoment st1) st1
      = Inr (accJson ''DELETE'' 200 (JObj [(''saved'', strs [])]), save (blank ''d'' sampleMoment) st1)"
    using u by (simp add: accountRoute_def deleteSaved_def load_def blank_def startsWith_def sampleDelete_def isRead_def Let_def)
  then show ?thesis using a p by (simp add: serveAccount_def complete_def startsWith_def save_def blank_def)
qed

theorem account_writes_signed_witness:
  "\<exists>did good h p s claims. ac_key sampleConfig = Some good \<and> splitAt (CHR ''.'') (bearer sampleDelete) = [h, p, s]
     \<and> good (utf8 (h @ ''.'' @ p)) (b64text s) \<and> parse (decodeText (b64text p)) = Some claims \<and> getProp ''sub'' claims = Some (JStr did)"
proof -
  have s: "service sampleConfig sampleAccount []" unfolding sampleAccount_def by (rule service.empty)
  obtain r st' where st': "serveAccount sampleConfig sampleDelete sampleMoment sampleAccount = (r, st')" by fastforce
  have "st_users st' (keyOf ''d'') \<noteq> st_users sampleAccount (keyOf ''d'')" using sample_serve st' by (simp add: sampleAccount_def)
  then have "\<not> sameKept sampleAccount st'" unfolding sameKept_def by metis
  then show ?thesis using account_writes_signed [OF s st'] by blast
qed

theorem account_bounded_witness:
  "\<exists>(st :: account) u. st_users st (keyOf ''d'') = Some u \<and> length (us_saved u) \<le> 500 \<and> length (us_requests u) \<le> 100"
proof -
  have s: "service sampleConfig sampleAccount []" unfolding sampleAccount_def by (rule service.empty)
  obtain r st' where st': "serveAccount sampleConfig sampleDelete sampleMoment sampleAccount = (r, st')" by fastforce
  have u: "st_users st' (keyOf ''d'') = Some (blank ''d'' sampleMoment)" using sample_serve st' by simp
  note b = account_bounded [OF service.whole [OF s st'], of "keyOf ''d''" "blank ''d'' sampleMoment" "''i''" "loadApp ''i'' st'",
    THEN conjunct1, rule_format, OF u]
  have "st_users st' (keyOf ''d'') = Some (blank ''d'' sampleMoment) \<and> length (us_saved (blank ''d'' sampleMoment)) \<le> 500
      \<and> length (us_requests (blank ''d'' sampleMoment)) \<le> 100" using u b by (intro conjI) simp_all
  then show ?thesis by blast
qed

theorem react_refines_witness:
  "likesOf (th_votes (loadApp ''i'' sampleAccount)) = 0 \<and> (\<exists>(st' :: account). likesOf (th_votes (loadApp ''i'' st')) = personsOf ((\<lambda>k. 0)(''me'' := 1)) 1)"
proof -
  define q where "q = sampleDelete\<lparr>q_data := utf8 (stringify (JObj [(''value'', JNum 1)]))\<rparr>"
  have "plain (JObj [(''value'', JNum 1)])" by (simp add: plainKeys_def isIndex_def isDigit_def)
  then have "parse (decodeText (q_data q)) = Some (JObj [(''value'', JNum 1)])" by (simp add: q_def parse_stringify del: stringify.simps)
  moreover have "0 < length (q_data q) \<and> length (q_data q) \<le> MAX_BODY"
    by (simp add: q_def utf8_def utf8_char_def quote_def escapeChar_def numText_def decimal.simps MAX_BODY_def)
  ultimately have b: "bodyProp ''value'' q = Inr (Some (JNum 1))" by (auto simp: bodyProp_def bodyOf_def propOf_def)
  have v: "votesOk (th_votes (loadApp ''i'' sampleAccount))" "voteOf (th_votes (loadApp ''i'' sampleAccount)) = (\<lambda>k. 0)"
    by (simp_all add: loadApp_def sampleAccount_def votesOk_def voteOf_def fun_eq_iff)
  have "reaction (Some (JNum 1)) = Some 1" by (simp add: reaction_def)
  then obtain st' where "likesOf (th_votes (loadApp ''i'' st')) = personsOf ((\<lambda>k. 0)(''me'' := 1)) 1"
    using react_refines [OF v(1) b, of 1 "''me''"] v(2) by auto
  then show ?thesis by (auto simp: loadApp_def sampleAccount_def likesOf_def)
qed

end
