(* ===== verification/Float16.thy ===== *)
theory Float16
  imports Prelude
begin

text \<open>
  The two conversions between numbers of 16 and of 32 bits in \<open>tensors/lib/sample.mjs\<close>, on 32-bit words,
  bit by bit as the code writes them, and that each undoes the other. A value that cannot be narrowed is the code's
  \<open>-1\<close>, here \<open>None\<close>.
\<close>

definition f32toF16Exact :: "u32 \<Rightarrow> u32 option" where
  "f32toF16Exact u = (let s = drop_bit 16 u AND 0x8000; e = drop_bit 23 u AND 0xff; m = u AND 0x7fffff in
     if e = 0xff then (if m = 0 then Some (s OR 0x7c00)
       else if m AND 0x1fff = 0 \<and> drop_bit 13 m \<noteq> 0 then Some (s OR 0x7c00 OR drop_bit 13 m) else None)
     else if e = 0 then (if m = 0 then Some s else None)
     else let E = int (unat e) - 127 in
       if -14 \<le> E \<and> E \<le> 15 then (if m AND 0x1fff = 0 then Some (s OR push_bit 10 (of_int (E + 15)) OR drop_bit 13 m) else None)
       else if -24 \<le> E \<and> E < -14 then (let full = 0x800000 OR m; shift = nat (13 + (-14 - E)) in
         if full AND (push_bit shift 1 - 1) = 0 then Some (s OR drop_bit shift full) else None)
       else None)"

text \<open>
  \<open>while (!(mm & 0x400)) { mm <<= 1; E--; }\<close> starts from a mantissa below \<open>0x400\<close> that is not zero: ten turns are
  enough (\<open>renorm_at\<close>).
\<close>

fun renorm :: "nat \<Rightarrow> int \<Rightarrow> u32 \<Rightarrow> int \<times> u32" where
  "renorm 0 E mm = (E, mm)"
| "renorm (Suc n) E mm = (if mm AND 0x400 = 0 then renorm n (E - 1) (push_bit 1 mm) else (E, mm))"

definition f16toF32 :: "u32 \<Rightarrow> u32" where
  "f16toF32 h = (let s = push_bit 16 (h AND 0x8000); e = drop_bit 10 h AND 0x1f; m = h AND 0x3ff in
     if e = 0x1f then s OR 0x7f800000 OR push_bit 13 m
     else if e = 0 then (if m = 0 then s else (let (E, mm) = renorm 10 (-14) m in
       s OR push_bit 23 (of_int (E + 127)) OR push_bit 13 (mm AND 0x3ff)))
     else s OR push_bit 23 (e - 15 + 127) OR push_bit 13 m)"

subsection \<open>Words as fields\<close>

lemma masks: "(0xff :: u32) = mask 8" "(0x7fffff :: u32) = mask 23" "(0x1fff :: u32) = mask 13"
  "(0x3ff :: u32) = mask 10" "(0x1f :: u32) = mask 5" "(0x8000 :: u32) = push_bit 15 1" "(0x7c00 :: u32) = push_bit 10 (mask 5)"
  "(0x7f800000 :: u32) = push_bit 23 (mask 8)" "(0x800000 :: u32) = push_bit 23 1" "(0x400 :: u32) = push_bit 10 1" "(0xffff::u32) = mask 16"
  by (simp_all add: mask_eq_exp_minus_1 push_bit_eq_mult)

text \<open>A word of 32 bits is its three fields.\<close>

definition pack32 :: "u32 \<Rightarrow> u32 \<Rightarrow> u32 \<Rightarrow> u32" where
  "pack32 s e m = push_bit 31 s OR push_bit 23 e OR m"
definition pack16 :: "u32 \<Rightarrow> u32 \<Rightarrow> u32 \<Rightarrow> u32" where
  "pack16 s e m = push_bit 15 s OR push_bit 10 e OR m"



lemma bit_consts: "bit (32768 :: int) n \<longleftrightarrow> n = 15" "bit (1024 :: int) n \<longleftrightarrow> n = 10" "bit (8388608 :: int) n \<longleftrightarrow> n = 23"
  using bit_exp_iff [of 15 n, where ?'a = int] bit_exp_iff [of 10 n, where ?'a = int] bit_exp_iff [of 23 n, where ?'a = int]
  by auto

lemma u32_bit: "bit (u :: u32) n \<Longrightarrow> n < 32"
  using bit_imp_le_length [of u n] by simp

lemma unpack32: "pack32 (drop_bit 31 u) (drop_bit 23 u AND mask 8) (u AND mask 23) = u"
proof (rule bit_word_eqI)
  fix n assume "n < LENGTH(32)"
  then have n: "n < 32" by simp
  show "bit (pack32 (drop_bit 31 u) (drop_bit 23 u AND mask 8) (u AND mask 23)) n = bit u n"
  proof (cases "n = 31")
    case True then show ?thesis by (simp add: pack32_def bit_simps)
  next
    case False
    then show ?thesis using n by (cases "n < 23") (auto simp add: pack32_def bit_simps)
  qed
qed

lemma bits_below: "w AND mask k = w \<Longrightarrow> bit (w :: u32) n \<Longrightarrow> n < k"
  by (metis bit_and_iff bit_mask_iff)

lemma fields32:
  assumes "s AND mask 1 = s" "e AND mask 8 = e" "m AND mask 23 = m"
  shows "drop_bit 31 (pack32 s e m) = s" "drop_bit 23 (pack32 s e m) AND mask 8 = e" "pack32 s e m AND mask 23 = m"
     "drop_bit 16 (pack32 s e m) AND 0x8000 = push_bit 15 s"
proof -
  note b = assms [THEN bits_below]
  show "drop_bit 31 (pack32 s e m) = s"
    by (rule bit_word_eqI) (auto simp: pack32_def bit_simps dest: b)
  show "drop_bit 23 (pack32 s e m) AND mask 8 = e"
    by (rule bit_word_eqI) (auto simp: pack32_def bit_simps dest: b)
  show  "pack32 s e m AND mask 23 = m"
    by (rule bit_word_eqI) (auto simp: pack32_def bit_simps dest: b)
  show   "drop_bit 16 (pack32 s e m) AND 0x8000 = push_bit 15 s"
    by (rule bit_word_eqI) (auto simp: pack32_def bit_simps bit_consts dest: b)
qed

lemma fields16:
  assumes "s AND mask 1 = s" "e AND mask 5 = e" "m AND mask 10 = m"
  shows "pack16 s e m AND 0x8000 = push_bit 15 s" "drop_bit 10 (pack16 s e m) AND mask 5 = e" "pack16 s e m AND mask 10 = m"
proof -
  note b = assms [THEN bits_below]
  show "pack16 s e m AND 0x8000 = push_bit 15 s"
    by (rule bit_word_eqI) (auto simp: pack16_def bit_simps bit_consts dest: b)
  show "drop_bit 10 (pack16 s e m) AND mask 5 = e"
    by (rule bit_word_eqI) (auto simp: pack16_def bit_simps dest: b)
  show  "pack16 s e m AND mask 10 = m"
    by (rule bit_word_eqI) (auto simp: pack16_def bit_simps dest: b)
qed

lemma unpack16: "h AND mask 16 = h \<Longrightarrow> pack16 (drop_bit 15 h) (drop_bit 10 h AND mask 5) (h AND mask 10) = h"
proof (rule bit_word_eqI)
  fix n assume "h AND mask 16 = h" and "n < LENGTH(32)"
  note b = bits_below [OF this(1)]
  show "bit (pack16 (drop_bit 15 h) (drop_bit 10 h AND mask 5) (h AND mask 10)) n = bit h n"
  proof (cases "n = 15")
    case True then show ?thesis by (simp add: pack16_def bit_simps)
  next
    case False
    then show ?thesis using \<open>n < LENGTH(32)\<close> by (cases "n < 10") (auto simp add: pack16_def bit_simps dest: b)
  qed
qed

lemma low_bits: "w AND mask k = (w :: u32) \<longleftrightarrow> unat w < 2 ^ k"
proof -
  have "w AND mask k = w \<longleftrightarrow> unat w mod 2 ^ k = unat w"
    by (metis take_bit_eq_mask take_bit_eq_mod unsigned_take_bit_eq word_eq_iff_unsigned unat_word_ariths(7))
  then show ?thesis by (metis mod_less mod_less_divisor zero_less_numeral zero_less_power)
qed

lemma unat_push: "unat w * 2 ^ k < 2 ^ 32 \<Longrightarrow> unat (push_bit k (w :: u32)) = unat w * 2 ^ k"
  by (simp only: unsigned_push_bit_eq) (simp add: push_bit_eq_mult take_bit_eq_mod)

lemma bit10: "unat (w :: u32) < 2048 \<Longrightarrow> w AND 0x400 = 0 \<longleftrightarrow> unat w < 1024"
proof -
  assume a: "unat w < 2048"
  have "w AND 0x400 = 0 \<longleftrightarrow> \<not> bit w 10"
  proof
    assume "w AND 0x400 = 0"
    then have "\<not> bit (w AND 0x400) 10" by simp
    then show "\<not> bit w 10" by (simp add: bit_simps bit_consts)
  next
    assume "\<not> bit w 10"
    then show "w AND 0x400 = 0" by (intro bit_word_eqI) (auto simp: bit_simps bit_consts)
  qed
  also have "\<dots> \<longleftrightarrow> \<not> bit (unat w) 10" by (simp add: bit_unsigned_iff)
  also have "\<dots> \<longleftrightarrow> even (unat w div 1024)" using bit_iff_odd [of "unat w" 10] by simp
  also have "\<dots> \<longleftrightarrow> unat w < 1024"
  proof (cases "unat w < 1024")
    case False
    then have "unat w div 1024 = 1" using a by auto
    then show ?thesis using False by simp
  qed simp
  finally show ?thesis .
qed

lemma renorm_at:
  "unat w < 2048 \<Longrightarrow> 1024 \<le> unat w * 2 ^ n \<Longrightarrow>
   \<exists>j \<le> n. renorm n E w = (E - int j, push_bit j w) \<and> 1024 \<le> unat w * 2 ^ j \<and> unat w * 2 ^ j < 2048"
proof (induction n arbitrary: E w)
  case 0
  then show ?case by simp
next
  case (Suc n)
  show ?case
  proof (cases "unat w < 1024")
    case True
    then have "w AND 0x400 = 0" using bit10 [of w] by simp
    moreover have u: "unat (push_bit 1 w) = 2 * unat w" using unat_push [of w 1] True by simp
    ultimately obtain j where "j \<le> n" "renorm n (E - 1) (push_bit 1 w) = (E - 1 - int j, push_bit j (push_bit 1 w))"
        "1024 \<le> 2 * unat w * 2 ^ j" "2 * unat w * 2 ^ j < 2048"
      using Suc.IH [of "push_bit 1 w" "E - 1"] Suc.prems True by auto
    with \<open>w AND 0x400 = 0\<close> show ?thesis by (intro exI [of _ "Suc j"]) (simp add: push_bit_push_bit del: push_bit_of_1 push_bit_Suc)
  next
    case False
    then have "w AND 0x400 \<noteq> 0" using bit10 [OF Suc.prems(1)] by simp
    with False Suc.prems show ?thesis by (intro exI [of _ 0]) simp
  qed
qed


text \<open>The three fields of a number of sixteen bits, and what they become in thirty-two.\<close>

lemma unat_and_mask: "unat (w AND mask k :: u32) = unat w mod 2 ^ k"
  by (simp only: take_bit_eq_mask [symmetric] unsigned_take_bit_eq) (simp only: take_bit_eq_mod)

lemma unat_drop: "unat (drop_bit k w :: u32) = unat w div 2 ^ k"
  using unsigned_less [of w, where ?'a = nat]
  by (simp only: unsigned_drop_bit_eq) (simp add: drop_bit_eq_div take_bit_eq_mod)

lemma or_plus: "unat a < 2 ^ k \<Longrightarrow> unat (push_bit k (c :: u32) OR a) = unat (push_bit k c) + unat a"
proof -
  assume "unat a < 2 ^ k"
  then have "a AND mask k = a" by (simp add: low_bits)
  then have d: "push_bit k c AND a = 0"
    by (intro bit_word_eqI) (auto simp: bit_simps dest: bits_below)
  then have "unat (push_bit k c) AND unat a = 0" by (metis unsigned_and_eq unsigned_0)
  then show ?thesis by (simp add: unsigned_or_eq disjunctive_add_eq_or)
qed

definition low :: "nat \<Rightarrow> u32 \<Rightarrow> bool" where "low k w \<longleftrightarrow> unat w < 2 ^ k"

lemma widen_pack:
  assumes "low 1 s" "low 5 e" "low 10 m"
  shows "f16toF32 (pack16 s e m) = (if e = 31 then pack32 s 255 (push_bit 13 m)
     else if e = 0 then if m = 0 then pack32 s 0 0 else (let (E, mm) = renorm 10 (-14) m in pack32 s (of_int (E + 127)) (push_bit 13 (mm AND 0x3ff)))
     else pack32 s (e + 112) (push_bit 13 m))"
proof -
  note f = fields16 [OF assms [unfolded low_def low_bits [symmetric]]]
  have p: "push_bit 16 (push_bit 15 s) = push_bit 31 s" by (simp add: push_bit_push_bit)
  have c: "(0x7f800000 :: u32) = push_bit 23 255" by (simp add: push_bit_eq_mult)
  have e: "e - 15 + 127 = e + 112" by simp
  show ?thesis
    unfolding f16toF32_def Let_def masks(4) masks(5) f p c e pack32_def
    by (simp only: push_bit_of_0 split: prod.split) (simp add: case_prod_beta)
qed

lemma narrow_pack:
  assumes "low 1 s" "low 8 e" "low 23 m"
  shows "f32toF16Exact (pack32 s e m) = (if e = 255 then if m = 0 then Some (pack16 s 31 0)
       else if m AND mask 13 = 0 then Some (pack16 s 31 (drop_bit 13 m)) else None
     else if e = 0 then if m = 0 then Some (pack16 s 0 0) else None
     else if 113 \<le> unat e \<and> unat e \<le> 142 then if m AND mask 13 = 0 then Some (pack16 s (e - 112) (drop_bit 13 m)) else None
     else if 103 \<le> unat e \<and> unat e < 113 then
       if (0x800000 OR m) AND mask (126 - unat e) = 0 then Some (pack16 s 0 (drop_bit (126 - unat e) (0x800000 OR m))) else None
     else None)"
proof -
  note f = fields32 [OF assms [unfolded low_def low_bits [symmetric]]]
  have c: "push_bit 15 s OR 0x7c00 = pack16 s 31 0" by (simp add: pack16_def push_bit_eq_mult)
  have ff: "(0xff :: u32) = 255" by simp
  have d: "drop_bit 13 m \<noteq> 0" if "m AND mask 13 = 0" "m \<noteq> 0"
  proof -
    have "unat m mod 2 ^ 13 = 0" using that(1) by (simp only: unat_and_mask [symmetric]) simp
    moreover have "unat m \<noteq> 0" using that(2) by (simp add: unat_eq_0)
    ultimately have "unat m div 2 ^ 13 \<noteq> 0" by (metis div_mult_mod_eq add.right_neutral mult_zero_left)
    then show ?thesis by (metis unat_drop unsigned_0)
  qed
  have E: "of_int (int (unat e) - 127 + 15) = e - 112" by simp
  have n: "nat (13 + (- 14 - (int (unat e) - 127))) = 126 - unat e" if "unat e < 113" using that by linarith
  have k: "push_bit j 1 - 1 = (mask j :: u32)" for j by (simp add: mask_eq_exp_minus_1 push_bit_eq_mult)
  have zero: "pack16 s 0 w = push_bit 15 s OR w" for w by (simp add: pack16_def)
  have r: "- 14 \<le> int (unat e) - 127 \<and> int (unat e) - 127 \<le> 15 \<longleftrightarrow> 113 \<le> unat e \<and> unat e \<le> 142"
    "- 24 \<le> int (unat e) - 127 \<and> int (unat e) - 127 < - 14 \<longleftrightarrow> 103 \<le> unat e \<and> unat e < 113" by linarith+
  have p: "pack16 s 31 0 OR w = pack16 s 31 w" "push_bit 15 s OR push_bit 10 q OR w = pack16 s q w" "push_bit 15 s = pack16 s 0 0" for q w
    by (simp_all add: pack16_def or.assoc)
  note step = f32toF16Exact_def Let_def masks(2) masks(3) f(3,4) f(2) [unfolded masks(1) [symmetric]] E k r c p(1) p(2)
  consider "e = 255" | "e = 0" | "e \<noteq> 255" "e \<noteq> 0" "113 \<le> unat e \<and> unat e \<le> 142"
    | "e \<noteq> 255" "e \<noteq> 0" "\<not> (113 \<le> unat e \<and> unat e \<le> 142)" "103 \<le> unat e \<and> unat e < 113"
    | "e \<noteq> 255" "e \<noteq> 0" "\<not> (113 \<le> unat e \<and> unat e \<le> 142)" "\<not> (103 \<le> unat e \<and> unat e < 113)" by blast
  then show ?thesis
  proof cases
    case 1
    have "push_bit 15 s OR 0x7c00 OR w = pack16 s 31 w" for w by (simp add: pack16_def push_bit_eq_mult)
    then show ?thesis unfolding step using d 1 by (auto simp: or.assoc)
  next
    case 2
    then show ?thesis unfolding step by (simp only: p(3)) simp
  next
    case 3
    then show ?thesis unfolding step by (simp only: if_True if_False simp_thms)
  next
    case 4
    then show ?thesis unfolding step using n by (simp only: if_True if_False simp_thms zero)
  next
    case 5
    then show ?thesis unfolding step by (simp only: if_True if_False simp_thms)
  qed
qed

lemma low_push: "low j w \<Longrightarrow> j + k \<le> 32 \<Longrightarrow> low (j + k) (push_bit k w) \<and> unat (push_bit k w) = unat w * 2 ^ k"
proof -
  assume a: "low j w" and b: "j + k \<le> 32"
  have "unat w * 2 ^ k < 2 ^ (j + k)" using a by (simp add: low_def power_add)
  moreover have "(2::nat) ^ (j + k) \<le> 2 ^ 32" using b by (intro power_increasing) simp_all
  ultimately show ?thesis using unat_push [of w k] by (simp add: low_def)
qed

lemma drop_push: "low j w \<Longrightarrow> j + k \<le> 32 \<Longrightarrow> drop_bit k (push_bit k w) = (w :: u32) \<and> push_bit k w AND mask k = 0"
proof -
  assume "low j w" "j + k \<le> 32"
  then have u: "unat (push_bit k w) = unat w * 2 ^ k" using low_push by blast
  have "unat (drop_bit k (push_bit k w)) = unat w" by (simp add: unat_drop u)
  then have "drop_bit k (push_bit k w) = w" by (simp only: word_unat_eq_iff)
  moreover have "unat (push_bit k w AND mask k) = 0" by (simp add: unat_and_mask u)
  ultimately show ?thesis by (simp only: unat_eq_0 simp_thms)
qed

lemma push_drop: "w AND mask k = 0 \<Longrightarrow> push_bit k (drop_bit k w) = (w :: u32)"
proof -
  assume "w AND mask k = 0"
  then have "unat w mod 2 ^ k = 0" by (metis unat_and_mask unsigned_0)
  then have "unat w div 2 ^ k * 2 ^ k = unat w" by (metis div_mult_mod_eq add.right_neutral)
  then have "unat (push_bit k (drop_bit k w)) = unat w"
    using unat_push [of "drop_bit k w" k] unsigned_less [of w, where ?'a = nat] by (simp add: unat_drop)
  then show ?thesis by (simp only: word_unat_eq_iff)
qed

lemma leading:
  assumes "low 23 m"
  shows "unat (0x800000 OR m) = 2 ^ 23 + unat m"
proof -
  have "0x800000 OR m = push_bit 23 1 OR m" by (simp add: push_bit_eq_mult)
  then show ?thesis using or_plus [of m 23 1] assms unat_push [of 1 23] by (simp add: low_def push_bit_eq_mult)
qed

text \<open>The low ten bits of a number whose eleventh is set, put in place.\<close>

lemma unat_mantissa:
  assumes "unat w * 2 ^ j < 2048" "1024 \<le> unat w * 2 ^ j"
  shows "low 10 (push_bit j w AND 0x3ff)" "low 23 (push_bit 13 (push_bit j w AND 0x3ff))"
    "unat (push_bit 13 (push_bit j w AND 0x3ff)) = (unat w * 2 ^ j - 1024) * 2 ^ 13"
proof -
  have uj: "unat (push_bit j w) = unat w * 2 ^ j" using unat_push [of w j] assms(1) by simp
  obtain z where z: "z = push_bit j w AND 0x3ff" by simp
  have ua: "unat z = unat w * 2 ^ j - 1024"
    unfolding z masks(4) unat_and_mask uj using assms by (simp add: mod_if)
  then have l: "low 10 z" using assms by (simp add: low_def)
  then show "low 10 (push_bit j w AND 0x3ff)" unfolding z .
  show "low 23 (push_bit 13 (push_bit j w AND 0x3ff))" "unat (push_bit 13 (push_bit j w AND 0x3ff)) = (unat w * 2 ^ j - 1024) * 2 ^ 13"
    unfolding z [symmetric] using low_push [OF l, of 13] ua by simp_all
qed

lemma fields_low: "low 1 (drop_bit 31 u)" "low 8 (drop_bit 23 u AND mask 8)" "low 23 (u AND mask 23)" "low 16 h \<Longrightarrow> low 1 (drop_bit 15 h)"
  "low 5 (drop_bit 10 h AND mask 5)" "low 10 (h AND mask 10)"
  using unsigned_less [of u, where ?'a = nat]
  by (auto simp only: low_def unat_drop unat_and_mask) (auto simp: less_mult_imp_div_less)

text \<open>Widening and narrowing again gives the number back.\<close>

lemma exact_widen:
  assumes "low 16 h"
  shows "f32toF16Exact (f16toF32 h) = Some h"
proof -
  obtain s e m where h: "h = pack16 s e m" and s: "low 1 s" and e: "low 5 e" and m: "low 10 m"
    using unpack16 [of h] fields_low(4,5,6) [of h] assms by (metis low_bits low_def)
  obtain y where y: "y = push_bit 13 m" by simp
  have m13: "low 23 y" "drop_bit 13 y = m" "y AND mask 13 = 0"
    unfolding y using low_push [OF m, of 13] drop_push [OF m, of 13] by simp_all
  have m0: "y = 0 \<longleftrightarrow> m = 0" using m13(2) y by auto
  note w = widen_pack [OF s e m, folded y]
  consider "e = 31" | "e = 0" "m = 0" | "e = 0" "m \<noteq> 0" | "e \<noteq> 31" "e \<noteq> 0" by blast
  then show ?thesis
  proof cases
    case 1
    have "f32toF16Exact (pack32 s 255 y) = Some (pack16 s 31 m)"
      using narrow_pack [OF s _ m13(1), of 255, unfolded m13(2,3) m0] by (auto simp: low_def)
    then show ?thesis using w 1 h by simp
  next
    case 2
    have "f32toF16Exact (pack32 s 0 0) = Some (pack16 s 0 0)"
      using narrow_pack [OF s, of 0 0] by (simp add: low_def)
    then show ?thesis using w 2 h by simp
  next
    case 3
    have um: "0 < unat m" "unat m < 1024" using 3 m by (simp_all add: unat_gt_0 low_def)
    then obtain j where j: "j \<le> 10" "renorm 10 (-14) m = (-14 - int j, push_bit j m)" "1024 \<le> unat m * 2 ^ j" "unat m * 2 ^ j < 2048"
      using renorm_at [of m 10 "-14"] by auto
    obtain z where z: "z = push_bit j m AND 0x3ff" by simp
    let ?x = "push_bit 13 z"
    note x = unat_mantissa(2,3) [OF j(4,3), folded z]
    have full: "unat (0x800000 OR ?x) = unat m * 2 ^ (j + 13)" using leading [OF x(1)] x(2) j(3) by (simp add: power_add)
    have ee: "(word_of_int (-14 - int j + 127) :: u32) = of_nat (113 - j)"
      using j(1) by (simp add: of_nat_diff)
    have ue: "unat (of_nat (113 - j) :: u32) = 113 - j" by (simp add: unsigned_of_nat take_bit_nat_eq_self)
    have le: "low 8 (of_nat (113 - j) :: u32)" by (simp add: low_def ue)
    have sh: "126 - (113 - j) = j + 13" using j(1) by simp
    have "unat ((0x800000 OR ?x) AND mask (j + 13)) = 0" by (simp only: unat_and_mask full) simp
    then have a0: "(0x800000 OR ?x) AND mask (j + 13) = 0" by (simp only: unat_eq_0)
    have "unat (drop_bit (j + 13) (0x800000 OR ?x)) = unat m" by (simp only: unat_drop full) simp
    then have d0: "drop_bit (j + 13) (0x800000 OR ?x) = m" by (simp only: word_unat_eq_iff)
    have q: "(of_nat (113 - j) :: u32) \<noteq> 255" "(of_nat (113 - j) :: u32) \<noteq> 0"
      using ue j(1) by (auto simp only: word_unat_eq_iff) simp_all
    have "1 \<le> j" using um(2) j(3) by (cases j) simp_all
    then have rng: "113 \<le> 113 - j \<longleftrightarrow> False" "103 \<le> 113 - j \<longleftrightarrow> True" "113 - j < 113 \<longleftrightarrow> True" using j(1) by simp_all
    have "f32toF16Exact (pack32 s (of_nat (113 - j)) ?x) = Some (pack16 s 0 m)"
      unfolding narrow_pack [OF s le x(1)] ue sh a0 d0 rng by (simp only: q if_True if_False simp_thms)
    then show ?thesis using w 3 h j(2) ee z by simp
  next
    case 4
    have "unat e \<noteq> 31" using 4(1) by (auto simp: word_unat_eq_iff)
    moreover have "unat e < 32" using e by (simp add: low_def)
    ultimately have ue: "0 < unat e" "unat e < 31" using 4(2) by (simp_all add: unat_gt_0)
    have eq: "unat (e + 112) = unat e + 112" using ue unat_add_lem [of e 112] by simp
    then have "low 8 (e + 112)" "e + 112 \<noteq> 255" "e + 112 \<noteq> 0" using ue by (auto simp: low_def word_unat_eq_iff)
    then have "f32toF16Exact (pack32 s (e + 112) y) = Some (pack16 s e m)"
      using narrow_pack [OF s _ m13(1), of "e + 112"] ue by (simp add: eq m13(2,3))
    then show ?thesis using w 4 h by simp
  qed
qed

text \<open>What is narrowed is the widening of what it is narrowed to.\<close>

lemma widen_exact:
  assumes "f32toF16Exact u = Some h"
  shows "f16toF32 h = u \<and> low 16 h"
proof -
  obtain s e m where u: "u = pack32 s e m" and s: "low 1 s" and e: "low 8 e" and m: "low 23 m"
    using unpack32 [of u] fields_low(1,2,3) [of u] by metis
  have l10: "low 10 (drop_bit 13 w)" if "low 23 w" for w using that by (simp add: low_def unat_drop less_mult_imp_div_less)
  note n = narrow_pack [OF s e m, folded u]
  have l16: "low 16 (pack16 s q w)" if "low 5 q" "low 10 w" for q w
  proof -
    note b = s [unfolded low_def low_bits [symmetric], THEN bits_below] that [unfolded low_def low_bits [symmetric], THEN bits_below]
    have "pack16 s q w AND mask 16 = pack16 s q w"
      by (rule bit_word_eqI) (auto simp: pack16_def bit_simps dest: b)
    then show ?thesis by (simp only: low_def low_bits)
  qed
  consider (inf) "e = 255" "m = 0" "h = pack16 s 31 0"
    | (nan) "e = 255" "m AND mask 13 = 0" "h = pack16 s 31 (drop_bit 13 m)"
    | (zero) "e = 0" "m = 0" "h = pack16 s 0 0"
    | (normal) "113 \<le> unat e \<and> unat e \<le> 142" "m AND mask 13 = 0" "h = pack16 s (e - 112) (drop_bit 13 m)"
    | (sub) "103 \<le> unat e" "unat e < 113" "(0x800000 OR m) AND mask (126 - unat e) = 0" "h = pack16 s 0 (drop_bit (126 - unat e) (0x800000 OR m))"
    using assms [unfolded n] by (auto simp only: option.inject option.distinct split: if_split_asm)
  then show ?thesis
  proof cases
    case inf
    then show ?thesis using widen_pack [OF s, of 31 0] l16 [of 31 0] u by (simp add: low_def)
  next
    case nan
    then show ?thesis using widen_pack [OF s _ l10 [OF m], of 31] l16 [of 31 "drop_bit 13 m"] l10 [OF m] push_drop [OF nan(2)] u by (simp add: low_def)
  next
    case zero
    then show ?thesis using widen_pack [OF s, of 0 0] l16 [of 0 0] u by (simp add: low_def)
  next
    case normal
    have ue: "unat (e - 112) = unat e - 112" using normal(1) unat_sub [of 112 e] by (simp add: word_le_nat_alt)
    then have "low 5 (e - 112)" "e - 112 \<noteq> 31" "e - 112 \<noteq> 0" using normal(1) by (auto simp: low_def word_unat_eq_iff)
    then show ?thesis
      using widen_pack [OF s _ l10 [OF m], of "e - 112"] l16 [of "e - 112" "drop_bit 13 m"] l10 [OF m] push_drop [OF normal(2)] u normal(3) by simp
  next
    case sub
    define j where "j = 113 - unat e"
    define x where "x = drop_bit (j + 13) (0x800000 OR m)"
    have j: "1 \<le> j" "j \<le> 10" "126 - unat e = j + 13" using sub(1,2) by (auto simp: j_def)
    have ufull: "unat (0x800000 OR m) = 2 ^ 23 + unat m" by (rule leading [OF m])
    have "push_bit (j + 13) x = 0x800000 OR m" unfolding x_def using push_drop sub(3) j(3) by metis
    moreover have "unat x * 2 ^ (j + 13) \<le> unat (0x800000 OR m)" unfolding x_def unat_drop by simp
    ultimately have ux: "unat x * 2 ^ (j + 13) = 2 ^ 23 + unat m"
      using unat_push [of x "j + 13"] ufull m by (simp add: low_def)
    then have ux': "1024 \<le> unat x * 2 ^ j" "unat x * 2 ^ j < 2048" "unat m = (unat x * 2 ^ j - 1024) * 2 ^ 13"
      using m by (simp_all add: low_def power_add)
    have x2: "2 * unat x \<le> unat x * 2 ^ j" using j(1) by (cases j) auto
    then have "2 * unat x < 2048" "unat x \<noteq> 0" using ux'(1,2) by (linarith, intro notI) simp
    then have lx: "low 10 x" "x \<noteq> 0" "1 \<le> unat x" by (auto simp: low_def)
    then obtain k where k: "k \<le> 10" "renorm 10 (-14) x = (-14 - int k, push_bit k x)" "1024 \<le> unat x * 2 ^ k" "unat x * 2 ^ k < 2048"
      using renorm_at [of x 10 "-14"] lx by (auto simp: low_def)
    have "k = j"
    proof (rule ccontr)
      assume "k \<noteq> j"
      then have "Suc k \<le> j \<or> Suc j \<le> k" by linarith
      then have "unat x * 2 ^ Suc k \<le> unat x * 2 ^ j \<or> unat x * 2 ^ Suc j \<le> unat x * 2 ^ k"
        by (metis mult_le_mono2 one_le_numeral power_increasing)
      moreover have "unat x * 2 ^ Suc j = 2 * (unat x * 2 ^ j)" "unat x * 2 ^ Suc k = 2 * (unat x * 2 ^ k)" by simp_all
      ultimately show False using k(3,4) ux'(1,2) by linarith
    qed
    moreover have "(word_of_int (-14 - int j + 127) :: u32) = e"
    proof -
      have "-14 - int j + 127 = int (unat e)" using sub(1,2) by (simp add: j_def)
      then show ?thesis by simp
    qed
    moreover have "push_bit 13 (push_bit j x AND 0x3ff) = m"
      using unat_mantissa(3) [OF ux'(2,1)] ux'(3) by (simp only: word_unat_eq_iff)
    ultimately have "f16toF32 (pack16 s 0 x) = pack32 s e m"
      using widen_pack [OF s _ lx(1), of 0] lx(2) k(2) by (simp add: low_def)
    then show ?thesis using sub(4) j(3) u l16 [of 0 x] lx(1) by (simp add: x_def low_def)
  qed
qed

end
