(* ===== verification/Containers.thy ===== *)
theory Containers
  imports Json Io
begin

text \<open>
  Weight files as runs of segments, \<open>tensors/lib/containers.mjs\<close>: filling the gaps between payloads
  with literals, safetensors headers and GGUF headers. \<open>range(url, a, b)\<close> is a parameter: what the
  source answers when it is asked for bytes \<open>a\<close> to \<open>b\<close>. A payload segment is known by its position
  in the list of payloads, which stands for the identity of the object in the code's map.
\<close>

subsection \<open>Segments\<close>

datatype segKind = Literal | Tensor | Storage

record seg =
  s_kind :: segKind
  s_off :: int
  s_len :: int

record sub =
  u_o :: int
  u_stride :: "int list option"
  u_itemsize :: int

text \<open>\<open>t_seg\<close> is the payload position before \<open>finish\<close> and the segment index, or -1, after it.\<close>

record tensor =
  t_name :: string
  t_dtype :: "json option"
  t_shape :: "json option"
  t_len :: int
  t_seg :: int
  t_sub :: "sub option"

record plan =
  p_container :: string
  p_segments :: "seg list"
  p_tensors :: "tensor list"

definition overlapping :: "int \<Rightarrow> js_error" where
  "overlapping off = Error (''overlapping payload at '' @ numText off)"

fun coverFrom :: "int \<Rightarrow> (nat \<times> seg) list \<Rightarrow> int \<Rightarrow> (nat option \<times> seg) list result" where
  "coverFrom pos [] sz =
     (if pos > sz then Inl (Error ''payload beyond end of file'')
      else if pos < sz then Inr [(None, \<lparr>s_kind = Literal, s_off = pos, s_len = sz - pos\<rparr>)] else Inr [])"
| "coverFrom pos ((i, p) # ps) sz =
     (if s_off p < pos then Inl (overlapping (s_off p))
      else andThen (coverFrom (s_off p + s_len p) ps sz) (\<lambda>segs.
        Inr ((if s_off p > pos then [(None, \<lparr>s_kind = Literal, s_off = pos, s_len = s_off p - pos\<rparr>)] else [])
             @ (Some i, p) # segs)))"

definition cover :: "(nat \<times> seg) list \<Rightarrow> int \<Rightarrow> (nat option \<times> seg) list result" where
  "cover payload sz = coverFrom 0 (sort_key (\<lambda>p. s_off (snd p)) payload) sz"

fun indexIn :: "nat \<Rightarrow> (nat option \<times> seg) list \<Rightarrow> int \<Rightarrow> int" where
  "indexIn i [] k = -1"
| "indexIn i ((j, s) # segs) k = (if j = Some i then k else indexIn i segs (k + 1))"

definition finish :: "string \<Rightarrow> seg list \<Rightarrow> tensor list \<Rightarrow> int \<Rightarrow> plan result" where
  "finish container payload tensors sz =
     andThen (cover (filter (\<lambda>p. s_len (snd p) > 0) (enumerate 0 payload)) sz) (\<lambda>segs.
       Inr \<lparr>p_container = container, p_segments = map snd segs,
            p_tensors = map (\<lambda>t. t\<lparr>t_seg := if s_len (payload ! nat (t_seg t)) > 0 then indexIn (nat (t_seg t)) segs 0 else -1\<rparr>) tensors\<rparr>)"

subsection \<open>safetensors\<close>

definition readUInt :: "nat \<Rightarrow> bytes \<Rightarrow> nat \<Rightarrow> nat result" where
  "readUInt n buf i = (if i + n \<le> length buf
     then Inr (foldr (\<lambda>b v. unat b + 256 * v) (subarray buf i (i + n)) 0)
     else Inl (RangeError ''ERR_OUT_OF_RANGE''))"

text \<open>\<open>Object.entries\<close>.\<close>

definition objectEntries :: "json \<Rightarrow> (string \<times> json) list result" where
  "objectEntries v = (case v of
     JObj kvs \<Rightarrow> Inr kvs
   | JNull \<Rightarrow> Inl TypeError
   | JArr vs \<Rightarrow> Inr (map (\<lambda>(i, x). (decimal i, x)) (enumerate 0 vs))
   | JStr s \<Rightarrow> Inr (map (\<lambda>(i, c). (decimal i, JStr [c])) (enumerate 0 s))
   | _ \<Rightarrow> Inr [])"

text \<open>\<open>const [a, b] = v.data_offsets\<close>, where both are integers.\<close>

definition dataOffsets :: "json \<Rightarrow> (int \<times> int) result" where
  "dataOffsets v = (if v = JNull then Inl TypeError else case getProp ''data_offsets'' v of
     None \<Rightarrow> Inl TypeError
   | Some JNull \<Rightarrow> Inl TypeError
   | Some (JArr (JNum a # JNum b # _)) \<Rightarrow> Inr (a, b)
   | Some _ \<Rightarrow> Inl Unmodelled)"

fun stTensors :: "int \<Rightarrow> (string \<times> json) list \<Rightarrow> seg list \<times> tensor list \<Rightarrow> (seg list \<times> tensor list) result" where
  "stTensors base [] st = Inr st"
| "stTensors base ((name, v) # kvs) (payload, tensors) =
     (if name = ''__metadata__'' then stTensors base kvs (payload, tensors)
      else andThen (dataOffsets v) (\<lambda>(a, b). stTensors base kvs
        (payload @ [\<lparr>s_kind = Tensor, s_off = base + a, s_len = b - a\<rparr>],
         tensors @ [\<lparr>t_name = name, t_dtype = getProp ''dtype'' v, t_shape = getProp ''shape'' v,
           t_len = b - a, t_seg = int (length payload), t_sub = None\<rparr>])))"

definition parseText :: "bytes \<Rightarrow> json result" where
  "parseText bs = (case parse (decodeText bs) of Some v \<Rightarrow> Inr v | None \<Rightarrow> Inl SyntaxError)"

type_synonym 'w source = "nat \<Rightarrow> nat \<Rightarrow> ('w, bytes) io"

text \<open>\<open>range(url, a, b)\<close> asks for bytes \<open>a\<close> to \<open>b\<close>; the parameter takes the end after \<open>b\<close>.\<close>

definition safetensors :: "'w source \<Rightarrow> nat \<Rightarrow> ('w, plan) io" where
  "safetensors rng sz =
     bind (rng 0 (min sz (2 ^ 20))) (\<lambda>head0.
     bind (lift (readUInt 8 head0 0)) (\<lambda>n.
     bind (if 8 + n > length head0 then bind (rng (length head0) (8 + n)) (\<lambda>more. ret (head0 @ more)) else ret head0) (\<lambda>head.
     lift (andThen (parseText (subarray head 8 (8 + n))) (\<lambda>hdr.
       andThen (objectEntries hdr) (\<lambda>kvs.
       andThen (stTensors (int (8 + n)) kvs ([], [])) (\<lambda>(payload, tensors).
       finish ''safetensors'' payload tensors (int sz))))))))"

subsection \<open>GGUF\<close>

text \<open>The ggml types by number: name, elements per block, bytes per block.\<close>

definition GGML :: "nat \<Rightarrow> (string \<times> nat \<times> nat) option" where
  "GGML = map_of [(0, (''F32'', 1, 4)), (1, (''F16'', 1, 2)), (2, (''Q4_0'', 32, 18)), (3, (''Q4_1'', 32, 20)),
     (6, (''Q5_0'', 32, 22)), (7, (''Q5_1'', 32, 24)), (8, (''Q8_0'', 32, 34)), (9, (''Q8_1'', 32, 36)),
     (10, (''Q2_K'', 256, 84)), (11, (''Q3_K'', 256, 110)), (12, (''Q4_K'', 256, 144)), (13, (''Q5_K'', 256, 176)),
     (14, (''Q6_K'', 256, 210)), (15, (''Q8_K'', 256, 292)), (16, (''IQ2_XXS'', 256, 66)), (17, (''IQ2_XS'', 256, 74)),
     (18, (''IQ3_XXS'', 256, 98)), (19, (''IQ1_S'', 256, 50)), (20, (''IQ4_NL'', 32, 18)), (21, (''IQ3_S'', 256, 110)),
     (22, (''IQ2_S'', 256, 82)), (23, (''IQ4_XS'', 256, 136)), (24, (''I8'', 1, 1)), (25, (''I16'', 1, 2)),
     (26, (''I32'', 1, 4)), (27, (''I64'', 1, 8)), (28, (''F64'', 1, 8)), (29, (''IQ1_M'', 256, 56)), (30, (''BF16'', 1, 2)),
     (34, (''TQ1_0'', 256, 54)), (35, (''TQ2_0'', 256, 66)), (39, (''MXFP4'', 32, 17))]"

definition SIZES :: "nat \<Rightarrow> nat option" where
  "SIZES = map_of [(0, 1), (1, 1), (2, 2), (3, 2), (4, 4), (5, 4), (6, 4), (7, 1), (10, 8), (11, 8), (12, 8)]"

text \<open>A reader takes the buffer and the position and gives a value and the new position.\<close>

type_synonym 'a reader = "bytes \<Rightarrow> nat \<Rightarrow> ('a \<times> nat) result"

definition truncated :: js_error where
  "truncated = RangeError ''gguf header truncated''"

definition need :: "nat \<Rightarrow> bytes \<Rightarrow> nat \<Rightarrow> unit result" where
  "need n buf i = (if i + n > length buf then Inl truncated else Inr ())"

definition takeInt :: "nat \<Rightarrow> nat reader" where
  "takeInt n buf i = andThen (need n buf i) (\<lambda>_. andThen (readUInt n buf i) (\<lambda>v. Inr (v, i + n)))"

definition takeStr :: "string reader" where
  "takeStr buf i = andThen (takeInt 8 buf i) (\<lambda>(n, i1). andThen (need n buf i1) (\<lambda>_.
     Inr (decodeText (subarray buf i1 (i1 + n)), i1 + n)))"

text \<open>A loop of \<open>n\<close> reads.\<close>

fun takeMany :: "nat \<Rightarrow> 'a reader \<Rightarrow> 'a list reader" where
  "takeMany 0 r buf i = Inr ([], i)"
| "takeMany (Suc n) r buf i = andThen (r buf i) (\<lambda>(x, i1). andThen (takeMany n r buf i1) (\<lambda>(xs, i2). Inr (x # xs, i2)))"

datatype ggufValue = GText string | GNumber nat | GNull

definition takeArray :: "ggufValue reader" where
  "takeArray buf i = andThen (takeInt 4 buf i) (\<lambda>(et, i1). andThen (takeInt 8 buf i1) (\<lambda>(n, i2).
     if et = 8 then andThen (takeMany n takeStr buf i2) (\<lambda>(_, i3). Inr (GNull, i3))
     else case SIZES et of
       None \<Rightarrow> Inl Unmodelled
     | Some w \<Rightarrow> andThen (need (w * n) buf i2) (\<lambda>_. Inr (GNull, i2 + w * n))))"

definition takeValue :: "nat \<Rightarrow> ggufValue reader" where
  "takeValue t buf i = (if t = 8 then andThen (takeStr buf i) (\<lambda>(s, i1). Inr (GText s, i1))
     else if t = 9 then takeArray buf i
     else case SIZES t of
       None \<Rightarrow> Inl (Error (''gguf value type '' @ decimal t))
     | Some w \<Rightarrow> andThen (need w buf i) (\<lambda>_.
         andThen (readUInt (if w = 4 \<or> w = 8 then w else 1) buf i) (\<lambda>v. Inr (GNumber v, i + w))))"

definition takeKv :: "(string \<times> ggufValue) reader" where
  "takeKv buf i = andThen (takeStr buf i) (\<lambda>(key, i1). andThen (takeInt 4 buf i1) (\<lambda>(t, i2).
     andThen (takeValue t buf i2) (\<lambda>(v, i3). Inr ((key, v), i3))))"

record ggufInfo =
  g_name :: string
  g_dims :: "nat list"
  g_type :: nat
  g_off :: nat

definition takeInfo :: "ggufInfo reader" where
  "takeInfo buf i = andThen (takeStr buf i) (\<lambda>(name, i1). andThen (takeInt 4 buf i1) (\<lambda>(nd, i2).
     andThen (takeMany nd (takeInt 8) buf i2) (\<lambda>(dims, i3). andThen (takeInt 4 buf i3) (\<lambda>(type, i4).
     andThen (takeInt 8 buf i4) (\<lambda>(off, i5). Inr (\<lparr>g_name = name, g_dims = dims, g_type = type, g_off = off\<rparr>, i5))))))"

definition alignOf :: "(string \<times> ggufValue) list \<Rightarrow> nat result" where
  "alignOf kvs = (case filter (\<lambda>kv. fst kv = ''general.alignment'') kvs of
     [] \<Rightarrow> Inr 32
   | ms \<Rightarrow> (case snd (last ms) of GNumber n \<Rightarrow> if n = 0 then Inl Unmodelled else Inr n | _ \<Rightarrow> Inl Unmodelled))"

fun ggufTensors :: "nat \<Rightarrow> ggufInfo list \<Rightarrow> seg list \<times> tensor list \<Rightarrow> (seg list \<times> tensor list) result" where
  "ggufTensors start [] st = Inr st"
| "ggufTensors start (t # ts) (payload, tensors) =
     (case GGML (g_type t) of
        None \<Rightarrow> Inl (Error (''gguf tensor '' @ g_name t @ '': unknown ggml type '' @ decimal (g_type t)))
      | Some (dtype, blk, tsz) \<Rightarrow> (let n = prod_list (g_dims t) in
          if (n * tsz) mod blk \<noteq> 0
          then Inl (Error (''gguf tensor '' @ g_name t @ '': '' @ decimal n @ '' elements not a multiple of '' @ decimal blk))
          else (let len = int (n * tsz div blk) in ggufTensors start ts
            (payload @ [\<lparr>s_kind = Tensor, s_off = int (start + g_off t), s_len = len\<rparr>],
             tensors @ [\<lparr>t_name = g_name t, t_dtype = Some (JStr dtype), t_shape = Some (JArr (map (\<lambda>d. JNum (int d)) (g_dims t))),
               t_len = len, t_seg = int (length payload), t_sub = None\<rparr>]))))"

definition ggufParse :: "bytes \<Rightarrow> nat \<Rightarrow> plan result" where
  "ggufParse buf sz =
     (if take 4 buf \<noteq> [0x47, 0x47, 0x55, 0x46] then Inl (Error ''not gguf'')
      else andThen (takeInt 4 buf 4) (\<lambda>(version, i1).
        if version < 2 then Inl (Error (''gguf v'' @ decimal version))
        else andThen (takeInt 8 buf i1) (\<lambda>(nt, i2). andThen (takeInt 8 buf i2) (\<lambda>(nkv, i3).
        andThen (takeMany nkv takeKv buf i3) (\<lambda>(kvs, i4).
        andThen (takeMany nt takeInfo buf i4) (\<lambda>(infos, i5).
        andThen (alignOf kvs) (\<lambda>align.
        andThen (ggufTensors ((i5 + align - 1) div align * align) infos ([], [])) (\<lambda>(payload, tensors).
        finish ''gguf'' payload tensors (int sz)))))))))"

text \<open>
  The loop of \<open>gguf\<close>, from 1 MiB up by fours while the header is cut short. The last size tried is
  above \<open>2 ^ 28\<close>, so fifteen turns are more than it takes.
\<close>

fun ggufFrom :: "nat \<Rightarrow> 'w source \<Rightarrow> nat \<Rightarrow> nat \<Rightarrow> ('w, plan) io" where
  "ggufFrom 0 rng sz want = (\<lambda>w. None)"
| "ggufFrom (Suc fuel) rng sz want = bind (rng 0 (min sz want)) (\<lambda>buf.
     case ggufParse buf sz of
       Inr p \<Rightarrow> ret p
     | Inl (RangeError m) \<Rightarrow> if want \<ge> sz \<or> want > 2 ^ 28 then throw (RangeError m) else ggufFrom fuel rng sz (want * 4)
     | Inl e \<Rightarrow> throw e)"

definition gguf :: "'w source \<Rightarrow> nat \<Rightarrow> ('w, plan) io" where
  "gguf rng sz = ggufFrom 15 rng sz (2 ^ 20)"

subsection \<open>A plan covers the file\<close>

text \<open>Segments that follow each other from one offset to another.\<close>

fun tiles :: "int \<Rightarrow> seg list \<Rightarrow> int \<Rightarrow> bool" where
  "tiles pos [] sz \<longleftrightarrow> pos = sz"
| "tiles pos (s # segs) sz \<longleftrightarrow> s_off s = pos \<and> s_len s > 0 \<and> tiles (pos + s_len s) segs sz"

lemma coverFrom_tiles:
  "coverFrom pos ps sz = Inr segs \<Longrightarrow> list_all (\<lambda>p. s_len (snd p) > 0) ps \<Longrightarrow> tiles pos (map snd segs) sz"
  by (induction pos ps sz arbitrary: segs rule: coverFrom.induct) (auto simp: andThen_Inr_iff split: if_splits)

lemma coverFrom_payload:
  "coverFrom pos ps sz = Inr segs \<Longrightarrow> [(i, s). (Some i, s) \<leftarrow> segs] = ps"
  by (induction pos ps sz arbitrary: segs rule: coverFrom.induct) (auto simp: andThen_Inr_iff split: if_splits)

lemma cover_tiles:
  assumes "cover (filter (\<lambda>p. s_len (snd p) > 0) ps) sz = Inr segs"
  shows "tiles 0 (map snd segs) sz" and "mset [(i, s). (Some i, s) \<leftarrow> segs] = mset (filter (\<lambda>p. s_len (snd p) > 0) ps)"
proof -
  show "tiles 0 (map snd segs) sz"
    by (rule coverFrom_tiles [OF assms [unfolded cover_def]]) (auto simp: list_all_iff)
  show "mset [(i, s). (Some i, s) \<leftarrow> segs] = mset (filter (\<lambda>p. s_len (snd p) > 0) ps)"
    using coverFrom_payload [OF assms [unfolded cover_def]] by simp
qed

definition segBytes :: "bytes \<Rightarrow> seg \<Rightarrow> bytes" where
  "segBytes file s = subarray file (nat (s_off s)) (nat (s_off s + s_len s))"

lemma tiles_le: "tiles pos segs sz \<Longrightarrow> pos \<le> sz"
  by (induction pos segs sz rule: tiles.induct) auto

lemma tiles_pos: "tiles pos segs sz \<Longrightarrow> list_all (\<lambda>s. s_len s > 0) segs"
  by (induction pos segs sz rule: tiles.induct) auto

lemma tiles_bytes: "tiles pos segs (int (length file)) \<Longrightarrow> 0 \<le> pos \<Longrightarrow> concat (map (segBytes file) segs) = drop (nat pos) file"
proof (induction segs arbitrary: pos)
  case (Cons s segs)
  then have s: "s_off s = pos" "s_len s > 0" and t: "tiles (pos + s_len s) segs (int (length file))" by auto
  have "pos + s_len s \<le> int (length file)" using tiles_le [OF t] .
  then have "drop (nat pos) file = subarray file (nat pos) (nat (pos + s_len s)) @ drop (nat (pos + s_len s)) file"
    using Cons.prems(2) s(2) by (simp add: subarray_def nat_add_distrib)
      (metis append_take_drop_id drop_drop add.commute)
  moreover have "concat (map (segBytes file) segs) = drop (nat (pos + s_len s)) file"
    using Cons.IH [OF t] Cons.prems(2) s(2) by simp
  ultimately show ?case by (simp add: segBytes_def [of "file" s] s)
qed simp

lemma indexIn_hit:
  "(Some i, s) \<in> set segs \<Longrightarrow> \<exists>k < length segs. indexIn i segs j = j + int k \<and> fst (segs ! k) = Some i"
proof (induction i segs j rule: indexIn.induct)
  case (2 i j' s' segs j)
  show ?case
  proof (cases "j' = Some i")
    case False
    with "2.prems" "2.IH" obtain k where "k < length segs" "indexIn i segs (j + 1) = j + 1 + int k" "fst (segs ! k) = Some i" by auto
    then show ?thesis using False by (intro exI [of _ "Suc k"]) simp
  qed (auto intro: exI [of _ 0])
qed simp

lemma mset_comprehension: "set [(i, s). (Some i, s) \<leftarrow> segs] = {(i, s). (Some i, s) \<in> set segs}"
  by (auto split: option.splits)

lemma finish_covers:
  assumes "finish container payload tensors sz = Inr plan"
  shows "tiles 0 (p_segments plan) sz"
    and "\<forall>k < length tensors. let t = tensors ! k; t' = p_tensors plan ! k in
       nat (t_seg t) < length payload \<longrightarrow> t_name t' = t_name t \<and>
       (if s_len (payload ! nat (t_seg t)) > 0
        then nat (t_seg t') < length (p_segments plan) \<and> 0 \<le> t_seg t' \<and> p_segments plan ! nat (t_seg t') = payload ! nat (t_seg t)
        else t_seg t' = -1)"
proof -
  from assms obtain segs where
    c: "cover (filter (\<lambda>p. s_len (snd p) > 0) (enumerate 0 payload)) sz = Inr segs" and
    plan: "p_segments plan = map snd segs" "p_tensors plan = map (\<lambda>t. t\<lparr>t_seg := if s_len (payload ! nat (t_seg t)) > 0
      then indexIn (nat (t_seg t)) segs 0 else -1\<rparr>) tensors"
    by (auto simp: finish_def andThen_Inr_iff)
  show "tiles 0 (p_segments plan) sz" using cover_tiles(1) [OF c] plan by simp
  have mem: "(Some i, s) \<in> set segs \<longleftrightarrow> i < length payload \<and> s = payload ! i \<and> s_len s > 0" for i s
    using mset_eq_setD [OF cover_tiles(2) [OF c]] unfolding mset_comprehension
    by (auto simp: set_eq_iff in_set_enumerate_eq)
  have "\<exists>n < length segs. indexIn i segs 0 = int n \<and> snd (segs ! n) = payload ! i"
    if i: "i < length payload" "s_len (payload ! i) > 0" for i
  proof -
    obtain n where n: "n < length segs" "indexIn i segs 0 = int n" "fst (segs ! n) = Some i"
      using indexIn_hit [of i "payload ! i" segs 0] mem i by auto
    then have "(Some i, snd (segs ! n)) \<in> set segs" by (metis nth_mem prod.collapse)
    with n show ?thesis using mem by auto
  qed
  then show "\<forall>k < length tensors. let t = tensors ! k; t' = p_tensors plan ! k in
       nat (t_seg t) < length payload \<longrightarrow> t_name t' = t_name t \<and>
       (if s_len (payload ! nat (t_seg t)) > 0
        then nat (t_seg t') < length (p_segments plan) \<and> 0 \<le> t_seg t' \<and> p_segments plan ! nat (t_seg t') = payload ! nat (t_seg t)
        else t_seg t' = -1)"
    unfolding plan Let_def by fastforce
qed

end
