(* ===== verification/Pickle.thy ===== *)
theory Pickle
  imports Containers "HOL-Library.AList"
begin

text \<open>
  The restricted pickle reader, \<open>tensors/lib/pickle.mjs\<close>: a stack machine over an explicit heap,
  because lists, dictionaries and tensors are shared through the memo and changed in place. A value
  on the stack is a primitive, the mark, an allowed global, or the address of an object. Numbers are
  integers; a float keeps its eight bytes. \<open>stack.pop()\<close> of an empty stack gives \<open>undefined\<close>, as in
  the code. The loop ends because every turn moves the position forward.
\<close>

subsection \<open>Values\<close>

definition STORAGE :: "string \<Rightarrow> (string \<times> nat) option" where
  "STORAGE = map_of [(''FloatStorage'', (''F32'', 4)), (''HalfStorage'', (''F16'', 2)), (''BFloat16Storage'', (''BF16'', 2)),
     (''DoubleStorage'', (''F64'', 8)), (''LongStorage'', (''I64'', 8)), (''IntStorage'', (''I32'', 4)), (''ShortStorage'', (''I16'', 2)),
     (''CharStorage'', (''I8'', 1)), (''ByteStorage'', (''U8'', 1)), (''BoolStorage'', (''BOOL'', 1))]"

text \<open>The allowlist: four functions, and the storage classes as type markers.\<close>

datatype global = RebuildTensor | RebuildParameter | OrderedDict | TorchSize | StorageType string

definition STORAGE_NAMES :: "string list" where
  "STORAGE_NAMES = [''FloatStorage'', ''HalfStorage'', ''BFloat16Storage'', ''DoubleStorage'', ''LongStorage'', ''IntStorage'',
     ''ShortStorage'', ''CharStorage'', ''ByteStorage'', ''BoolStorage'']"

definition ALLOW :: "(string \<times> global) list" where
  "ALLOW = [(''torch._utils._rebuild_tensor_v2'', RebuildTensor), (''torch._utils._rebuild_parameter'', RebuildParameter),
     (''collections.OrderedDict'', OrderedDict), (''torch.Size'', TorchSize)]
     @ map (\<lambda>s. (''torch.'' @ s, StorageType s)) STORAGE_NAMES"

datatype pval =
    Mark | Undef | PNone | PBool bool
  | PNum int | PBig int | PFloat bytes | PStr string
  | PGlobal global | PRef nat

record storageRef =
  r_key :: string
  r_dtype :: string
  r_itemsize :: nat
  r_numel :: "int option"

text \<open>A tensor record: numbers that do not read as one are \<open>None\<close> (\<open>NaN\<close>).\<close>

record tensorRec =
  v_storage :: storageRef
  v_offset :: "int option"
  v_size :: "int option list"
  v_stride :: "int option list"

datatype pobj =
    PList "pval list"
  | PMap "(pval \<times> pval) list"
  | POrdered "(pval \<times> pval) list"
  | PBytes bytes
  | PStorage storageRef
  | PTensor tensorRec

record machine =
  m_stack :: "pval list"
  m_memo :: "(nat \<times> pval) list"
  m_heap :: "pobj list"
  m_used :: "string list"

text \<open>The stack grows at its end, as the array does.\<close>

definition pushV :: "pval \<Rightarrow> machine \<Rightarrow> machine" where
  "pushV v m = m\<lparr>m_stack := m_stack m @ [v]\<rparr>"

definition popV :: "machine \<Rightarrow> pval \<times> machine" where
  "popV m = (if m_stack m = [] then (Undef, m) else (last (m_stack m), m\<lparr>m_stack := butlast (m_stack m)\<rparr>))"

definition topV :: "machine \<Rightarrow> pval" where
  "topV m = (if m_stack m = [] then Undef else last (m_stack m))"

definition alloc :: "pobj \<Rightarrow> machine \<Rightarrow> pval \<times> machine" where
  "alloc x m = (PRef (length (m_heap m)), m\<lparr>m_heap := m_heap m @ [x]\<rparr>)"

definition pushNew :: "pobj \<Rightarrow> machine \<Rightarrow> machine" where
  "pushNew x m = (case alloc x m of (v, m') \<Rightarrow> pushV v m')"

definition obj :: "machine \<Rightarrow> pval \<Rightarrow> pobj option" where
  "obj m v = (case v of PRef a \<Rightarrow> if a < length (m_heap m) then Some (m_heap m ! a) else None | _ \<Rightarrow> None)"

definition setObj :: "pval \<Rightarrow> pobj \<Rightarrow> machine \<Rightarrow> machine" where
  "setObj v x m = (case v of PRef a \<Rightarrow> m\<lparr>m_heap := (m_heap m)[a := x]\<rparr> | _ \<Rightarrow> m)"

text \<open>\<open>popMark\<close>: what lies above the last mark, which goes too.\<close>

definition popMark :: "machine \<Rightarrow> (pval list \<times> machine) result" where
  "popMark m = (if Mark \<notin> set (m_stack m) then Inl (Error ''no mark'')
     else let above = rev (takeWhile (\<lambda>v. v \<noteq> Mark) (rev (m_stack m)))
          in Inr (above, m\<lparr>m_stack := take (length (m_stack m) - length above - 1) (m_stack m)\<rparr>))"

text \<open>\<open>Map.set\<close>: an equal key keeps its place.\<close>

fun mapSet :: "(pval \<times> pval) list \<Rightarrow> pval \<Rightarrow> pval \<Rightarrow> (pval \<times> pval) list" where
  "mapSet [] k v = [(k, v)]"
| "mapSet ((k', v') # kvs) k v = (if k' = k then (k, v) # kvs else (k', v') # mapSet kvs k v)"

definition setitem :: "pval \<Rightarrow> pval \<Rightarrow> pval \<Rightarrow> machine \<Rightarrow> machine result" where
  "setitem d k v m = (case obj m d of
     Some (POrdered kvs) \<Rightarrow> Inr (setObj d (POrdered (mapSet kvs k v)) m)
   | Some (PMap kvs) \<Rightarrow> Inr (setObj d (PMap (mapSet kvs k v)) m)
   | _ \<Rightarrow> Inl (Error ''setitem on non-dict''))"

text \<open>\<open>for (k = 0; k < items.length; k += 2)\<close>: an odd item out pairs with \<open>undefined\<close>.\<close>

fun pairs :: "pval list \<Rightarrow> (pval \<times> pval) list" where
  "pairs [] = []"
| "pairs [k] = [(k, Undef)]"
| "pairs (k # v # items) = (k, v) # pairs items"

fun setitems :: "pval \<Rightarrow> (pval \<times> pval) list \<Rightarrow> machine \<Rightarrow> machine result" where
  "setitems d [] m = Inr m"
| "setitems d ((k, v) # kvs) m = andThen (setitem d k v m) (setitems d kvs)"

text \<open>Text of a value in a template string; an array reads as its elements joined by commas.\<close>

fun textOf :: "nat \<Rightarrow> pobj list \<Rightarrow> pval \<Rightarrow> string" where
  "textOf 0 heap v = []"
| "textOf (Suc fuel) heap v = (case v of
     PStr s \<Rightarrow> s | PNum i \<Rightarrow> numText i | PBig i \<Rightarrow> numText i | PBool b \<Rightarrow> (if b then ''true'' else ''false'')
   | PNone \<Rightarrow> ''null'' | Undef \<Rightarrow> ''undefined''
   | PRef a \<Rightarrow> (if a < length heap then (case heap ! a of
       PList vs \<Rightarrow> join '','' (map (\<lambda>x. if x = PNone \<or> x = Undef then [] else textOf fuel heap x) vs)
     | PBytes bs \<Rightarrow> decodeText bs
     | PMap _ \<Rightarrow> ''[object Map]'' | _ \<Rightarrow> ''[object Object]'') else [])
   | _ \<Rightarrow> ''?'')"

declare textOf.simps [simp del]

definition refusedGlobal :: "string \<Rightarrow> js_error" where
  "refusedGlobal k = Error (''refused global '' @ k)"

definition findGlobal :: "string \<Rightarrow> machine \<Rightarrow> (pval \<times> machine) result" where
  "findGlobal k m = (case map_of ALLOW k of
     None \<Rightarrow> Inl (refusedGlobal k)
   | Some g \<Rightarrow> Inr (PGlobal g, m\<lparr>m_used := m_used m @ [k]\<rparr>))"

text \<open>\<open>Number(v)\<close>.\<close>

definition numberOf :: "machine \<Rightarrow> pval \<Rightarrow> int option" where
  "numberOf m v = (case v of
     PNum i \<Rightarrow> Some i | PBig i \<Rightarrow> Some i | PBool b \<Rightarrow> Some (if b then 1 else 0) | PNone \<Rightarrow> Some 0
   | PStr s \<Rightarrow> numberText s | Undef \<Rightarrow> None
   | PRef a \<Rightarrow> (case obj m v of Some (PList vs) \<Rightarrow> numberText (textOf (Suc (length (m_heap m))) (m_heap m) v) | _ \<Rightarrow> None)
   | _ \<Rightarrow> None)"

definition numbers :: "machine \<Rightarrow> pval \<Rightarrow> int option list result" where
  "numbers m v = (case obj m v of
     Some (PList vs) \<Rightarrow> Inr (map (numberOf m) vs)
   | Some (PBytes bs) \<Rightarrow> Inr (map (\<lambda>b. Some (int (unat b))) bs)
   | _ \<Rightarrow> Inl TypeError)"

definition arg :: "pval list \<Rightarrow> nat \<Rightarrow> pval" where
  "arg args i = (if i < length args then args ! i else Undef)"

text \<open>\<open>fn(...args)\<close> for a function of the allowlist.\<close>

definition applyGlobal :: "global \<Rightarrow> pval list \<Rightarrow> machine \<Rightarrow> (pval \<times> machine) result" where
  "applyGlobal g args m = (case g of
     RebuildTensor \<Rightarrow> (case obj m (arg args 0) of
       Some (PStorage s) \<Rightarrow> andThen (numbers m (arg args 2)) (\<lambda>sizes. andThen (numbers m (arg args 3)) (\<lambda>strides.
         Inr (alloc (PTensor \<lparr>v_storage = s, v_offset = numberOf m (arg args 1), v_size = sizes, v_stride = strides\<rparr>) m)))
     | _ \<Rightarrow> Inl (Error ''rebuild without a storage ref''))
   | RebuildParameter \<Rightarrow> Inr (arg args 0, m)
   | OrderedDict \<Rightarrow> Inr (alloc (POrdered []) m)
   | TorchSize \<Rightarrow> Inr (arg args 0, m)
   | StorageType s \<Rightarrow> Inl (Error ''REDUCE on a non-callable''))"

text \<open>\<open>...args\<close>: an array, a map or a buffer spreads; a string spreads to its characters.\<close>

definition spread :: "pval \<Rightarrow> machine \<Rightarrow> (pval list \<times> machine) result" where
  "spread v m = (case v of
     PStr s \<Rightarrow> Inr (map (\<lambda>c. PStr [c]) s, m)
   | _ \<Rightarrow> (case obj m v of
       Some (PList vs) \<Rightarrow> Inr (vs, m)
     | Some (PBytes bs) \<Rightarrow> Inr (map (\<lambda>b. PNum (int (unat b))) bs, m)
     | Some (PMap kvs) \<Rightarrow> Inl Unmodelled
     | _ \<Rightarrow> Inl TypeError))"

definition reduce :: "machine \<Rightarrow> machine result" where
  "reduce m = (let (args, m1) = popV m; (fn, m2) = popV m1 in
     case fn of
       PGlobal (StorageType s) \<Rightarrow> Inl (Error ''REDUCE on a non-callable'')
     | PGlobal g \<Rightarrow> andThen (spread args m2) (\<lambda>(vs, m3). andThen (applyGlobal g vs m3) (\<lambda>(v, m4). Inr (pushV v m4)))
     | _ \<Rightarrow> Inl (Error ''REDUCE on a non-callable''))"

definition persistentOk :: "machine \<Rightarrow> pval list \<Rightarrow> bool" where
  "persistentOk m pid \<longleftrightarrow> arg pid 0 = PStr ''storage'' \<and> (length pid = 5 \<or> (length pid = 6 \<and> arg pid 5 = PNone)) \<and>
     (\<exists>s \<in> set STORAGE_NAMES. arg pid 1 = PGlobal (StorageType s))"

text \<open>\<open>String\<close> of the mark, a symbol, is its description; \<open>Number\<close> of it throws.\<close>

definition persistent :: "machine \<Rightarrow> machine result" where
  "persistent m = (let (pid, m1) = popV m in
     case obj m1 pid of
       Some (PList vs) \<Rightarrow> if persistentOk m1 vs then
           (case arg vs 1 of PGlobal (StorageType s) \<Rightarrow> (case STORAGE s of
              Some (dtype, item) \<Rightarrow> if arg vs 4 = Mark then Inl TypeError
                else Inr (pushNew (PStorage \<lparr>r_key = (if arg vs 2 = Mark then ''Symbol(mark)'' else textOf (Suc (length (m_heap m1))) (m_heap m1) (arg vs 2)),
                  r_dtype = dtype, r_itemsize = item, r_numel = numberOf m1 (arg vs 4)\<rparr>) m1)
            | None \<Rightarrow> Inl (Error ''refused persistent id''))
          | _ \<Rightarrow> Inl (Error ''refused persistent id''))
         else Inl (Error ''refused persistent id'')
     | _ \<Rightarrow> Inl (Error ''refused persistent id''))"

definition append :: "pval list \<Rightarrow> machine \<Rightarrow> machine result" where
  "append vs m = (case obj m (topV m) of
     Some (PList xs) \<Rightarrow> Inr (setObj (topV m) (PList (xs @ vs)) m)
   | _ \<Rightarrow> Inl TypeError)"

definition build :: "machine \<Rightarrow> machine result" where
  "build m = (let (state, m1) = popV m in
     case obj m1 (topV m1) of
       Some (POrdered _) \<Rightarrow> Inr m1 | Some (PMap _) \<Rightarrow> Inr m1 | Some (PTensor _) \<Rightarrow> Inr m1
     | _ \<Rightarrow> Inl (Error ''refused BUILD''))"

subsection \<open>The machine\<close>

definition cutShort :: js_error where
  "cutShort = RangeError ''pickle truncated''"

text \<open>
  \<open>bytes(n)\<close>; and a length of one byte, whose absence makes the position \<open>NaN\<close> and the next turn
  fail on an undefined opcode with a \<open>TypeError\<close>.
\<close>

definition takeBytes :: "nat \<Rightarrow> bytes reader" where
  "takeBytes n buf i = (if i + n > length buf then Inl cutShort else Inr (subarray buf i (i + n), i + n))"

definition takeByte :: "nat reader" where
  "takeByte buf i = (if i < length buf then Inr (unat (buf ! i), i + 1) else Inl TypeError)"

definition takeFixed :: "nat \<Rightarrow> nat reader" where
  "takeFixed n buf i = andThen (readUInt n buf i) (\<lambda>v. Inr (v, i + n))"

definition takeLine :: "string reader" where
  "takeLine buf i = (let l = takeWhile (\<lambda>b. b \<noteq> 10) (drop i buf) in
     if i + length l < length buf then Inr (map (\<lambda>b. char_of (unat b)) l, i + length l + 1) else Inl cutShort)"

definition latin1 :: "bytes \<Rightarrow> string" where
  "latin1 bs = map (\<lambda>b. char_of (unat b)) bs"

definition signed :: "nat \<Rightarrow> nat \<Rightarrow> int" where
  "signed n v = (if 2 * v \<ge> 256 ^ n \<and> n > 0 then int v - 256 ^ n else int v)"

text \<open>A length-prefixed string, bytes or number pushed on the stack.\<close>

definition pushBytes :: "nat reader \<Rightarrow> (bytes \<Rightarrow> machine \<Rightarrow> machine) \<Rightarrow> bytes \<Rightarrow> nat \<Rightarrow> machine \<Rightarrow> (nat \<times> machine) result" where
  "pushBytes len push buf i m = andThen (len buf i) (\<lambda>(n, i1). andThen (takeBytes n buf i1) (\<lambda>(b, i2). Inr (i2, push b m)))"

definition memoSet :: "nat \<Rightarrow> pval \<Rightarrow> machine \<Rightarrow> machine" where
  "memoSet k v m = m\<lparr>m_memo := AList.update k v (m_memo m)\<rparr>"

definition memoGet :: "nat \<Rightarrow> machine \<Rightarrow> pval" where
  "memoGet k m = (case map_of (m_memo m) k of Some v \<Rightarrow> v | None \<Rightarrow> Undef)"

definition tupleOf :: "nat \<Rightarrow> machine \<Rightarrow> machine" where
  "tupleOf n m = (let (vs, m') = ((\<lambda>(vs, m). let (v, m') = popV m in (v # vs, m')) ^^ n) ([], m) in pushNew (PList vs) m')"

definition stackGlobal :: "machine \<Rightarrow> machine result" where
  "stackGlobal m = (let (name, m1) = popV m; (modl, m2) = popV m1; text = textOf (Suc (length (m_heap m2))) (m_heap m2) in
     if modl = Mark \<or> name = Mark then Inl TypeError
     else andThen (findGlobal (text modl @ ''.'' @ text name) m2) (\<lambda>(v, m3). Inr (pushV v m3)))"

definition stepOp :: "nat \<Rightarrow> bytes \<Rightarrow> nat \<Rightarrow> machine \<Rightarrow> (nat \<times> machine) result" where
  "stepOp op buf i m = (
     if op = 0x80 then Inr (i + 1, m)
     else if op = 0x95 then Inr (i + 8, m)
     else if op = 0x28 then Inr (i, pushV Mark m)
     else if op = 0x4e then Inr (i, pushV PNone m)
     else if op = 0x88 then Inr (i, pushV (PBool True) m)
     else if op = 0x89 then Inr (i, pushV (PBool False) m)
     else if op = 0x4a then andThen (takeFixed 4 buf i) (\<lambda>(v, i1). Inr (i1, pushV (PNum (signed 4 v)) m))
     else if op = 0x4b then Inr (i + 1, pushV (if i < length buf then PNum (int (unat (buf ! i))) else Undef) m)
     else if op = 0x4d then andThen (takeFixed 2 buf i) (\<lambda>(v, i1). Inr (i1, pushV (PNum (int v)) m))
     else if op = 0x8a then pushBytes takeByte (\<lambda>b. pushV (PBig (signed (length b) (foldr (\<lambda>x v. unat x + 256 * v) b 0)))) buf i m
     else if op = 0x47 then (if i + 8 \<le> length buf then Inr (i + 8, pushV (PFloat (subarray buf i (i + 8))) m)
       else Inl (RangeError ''ERR_OUT_OF_RANGE''))
     else if op = 0x58 then pushBytes (takeFixed 4) (\<lambda>b. pushV (PStr (decodeText b))) buf i m
     else if op = 0x8c then pushBytes takeByte (\<lambda>b. pushV (PStr (decodeText b))) buf i m
     else if op = 0x54 then pushBytes (takeFixed 4) (\<lambda>b. pushV (PStr (latin1 b))) buf i m
     else if op = 0x55 then pushBytes takeByte (\<lambda>b. pushV (PStr (latin1 b))) buf i m
     else if op = 0x42 then pushBytes (takeFixed 4) (\<lambda>b. pushNew (PBytes b)) buf i m
     else if op = 0x43 then pushBytes takeByte (\<lambda>b. pushNew (PBytes b)) buf i m
     else if op = 0x7d then Inr (i, pushNew (PMap []) m)
     else if op = 0x5d \<or> op = 0x29 then Inr (i, pushNew (PList []) m)
     else if op = 0x74 \<or> op = 0x6c then andThen (popMark m) (\<lambda>(vs, m1). Inr (i, pushNew (PList vs) m1))
     else if op = 0x85 then Inr (i, tupleOf 1 m)
     else if op = 0x86 then Inr (i, tupleOf 2 m)
     else if op = 0x87 then Inr (i, tupleOf 3 m)
     else if op = 0x61 then (let (v, m1) = popV m in andThen (append [v] m1) (\<lambda>m2. Inr (i, m2)))
     else if op = 0x65 then andThen (popMark m) (\<lambda>(vs, m1). andThen (append vs m1) (\<lambda>m2. Inr (i, m2)))
     else if op = 0x64 then andThen (popMark m) (\<lambda>(vs, m1). Inr (i, pushNew (PMap (foldl (\<lambda>d (k, v). mapSet d k v) [] (pairs vs))) m1))
     else if op = 0x73 then (let (v, m1) = popV m; (k, m2) = popV m1 in andThen (setitem (topV m2) k v m2) (\<lambda>m3. Inr (i, m3)))
     else if op = 0x75 then andThen (popMark m) (\<lambda>(vs, m1). andThen (setitems (topV m1) (pairs vs) m1) (\<lambda>m2. Inr (i, m2)))
     else if op = 0x71 then Inr (i + 1, if i < length buf then memoSet (unat (buf ! i)) (topV m) m else m)
     else if op = 0x72 then andThen (takeFixed 4 buf i) (\<lambda>(k, i1). Inr (i1, memoSet k (topV m) m))
     else if op = 0x94 then Inr (i, memoSet (length (m_memo m)) (topV m) m)
     else if op = 0x68 then Inr (i + 1, pushV (if i < length buf then memoGet (unat (buf ! i)) m else Undef) m)
     else if op = 0x6a then andThen (takeFixed 4 buf i) (\<lambda>(k, i1). Inr (i1, pushV (memoGet k m) m))
     else if op = 0x63 then andThen (takeLine buf i) (\<lambda>(modl, i1). andThen (takeLine buf i1) (\<lambda>(name, i2).
       andThen (findGlobal (modl @ ''.'' @ name) m) (\<lambda>(v, m1). Inr (i2, pushV v m1))))
     else if op = 0x93 then andThen (stackGlobal m) (\<lambda>m1. Inr (i, m1))
     else if op = 0x52 then andThen (reduce m) (\<lambda>m1. Inr (i, m1))
     else if op = 0x81 then Inl (Error ''refused NEWOBJ'')
     else if op = 0x62 then andThen (build m) (\<lambda>m1. Inr (i, m1))
     else if op = 0x51 then andThen (persistent m) (\<lambda>m1. Inr (i, m1))
     else Inl (Error (''refused opcode 0x'' @ (if op < 16 then [hexdigit op] else [hexdigit (op div 16), hexdigit (op mod 16)]) @ '' at '' @ decimal (i - 1))))"

lemma reader_forward:
  "takeByte buf i = Inr (n, j) \<Longrightarrow> i \<le> j" "takeFixed k buf i = Inr (n, j) \<Longrightarrow> i \<le> j"
  "takeBytes k buf i = Inr (b, j) \<Longrightarrow> i \<le> j" "takeLine buf i = Inr (l, j) \<Longrightarrow> i \<le> j"
  by (auto simp: takeByte_def takeFixed_def takeBytes_def takeLine_def Let_def andThen_Inr_iff split: if_splits)

lemma pushBytes_forward:
  "pushBytes takeByte p buf i m = Inr (j, m') \<Longrightarrow> i \<le> j" "pushBytes (takeFixed k) p buf i m = Inr (j, m') \<Longrightarrow> i \<le> j"
  by (auto simp: pushBytes_def andThen_Inr_iff dest!: reader_forward)

lemma stepOp_forward: "stepOp op buf i m = Inr (j, m') \<Longrightarrow> i \<le> j"
  by (auto simp: stepOp_def Let_def andThen_Inr_iff dest!: reader_forward pushBytes_forward split: if_splits prod.splits)

record unpickled =
  x_value :: pval
  x_end :: nat
  x_used :: "string list"
  x_heap :: "pobj list"

function unpickleFrom :: "bytes \<Rightarrow> nat \<Rightarrow> machine \<Rightarrow> unpickled result" where
  "unpickleFrom buf i m =
     (if i \<ge> length buf then Inl cutShort
      else if buf ! i = 0x2e then Inr \<lparr>x_value = topV m, x_end = i + 1, x_used = m_used m, x_heap = m_heap m\<rparr>
      else case stepOp (unat (buf ! i)) buf (i + 1) m of
        Inl e \<Rightarrow> Inl e
      | Inr (j, m') \<Rightarrow> unpickleFrom buf j m')"
  by pat_completeness auto
termination
  by (relation "measure (\<lambda>(buf, i, m). length buf - i)") (auto dest!: stepOp_forward)

declare unpickleFrom.simps [simp del]

definition newMachine :: machine where
  "newMachine = \<lparr>m_stack = [], m_memo = [], m_heap = [], m_used = []\<rparr>"

definition unpickle :: "bytes \<Rightarrow> nat \<Rightarrow> unpickled result" where
  "unpickle buf pos = unpickleFrom buf pos newMachine"

subsection \<open>Nothing outside the allowlist\<close>

text \<open>
  What the machine may hold: addresses of its own objects, globals of the allowlist, and storages
  whose type and item size come from the table of storage classes.
\<close>

definition okS :: "storageRef \<Rightarrow> bool" where
  "okS s \<longleftrightarrow> (\<exists>c \<in> set STORAGE_NAMES. STORAGE c = Some (r_dtype s, r_itemsize s))"

definition okV :: "nat \<Rightarrow> pval \<Rightarrow> bool" where
  "okV n v = (case v of PRef a \<Rightarrow> a < n | PGlobal g \<Rightarrow> g \<in> snd ` set ALLOW | _ \<Rightarrow> True)"

definition okO :: "nat \<Rightarrow> pobj \<Rightarrow> bool" where
  "okO n x = (case x of
     PList vs \<Rightarrow> list_all (okV n) vs
   | PMap kvs \<Rightarrow> list_all (\<lambda>(k, v). okV n k \<and> okV n v) kvs
   | POrdered kvs \<Rightarrow> list_all (\<lambda>(k, v). okV n k \<and> okV n v) kvs
   | PBytes bs \<Rightarrow> True | PStorage s \<Rightarrow> okS s | PTensor t \<Rightarrow> okS (v_storage t))"

definition wf :: "machine \<Rightarrow> bool" where
  "wf m \<longleftrightarrow> list_all (okV (length (m_heap m))) (m_stack m) \<and> list_all (\<lambda>(k, v). okV (length (m_heap m)) v) (m_memo m) \<and>
     list_all (okO (length (m_heap m))) (m_heap m) \<and> set (m_used m) \<subseteq> fst ` set ALLOW"

abbreviation okIn :: "machine \<Rightarrow> pval \<Rightarrow> bool" where
  "okIn m v \<equiv> okV (length (m_heap m)) v"

lemma okV_mono: "okV n v \<Longrightarrow> n \<le> k \<Longrightarrow> okV k v"
  by (auto simp: okV_def split: pval.splits)

lemma okO_mono: "okO n x \<Longrightarrow> n \<le> k \<Longrightarrow> okO k x"
  using okV_mono [of n _ k] by (fastforce simp: okO_def list_all_iff split: pobj.splits)

lemma okV_const [simp]:
  "okV n Mark" "okV n Undef" "okV n PNone" "okV n (PBool b)" "okV n (PNum i)" "okV n (PBig i)" "okV n (PFloat f)" "okV n (PStr t)"
  by (simp_all add: okV_def)

lemma list_all_sub:
  "list_all P xs \<Longrightarrow> list_all P (butlast xs)" "list_all P xs \<Longrightarrow> list_all P (take n xs)"
  "list_all P xs \<Longrightarrow> list_all P (takeWhile Q xs)" "list_all P xs \<Longrightarrow> list_all P (rev xs)"
  by (simp_all add: list_all_iff) (meson in_set_butlastD in_set_takeD set_takeWhileD)+

lemma pushV_wf: "wf m \<Longrightarrow> okIn m v \<Longrightarrow> wf (pushV v m)"
  by (simp add: wf_def pushV_def)

lemma popV_wf: "wf m \<Longrightarrow> popV m = (v, m') \<Longrightarrow> wf m' \<and> okIn m' v \<and> m_heap m' = m_heap m"
  by (auto simp: wf_def popV_def list_all_sub split: if_splits) (simp add: list_all_iff)

lemma topV_wf: "wf m \<Longrightarrow> okIn m (topV m)"
  by (auto simp: wf_def topV_def list_all_iff)

lemma alloc_wf: "wf m \<Longrightarrow> okO (length (m_heap m)) x \<Longrightarrow> alloc x m = (v, m') \<Longrightarrow> wf m' \<and> okIn m' v"
  using okV_mono [of "length (m_heap m)" _ "Suc (length (m_heap m))"] okO_mono [of "length (m_heap m)" _ "Suc (length (m_heap m))"]
  by (auto simp: wf_def alloc_def okV_def [of _ "PRef _"] elim!: list.pred_mono_strong)

lemma pushNew_wf: "wf m \<Longrightarrow> okO (length (m_heap m)) x \<Longrightarrow> wf (pushNew x m)"
  using alloc_wf [of m x] by (auto simp: pushNew_def pushV_wf split: prod.splits)

lemma popMark_wf: "wf m \<Longrightarrow> popMark m = Inr (vs, m') \<Longrightarrow> wf m' \<and> list_all (okIn m') vs \<and> m_heap m' = m_heap m"
  by (auto simp: wf_def popMark_def Let_def list_all_sub split: if_splits)

lemma obj_ok: "wf m \<Longrightarrow> obj m v = Some x \<Longrightarrow> okO (length (m_heap m)) x"
  by (auto simp: wf_def obj_def list_all_iff split: pval.splits if_splits)

lemma setObj_wf: "wf m \<Longrightarrow> okO (length (m_heap m)) x \<Longrightarrow> wf (setObj v x m) \<and> length (m_heap (setObj v x m)) = length (m_heap m)"
  by (auto simp: wf_def setObj_def list_all_iff split: pval.splits dest!: set_update_subset_insert [THEN subsetD])

lemma mapSet_ok: "list_all (\<lambda>(k, v). okV n k \<and> okV n v) kvs \<Longrightarrow> okV n k \<Longrightarrow> okV n v \<Longrightarrow>
    list_all (\<lambda>(k, v). okV n k \<and> okV n v) (mapSet kvs k v)"
  by (induction kvs k v rule: mapSet.induct) auto

lemma setitem_wf: "wf m \<Longrightarrow> okIn m k \<Longrightarrow> okIn m v \<Longrightarrow> setitem d k v m = Inr m' \<Longrightarrow> wf m' \<and> length (m_heap m') = length (m_heap m)"
  using obj_ok [of m d] setObj_wf [of m _ d] mapSet_ok [of "length (m_heap m)" _ k v]
  by (fastforce simp: setitem_def okO_def split: option.splits pobj.splits)

lemma pairs_ok: "list_all (okV n) vs \<Longrightarrow> list_all (\<lambda>(k, v). okV n k \<and> okV n v) (pairs vs)"
  by (induction vs rule: pairs.induct) auto

lemma setitems_wf: "wf m \<Longrightarrow> list_all (\<lambda>(k, v). okIn m k \<and> okIn m v) kvs \<Longrightarrow> setitems d kvs m = Inr m' \<Longrightarrow> wf m'"
proof (induction kvs arbitrary: m)
  case (Cons kv kvs)
  obtain k v where kv: "kv = (k, v)" by (cases kv)
  from Cons.prems obtain m1 where "setitem d k v m = Inr m1" "setitems d kvs m1 = Inr m'" by (auto simp: kv andThen_Inr_iff)
  with Cons.prems setitem_wf [of m k v d m1] Cons.IH [of m1] show ?case by (auto simp: kv)
qed simp

lemma foldl_mapSet_ok:
  "list_all (\<lambda>(k, v). okV n k \<and> okV n v) kvs \<Longrightarrow> list_all (\<lambda>(k, v). okV n k \<and> okV n v) d \<Longrightarrow>
   list_all (\<lambda>(k, v). okV n k \<and> okV n v) (foldl (\<lambda>d (k, v). mapSet d k v) d kvs)"
  by (induction kvs arbitrary: d) (auto simp: mapSet_ok)

lemma findGlobal_wf:
  assumes "wf m" and "findGlobal k m = Inr (v, m')"
  shows "wf m' \<and> okIn m' v"
proof -
  obtain g where g: "(k, g) \<in> set ALLOW" "v = PGlobal g" "m' = m\<lparr>m_used := m_used m @ [k]\<rparr>"
    using assms(2) by (auto simp: findGlobal_def split: option.splits dest!: map_of_SomeD)
  then have "k \<in> fst ` set ALLOW" "g \<in> snd ` set ALLOW" by force+
  with g assms(1) show ?thesis by (simp add: wf_def okV_def [of _ "PGlobal _"])
qed

lemma arg_ok: "list_all (okV n) vs \<Longrightarrow> okV n (arg vs i)"
  by (auto simp: arg_def list_all_length)

lemma applyGlobal_wf:
  assumes "wf m" and "list_all (okIn m) args" and "applyGlobal g args m = Inr (v, m')"
  shows "wf m' \<and> okIn m' v"
proof (cases g)
  case RebuildTensor
  with assms(3) obtain s f sz st where a: "obj m (arg args 0) = Some (PStorage s)"
    "alloc (PTensor \<lparr>v_storage = s, v_offset = f, v_size = sz, v_stride = st\<rparr>) m = (v, m')"
    by (auto simp: applyGlobal_def andThen_Inr_iff split: option.splits pobj.splits)
  define t where "t = \<lparr>v_storage = s, v_offset = f, v_size = sz, v_stride = st\<rparr>"
  have t: "obj m (arg args 0) = Some (PStorage (v_storage t))" "alloc (PTensor t) m = (v, m')"
    using a by (simp_all add: t_def)
  then have "okO (length (m_heap m)) (PTensor t)" using obj_ok [OF assms(1) t(1)] by (simp add: okO_def)
  then show ?thesis using alloc_wf [OF assms(1) _ t(2)] by blast
next
  case OrderedDict
  then show ?thesis using assms alloc_wf [of m "POrdered []" v m'] by (simp add: applyGlobal_def okO_def)
qed (use assms in \<open>auto simp: applyGlobal_def arg_ok\<close>)

lemma spread_wf: "wf m \<Longrightarrow> spread v m = Inr (vs, m') \<Longrightarrow> wf m' \<and> list_all (okIn m') vs"
  using obj_ok [of m v] by (fastforce simp: spread_def okO_def list_all_iff split: pval.splits option.splits pobj.splits)

lemma reduce_wf:
  assumes "wf m" and "reduce m = Inr m'"
  shows "wf m'"
proof -
  obtain args m1 fn m2 where p: "popV m = (args, m1)" "popV m1 = (fn, m2)" by (cases "popV m", cases "popV (snd (popV m))") auto
  have m2: "wf m2" using popV_wf [OF assms(1) p(1)] popV_wf [OF _ p(2)] by blast
  from assms(2) obtain g vs m3 v m4 where
    r: "spread args m2 = Inr (vs, m3)" "applyGlobal g vs m3 = Inr (v, m4)" "m' = pushV v m4"
    by (auto simp: reduce_def p andThen_Inr_iff split: pval.splits global.splits)
  have "wf m3" "list_all (okIn m3) vs" using spread_wf [OF m2 r(1)] by auto
  from applyGlobal_wf [OF this r(2)] show ?thesis by (simp add: r(3) pushV_wf)
qed

lemma persistent_wf:
  assumes "wf m" and "persistent m = Inr m'"
  shows "wf m'"
proof -
  obtain pid m1 where p: "popV m = (pid, m1)" by (cases "popV m")
  have "wf m1" using popV_wf [OF assms(1) p] by blast
  moreover from assms(2) obtain c d i key n where "c \<in> set STORAGE_NAMES" "STORAGE c = Some (d, i)"
    "m' = pushNew (PStorage \<lparr>r_key = key, r_dtype = d, r_itemsize = i, r_numel = n\<rparr>) m1"
    by (auto simp: persistent_def p persistentOk_def split: option.splits pobj.splits if_splits)
  ultimately show ?thesis by (auto simp: okO_def okS_def intro!: pushNew_wf)
qed

lemma append_wf: "wf m \<Longrightarrow> list_all (okIn m) vs \<Longrightarrow> append vs m = Inr m' \<Longrightarrow> wf m'"
  using obj_ok [of m "topV m"] setObj_wf [of m _ "topV m"] by (auto simp: append_def okO_def split: option.splits pobj.splits)

lemma build_wf: "wf m \<Longrightarrow> build m = Inr m' \<Longrightarrow> wf m'"
  using popV_wf [of m] by (auto simp: build_def split: prod.splits option.splits pobj.splits)

lemma update_all: "list_all (\<lambda>(k, v). P v) xs \<Longrightarrow> P v \<Longrightarrow> list_all (\<lambda>(k, v). P v) (AList.update k v xs)"
  by (induction xs) auto

lemma memo_wf: "wf m \<Longrightarrow> okIn m v \<Longrightarrow> wf (memoSet k v m)" "wf m \<Longrightarrow> okIn m (memoGet k m)"
proof -
  assume m: "wf m"
  then have all: "\<forall>(k, v) \<in> set (m_memo m). okIn m v" by (simp add: wf_def list_all_iff)
  show "okIn m (memoGet k m)" using all by (auto simp: memoGet_def split: option.splits dest!: map_of_SomeD)
  assume v: "okIn m v"
  have "\<forall>(k, v) \<in> set (AList.update k v (m_memo m)). okIn m v"
    using update_all [of "okIn m" "m_memo m" v k] all v by (simp add: list_all_iff)
  then show "wf (memoSet k v m)" using m by (simp add: wf_def memoSet_def list_all_iff)
qed

lemma tuple_pops:
  "wf m \<Longrightarrow> list_all (okIn m) vs \<Longrightarrow> ((\<lambda>(vs, m). let (v, m') = popV m in (v # vs, m')) ^^ n) (vs, m) = (vs', m') \<Longrightarrow>
   wf m' \<and> list_all (okIn m') vs' \<and> m_heap m' = m_heap m"
proof (induction n arbitrary: vs' m')
  case (Suc n)
  obtain vs1 m1 where 1: "((\<lambda>(vs, m). let (v, m') = popV m in (v # vs, m')) ^^ n) (vs, m) = (vs1, m1)" by fastforce
  obtain v where 2: "popV m1 = (v, m')" "vs' = v # vs1" using Suc.prems(3) 1 by (auto split: prod.splits)
  from Suc.IH [OF Suc.prems(1,2) 1] popV_wf [OF _ 2(1)] 2(2) show ?case by auto
qed simp

lemma tupleOf_wf: "wf m \<Longrightarrow> wf (tupleOf n m)"
  using tuple_pops [of m "[]" n] by (auto simp: tupleOf_def okO_def intro!: pushNew_wf split: prod.splits)

lemma stackGlobal_wf:
  assumes "wf m" and "stackGlobal m = Inr m'"
  shows "wf m'"
proof -
  obtain name m1 modl m2 where p: "popV m = (name, m1)" "popV m1 = (modl, m2)" by (cases "popV m", cases "popV (snd (popV m))") auto
  have m2: "wf m2" using popV_wf [OF assms(1) p(1)] popV_wf [OF _ p(2)] by blast
  from assms(2) obtain k v m3 where "findGlobal k m2 = Inr (v, m3)" "m' = pushV v m3"
    by (auto simp: stackGlobal_def p Let_def andThen_Inr_iff split: if_splits)
  then show ?thesis using findGlobal_wf [OF m2] by (auto intro: pushV_wf)
qed

lemma pushBytes_wf: "pushBytes len p buf i m = Inr (j, m') \<Longrightarrow> (\<And>b. wf (p b m)) \<Longrightarrow> wf m'"
  by (auto simp: pushBytes_def andThen_Inr_iff)

lemma pop2: "popV m = (v, m1) \<Longrightarrow> popV m1 = (k, m2) \<Longrightarrow> wf m \<Longrightarrow> wf m2 \<and> okIn m2 v \<and> okIn m2 k"
  using popV_wf [of m v m1] popV_wf [of m1 k m2] by auto

text \<open>A turn of the machine leaves a machine that holds only what it may.\<close>

definition okStep :: "(nat \<times> machine) result \<Rightarrow> bool" where
  "okStep r \<longleftrightarrow> (\<forall>j m'. r = Inr (j, m') \<longrightarrow> wf m')"

lemma okStep_rules:
  "wf m' \<Longrightarrow> okStep (Inr (j, m'))"
  "okStep (Inl e)"
  "okStep r \<Longrightarrow> okStep r' \<Longrightarrow> okStep (if c then r else r')"
  by (auto simp: okStep_def)

lemma okStep_bind: "(\<And>x. r = Inr x \<Longrightarrow> okStep (f x)) \<Longrightarrow> okStep (andThen r f)"
  by (cases r) (auto simp: okStep_def)

lemma okStep_prod: "(\<And>a b. p = (a, b) \<Longrightarrow> okStep (f a b)) \<Longrightarrow> okStep (case p of (a, b) \<Rightarrow> f a b)"
  by (cases p) auto

lemma okStep_bytes: "(\<And>b. wf (p b m)) \<Longrightarrow> okStep (pushBytes len p buf i m)"
  by (auto simp: okStep_def pushBytes_def andThen_Inr_iff)

lemma okStep_mark:
  assumes "wf m" and "\<And>vs m1. wf m1 \<Longrightarrow> list_all (okIn m1) vs \<Longrightarrow> okStep (f vs m1)"
  shows "okStep (andThen (popMark m) (\<lambda>(vs, m1). f vs m1))"
  using assms popMark_wf [OF assms(1)] by (intro okStep_bind) auto

lemma okStep_pop2:
  assumes "wf m" and "\<And>v k m2. wf m2 \<Longrightarrow> okIn m2 v \<Longrightarrow> okIn m2 k \<Longrightarrow> okStep (f v k m2)"
  shows "okStep (case popV m of (v, m1) \<Rightarrow> case popV m1 of (k, m2) \<Rightarrow> f v k m2)"
  using assms pop2 by (intro okStep_prod) blast

lemma okStep_global: "wf m \<Longrightarrow> okStep (andThen (findGlobal k m) (\<lambda>(v, m1). Inr (j, pushV v m1)))"
  using findGlobal_wf [of m k] by (auto simp: okStep_def andThen_Inr_iff intro: pushV_wf)

lemma okStep_calls:
  "wf m \<Longrightarrow> okStep (andThen (reduce m) (\<lambda>m'. Inr (j, m')))"
  "wf m \<Longrightarrow> okStep (andThen (build m) (\<lambda>m'. Inr (j, m')))"
  "wf m \<Longrightarrow> okStep (andThen (persistent m) (\<lambda>m'. Inr (j, m')))"
  "wf m \<Longrightarrow> okStep (andThen (stackGlobal m) (\<lambda>m'. Inr (j, m')))"
  "wf m \<Longrightarrow> list_all (okIn m) vs \<Longrightarrow> okStep (andThen (append vs m) (\<lambda>m'. Inr (j, m')))"
  "wf m \<Longrightarrow> okIn m k \<Longrightarrow> okIn m v \<Longrightarrow> okStep (andThen (setitem d k v m) (\<lambda>m'. Inr (j, m')))"
  "wf m \<Longrightarrow> list_all (\<lambda>(k, v). okIn m k \<and> okIn m v) kvs \<Longrightarrow> okStep (andThen (setitems d kvs m) (\<lambda>m'. Inr (j, m')))"
  unfolding okStep_def andThen_Inr_iff
  using reduce_wf [of m] build_wf [of m] persistent_wf [of m] stackGlobal_wf [of m] append_wf [of m vs]
    setitem_wf [of m k v d] setitems_wf [of m kvs d] by blast+

lemmas machine_wf = pushV_wf pushNew_wf tupleOf_wf memo_wf topV_wf

lemma okStep_num:
  "(\<And>n j. okStep (f n j)) \<Longrightarrow> okStep (andThen (takeFixed k buf i) (\<lambda>(n, j). f n j))"
  "(\<And>l j. okStep (g l j)) \<Longrightarrow> okStep (andThen (takeLine buf i) (\<lambda>(l, j). g l j))"
  by (auto intro!: okStep_bind)

lemma okStep_pop: "wf m \<Longrightarrow> (\<And>v m1. wf m1 \<Longrightarrow> okIn m1 v \<Longrightarrow> okStep (f v m1)) \<Longrightarrow> okStep (case popV m of (v, m1) \<Rightarrow> f v m1)"
  using popV_wf [of m] by (intro okStep_prod) blast

lemma okStep_single:
  "wf m \<Longrightarrow> okStep (case popV m of (v, m1) \<Rightarrow> andThen (append [v] m1) (\<lambda>m2. Inr (j, m2)))"
  "wf m \<Longrightarrow> okStep (case popV m of (v, m1) \<Rightarrow> case popV m1 of (k, m2) \<Rightarrow>
      andThen (setitem (topV m2) k v m2) (\<lambda>m3. Inr (j, m3)))"
proof -
  assume m: "wf m"
  show "okStep (case popV m of (v, m1) \<Rightarrow> andThen (append [v] m1) (\<lambda>m2. Inr (j, m2)))"
    by (rule okStep_pop [OF m], rule okStep_calls(5)) simp_all
  show "okStep (case popV m of (v, m1) \<Rightarrow> case popV m1 of (k, m2) \<Rightarrow> andThen (setitem (topV m2) k v m2) (\<lambda>m3. Inr (j, m3)))"
    by (rule okStep_pop2 [OF m], rule okStep_calls(6)) simp_all
qed

lemma stepOp_ok: "wf m \<Longrightarrow> okStep (stepOp op buf i m)"
  unfolding stepOp_def
  by (intro okStep_rules okStep_mark okStep_single okStep_bytes okStep_num okStep_global okStep_calls)
    (simp_all add: machine_wf okO_def foldl_mapSet_ok pairs_ok okStep_single)

lemma unpickleFrom_wf:
  "wf m \<Longrightarrow> unpickleFrom buf i m = Inr r \<Longrightarrow>
   okV (length (x_heap r)) (x_value r) \<and> list_all (okO (length (x_heap r))) (x_heap r) \<and> set (x_used r) \<subseteq> fst ` set ALLOW"
proof (induction buf i m rule: unpickleFrom.induct)
  case (1 buf i m)
  show ?case
  proof (cases "i < length buf \<and> buf ! i \<noteq> 0x2e")
    case True
    then obtain j m1 where s: "stepOp (unat (buf ! i)) buf (i + 1) m = Inr (j, m1)" and r: "unpickleFrom buf j m1 = Inr r"
      using "1.prems"(2) by (auto simp: unpickleFrom.simps [of buf i] split: sum.splits)
    have "wf m1" using stepOp_ok [OF "1.prems"(1)] s by (auto simp: okStep_def)
    with "1.IH" [OF _ _ s refl] True r show ?thesis by simp
  next
    case False
    then have "x_value r = topV m" "x_heap r = m_heap m" "x_used r = m_used m"
      using "1.prems"(2) by (auto simp: unpickleFrom.simps [of buf i] split: if_splits)
    with "1.prems"(1) topV_wf [OF "1.prems"(1)] show ?thesis by (simp add: wf_def)
  qed
qed

text \<open>
  C34. Reading a checkpoint runs nothing: whatever bytes it is given, the reader ends, and if it
  returns, every global it resolved is on the allowlist, every function in the result is one of the
  allowed ones, every address in the result is one of its own objects, and every storage and tensor
  has an element type and item size from the table of torch storage classes.
\<close>
theorem unpickle_allowlisted:
  assumes "unpickle buf pos = Inr r"
  shows "set (x_used r) \<subseteq> fst ` set ALLOW \<and> okV (length (x_heap r)) (x_value r) \<and> list_all (okO (length (x_heap r))) (x_heap r)"
  using unpickleFrom_wf [of newMachine buf pos r] assms by (simp add: unpickle_def newMachine_def wf_def)

text \<open>An empty dictionary, protocol 2.\<close>

theorem unpickle_allowlisted_witness:
  "\<exists>r. unpickle [0x80, 2, 0x7d, 0x2e] 0 = Inr r \<and> set (x_used r) \<subseteq> fst ` set ALLOW \<and> list_all (okO (length (x_heap r))) (x_heap r)"
proof -
  have "unpickle [0x80, 2, 0x7d, 0x2e] 0 = Inr \<lparr>x_value = PRef 0, x_end = 4, x_used = [], x_heap = [PMap []]\<rparr>"
    by (simp add: unpickle_def newMachine_def unpickleFrom.simps stepOp_def pushNew_def alloc_def pushV_def topV_def)
  from unpickle_allowlisted [OF this] this show ?thesis by blast
qed

end
