(* ===== verification/Torch.thy ===== *)
theory Torch
  imports Pickle
begin

text \<open>
  Torch checkpoints as plans: the state dict flattened to named tensors (\<open>tensors/lib/pickle.mjs\<close>,
  \<open>flatten\<close> and \<open>contiguous\<close>), the zip directory, the storages of both torch formats, and the choice of
  the container (\<open>tensors/lib/containers.mjs\<close>). Every plan that comes out covers the file.
\<close>

subsection \<open>The state dict\<close>

type_synonym recs = "(string \<times> tensorRec) list"

fun recSet :: "recs \<Rightarrow> string \<Rightarrow> tensorRec \<Rightarrow> recs" where
  "recSet [] k v = [(k, v)]"
| "recSet ((k', v') # kvs) k v = (if k' = k then (k, v) # kvs else (k', v') # recSet kvs k v)"

definition stackOverflow :: js_error where
  "stackOverflow = RangeError ''Maximum call stack size exceeded''"

text \<open>
  \<open>flatten\<close> has no memory of the objects it is inside of. A path deeper than the number of objects
  goes through one of them twice, and then the recursion has no end: the stack overflows.
\<close>

definition entriesOf :: "pobj list \<Rightarrow> pval \<Rightarrow> (pval \<times> pval) list" where
  "entriesOf heap v = (case v of
     PRef a \<Rightarrow> (if a < length heap then (case heap ! a of POrdered kvs \<Rightarrow> kvs | PMap kvs \<Rightarrow> kvs | _ \<Rightarrow> []) else [])
   | _ \<Rightarrow> [])"

definition tensorOf :: "pobj list \<Rightarrow> pval \<Rightarrow> tensorRec option" where
  "tensorOf heap v = (case v of
     PRef a \<Rightarrow> (if a < length heap then (case heap ! a of PTensor t \<Rightarrow> Some t | _ \<Rightarrow> None) else None)
   | _ \<Rightarrow> None)"

fun flattenAt :: "nat \<Rightarrow> pobj list \<Rightarrow> pval \<Rightarrow> string \<Rightarrow> recs \<Rightarrow> recs result"
  and flattenAll :: "nat \<Rightarrow> pobj list \<Rightarrow> (pval \<times> pval) list \<Rightarrow> string \<Rightarrow> recs \<Rightarrow> recs result" where
  "flattenAt 0 heap v pfx out = Inl stackOverflow"
| "flattenAt (Suc depth) heap v pfx out = (case tensorOf heap v of
     Some t \<Rightarrow> Inr (recSet out pfx t)
   | None \<Rightarrow> flattenAll depth heap (entriesOf heap v) pfx out)"
| "flattenAll depth heap [] pfx out = Inr out"
| "flattenAll depth heap ((k, v) # kvs) pfx out = (case k of
     PStr s \<Rightarrow> if s = ''_metadata'' then flattenAll depth heap kvs pfx out
       else andThen (flattenAt depth heap v (if pfx = [] then s else pfx @ ''.'' @ s) out)
         (flattenAll depth heap kvs pfx)
   | _ \<Rightarrow> flattenAll depth heap kvs pfx out)"

definition flatten :: "pobj list \<Rightarrow> pval \<Rightarrow> recs result" where
  "flatten heap v = flattenAt (length heap + 2) heap v [] []"

text \<open>\<open>a !== b\<close> of numbers, one of which may be \<open>NaN\<close> or missing.\<close>

definition differ :: "int option \<Rightarrow> int option \<Rightarrow> bool" where
  "differ a b \<longleftrightarrow> a = None \<or> b = None \<or> a \<noteq> b"

definition times :: "int option \<Rightarrow> int option \<Rightarrow> int option" where
  "times a b = (case (a, b) of (Some x, Some y) \<Rightarrow> Some (x * y) | _ \<Rightarrow> None)"

fun contigFrom :: "(int option \<times> int option) list \<Rightarrow> int option \<Rightarrow> bool" where
  "contigFrom [] acc = True"
| "contigFrom ((n, st) # ds) acc = (if differ n (Some 1) \<and> differ st acc then False else contigFrom ds (times acc n))"

definition strideAt :: "int option list \<Rightarrow> nat \<Rightarrow> int option" where
  "strideAt stride d = (if d < length stride then stride ! d else None)"

definition contiguous :: "int option list \<Rightarrow> int option list \<Rightarrow> bool" where
  "contiguous sizes stride = contigFrom (rev (map (\<lambda>d. (sizes ! d, strideAt stride d)) [0..<length sizes])) (Some 1)"

subsection \<open>The zip directory\<close>

record zent =
  z_name :: string
  z_method :: nat
  z_csize :: nat
  z_usize :: nat
  z_lho :: nat

text \<open>\<open>buf.lastIndexOf(sig, from)\<close>.\<close>

definition lastIndexOf :: "bytes \<Rightarrow> bytes \<Rightarrow> nat \<Rightarrow> nat option" where
  "lastIndexOf sig buf from =
     (case filter (\<lambda>i. take (length sig) (drop i buf) = sig) (rev [0..<Suc from]) of [] \<Rightarrow> None | i # _ \<Rightarrow> Some i)"

definition END_SIG :: bytes where "END_SIG = [0x50, 0x4b, 5, 6]"
definition LOC64_SIG :: bytes where "LOC64_SIG = [0x50, 0x4b, 6, 7]"

text \<open>The zip64 extra field: the three numbers are replaced in order where the record holds all ones.\<close>

definition zip64Field :: "bytes \<Rightarrow> nat \<Rightarrow> nat \<times> nat \<times> nat \<Rightarrow> (nat \<times> nat \<times> nat) result" where
  "zip64Field cd y0 st = (case st of (usize, csize, lho) \<Rightarrow>
     andThen (if usize = 0xffffffff then andThen (readUInt 8 cd y0) (\<lambda>v. Inr (v, y0 + 8)) else Inr (usize, y0)) (\<lambda>(us, y1).
     andThen (if csize = 0xffffffff then andThen (readUInt 8 cd y1) (\<lambda>v. Inr (v, y1 + 8)) else Inr (csize, y1)) (\<lambda>(cs, y2).
     andThen (if lho = 0xffffffff then readUInt 8 cd y2 else Inr lho) (\<lambda>lh. Inr (us, cs, lh)))))"

function extraFields :: "bytes \<Rightarrow> nat \<Rightarrow> nat \<Rightarrow> nat \<times> nat \<times> nat \<Rightarrow> (nat \<times> nat \<times> nat) result" where
  "extraFields cd x stop st = (if x < stop then
     (case readUInt 2 cd x of Inl e \<Rightarrow> Inl e | Inr fid \<Rightarrow>
     (case readUInt 2 cd (x + 2) of Inl e \<Rightarrow> Inl e | Inr fsz \<Rightarrow>
     (case (if fid = 1 then zip64Field cd (x + 4) st else Inr st) of Inl e \<Rightarrow> Inl e | Inr st' \<Rightarrow>
        extraFields cd (x + 4 + fsz) stop st')))
   else Inr st)"
  by pat_completeness auto
termination by (relation "measure (\<lambda>(cd, x, stop, st). stop - x)") auto

declare extraFields.simps [simp del]

definition centralAt :: "bytes \<Rightarrow> nat \<Rightarrow> (zent \<times> nat) result" where
  "centralAt cd p =
     andThen (readUInt 4 cd p) (\<lambda>sig. if sig \<noteq> 0x02014b50 then Inl (Error ''bad central directory'') else
     andThen (readUInt 2 cd (p + 10)) (\<lambda>method. andThen (readUInt 4 cd (p + 20)) (\<lambda>csize.
     andThen (readUInt 4 cd (p + 24)) (\<lambda>usize. andThen (readUInt 2 cd (p + 28)) (\<lambda>nl.
     andThen (readUInt 2 cd (p + 30)) (\<lambda>xl. andThen (readUInt 2 cd (p + 32)) (\<lambda>cl.
     andThen (readUInt 4 cd (p + 42)) (\<lambda>lho.
     andThen (extraFields cd (p + 46 + nl) (p + 46 + nl + xl) (usize, csize, lho)) (\<lambda>(us, cs, lh).
       Inr (\<lparr>z_name = decodeText (subarray cd (p + 46) (p + 46 + nl)), z_method = method, z_csize = cs, z_usize = us, z_lho = lh\<rparr>,
            p + 46 + nl + xl + cl))))))))))"

definition zipEntries :: "'w source \<Rightarrow> nat \<Rightarrow> ('w, zent list) io" where
  "zipEntries rng sz = (let tailLen = min sz (65536 + 22); base = sz - tailLen in
     bind (rng base sz) (\<lambda>tail.
     case lastIndexOf END_SIG tail (length tail) of
       None \<Rightarrow> throw (Error ''no zip end record'')
     | Some e \<Rightarrow>
       bind (lift (readUInt 2 tail (e + 10))) (\<lambda>n0. bind (lift (readUInt 4 tail (e + 12))) (\<lambda>cdSize0.
       bind (lift (readUInt 4 tail (e + 16))) (\<lambda>cdOff0.
       bind (if n0 = 0xffff \<or> cdSize0 = 0xffffffff \<or> cdOff0 = 0xffffffff then
           (let l8 = (case lastIndexOf LOC64_SIG tail e of Some l \<Rightarrow> l + 8 | None \<Rightarrow> 7) in
            bind (lift (readUInt 8 tail l8)) (\<lambda>e64.
            bind (if e64 \<ge> base then ret (subarray tail (e64 - base) (e64 - base + 56)) else rng e64 (e64 + 56)) (\<lambda>rec.
            lift (andThen (readUInt 8 rec 32) (\<lambda>n. andThen (readUInt 8 rec 40) (\<lambda>cdSize.
                  andThen (readUInt 8 rec 48) (\<lambda>cdOff. Inr (n, cdSize, cdOff))))))))
         else ret (n0, cdSize0, cdOff0)) (\<lambda>(n, cdSize, cdOff).
       bind (if cdOff \<ge> base then ret (subarray tail (cdOff - base) (cdOff - base + cdSize)) else rng cdOff (cdOff + cdSize)) (\<lambda>cd.
       lift (andThen (takeMany n centralAt cd 0) (\<lambda>(es, _). Inr es)))))))))"

definition dataStart :: "'w source \<Rightarrow> zent \<Rightarrow> ('w, nat) io" where
  "dataStart rng e = bind (rng (z_lho e) (z_lho e + 30)) (\<lambda>h.
     lift (andThen (readUInt 4 h 0) (\<lambda>sig. if sig \<noteq> 0x04034b50 then Inl (Error (''bad local header for '' @ z_name e))
       else andThen (readUInt 2 h 26) (\<lambda>a. andThen (readUInt 2 h 28) (\<lambda>b. Inr (z_lho e + 30 + a + b))))))"

text \<open>\<open>pool\<close>: what each item gives, in the order of the items, whichever of the eight workers ran it.\<close>

definition pool :: "('a \<Rightarrow> ('w, 'b) io) \<Rightarrow> 'a list \<Rightarrow> ('w, 'b list) io" where
  "pool f items = mapIO f items"

subsection \<open>Storages to segments\<close>

type_synonym storages = "(string \<times> int \<times> int) list"

text \<open>The tensors of each storage, storages in the order they are first met.\<close>

fun byKey :: "recs \<Rightarrow> (string \<times> recs) list" where
  "byKey [] = []"
| "byKey ((name, t) # rs) = (let key = r_key (v_storage t); same = filter (\<lambda>(_, t'). r_key (v_storage t') = key) rs in
     (key, (name, t) # same) # byKey (filter (\<lambda>(_, t'). r_key (v_storage t') \<noteq> key) rs))"

definition numel :: "tensorRec \<Rightarrow> int option" where
  "numel t = foldl times (Some 1) (v_size t)"

definition isFull :: "nat \<Rightarrow> int \<Rightarrow> tensorRec \<Rightarrow> bool" where
  "isFull item nbytes t \<longleftrightarrow> v_offset t = Some 0 \<and> contiguous (v_size t) (v_stride t) \<and>
     times (numel t) (Some (int item)) = Some nbytes"

definition numbersOf :: "int option list \<Rightarrow> int list result" where
  "numbersOf xs = (if None \<in> set xs then Inl Unmodelled else Inr (map the xs))"

definition torchTensor :: "bool \<Rightarrow> nat \<Rightarrow> int \<Rightarrow> string \<times> tensorRec \<Rightarrow> tensor result" where
  "torchTensor full item pos nt = (case nt of (name, t) \<Rightarrow>
     andThen (numbersOf (v_size t)) (\<lambda>shape.
     andThen (if full then Inr None
       else andThen (numbersOf [v_offset t]) (\<lambda>off.
         if contiguous (v_size t) (v_stride t) then Inr (Some \<lparr>u_o = hd off * int item, u_stride = None, u_itemsize = int item\<rparr>)
         else andThen (numbersOf (v_stride t)) (\<lambda>st. Inr (Some \<lparr>u_o = hd off * int item, u_stride = Some st, u_itemsize = int item\<rparr>)))) (\<lambda>sub.
     Inr \<lparr>t_name = name, t_dtype = Some (JStr (r_dtype (v_storage t))), t_shape = Some (JArr (map JNum shape)),
          t_len = prod_list shape * int item, t_seg = pos, t_sub = sub\<rparr>)))"

fun mapResult :: "('a \<Rightarrow> 'b result) \<Rightarrow> 'a list \<Rightarrow> 'b list result" where
  "mapResult f [] = Inr []"
| "mapResult f (x # xs) = andThen (f x) (\<lambda>y. andThen (mapResult f xs) (\<lambda>ys. Inr (y # ys)))"

fun torchGroups :: "storages \<Rightarrow> (string \<times> recs) list \<Rightarrow> seg list \<times> tensor list \<Rightarrow> (seg list \<times> tensor list) result" where
  "torchGroups storages [] st = Inr st"
| "torchGroups storages ((key, grp) # gs) (payload, tensors) = (case map_of storages key of
     None \<Rightarrow> Inl (Error (''storage '' @ key @ '' not found''))
   | Some (start, nbytes) \<Rightarrow>
       (let item = r_itemsize (v_storage (snd (hd grp))); full = list_all (\<lambda>(_, t). isFull item nbytes t) grp in
        andThen (mapResult (torchTensor full item (int (length payload))) grp) (\<lambda>ts.
          torchGroups storages gs
            (payload @ [\<lparr>s_kind = (if full then Tensor else Storage), s_off = start, s_len = nbytes\<rparr>], tensors @ ts))))"

definition torchPlan :: "string \<Rightarrow> recs \<Rightarrow> storages \<Rightarrow> nat \<Rightarrow> plan result" where
  "torchPlan container rs storages sz =
     andThen (torchGroups storages (byKey rs) ([], [])) (\<lambda>(payload, tensors). finish container payload tensors (int sz))"

subsection \<open>The two torch formats\<close>

definition storageKeys :: "recs \<Rightarrow> string list" where
  "storageKeys rs = map (\<lambda>(_, t). r_key (v_storage t)) rs"

definition isPkl :: "zent \<Rightarrow> bool" where
  "isPkl e \<longleftrightarrow> z_name e = ''data.pkl'' \<or> endsWith (z_name e) ''/data.pkl''"

definition isWanted :: "string \<Rightarrow> string list \<Rightarrow> zent \<Rightarrow> bool" where
  "isWanted pfx keys e \<longleftrightarrow> startsWith (z_name e) (pfx @ ''data/'') \<and> drop (length pfx + 5) (z_name e) \<in> set keys"

definition torchZip :: "'w source \<Rightarrow> nat \<Rightarrow> ('w, plan) io" where
  "torchZip rng sz = bind (zipEntries rng sz) (\<lambda>entries.
     case find isPkl entries of
       None \<Rightarrow> throw (Error ''zip without data.pkl (not a torch checkpoint)'')
     | Some pkl \<Rightarrow> if z_method pkl \<noteq> 0 then throw (Error ''compressed data.pkl'') else
         (let pfx = take (length (z_name pkl) - 8) (z_name pkl) in
          bind (dataStart rng pkl) (\<lambda>ps.
          bind (rng ps (ps + z_csize pkl)) (\<lambda>buf.
          bind (lift (andThen (unpickle buf 0) (\<lambda>r. flatten (x_heap r) (x_value r)))) (\<lambda>rs.
          (let want = filter (isWanted pfx (storageKeys rs)) entries in
           if \<exists>e \<in> set want. z_method e \<noteq> 0 then throw (Error ''compressed storage entries'') else
           bind (pool (dataStart rng) want) (\<lambda>starts.
           lift (torchPlan ''torch-zip'' rs
             (rev (map2 (\<lambda>e s. (drop (length pfx + 5) (z_name e), (int s, int (z_usize e)))) want starts)) sz))))))))"

definition MAGIC :: int where "MAGIC = 0x1950a86a20f9469cfc6c"

definition bigEndian :: "unpickled \<Rightarrow> bool" where
  "bigEndian r \<longleftrightarrow> (case x_value r of
     PRef a \<Rightarrow> a < length (x_heap r) \<and> (case x_heap r ! a of PMap kvs \<Rightarrow> map_of kvs (PStr ''little_endian'') = Some (PBool False) | _ \<Rightarrow> False)
   | _ \<Rightarrow> False)"

text \<open>What the five pickles at the start of a legacy file hold: the tensors, the pickle of the storage
  keys, and where it ends.\<close>

definition legacyHead :: "bytes \<Rightarrow> (recs \<times> unpickled) result" where
  "legacyHead buf =
     andThen (unpickle buf 0) (\<lambda>a. if x_value a \<noteq> PBig MAGIC then Inl (Error ''not a torch legacy file'') else
     andThen (unpickle buf (x_end a)) (\<lambda>b. andThen (unpickle buf (x_end b)) (\<lambda>c.
     if bigEndian c then Inl (Error ''big-endian legacy file'') else
     andThen (unpickle buf (x_end c)) (\<lambda>d. andThen (flatten (x_heap d) (x_value d)) (\<lambda>rs.
     andThen (unpickle buf (x_end d)) (\<lambda>ks. Inr (rs, ks)))))))"

definition keyTexts :: "unpickled \<Rightarrow> string list result" where
  "keyTexts r = (case x_value r of
     PRef a \<Rightarrow> if a < length (x_heap r) then (case x_heap r ! a of
         PList vs \<Rightarrow> Inr (map (textOf (Suc (length (x_heap r))) (x_heap r)) vs)
       | PMap _ \<Rightarrow> Inl Unmodelled | PBytes _ \<Rightarrow> Inl Unmodelled | _ \<Rightarrow> Inl TypeError) else Inl TypeError
   | PStr _ \<Rightarrow> Inl Unmodelled
   | _ \<Rightarrow> Inl TypeError)"

fun legacyStorages :: "'w source \<Rightarrow> bytes \<Rightarrow> recs \<Rightarrow> string list \<Rightarrow> storages \<Rightarrow> int \<Rightarrow> ('w, storages \<times> int) io" where
  "legacyStorages rng buf rs [] st p = ret (st, p)"
| "legacyStorages rng buf rs (key # keys) st p =
     (case map_of (rev (map (\<lambda>(_, t). (r_key (v_storage t), r_itemsize (v_storage t))) rs)) key of
        None \<Rightarrow> throw (Error (''legacy storage '' @ key @ '' has no tensor''))
      | Some item \<Rightarrow> if p < 0 then throw Unmodelled else
          bind (if nat p + 8 \<le> length buf then ret (subarray buf (nat p) (nat p + 8)) else rng (nat p) (nat p + 8)) (\<lambda>pre.
          bind (lift (readUInt 8 pre 0)) (\<lambda>v. let nbytes = signed 8 v * int item in
            legacyStorages rng buf rs keys ((key, p + 8, nbytes) # st) (p + 8 + nbytes))))"

text \<open>The loop of \<open>torchLegacy\<close>: more of the file while the pickles are cut short.\<close>

fun legacyFrom :: "nat \<Rightarrow> 'w source \<Rightarrow> nat \<Rightarrow> nat \<Rightarrow> ('w, plan) io" where
  "legacyFrom 0 rng sz want = (\<lambda>w. None)"
| "legacyFrom (Suc fuel) rng sz want = bind (rng 0 (min sz want)) (\<lambda>buf.
     case legacyHead buf of
       Inl (RangeError m) \<Rightarrow> if want \<ge> sz then throw (RangeError m) else legacyFrom fuel rng sz (want * 4)
     | Inl e \<Rightarrow> throw e
     | Inr (rs, ks) \<Rightarrow>
         bind (lift (keyTexts ks)) (\<lambda>keys.
         bind (legacyStorages rng buf rs keys [] (int (x_end ks))) (\<lambda>(st, p).
         if p \<noteq> int sz then throw (Error (''legacy storages end at '' @ numText p @ '', file is '' @ decimal sz))
         else lift (torchPlan ''torch-legacy'' rs st sz))))"

definition torchLegacy :: "'w source \<Rightarrow> nat \<Rightarrow> ('w, plan) io" where
  "torchLegacy rng sz = legacyFrom (Suc sz) rng sz (4 * 2 ^ 20)"

subsection \<open>Which container\<close>

definition planFile :: "'w source \<Rightarrow> nat \<Rightarrow> string \<Rightarrow> ('w, plan option) io" where
  "planFile rng sz path =
     (if endsWith (lower path) ''.safetensors'' then bind (safetensors rng sz) (\<lambda>p. ret (Some p)) else
      bind (rng 0 (min sz 16)) (\<lambda>magic.
      if take 4 magic = [0x47, 0x47, 0x55, 0x46] then bind (gguf rng sz) (\<lambda>p. ret (Some p)) else
      bind (lift (readUInt 4 magic 0)) (\<lambda>v.
      if v = 0x04034b50 then bind (torchZip rng sz) (\<lambda>p. ret (Some p))
      else if take 3 magic = [0x80, 2, 0x8a] then bind (torchLegacy rng sz) (\<lambda>p. ret (Some p))
      else ret None)))"

definition isWeightPath :: "string \<Rightarrow> bool" where
  "isWeightPath p \<longleftrightarrow> (let q = lower p; base = last (splitAt (CHR ''/'') q) in
     (\<exists>x \<in> set [''.safetensors'', ''.gguf'', ''.bin'', ''.pt'', ''.pth'', ''.ckpt'']. endsWith q x) \<and>
     \<not> startsWith q ''openvino/'' \<and>
     \<not> (\<exists>x \<in> set [''training_args'', ''optimizer'', ''scheduler'', ''rng_state'']. startsWith base x))"

subsection \<open>Every plan covers the file\<close>

text \<open>Segments one after another from the first byte to the last; each tensor in one of them or empty.\<close>

definition wfPlan :: "nat \<Rightarrow> plan \<Rightarrow> bool" where
  "wfPlan sz p \<longleftrightarrow> tiles 0 (p_segments p) (int sz) \<and>
     list_all (\<lambda>t. t_seg t = -1 \<or> 0 \<le> t_seg t \<and> nat (t_seg t) < length (p_segments p) \<and> s_kind (p_segments p ! nat (t_seg t)) \<noteq> Literal) (p_tensors p)"

definition placed :: "seg list \<times> tensor list \<Rightarrow> bool" where
  "placed st \<longleftrightarrow> list_all (\<lambda>t. nat (t_seg t) < length (fst st)) (snd st) \<and> list_all (\<lambda>s. s_kind s \<noteq> Literal) (fst st)"

lemma placed_grow: "placed (payload, ts) \<Longrightarrow> s_kind s \<noteq> Literal \<Longrightarrow> list_all (\<lambda>t. t_seg t = int (length payload)) us \<Longrightarrow> placed (payload @ [s], ts @ us)"
  by (auto simp: placed_def list_all_iff less_Suc_eq)

lemma placed_one: "placed (payload, ts) \<Longrightarrow> s_kind s \<noteq> Literal \<Longrightarrow> t_seg t = int (length payload) \<Longrightarrow> placed (payload @ [s], ts @ [t])"
  by (rule placed_grow) simp_all

lemma finish_wf:
  assumes "finish container payload tensors (int sz) = Inr p" and "placed (payload, tensors)"
  shows "wfPlan sz p"
proof -
  have len: "length (p_tensors p) = length tensors" using assms(1) by (auto simp: finish_def andThen_Inr_iff)
  have "t_seg t = -1 \<or> 0 \<le> t_seg t \<and> nat (t_seg t) < length (p_segments p) \<and> s_kind (p_segments p ! nat (t_seg t)) \<noteq> Literal" if t: "t \<in> set (p_tensors p)" for t
  proof -
    obtain k where k: "k < length tensors" "t = p_tensors p ! k" using t unfolding in_set_conv_nth len by blast
    have "nat (t_seg (tensors ! k)) < length payload" "s_kind (payload ! nat (t_seg (tensors ! k))) \<noteq> Literal"
      using assms(2) k(1) by (auto simp: placed_def list_all_length)
    moreover note finish_covers(2) [OF assms(1), unfolded Let_def, rule_format, OF k(1)]
    ultimately show ?thesis unfolding k(2) by (simp split: if_splits)
  qed
  then show ?thesis using finish_covers(1) [OF assms(1)] by (auto simp: wfPlan_def list_all_iff)
qed

lemma stTensors_placed: "stTensors base kvs st = Inr st' \<Longrightarrow> placed st \<Longrightarrow> placed st'"
  by (induction base kvs st rule: stTensors.induct) (auto simp: andThen_Inr_iff placed_one split: if_splits)

lemma ggufTensors_placed: "ggufTensors start ts st = Inr st' \<Longrightarrow> placed st \<Longrightarrow> placed st'"
  by (induction start ts st rule: ggufTensors.induct) (auto simp: Let_def placed_one split: if_splits option.splits)

lemma mapResult_all:
  "mapResult f xs = Inr ys \<Longrightarrow> (\<And>x y. x \<in> set xs \<Longrightarrow> f x = Inr y \<Longrightarrow> P y) \<Longrightarrow> list_all P ys"
proof (induction xs arbitrary: ys)
  case (Cons x xs)
  from Cons.prems(1) obtain y zs where "f x = Inr y" "mapResult f xs = Inr zs" "ys = y # zs" by (auto simp: andThen_Inr_iff)
  moreover have "list_all P zs" by (rule Cons.IH) (use \<open>mapResult f xs = Inr zs\<close> Cons.prems(2) in auto)
  moreover have "P y" by (rule Cons.prems(2) [of x]) (use \<open>f x = Inr y\<close> in auto)
  ultimately show ?case by simp
qed simp

lemma torchTensor_seg: "torchTensor full item pos nt = Inr t \<Longrightarrow> t_seg t = pos"
  by (auto simp: torchTensor_def andThen_Inr_iff split: prod.splits)

lemma torchGroups_placed: "torchGroups storages gs st = Inr st' \<Longrightarrow> placed st \<Longrightarrow> placed st'"
proof (induction storages gs st rule: torchGroups.induct)
  case (2 storages key grp gs payload tensors)
  from "2.prems"(1) obtain start nbytes ts where
    s: "map_of storages key = Some (start, nbytes)" and
    m: "mapResult (torchTensor (list_all (\<lambda>(_, t). isFull (r_itemsize (v_storage (snd (hd grp)))) nbytes t) grp)
          (r_itemsize (v_storage (snd (hd grp)))) (int (length payload))) grp = Inr ts"
    by (auto simp: Let_def andThen_Inr_iff split: option.splits)
  have "list_all (\<lambda>t. t_seg t = int (length payload)) ts"
    by (rule mapResult_all [OF m]) (auto dest: torchTensor_seg)
  then have "placed (payload @ [\<lparr>s_kind = k, s_off = start, s_len = nbytes\<rparr>], tensors @ ts)" if "k \<noteq> Literal" for k
    by (rule placed_grow [OF "2.prems"(2), rotated]) (simp add: that)
  with "2.prems" "2.IH" [OF s refl refl refl] m show ?case
    by (auto simp: s Let_def split: if_splits)
qed simp

lemma placed_Nil [simp]: "placed ([], [])"
  by (simp add: placed_def)

lemma torchPlan_wf: "torchPlan container rs storages sz = Inr p \<Longrightarrow> wfPlan sz p"
  by (auto simp: torchPlan_def andThen_Inr_iff intro: finish_wf [OF _ torchGroups_placed])

lemma safetensors_wf: "safetensors rng sz w = Some (w', Inr p) \<Longrightarrow> wfPlan sz p"
  by (auto simp: safetensors_def bind_Inr_iff andThen_Inr_iff intro: finish_wf [OF _ stTensors_placed])

lemma ggufParse_wf: "ggufParse buf sz = Inr p \<Longrightarrow> wfPlan sz p"
  by (auto simp: ggufParse_def andThen_Inr_iff split: if_splits intro: finish_wf [OF _ ggufTensors_placed])

lemma ggufFrom_wf: "ggufFrom fuel rng sz want w = Some (w', Inr p) \<Longrightarrow> wfPlan sz p"
proof (induction fuel rng sz want arbitrary: w rule: ggufFrom.induct)
  case (2 fuel rng sz want)
  from "2.prems" obtain w1 buf where buf: "rng 0 (min sz want) w = Some (w1, Inr buf)" by (auto simp: bind_Inr_iff)
  show ?case
  proof (cases "ggufParse buf sz")
    case (Inl e)
    with "2.prems" buf "2.IH" show ?thesis by (cases e) (auto simp: bind_Inr_iff split: if_splits)
  next
    case (Inr p)
    with "2.prems" buf show ?thesis by (auto simp: bind_Inr_iff intro: ggufParse_wf)
  qed
qed simp

lemma torchZip_wf: "torchZip rng sz w = Some (w', Inr p) \<Longrightarrow> wfPlan sz p"
  unfolding torchZip_def bind_Inr_iff Let_def
  by (elim exE conjE) (auto simp: bind_Inr_iff split: option.splits if_splits intro: torchPlan_wf)

lemma legacyFrom_wf: "legacyFrom fuel rng sz want w = Some (w', Inr p) \<Longrightarrow> wfPlan sz p"
proof (induction fuel rng sz want arbitrary: w rule: legacyFrom.induct)
  case (2 fuel rng sz want)
  from "2.prems" obtain w1 buf where buf: "rng 0 (min sz want) w = Some (w1, Inr buf)" by (auto simp: bind_Inr_iff)
  show ?case
  proof (cases "legacyHead buf")
    case (Inl e)
    with "2.prems" buf "2.IH" show ?thesis by (cases e) (auto simp: bind_Inr_iff split: if_splits)
  next
    case (Inr r)
    with "2.prems" buf show ?thesis by (cases r) (auto simp: bind_Inr_iff intro: torchPlan_wf split: if_splits)
  qed
qed simp

lemma loops_wf:
  "gguf rng sz w = Some (w', Inr p) \<Longrightarrow> wfPlan sz p" "torchLegacy rng sz w = Some (w', Inr p) \<Longrightarrow> wfPlan sz p"
  unfolding gguf_def torchLegacy_def by (erule ggufFrom_wf, erule legacyFrom_wf)

lemma planFile_wf: "planFile rng sz path w = Some (w', Inr (Some p)) \<Longrightarrow> wfPlan sz p"
  by (auto simp: planFile_def bind_Inr_iff split: if_splits dest: safetensors_wf loops_wf torchZip_wf)

text \<open>
  Which segment a tensor gets. A tensor without \<open>sub\<close> is a payload of its own, of just its length; one with \<open>sub\<close> is
  in the storage that its record in the checkpoint names. Only where there is no byte is there no segment.
\<close>

definition inSegment :: "tensor \<Rightarrow> seg list \<Rightarrow> seg \<Rightarrow> bool" where
  "inSegment t segs s \<longleftrightarrow> (if s_len s > 0 then 0 \<le> t_seg t \<and> nat (t_seg t) < length segs \<and> segs ! nat (t_seg t) = s else t_seg t = -1)"

definition ownPayload :: "tensor \<Rightarrow> seg \<Rightarrow> bool" where
  "ownPayload t s \<longleftrightarrow> t_sub t = None \<and> s_kind s = Tensor \<and> s_len s = t_len t"

definition ofStorage :: "recs \<Rightarrow> storages \<Rightarrow> tensor \<Rightarrow> seg \<Rightarrow> bool" where
  "ofStorage rs storages t s \<longleftrightarrow> (\<exists>v. (t_name t, v) \<in> set rs \<and> map_of storages (r_key (v_storage v)) = Some (s_off s, s_len s))
     \<and> (if t_sub t = None then ownPayload t s else s_kind s = Storage)"

definition holding :: "(tensor \<Rightarrow> seg \<Rightarrow> bool) \<Rightarrow> seg list \<times> tensor list \<Rightarrow> bool" where
  "holding R st \<longleftrightarrow> list_all (\<lambda>t. nat (t_seg t) < length (fst st) \<and> R t (fst st ! nat (t_seg t))) (snd st)"

lemma holding_grow:
  "holding R (payload, ts) \<Longrightarrow> list_all (\<lambda>t. t_seg t = int (length payload) \<and> R t s) us \<Longrightarrow> holding R (payload @ [s], ts @ us)"
  by (auto simp: holding_def list_all_iff nth_append)

lemma holding_own: "holding ownPayload (payload, ts) \<Longrightarrow> t_seg t = int (length payload) \<Longrightarrow> ownPayload t s \<Longrightarrow> holding ownPayload (payload @ [s], ts @ [t])"
  by (rule holding_grow) simp_all

lemma stTensors_holding: "stTensors base kvs st = Inr st' \<Longrightarrow> holding ownPayload st \<Longrightarrow> holding ownPayload st'"
  by (induction base kvs st rule: stTensors.induct) (auto simp: andThen_Inr_iff ownPayload_def holding_own split: if_splits)

lemma ggufTensors_holding: "ggufTensors start ts st = Inr st' \<Longrightarrow> holding ownPayload st \<Longrightarrow> holding ownPayload st'"
  by (induction start ts st rule: ggufTensors.induct) (auto simp: Let_def ownPayload_def holding_own split: if_splits option.splits)

lemma holding_Nil [simp]: "holding R ([], [])"
  by (simp add: holding_def)

lemma byKey_members: "(key, grp) \<in> set (byKey rs) \<Longrightarrow> set grp \<subseteq> set rs \<and> (\<forall>(n, v) \<in> set grp. r_key (v_storage v) = key)"
  by (induction rs rule: byKey.induct) (fastforce simp: Let_def)+

lemma foldl_times: "None \<notin> set xs \<Longrightarrow> foldl times (Some a) xs = Some (a * prod_list (map the xs))"
proof (induction xs arbitrary: a)
  case (Cons x xs)
  then obtain y where "x = Some y" by (cases x) auto
  with Cons show ?case by (simp add: times_def ac_simps)
qed simp

lemma torchTensor_full:
  assumes "torchTensor True item pos (name, v) = Inr t" and "isFull item nbytes v"
  shows "t_name t = name \<and> t_seg t = pos \<and> t_sub t = None \<and> t_len t = nbytes"
  using assms foldl_times [of "v_size v" 1]
  by (auto simp: torchTensor_def andThen_Inr_iff isFull_def numel_def numbersOf_def times_def split: if_splits)

lemma torchTensor_part:
  "torchTensor False item pos (name, v) = Inr t \<Longrightarrow> t_name t = name \<and> t_seg t = pos \<and> t_sub t \<noteq> None"
  by (auto simp: torchTensor_def andThen_Inr_iff split: if_splits)

lemma torchGroups_holding:
  "torchGroups storages gs st = Inr st' \<Longrightarrow> set gs \<subseteq> set (byKey rs) \<Longrightarrow> holding (ofStorage rs storages) st \<Longrightarrow> holding (ofStorage rs storages) st'"
proof (induction storages gs st rule: torchGroups.induct)
  case (2 storages key grp gs payload tensors)
  let ?item = "r_itemsize (v_storage (snd (hd grp)))"
  from "2.prems"(1) obtain start nbytes ts where
    s: "map_of storages key = Some (start, nbytes)" and
    m: "mapResult (torchTensor (list_all (\<lambda>(_, t). isFull ?item nbytes t) grp) ?item (int (length payload))) grp = Inr ts"
    by (auto simp: Let_def andThen_Inr_iff split: option.splits)
  let ?full = "list_all (\<lambda>(_, t). isFull ?item nbytes t) grp"
  let ?s = "\<lparr>s_kind = (if ?full then Tensor else Storage), s_off = start, s_len = nbytes\<rparr>"
  have "list_all (\<lambda>t. t_seg t = int (length payload) \<and> ofStorage rs storages t ?s) ts"
  proof (rule mapResult_all [OF m])
    fix x t assume x: "x \<in> set grp" and t: "torchTensor ?full ?item (int (length payload)) x = Inr t"
    obtain name v where nv: "x = (name, v)" by (cases x)
    have v: "(name, v) \<in> set rs" "r_key (v_storage v) = key" using byKey_members [of key grp rs] "2.prems"(2) x nv by auto
    show "t_seg t = int (length payload) \<and> ofStorage rs storages t ?s"
    proof (cases ?full)
      case True
      then have "isFull ?item nbytes v" using x nv by (auto simp: list_all_iff)
      with torchTensor_full [of ?item "int (length payload)" name v t nbytes] t True nv v s show ?thesis
        by (auto simp: ofStorage_def ownPayload_def)
    next
      case False
      with torchTensor_part [of ?item "int (length payload)" name v t] t nv v s show ?thesis
        by (auto simp: ofStorage_def)
    qed
  qed
  from holding_grow [OF "2.prems"(3) this] have "holding (ofStorage rs storages) (payload @ [?s], tensors @ ts)" .
  with "2.prems" "2.IH" [OF s refl refl refl] m show ?case by (auto simp: s Let_def)
qed simp

lemma finish_holding:
  assumes "finish container payload tensors (int sz) = Inr p" and "holding R (payload, tensors)" and "t \<in> set (p_tensors p)"
  shows "\<exists>s j. R (t\<lparr>t_seg := j\<rparr>) s \<and> inSegment t (p_segments p) s"
proof -
  have ts: "\<exists>segs. p_tensors p = map (\<lambda>t. t\<lparr>t_seg := if s_len (payload ! nat (t_seg t)) > 0 then indexIn (nat (t_seg t)) segs 0 else -1\<rparr>) tensors"
    using assms(1) by (auto simp: finish_def andThen_Inr_iff)
  then obtain k where k: "k < length tensors" "t = p_tensors p ! k" using assms(3) by (auto simp: in_set_conv_nth)
  have same: "tensors ! k = t\<lparr>t_seg := t_seg (tensors ! k)\<rparr>" using ts k by auto
  have h: "nat (t_seg (tensors ! k)) < length payload" "R (tensors ! k) (payload ! nat (t_seg (tensors ! k)))"
    using assms(2) k(1) by (auto simp: holding_def list_all_length)
  from finish_covers(2) [OF assms(1), unfolded Let_def, rule_format, OF k(1) h(1)] k(2)
  have "inSegment t (p_segments p) (payload ! nat (t_seg (tensors ! k)))" by (auto simp: inSegment_def split: if_splits)
  with h(2) same show ?thesis by metis
qed

lemma unseg [simp]: "ownPayload (t\<lparr>t_seg := j\<rparr>) s = ownPayload t s" "ofStorage rs storages (t\<lparr>t_seg := j\<rparr>) s = ofStorage rs storages t s"
  by (simp_all add: ownPayload_def ofStorage_def)

definition wellAssigned :: "nat \<Rightarrow> plan \<Rightarrow> bool" where
  "wellAssigned sz p \<longleftrightarrow> (\<forall>t \<in> set (p_tensors p). \<exists>s. inSegment t (p_segments p) s \<and> (t_sub t = None \<longrightarrow> ownPayload t s))
     \<and> ((\<forall>t \<in> set (p_tensors p). t_sub t = None) \<or> (\<exists>rs storages. torchPlan (p_container p) rs storages sz = Inr p
         \<and> (\<forall>t \<in> set (p_tensors p). \<exists>s. inSegment t (p_segments p) s \<and> ofStorage rs storages t s)))"

lemma own_assigned:
  assumes "finish container payload tensors (int sz) = Inr p" and "holding ownPayload (payload, tensors)"
  shows "wellAssigned sz p"
  unfolding wellAssigned_def using finish_holding [OF assms] by (force simp: ownPayload_def)

lemma torch_assigned:
  assumes "torchPlan container rs storages sz = Inr p"
  shows "wellAssigned sz p"
proof -
  from assms obtain payload tensors where g: "torchGroups storages (byKey rs) ([], []) = Inr (payload, tensors)"
    and f: "finish container payload tensors (int sz) = Inr p" by (auto simp: torchPlan_def andThen_Inr_iff)
  have c: "p_container p = container" using f by (auto simp: finish_def andThen_Inr_iff)
  have "holding (ofStorage rs storages) (payload, tensors)" by (rule torchGroups_holding [OF g]) simp_all
  then have "\<forall>t \<in> set (p_tensors p). \<exists>s. inSegment t (p_segments p) s \<and> ofStorage rs storages t s"
    using finish_holding [OF f] by fastforce
  moreover have "ofStorage rs storages t s \<Longrightarrow> t_sub t = None \<longrightarrow> ownPayload t s" for t s by (simp add: ofStorage_def)
  ultimately show ?thesis using assms unfolding wellAssigned_def c by blast
qed

lemma safetensors_assigned: "safetensors rng sz w = Some (w', Inr p) \<Longrightarrow> wellAssigned sz p"
  by (auto simp: safetensors_def bind_Inr_iff andThen_Inr_iff intro: own_assigned [OF _ stTensors_holding])

lemma ggufParse_assigned: "ggufParse buf sz = Inr p \<Longrightarrow> wellAssigned sz p"
  by (auto simp: ggufParse_def andThen_Inr_iff split: if_splits intro: own_assigned [OF _ ggufTensors_holding])

lemma ggufFrom_assigned: "ggufFrom fuel rng sz want w = Some (w', Inr p) \<Longrightarrow> wellAssigned sz p"
proof (induction fuel rng sz want arbitrary: w rule: ggufFrom.induct)
  case (2 fuel rng sz want)
  from "2.prems" obtain w1 buf where buf: "rng 0 (min sz want) w = Some (w1, Inr buf)" by (auto simp: bind_Inr_iff)
  show ?case
  proof (cases "ggufParse buf sz")
    case (Inl e)
    with "2.prems" buf "2.IH" show ?thesis by (cases e) (auto simp: bind_Inr_iff split: if_splits)
  next
    case (Inr p)
    with "2.prems" buf show ?thesis by (auto simp: bind_Inr_iff intro: ggufParse_assigned)
  qed
qed simp

lemma torchZip_assigned: "torchZip rng sz w = Some (w', Inr p) \<Longrightarrow> wellAssigned sz p"
  unfolding torchZip_def bind_Inr_iff Let_def
  by (elim exE conjE) (auto simp: bind_Inr_iff split: option.splits if_splits intro: torch_assigned)

lemma legacyFrom_assigned: "legacyFrom fuel rng sz want w = Some (w', Inr p) \<Longrightarrow> wellAssigned sz p"
proof (induction fuel rng sz want arbitrary: w rule: legacyFrom.induct)
  case (2 fuel rng sz want)
  from "2.prems" obtain w1 buf where buf: "rng 0 (min sz want) w = Some (w1, Inr buf)" by (auto simp: bind_Inr_iff)
  show ?case
  proof (cases "legacyHead buf")
    case (Inl e)
    with "2.prems" buf "2.IH" show ?thesis by (cases e) (auto simp: bind_Inr_iff split: if_splits)
  next
    case (Inr r)
    with "2.prems" buf show ?thesis by (cases r) (auto simp: bind_Inr_iff intro: torch_assigned split: if_splits)
  qed
qed simp

lemma loops_assigned:
  "gguf rng sz w = Some (w', Inr p) \<Longrightarrow> wellAssigned sz p" "torchLegacy rng sz w = Some (w', Inr p) \<Longrightarrow> wellAssigned sz p"
  unfolding gguf_def torchLegacy_def by (erule ggufFrom_assigned, erule legacyFrom_assigned)

lemma planFile_assigned: "planFile rng sz path w = Some (w', Inr (Some p)) \<Longrightarrow> wellAssigned sz p"
  by (auto simp: planFile_def bind_Inr_iff split: if_splits dest: safetensors_assigned loops_assigned torchZip_assigned)

text \<open>
  C32. Whatever the container and whatever the source answers, a plan that comes out is a lossless description of the
  file: its segments are consecutive from the first byte to the last and none is empty, so their bytes joined are the
  file, and every tensor has its place: one without \<open>sub\<close> names a tensor segment of just its length, or none if it has
  no bytes; one with \<open>sub\<close>, which only the torch formats have, names the segment at the place and with the size of the
  storage that a record of the checkpoint under its name points to, or none if that storage is empty (the record may
  still claim elements then: the length of a view is not compared with its storage).
\<close>
theorem plan_covers:
  assumes "planFile rng (length file) path w = Some (w', Inr (Some p))"
  shows "concat (map (segBytes file) (p_segments p)) = file \<and> list_all (\<lambda>s. s_len s > 0) (p_segments p) \<and>
    (\<forall>t \<in> set (p_tensors p). t_sub t = None \<and> t_len t \<le> 0 \<and> t_seg t = -1
       \<or> t_sub t = None \<and> t_len t > 0 \<and> 0 \<le> t_seg t \<and> nat (t_seg t) < length (p_segments p)
           \<and> s_kind (p_segments p ! nat (t_seg t)) = Tensor \<and> s_len (p_segments p ! nat (t_seg t)) = t_len t
       \<or> t_sub t \<noteq> None) \<and>
    ((\<forall>t \<in> set (p_tensors p). t_sub t = None) \<or> (\<exists>rs storages. torchPlan (p_container p) rs storages (length file) = Inr p
       \<and> (\<forall>t \<in> set (p_tensors p). \<exists>v off n. (t_name t, v) \<in> set rs \<and> map_of storages (r_key (v_storage v)) = Some (off, n)
           \<and> (n \<le> 0 \<and> t_seg t = -1 \<or> n > 0 \<and> 0 \<le> t_seg t \<and> nat (t_seg t) < length (p_segments p)
               \<and> s_kind (p_segments p ! nat (t_seg t)) = (if t_sub t = None then Tensor else Storage)
               \<and> s_off (p_segments p ! nat (t_seg t)) = off \<and> s_len (p_segments p ! nat (t_seg t)) = n))))"
    (is "_ \<and> _ \<and> (\<forall>t \<in> _. ?own t) \<and> (_ \<or> (\<exists>rs storages. _ \<and> (\<forall>t \<in> _. ?stored rs storages t)))")
proof -
  have a: "wellAssigned (length file) p" by (rule planFile_assigned [OF assms])
  have own: "?own t" if "t \<in> set (p_tensors p)" for t
  proof (cases "t_sub t = None")
    case True
    obtain s where "inSegment t (p_segments p) s" "t_sub t = None \<longrightarrow> ownPayload t s" using a \<open>t \<in> _\<close> unfolding wellAssigned_def by blast
    with True show ?thesis by (cases "s_len s > 0") (simp_all add: inSegment_def ownPayload_def)
  qed simp
  have stored: "?stored rs storages t" if s: "inSegment t (p_segments p) s" "ofStorage rs storages t s" for t s rs storages
  proof -
    obtain v where "(t_name t, v) \<in> set rs" "map_of storages (r_key (v_storage v)) = Some (s_off s, s_len s)"
      using s(2) by (auto simp: ofStorage_def)
    moreover have "s_kind s = (if t_sub t = None then Tensor else Storage)" using s(2) by (auto simp: ofStorage_def ownPayload_def)
    ultimately show ?thesis using s(1) by (cases "s_len s > 0") (auto simp: inSegment_def)
  qed
  have torch: "(\<forall>t \<in> set (p_tensors p). t_sub t = None) \<or> (\<exists>rs storages. torchPlan (p_container p) rs storages (length file) = Inr p
       \<and> (\<forall>t \<in> set (p_tensors p). ?stored rs storages t))"
  proof (cases "\<forall>t \<in> set (p_tensors p). t_sub t = None")
    case False
    then obtain rs storages where "torchPlan (p_container p) rs storages (length file) = Inr p"
      and s: "\<forall>t \<in> set (p_tensors p). \<exists>s. inSegment t (p_segments p) s \<and> ofStorage rs storages t s"
      using a unfolding wellAssigned_def by blast
    moreover have "\<forall>t \<in> set (p_tensors p). ?stored rs storages t"
    proof
      fix t assume "t \<in> set (p_tensors p)"
      with s obtain s where "inSegment t (p_segments p) s" "ofStorage rs storages t s" by blast
      then show "?stored rs storages t" by (rule stored)
    qed
    ultimately show ?thesis by (intro disjI2 exI conjI)
  qed simp
  have til: "tiles 0 (p_segments p) (int (length file))" using planFile_wf [OF assms] by (simp add: wfPlan_def)
  have "concat (map (segBytes file) (p_segments p)) = file" "list_all (\<lambda>s. s_len s > 0) (p_segments p)"
    using tiles_bytes [OF til] tiles_pos [OF til] by simp_all
  with own torch show ?thesis by (intro conjI ballI)
qed

text \<open>A GGUF file with one tensor of one byte after its padded header.\<close>

definition tinyGguf :: bytes where
  "tinyGguf = [0x47, 0x47, 0x55, 0x46, 3, 0, 0, 0, 1, 0, 0, 0, 0, 0, 0, 0, 0, 0, 0, 0, 0, 0, 0, 0,
     1, 0, 0, 0, 0, 0, 0, 0, 0x61, 1, 0, 0, 0, 1, 0, 0, 0, 0, 0, 0, 0, 24, 0, 0, 0, 0, 0, 0, 0, 0, 0, 0, 0,
     0, 0, 0, 0, 0, 0, 0, 7]"

definition served :: "bytes \<Rightarrow> unit source" where
  "served file a b = ret (subarray file a b)"

definition tinyPlan :: plan where
  "tinyPlan = \<lparr>p_container = ''gguf'',
     p_segments = [\<lparr>s_kind = Literal, s_off = 0, s_len = 64\<rparr>, \<lparr>s_kind = Tensor, s_off = 64, s_len = 1\<rparr>],
     p_tensors = [\<lparr>t_name = ''a'', t_dtype = Some (JStr ''I8''), t_shape = Some (JArr [JNum 1]), t_len = 1, t_seg = 1, t_sub = None\<rparr>]\<rparr>"

lemma takeMany_1: "takeMany 1 r buf i = andThen (r buf i) (\<lambda>(x, j). Inr ([x], j))"
  by (cases "r buf i") (auto simp: One_nat_def)

lemma char_a: "char_of (97 :: nat) = CHR ''a''"
  by code_simp

lemma tiny_reads:
  "takeInt 4 tinyGguf 4 = Inr (3, 8)" "takeInt 8 tinyGguf 8 = Inr (1, 16)" "takeInt 8 tinyGguf 16 = Inr (0, 24)"
  "takeStr tinyGguf 24 = Inr (''a'', 33)" "takeInt 4 tinyGguf 33 = Inr (1, 37)" "takeInt 8 tinyGguf 37 = Inr (1, 45)"
  "takeInt 4 tinyGguf 45 = Inr (24, 49)" "takeInt 8 tinyGguf 49 = Inr (0, 57)"
  by (simp_all add: takeInt_def takeStr_def need_def readUInt_def subarray_def tinyGguf_def decodeText_def char_a)

lemma tiny_parse: "ggufParse tinyGguf 65 = Inr tinyPlan"
proof -
  have "takeInfo tinyGguf 24 = Inr (\<lparr>g_name = ''a'', g_dims = [1], g_type = 24, g_off = 0\<rparr>, 57)"
    by (simp add: takeInfo_def tiny_reads takeMany_1)
  moreover have "take 4 tinyGguf = [0x47, 0x47, 0x55, 0x46]" by (simp add: tinyGguf_def)
  moreover have "GGML 24 = Some (''I8'', 1, 1)" by (simp add: GGML_def)
  ultimately show ?thesis
    by (simp add: ggufParse_def tiny_reads takeMany_1 alignOf_def finish_def cover_def tinyPlan_def)
qed

lemma gguf_once:
  assumes "rng 0 (min sz (2 ^ 20)) w = Some (w', Inr buf)" and "ggufParse buf sz = Inr p"
  shows "gguf rng sz w = Some (w', Inr p)"
proof -
  have "ggufFrom 15 rng sz (2 ^ 20) = ggufFrom (Suc 14) rng sz (2 ^ 20)" by simp
  then show ?thesis unfolding gguf_def by (simp only: ggufFrom.simps bind_def assms option.case prod.case sum.case ret_def)
qed

lemma tiny_plan: "planFile (served tinyGguf) 65 ''m.gguf'' () = Some ((), Inr (Some tinyPlan))"
proof -
  have "gguf (served tinyGguf) 65 () = Some ((), Inr tinyPlan)"
    by (rule gguf_once [OF _ tiny_parse]) (simp add: served_def ret_def subarray_def tinyGguf_def)
  then show ?thesis
    by (simp add: planFile_def bind_def served_def ret_def endsWith_def lower_def subarray_def tinyGguf_def)
qed

theorem plan_covers_witness:
  "length tinyGguf = 65 \<and> planFile (served tinyGguf) 65 ''m.gguf'' () = Some ((), Inr (Some tinyPlan)) \<and>
   concat (map (segBytes tinyGguf) (p_segments tinyPlan)) = tinyGguf"
proof -
  have len: "length tinyGguf = 65" by (simp add: tinyGguf_def)
  from plan_covers [of "served tinyGguf" tinyGguf "''m.gguf''" "()" "()" tinyPlan] len tiny_plan show ?thesis by simp
qed

subsection \<open>Planning ends\<close>

text \<open>Fuel: the sizes tried grow fourfold from at least one byte, so they pass any bound \<open>n\<close> within \<open>n\<close> turns.\<close>

lemma legacyStorages_answers: "(\<And>a b. answers (rng a b)) \<Longrightarrow> answers (legacyStorages rng buf rs keys st p)"
  by (induction rng buf rs keys st p rule: legacyStorages.induct)
    (auto simp: Let_def intro!: answers_bind split: option.splits)

lemma legacyFrom_step:
  assumes "\<And>a b. answers (rng a b)" and "want < sz \<Longrightarrow> answers (legacyFrom fuel rng sz (want * 4))"
  shows "answers (legacyFrom (Suc fuel) rng sz want)"
  unfolding legacyFrom.simps using assms(2)
  by (intro answers_bind assms(1)) (auto split: sum.splits js_error.splits intro!: answers_bind legacyStorages_answers assms(1))

lemma legacyFrom_answers:
  assumes "\<And>a b. answers (rng a b)"
  shows "sz < want + fuel \<Longrightarrow> 0 < want \<Longrightarrow> answers (legacyFrom (Suc fuel) rng sz want)"
proof (induction fuel arbitrary: want)
  case (Suc fuel)
  show ?case by (rule legacyFrom_step [OF assms], rule Suc.IH) (use Suc.prems in auto)
qed (rule legacyFrom_step [OF assms], simp)

lemma ggufFrom_step:
  assumes "\<And>a b. answers (rng a b)" and "want \<le> 2 ^ 28 \<Longrightarrow> answers (ggufFrom fuel rng sz (want * 4))"
  shows "answers (ggufFrom (Suc fuel) rng sz want)"
  unfolding ggufFrom.simps using assms(2)
  by (intro answers_bind assms(1)) (auto split: sum.splits js_error.splits)

lemma ggufFrom_answers:
  assumes "\<And>a b. answers (rng a b)"
  shows "2 ^ 28 < want * 4 ^ fuel \<Longrightarrow> answers (ggufFrom (Suc fuel) rng sz want)"
proof (induction fuel arbitrary: want)
  case (Suc fuel)
  show ?case by (rule ggufFrom_step [OF assms], rule Suc.IH) (use Suc.prems in \<open>simp add: ac_simps\<close>)
qed (rule ggufFrom_step [OF assms], simp)

lemma parts_answer:
  assumes "\<And>a b. answers (rng a b)"
  shows "answers (safetensors rng sz)" "answers (gguf rng sz)" "answers (torchZip rng sz)" "answers (torchLegacy rng sz)"
proof -
  show "answers (safetensors rng sz)" unfolding safetensors_def by (auto intro!: answers_bind assms)
  have "answers (ggufFrom (Suc 14) rng sz (2 ^ 20))" by (rule ggufFrom_answers [OF assms]) simp
  then show "answers (gguf rng sz)" by (simp add: gguf_def)
  have "answers (zipEntries rng sz)" unfolding zipEntries_def Let_def
    by (auto intro!: answers_bind assms split: option.splits)
  moreover have "answers (dataStart rng e)" for e unfolding dataStart_def by (auto intro!: answers_bind assms)
  ultimately show "answers (torchZip rng sz)" unfolding torchZip_def pool_def Let_def
    by (auto intro!: answers_bind answers_mapIO assms split: option.splits)
  show "answers (torchLegacy rng sz)" unfolding torchLegacy_def by (rule legacyFrom_answers [OF assms]) simp_all
qed

text \<open>
  C36. Planning ends on every file: if each read of the source ends, with bytes or an error, so does
  planning, whatever the bytes are (also a pickle that never stops, a header that keeps asking for
  more, or a state dict that contains itself).
\<close>
theorem plan_ends:
  assumes "\<And>a b w. rng a b w \<noteq> None"
  shows "\<exists>w' r. planFile rng sz path w = Some (w', r)"
proof -
  have r: "answers (rng a b)" for a b using assms by (simp add: answers_def)
  have "answers (planFile rng sz path)" unfolding planFile_def
    by (auto intro!: answers_bind parts_answer r)
  then show ?thesis by (auto simp: answers_def)
qed

theorem plan_ends_witness: "\<exists>w' r. planFile (served tinyGguf) 3 ''m.bin'' () = Some (w', r)"
  by (rule plan_ends) (simp add: served_def ret_def)

end
