(* ===== verification/Hashpass.thy ===== *)
theory Hashpass
  imports Torch Assemble "HOL-Library.AList" "HOL-Library.List_Lexorder" "HOL-Library.Char_ord"
begin

text \<open>
  One pass over a weight file, \<open>tensors/lib/hashpass.mjs\<close>: the file's digest, a digest per segment of
  its plan, the piece hashes of long payloads, a \<open>\<kappa>\<close> per tensor, and each tensor's canonical bytes handed
  on in the order of the plan. The stream is the list of chunks it yields, and how it ends. \<open>emit\<close> is a
  callback with a state \<open>'e\<close> of its own, which may throw. \<open>raw n\<close> is what \<open>Buffer.allocUnsafe(n)\<close> holds.
\<close>

subsection \<open>The order of tensors\<close>

definition segIds :: "plan \<Rightarrow> nat \<Rightarrow> nat list" where
  "segIds plan k = filter (\<lambda>i. t_seg (p_tensors plan ! i) = int k) [0..<length (p_tensors plan)]"

definition emptyIds :: "plan \<Rightarrow> nat list" where
  "emptyIds plan = filter (\<lambda>i. t_seg (p_tensors plan ! i) < 0) [0..<length (p_tensors plan)]"

text \<open>\<open>l.sort(cmp)\<close>: by the start in the storage, then by name; tensors with both alike stay in order.\<close>

definition subStart :: "plan \<Rightarrow> nat \<Rightarrow> int" where
  "subStart plan i = (case t_sub (p_tensors plan ! i) of Some u \<Rightarrow> u_o u | None \<Rightarrow> 0)"

definition cmpSort :: "plan \<Rightarrow> nat list \<Rightarrow> nat list" where
  "cmpSort plan l = sort_key (subStart plan) (sort_key (\<lambda>i. t_name (p_tensors plan ! i)) l)"

definition emissionOrder :: "plan \<Rightarrow> nat list result" where
  "emissionOrder plan = (if list_all (\<lambda>t. t_seg t < int (length (p_segments plan))) (p_tensors plan)
     then Inr (cmpSort plan (emptyIds plan) @ concat (map (\<lambda>k. cmpSort plan (segIds plan k)) [0..<length (p_segments plan)]))
     else Inl TypeError)"

subsection \<open>Canonical bytes\<close>

definition shapeOf :: "tensor \<Rightarrow> nat list option" where
  "shapeOf t = (case t_shape t of
     Some (JArr vs) \<Rightarrow> if list_all (\<lambda>v. case v of JNum n \<Rightarrow> 0 \<le> n | _ \<Rightarrow> False) vs then Some (map (\<lambda>v. case v of JNum n \<Rightarrow> nat n | _ \<Rightarrow> 0) vs) else None
   | _ \<Rightarrow> None)"

definition naturals :: "int list \<Rightarrow> bool" where
  "naturals ns \<longleftrightarrow> list_all (\<lambda>n. 0 \<le> n) ns"

definition canonical :: "(nat \<Rightarrow> bytes) \<Rightarrow> bytes \<Rightarrow> tensor \<Rightarrow> bytes result" where
  "canonical raw buf t = (case t_sub t of
     None \<Rightarrow> Inl TypeError
   | Some u \<Rightarrow> if \<not> naturals [u_o u, u_itemsize u, t_len t] then Inl Unmodelled else
       (case u_stride u of
          None \<Rightarrow> gather (raw (nat (t_len t))) buf \<lparr>vw_o = nat (u_o u), vw_stride = None, vw_itemsize = nat (u_itemsize u)\<rparr> [] (nat (t_len t))
        | Some st \<Rightarrow> (case shapeOf t of
            None \<Rightarrow> Inl Unmodelled
          | Some shape \<Rightarrow> if \<not> naturals st then Inl Unmodelled else
              gather (raw (nat (t_len t))) buf \<lparr>vw_o = nat (u_o u), vw_stride = Some (map nat st), vw_itemsize = nat (u_itemsize u)\<rparr> shape (nat (t_len t)))))"

subsection \<open>The pass\<close>

record hashedSeg =
  hs_kind :: segKind
  hs_digest :: string
  hs_len :: int
  hs_off :: int
  hs_pieces :: "string list option"

record 'e pass =
  hp_k :: nat
  hp_pos :: int
  hp_whole :: bytes
  hp_h :: bytes
  hp_parts :: bytes
  hp_ph :: "hasher option"
  hp_segs :: "hashedSeg list"
  hp_literals :: "(string \<times> bytes) list"
  hp_kappa :: "string option list"
  hp_e :: 'e

record hashedFile =
  hf_digest :: string
  hf_segments :: "hashedSeg list"
  hf_literals :: "(string \<times> bytes) list"
  hf_kappa :: "string option list"

type_synonym 'e emitter = "(nat \<Rightarrow> bytes \<Rightarrow> 'e \<Rightarrow> 'e result) option"

definition emitTo :: "'e emitter \<Rightarrow> nat \<Rightarrow> bytes \<Rightarrow> 'e pass \<Rightarrow> 'e pass result" where
  "emitTo emit i c st = (case emit of None \<Rightarrow> Inr st | Some f \<Rightarrow> andThen (f i c (hp_e st)) (\<lambda>e. Inr (st\<lparr>hp_e := e\<rparr>)))"

text \<open>A loop whose turns may throw.\<close>

fun foldResult :: "('a \<Rightarrow> 's \<Rightarrow> 's result) \<Rightarrow> 'a list \<Rightarrow> 's \<Rightarrow> 's result" where
  "foldResult f [] s = Inr s"
| "foldResult f (x # xs) s = andThen (f x s) (foldResult f xs)"

definition CAP :: int where "CAP = 2 ^ 31"

definition EMPTY :: string where "EMPTY = named []"

definition buffered :: "plan \<Rightarrow> bool \<Rightarrow> nat \<Rightarrow> bool" where
  "buffered plan emits k \<longleftrightarrow> s_kind (p_segments plan ! k) \<noteq> Containers.Tensor \<or> (emits \<and> 1 < length (segIds plan k))"

definition tooLarge :: "seg \<Rightarrow> js_error" where
  "tooLarge s = Error (''segment of '' @ numText (s_len s) @ '' bytes is too large to buffer'')"

definition beginSeg :: "plan \<Rightarrow> bool \<Rightarrow> 'e pass \<Rightarrow> 'e pass result" where
  "beginSeg plan emits st = (let s = p_segments plan ! hp_k st in
     if buffered plan emits (hp_k st) \<and> CAP < s_len s then Inl (tooLarge s)
     else Inr (st\<lparr>hp_h := [], hp_parts := [],
       hp_ph := (if s_kind s \<noteq> Containers.Literal \<and> int PIECE < s_len s then Some newHasher else None)\<rparr>))"

definition indexOf :: "nat list \<Rightarrow> nat \<Rightarrow> nat" where
  "indexOf xs i = length (takeWhile (\<lambda>j. j \<noteq> i) xs)"

definition setKappa :: "nat \<Rightarrow> string \<Rightarrow> 'e pass \<Rightarrow> 'e pass" where
  "setKappa i d st = st\<lparr>hp_kappa := (hp_kappa st)[i := Some d]\<rparr>"

definition hashedOf :: "'e pass \<Rightarrow> seg \<Rightarrow> hashedSeg" where
  "hashedOf st s = \<lparr>hs_kind = s_kind s, hs_digest = named (hp_h st), hs_len = s_len s, hs_off = s_off s, hs_pieces = map_option finishPieces (hp_ph st)\<rparr>"

definition endSeg :: "(nat \<Rightarrow> bytes) \<Rightarrow> plan \<Rightarrow> 'e emitter \<Rightarrow> nat list \<Rightarrow> 'e pass \<Rightarrow> 'e pass result" where
  "endSeg raw plan emit order st = (let k = hp_k st; s = p_segments plan ! k; b = hp_parts st;
       ids = sort_key (indexOf order) (segIds plan k); st1 = st\<lparr>hp_segs := hp_segs st @ [hashedOf st s]\<rparr> in
     case s_kind s of
       Containers.Literal \<Rightarrow> Inr (st1\<lparr>hp_literals := AList.update (named (hp_h st)) b (hp_literals st1)\<rparr>)
     | Containers.Tensor \<Rightarrow> (let st2 = fold (\<lambda>i. setKappa i (named (hp_h st))) ids st1 in
         if buffered plan (\<not> Option.is_none emit) k then foldResult (\<lambda>i. emitTo emit i b) ids st2 else Inr st2)
     | Containers.Storage \<Rightarrow> foldResult (\<lambda>i st'. andThen (canonical raw b (p_tensors plan ! i)) (\<lambda>c.
         emitTo emit i c (setKappa i (named c) st'))) ids st1)"

text \<open>One turn of the loop over a chunk: what is left of the chunk, and the state.\<close>

definition feedSeg :: "plan \<Rightarrow> 'e emitter \<Rightarrow> bytes \<Rightarrow> 'e pass \<Rightarrow> 'e pass result" where
  "feedSeg plan emit piece st = (let k = hp_k st;
       st1 = st\<lparr>hp_h := hp_h st @ piece, hp_ph := map_option (update piece) (hp_ph st), hp_pos := hp_pos st + int (length piece)\<rparr> in
     if buffered plan (\<not> Option.is_none emit) k then Inr (st1\<lparr>hp_parts := hp_parts st1 @ piece\<rparr>)
     else case segIds plan k of [i] \<Rightarrow> emitTo emit i piece st1 | _ \<Rightarrow> Inr st1)"

definition turn :: "(nat \<Rightarrow> bytes) \<Rightarrow> plan \<Rightarrow> 'e emitter \<Rightarrow> nat list \<Rightarrow> bytes \<Rightarrow> 'e pass \<Rightarrow> (bytes \<times> 'e pass) result" where
  "turn raw plan emit order c st = (if hp_k st \<ge> length (p_segments plan) then Inl TypeError else
     let s = p_segments plan ! hp_k st; room = s_off s + s_len s - hp_pos st in
     if room < 0 then Inl Unmodelled else
     let n = min (length c) (nat room) in
     andThen (feedSeg plan emit (take n c) st) (\<lambda>st1.
       if hp_pos st1 = s_off s + s_len s
       then andThen (endSeg raw plan emit order st1) (\<lambda>st2. let st3 = st2\<lparr>hp_k := Suc (hp_k st2)\<rparr> in
         andThen (if hp_k st3 < length (p_segments plan) then beginSeg plan (\<not> Option.is_none emit) st3 else Inr st3) (\<lambda>st4. Inr (drop n c, st4)))
       else Inr (drop n c, st1)))"

lemma emitTo_k: "emitTo emit i c st = Inr st' \<Longrightarrow> hp_k st' = hp_k st \<and> hp_pos st' = hp_pos st"
  by (auto simp: emitTo_def andThen_Inr_iff split: option.splits)

lemma foldResult_keeps: "foldResult f xs s = Inr s' \<Longrightarrow> (\<And>x s s'. f x s = Inr s' \<Longrightarrow> g s' = g s) \<Longrightarrow> g s' = g s"
  by (induction xs arbitrary: s) (auto simp: andThen_Inr_iff)

lemma fold_setKappa: "fold (\<lambda>i. setKappa i d) ids st = st\<lparr>hp_kappa := fold (\<lambda>i ks. ks[i := Some d]) ids (hp_kappa st)\<rparr>"
  by (induction ids arbitrary: st) (auto simp: setKappa_def)

lemma endSeg_k: "endSeg raw plan emit order st = Inr st' \<Longrightarrow> hp_k st' = hp_k st"
  by (auto simp: endSeg_def Let_def fold_setKappa setKappa_def andThen_Inr_iff dest: emitTo_k
      dest!: foldResult_keeps [where g = hp_k] split: segKind.splits if_splits) (auto dest!: emitTo_k)

lemma beginSeg_k: "beginSeg plan emits st = Inr st' \<Longrightarrow> hp_k st' = hp_k st"
  by (auto simp: beginSeg_def Let_def split: if_splits)

lemma feedSeg_k: "feedSeg plan emit piece st = Inr st' \<Longrightarrow> hp_k st' = hp_k st \<and> hp_pos st' = hp_pos st + int (length piece)"
  by (auto simp: feedSeg_def Let_def dest: emitTo_k split: if_splits list.splits)

lemma turn_less:
  assumes "turn raw plan emit order c st = Inr (c', st')"
  shows "length c' + (length (p_segments plan) - hp_k st') < length c + (length (p_segments plan) - hp_k st) \<or> c = []"
proof -
  let ?s = "p_segments plan ! hp_k st"
  let ?n = "min (length c) (nat (s_off ?s + s_len ?s - hp_pos st))"
  from assms have k: "hp_k st < length (p_segments plan)" and room: "hp_pos st \<le> s_off ?s + s_len ?s"
    by (auto simp: turn_def Let_def split: if_splits)
  from assms k room obtain st1 where f: "feedSeg plan emit (take ?n c) st = Inr st1"
    by (auto simp: turn_def Let_def andThen_Inr_iff)
  note f1 = feedSeg_k [OF f]
  show ?thesis
  proof (cases "hp_pos st1 = s_off ?s + s_len ?s")
    case True
    with assms k room f have "c' = drop ?n c \<and> hp_k st' = Suc (hp_k st)"
      using f1 by (auto simp: turn_def Let_def andThen_Inr_iff dest!: endSeg_k beginSeg_k split: if_splits)
    with k show ?thesis by auto
  next
    case False
    with assms k room f have "c' = drop ?n c \<and> st' = st1" by (simp add: turn_def Let_def)
    with f1 have c: "c' = drop ?n c" "hp_k st' = hp_k st" by simp_all
    have "nat (s_off ?s + s_len ?s - hp_pos st) \<noteq> 0" using False f1 room by auto
    with c show ?thesis by auto
  qed
qed

function consume :: "(nat \<Rightarrow> bytes) \<Rightarrow> plan \<Rightarrow> 'e emitter \<Rightarrow> nat list \<Rightarrow> bytes \<Rightarrow> 'e pass \<Rightarrow> 'e pass result" where
  "consume raw plan emit order c st = (if c = [] then Inr st else case turn raw plan emit order c st of
     Inl e \<Rightarrow> Inl e | Inr (c', st') \<Rightarrow> consume raw plan emit order c' st')"
  by pat_completeness auto
termination
  by (relation "measure (\<lambda>(raw, plan, emit, order, c, st). length c + (length (p_segments plan) - hp_k st))") (auto dest: turn_less)

declare consume.simps [simp del]

definition startPass :: "plan \<Rightarrow> 'e \<Rightarrow> 'e pass" where
  "startPass plan e = \<lparr>hp_k = 0, hp_pos = 0, hp_whole = [], hp_h = [], hp_parts = [], hp_ph = None, hp_segs = [], hp_literals = [],
     hp_kappa = map (\<lambda>t. if t_seg t < 0 then Some EMPTY else None) (p_tensors plan), hp_e = e\<rparr>"

definition shortRead :: "int \<Rightarrow> nat \<Rightarrow> js_error" where
  "shortRead pos sz = Error (''short read: '' @ numText pos @ '' of '' @ decimal sz)"

definition hashFile :: "(nat \<Rightarrow> bytes) \<Rightarrow> plan \<Rightarrow> nat \<Rightarrow> 'e emitter \<Rightarrow> bytes list \<Rightarrow> js_error option \<Rightarrow> 'e \<Rightarrow> (hashedFile \<times> 'e) result" where
  "hashFile raw plan sz emit cs ending e =
     andThen (emissionOrder plan) (\<lambda>order.
     andThen (foldResult (\<lambda>i. emitTo emit i []) (filter (\<lambda>i. t_seg (p_tensors plan ! i) < 0) order) (startPass plan e)) (\<lambda>st0.
     andThen (if p_segments plan = [] then Inr st0 else beginSeg plan (\<not> Option.is_none emit) st0) (\<lambda>st1.
     andThen (foldResult (\<lambda>c st. consume raw plan emit order c (st\<lparr>hp_whole := hp_whole st @ c\<rparr>)) cs st1) (\<lambda>st2.
     case ending of Some err \<Rightarrow> Inl err | None \<Rightarrow>
       if hp_k st2 \<noteq> length (p_segments plan) \<or> hp_pos st2 \<noteq> int sz then Inl (shortRead (hp_pos st2) sz)
       else Inr (\<lparr>hf_digest = named (hp_whole st2), hf_segments = hp_segs st2, hf_literals = hp_literals st2, hf_kappa = hp_kappa st2\<rparr>, hp_e st2)))))"

subsection \<open>What the pass should find\<close>

definition bytesOf :: "(nat \<Rightarrow> bytes) \<Rightarrow> bytes \<Rightarrow> plan \<Rightarrow> nat \<Rightarrow> bytes" where
  "bytesOf raw file plan i = (let t = p_tensors plan ! i; s = p_segments plan ! nat (t_seg t) in
     if t_seg t < 0 then [] else if s_kind s = Containers.Storage
       then (case canonical raw (segBytes file s) t of Inr c \<Rightarrow> c | Inl _ \<Rightarrow> []) else segBytes file s)"

definition readable :: "(nat \<Rightarrow> bytes) \<Rightarrow> bytes \<Rightarrow> plan \<Rightarrow> bool" where
  "readable raw file plan \<longleftrightarrow> list_all (\<lambda>t. 0 \<le> t_seg t \<and> s_kind (p_segments plan ! nat (t_seg t)) = Containers.Storage \<longrightarrow>
     (case canonical raw (segBytes file (p_segments plan ! nat (t_seg t))) t of Inr _ \<Rightarrow> True | Inl _ \<Rightarrow> False)) (p_tensors plan)"

definition fits :: "plan \<Rightarrow> bool \<Rightarrow> bool" where
  "fits plan emits \<longleftrightarrow> list_all (\<lambda>k. buffered plan emits k \<longrightarrow> s_len (p_segments plan ! k) \<le> CAP) [0..<length (p_segments plan)]"

definition isLong :: "seg \<Rightarrow> bool" where
  "isLong s \<longleftrightarrow> s_kind s \<noteq> Containers.Literal \<and> int PIECE < s_len s"

definition segOf :: "bytes \<Rightarrow> seg \<Rightarrow> hashedSeg" where
  "segOf file s = \<lparr>hs_kind = s_kind s, hs_digest = named (segBytes file s), hs_len = s_len s, hs_off = s_off s,
     hs_pieces = (if isLong s then Some (map sha256hex (chunks PIECE (segBytes file s))) else None)\<rparr>"

definition keepLiteral :: "bytes \<Rightarrow> seg \<Rightarrow> (string \<times> bytes) list \<Rightarrow> (string \<times> bytes) list" where
  "keepLiteral file s ls = (if s_kind s = Containers.Literal then AList.update (named (segBytes file s)) (segBytes file s) ls else ls)"

definition kappasTo :: "(nat \<Rightarrow> bytes) \<Rightarrow> bytes \<Rightarrow> plan \<Rightarrow> nat \<Rightarrow> string option list" where
  "kappasTo raw file plan k = map (\<lambda>i. if t_seg (p_tensors plan ! i) < int k then Some (named (bytesOf raw file plan i)) else None) [0..<length (p_tensors plan)]"

definition expected :: "(nat \<Rightarrow> bytes) \<Rightarrow> bytes \<Rightarrow> plan \<Rightarrow> hashedFile" where
  "expected raw file plan = \<lparr>hf_digest = named file, hf_segments = map (segOf file) (p_segments plan),
     hf_literals = fold (keepLiteral file) (p_segments plan) [],
     hf_kappa = map (\<lambda>i. Some (named (bytesOf raw file plan i))) [0..<length (p_tensors plan)]\<rparr>"

text \<open>Tensor after tensor, each in one or more chunks that join to its bytes.\<close>

inductive told :: "('i \<Rightarrow> bytes) \<Rightarrow> 'i list \<Rightarrow> ('i \<times> bytes) list \<Rightarrow> bool" for bs where
  told_Nil: "told bs [] []"
| told_Cons: "cs \<noteq> [] \<Longrightarrow> concat cs = bs i \<Longrightarrow> told bs ids ev \<Longrightarrow> told bs (i # ids) (map (Pair i) cs @ ev)"

lemma told_append: "told bs is ev \<Longrightarrow> told bs js ev' \<Longrightarrow> told bs (is @ js) (ev @ ev')"
  by (induction rule: told.induct) (auto intro: told_Cons)

lemma told_one: "cs \<noteq> [] \<Longrightarrow> concat cs = bs i \<Longrightarrow> told bs [i] (map (Pair i) cs)"
  using told_Cons [OF _ _ told_Nil, of cs bs i] by simp

lemma told_map:
  "told bs ids ev \<Longrightarrow> (\<And>i. i \<in> set ids \<Longrightarrow> bs' (g i) = bs i) \<Longrightarrow> told bs' (map g ids) (map (\<lambda>(i, c). (g i, c)) ev)"
proof (induction rule: told.induct)
  case (told_Cons cs i ids ev)
  then have "told bs' (g i # map g ids) (map (Pair (g i)) cs @ map (\<lambda>(i, c). (g i, c)) ev)" by (intro told.told_Cons) auto
  then show ?case by (simp add: comp_def)
qed (simp add: told_Nil)

lemma told_each: "told bs is (map (\<lambda>i. (i, bs i)) is)"
proof (induction "is")
  case (Cons i ids)
  then show ?case using told_append [OF told_one [of "[bs i]" bs i]] by simp
qed (simp add: told_Nil)

definition orderTo :: "plan \<Rightarrow> nat \<Rightarrow> nat list" where
  "orderTo plan k = cmpSort plan (emptyIds plan) @ concat (map (\<lambda>k. cmpSort plan (segIds plan k)) [0..<k])"

lemma orderTo_Suc: "orderTo plan (Suc k) = orderTo plan k @ cmpSort plan (segIds plan k)"
  by (simp add: orderTo_def)

lemma set_cmpSort [simp]: "set (cmpSort plan l) = set l"
  by (simp add: cmpSort_def)

lemma distinct_cmpSort [simp]: "distinct (cmpSort plan l) = distinct l"
  by (simp add: cmpSort_def)

lemma set_segIds: "i \<in> set (segIds plan k) \<longleftrightarrow> i < length (p_tensors plan) \<and> t_seg (p_tensors plan ! i) = int k"
  by (auto simp: segIds_def)

lemma set_emptyIds: "i \<in> set (emptyIds plan) \<longleftrightarrow> i < length (p_tensors plan) \<and> t_seg (p_tensors plan ! i) < 0"
  by (auto simp: emptyIds_def)

lemma distinct_ids [simp]: "distinct (segIds plan k)" "distinct (emptyIds plan)"
  by (simp_all add: segIds_def emptyIds_def)

lemma set_orderTo: "i \<in> set (orderTo plan k) \<longleftrightarrow> i < length (p_tensors plan) \<and> t_seg (p_tensors plan ! i) < int k"
proof -
  have "(t_seg (p_tensors plan ! i) < 0 \<or> (\<exists>j < k. t_seg (p_tensors plan ! i) = int j)) = (t_seg (p_tensors plan ! i) < int k)"
    by (metis le_less_linear nat_less_iff nat_0_le of_nat_0_le_iff of_nat_less_iff order_less_le_trans)
  then show ?thesis by (auto simp: orderTo_def set_emptyIds set_segIds)
qed

lemma distinct_orderTo: "distinct (orderTo plan k)"
  by (induction k) (auto simp: orderTo_Suc set_orderTo set_segIds, simp add: orderTo_def)

lemma indexOf_at: "distinct xs \<Longrightarrow> n < length xs \<Longrightarrow> indexOf xs (xs ! n) = n"
proof -
  assume d: "distinct xs" "n < length xs"
  have "takeWhile (\<lambda>j. j \<noteq> xs ! n) (take n xs @ xs ! n # drop (Suc n) xs) = take n xs"
    using d by (subst takeWhile_append2) (auto simp: in_set_conv_nth nth_eq_iff_index_eq)
  then show ?thesis using d by (simp add: indexOf_def id_take_nth_drop [symmetric])
qed

lemma map_indexOf: "distinct (as @ xs @ bs) \<Longrightarrow> map (indexOf (as @ xs @ bs)) xs = [length as..<length as + length xs]"
proof (rule nth_equalityI)
  fix n assume d: "distinct (as @ xs @ bs)" "n < length (map (indexOf (as @ xs @ bs)) xs)"
  have "indexOf (as @ xs @ bs) ((as @ xs @ bs) ! (length as + n)) = length as + n" using d by (intro indexOf_at) auto
  then show "map (indexOf (as @ xs @ bs)) xs ! n = [length as..<length as + length xs] ! n" using d by (simp add: nth_append)
qed simp

text \<open>Sorting by the place in the order puts a segment's tensors back in that order.\<close>

lemma sorted_by_order:
  assumes "distinct (as @ xs @ bs)" and "set ys = set xs" and "distinct ys"
  shows "sort_key (indexOf (as @ xs @ bs)) ys = xs"
proof -
  let ?f = "indexOf (as @ xs @ bs)"
  have m: "map ?f xs = [length as..<length as + length xs]" by (rule map_indexOf [OF assms(1)])
  then have d: "distinct (map ?f xs)" by simp
  then have inj: "inj_on ?f (set xs)" by (simp add: distinct_map)
  show ?thesis
  proof (rule map_sorted_distinct_set_unique)
    show "inj_on ?f (set (sort_key ?f ys) \<union> set xs)" using inj assms(2) by simp
    show "distinct (map ?f (sort_key ?f ys))" using inj assms by (simp add: distinct_map)
  qed (use d m assms in auto)
qed

lemma ids_in_order:
  assumes "k < length (p_segments plan)"
  shows "sort_key (indexOf (orderTo plan (length (p_segments plan)))) (segIds plan k) = cmpSort plan (segIds plan k)"
proof -
  have "[0..<length (p_segments plan)] = [0..<k] @ k # [Suc k..<length (p_segments plan)]"
    using assms upt_add_eq_append [of 0 k "length (p_segments plan) - k"] by (simp add: upt_conv_Cons)
  then obtain bs where b: "orderTo plan (length (p_segments plan)) = orderTo plan k @ cmpSort plan (segIds plan k) @ bs"
    by (simp add: orderTo_def)
  show ?thesis unfolding b by (rule sorted_by_order) (use distinct_orderTo [of plan "length (p_segments plan)"] b in auto)
qed

subsection \<open>The pass finds it\<close>

text \<open>The callback that only records what it is called with, or none.\<close>

definition recorder :: "bool \<Rightarrow> ((nat \<times> bytes) list) emitter" where
  "recorder lg = (if lg then Some (\<lambda>i c ev. Inr (ev @ [(i, c)])) else None)"

lemma recorder_none [simp]: "Option.is_none (recorder lg) \<longleftrightarrow> \<not> lg"
  by (simp add: recorder_def)

lemma emitTo_recorder: "emitTo (recorder lg) i c st = Inr (if lg then st\<lparr>hp_e := hp_e st @ [(i, c)]\<rparr> else st)"
  by (simp add: emitTo_def recorder_def)

lemma foldResult_recorder: "foldResult (\<lambda>i. emitTo (recorder lg) i (f i)) is st = Inr (if lg then st\<lparr>hp_e := hp_e st @ map (\<lambda>i. (i, f i)) is\<rparr> else st)"
  by (induction "is" arbitrary: st) (auto simp: emitTo_recorder)

definition stateAt :: "(nat \<Rightarrow> bytes) \<Rightarrow> bytes \<Rightarrow> plan \<Rightarrow> bool \<Rightarrow> nat \<Rightarrow> bytes \<Rightarrow> (nat \<times> bytes) list \<Rightarrow> bytes \<Rightarrow> hasher option \<Rightarrow> (nat \<times> bytes) list pass" where
  "stateAt raw file plan lg k b ev w ph = \<lparr>hp_k = k, hp_pos = s_off (p_segments plan ! k) + int (length b), hp_whole = w, hp_h = b,
     hp_parts = (if buffered plan lg k then b else []), hp_ph = ph, hp_segs = map (segOf file) (take k (p_segments plan)),
     hp_literals = fold (keepLiteral file) (take k (p_segments plan)) [], hp_kappa = kappasTo raw file plan k, hp_e = ev\<rparr>"

definition hashing :: "plan \<Rightarrow> nat \<Rightarrow> bytes \<Rightarrow> hasher option \<Rightarrow> bool" where
  "hashing plan k b ph \<longleftrightarrow> (if isLong (p_segments plan ! k) then (case ph of Some h \<Rightarrow> hashed b h | None \<Rightarrow> False) else ph = None)"

definition toldTo :: "(nat \<Rightarrow> bytes) \<Rightarrow> bytes \<Rightarrow> plan \<Rightarrow> bool \<Rightarrow> nat \<Rightarrow> (nat \<times> bytes) list \<Rightarrow> bool" where
  "toldTo raw file plan lg k ev \<longleftrightarrow> (if lg then told (bytesOf raw file plan) (orderTo plan k) ev else ev = [])"

definition lone :: "plan \<Rightarrow> bool \<Rightarrow> nat \<Rightarrow> nat option" where
  "lone plan lg k = (if lg \<and> \<not> buffered plan lg k then (case segIds plan k of [i] \<Rightarrow> Some i | _ \<Rightarrow> None) else None)"

definition toldIn :: "(nat \<Rightarrow> bytes) \<Rightarrow> bytes \<Rightarrow> plan \<Rightarrow> bool \<Rightarrow> nat \<Rightarrow> bytes \<Rightarrow> (nat \<times> bytes) list \<Rightarrow> bool" where
  "toldIn raw file plan lg k b ev \<longleftrightarrow> (\<exists>ev0 cs. toldTo raw file plan lg k ev0 \<and>
     (case lone plan lg k of Some i \<Rightarrow> ev = ev0 @ map (Pair i) cs \<and> concat cs = b | None \<Rightarrow> ev = ev0))"

text \<open>In the middle of segment \<open>k\<close>, or past the last one.\<close>

definition midway :: "(nat \<Rightarrow> bytes) \<Rightarrow> bytes \<Rightarrow> plan \<Rightarrow> bool \<Rightarrow> (nat \<times> bytes) list pass \<Rightarrow> bool" where
  "midway raw file plan lg st \<longleftrightarrow> (\<exists>k b ev w ph. st = stateAt raw file plan lg k b ev w ph \<and> k < length (p_segments plan) \<and>
     int (length b) < s_len (p_segments plan ! k) \<and> b = take (length b) (segBytes file (p_segments plan ! k)) \<and>
     hashing plan k b ph \<and> toldIn raw file plan lg k b ev)"

definition passed :: "(nat \<Rightarrow> bytes) \<Rightarrow> bytes \<Rightarrow> plan \<Rightarrow> bool \<Rightarrow> (nat \<times> bytes) list pass \<Rightarrow> bool" where
  "passed raw file plan lg st \<longleftrightarrow> hp_k st = length (p_segments plan) \<and> hp_pos st = int (length file) \<and>
     hp_segs st = map (segOf file) (p_segments plan) \<and> hp_literals st = fold (keepLiteral file) (p_segments plan) [] \<and>
     hp_kappa st = kappasTo raw file plan (length (p_segments plan)) \<and> toldTo raw file plan lg (length (p_segments plan)) (hp_e st)"

lemma tiles_nth:
  "tiles pos segs sz \<Longrightarrow> k < length segs \<Longrightarrow> pos \<le> s_off (segs ! k) \<and> 0 < s_len (segs ! k) \<and> s_off (segs ! k) + s_len (segs ! k) \<le> sz \<and>
     (if Suc k < length segs then s_off (segs ! Suc k) else sz) = s_off (segs ! k) + s_len (segs ! k)"
proof (induction segs arbitrary: pos k)
  case (Cons s segs)
  then have t: "tiles (pos + s_len s) segs sz" and s: "s_off s = pos" "0 < s_len s" by auto
  note le = tiles_le [OF t]
  show ?case
  proof (cases k)
    case 0
    show ?thesis using t s le by (cases segs) (auto simp: 0)
  next
    case (Suc j)
    then show ?thesis using Cons.IH [OF t, of j] Cons.prems(2) s by auto
  qed
qed simp

lemma feed_state:
  assumes "k < length (p_segments plan)"
  shows "feedSeg plan (recorder lg) piece (stateAt raw file plan lg k b ev w ph) =
    Inr (stateAt raw file plan lg k (b @ piece) (case lone plan lg k of Some i \<Rightarrow> ev @ [(i, piece)] | None \<Rightarrow> ev) w (map_option (update piece) ph))"
  using assms by (auto simp: feedSeg_def stateAt_def Let_def lone_def emitTo_recorder split: list.splits)

lemma feed_told:
  "toldIn raw file plan lg k b ev \<Longrightarrow> toldIn raw file plan lg k (b @ piece) (case lone plan lg k of Some i \<Rightarrow> ev @ [(i, piece)] | None \<Rightarrow> ev)"
proof -
  assume "toldIn raw file plan lg k b ev"
  then obtain ev0 cs where "toldTo raw file plan lg k ev0" "case lone plan lg k of Some i \<Rightarrow> ev = ev0 @ map (Pair i) cs \<and> concat cs = b | None \<Rightarrow> ev = ev0"
    by (auto simp: toldIn_def)
  then show ?thesis unfolding toldIn_def by (intro exI [of _ ev0] exI [of _ "cs @ [piece]"]) (auto split: option.splits)
qed

lemma feed_hashing: "hashing plan k b ph \<Longrightarrow> hashing plan k (b @ piece) (map_option (update piece) ph)"
  by (auto simp: hashing_def update_hashed split: if_splits option.splits)

lemma fold_kappa: "fold (\<lambda>i ks. ks[i := Some d]) ids ks = map (\<lambda>i. if i \<in> set ids then Some d else ks ! i) [0..<length ks]"
  by (induction ids arbitrary: ks) (auto intro!: nth_equalityI simp: nth_list_update map_nth)

lemma kappasTo_Suc: "kappasTo raw file plan (Suc k) = map (\<lambda>i. if i \<in> set (segIds plan k) then Some (named (bytesOf raw file plan i)) else kappasTo raw file plan k ! i) [0..<length (p_tensors plan)]"
  by (auto simp: kappasTo_def set_segIds)

lemma hashed_new: "hashed [] newHasher"
  by (simp add: hashed_def newHasher_def)

lemma hashed_finish: "hashed b h \<Longrightarrow> finishPieces h = map sha256hex (chunks PIECE b)"
  by (auto simp: hashed_def finishPieces_def chunks_full_append chunks_short)

lemma finish_hashing: "hashing plan k b ph \<Longrightarrow> b = segBytes file (p_segments plan ! k) \<Longrightarrow> hashedOf (stateAt raw file plan lg k b ev w ph) (p_segments plan ! k) = segOf file (p_segments plan ! k)"
  by (auto simp: hashing_def hashedOf_def segOf_def stateAt_def hashed_finish split: if_splits option.splits)

text \<open>The end of a segment: what it found is what the segment holds, and its tensors are told.\<close>

lemma bytesOf_tensor: "i \<in> set (segIds plan k) \<Longrightarrow> s_kind (p_segments plan ! k) = Containers.Tensor \<Longrightarrow> bytesOf raw file plan i = segBytes file (p_segments plan ! k)"
  by (auto simp: bytesOf_def set_segIds Let_def)

lemma canonical_bytesOf:
  assumes "readable raw file plan" and "i \<in> set (segIds plan k)" and "s_kind (p_segments plan ! k) = Containers.Storage"
  shows "canonical raw (segBytes file (p_segments plan ! k)) (p_tensors plan ! i) = Inr (bytesOf raw file plan i)"
proof -
  have i: "p_tensors plan ! i \<in> set (p_tensors plan)" "t_seg (p_tensors plan ! i) = int k" using assms(2) by (auto simp: set_segIds)
  then obtain c where "canonical raw (segBytes file (p_segments plan ! k)) (p_tensors plan ! i) = Inr c"
    using assms(1,3) i(2) unfolding readable_def list_all_iff
    by (cases "canonical raw (segBytes file (p_segments plan ! k)) (p_tensors plan ! i)") (auto dest!: bspec [OF _ i(1)])
  then show ?thesis using i assms(3) by (simp add: bytesOf_def Let_def)
qed

lemma storage_fold:
  assumes "\<And>i. i \<in> set ids \<Longrightarrow> canonical raw b (p_tensors plan ! i) = Inr (f i)"
  shows "foldResult (\<lambda>i st'. andThen (canonical raw b (p_tensors plan ! i)) (\<lambda>c. emitTo (recorder lg) i c (setKappa i (named c) st'))) ids st =
    Inr (st\<lparr>hp_kappa := fold (\<lambda>i ks. ks[i := Some (named (f i))]) ids (hp_kappa st), hp_e := (if lg then hp_e st @ map (\<lambda>i. (i, f i)) ids else hp_e st)\<rparr>)"
  using assms by (induction ids arbitrary: st) (auto simp: emitTo_recorder setKappa_def)

lemma fold_kappa_each: "distinct ids \<Longrightarrow> fold (\<lambda>i ks. ks[i := Some (f i)]) ids ks = map (\<lambda>i. if i \<in> set ids then Some (f i) else ks ! i) [0..<length ks]"
  by (induction ids arbitrary: ks) (auto intro!: nth_equalityI simp: nth_list_update map_nth)

lemma length_kappasTo [simp]: "length (kappasTo raw file plan k) = length (p_tensors plan)"
  by (simp add: kappasTo_def)

lemma literal_ids:
  assumes "wfPlan sz plan" and "k < length (p_segments plan)" and "s_kind (p_segments plan ! k) = Containers.Literal"
  shows "segIds plan k = []"
proof -
  have "\<not> i \<in> set (segIds plan k)" for i
  proof
    assume "i \<in> set (segIds plan k)"
    then have "p_tensors plan ! i \<in> set (p_tensors plan)" "t_seg (p_tensors plan ! i) = int k" by (auto simp: set_segIds)
    with assms show False by (fastforce simp: wfPlan_def list_all_iff)
  qed
  then show ?thesis by (metis list.set_intros(1) neq_Nil_conv)
qed

definition doneAt :: "(nat \<Rightarrow> bytes) \<Rightarrow> bytes \<Rightarrow> plan \<Rightarrow> bool \<Rightarrow> nat \<Rightarrow> (nat \<times> bytes) list \<Rightarrow> (nat \<times> bytes) list pass \<Rightarrow> bool" where
  "doneAt raw file plan lg k ev st \<longleftrightarrow> hp_segs st = map (segOf file) (take (Suc k) (p_segments plan)) \<and>
     hp_literals st = fold (keepLiteral file) (take (Suc k) (p_segments plan)) [] \<and>
     hp_kappa st = kappasTo raw file plan (Suc k) \<and> hp_e st = ev"

lemma end_state:
  fixes ev :: "(nat \<times> bytes) list" and w :: bytes and lg :: bool
  assumes wf: "wfPlan (length file) plan" and rd: "readable raw file plan" and k: "k < length (p_segments plan)"
    and b: "b = segBytes file (p_segments plan ! k)" and hs: "hashing plan k b ph"
  defines "st \<equiv> stateAt raw file plan lg k b ev w ph"
    and "evs \<equiv> (if lg \<and> buffered plan lg k then map (\<lambda>i. (i, bytesOf raw file plan i)) (cmpSort plan (segIds plan k)) else [])"
  shows "\<exists>st'. endSeg raw plan (recorder lg) (orderTo plan (length (p_segments plan))) st = Inr st' \<and>
     doneAt raw file plan lg k (ev @ evs) st' \<and> hp_k st' = k \<and> hp_pos st' = hp_pos st \<and> hp_whole st' = w"
proof -
  let ?s = "p_segments plan ! k"
  let ?ids = "cmpSort plan (segIds plan k)"
  have tk: "take (Suc k) (p_segments plan) = take k (p_segments plan) @ [?s]" using k by (rule take_Suc_conv_app_nth)
  have ids: "sort_key (indexOf (orderTo plan (length (p_segments plan)))) (segIds plan k) = ?ids" by (rule ids_in_order [OF k])
  have ho: "hashedOf st ?s = segOf file ?s" unfolding st_def by (rule finish_hashing [OF hs b])
  have h: "hp_h st = b" "hp_k st = k" "hp_parts st = (if buffered plan lg k then b else [])" by (simp_all add: st_def stateAt_def)
  let ?st1 = "st\<lparr>hp_segs := hp_segs st @ [segOf file ?s]\<rparr>"
  show ?thesis
  proof (cases "s_kind ?s")
    case Literal
    have n: "segIds plan k = []" by (rule literal_ids [OF wf k Literal])
    have bf: "buffered plan lg k" by (simp add: buffered_def Literal)
    have "endSeg raw plan (recorder lg) (orderTo plan (length (p_segments plan))) st = Inr (?st1\<lparr>hp_literals := AList.update (named b) b (hp_literals ?st1)\<rparr>)"
      by (simp add: endSeg_def Let_def h ho Literal bf)
    then show ?thesis
      by (simp add: doneAt_def st_def stateAt_def tk evs_def n kappasTo_Suc keepLiteral_def Literal b) (simp add: kappasTo_def cmpSort_def)
  next
    case Tensor
    have sb: "\<And>i. i \<in> set ?ids \<Longrightarrow> bytesOf raw file plan i = b" using bytesOf_tensor [OF _ Tensor] b by simp
    let ?st2 = "?st1\<lparr>hp_kappa := kappasTo raw file plan (Suc k)\<rparr>"
    have f: "fold (\<lambda>i. setKappa i (named b)) ?ids ?st1 = ?st2"
      using sb by (simp add: fold_setKappa fold_kappa kappasTo_Suc) (simp add: st_def stateAt_def cong: map_cong)
    have m: "map (\<lambda>i. (i, b)) ?ids = map (\<lambda>i. (i, bytesOf raw file plan i)) ?ids" using sb by simp
    have "endSeg raw plan (recorder lg) (orderTo plan (length (p_segments plan))) st = Inr (?st2\<lparr>hp_e := ev @ evs\<rparr>)"
      using f m by (simp add: endSeg_def Let_def h ho ids Tensor foldResult_recorder evs_def) (simp add: st_def stateAt_def)
    then show ?thesis by (simp add: doneAt_def st_def stateAt_def tk keepLiteral_def Tensor)
  next
    case Storage
    have bf: "buffered plan lg k" by (simp add: buffered_def Storage)
    have "endSeg raw plan (recorder lg) (orderTo plan (length (p_segments plan))) st =
        Inr (?st1\<lparr>hp_kappa := fold (\<lambda>i ks. ks[i := Some (named (bytesOf raw file plan i))]) ?ids (hp_kappa st), hp_e := ev @ evs\<rparr>)"
      by (simp add: endSeg_def Let_def h ho ids Storage bf, subst storage_fold [where f = "bytesOf raw file plan"])
        (use canonical_bytesOf [OF rd _ Storage] b in \<open>auto simp: evs_def bf st_def stateAt_def\<close>)
    then show ?thesis by (simp add: doneAt_def st_def stateAt_def tk keepLiteral_def Storage fold_kappa_each kappasTo_Suc)
  qed
qed

lemma told_end:
  assumes wf: "wfPlan sz plan" and k: "k < length (p_segments plan)" and b: "b = segBytes file (p_segments plan ! k)" "b \<noteq> []"
    and t: "toldIn raw file plan lg k b ev"
  shows "toldTo raw file plan lg (Suc k) (ev @ (if lg \<and> buffered plan lg k then map (\<lambda>i. (i, bytesOf raw file plan i)) (cmpSort plan (segIds plan k)) else []))"
proof -
  from t obtain ev0 cs where e: "toldTo raw file plan lg k ev0" and
    c: "case lone plan lg k of Some i \<Rightarrow> ev = ev0 @ map (Pair i) cs \<and> concat cs = b | None \<Rightarrow> ev = ev0" by (auto simp: toldIn_def)
  show ?thesis
  proof (cases "lg \<and> \<not> buffered plan lg k")
    case False
    then have "lone plan lg k = None" by (auto simp: lone_def)
    with c have ev: "ev = ev0" by simp
    with False e show ?thesis by (cases lg) (auto simp: toldTo_def orderTo_Suc intro: told_append told_each)
  next
    case True
    then have kind: "s_kind (p_segments plan ! k) = Containers.Tensor" and few: "length (segIds plan k) \<le> 1" by (auto simp: buffered_def)
    show ?thesis
    proof (cases "segIds plan k")
      case Nil
      with True c e show ?thesis by (auto simp: lone_def toldTo_def orderTo_Suc cmpSort_def)
    next
      case (Cons i js)
      with few have one: "segIds plan k = [i]" by simp
      with True have "lone plan lg k = Some i" by (auto simp: lone_def)
      with c have ev: "ev = ev0 @ map (Pair i) cs" "concat cs = b" by simp_all
      have "bytesOf raw file plan i = b" using bytesOf_tensor [of i plan k] one kind b(1) by simp
      then have "told (bytesOf raw file plan) [i] (map (Pair i) cs)" using ev b(2) by (intro told_one) auto
      with True e one ev show ?thesis by (auto simp: toldTo_def orderTo_Suc cmpSort_def intro: told_append)
    qed
  qed
qed

definition onTrack :: "(nat \<Rightarrow> bytes) \<Rightarrow> bytes \<Rightarrow> plan \<Rightarrow> bool \<Rightarrow> (nat \<times> bytes) list pass \<Rightarrow> bool" where
  "onTrack raw file plan lg st \<longleftrightarrow> midway raw file plan lg st \<or> passed raw file plan lg st"

lemma begin_state:
  assumes "fits plan lg" and k: "k < length (p_segments plan)"
    and st: "hp_k st = k" "hp_pos st = s_off (p_segments plan ! k)" "hp_segs st = map (segOf file) (take k (p_segments plan))"
      "hp_literals st = fold (keepLiteral file) (take k (p_segments plan)) []" "hp_kappa st = kappasTo raw file plan k"
    and t: "toldTo raw file plan lg k (hp_e st)" and len: "0 < s_len (p_segments plan ! k)"
  shows "\<exists>st'. beginSeg plan lg st = Inr st' \<and> midway raw file plan lg st' \<and> hp_pos st' = hp_pos st \<and> hp_whole st' = hp_whole st"
proof -
  let ?s = "p_segments plan ! k"
  let ?ph = "if s_kind ?s \<noteq> Containers.Literal \<and> int PIECE < s_len ?s then Some newHasher else None"
  let ?st = "stateAt raw file plan lg k [] (hp_e st) (hp_whole st) ?ph"
  have "\<not> (buffered plan lg k \<and> CAP < s_len ?s)" using assms(1) k by (auto simp: fits_def list_all_iff)
  then have "beginSeg plan lg st = Inr ?st" by (auto simp: beginSeg_def Let_def st stateAt_def intro!: pass.equality)
  moreover have "toldIn raw file plan lg k [] (hp_e st)"
    unfolding toldIn_def using t by (intro exI [of _ "hp_e st"] exI [of _ "[]"]) (auto split: option.splits)
  then have "midway raw file plan lg ?st"
    unfolding midway_def using k len by (intro exI conjI) (rule refl, auto simp: hashing_def isLong_def hashed_new)
  ultimately show ?thesis using st(2) by (intro exI [of _ ?st]) (simp add: stateAt_def)
qed

lemma take_segBytes:
  assumes "tiles 0 (p_segments plan) (int (length file))" and k: "k < length (p_segments plan)"
  shows "length (segBytes file (p_segments plan ! k)) = nat (s_len (p_segments plan ! k))"
    and "m \<le> nat (s_len (p_segments plan ! k)) \<Longrightarrow> take m (segBytes file (p_segments plan ! k)) = subarray file (nat (s_off (p_segments plan ! k))) (nat (s_off (p_segments plan ! k)) + m)"
  using tiles_nth [OF assms] by (auto simp: segBytes_def length_subarray subarray_def nat_add_distrib)

lemma turn_state:
  assumes wf: "wfPlan (length file) plan" and rd: "readable raw file plan" and ft: "fits plan lg"
    and m: "midway raw file plan lg st" and p: "hp_pos st = int a" and c: "c = subarray file a (a + length c)" "a + length c \<le> length file"
  shows "\<exists>n st'. turn raw plan (recorder lg) (orderTo plan (length (p_segments plan))) c st = Inr (drop n c, st') \<and> n \<le> length c \<and>
    onTrack raw file plan lg st' \<and> hp_pos st' = int (a + n) \<and> hp_whole st' = hp_whole st"
proof -
  from m obtain k b ev w ph where st: "st = stateAt raw file plan lg k b ev w ph" and k: "k < length (p_segments plan)"
    and lb: "int (length b) < s_len (p_segments plan ! k)" and b: "b = take (length b) (segBytes file (p_segments plan ! k))"
    and hs: "hashing plan k b ph" and tl: "toldIn raw file plan lg k b ev" by (auto simp: midway_def)
  let ?s = "p_segments plan ! k"
  have til: "tiles 0 (p_segments plan) (int (length file))" using wf by (simp add: wfPlan_def)
  note tn = tiles_nth [OF til k]
  define n where "n = min (length c) (nat (s_off ?s + s_len ?s - int a))"
  have off: "int a = s_off ?s + int (length b)" using p by (simp add: st stateAt_def)
  let ?b = "b @ take n c" and ?ev = "case lone plan lg k of Some i \<Rightarrow> ev @ [(i, take n c)] | None \<Rightarrow> ev" and ?ph = "map_option (update (take n c)) ph"
  let ?st1 = "stateAt raw file plan lg k ?b ?ev w ?ph"
  have f: "feedSeg plan (recorder lg) (take n c) st = Inr ?st1" unfolding st by (rule feed_state [OF k])
  have hs1: "hashing plan k ?b ?ph" and tl1: "toldIn raw file plan lg k ?b ?ev" using feed_hashing [OF hs] feed_told [OF tl] by simp_all
  have lb1: "length ?b = length b + n" by (simp add: n_def)
  have room: "length b + n \<le> nat (s_len ?s)" using off tn lb by (auto simp: n_def)
  have "0 \<le> s_off ?s" using tn by simp
  with off have na: "nat (s_off ?s) + length b = a" by arith
  have "take n c = take n (subarray file a (a + length c))" using c(1) by (rule arg_cong)
  then have "take n c = subarray file a (a + n)" by (simp add: subarray_def n_def)
  moreover have "b = subarray file (nat (s_off ?s)) (nat (s_off ?s) + length b)" using b take_segBytes(2) [OF til k, of "length b"] room by simp
  ultimately have "?b = subarray file (nat (s_off ?s)) (nat (s_off ?s) + (length b + n))"
    using na subarray_append_take [of "nat (s_off ?s)" a "a + n" "file"] by (simp add: add.assoc [symmetric])
  then have b1: "?b = take (length ?b) (segBytes file ?s)" using take_segBytes(2) [OF til k room] lb1 by simp
  have p1: "hp_pos ?st1 = int (a + n)" using off by (simp add: stateAt_def n_def)
  have k1: "hp_k st = k" "hp_pos st = int a" using p by (simp_all add: st stateAt_def)
  have le: "n \<le> length c" "hp_whole st = w" by (simp_all add: n_def st stateAt_def)
  have r0: "\<not> s_off ?s + s_len ?s - int a < 0" using off lb by simp
  show ?thesis
  proof (cases "length ?b = nat (s_len ?s)")
    case False
    then have nf: "hp_pos ?st1 \<noteq> s_off ?s + s_len ?s" using p1 off lb1 tn by auto
    have "turn raw plan (recorder lg) (orderTo plan (length (p_segments plan))) c st = Inr (drop n c, ?st1)"
      using k r0 nf f by (simp add: turn_def Let_def k1 n_def [symmetric])
    moreover have "midway raw file plan lg ?st1"
      unfolding midway_def
    proof (intro exI conjI)
      show "?st1 = stateAt raw file plan lg k ?b ?ev w ?ph" by (rule refl)
      show "int (length ?b) < s_len ?s" using False room lb1 tn by linarith
    qed (fact k b1 hs1 tl1)+
    ultimately show ?thesis using p1 le by (intro exI [of _ n] exI [of _ ?st1]) (simp add: onTrack_def stateAt_def)
  next
    case True
    have eq: "hp_pos ?st1 = s_off ?s + s_len ?s" using p1 off lb1 True tn by auto
    have bs: "?b = segBytes file ?s" using b1 True take_segBytes(1) [OF til k] by simp
    let ?ev2 = "?ev @ (if lg \<and> buffered plan lg k then map (\<lambda>i. (i, bytesOf raw file plan i)) (cmpSort plan (segIds plan k)) else [])"
    obtain st2 where e: "endSeg raw plan (recorder lg) (orderTo plan (length (p_segments plan))) ?st1 = Inr st2"
      and d: "doneAt raw file plan lg k ?ev2 st2" "hp_k st2 = k" "hp_pos st2 = hp_pos ?st1" "hp_whole st2 = w"
      using end_state [OF wf rd k bs hs1, of lg ?ev w] by auto
    have "?b \<noteq> []" using True lb by (metis le_less_linear length_0_conv nat_0_iff not_less of_nat_0_le_iff order_le_less_trans)
    then have t2: "toldTo raw file plan lg (Suc k) ?ev2" by (rule told_end [OF wf k bs _ tl1])
    let ?st3 = "st2\<lparr>hp_k := Suc (hp_k st2)\<rparr>"
    have go: "turn raw plan (recorder lg) (orderTo plan (length (p_segments plan))) c st =
        andThen (if Suc k < length (p_segments plan) then beginSeg plan lg ?st3 else Inr ?st3) (\<lambda>st4. Inr (drop n c, st4))"
      using k r0 eq f e d(2) by (simp add: turn_def Let_def k1 n_def [symmetric])
    show ?thesis
    proof (cases "Suc k < length (p_segments plan)")
      case more: True
      have "\<exists>st'. beginSeg plan lg ?st3 = Inr st' \<and> midway raw file plan lg st' \<and> hp_pos st' = hp_pos ?st3 \<and> hp_whole st' = hp_whole ?st3"
        by (rule begin_state [OF ft more]) (use d t2 eq tn more tiles_nth [OF til more] in \<open>auto simp: doneAt_def\<close>)
      then obtain st4 where "beginSeg plan lg ?st3 = Inr st4" "midway raw file plan lg st4" "hp_pos st4 = hp_pos ?st3" "hp_whole st4 = hp_whole ?st3"
        by blast
      then show ?thesis using go more p1 d(3,4) le by (intro exI [of _ n] exI [of _ st4]) (simp add: onTrack_def)
    next
      case False
      then have last: "Suc k = length (p_segments plan)" using k by simp
      have "passed raw file plan lg ?st3"
        using d t2 eq tn False by (auto simp: passed_def doneAt_def last)
      then show ?thesis using go False p1 d(3,4) le by (intro exI [of _ n] exI [of _ ?st3]) (simp add: onTrack_def)
    qed
  qed
qed

lemma consume_state:
  assumes wf: "wfPlan (length file) plan" and rd: "readable raw file plan" and ft: "fits plan lg"
  shows "onTrack raw file plan lg st \<Longrightarrow> hp_pos st = int a \<Longrightarrow> c = subarray file a (a + length c) \<Longrightarrow> a + length c \<le> length file \<Longrightarrow>
    \<exists>st'. consume raw plan (recorder lg) (orderTo plan (length (p_segments plan))) c st = Inr st' \<and>
      onTrack raw file plan lg st' \<and> hp_pos st' = int (a + length c) \<and> hp_whole st' = hp_whole st"
proof (induction "length c + (length (p_segments plan) - hp_k st)" arbitrary: a c st rule: less_induct)
  case less
  show ?case
  proof (cases "c = []")
    case True
    with less.prems show ?thesis by (auto simp: consume.simps)
  next
    case False
    have "\<not> passed raw file plan lg st"
    proof
      assume "passed raw file plan lg st"
      then have "length file = a" using less.prems(2) by (simp add: passed_def)
      with less.prems(4) False show False by simp
    qed
    with less.prems(1) have m: "midway raw file plan lg st" by (simp add: onTrack_def)
    obtain n st' where t: "turn raw plan (recorder lg) (orderTo plan (length (p_segments plan))) c st = Inr (drop n c, st')" "n \<le> length c"
      "onTrack raw file plan lg st'" "hp_pos st' = int (a + n)" "hp_whole st' = hp_whole st"
      using turn_state [OF wf rd ft m less.prems(2-4)] by blast
    have "drop n c = drop n (subarray file a (a + length c))" using less.prems(3) by (rule arg_cong)
    then have d: "drop n c = subarray file (a + n) (a + n + length (drop n c))"
      unfolding length_drop using t(2) by (simp add: subarray_def drop_take add.commute)
    obtain st'' where "consume raw plan (recorder lg) (orderTo plan (length (p_segments plan))) (drop n c) st' = Inr st''"
      "onTrack raw file plan lg st''" "hp_pos st'' = int (a + n + length (drop n c))" "hp_whole st'' = hp_whole st'"
      using less.hyps [OF _ t(3,4) d] turn_less [OF t(1)] False less.prems(4) t(2) by auto
    moreover have "consume raw plan (recorder lg) (orderTo plan (length (p_segments plan))) c st =
        consume raw plan (recorder lg) (orderTo plan (length (p_segments plan))) (drop n c) st'"
      using False t(1) by (subst consume.simps) simp
    ultimately show ?thesis using t(2,5) by (intro exI [of _ st'']) simp
  qed
qed

lemma onTrack_whole: "onTrack raw file plan lg (st\<lparr>hp_whole := w\<rparr>) = onTrack raw file plan lg st"
proof -
  have "midway raw file plan lg (st\<lparr>hp_whole := w\<rparr>)" if "midway raw file plan lg st" for st w
  proof -
    from that obtain k b ev w0 ph where h: "st = stateAt raw file plan lg k b ev w0 ph" and r: "k < length (p_segments plan)"
      "int (length b) < s_len (p_segments plan ! k)" "b = take (length b) (segBytes file (p_segments plan ! k))"
      "hashing plan k b ph" "toldIn raw file plan lg k b ev" unfolding midway_def by (elim exE conjE)
    show ?thesis unfolding midway_def
    proof (intro exI conjI)
      show "st\<lparr>hp_whole := w\<rparr> = stateAt raw file plan lg k b ev w ph" by (simp add: h stateAt_def)
    qed (rule r)+
  qed
  from this [of st w] this [of "st\<lparr>hp_whole := w\<rparr>" "hp_whole st"] show ?thesis by (auto simp: onTrack_def passed_def)
qed

lemma consume_all:
  assumes wf: "wfPlan (length file) plan" and rd: "readable raw file plan" and ft: "fits plan lg"
  shows "onTrack raw file plan lg st \<Longrightarrow> hp_pos st = int (length pre) \<Longrightarrow> hp_whole st = pre \<Longrightarrow> pre @ concat cs = file \<Longrightarrow>
    \<exists>st'. foldResult (\<lambda>c st. consume raw plan (recorder lg) (orderTo plan (length (p_segments plan))) c (st\<lparr>hp_whole := hp_whole st @ c\<rparr>)) cs st = Inr st' \<and>
      passed raw file plan lg st' \<and> hp_whole st' = file"
proof (induction cs arbitrary: st pre)
  case Nil
  have "\<not> midway raw file plan lg st"
  proof
    assume "midway raw file plan lg st"
    then obtain k b ev w ph where "st = stateAt raw file plan lg k b ev w ph" and k: "k < length (p_segments plan)" and "int (length b) < s_len (p_segments plan ! k)"
      unfolding midway_def by (elim exE conjE)
    then have "hp_pos st < s_off (p_segments plan ! k) + s_len (p_segments plan ! k)" by (simp add: stateAt_def)
    with tiles_nth [OF _ k, of 0 "int (length file)"] wf Nil show False by (auto simp: wfPlan_def split: if_splits)
  qed
  with Nil show ?case by (simp add: onTrack_def)
next
  case (Cons c cs)
  have "c = subarray file (length pre) (length pre + length c)" "length pre + length c \<le> length file"
    using Cons.prems(4) by (auto simp: subarray_def)
  from consume_state [OF wf rd ft _ _ this, of "st\<lparr>hp_whole := hp_whole st @ c\<rparr>"] Cons.prems(1,2)
  obtain st1 where s: "consume raw plan (recorder lg) (orderTo plan (length (p_segments plan))) c (st\<lparr>hp_whole := hp_whole st @ c\<rparr>) = Inr st1"
    "onTrack raw file plan lg st1" "hp_pos st1 = int (length pre + length c)" "hp_whole st1 = hp_whole st @ c"
    by (auto simp: onTrack_whole)
  from Cons.IH [of st1 "pre @ c"] s Cons.prems(3,4) show ?case by auto
qed

lemma emissionOrder_wf: "wfPlan sz plan \<Longrightarrow> emissionOrder plan = Inr (orderTo plan (length (p_segments plan)))"
  by (fastforce simp: emissionOrder_def orderTo_def wfPlan_def list_all_iff)

lemma empties_first: "filter (\<lambda>i. t_seg (p_tensors plan ! i) < 0) (orderTo plan k) = cmpSort plan (emptyIds plan)"
  by (induction k) (auto simp: orderTo_def filter_concat set_emptyIds set_segIds filter_id_conv filter_empty_conv)

lemma recorded_pass:
  assumes wf: "wfPlan (length file) plan" and rd: "readable raw file plan" and ft: "fits plan lg" and cs: "concat cs = file"
  shows "\<exists>ev. hashFile raw plan (length file) (recorder lg) cs None [] = Inr (expected raw file plan, ev) \<and> toldTo raw file plan lg (length (p_segments plan)) ev"
proof -
  let ?N = "length (p_segments plan)" and ?order = "orderTo plan (length (p_segments plan))"
  let ?empty = "cmpSort plan (emptyIds plan)"
  define st0 where "st0 = (startPass plan ([] :: (nat \<times> bytes) list))\<lparr>hp_e := if lg then map (\<lambda>i. (i, [])) ?empty else []\<rparr>"
  have e: "foldResult (\<lambda>i. emitTo (recorder lg) i []) ?empty (startPass plan []) = Inr st0"
    by (auto simp: foldResult_recorder st0_def startPass_def)
  have none: "bytesOf raw file plan i = []" if "i \<in> set ?empty" for i using that by (simp add: bytesOf_def set_emptyIds)
  then have ev0: "map (\<lambda>i. (i, [])) ?empty = map (\<lambda>i. (i, bytesOf raw file plan i)) ?empty" by simp
  have t0: "toldTo raw file plan lg 0 (hp_e st0)" unfolding toldTo_def st0_def ev0 by (simp add: orderTo_def told_each)
  have k0: "hp_kappa st0 = kappasTo raw file plan 0"
    by (auto simp: st0_def startPass_def kappasTo_def EMPTY_def bytesOf_def intro!: nth_equalityI)
  have til: "tiles 0 (p_segments plan) (int (length file))" using wf by (simp add: wfPlan_def)
  obtain st1 where b: "(if p_segments plan = [] then Inr st0 else beginSeg plan lg st0) = Inr st1" and
    on: "onTrack raw file plan lg st1" "hp_pos st1 = 0" "hp_whole st1 = []"
  proof (cases "p_segments plan = []")
    case True
    then have "length file = 0" using til by simp
    then have "passed raw file plan lg st0" using k0 t0 True by (simp add: passed_def) (simp add: st0_def startPass_def)
    with True that [of st0] show ?thesis by (simp add: onTrack_def) (simp add: st0_def startPass_def)
  next
    case False
    then have N: "0 < ?N" by simp
    have off: "s_off (p_segments plan ! 0) = 0" using til False by (cases "p_segments plan") auto
    have "\<exists>st'. beginSeg plan lg st0 = Inr st' \<and> midway raw file plan lg st' \<and> hp_pos st' = hp_pos st0 \<and> hp_whole st' = hp_whole st0"
      by (rule begin_state [OF ft N _ _ _ _ k0 t0]) (use off tiles_nth [OF til N] in \<open>auto simp: st0_def startPass_def\<close>)
    with False that show ?thesis by (auto simp: onTrack_def st0_def startPass_def)
  qed
  obtain st2 where f: "foldResult (\<lambda>c st. consume raw plan (recorder lg) ?order c (st\<lparr>hp_whole := hp_whole st @ c\<rparr>)) cs st1 = Inr st2"
    and p: "passed raw file plan lg st2" and w: "hp_whole st2 = file"
    using consume_all [OF wf rd ft on(1), of "[]" cs] on(2,3) cs by auto
  have "kappasTo raw file plan ?N = map (\<lambda>i. Some (named (bytesOf raw file plan i))) [0..<length (p_tensors plan)]"
    using wf by (auto simp: kappasTo_def wfPlan_def list_all_length)
  then have "hashFile raw plan (length file) (recorder lg) cs None [] = Inr (expected raw file plan, hp_e st2)"
    using p w unfolding hashFile_def emissionOrder_wf [OF wf] andThen.simps empties_first e recorder_none not_not b f
    by (simp add: passed_def expected_def)
  with p show ?thesis by (auto simp: passed_def)
qed

subsection \<open>Any callback\<close>

text \<open>
  With a callback of its own state the pass does what it does with the recorder, its calls in the recorded
  order: an operation that records \<open>xs\<close> takes a callback state to the one after the calls \<open>xs\<close>.
\<close>

definition recast :: "'a pass \<Rightarrow> 'e \<Rightarrow> 'e pass" where
  "recast st e = \<lparr>hp_k = hp_k st, hp_pos = hp_pos st, hp_whole = hp_whole st, hp_h = hp_h st, hp_parts = hp_parts st, hp_ph = hp_ph st,
     hp_segs = hp_segs st, hp_literals = hp_literals st, hp_kappa = hp_kappa st, hp_e = e\<rparr>"

lemma recast_fields [simp]: "hp_k (recast st e) = hp_k st" "hp_pos (recast st e) = hp_pos st" "hp_whole (recast st e) = hp_whole st"
  "hp_h (recast st e) = hp_h st" "hp_parts (recast st e) = hp_parts st" "hp_ph (recast st e) = hp_ph st" "hp_segs (recast st e) = hp_segs st"
  "hp_literals (recast st e) = hp_literals st" "hp_kappa (recast st e) = hp_kappa st" "hp_e (recast st e) = e"
  by (simp_all add: recast_def)

definition calls :: "(nat \<Rightarrow> bytes \<Rightarrow> 'e \<Rightarrow> 'e result) \<Rightarrow> (nat \<times> bytes) list \<Rightarrow> 'e \<Rightarrow> 'e result" where
  "calls f = foldResult (\<lambda>(i, c). f i c)"

definition replayed :: "(nat \<Rightarrow> bytes \<Rightarrow> 'e \<Rightarrow> 'e result) \<Rightarrow> (nat \<times> bytes) list pass \<Rightarrow> (nat \<times> bytes) list pass result \<Rightarrow> ('e \<Rightarrow> 'e pass result) \<Rightarrow> bool" where
  "replayed f st r r' \<longleftrightarrow> (\<forall>st2. r = Inr st2 \<longrightarrow> (\<exists>xs. hp_e st2 = hp_e st @ xs \<and> (\<forall>e e2. calls f xs e = Inr e2 \<longrightarrow> r' e = Inr (recast st2 e2))))"

lemma andThen_assoc: "andThen (andThen r f) g = andThen r (\<lambda>x. andThen (f x) g)"
  by (cases r) simp_all

lemma foldResult_append: "foldResult f (xs @ ys) s = andThen (foldResult f xs s) (foldResult f ys)"
proof (induction xs arbitrary: s)
  case (Cons x xs)
  then show ?case by (cases "f x s") simp_all
qed simp

lemma calls_append: "calls f (xs @ ys) e = Inr e2 \<longleftrightarrow> (\<exists>e1. calls f xs e = Inr e1 \<and> calls f ys e1 = Inr e2)"
  by (simp add: calls_def foldResult_append andThen_Inr_iff)

lemma replayed_error [simp]: "replayed f st (Inl err) r'"
  by (simp add: replayed_def)

lemma replayed_pure: "hp_e st2 = hp_e st \<Longrightarrow> (\<And>e. r' e = Inr (recast st2 e)) \<Longrightarrow> replayed f st (Inr st2) r'"
  by (simp add: replayed_def calls_def)

lemma replayed_bind:
  assumes "replayed f st r r'" and "\<And>st2. r = Inr st2 \<Longrightarrow> replayed f st2 (k st2) (\<lambda>e. k' (recast st2 e))"
  shows "replayed f st (andThen r k) (\<lambda>e. andThen (r' e) k')"
  unfolding replayed_def
proof (intro allI impI)
  fix st3 assume "andThen r k = Inr st3"
  then obtain st2 where r: "r = Inr st2" "k st2 = Inr st3" by (auto simp: andThen_Inr_iff)
  obtain xs where xs: "hp_e st2 = hp_e st @ xs" "\<forall>e e2. calls f xs e = Inr e2 \<longrightarrow> r' e = Inr (recast st2 e2)"
    using assms(1) r(1) unfolding replayed_def by blast
  obtain ys where ys: "hp_e st3 = hp_e st2 @ ys" "\<forall>e e2. calls f ys e = Inr e2 \<longrightarrow> k' (recast st2 e) = Inr (recast st3 e2)"
    using assms(2) [OF r(1)] r(2) unfolding replayed_def by blast
  show "\<exists>xs. hp_e st3 = hp_e st @ xs \<and> (\<forall>e e2. calls f xs e = Inr e2 \<longrightarrow> andThen (r' e) k' = Inr (recast st3 e2))"
    using xs ys by (intro exI [of _ "xs @ ys"]) (auto simp: calls_append)
qed

lemma replayed_emit: "hp_e st = hp_e st0 \<Longrightarrow> replayed f st0 (emitTo (recorder True) i c st) (\<lambda>e. emitTo (Some f) i c (recast st e))"
  unfolding replayed_def emitTo_recorder
  by (auto simp: emitTo_def calls_def andThen_Inr_iff recast_def intro!: exI [of _ "[(i, c)]"])

lemma replayed_fold:
  assumes "\<And>x st. replayed f st (P x st) (\<lambda>e. P' x (recast st e))"
  shows "replayed f st (foldResult P xs st) (\<lambda>e. foldResult P' xs (recast st e))"
proof (induction xs arbitrary: st)
  case Nil
  show ?case by (simp add: replayed_pure)
next
  case (Cons x xs)
  show ?case unfolding foldResult.simps by (rule replayed_bind [OF assms]) (rule Cons.IH)
qed

lemma replayed_from: "hp_e st1 = hp_e st \<Longrightarrow> replayed f st1 r r' \<Longrightarrow> replayed f st r r'"
  by (simp add: replayed_def)

lemma setKappa_recast [simp]: "setKappa i d (recast st e) = recast (setKappa i d st) e"
  by (simp add: setKappa_def recast_def)

lemma setKappa_e [simp]: "hp_e (setKappa i d st) = hp_e st"
  by (simp add: setKappa_def)

lemma fold_setKappa_recast: "fold (\<lambda>i. setKappa i d) ids (recast st e) = recast (fold (\<lambda>i. setKappa i d) ids st) e"
  by (induction ids arbitrary: st) simp_all

lemma hashedOf_recast [simp]: "hashedOf (recast st e) s = hashedOf st s"
  by (simp add: hashedOf_def)

lemma replayed_end: "replayed f st (endSeg raw plan (recorder True) order st) (\<lambda>e. endSeg raw plan (Some f) order (recast st e))"
proof -
  let ?s = "p_segments plan ! hp_k st"
  let ?st1 = "st\<lparr>hp_segs := hp_segs st @ [hashedOf st ?s]\<rparr>"
  let ?ids = "sort_key (indexOf order) (segIds plan (hp_k st))"
  have up: "(recast st e)\<lparr>hp_segs := hp_segs st @ [hashedOf st ?s]\<rparr> = recast ?st1 e" for e by (simp add: recast_def)
  show ?thesis
  proof (cases "s_kind ?s")
    case Literal
    have "replayed f st (Inr (?st1\<lparr>hp_literals := AList.update (named (hp_h st)) (hp_parts st) (hp_literals ?st1)\<rparr>))
        (\<lambda>e. Inr ((recast ?st1 e)\<lparr>hp_literals := AList.update (named (hp_h st)) (hp_parts st) (hp_literals ?st1)\<rparr>))"
      by (rule replayed_pure) (simp_all add: recast_def)
    with Literal show ?thesis by (simp add: endSeg_def Let_def up)
  next
    case Tensor
    let ?st2 = "fold (\<lambda>i. setKappa i (named (hp_h st))) ?ids ?st1"
    have e2: "hp_e ?st2 = hp_e st" by (simp add: fold_setKappa)
    show ?thesis
    proof (cases "buffered plan True (hp_k st)")
      case True
      have "replayed f st (foldResult (\<lambda>i. emitTo (recorder True) i (hp_parts st)) ?ids ?st2) (\<lambda>e. foldResult (\<lambda>i. emitTo (Some f) i (hp_parts st)) ?ids (recast ?st2 e))"
        by (rule replayed_from [OF e2]) (intro replayed_fold replayed_emit refl)
      with True Tensor show ?thesis by (simp add: endSeg_def Let_def up fold_setKappa_recast)
    next
      case False
      with e2 Tensor show ?thesis by (simp add: endSeg_def Let_def up fold_setKappa_recast replayed_pure)
    qed
  next
    case Storage
    have "replayed f st (foldResult (\<lambda>i st'. andThen (canonical raw (hp_parts st) (p_tensors plan ! i)) (\<lambda>c. emitTo (recorder True) i c (setKappa i (named c) st'))) ?ids ?st1)
        (\<lambda>e. foldResult (\<lambda>i st'. andThen (canonical raw (hp_parts st) (p_tensors plan ! i)) (\<lambda>c. emitTo (Some f) i c (setKappa i (named c) st'))) ?ids (recast ?st1 e))"
    proof (rule replayed_from [of ?st1], simp, rule replayed_fold)
      fix i st
      show "replayed f st (andThen (canonical raw b (p_tensors plan ! i)) (\<lambda>c. emitTo (recorder True) i c (setKappa i (named c) st)))
          (\<lambda>e. andThen (canonical raw b (p_tensors plan ! i)) (\<lambda>c. emitTo (Some f) i c (setKappa i (named c) (recast st e))))" for b
        by (cases "canonical raw b (p_tensors plan ! i)") (simp_all add: replayed_emit)
    qed
    with Storage show ?thesis by (simp add: endSeg_def Let_def up)
  qed
qed

lemma replayed_feed: "replayed f st (feedSeg plan (recorder True) piece st) (\<lambda>e. feedSeg plan (Some f) piece (recast st e))"
proof -
  let ?st1 = "st\<lparr>hp_h := hp_h st @ piece, hp_ph := map_option (update piece) (hp_ph st), hp_pos := hp_pos st + int (length piece)\<rparr>"
  have up: "(recast st e)\<lparr>hp_h := hp_h st @ piece, hp_ph := map_option (update piece) (hp_ph st), hp_pos := hp_pos st + int (length piece)\<rparr> = recast ?st1 e" for e
    by (simp add: recast_def)
  show ?thesis
  proof (cases "buffered plan True (hp_k st)")
    case True
    then show ?thesis by (simp add: feedSeg_def Let_def replayed_pure recast_def)
  next
    case False
    show ?thesis
    proof (cases "\<exists>i. segIds plan (hp_k st) = [i]")
      case one: True
      then obtain i where "segIds plan (hp_k st) = [i]" by blast
      with False show ?thesis by (simp add: feedSeg_def Let_def up replayed_emit)
    next
      case no: False
      with False show ?thesis by (auto simp: feedSeg_def Let_def up replayed_pure split: list.splits)
    qed
  qed
qed

lemma replayed_begin: "replayed f st (beginSeg plan True st) (\<lambda>e. beginSeg plan True (recast st e))"
  by (auto simp: beginSeg_def Let_def recast_def intro: replayed_pure)

lemma turn_replayed:
  assumes "turn raw plan (recorder True) order c st = Inr (c', st')"
  shows "\<exists>xs. hp_e st' = hp_e st @ xs \<and> (\<forall>e e2. calls f xs e = Inr e2 \<longrightarrow> turn raw plan (Some f) order c (recast st e) = Inr (c', recast st' e2))"
proof -
  let ?s = "p_segments plan ! hp_k st"
  let ?n = "min (length c) (nat (s_off ?s + s_len ?s - hp_pos st))"
  let ?ends = "\<lambda>st1. hp_pos st1 = s_off ?s + s_len ?s"
  define later :: "(nat \<times> bytes) list pass \<Rightarrow> (nat \<times> bytes) list pass result" where
    "later st1 = (if ?ends st1 then andThen (endSeg raw plan (recorder True) order st1) (\<lambda>st2. let st3 = st2\<lparr>hp_k := Suc (hp_k st2)\<rparr> in
       if hp_k st3 < length (p_segments plan) then beginSeg plan True st3 else Inr st3) else Inr st1)" for st1
  define later' where
    "later' st1 = (if hp_pos st1 = s_off ?s + s_len ?s then andThen (endSeg raw plan (Some f) order st1) (\<lambda>st2. let st3 = st2\<lparr>hp_k := Suc (hp_k st2)\<rparr> in
       if hp_k st3 < length (p_segments plan) then beginSeg plan True st3 else Inr st3) else Inr st1)" for st1
  from assms have k: "hp_k st < length (p_segments plan)" and room: "\<not> s_off ?s + s_len ?s - hp_pos st < 0"
    by (auto simp: turn_def Let_def split: if_splits)
  have a: "turn raw plan (recorder True) order c st = andThen (andThen (feedSeg plan (recorder True) (take ?n c) st) later) (\<lambda>y. Inr (drop ?n c, y))"
    using k room by (cases "feedSeg plan (recorder True) (take ?n c) st") (auto simp: turn_def Let_def later_def andThen_assoc cong: if_cong)
  have b: "turn raw plan (Some f) order c (recast st e) = andThen (andThen (feedSeg plan (Some f) (take ?n c) (recast st e)) later') (\<lambda>y. Inr (drop ?n c, y))" for e
    using k room by (cases "feedSeg plan (Some f) (take ?n c) (recast st e)") (auto simp: turn_def Let_def later'_def andThen_assoc cong: if_cong)
  have l: "replayed f st1 (later st1) (\<lambda>e. later' (recast st1 e))" for st1
  proof (cases "?ends st1")
    case True
    have "replayed f st2 (let st3 = st2\<lparr>hp_k := Suc (hp_k st2)\<rparr> in if hp_k st3 < length (p_segments plan) then beginSeg plan True st3 else Inr st3)
       (\<lambda>e. let st3 = (recast st2 e)\<lparr>hp_k := Suc (hp_k (recast st2 e))\<rparr> in if hp_k st3 < length (p_segments plan) then beginSeg plan True st3 else Inr st3)" for st2
    proof -
      have up: "(recast st2 e)\<lparr>hp_k := Suc (hp_k (recast st2 e))\<rparr> = recast (st2\<lparr>hp_k := Suc (hp_k st2)\<rparr>) e" for e by (simp add: recast_def)
      show ?thesis unfolding Let_def up
        by (rule replayed_from [of "st2\<lparr>hp_k := Suc (hp_k st2)\<rparr>"]) (auto intro: replayed_begin replayed_pure)
    qed
    with True show ?thesis by (simp add: later_def later'_def replayed_bind [OF replayed_end])
  qed (simp add: later_def later'_def replayed_pure)
  have "replayed f st (andThen (feedSeg plan (recorder True) (take ?n c) st) later) (\<lambda>e. andThen (feedSeg plan (Some f) (take ?n c) (recast st e)) later')"
    by (rule replayed_bind [OF replayed_feed l])
  moreover have "andThen (feedSeg plan (recorder True) (take ?n c) st) later = Inr st'" "c' = drop ?n c" using assms a by (auto simp: andThen_Inr_iff)
  ultimately show ?thesis unfolding replayed_def b by fastforce
qed

lemma consume_replayed: "replayed f st (consume raw plan (recorder True) order c st) (\<lambda>e. consume raw plan (Some f) order c (recast st e))"
proof (induction "length c + (length (p_segments plan) - hp_k st)" arbitrary: c st rule: less_induct)
  case less
  show ?case
  proof (cases "c = []")
    case True
    then show ?thesis by (simp add: consume.simps [of raw plan _ order "[]"] replayed_pure)
  next
    case False
    show ?thesis
    proof (cases "turn raw plan (recorder True) order c st")
      case (Inl err)
      with False show ?thesis by (simp add: consume.simps [of raw plan "recorder True"])
    next
      case (Inr r)
      obtain c' st' where t: "turn raw plan (recorder True) order c st = Inr (c', st')" using Inr by (cases r) auto
      obtain xs where xs: "hp_e st' = hp_e st @ xs"
        "\<forall>e e2. calls f xs e = Inr e2 \<longrightarrow> turn raw plan (Some f) order c (recast st e) = Inr (c', recast st' e2)"
        using turn_replayed [OF t] by blast
      have IH: "replayed f st' (consume raw plan (recorder True) order c' st') (\<lambda>e. consume raw plan (Some f) order c' (recast st' e))"
        using turn_less [OF t] False by (intro less) auto
      show ?thesis unfolding replayed_def
      proof (intro allI impI)
        fix st2 assume "consume raw plan (recorder True) order c st = Inr st2"
        then have "consume raw plan (recorder True) order c' st' = Inr st2" using False t by (simp add: consume.simps [of raw plan _ _ c])
        with IH obtain ys where ys: "hp_e st2 = hp_e st' @ ys"
          "\<forall>e e2. calls f ys e = Inr e2 \<longrightarrow> consume raw plan (Some f) order c' (recast st' e) = Inr (recast st2 e2)"
          unfolding replayed_def by blast
        have "consume raw plan (Some f) order c (recast st e) = Inr (recast st2 e2)" if "calls f (xs @ ys) e = Inr e2" for e e2
          using that xs(2) ys(2) False by (auto simp: calls_append consume.simps [of raw plan _ _ c])
        then show "\<exists>xs. hp_e st2 = hp_e st @ xs \<and> (\<forall>e e2. calls f xs e = Inr e2 \<longrightarrow> consume raw plan (Some f) order c (recast st e) = Inr (recast st2 e2))"
          using xs(1) ys(1) by (intro exI [of _ "xs @ ys"]) simp
      qed
    qed
  qed
qed

lemma pass_replayed:
  assumes "hashFile raw plan sz (recorder True) cs ending [] = Inr (out, ev)" and "calls f ev e = Inr e2"
  shows "hashFile raw plan sz (Some f) cs ending e = Inr (out, e2)"
proof -
  let ?run = "\<lambda>emit order es st. andThen (foldResult (\<lambda>i. emitTo emit i []) es st) (\<lambda>st0.
     andThen (if p_segments plan = [] then Inr st0 else beginSeg plan True st0) (\<lambda>st1.
     foldResult (\<lambda>c st. consume raw plan emit order c (st\<lparr>hp_whole := hp_whole st @ c\<rparr>)) cs st1))"
  have up: "(recast st e)\<lparr>hp_whole := w\<rparr> = recast (st\<lparr>hp_whole := w\<rparr>) e" for st :: "(nat \<times> bytes) list pass" and e w by (simp add: recast_def)
  have c: "replayed f st (consume raw plan (recorder True) order c (st\<lparr>hp_whole := hp_whole st @ c\<rparr>))
      (\<lambda>e. consume raw plan (Some f) order c ((recast st e)\<lparr>hp_whole := hp_whole (recast st e) @ c\<rparr>))" for order c st
    unfolding up by (rule replayed_from [of "st\<lparr>hp_whole := hp_whole st @ c\<rparr>"]) (simp_all add: consume_replayed)
  have r: "replayed f st (?run (recorder True) order es st) (\<lambda>e. ?run (Some f) order es (recast st e))" for order es st
  proof (rule replayed_bind)
    show "replayed f st (foldResult (\<lambda>i. emitTo (recorder True) i []) es st) (\<lambda>e. foldResult (\<lambda>i. emitTo (Some f) i []) es (recast st e))"
      by (intro replayed_fold replayed_emit refl)
    show "replayed f st0 (andThen (if p_segments plan = [] then Inr st0 else beginSeg plan True st0) (foldResult (\<lambda>c st. consume raw plan (recorder True) order c (st\<lparr>hp_whole := hp_whole st @ c\<rparr>)) cs))
      (\<lambda>e. andThen (if p_segments plan = [] then Inr (recast st0 e) else beginSeg plan True (recast st0 e)) (foldResult (\<lambda>c st. consume raw plan (Some f) order c (st\<lparr>hp_whole := hp_whole st @ c\<rparr>)) cs))" for st0
      by (rule replayed_bind) (auto intro: replayed_pure replayed_begin replayed_fold c)
  qed
  obtain order where o: "emissionOrder plan = Inr order" using assms(1) by (cases "emissionOrder plan") (auto simp: hashFile_def)
  let ?es = "filter (\<lambda>i. t_seg (p_tensors plan ! i) < 0) order"
  obtain st2 where s: "?run (recorder True) order ?es (startPass plan ([] :: (nat \<times> bytes) list)) = Inr st2" and en: "ending = None" "hp_k st2 = length (p_segments plan)" "hp_pos st2 = int sz"
    "out = \<lparr>hf_digest = named (hp_whole st2), hf_segments = hp_segs st2, hf_literals = hp_literals st2, hf_kappa = hp_kappa st2\<rparr>" "hp_e st2 = ev"
    using assms(1) by (auto simp: hashFile_def o andThen_Inr_iff split: option.splits if_splits)
  obtain xs where "hp_e st2 = hp_e (startPass plan ([] :: (nat \<times> bytes) list)) @ xs" "\<forall>e e2. calls f xs e = Inr e2 \<longrightarrow> ?run (Some f) order ?es (recast (startPass plan ([] :: (nat \<times> bytes) list)) e) = Inr (recast st2 e2)"
    using r [of "startPass plan []" ?es order, unfolded replayed_def, rule_format, OF s] by blast
  then have g: "?run (Some f) order ?es (recast (startPass plan ([] :: (nat \<times> bytes) list)) e) = Inr (recast st2 e2)" using assms(2) en(5) by (simp add: startPass_def)
  have "recast (startPass plan ([] :: (nat \<times> bytes) list)) e = startPass plan e" by (simp add: recast_def startPass_def)
  with g obtain st0 st1 where g1: "foldResult (\<lambda>i. emitTo (Some f) i []) ?es (startPass plan e) = Inr st0"
    and g2: "(if p_segments plan = [] then Inr st0 else beginSeg plan True st0) = Inr st1"
    and g3: "foldResult (\<lambda>c st. consume raw plan (Some f) order c (st\<lparr>hp_whole := hp_whole st @ c\<rparr>)) cs st1 = Inr (recast st2 e2)"
    by (auto simp: andThen_Inr_iff)
  have some: "(\<not> Option.is_none (Some f)) = True" by simp
  show ?thesis unfolding hashFile_def o andThen.simps some g1 g2 g3 using en by simp
qed

subsection \<open>The pass is exact\<close>

lemma pass_recorded:
  assumes "planFile rng (length file) path w = Some (w', Inr (Some plan))" and "readable raw file plan" and "fits plan False"
    and "concat cs = file"
  shows "hashFile raw plan (length file) None cs None ([] :: (nat \<times> bytes) list) = Inr (expected raw file plan, [])"
  using recorded_pass [OF planFile_wf [OF assms(1)] assms(2-4)] by (simp add: recorder_def toldTo_def)

text \<open>
  C9. The pass reads a file right however the stream cuts it: for a plan that was made of the file, it gives the
  SHA-256 of the whole file, of every segment and of every 1 MiB of a long payload, the literals under their
  digests, and as \<open>\<kappa>\<close> of every tensor the SHA-256 of its canonical bytes.
\<close>

theorem pass_exact:
  assumes "planFile rng (length file) path w = Some (w', Inr (Some plan))" and "readable raw file plan" and "fits plan False"
    and "concat cs = file"
  shows "hashFile raw plan (length file) None cs None ([] :: (nat \<times> bytes) list) = Inr (expected raw file plan, [])"
  by (rule pass_recorded [OF assms])

lemma tiny_bytes: "segBytes tinyGguf \<lparr>s_kind = Containers.Tensor, s_off = 64, s_len = 1\<rparr> = [7]"
  by (simp add: segBytes_def subarray_def tinyGguf_def)

theorem pass_exact_witness:
  "hashFile (\<lambda>_. []) tinyPlan 65 None [take 10 tinyGguf, drop 10 tinyGguf] None ([] :: (nat \<times> bytes) list) = Inr (expected (\<lambda>_. []) tinyGguf tinyPlan, [])
   \<and> hf_kappa (expected (\<lambda>_. []) tinyGguf tinyPlan) = [Some (named [7])]"
proof -
  have len: "length tinyGguf = 65" by (simp add: tinyGguf_def)
  have "readable (\<lambda>_. []) tinyGguf tinyPlan" by (simp add: readable_def tinyPlan_def)
  moreover have "fits tinyPlan False" by (simp add: fits_def buffered_def tinyPlan_def CAP_def)
  ultimately have "hashFile (\<lambda>_. []) tinyPlan 65 None [take 10 tinyGguf, drop 10 tinyGguf] None ([] :: (nat \<times> bytes) list) = Inr (expected (\<lambda>_. []) tinyGguf tinyPlan, [])"
    using pass_exact [of "served tinyGguf" tinyGguf "''m.gguf''" "()" "()" tinyPlan "\<lambda>_. []" "[take 10 tinyGguf, drop 10 tinyGguf]"] tiny_plan len by simp
  moreover have "hf_kappa (expected (\<lambda>_. []) tinyGguf tinyPlan) = [Some (named [7])]"
    by (simp add: expected_def bytesOf_def tinyPlan_def tiny_bytes)
  ultimately show ?thesis by simp
qed

text \<open>With a callback: it is called with the tensors one after another, in the emission order, each in chunks that join to its bytes.\<close>

lemma pass_emits:
  assumes "wfPlan (length file) plan" and "readable raw file plan" and "fits plan True" and "concat cs = file"
  shows "\<exists>order ev. emissionOrder plan = Inr order \<and> told (bytesOf raw file plan) order ev \<and>
    (\<forall>f e e2. calls f ev e = Inr e2 \<longrightarrow> hashFile raw plan (length file) (Some f) cs None e = Inr (expected raw file plan, e2))"
proof -
  obtain ev where "hashFile raw plan (length file) (recorder True) cs None [] = Inr (expected raw file plan, ev)"
    "toldTo raw file plan True (length (p_segments plan)) ev" using recorded_pass [OF assms] by blast
  then show ?thesis
    by (intro exI [of _ "orderTo plan (length (p_segments plan))"] exI [of _ ev])
      (auto simp: toldTo_def emissionOrder_wf [OF assms(1)] intro: pass_replayed)
qed

end
