(* ===== verification/Sample.thy ===== *)
theory Sample
  imports Float16 Hashpass Catalog
begin

text \<open>
  The provenance sample of a tensor, \<open>tensors/lib/sample.mjs\<close>: its bytes arrive in chunks; a float tensor is hashed
  in each type no wider than its own until a value does not fit, in whole and per 1024 rows, and the signs of at
  most 4096 values are kept. A dimension is a natural number. Feeding a block of no bytes never ends, so \<open>feedRows\<close>
  is partial: \<open>None\<close> is a loop that does not return.
\<close>

subsection \<open>Candidates\<close>

definition SAMPLE :: nat where "SAMPLE = 4096"
definition ROWS :: nat where "ROWS = 1024"

definition WIDTH :: "string \<Rightarrow> nat option" where
  "WIDTH = map_of [(''BF16'', 2), (''F16'', 2), (''F32'', 4)]"

definition CANDIDATES :: "string \<Rightarrow> string list" where
  "CANDIDATES d = (case map_of [(''BF16'', [''BF16'']), (''F16'', [''BF16'', ''F16'']), (''F32'', [''BF16'', ''F16'', ''F32''])] d of Some cs \<Rightarrow> cs | None \<Rightarrow> [])"

record candidate =
  cd_dtype :: string
  cd_exact :: bool
  cd_h :: bytes
  cd_rowed :: bool
  cd_blockBytes :: nat
  cd_blocks :: "(string \<times> nat) list"
  cd_cur :: bytes
  cd_curN :: nat

definition newCandidate :: "nat list \<Rightarrow> string \<Rightarrow> candidate" where
  "newCandidate shape cdtype = \<lparr>cd_dtype = cdtype, cd_exact = True, cd_h = [], cd_rowed = (2 \<le> length shape),
     cd_blockBytes = the (WIDTH cdtype) * fold (*) (drop 1 shape) 1 * ROWS, cd_blocks = [], cd_cur = [], cd_curN = 0\<rparr>"

partial_function (option) feedRows :: "bytes \<Rightarrow> nat \<Rightarrow> candidate \<Rightarrow> candidate option" where
  "feedRows buf o' c = (if o' < length buf then
     let n = min (cd_blockBytes c - cd_curN c) (length buf - o');
       c1 = c\<lparr>cd_cur := cd_cur c @ subarray buf o' (o' + n), cd_curN := cd_curN c + n\<rparr> in
     feedRows buf (o' + n) (if cd_curN c1 = cd_blockBytes c1
       then c1\<lparr>cd_blocks := cd_blocks c1 @ [(named (cd_cur c1), cd_curN c1)], cd_cur := [], cd_curN := 0\<rparr> else c1)
   else Some c)"

definition feedCand :: "bytes \<Rightarrow> candidate \<Rightarrow> candidate option" where
  "feedCand buf c = (let c1 = c\<lparr>cd_h := cd_h c @ buf\<rparr> in if \<not> cd_rowed c1 then Some c1 else feedRows buf 0 c1)"

record sampled =
  sm_narrowDtype :: string
  sm_narrow :: string
  sm_blocks :: "(string \<times> nat) list option"
  sm_sign :: "(string \<times> nat) option"

definition finishCand :: "candidate \<Rightarrow> sampled" where
  "finishCand c = \<lparr>sm_narrowDtype = cd_dtype c, sm_narrow = named (cd_h c),
     sm_blocks = (if cd_rowed c then Some (cd_blocks c @ (if cd_curN c \<noteq> 0 then [(named (cd_cur c), cd_curN c)] else [])) else None),
     sm_sign = None\<rparr>"

subsection \<open>A tensor's sample\<close>

record sampler =
  ts_dtype :: string
  ts_shape :: "nat list"
  ts_n :: nat
  ts_float :: bool
  ts_pending :: bytes
  ts_seen :: nat
  ts_at :: nat
  ts_plain :: bytes
  ts_width :: nat
  ts_cands :: "candidate list"
  ts_count :: nat
  ts_bits :: "u32 list"

definition SAMPLED :: "string \<Rightarrow> bool" where
  "SAMPLED d \<longleftrightarrow> WIDTH d \<noteq> None \<or> d \<in> set Catalog.INHERITED"

text \<open>\<open>CANDIDATES[dtype].map\<close> of a name every object inherits is no function.\<close>

definition newSample :: "string \<Rightarrow> nat list \<Rightarrow> sampler result" where
  "newSample d shape = (let n = fold (*) shape 1; cnt = (if n \<le> SAMPLE then n else SAMPLE) in
     if \<not> SAMPLED d then Inr \<lparr>ts_dtype = d, ts_shape = shape, ts_n = n, ts_float = False, ts_pending = [], ts_seen = 0, ts_at = 0, ts_plain = [],
       ts_width = 0, ts_cands = [], ts_count = 0, ts_bits = []\<rparr>
     else (case WIDTH d of None \<Rightarrow> Inl TypeError
       | Some w \<Rightarrow> Inr \<lparr>ts_dtype = d, ts_shape = shape, ts_n = n, ts_float = True, ts_pending = [], ts_seen = 0, ts_at = 0, ts_plain = [],
           ts_width = w, ts_cands = map (newCandidate shape) (CANDIDATES d), ts_count = cnt, ts_bits = replicate cnt 0\<rparr>))"

definition idxOf :: "nat \<Rightarrow> nat \<Rightarrow> nat" where
  "idxOf n k = (if n \<le> SAMPLE then k else k * n div SAMPLE)"

text \<open>\<open>readUInt16LE\<close> and \<open>readUInt32LE\<close> at the \<open>i\<close>-th place of \<open>w\<close> bytes, always inside the buffer here.\<close>

definition leWord :: "bytes \<Rightarrow> u32" where
  "leWord bs = of_nat (foldr (\<lambda>b v. unat b + 256 * v) bs 0)"

definition valueAt :: "nat \<Rightarrow> bytes \<Rightarrow> nat \<Rightarrow> u32" where
  "valueAt w buf i = leWord (subarray buf (i * w) (i * w + w))"

definition signOf :: "nat \<Rightarrow> u32 \<Rightarrow> u32" where
  "signOf w v = (if w = 2 then drop_bit 15 v else drop_bit 31 v)"

text \<open>\<open>writeUInt16LE\<close>.\<close>

definition le2 :: "u32 \<Rightarrow> bytes" where
  "le2 v = [ucast v, ucast (drop_bit 8 v)]"

function signs :: "(nat \<Rightarrow> u32) \<Rightarrow> nat \<Rightarrow> nat \<Rightarrow> nat \<Rightarrow> nat \<Rightarrow> u32 list \<Rightarrow> nat \<times> u32 list" where
  "signs bitsOf n cnt hi at bits = (if at < cnt \<and> idxOf n at < hi
     then signs bitsOf n cnt hi (Suc at) (bits[at := bitsOf (idxOf n at)]) else (at, bits))"
  by pat_completeness auto
termination
  by (relation "measure (\<lambda>(_, _, cnt, _, at, _). cnt - at)") auto

declare signs.simps [simp del]

definition wide :: "string \<Rightarrow> u32 \<Rightarrow> u32" where
  "wide src v = (if src = ''F32'' then v else f16toF32 v)"

definition narrowTo :: "string \<Rightarrow> u32 \<Rightarrow> bytes option" where
  "narrowTo cdtype u = (if cdtype = ''BF16'' then if u AND 0xffff \<noteq> 0 then None else Some (le2 (drop_bit 16 u))
     else if cdtype = ''F16'' then map_option le2 (f32toF16Exact u) else None)"

definition convertBuf :: "string \<Rightarrow> bytes \<Rightarrow> nat \<Rightarrow> string \<Rightarrow> bytes option" where
  "convertBuf src buf cnt cdtype = (if src = cdtype then Some buf
     else map_option concat (those (map (\<lambda>i. narrowTo cdtype (wide src (valueAt (if src = ''F32'' then 4 else 2) buf i))) [0..<cnt])))"

fun feedAll :: "string \<Rightarrow> bytes \<Rightarrow> nat \<Rightarrow> candidate list \<Rightarrow> candidate list option" where
  "feedAll src buf cnt [] = Some []"
| "feedAll src buf cnt (c # cs) = (case (if \<not> cd_exact c then Some c
     else (case convertBuf src buf cnt (cd_dtype c) of None \<Rightarrow> Some (c\<lparr>cd_exact := False\<rparr>) | Some out \<Rightarrow> feedCand out c)) of
       None \<Rightarrow> None | Some c' \<Rightarrow> map_option ((#) c') (feedAll src buf cnt cs))"

definition updateSample :: "bytes \<Rightarrow> sampler \<Rightarrow> sampler option" where
  "updateSample buf0 st = (if \<not> ts_float st then Some (st\<lparr>ts_plain := ts_plain st @ buf0\<rparr>) else
     let buf1 = (if ts_pending st \<noteq> [] then ts_pending st @ buf0 else buf0);
       cut = length buf1 - length buf1 mod ts_width st;
       st1 = st\<lparr>ts_pending := (if cut < length buf1 then drop cut buf1 else [])\<rparr>;
       buf = (if cut < length buf1 then subarray buf1 0 cut else buf1) in
     if buf = [] then Some st1 else
     let cnt = length buf div ts_width st; lo = ts_seen st; hi = lo + cnt;
       (at, bits) = signs (\<lambda>i. signOf (ts_width st) (valueAt (ts_width st) buf (i - lo))) (ts_n st) (ts_count st) hi (ts_at st) (ts_bits st) in
     map_option (\<lambda>cs. st1\<lparr>ts_at := at, ts_bits := bits, ts_seen := hi, ts_cands := cs\<rparr>) (feedAll (ts_dtype st) buf cnt (ts_cands st)))"

definition signBytes :: "u32 list \<Rightarrow> nat \<Rightarrow> bytes" where
  "signBytes bits cnt = fold (\<lambda>k bs. if bits ! k \<noteq> 0 then bs[k div 8 := bs ! (k div 8) OR drop_bit (k mod 8) 0x80] else bs)
     [0..<cnt] (replicate ((cnt + 7) div 8) 0)"

definition resultSample :: "sampler \<Rightarrow> sampled result" where
  "resultSample st = (if \<not> ts_float st then Inr \<lparr>sm_narrowDtype = ts_dtype st, sm_narrow = named (ts_plain st), sm_blocks = None, sm_sign = None\<rparr>
     else if ts_pending st \<noteq> [] \<or> ts_seen st \<noteq> ts_n st then Inl (Error ''tensor bytes do not match its shape'')
     else (case List.find cd_exact (ts_cands st) of None \<Rightarrow> Inl TypeError
       | Some c \<Rightarrow> Inr ((finishCand c)\<lparr>sm_sign := Some (hex (signBytes (ts_bits st) (ts_count st)), ts_count st)\<rparr>)))"

text \<open>A sample from its creation to its result, as the indexer uses it: one update for every chunk.\<close>

fun updates :: "bytes list \<Rightarrow> sampler \<Rightarrow> sampler option" where
  "updates [] st = Some st"
| "updates (b # bs) st = (case updateSample b st of None \<Rightarrow> None | Some st1 \<Rightarrow> updates bs st1)"

definition sampleOf :: "string \<Rightarrow> nat list \<Rightarrow> bytes list \<Rightarrow> sampled result option" where
  "sampleOf d shape bufs = (case newSample d shape of Inl e \<Rightarrow> Some (Inl e) | Inr st \<Rightarrow> map_option resultSample (updates bufs st))"

subsection \<open>Blocks of rows\<close>

definition blockOf :: "bytes \<Rightarrow> string \<times> nat" where "blockOf b = (named b, length b)"

text \<open>What a candidate that has been fed \<open>p\<close> holds: the full blocks of \<open>p\<close>, and what is left.\<close>

definition blocked :: "candidate \<Rightarrow> bytes \<Rightarrow> bool" where
  "blocked c p \<longleftrightarrow> (\<exists>full. p = concat full @ cd_cur c \<and> (\<forall>b \<in> set full. length b = cd_blockBytes c)
     \<and> cd_blocks c = map blockOf full \<and> cd_curN c = length (cd_cur c) \<and> length (cd_cur c) < cd_blockBytes c)"

definition alike :: "candidate \<Rightarrow> candidate \<Rightarrow> bool" where
  "alike c c' \<longleftrightarrow> cd_dtype c' = cd_dtype c \<and> cd_exact c' = cd_exact c \<and> cd_rowed c' = cd_rowed c \<and> cd_blockBytes c' = cd_blockBytes c"

lemma feedRows_blocked:
  "blocked c p \<Longrightarrow> k \<le> length buf \<Longrightarrow>
   \<exists>c'. feedRows buf k c = Some c' \<and> blocked c' (p @ drop k buf) \<and> alike c c' \<and> cd_h c' = cd_h c"
proof (induction "length buf - k" arbitrary: k c p rule: less_induct)
  case less
  show ?case
  proof (cases "k < length buf")
    case False
    then show ?thesis using less.prems by (subst feedRows.simps) (simp add: alike_def)
  next
    case True
    define n where "n = min (cd_blockBytes c - cd_curN c) (length buf - k)"
    define c1 where "c1 = c\<lparr>cd_cur := cd_cur c @ subarray buf k (k + n), cd_curN := cd_curN c + n\<rparr>"
    define c2 where "c2 = (if cd_curN c1 = cd_blockBytes c1
      then c1\<lparr>cd_blocks := cd_blocks c1 @ [(named (cd_cur c1), cd_curN c1)], cd_cur := [], cd_curN := 0\<rparr> else c1)"
    obtain full where f: "p = concat full @ cd_cur c" "\<forall>b \<in> set full. length b = cd_blockBytes c" "cd_blocks c = map blockOf full"
        "cd_curN c = length (cd_cur c)" "length (cd_cur c) < cd_blockBytes c"
      using less.prems(1) by (auto simp: blocked_def)
    have n: "0 < n" "k + n \<le> length buf" "length (cd_cur c) + n \<le> cd_blockBytes c" using True f(4,5) by (auto simp: n_def)
    have l: "length (subarray buf k (k + n)) = n" using n(2) by (simp add: subarray_def)
    have b2: "blocked c2 (p @ subarray buf k (k + n))"
    proof (cases "length (cd_cur c) + n = cd_blockBytes c")
      case full: True
      then show ?thesis using f l n(1) unfolding blocked_def
        by (intro exI [of _ "full @ [cd_cur c @ subarray buf k (k + n)]"]) (auto simp: c2_def c1_def blockOf_def)
    next
      case False
      then show ?thesis using f l n unfolding blocked_def
        by (intro exI [of _ full]) (simp add: c2_def c1_def)
    qed
    have "alike c c2" "cd_h c2 = cd_h c" by (simp_all add: c2_def c1_def alike_def)
    moreover obtain c' where "feedRows buf (k + n) c2 = Some c'" "blocked c' ((p @ subarray buf k (k + n)) @ drop (k + n) buf)" "alike c2 c'" "cd_h c' = cd_h c2"
      using less.hyps [of "k + n" c2, OF diff_less_mono2 b2] n(1,2) True by auto
    moreover have "feedRows buf k c = feedRows buf (k + n) c2"
      using True by (subst feedRows.simps) (simp add: Let_def n_def c1_def c2_def)
    moreover have "subarray buf k (k + n) @ drop (k + n) buf = drop k buf"
      by (simp add: subarray_def) (metis append_take_drop_id drop_drop add.commute)
    ultimately show ?thesis by (auto simp: alike_def)
  qed
qed

lemma feedCand_fed:
  "cd_rowed c \<longrightarrow> blocked c (cd_h c) \<Longrightarrow>
   \<exists>c'. feedCand out c = Some c' \<and> (cd_rowed c \<longrightarrow> blocked c' (cd_h c @ out)) \<and> alike c c' \<and> cd_h c' = cd_h c @ out"
proof (cases "cd_rowed c")
  case True
  assume "cd_rowed c \<longrightarrow> blocked c (cd_h c)"
  then have "blocked (c\<lparr>cd_h := cd_h c @ out\<rparr>) (cd_h c)" using True by (simp add: blocked_def)
  from feedRows_blocked [OF this, of 0 out] show ?thesis using True by (auto simp: feedCand_def Let_def alike_def)
qed (simp add: feedCand_def Let_def alike_def)

lemma blocked_chunks:
  assumes "blocked c p"
  shows "cd_blocks c @ (if cd_curN c \<noteq> 0 then [(named (cd_cur c), cd_curN c)] else []) = map blockOf (chunks (cd_blockBytes c) p)"
proof -
  obtain full where f: "p = concat full @ cd_cur c" "\<forall>b \<in> set full. length b = cd_blockBytes c" "cd_blocks c = map blockOf full"
      "cd_curN c = length (cd_cur c)" "length (cd_cur c) < cd_blockBytes c"
    using assms by (auto simp: blocked_def)
  have "chunks (cd_blockBytes c) (concat full @ cd_cur c) = full @ (if cd_cur c = [] then [] else [cd_cur c])"
    using f(2,5)
  proof (induction full)
    case Nil
    then show ?case using chunks_short [of "cd_cur c" "cd_blockBytes c"] by simp
  next
    case (Cons b bs)
    then show ?case using chunks_append [of b "cd_blockBytes c" "concat bs @ cd_cur c"] by simp
  qed
  then show ?thesis using f by (simp add: blockOf_def)
qed

text \<open>A block of no bytes: the loop never ends.\<close>

lemma feedRows_never:
  assumes "cd_blockBytes c = 0" "cd_curN c = 0" "k < length buf"
  shows "feedRows buf k c = None"
proof -
  define never where "never = (\<lambda>buf :: bytes. \<lambda>k (c :: candidate) (c' :: candidate). \<not> (cd_blockBytes c = 0 \<and> cd_curN c = 0 \<and> k < length buf))"
  have "never buf k c c'" if "feedRows buf k c = Some c'" for c'
  proof (rule feedRows.raw_induct [where P = never, OF _ that])
    fix g b j d y
    assume IH: "\<And>b j d y. g b j d = Some y \<Longrightarrow> never b j d y"
      and e: "(if j < length b then let n = min (cd_blockBytes d - cd_curN d) (length b - j);
          c1 = d\<lparr>cd_cur := cd_cur d @ subarray b j (j + n), cd_curN := cd_curN d + n\<rparr> in
        g b (j + n) (if cd_curN c1 = cd_blockBytes c1
          then c1\<lparr>cd_blocks := cd_blocks c1 @ [(named (cd_cur c1), cd_curN c1)], cd_cur := [], cd_curN := 0\<rparr> else c1)
        else Some d) = Some y"
    show "never b j d y"
      unfolding never_def using e by (auto simp: Let_def dest!: IH) (auto simp: never_def)
  qed
  then show ?thesis using assms by (cases "feedRows buf k c") (auto simp: never_def)
qed

subsection \<open>The sample of the whole tensor\<close>

definition narrowed :: "string \<Rightarrow> string \<Rightarrow> bytes \<Rightarrow> bytes option" where
  "narrowed d cd bs = (if d = cd then Some bs
     else map_option concat (those (map (\<lambda>b. narrowTo cd (wide d (leWord b))) (chunks (the (WIDTH d)) bs))))"

text \<open>The narrowest type that holds every value, and the payload in it.\<close>

definition narrowest :: "string \<Rightarrow> bytes \<Rightarrow> string \<times> bytes" where
  "narrowest d bs = (let cd = the (List.find (\<lambda>c. narrowed d c bs \<noteq> None) (CANDIDATES d)) in (cd, the (narrowed d cd bs)))"

definition signsOf :: "string \<Rightarrow> nat \<Rightarrow> bytes \<Rightarrow> u32 list" where
  "signsOf d n bs = (let w = the (WIDTH d); vs = chunks w bs in map (\<lambda>k. signOf w (leWord (vs ! idxOf n k))) [0..<min n SAMPLE])"

definition provenanceOf :: "string \<Rightarrow> nat list \<Rightarrow> bytes \<Rightarrow> sampled" where
  "provenanceOf d shape bs = (let n = fold (*) shape 1; (cd, payload) = narrowest d bs in
     \<lparr>sm_narrowDtype = cd, sm_narrow = named payload,
      sm_blocks = (if 2 \<le> length shape then Some (map blockOf (chunks (the (WIDTH cd) * fold (*) (drop 1 shape) 1 * ROWS) payload)) else None),
      sm_sign = Some (hex (signBytes (signsOf d n bs) (min n SAMPLE)), min n SAMPLE)\<rparr>)"

lemma chunks_append_dvd: "0 < w \<Longrightarrow> length xs = w * k \<Longrightarrow> chunks w (xs @ ys) = chunks w xs @ chunks w ys"
proof (induction k arbitrary: xs)
  case (Suc k)
  have "xs = take w xs @ drop w xs" by simp
  moreover have "length (take w xs) = w" "length (drop w xs) = w * k" using Suc.prems by simp_all
  moreover have "chunks w (take w xs @ (drop w xs @ ys)) = take w xs # (chunks w (drop w xs) @ chunks w ys)"
    using Suc.IH [of "drop w xs"] Suc.prems chunks_append [of "take w xs" w "drop w xs @ ys"] by simp
  moreover have "chunks w (take w xs @ drop w xs) = take w xs # chunks w (drop w xs)"
    using Suc.prems by (intro chunks_append) simp_all
  ultimately show ?case by (metis append.assoc append_Cons)
qed simp

lemma chunks_at: "0 < w \<Longrightarrow> length xs = w * k \<Longrightarrow> i < k \<Longrightarrow> chunks w xs ! i = subarray xs (i * w) (i * w + w)"
proof (induction k arbitrary: xs i)
  case (Suc k)
  have "xs \<noteq> []" using Suc.prems by auto
  then have c: "chunks w xs = take w xs # chunks w (drop w xs)" using Suc.prems by (simp add: chunks_step)
  show ?case
  proof (cases i)
    case (Suc j)
    then have "chunks w (drop w xs) ! j = subarray (drop w xs) (j * w) (j * w + w)"
      using Suc.IH [of "drop w xs" j] Suc.prems by simp
    then show ?thesis using c Suc by (simp add: subarray_def add.commute)
  qed (simp add: c subarray_def)
qed simp

lemma length_chunks_dvd: "0 < w \<Longrightarrow> length xs = w * k \<Longrightarrow> length (chunks w xs) = k"
proof (induction k arbitrary: xs)
  case (Suc k)
  then have "xs \<noteq> []" by auto
  then show ?case using Suc.IH [of "drop w xs"] Suc.prems by (simp add: chunks_step)
qed simp

lemma chunks_slices: "0 < w \<Longrightarrow> length xs = w * k \<Longrightarrow> chunks w xs = map (\<lambda>i. subarray xs (i * w) (i * w + w)) [0..<k]"
  by (intro nth_equalityI) (simp_all add: length_chunks_dvd chunks_at)

lemma those_append: "those (xs @ ys) = (case those xs of None \<Rightarrow> None | Some a \<Rightarrow> map_option ((@) a) (those ys))"
  by (cases "those ys"; induction xs) (auto split: option.splits)

lemma narrowed_append:
  assumes "0 < the (WIDTH d)" "length xs = the (WIDTH d) * k"
  shows "narrowed d cd (xs @ ys) = (case narrowed d cd xs of None \<Rightarrow> None | Some a \<Rightarrow> map_option ((@) a) (narrowed d cd ys))"
  unfolding narrowed_def chunks_append_dvd [OF assms]
  by (auto simp: those_append option.map_comp comp_def split: option.splits)

lemma WIDTH_cases: "WIDTH d = Some w \<longleftrightarrow> (d = ''BF16'' \<and> w = 2) \<or> (d = ''F16'' \<and> w = 2) \<or> (d = ''F32'' \<and> w = 4)"
  by (auto simp: WIDTH_def)

lemma CANDIDATES_cases: "CANDIDATES ''BF16'' = [''BF16'']" "CANDIDATES ''F16'' = [''BF16'', ''F16'']" "CANDIDATES ''F32'' = [''BF16'', ''F16'', ''F32'']"
  by (simp_all add: CANDIDATES_def)

lemma convertBuf_narrowed:
  assumes "WIDTH d = Some w" "length buf = w * k" "cd \<in> set (CANDIDATES d)"
  shows "convertBuf d buf k cd = narrowed d cd buf"
proof (cases "d = cd")
  case False
  then have "w = (if d = ''F32'' then 4 else 2)" using assms by (auto simp: WIDTH_cases CANDIDATES_cases)
  then show ?thesis using False assms(1,2) chunks_slices [of w buf k]
    by (simp add: convertBuf_def narrowed_def valueAt_def comp_def)
qed (simp add: convertBuf_def narrowed_def)

subsection \<open>What a sampler holds\<close>

definition candOf :: "string \<Rightarrow> nat list \<Rightarrow> bytes \<Rightarrow> candidate \<Rightarrow> bool" where
  "candOf d shape bs c \<longleftrightarrow> cd_dtype c \<in> set (CANDIDATES d) \<and> cd_rowed c = (2 \<le> length shape)
     \<and> cd_blockBytes c = the (WIDTH (cd_dtype c)) * fold (*) (drop 1 shape) 1 * ROWS
     \<and> (case narrowed d (cd_dtype c) bs of None \<Rightarrow> \<not> cd_exact c
        | Some p \<Rightarrow> cd_exact c \<and> cd_h c = p \<and> (cd_rowed c \<longrightarrow> blocked c p))"

lemma feedAll_candOf:
  assumes "WIDTH d = Some w" "0 < w" "length bs = w * j" "length buf = w * k"
  shows "list_all (candOf d shape bs) cs \<Longrightarrow>
    \<exists>cs'. feedAll d buf k cs = Some cs' \<and> list_all (candOf d shape (bs @ buf)) cs' \<and> map cd_dtype cs' = map cd_dtype cs"
proof (induction cs)
  case (Cons c cs)
  then obtain cs' where IH: "feedAll d buf k cs = Some cs'" "list_all (candOf d shape (bs @ buf)) cs'" "map cd_dtype cs' = map cd_dtype cs"
    by auto
  have c: "candOf d shape bs c" using Cons.prems by simp
  have cv: "convertBuf d buf k (cd_dtype c) = narrowed d (cd_dtype c) buf"
    using convertBuf_narrowed [OF assms(1,4)] c by (simp add: candOf_def)
  have ap: "narrowed d (cd_dtype c) (bs @ buf) = (case narrowed d (cd_dtype c) bs of None \<Rightarrow> None | Some a \<Rightarrow> map_option ((@) a) (narrowed d (cd_dtype c) buf))"
    using narrowed_append [of d bs j] assms by simp
  have "\<exists>c'. (if \<not> cd_exact c then Some c
     else (case convertBuf d buf k (cd_dtype c) of None \<Rightarrow> Some (c\<lparr>cd_exact := False\<rparr>) | Some out \<Rightarrow> feedCand out c)) = Some c'
     \<and> candOf d shape (bs @ buf) c' \<and> cd_dtype c' = cd_dtype c"
  proof (cases "narrowed d (cd_dtype c) bs")
    case None
    then show ?thesis using c ap by (simp add: candOf_def)
  next
    case (Some p)
    then have p: "cd_exact c" "cd_h c = p" "cd_rowed c \<longrightarrow> blocked c p" using c by (simp_all add: candOf_def)
    show ?thesis
    proof (cases "narrowed d (cd_dtype c) buf")
      case None
      then show ?thesis using c ap Some p(1) cv by (simp add: candOf_def)
    next
      case out: (Some out)
      then show ?thesis using feedCand_fed [of c out] p c ap Some cv by (auto simp: candOf_def alike_def)
    qed
  qed
  then show ?case using IH by auto
qed simp

lemma idxOf_mono: "k \<le> l \<Longrightarrow> idxOf n k \<le> idxOf n l"
  by (simp add: idxOf_def div_le_mono)

lemma signs_spec:
  "signs f n cnt hi at bits = (at', bits') \<Longrightarrow> at \<le> cnt \<Longrightarrow> length bits = cnt \<Longrightarrow>
   at \<le> at' \<and> at' \<le> cnt \<and> (\<forall>k. at \<le> k \<and> k < at' \<longrightarrow> idxOf n k < hi) \<and> (at' < cnt \<longrightarrow> hi \<le> idxOf n at')
   \<and> bits' = map (\<lambda>k. if at \<le> k \<and> k < at' then f (idxOf n k) else bits ! k) [0..<cnt]"
proof (induction f n cnt hi at bits rule: signs.induct)
  case (1 f n cnt hi at bits)
  show ?case
  proof (cases "at < cnt \<and> idxOf n at < hi")
    case True
    then have e: "signs f n cnt hi (Suc at) (bits[at := f (idxOf n at)]) = (at', bits')"
      using "1.prems"(1) by (simp add: signs.simps [of f n cnt hi at])
    note IH = "1.IH" [OF True e]
    have "k = at \<or> Suc at \<le> k" if "at \<le> k" for k using that by auto
    then show ?thesis using IH True "1.prems" by (auto simp: nth_list_update intro!: map_cong)
  next
    case False
    then have "signs f n cnt hi at bits = (at, bits)" unfolding signs.simps [of f n cnt hi at] by (rule if_not_P)
    then have "at' = at" "bits' = bits" using "1.prems"(1) by simp_all
    moreover have "bits = map (\<lambda>k. if at \<le> k \<and> k < at then f (idxOf n k) else bits ! k) [0..<cnt]"
      using "1.prems" by (intro nth_equalityI) auto
    ultimately show ?thesis using False "1.prems" by auto
  qed
qed

text \<open>The state after the bytes \<open>bs\<close>: what fills whole values has been sampled, and the sign read next lies ahead.\<close>

definition sampledTo :: "string \<Rightarrow> nat list \<Rightarrow> bytes \<Rightarrow> sampler \<Rightarrow> bool" where
  "sampledTo d shape bs st \<longleftrightarrow> (let w = the (WIDTH d); n = fold (*) shape 1; cnt = min n SAMPLE; got = take (w * ts_seen st) bs in
     ts_float st \<and> ts_dtype st = d \<and> ts_width st = w \<and> ts_n st = n \<and> ts_count st = cnt
     \<and> ts_seen st = length bs div w \<and> ts_pending st = drop (w * ts_seen st) bs
     \<and> ts_at st \<le> cnt \<and> (\<forall>k < ts_at st. idxOf n k < ts_seen st) \<and> (ts_at st < cnt \<longrightarrow> ts_seen st \<le> idxOf n (ts_at st))
     \<and> ts_bits st = map (\<lambda>k. if k < ts_at st then signOf w (leWord (chunks w got ! idxOf n k)) else 0) [0..<cnt]
     \<and> list_all (candOf d shape got) (ts_cands st) \<and> map cd_dtype (ts_cands st) = CANDIDATES d)"

lemma newSample_sampled:
  assumes "WIDTH d = Some w" "0 \<notin> set (drop 1 shape)"
  shows "\<exists>st. newSample d shape = Inr st \<and> sampledTo d shape [] st"
proof -
  have "fold (*) (drop 1 shape) 1 \<noteq> (0 :: nat)"
  proof -
    have "0 \<notin> set ns \<Longrightarrow> a \<noteq> 0 \<Longrightarrow> fold (*) ns a \<noteq> (0 :: nat)" for ns a by (induction ns arbitrary: a) auto
    then show ?thesis using assms(2) by simp
  qed
  moreover have "0 < the (WIDTH cd)" if "cd \<in> set (CANDIDATES d)" for cd
    using assms(1) that by (auto simp: WIDTH_cases CANDIDATES_cases) (simp_all add: WIDTH_def)
  moreover have "narrowed d cd [] = Some []" for cd by (simp add: narrowed_def)
  ultimately have "list_all (candOf d shape []) (map (newCandidate shape) (CANDIDATES d))"
    by (auto simp: list_all_iff candOf_def newCandidate_def blocked_def ROWS_def)
  moreover have "map cd_dtype (map (newCandidate shape) (CANDIDATES d)) = CANDIDATES d"
    by (simp add: comp_def newCandidate_def)
  ultimately show ?thesis using assms(1)
    by (simp add: newSample_def SAMPLED_def Let_def sampledTo_def min_def) (auto simp: map_replicate_const)
qed

lemma updateSample_sampled:
  assumes d: "WIDTH d = Some w" and s: "sampledTo d shape bs st"
  shows "\<exists>st'. updateSample b st = Some st' \<and> sampledTo d shape (bs @ b) st'"
proof -
  have w: "0 < w" "the (WIDTH d) = w" using d WIDTH_cases [of d w] by auto
  define n where "n = fold (*) shape (1 :: nat)"
  define cnt where "cnt = min n SAMPLE"
  define j where "j = ts_seen st"
  define got where "got = take (w * j) bs"
  define rest where "rest = drop (w * j) bs @ b"
  define k where "k = length rest div w"
  define buf where "buf = take (w * k) rest"
  have j: "j = length bs div w" "w * j \<le> length bs" using s w by (auto simp: sampledTo_def j_def Let_def)
  have ld: "length got = w * j" using j by (simp add: got_def)
  have lb: "length buf = w * k" "w * k \<le> length rest" by (simp_all add: buf_def k_def)
  have pend: "ts_pending st = drop (w * j) bs" using s w by (simp add: sampledTo_def Let_def j_def)
  have buf1: "(if ts_pending st \<noteq> [] then ts_pending st @ b else b) = rest" by (simp add: pend rest_def)
  have cut: "length rest - length rest mod w = w * k" by (simp add: k_def minus_mod_eq_mult_div)
  have all: "bs @ b = got @ buf @ drop (w * k) rest" 
  proof -
    have "bs @ b = got @ rest" by (simp add: got_def rest_def)
    moreover have "rest = buf @ drop (w * k) rest" by (simp add: buf_def)
    ultimately show ?thesis by metis
  qed
  have tot: "length (bs @ b) div w = j + k"
  proof -
    have "length (bs @ b) = w * j + length rest" using j(2) by (simp add: rest_def)
    then show ?thesis using w by (simp add: k_def)
  qed
  have tk: "take (w * (j + k)) (bs @ b) = got @ buf" "drop (w * (j + k)) (bs @ b) = drop (w * k) rest"
    unfolding all using ld lb by (simp_all add: distrib_left)
  define st1 where "st1 = st\<lparr>ts_pending := drop (w * k) rest\<rparr>"
  have st1: "st\<lparr>ts_pending := (if w * k < length rest then drop (w * k) rest else [])\<rparr> = st1"
    using lb by (simp add: st1_def)
  have bufE: "(if w * k < length rest then subarray rest 0 (w * k) else rest) = buf" using lb by (simp add: buf_def subarray_def)
  note S = s [unfolded sampledTo_def Let_def w(2) n_def [symmetric] cnt_def [symmetric]]
  have st: "ts_float st" "ts_width st = w" "ts_n st = n" "ts_count st = cnt" "ts_dtype st = d" "ts_seen st = j"
    using S j_def by blast+
  have t: "take (w * (length (bs @ b) div w)) (bs @ b) = got @ buf" "drop (w * (length (bs @ b) div w)) (bs @ b) = drop (w * k) rest"
    unfolding tot by (rule tk)+
  show ?thesis
  proof (cases "buf = []")
    case True
    then have "w * k = 0" using lb(1) by (metis list.size(3))
    then have "k = 0" using w(1) by simp
    moreover have "updateSample b st = Some st1"
      using True by (simp add: updateSample_def Let_def st buf1 cut st1 bufE cong: if_cong)
    moreover have "sampledTo d shape (bs @ b) st1"
    proof -
      have E: "take (w * ts_seen st) (bs @ b) = take (w * ts_seen st) bs" "ts_seen st = length (bs @ b) div w" "ts_pending st1 = drop (w * ts_seen st) (bs @ b)"
        using tk st(6) tot True \<open>k = 0\<close> by (simp_all add: st1_def got_def)
      have f: "ts_float st1 = ts_float st" "ts_dtype st1 = ts_dtype st" "ts_width st1 = ts_width st" "ts_n st1 = ts_n st" "ts_count st1 = ts_count st"
        "ts_seen st1 = ts_seen st" "ts_at st1 = ts_at st" "ts_bits st1 = ts_bits st" "ts_cands st1 = ts_cands st" by (simp_all add: st1_def)
      show ?thesis
        unfolding sampledTo_def Let_def w(2) n_def [symmetric] cnt_def [symmetric] f E(1) using S E(2,3) by blast
    qed
    ultimately show ?thesis by blast
  next
    case False
    have "length buf div w = k" unfolding lb(1) using w(1) by simp
    obtain at bits where sg: "signs (\<lambda>i. signOf w (valueAt w buf (i - j))) n cnt (j + k) (ts_at st) (ts_bits st) = (at, bits)"
      by fastforce
    have inv: "ts_at st \<le> cnt" "\<And>i. i < ts_at st \<Longrightarrow> idxOf n i < j" "ts_at st < cnt \<Longrightarrow> j \<le> idxOf n (ts_at st)"
      "ts_bits st = map (\<lambda>i. if i < ts_at st then signOf w (leWord (chunks w got ! idxOf n i)) else 0) [0..<cnt]"
      using S unfolding j_def got_def by blast+
    have sp: "ts_at st \<le> at" "at \<le> cnt" "\<And>i. ts_at st \<le> i \<Longrightarrow> i < at \<Longrightarrow> idxOf n i < j + k" "at < cnt \<Longrightarrow> j + k \<le> idxOf n at"
      "bits = map (\<lambda>i. if ts_at st \<le> i \<and> i < at then signOf w (valueAt w buf (idxOf n i - j)) else ts_bits st ! i) [0..<cnt]"
      using signs_spec [OF sg inv(1)] inv(4) by auto
    have vals: "chunks w (got @ buf) ! idxOf n i = (if i < ts_at st then chunks w got ! idxOf n i else subarray buf ((idxOf n i - j) * w) ((idxOf n i - j) * w + w))"
      if "i < at" for i
    proof (cases "i < ts_at st")
      case True
      then show ?thesis using chunks_append_dvd [OF w(1) ld, of buf] length_chunks_dvd [OF w(1) ld] inv(2) by (simp add: nth_append)
    next
      case False
      then have "j \<le> idxOf n i" using inv(3) idxOf_mono [of "ts_at st" i n] that sp(2) by (meson le_trans linorder_not_less less_le_trans)
      then show ?thesis using False chunks_append_dvd [OF w(1) ld, of buf] length_chunks_dvd [OF w(1) ld] chunks_at [OF w(1) lb(1), of "idxOf n i - j"] sp(3) [of i] that
        by (simp add: nth_append)
    qed
    have bits: "bits = map (\<lambda>i. if i < at then signOf w (leWord (chunks w (got @ buf) ! idxOf n i)) else 0) [0..<cnt]"
      unfolding sp(5) using vals sp(1) by (intro map_cong refl) (auto simp: inv(4) valueAt_def)
    obtain cs where cs: "feedAll d buf k (ts_cands st) = Some cs" "list_all (candOf d shape (got @ buf)) cs" "map cd_dtype cs = CANDIDATES d"
      using feedAll_candOf [OF d w(1) ld lb(1), of shape "ts_cands st"] s w by (auto simp: sampledTo_def Let_def got_def j_def)
    have "updateSample b st = Some (st1\<lparr>ts_at := at, ts_bits := bits, ts_seen := j + k, ts_cands := cs\<rparr>)"
      using False \<open>length buf div w = k\<close> by (simp add: updateSample_def Let_def st buf1 cut st1 bufE sg cs(1) cong: if_cong)
    moreover have "sampledTo d shape (bs @ b) (st1\<lparr>ts_at := at, ts_bits := bits, ts_seen := j + k, ts_cands := cs\<rparr>)"
    proof -
      have "idxOf n i < j + k" if "i < at" for i using sp(3) [of i] inv(2) [of i] that by (cases "i < ts_at st") auto
      moreover have "take (w * (j + k)) (bs @ b) = got @ buf" "drop (w * (j + k)) (bs @ b) = drop (w * k) rest" by (rule tk)+
      ultimately show ?thesis
        unfolding sampledTo_def Let_def w(2) n_def [symmetric] cnt_def [symmetric] tot
        using sp(2,4) cs(2,3) bits st by (simp add: st1_def)
    qed
    ultimately show ?thesis by blast
  qed
qed

lemma updates_sampled:
  "WIDTH d = Some w \<Longrightarrow> sampledTo d shape bs st \<Longrightarrow> \<exists>st'. updates bufs st = Some st' \<and> sampledTo d shape (bs @ concat bufs) st'"
proof (induction bufs arbitrary: bs st)
  case (Cons b bufs)
  then obtain st1 where "updateSample b st = Some st1" "sampledTo d shape (bs @ b) st1" using updateSample_sampled by blast
  then show ?case using Cons.IH [of "bs @ b" st1] Cons.prems(1) by simp
qed simp

lemma idxOf_below: "k < min n SAMPLE \<Longrightarrow> idxOf n k < n"
  by (auto simp: idxOf_def SAMPLE_def less_mult_imp_div_less)

lemma narrowest_found:
  assumes "WIDTH d = Some w"
  obtains cd p where "List.find (\<lambda>c. narrowed d c bs \<noteq> None) (CANDIDATES d) = Some cd" "narrowed d cd bs = Some p" "narrowest d bs = (cd, p)"
proof -
  have "d \<in> set (CANDIDATES d) \<and> narrowed d d bs \<noteq> None" using assms by (auto simp: WIDTH_cases CANDIDATES_cases narrowed_def)
  then obtain cd where f: "List.find (\<lambda>c. narrowed d c bs \<noteq> None) (CANDIDATES d) = Some cd"
    by (cases "List.find (\<lambda>c. narrowed d c bs \<noteq> None) (CANDIDATES d)") (auto simp: find_None_iff)
  then obtain p where "narrowed d cd bs = Some p" by (auto simp: find_Some_iff)
  with f show ?thesis using that by (simp add: narrowest_def Let_def)
qed

lemma find_alike: "map g xs = ys \<Longrightarrow> (\<And>x. x \<in> set xs \<Longrightarrow> P x = Q (g x)) \<Longrightarrow> List.find Q ys = map_option g (List.find P xs)"
  by (induction xs arbitrary: ys) auto

lemma resultSample_sampled:
  assumes d: "WIDTH d = Some w" and s: "sampledTo d shape bs st"
  shows "resultSample st = (if length bs = fold (*) shape 1 * w then Inr (provenanceOf d shape bs) else Inl (Error ''tensor bytes do not match its shape''))"
proof -
  have w: "0 < w" "the (WIDTH d) = w" using d WIDTH_cases [of d w] by auto
  define n where "n = fold (*) shape (1 :: nat)"
  have st: "ts_float st" "ts_n st = n" "ts_count st = min n SAMPLE" "ts_seen st = length bs div w" "ts_pending st = drop (w * (length bs div w)) bs"
    using s w by (simp_all add: sampledTo_def Let_def n_def)
  have iff: "(ts_pending st \<noteq> [] \<or> ts_seen st \<noteq> ts_n st) \<longleftrightarrow> length bs \<noteq> n * w"
  proof -
    have m: "length bs = w * (length bs div w) + length bs mod w" by simp
    then have "ts_pending st = [] \<longleftrightarrow> length bs mod w = 0" unfolding st(5) drop_eq_Nil by linarith
    then show ?thesis using m st(2,4) w(1) by (metis add.right_neutral mod_mult_self2_is_0 mult.commute nonzero_mult_div_cancel_right not_gr_zero)
  qed
  show ?thesis
  proof (cases "length bs = n * w")
    case False
    then show ?thesis using st(1) iff by (simp add: resultSample_def n_def)
  next
    case True
    then have seen: "ts_seen st = n" "take (w * ts_seen st) bs = bs" using st w by (auto simp: mult.commute)
    have at: "ts_at st = min n SAMPLE"
      using s idxOf_below [of "ts_at st" n] seen(1) st(2,3) by (fastforce simp: sampledTo_def Let_def n_def not_less)
    have "ts_bits st = map (\<lambda>k. if k < ts_at st then signOf w (leWord (chunks w (take (w * ts_seen st) bs) ! idxOf n k)) else 0) [0..<min n SAMPLE]"
      using s w by (simp only: sampledTo_def Let_def n_def)
    then have bits: "ts_bits st = signsOf d n bs"
      unfolding seen(2) at by (simp add: signsOf_def w Let_def)
    have cands: "list_all (candOf d shape bs) (ts_cands st)" "map cd_dtype (ts_cands st) = CANDIDATES d"
      using s [unfolded sampledTo_def Let_def w(2) seen(2)] by blast+
    obtain cd p where cd: "List.find (\<lambda>c. narrowed d c bs \<noteq> None) (CANDIDATES d) = Some cd" "narrowed d cd bs = Some p" "narrowest d bs = (cd, p)"
      using narrowest_found [OF d] by blast
    have "List.find (\<lambda>c. narrowed d c bs \<noteq> None) (CANDIDATES d) = map_option cd_dtype (List.find cd_exact (ts_cands st))"
      using cands by (intro find_alike) (auto simp: list_all_iff candOf_def split: option.splits)
    then obtain c where c: "List.find cd_exact (ts_cands st) = Some c" "cd_dtype c = cd" using cd(1) by auto
    then have "c \<in> set (ts_cands st)" by (auto simp: find_Some_iff)
    then have cc: "candOf d shape bs c" using cands(1) by (simp add: list_all_iff)
    then have "finishCand c = \<lparr>sm_narrowDtype = cd, sm_narrow = named p,
        sm_blocks = (if 2 \<le> length shape then Some (map blockOf (chunks (the (WIDTH cd) * fold (*) (drop 1 shape) 1 * ROWS) p)) else None), sm_sign = None\<rparr>"
      using c(2) cd(2) blocked_chunks [of c p] by (auto simp: finishCand_def candOf_def)
    then show ?thesis using True st(1,3) iff c(1) bits cd(3) by (simp add: resultSample_def provenanceOf_def n_def Let_def)
  qed
qed

text \<open>
  C7. However the bytes of a float tensor are cut, the sample is that of the whole: the narrowest type that holds every
  value, the hash of the payload in it and of each 1024 rows, and the signs of the values at the chosen indices. Bytes
  that do not match the shape are refused.
\<close>

theorem sample_exact:
  assumes "WIDTH d = Some w" and "0 \<notin> set (drop 1 shape)"
  shows "sampleOf d shape bufs = Some (if length (concat bufs) = fold (*) shape 1 * w
    then Inr (provenanceOf d shape (concat bufs)) else Inl (Error ''tensor bytes do not match its shape''))"
proof -
  obtain st where "newSample d shape = Inr st" "sampledTo d shape [] st" using newSample_sampled [OF assms] by blast
  moreover obtain st' where "updates bufs st = Some st'" "sampledTo d shape (concat bufs) st'"
    using updates_sampled [OF assms(1) calculation(2), of bufs] by auto
  ultimately show ?thesis using resultSample_sampled [OF assms(1)] by (simp add: sampleOf_def)
qed

theorem sample_exact_witness:
  "sampleOf ''F32'' [1, 1] [[0, 0], [0x80, 0x3f]] = Some (Inr (provenanceOf ''F32'' [1, 1] [0, 0, 0x80, 0x3f]))
   \<and> narrowest ''F32'' [0, 0, 0x80, 0x3f] = (''BF16'', [0x80, 0x3f])"
proof
  show "sampleOf ''F32'' [1, 1] [[0, 0], [0x80, 0x3f]] = Some (Inr (provenanceOf ''F32'' [1, 1] [0, 0, 0x80, 0x3f]))"
    using sample_exact [of "''F32''" 4 "[1, 1]" "[[0, 0], [0x80, 0x3f]]"] by (simp add: WIDTH_def)
  have "chunks 4 [0, 0, 0x80, 0x3f :: byte] = [[0, 0, 0x80, 0x3f]]" by (rule chunks_short) simp_all
  then have "narrowed ''F32'' ''BF16'' [0, 0, 0x80, 0x3f] = Some [0x80, 0x3f]"
    by (simp add: narrowed_def WIDTH_def leWord_def wide_def narrowTo_def le2_def)
  then show "narrowest ''F32'' [0, 0, 0x80, 0x3f] = (''BF16'', [0x80, 0x3f])" by (simp add: narrowest_def CANDIDATES_cases)
qed

text \<open>A dimension of zero after the first and a byte of data: the blocks have no bytes, and the sample is never done.\<close>

lemma sample_never: "sampleOf ''F32'' [1, 0] [[0, 0, 0, 0]] = None"
proof -
  have s: "signs f n 0 hi 0 [] = (0, [])" for f n hi by (simp add: signs.simps)
  have c: "convertBuf ''F32'' [0, 0, 0, 0] 1 ''BF16'' = Some [0, 0]"
    by (simp add: convertBuf_def valueAt_def subarray_def leWord_def wide_def narrowTo_def le2_def)
  have f: "feedRows [0, 0] 0 ((newCandidate [1, 0] ''BF16'')\<lparr>cd_h := [0, 0]\<rparr>) = None"
    by (rule feedRows_never) (simp_all add: newCandidate_def)
  then have "feedCand [0, 0] (newCandidate [1, 0] ''BF16'') = None"
    by (simp add: feedCand_def Let_def newCandidate_def)
  moreover have "cd_exact (newCandidate [1, 0] ''BF16'')" "cd_dtype (newCandidate [1, 0] ''BF16'') = ''BF16''" by (simp_all add: newCandidate_def)
  ultimately have "feedAll ''F32'' [0, 0, 0, 0] 1 (map (newCandidate [1, 0]) (CANDIDATES ''F32'')) = None"
    using c by (simp add: CANDIDATES_cases)
  then show ?thesis
    by (simp add: sampleOf_def newSample_def SAMPLED_def WIDTH_def updateSample_def Let_def s)
qed

subsection \<open>A key of the values\<close>

text \<open>The values of a float tensor, as 32-bit floats.\<close>

definition f32Of :: "string \<Rightarrow> u32 \<Rightarrow> u32" where
  "f32Of d v = (if d = ''BF16'' then push_bit 16 v else wide d v)"

definition valuesOf :: "string \<Rightarrow> bytes \<Rightarrow> u32 list" where
  "valuesOf d bs = map (\<lambda>b. f32Of d (leWord b)) (chunks (the (WIDTH d)) bs)"

definition le4 :: "u32 \<Rightarrow> bytes" where
  "le4 v = [ucast v, ucast (drop_bit 8 v), ucast (drop_bit 16 v), ucast (drop_bit 24 v)]"

definition valueKey :: "u32 list \<Rightarrow> string \<times> bytes" where
  "valueKey vs = (if \<forall>v \<in> set vs. v AND 0xffff = 0 then (''BF16'', concat (map (\<lambda>v. le2 (drop_bit 16 v)) vs))
     else if \<forall>v \<in> set vs. f32toF16Exact v \<noteq> None then (''F16'', concat (map (\<lambda>v. le2 (the (f32toF16Exact v))) vs))
     else (''F32'', concat (map le4 vs)))"

lemma unat_leWord: "length bs \<le> 4 \<Longrightarrow> unat (leWord bs) = foldr (\<lambda>b v. unat b + 256 * v) bs 0"
proof -
  have "foldr (\<lambda>b v. unat b + 256 * v) bs 0 < 256 ^ length bs" for bs :: bytes
  proof (induction bs)
    case (Cons b bs)
    have "unat b < 256" by simp
    with Cons show ?case by (simp only: list.size foldr.simps o_apply power_Suc add_Suc_right add_0_right)
  qed simp
  moreover assume "length bs \<le> 4"
  then have "(256 :: nat) ^ length bs \<le> 256 ^ 4" by (intro power_increasing) simp_all
  ultimately have "foldr (\<lambda>b v. unat b + 256 * v) bs 0 < 256 ^ 4" by (rule less_le_trans)
  then show ?thesis by (simp add: leWord_def unsigned_of_nat take_bit_nat_eq_self)
qed

lemma unat_ucast_byte: "unat (ucast (v :: u32) :: byte) = unat v mod 256"
  by (simp add: unsigned_ucast_eq take_bit_eq_mod)

lemma le2_leWord: "length b = 2 \<Longrightarrow> le2 (leWord b) = b \<and> low 16 (leWord b)"
proof -
  assume "length b = 2"
  then obtain x y where b: "b = [x, y]" by (auto simp: length_Suc_conv numeral_2_eq_2)
  have "unat (leWord b) = unat x + 256 * unat y" using unat_leWord [of b] b by simp
  moreover have "unat x + 256 * unat y < 65536" using unat_byte_less [of x] unat_byte_less [of y] by linarith
  ultimately show ?thesis using unat_byte_less [of x]
    by (simp add: b le2_def low_def word_unat_eq_iff unat_ucast_byte unat_drop)
qed

lemma leWord_le2: "low 16 v \<Longrightarrow> leWord (le2 v) = v"
  by (simp add: word_unat_eq_iff unat_leWord le2_def low_def unat_ucast_byte unat_drop)

lemma base256: "a < (256 :: nat) \<Longrightarrow> (a + 256 * r) mod 256 = a \<and> (a + 256 * r) div 256 = r"
  by simp

lemma le4_leWord: "length b = 4 \<Longrightarrow> le4 (leWord b) = b"
proof -
  assume "length b = 4"
  then obtain w x y z where b: "b = [w, x, y, z]" by (auto simp: length_Suc_conv eval_nat_numeral)
  define n where "n = unat w + 256 * (unat x + 256 * (unat y + 256 * unat z))"
  have u: "unat (leWord b) = n" using unat_leWord [of b] b by (simp add: n_def)
  have d1: "n mod 256 = unat w" "n div 256 = unat x + 256 * (unat y + 256 * unat z)"
    using base256 [of "unat w"] unat_byte_less [of w] unfolding n_def by blast+
  have d2: "n div 256 mod 256 = unat x" "n div 65536 = unat y + 256 * unat z"
  proof -
    have "n div 65536 = n div 256 div 256" using div_mult2_eq [of n 256 256] by simp
    then show "n div 256 mod 256 = unat x" "n div 65536 = unat y + 256 * unat z"
      using base256 [of "unat x" "unat y + 256 * unat z"] unat_byte_less [of x] unfolding d1(2) by metis+
  qed
  have d3: "n div 65536 mod 256 = unat y" "n div 16777216 = unat z"
  proof -
    have "n div 16777216 = n div 65536 div 256" using div_mult2_eq [of n 65536 256] by simp
    then show "n div 65536 mod 256 = unat y" "n div 16777216 = unat z"
      using base256 [of "unat y" "unat z"] unat_byte_less [of y] unfolding d2(2) by metis+
  qed
  have "n div 16777216 mod 256 = unat z" using d3(2) unat_byte_less [of z] by simp
  with d1(1) d2(1) d3(1) have "ucast (leWord b) = w" "ucast (drop_bit 8 (leWord b)) = x" "ucast (drop_bit 16 (leWord b)) = y" "ucast (drop_bit 24 (leWord b)) = z"
    by (simp_all only: word_unat_eq_iff unat_ucast_byte unat_drop u) simp_all
  then show ?thesis unfolding le4_def by (simp add: b)
qed

lemma leWord_le4: "leWord (le4 v) = v"
proof -
  define n where "n = unat v"
  have n: "n < 2 ^ 32" using unsigned_less [of v, where ?'a = nat] by (simp add: n_def)
  have "n = n mod 256 + 256 * (n div 256)" "n div 256 = n div 256 mod 256 + 256 * (n div 65536)"
      "n div 65536 = n div 65536 mod 256 + 256 * (n div 16777216)"
    using div_mult2_eq [of n 256 256] div_mult2_eq [of n 65536 256] by simp_all
  then have "n mod 256 + 256 * (n div 256 mod 256 + 256 * (n div 65536 mod 256 + 256 * (n div 16777216))) = n" by metis
  moreover have "n div 16777216 mod 256 = n div 16777216" using n by (simp add: less_mult_imp_div_less)
  ultimately show ?thesis by (simp only: word_unat_eq_iff) (simp add: unat_leWord le4_def unat_ucast_byte unat_drop n_def)
qed

lemma chunks_concat: "0 < n \<Longrightarrow> \<forall>b \<in> set bs. length b = n \<Longrightarrow> chunks n (concat bs) = bs"
proof (induction bs)
  case (Cons b bs)
  then show ?case using chunks_append [of b n "concat bs"] by simp
qed simp

lemma concat_map_inj:
  assumes "concat (map f xs) = concat (map g ys)" "0 < n" "\<And>x. x \<in> set xs \<Longrightarrow> length (f x) = n" "\<And>y. y \<in> set ys \<Longrightarrow> length (g y) = n"
  shows "map f xs = map g ys"
proof -
  have "chunks n (concat (map f xs)) = map f xs" "chunks n (concat (map g ys)) = map g ys"
    by (rule chunks_concat [OF assms(2)], use assms(3,4) in auto)+
  then show ?thesis by (rule box_equals [OF arg_cong [OF assms(1), of "chunks n"]])
qed

lemma map_inj: "map f xs = map f ys \<Longrightarrow> (\<And>x. x \<in> set xs \<union> set ys \<Longrightarrow> g (f x) = x) \<Longrightarrow> xs = ys"
proof -
  assume e: "map f xs = map f ys" and g: "\<And>x. x \<in> set xs \<union> set ys \<Longrightarrow> g (f x) = x"
  have "map (\<lambda>x. g (f x)) xs = map (\<lambda>x. g (f x)) ys" using arg_cong [OF e, of "map g"] by (simp only: map_map comp_def)
  moreover have "map (\<lambda>x. g (f x)) xs = xs" by (rule map_idI) (rule g, simp)
  moreover have "map (\<lambda>x. g (f x)) ys = ys" by (rule map_idI) (rule g, simp)
  ultimately show ?thesis by (rule box_equals)
qed

lemma those_map: "those (map f xs) = (if \<exists>x \<in> set xs. f x = None then None else Some (map (\<lambda>x. the (f x)) xs))"
proof (induction xs)
  case (Cons x xs)
  then show ?case by (cases "f x") auto
qed simp

lemma low16_mask: "v AND 0xffff = (0 :: u32) \<Longrightarrow> push_bit 16 (drop_bit 16 v) = v \<and> low 16 (drop_bit 16 v)"
  using push_drop [of v 16] unsigned_less [of v, where ?'a = nat] unfolding masks(11)
  by (auto simp: low_def unat_drop less_mult_imp_div_less)

text \<open>The key determines the values.\<close>

lemma valueKey_inj:
  assumes "valueKey vs = valueKey us"
  shows "vs = us"
proof -
  let ?b = "\<lambda>vs. \<forall>v \<in> set vs. v AND 0xffff = (0 :: u32)" and ?f = "\<lambda>vs. \<forall>v \<in> set vs. f32toF16Exact v \<noteq> None"
  have tag: "fst (valueKey ws) = (if ?b ws then ''BF16'' else if ?f ws then ''F16'' else ''F32'')" for ws by (simp only: valueKey_def fst_conv split: if_split) simp
  have k1: "snd (valueKey ws) = concat (map (\<lambda>v. le2 (drop_bit 16 v)) ws)" if "?b ws" for ws
    unfolding valueKey_def if_P [OF that] by simp
  have k2: "snd (valueKey ws) = concat (map (\<lambda>v. le2 (the (f32toF16Exact v))) ws)" if "\<not> ?b ws" "?f ws" for ws
    unfolding valueKey_def if_not_P [OF that(1)] if_P [OF that(2)] by simp
  have k3: "snd (valueKey ws) = concat (map le4 ws)" if "\<not> ?b ws" "\<not> ?f ws" for ws
    unfolding valueKey_def if_not_P [OF that(1)] if_not_P [OF that(2)] by simp
  have "fst (valueKey vs) = fst (valueKey us)" using assms by (rule arg_cong)
  then consider "?b vs" "?b us" | "\<not> ?b vs" "\<not> ?b us" "?f vs" "?f us" | "\<not> ?b vs" "\<not> ?b us" "\<not> ?f vs" "\<not> ?f us"
    unfolding tag by (cases "?b vs"; cases "?b us"; cases "?f vs"; cases "?f us"; simp only: if_True if_False) simp_all
  then show ?thesis
  proof cases
    case 1
    then have "concat (map (\<lambda>v. le2 (drop_bit 16 v)) vs) = concat (map (\<lambda>v. le2 (drop_bit 16 v)) us)"
      using assms k1 [OF 1(1)] k1 [OF 1(2)] by simp
    then have "map (\<lambda>v. le2 (drop_bit 16 v)) vs = map (\<lambda>v. le2 (drop_bit 16 v)) us"
      by (rule concat_map_inj [where n = 2]) (simp_all add: le2_def)
    then show ?thesis
    proof (rule map_inj [where g = "\<lambda>b. push_bit 16 (leWord b)"])
      fix v assume "v \<in> set vs \<union> set us"
      then have "v AND 0xffff = 0" using 1 by blast
      from low16_mask [OF this] show "push_bit 16 (leWord (le2 (drop_bit 16 v))) = v" by (simp only: leWord_le2)
    qed
  next
    case 2
    then have "concat (map (\<lambda>v. le2 (the (f32toF16Exact v))) vs) = concat (map (\<lambda>v. le2 (the (f32toF16Exact v))) us)"
      using assms k2 [OF 2(1,3)] k2 [OF 2(2,4)] by simp
    then have "map (\<lambda>v. le2 (the (f32toF16Exact v))) vs = map (\<lambda>v. le2 (the (f32toF16Exact v))) us"
      by (rule concat_map_inj [where n = 2]) (simp_all add: le2_def)
    moreover have "f16toF32 (leWord (le2 (the (f32toF16Exact v)))) = v" if "v \<in> set vs \<union> set us" for v
    proof -
      have "f32toF16Exact v \<noteq> None" using 2(3,4) that by blast
      then obtain h where "f32toF16Exact v = Some h" by blast
      then show ?thesis using widen_exact [of v h] leWord_le2 [of h] by simp
    qed
    ultimately show ?thesis by (rule map_inj [where g = "\<lambda>b. f16toF32 (leWord b)"])
  next
    case 3
    then have "concat (map le4 vs) = concat (map le4 us)" using assms k3 [OF 3(1,3)] k3 [OF 3(2,4)] by simp
    then have "map le4 vs = map le4 us" by (rule concat_map_inj [where n = 4]) (simp_all add: le4_def)
    then show ?thesis by (rule map_inj [where g = leWord]) (simp add: leWord_le4)
  qed
qed

text \<open>The narrowest type is the key of the values.\<close>

lemma chunk_length: "0 < n \<Longrightarrow> n dvd length xs \<Longrightarrow> c \<in> set (chunks n xs) \<Longrightarrow> length c = n"
proof -
  assume n: "0 < n" "n dvd length xs" and c: "c \<in> set (chunks n xs)"
  from n(2) obtain k where k: "length xs = n * k" by (auto simp: dvd_def)
  from c obtain i where "i < k" "c = subarray xs (i * n) (i * n + n)" using chunks_slices [OF n(1) k] by auto
  moreover have "i * n + n \<le> length xs"
  proof -
    have "Suc i * n \<le> k * n" using \<open>i < k\<close> by (intro mult_le_mono1) simp
    then show ?thesis using k by (simp add: mult.commute)
  qed
  ultimately show ?thesis by (simp add: subarray_def)
qed

lemma concat_again: "0 < n \<Longrightarrow> (\<And>c. c \<in> set (chunks n xs) \<Longrightarrow> f c = c) \<Longrightarrow> concat (map f (chunks n xs)) = xs"
  using concat_chunks [of n xs] map_idI [of "chunks n xs" f] by simp

lemma narrowest_key:
  assumes d: "WIDTH d = Some w" and l: "w dvd length bs"
  shows "narrowest d bs = valueKey (valuesOf d bs)"
proof -
  have w: "0 < w" "the (WIDTH d) = w" using d WIDTH_cases [of d w] by auto
  let ?cs = "chunks w bs"
  have len: "length c = w" if "c \<in> set ?cs" for c using chunk_length [OF w(1) l that] .
  have vals: "valuesOf d bs = map (\<lambda>c. f32Of d (leWord c)) ?cs" by (simp add: valuesOf_def w)
  let ?B = "\<forall>c \<in> set ?cs. f32Of d (leWord c) AND 0xffff = (0 :: u32)" and ?F = "\<forall>c \<in> set ?cs. f32toF16Exact (f32Of d (leWord c)) \<noteq> None"
  have key: "valueKey (valuesOf d bs) = (if ?B then (''BF16'', concat (map (\<lambda>c. le2 (drop_bit 16 (f32Of d (leWord c)))) ?cs))
    else if ?F then (''F16'', concat (map (\<lambda>c. le2 (the (f32toF16Exact (f32Of d (leWord c))))) ?cs))
    else (''F32'', concat (map (\<lambda>c. le4 (f32Of d (leWord c))) ?cs)))"
    by (simp only: valueKey_def vals set_map ball_simps map_map comp_def)
  have bf: "narrowed d ''BF16'' bs = (if ?B then Some (concat (map (\<lambda>c. le2 (drop_bit 16 (f32Of d (leWord c)))) ?cs)) else None)" if "d \<noteq> ''BF16''"
    using that by (auto simp: narrowed_def w those_map narrowTo_def f32Of_def intro!: arg_cong [where f = concat] map_cong)
  have fh: "narrowed d ''F16'' bs = (if ?F then Some (concat (map (\<lambda>c. le2 (the (f32toF16Exact (f32Of d (leWord c))))) ?cs)) else None)" if "d \<noteq> ''F16''" "d \<noteq> ''BF16''"
    using that by (simp add: narrowed_def w those_map narrowTo_def f32Of_def) (auto intro!: arg_cong [where f = concat] map_cong simp: option.map_sel)
  consider "d = ''BF16''" "w = 2" | "d = ''F16''" "w = 2" | "d = ''F32''" "w = 4" using d by (auto simp: WIDTH_cases)
  then show ?thesis
  proof cases
    case 1
    have low: "push_bit 16 (v :: u32) AND 0xffff = 0" for v unfolding masks(11) by (rule bit_word_eqI) (auto simp: bit_simps)
    have "le2 (drop_bit 16 (f32Of d (leWord c))) = c" if "c \<in> set ?cs" for c
      using le2_leWord [of c] len [OF that] 1 drop_push [of 16 "leWord c" 16] by (simp add: f32Of_def)
    then have "concat (map (\<lambda>c. le2 (drop_bit 16 (f32Of d (leWord c)))) ?cs) = bs" by (rule concat_again [OF w(1)])
    moreover have "?B" using 1 low by (simp add: f32Of_def)
    moreover have "narrowest d bs = (''BF16'', bs)" using 1 by (simp add: narrowest_def CANDIDATES_cases narrowed_def)
    ultimately show ?thesis unfolding key by simp
  next
    case 2
    have ex: "f32toF16Exact (f32Of d (leWord c)) = Some (leWord c)" if "c \<in> set ?cs" for c
      using le2_leWord [of c] len [OF that] 2 exact_widen [of "leWord c"] by (simp add: f32Of_def wide_def)
    then have "le2 (the (f32toF16Exact (f32Of d (leWord c)))) = c" if "c \<in> set ?cs" for c
      using le2_leWord [of c] len [OF that] 2 that by simp
    then have "concat (map (\<lambda>c. le2 (the (f32toF16Exact (f32Of d (leWord c))))) ?cs) = bs" by (rule concat_again [OF w(1)])
    moreover have "?F" using ex by simp
    moreover have "narrowest d bs = (if ?B then (''BF16'', concat (map (\<lambda>c. le2 (drop_bit 16 (f32Of d (leWord c)))) ?cs)) else (''F16'', bs))"
      using bf 2 by (simp add: narrowest_def CANDIDATES_cases narrowed_def [of _ "''F16''"])
    ultimately show ?thesis unfolding key by simp
  next
    case 3
    have "le4 (f32Of d (leWord c)) = c" if "c \<in> set ?cs" for c
      using le4_leWord [of c] len [OF that] 3 by (simp add: f32Of_def wide_def)
    then have "concat (map (\<lambda>c. le4 (f32Of d (leWord c))) ?cs) = bs" by (rule concat_again [OF w(1)])
    moreover have "narrowest d bs = (if ?B then (''BF16'', concat (map (\<lambda>c. le2 (drop_bit 16 (f32Of d (leWord c)))) ?cs))
        else if ?F then (''F16'', concat (map (\<lambda>c. le2 (the (f32toF16Exact (f32Of d (leWord c))))) ?cs)) else (''F32'', bs))"
      using bf fh 3 by (simp add: narrowest_def CANDIDATES_cases narrowed_def [of _ "''F32''"])
    ultimately show ?thesis unfolding key by simp
  qed
qed

text \<open>
  C8. Two float tensors have the same narrowest type and payload exactly when they hold the same values as 32-bit
  floats, whatever types they are stored in.
\<close>

theorem narrow_by_value:
  assumes "WIDTH d = Some w" "WIDTH e = Some u" "w dvd length bs" "u dvd length cs"
  shows "narrowest d bs = narrowest e cs \<longleftrightarrow> valuesOf d bs = valuesOf e cs"
  using narrowest_key [OF assms(1,3)] narrowest_key [OF assms(2,4)] valueKey_inj by metis

theorem narrow_by_value_witness:
  "narrowest ''F32'' [0, 0, 0x80, 0x3f] = narrowest ''F16'' [0, 0x3c] \<and> valuesOf ''F32'' [0, 0, 0x80, 0x3f] = valuesOf ''F16'' [0, 0x3c]"
proof -
  have v: "valuesOf ''F32'' [0, 0, 0x80, 0x3f] = valuesOf ''F16'' [0, 0x3c]"
  proof -
    have "chunks 4 [0, 0, 0x80, 0x3f :: byte] = [[0, 0, 0x80, 0x3f]]" "chunks 2 [0, 0x3c :: byte] = [[0, 0x3c]]"
      by (rule chunks_short; simp)+
    then show ?thesis by (simp add: valuesOf_def WIDTH_def f32Of_def wide_def leWord_def f16toF32_def)
  qed
  then show ?thesis using narrow_by_value [of "''F32''" 4 "''F16''" 2 "[0, 0, 0x80, 0x3f]" "[0, 0x3c]"] by (simp add: WIDTH_def dvd_def exI [of _ 1])
qed

end
