(* ===== verification/Fetching.thy ===== *)
theory Fetching
  imports Hashpass
begin

text \<open>
  Reads from Hugging Face, \<open>tensors/lib/src.mjs\<close>: paced requests with their retries, a model's file list, the
  signed address of a file, ranges and resumed streams. The network, the clock and the maps of the module are a
  world \<open>'w\<close>, as actions of \<open>Io\<close>; what a fetch answers may leave any world. The file list follows as many pages as
  the depth it is given. Addresses are those of \<open>Read\<close>.
\<close>

subsection \<open>The world\<close>

record hanswer =
  ha_status :: nat
  ha_heads :: "(string \<times> string) list"
  ha_chunks :: "bytes list"
  ha_broken :: bool

record 'w wire =
  wi_fetch :: "string \<Rightarrow> string \<Rightarrow> (string \<times> string) list \<Rightarrow> 'w \<Rightarrow> hanswer option \<times> 'w"
  wi_now :: "'w \<Rightarrow> int"
  wi_sleep :: "int \<Rightarrow> 'w \<Rightarrow> 'w"
  wi_next :: "'w \<Rightarrow> string \<Rightarrow> int"
  wi_setNext :: "string \<Rightarrow> int \<Rightarrow> 'w \<Rightarrow> 'w"
  wi_cdn :: "'w \<Rightarrow> string \<Rightarrow> (string \<times> int) option"
  wi_setCdn :: "string \<Rightarrow> string \<times> int \<Rightarrow> 'w \<Rightarrow> 'w"

text \<open>\<open>HF_ORIGIN\<close>, and the authorization header if there is a token.\<close>

record fenv =
  fe_hf :: string
  fe_auth :: "(string \<times> string) list"

definition INDEX_UA :: "(string \<times> string) list" where
  "INDEX_UA = [(''user-agent'', ''hologram-tensor-index/0.1'')]"

definition PACE :: "string \<Rightarrow> int" where
  "PACE bucket = (if bucket = ''api'' then 750 else 170)"

definition fetchIO :: "'w wire \<Rightarrow> string \<Rightarrow> string \<Rightarrow> (string \<times> string) list \<Rightarrow> ('w, hanswer option) io" where
  "fetchIO net url redirect heads w = (case wi_fetch net url redirect heads w of (r, w') \<Rightarrow> Some (w', Inr r))"

definition sleepIO :: "'w wire \<Rightarrow> int \<Rightarrow> ('w, unit) io" where
  "sleepIO net ms w = Some (wi_sleep net ms w, Inr ())"

definition paced :: "'w wire \<Rightarrow> string \<Rightarrow> ('w, unit) io" where
  "paced net bucket w = (let now = wi_now net w; t = max now (wi_next net w bucket); w1 = wi_setNext net bucket (t + PACE bucket) w in
     Some (if t > now then wi_sleep net (t - now) w1 else w1, Inr ()))"

definition okAnswer :: "hanswer \<Rightarrow> bool" where
  "okAnswer r \<longleftrightarrow> 200 \<le> ha_status r \<and> ha_status r < 300"

definition headIn :: "string \<Rightarrow> hanswer \<Rightarrow> string" where
  "headIn k r = (case map_of (ha_heads r) k of Some v \<Rightarrow> v | None \<Rightarrow> [])"

subsection \<open>Requests with retries\<close>

text \<open>The first place of a text where a pattern matches.\<close>

fun search :: "(string \<Rightarrow> 'a option) \<Rightarrow> string \<Rightarrow> 'a option" where
  "search f [] = f []"
| "search f (c # cs) = (case f (c # cs) of Some x \<Rightarrow> Some x | None \<Rightarrow> search f cs)"

definition numberAt :: "string \<Rightarrow> string \<Rightarrow> (nat \<times> string) option" where
  "numberAt p s = (if \<not> startsWith s p then None else
     let ds = takeWhile isDigit (drop (length p) s) in if ds = [] then None else Some (undecimal ds, drop (length p + length ds) s))"

text \<open>\<open>/t=(\\d+)/\<close> and \<open>/r=(\\d+);t=(\\d+)/\<close>.\<close>

definition resetIn :: "string \<Rightarrow> nat option" where
  "resetIn h = map_option fst (search (numberAt ''t='') h)"

definition quotaIn :: "string \<Rightarrow> (nat \<times> nat) option" where
  "quotaIn h = search (\<lambda>s. case numberAt ''r='' s of None \<Rightarrow> None | Some (r, rest) \<Rightarrow> map_option (\<lambda>(t, _). (r, t)) (numberAt '';t='' rest)) h"

fun hfFrom :: "'w wire \<Rightarrow> fenv \<Rightarrow> string \<Rightarrow> string \<Rightarrow> string \<Rightarrow> nat \<Rightarrow> nat \<Rightarrow> ('w, hanswer) io" where
  "hfFrom net env url bucket redirect 0 k = throw (Error (''gave up on '' @ url))"
| "hfFrom net env url bucket redirect (Suc n) k =
     bind (paced net bucket) (\<lambda>_.
     bind (fetchIO net url redirect (INDEX_UA @ fe_auth env)) (\<lambda>a. case a of
       None \<Rightarrow> bind (sleepIO net (2 ^ k * 1000)) (\<lambda>_. hfFrom net env url bucket redirect n (Suc k))
     | Some r \<Rightarrow>
         if ha_status r = 429 then
           bind (sleepIO net ((case resetIn (headIn ''ratelimit'' r) of Some t \<Rightarrow> int t | None \<Rightarrow> 30 * (int k + 1)) * 1000 + 2000))
             (\<lambda>_. hfFrom net env url bucket redirect n (Suc k))
         else if 500 \<le> ha_status r then bind (sleepIO net (2 ^ k * 1000)) (\<lambda>_. hfFrom net env url bucket redirect n (Suc k))
         else bind (case quotaIn (headIn ''ratelimit'' r) of
             Some (q, t) \<Rightarrow> if q < 40 then sleepIO net ((int t + 1) * 1000) else ret () | None \<Rightarrow> ret ()) (\<lambda>_. ret r)))"

definition hf :: "'w wire \<Rightarrow> fenv \<Rightarrow> string \<Rightarrow> string \<Rightarrow> string \<Rightarrow> ('w, hanswer) io" where
  "hf net env url bucket redirect = hfFrom net env url bucket redirect 6 0"

text \<open>\<open>r.json()\<close> and \<open>r.arrayBuffer()\<close>.\<close>

definition bodyOf :: "hanswer \<Rightarrow> bytes result" where
  "bodyOf r = (if ha_broken r then Inl (Error ''terminated'') else Inr (concat (ha_chunks r)))"

definition jsonOf :: "hanswer \<Rightarrow> json result" where
  "jsonOf r = andThen (bodyOf r) (\<lambda>b. case parse (decodeText b) of Some v \<Rightarrow> Inr v | None \<Rightarrow> Inl SyntaxError)"

definition info :: "'w wire \<Rightarrow> fenv \<Rightarrow> string \<Rightarrow> ('w, json) io" where
  "info net env repo = bind (hf net env (fe_hf env @ ''/api/models/'' @ repo) ''api'' ''follow'') (\<lambda>r.
     if \<not> okAnswer r then throw (Error (''info '' @ repo @ '': '' @ decimal (ha_status r))) else lift (jsonOf r))"

subsection \<open>The files of a revision\<close>

record hfFile =
  hf_path :: string
  hf_size :: nat
  hf_oid :: "string option"

text \<open>One element of a page; \<open>oid\<close> is the LFS hash or null.\<close>

definition fileRow :: "json \<Rightarrow> hfFile option result" where
  "fileRow x = (if x = JNull then Inl TypeError
     else if getProp ''type'' x \<noteq> Some (JStr ''file'') then Inr None
     else (let oid = (case getProp ''lfs'' x of Some l \<Rightarrow> getProp ''oid'' l | None \<Rightarrow> None) in
       case (getProp ''path'' x, getProp ''size'' x, falsy oid, oid) of
         (Some (JStr p), Some (JNum n), True, _) \<Rightarrow> if n < 0 then Inl Unmodelled else Inr (Some \<lparr>hf_path = p, hf_size = nat n, hf_oid = None\<rparr>)
       | (Some (JStr p), Some (JNum n), False, Some (JStr d)) \<Rightarrow> if n < 0 then Inl Unmodelled else Inr (Some \<lparr>hf_path = p, hf_size = nat n, hf_oid = Some d\<rparr>)
       | _ \<Rightarrow> Inl Unmodelled))"

fun fileRows :: "json list \<Rightarrow> hfFile list result" where
  "fileRows [] = Inr []"
| "fileRows (x # xs) = andThen (fileRow x) (\<lambda>r. andThen (fileRows xs) (\<lambda>rs. Inr (case r of Some f \<Rightarrow> f # rs | None \<Rightarrow> rs)))"

text \<open>\<open>/<([^>]+)>;\\s*rel="next"/\<close>.\<close>

definition nextAt :: "string \<Rightarrow> string option" where
  "nextAt s = (if \<not> startsWith s ''<'' then None else
     let t = takeWhile (\<lambda>c. c \<noteq> CHR ''>'') (drop 1 s); r = drop (1 + length t) s in
     if t \<noteq> [] \<and> startsWith r ''>;'' \<and> startsWith (dropWhile isTrimmed (drop 2 r)) (''rel='' @ [CHR 0x22] @ ''next'' @ [CHR 0x22]) then Some t else None)"

definition nextPage :: "fenv \<Rightarrow> hanswer \<Rightarrow> string option result" where
  "nextPage env r = (case search nextAt (headIn ''link'' r) of
     None \<Rightarrow> Inr None
   | Some l \<Rightarrow> (case resolveUrl l (fe_hf env) of Some u \<Rightarrow> Inr (Some u) | None \<Rightarrow> Inl TypeError))"

fun treePages :: "nat \<Rightarrow> 'w wire \<Rightarrow> fenv \<Rightarrow> string \<Rightarrow> string \<Rightarrow> string \<Rightarrow> ('w, hfFile list) io" where
  "treePages 0 net env repo rv url = (\<lambda>w. None)"
| "treePages (Suc fuel) net env repo rv url = bind (hf net env url ''api'' ''follow'') (\<lambda>r.
     if \<not> okAnswer r then throw (Error (''tree '' @ repo @ ''@'' @ rv @ '': '' @ decimal (ha_status r))) else
     bind (lift (andThen (jsonOf r) (\<lambda>v. case v of JArr xs \<Rightarrow> fileRows xs | JStr [] \<Rightarrow> Inr [] | JStr _ \<Rightarrow> Inr [] | _ \<Rightarrow> Inl TypeError))) (\<lambda>files.
     bind (lift (nextPage env r)) (\<lambda>next. case next of
       None \<Rightarrow> ret files
     | Some u \<Rightarrow> bind (treePages fuel net env repo rv u) (\<lambda>more. ret (files @ more)))))"

definition tree :: "nat \<Rightarrow> 'w wire \<Rightarrow> fenv \<Rightarrow> string \<Rightarrow> string \<Rightarrow> ('w, hfFile list) io" where
  "tree fuel net env repo rv = treePages fuel net env repo rv (fe_hf env @ ''/api/models/'' @ repo @ ''/tree/'' @ rv @ ''?recursive=true&expand=false'')"

subsection \<open>Addresses of files\<close>

definition resolvePath :: "fenv \<Rightarrow> string \<Rightarrow> string \<Rightarrow> string \<Rightarrow> string" where
  "resolvePath env repo rv path = fe_hf env @ ''/'' @ repo @ ''/resolve/'' @ rv @ ''/'' @ encodePath path"

definition noteUrl :: "'w wire \<Rightarrow> string \<Rightarrow> string \<Rightarrow> ('w, string) io" where
  "noteUrl net key url w = Some (wi_setCdn net key (url, wi_now net w) w, Inr url)"

fun signedHops :: "'w wire \<Rightarrow> fenv \<Rightarrow> string \<Rightarrow> nat \<Rightarrow> string \<Rightarrow> ('w, string) io" where
  "signedHops net env key 0 url = throw (Error (''resolve '' @ key @ '': too many redirects''))"
| "signedHops net env key (Suc n) url = bind (hf net env url ''resolve'' ''manual'') (\<lambda>r. let loc = headIn ''location'' r in
     if 300 \<le> ha_status r \<and> ha_status r < 400 \<and> loc \<noteq> [] then
       (case resolveUrl loc url of
          None \<Rightarrow> throw TypeError
        | Some a \<Rightarrow> if urlOrigin a = urlOrigin (fe_hf env) then signedHops net env key n a else noteUrl net key a)
     else if okAnswer r then noteUrl net key url
     else throw (Error (''resolve '' @ key @ '': '' @ decimal (ha_status r))))"

definition signedUrl :: "'w wire \<Rightarrow> fenv \<Rightarrow> string \<Rightarrow> string \<Rightarrow> string \<Rightarrow> bool \<Rightarrow> ('w, string) io" where
  "signedUrl net env repo rv path fresh w = (let key = repo @ ''@'' @ rv @ ''/'' @ path in
     case wi_cdn net w key of
       Some (u, at) \<Rightarrow> if \<not> fresh \<and> wi_now net w - at < 40 * 60000 then Some (w, Inr u) else signedHops net env key 4 (resolvePath env repo rv path) w
     | None \<Rightarrow> signedHops net env key 4 (resolvePath env repo rv path) w)"

definition whole :: "'w wire \<Rightarrow> fenv \<Rightarrow> string \<Rightarrow> string \<Rightarrow> string \<Rightarrow> ('w, bytes) io" where
  "whole net env repo rv path = bind (hf net env (resolvePath env repo rv path) ''resolve'' ''follow'') (\<lambda>r.
     if \<not> okAnswer r then throw (Error (''fetch '' @ repo @ ''/'' @ path @ '': '' @ decimal (ha_status r))) else lift (bodyOf r))"

subsection \<open>Ranges and streams\<close>

definition rangeHeads :: "nat \<Rightarrow> nat \<Rightarrow> (string \<times> string) list" where
  "rangeHeads a b = INDEX_UA @ [(''range'', ''bytes='' @ decimal a @ ''-'' @ decimal b)]"

text \<open>One attempt: the bytes, an expired address, or nothing.\<close>

datatype attempted = Took bytes | Expired | Failed

definition rangeTry :: "nat \<Rightarrow> nat \<Rightarrow> hanswer option \<Rightarrow> attempted" where
  "rangeTry a b x = (case x of
     None \<Rightarrow> Failed
   | Some r \<Rightarrow> if ha_status r = 206 then (case bodyOf r of Inr bs \<Rightarrow> Took bs | Inl _ \<Rightarrow> Failed)
       else if ha_status r = 200 \<and> a = 0 then (case bodyOf r of Inr bs \<Rightarrow> Took (subarray bs 0 (b + 1)) | Inl _ \<Rightarrow> Failed)
       else if ha_status r = 403 \<or> ha_status r = 410 then Expired else Failed)"

fun rangeFrom :: "'w wire \<Rightarrow> string \<Rightarrow> nat \<Rightarrow> nat \<Rightarrow> nat \<Rightarrow> nat \<Rightarrow> ('w, bytes) io" where
  "rangeFrom net url a b 0 k = throw (Error (''range failed '' @ decimal a @ ''-'' @ decimal b))"
| "rangeFrom net url a b (Suc n) k = bind (fetchIO net url ''follow'' (rangeHeads a b)) (\<lambda>x. case rangeTry a b x of
     Took bs \<Rightarrow> ret bs
   | Expired \<Rightarrow> throw (Error ''signed url expired'')
   | Failed \<Rightarrow> bind (sleepIO net (2 ^ k * 1000)) (\<lambda>_. rangeFrom net url a b n (Suc k)))"

definition range' :: "'w wire \<Rightarrow> string \<Rightarrow> nat \<Rightarrow> nat \<Rightarrow> ('w, bytes) io" where
  "range' net url a b = rangeFrom net url a b 6 0"

text \<open>The chunks of one answer, cut at the end of the range (\<open>stop\<close> is the first byte after it).\<close>

fun takeChunks :: "nat \<Rightarrow> nat \<Rightarrow> bytes list \<Rightarrow> bytes list \<times> nat" where
  "takeChunks stop pos [] = ([], pos)"
| "takeChunks stop pos (c # cs) = (let n = min (length c) (stop - pos) in
     if n = 0 then ([], pos) else if stop \<le> pos + n then ([take n c], pos + n)
     else (let (ys, p) = takeChunks stop (pos + n) cs in (take n c # ys, p)))"

text \<open>One request of a stream: what it yields, where it is, the address, and whether the address was just renewed.\<close>

definition streamTry :: "'w wire \<Rightarrow> (bool \<Rightarrow> ('w, string) io) \<Rightarrow> nat \<Rightarrow> nat \<Rightarrow> string \<Rightarrow> 'w \<Rightarrow> ('w \<times> bytes list \<times> nat \<times> string \<times> bool) option" where
  "streamTry net getUrl stop pos url w = (case wi_fetch net url ''follow'' (rangeHeads pos (stop - 1)) w of
     (None, w1) \<Rightarrow> Some (w1, [], pos, url, False)
   | (Some r, w1) \<Rightarrow>
       if ha_status r = 403 \<or> ha_status r = 410 then
         (case getUrl True w1 of
            None \<Rightarrow> None
          | Some (w2, Inr u) \<Rightarrow> Some (w2, [], pos, u, True)
          | Some (w2, Inl e) \<Rightarrow> Some (w2, [], pos, url, False))
       else if ha_status r \<noteq> 206 \<and> \<not> (ha_status r = 200 \<and> pos = 0) then Some (w1, [], pos, url, False)
       else (let (ys, p) = takeChunks stop pos (ha_chunks r) in Some (w1, ys, p, url, False)))"

lemma takeChunks_pos: "takeChunks stop pos cs = (ys, p) \<Longrightarrow> pos \<le> p"
  by (induction stop pos cs arbitrary: ys p rule: takeChunks.induct) (fastforce simp: Let_def split: if_splits prod.splits)+

lemma streamTry_pos: "streamTry net getUrl stop pos url w = Some (w', ys, p, url', fresh) \<Longrightarrow> pos \<le> p"
  by (auto simp: streamTry_def dest: takeChunks_pos split: prod.splits option.splits sum.splits if_splits)

text \<open>\<open>tries\<close> counts the attempts in a row that made no progress.\<close>

function resumeFrom :: "'w wire \<Rightarrow> (bool \<Rightarrow> ('w, string) io) \<Rightarrow> nat \<Rightarrow> nat \<Rightarrow> nat \<Rightarrow> nat \<Rightarrow> string \<Rightarrow> 'w \<Rightarrow> ('w \<times> bytes list \<times> js_error option) option" where
  "resumeFrom net getUrl stop tries k pos url w =
     (if stop \<le> pos then Some (w, [], None)
      else if tries \<le> k then Some (w, [], Some (Error (''stream failed at '' @ decimal pos @ '' of '' @ decimal (stop - 1))))
      else case streamTry net getUrl stop pos url w of
        None \<Rightarrow> None
      | Some (w1, ys, p, u, fresh) \<Rightarrow>
          map_option (\<lambda>(w2, zs, e). (w2, ys @ zs, e))
            (if stop \<le> p then Some (w1, [], None)
             else if pos < p then resumeFrom net getUrl stop tries 0 p u w1
             else resumeFrom net getUrl stop tries (Suc k) p u (if fresh then w1 else wi_sleep net (2 ^ k * 1000) w1)))"
  by pat_completeness auto
termination
  by (relation "inv_image (less_than <*lex*> less_than) (\<lambda>(net, getUrl, stop, tries, k, pos, url, w). (stop - pos, tries - k))")
    (auto dest: streamTry_pos)

declare resumeFrom.simps [simp del]

definition streamRange :: "'w wire \<Rightarrow> (bool \<Rightarrow> ('w, string) io) \<Rightarrow> nat \<Rightarrow> nat \<Rightarrow> 'w \<Rightarrow> ('w \<times> bytes list \<times> js_error option) option" where
  "streamRange net getUrl a stop w = (case getUrl False w of
     None \<Rightarrow> None
   | Some (w1, Inl e) \<Rightarrow> Some (w1, [], Some e)
   | Some (w1, Inr url) \<Rightarrow> resumeFrom net getUrl stop 8 0 a url w1)"

subsection \<open>A stream yields the range it was asked for\<close>

text \<open>
  A server that answers a range request for \<open>file\<close> with bytes that agree with the file from there on (206), or with the
  whole of it (200), as far as both go: it may break off, or send more than was asked and whatever it likes after the
  file's end. Other answers are free.
\<close>

definition agrees :: "bytes \<Rightarrow> bytes \<Rightarrow> bool" where
  "agrees xs ys \<longleftrightarrow> prefix xs ys \<or> prefix ys xs"

lemma agrees_take: "agrees xs ys \<Longrightarrow> n \<le> length xs \<Longrightarrow> n \<le> length ys \<Longrightarrow> take n xs = take n ys"
  by (auto simp: agrees_def prefix_def)

lemma agrees_drop: "agrees (c @ xs) ys \<Longrightarrow> length c \<le> length ys \<Longrightarrow> agrees xs (drop (length c) ys)"
  by (auto simp: agrees_def prefix_def append_eq_append_conv2)

definition serves :: "'w wire \<Rightarrow> bytes \<Rightarrow> bool" where
  "serves net file \<longleftrightarrow> (\<forall>url a b w r w'. wi_fetch net url ''follow'' (rangeHeads a b) w = (Some r, w') \<longrightarrow>
     (ha_status r = 206 \<longrightarrow> agrees (concat (ha_chunks r)) (drop a file)) \<and> (ha_status r = 200 \<longrightarrow> agrees (concat (ha_chunks r)) file))"

lemma takeChunks_exact:
  "takeChunks stop pos cs = (ys, p) \<Longrightarrow> agrees (concat cs) (drop pos file) \<Longrightarrow> pos \<le> stop \<Longrightarrow> stop \<le> length file \<Longrightarrow>
    concat ys = subarray file pos p \<and> p \<le> stop"
proof (induction stop pos cs arbitrary: ys p rule: takeChunks.induct)
  case (1 stop pos)
  then show ?case by (simp add: subarray_def)
next
  case (2 stop pos c cs)
  define n where "n = min (length c) (stop - pos)"
  have "take n (c @ concat cs) = take n (drop pos file)"
    by (rule agrees_take) (use "2.prems"(2,3,4) in \<open>auto simp: n_def\<close>)
  then have c: "take n c = subarray file pos (pos + n)" by (simp add: subarray_def n_def)
  have step: "takeChunks stop pos (c # cs) = (if n = 0 then ([], pos) else if stop \<le> pos + n then ([take n c], pos + n)
      else (let (ys, p) = takeChunks stop (pos + n) cs in (take n c # ys, p)))" by (simp add: n_def Let_def)
  have le: "pos + n \<le> stop" using "2.prems"(3) by (simp add: n_def)
  show ?case
  proof (cases "n = 0 \<or> stop \<le> pos + n")
    case True
    then show ?thesis using "2.prems"(1,3) c le unfolding step by (auto simp: subarray_def split: if_splits)
  next
    case False
    then have all: "n = length c" by (auto simp: n_def)
    obtain zs q where z: "takeChunks stop (pos + n) cs = (zs, q)" by fastforce
    have "agrees (concat cs) (drop (length c) (drop pos file))"
      by (rule agrees_drop) (use "2.prems"(2,3,4) le all in auto)
    then have "agrees (concat cs) (drop (pos + n) file)" by (simp add: all add.commute)
    then have "concat zs = subarray file (pos + n) q \<and> q \<le> stop"
      using "2.IH" [OF n_def _ _ z] "2.prems"(3,4) False le by auto
    moreover have "ys = take n c # zs" "p = q" using "2.prems"(1) z False unfolding step by (auto simp: Let_def)
    moreover have "pos + n \<le> q" by (rule takeChunks_pos [OF z])
    ultimately show ?thesis using c subarray_append_take [of pos "pos + n" q "file"] by simp
  qed
qed

lemma streamTry_exact:
  assumes "streamTry net getUrl stop pos url w = Some (w1, ys, p, u, fresh)" and "serves net file" and "pos < stop" and "stop \<le> length file"
  shows "concat ys = subarray file pos p \<and> p \<le> stop"
proof -
  obtain r w2 where f: "wi_fetch net url ''follow'' (rangeHeads pos (stop - 1)) w = (r, w2)" by fastforce
  have none: "ys = [] \<Longrightarrow> p = pos \<Longrightarrow> ?thesis" using assms(3) by (simp add: subarray_def)
  show ?thesis
  proof (cases "\<exists>a. r = Some a \<and> (ha_status a = 206 \<or> ha_status a = 200 \<and> pos = 0)")
    case True
    then obtain a where a: "r = Some a" "ha_status a = 206 \<or> ha_status a = 200 \<and> pos = 0" by blast
    then have "agrees (concat (ha_chunks a)) (drop pos file)" using assms(2) [unfolded serves_def, rule_format, of url pos "stop - 1" w a w2] f by auto
    moreover have "takeChunks stop pos (ha_chunks a) = (ys, p)" using assms(1) f a by (auto simp: streamTry_def split: prod.splits)
    ultimately show ?thesis using takeChunks_exact assms(3,4) by simp
  next
    case False
    then show ?thesis using assms(1) f by (intro none) (auto simp: streamTry_def split: option.splits sum.splits prod.splits if_splits)
  qed
qed

lemma resumeFrom_exact:
  "resumeFrom net getUrl stop tries k pos url w = Some (w', ys, e) \<Longrightarrow> serves net file \<Longrightarrow> pos \<le> stop \<Longrightarrow> stop \<le> length file \<Longrightarrow>
    prefix (concat ys) (subarray file pos stop) \<and> (e = None \<longrightarrow> concat ys = subarray file pos stop)"
proof (induction net getUrl stop tries k pos url w arbitrary: w' ys e rule: resumeFrom.induct)
  case (1 net getUrl stop tries k pos url w)
  show ?case
  proof (cases "stop \<le> pos \<or> tries \<le> k")
    case True
    then show ?thesis using "1.prems" by (auto simp: resumeFrom.simps [of net getUrl stop tries k pos] subarray_def split: if_splits)
  next
    case False
    with "1.prems"(1) obtain w1 y1 p u fresh where t: "streamTry net getUrl stop pos url w = Some (w1, y1, p, u, fresh)"
      by (auto simp: resumeFrom.simps [of net getUrl stop tries k pos] split: option.splits)
    have y1: "concat y1 = subarray file pos p" "p \<le> stop" using streamTry_exact [OF t "1.prems"(2)] False "1.prems"(4) by auto
    have pp: "pos \<le> p" by (rule streamTry_pos [OF t])
    have join: "prefix (concat zs) (subarray file p stop) \<and> (e = None \<longrightarrow> concat zs = subarray file p stop) \<Longrightarrow> ys = y1 @ zs \<Longrightarrow> ?thesis" for zs
      unfolding subarray_append_take [OF pp y1(2), of "file", symmetric] by (simp add: y1(1))
    consider "stop \<le> p" | "p < stop" "pos < p" | "p < stop" "p = pos" using pp by linarith
    then show ?thesis
    proof cases
      case 1
      with False t have "resumeFrom net getUrl stop tries k pos url w = Some (w1, y1, None)" by (simp add: resumeFrom.simps [of net getUrl stop tries k pos])
      with "1.prems"(1) y1 1 show ?thesis by auto
    next
      case 2
      with "1.prems"(1) False t obtain zs where z: "resumeFrom net getUrl stop tries 0 p u w1 = Some (w', zs, e)" "ys = y1 @ zs"
        by (auto simp: resumeFrom.simps [of net getUrl stop tries k pos])
      show ?thesis by (rule join [OF _ z(2)]) (rule "1.IH"(1) [OF _ _ t refl refl refl refl _ _ z(1)], use False 2 "1.prems" in auto)
    next
      case 3
      with "1.prems"(1) False t obtain zs where z: "resumeFrom net getUrl stop tries (Suc k) p u (if fresh then w1 else wi_sleep net (2 ^ k * 1000) w1) = Some (w', zs, e)" "ys = y1 @ zs"
        by (auto simp: resumeFrom.simps [of net getUrl stop tries k pos])
      show ?thesis by (rule join [OF _ z(2)]) (rule "1.IH"(2) [OF _ _ t refl refl refl refl _ _ z(1)], use False 3 "1.prems" in auto)
    qed
  qed
qed

lemma stream_exact:
  assumes "streamRange net getUrl a stop w = Some (w', ys, e)" and "serves net file" and "a \<le> stop" and "stop \<le> length file"
  shows "prefix (concat ys) (subarray file a stop) \<and> (e = None \<longrightarrow> concat ys = subarray file a stop)"
  using assms(1) resumeFrom_exact [OF _ assms(2-4)] by (auto simp: streamRange_def split: option.splits sum.splits)

lemma hashFile_ending: "hashFile raw plan sz emit cs (Some err) e \<noteq> Inr r"
  by (auto simp: hashFile_def andThen_Inr_iff)

text \<open>
  C5. Pulled files are indexed right: from a server whose answers agree with the file as far as both go (a 206 from where
  it was asked, a 200 from the start), but which may break off, expire its addresses, ignore ranges, fail, and send
  anything after the file's end, a pass that returns has found exactly what the file holds: however often the stream
  was resumed, no byte is hashed twice or left out and nothing beyond the end is hashed.
\<close>

theorem pulled_exact:
  assumes "planFile rng (length file) path w0 = Some (w0', Inr (Some plan))" and "readable raw file plan" and "fits plan False"
    and "serves net file" and "streamRange net getUrl 0 (length file) w = Some (w', cs, e)"
    and "hashFile raw plan (length file) None cs e ([] :: (nat \<times> bytes) list) = Inr (out, ev)"
  shows "out = expected raw file plan"
proof -
  have e: "e = None" using assms(6) by (cases e) (simp_all add: hashFile_ending)
  have "concat cs = file" using stream_exact [OF assms(5,4)] e by (simp add: subarray_def)
  from pass_recorded [OF assms(1-3) this] assms(6) e show ?thesis by simp
qed

definition tinyWire :: "unit wire" where
  "tinyWire = \<lparr>wi_fetch = (\<lambda>_ _ _ w. (Some \<lparr>ha_status = 200, ha_heads = [], ha_chunks = [take 10 tinyGguf, drop 10 tinyGguf @ [7]], ha_broken = False\<rparr>, w)),
     wi_now = (\<lambda>_. 0), wi_sleep = (\<lambda>_ w. w), wi_next = (\<lambda>_ _. 0), wi_setNext = (\<lambda>_ _ w. w), wi_cdn = (\<lambda>_ _. None), wi_setCdn = (\<lambda>_ _ w. w)\<rparr>"

theorem pulled_exact_witness:
  "\<exists>out ev. streamRange tinyWire (\<lambda>_. ret ''u'') 0 65 () = Some ((), [take 10 tinyGguf, drop 10 tinyGguf], None)
     \<and> hashFile (\<lambda>_. []) tinyPlan 65 None [take 10 tinyGguf, drop 10 tinyGguf] None ([] :: (nat \<times> bytes) list) = Inr (out, ev)
     \<and> out = expected (\<lambda>_. []) tinyGguf tinyPlan"
proof -
  have len: "length tinyGguf = 65" by (simp add: tinyGguf_def)
  have "serves tinyWire tinyGguf" by (simp add: serves_def tinyWire_def agrees_def flip: append_assoc)
  moreover have s: "streamRange tinyWire (\<lambda>_. ret ''u'') 0 65 () = Some ((), [take 10 tinyGguf, drop 10 tinyGguf], None)"
    by (simp add: streamRange_def ret_def resumeFrom.simps streamTry_def tinyWire_def len)
  moreover have r: "readable (\<lambda>_. []) tinyGguf tinyPlan" by (simp add: readable_def tinyPlan_def)
  moreover have f: "fits tinyPlan False" by (simp add: fits_def buffered_def tinyPlan_def CAP_def)
  moreover obtain out ev where h: "hashFile (\<lambda>_. []) tinyPlan 65 None [take 10 tinyGguf, drop 10 tinyGguf] None ([] :: (nat \<times> bytes) list) = Inr (out, ev)"
    using pass_recorded [of "served tinyGguf" tinyGguf "''m.gguf''" "()" "()" tinyPlan "\<lambda>_. []" "[take 10 tinyGguf, drop 10 tinyGguf]"] r f tiny_plan len by auto
  ultimately have "out = expected (\<lambda>_. []) tinyGguf tinyPlan"
    using pulled_exact [of "served tinyGguf" tinyGguf "''m.gguf''" "()" "()" tinyPlan "\<lambda>_. []" tinyWire "\<lambda>_. ret ''u''" "()" "()" "[take 10 tinyGguf, drop 10 tinyGguf]" None out ev]
      tiny_plan len by simp
  then show ?thesis using s h by blast
qed

end
