(* ===== verification/Store.thy ===== *)
theory Store
  imports Fetching
begin

text \<open>
  The store of the small objects the hub holds, \<open>tensors/lib/store.mjs\<close>: a directory of files named by the
  hexadecimal SHA-256 of what they hold, checked on every read. The directory is a map from names to bytes. A file
  is written under another name and renamed, so it is there whole or not at all.
\<close>

type_synonym disk = "string \<Rightarrow> bytes option"

definition pathOf :: "string \<Rightarrow> string" where "pathOf d = drop 7 d"

definition has :: "disk \<Rightarrow> string \<Rightarrow> bool" where "has dk d \<longleftrightarrow> dk (pathOf d) \<noteq> None"

record stored =
  sd_digest :: string
  sd_size :: nat

definition putObject :: "bytes \<Rightarrow> disk \<Rightarrow> stored \<times> disk" where
  "putObject buf dk = (let d = named buf in
     (\<lparr>sd_digest = d, sd_size = length buf\<rparr>, if has dk d then dk else dk(pathOf d \<mapsto> buf)))"

definition putJson :: "json \<Rightarrow> disk \<Rightarrow> stored \<times> disk" where
  "putJson v = putObject (utf8 (stringify v))"

definition getObject :: "disk \<Rightarrow> string \<Rightarrow> bytes option" where
  "getObject dk d = (case dk (pathOf d) of Some b \<Rightarrow> if named b = d then Some b else None | None \<Rightarrow> None)"

definition readJson :: "disk \<Rightarrow> string \<Rightarrow> json option result" where
  "readJson dk d = (case getObject dk d of None \<Rightarrow> Inr None
     | Some b \<Rightarrow> (case parse (decodeText b) of Some v \<Rightarrow> Inr (Some v) | None \<Rightarrow> Inl SyntaxError))"

subsection \<open>What a store keeps\<close>

lemma named_path [simp]: "named a = named b \<longleftrightarrow> sha256hex a = sha256hex b" "pathOf (named a) = sha256hex a" "drop 7 (named a) = sha256hex a"
  by (simp_all add: named_def pathOf_def)

text \<open>Nothing in the directory lies about its name: an earlier damage aside, what puts leave.\<close>

definition sound :: "disk \<Rightarrow> bool" where
  "sound dk \<longleftrightarrow> (\<forall>k b. dk k = Some b \<longrightarrow> sha256hex b = k)"

definition keeps :: "disk \<Rightarrow> disk \<Rightarrow> bool" where
  "keeps dk dk' \<longleftrightarrow> (sound dk \<longrightarrow> sound dk') \<and> (\<forall>d b. getObject dk d = Some b \<longrightarrow> getObject dk' d = Some b)"

lemma keeps_refl [simp]: "keeps dk dk" by (simp add: keeps_def)

lemma keeps_trans: "keeps a b \<Longrightarrow> keeps b c \<Longrightarrow> keeps a c" by (simp add: keeps_def)

lemma put_disk: "putObject buf dk = (s, dk') \<Longrightarrow> dk' = (if has dk (named buf) then dk else dk(sha256hex buf \<mapsto> buf))"
  by (auto simp: putObject_def Let_def)

lemma put_keeps: "putObject buf dk = (s, dk') \<Longrightarrow> keeps dk dk'"
proof (cases "has dk (named buf)")
  case False
  assume "putObject buf dk = (s, dk')"
  then have "dk' = dk(sha256hex buf \<mapsto> buf)" "dk (sha256hex buf) = None" using put_disk [of buf dk s dk'] False by (auto simp: has_def)
  then show ?thesis by (auto simp: keeps_def sound_def getObject_def)
next
  case True
  assume "putObject buf dk = (s, dk')"
  then have "dk' = dk" using put_disk [of buf dk s dk'] True by simp
  then show ?thesis by simp
qed

lemma put_get: "sound dk \<Longrightarrow> putObject buf dk = (s, dk') \<Longrightarrow> \<exists>b. getObject dk' (sd_digest s) = Some b \<and> named b = named buf"
proof (cases "dk (sha256hex buf)")
  case None
  assume "putObject buf dk = (s, dk')"
  then have "dk' = dk(sha256hex buf \<mapsto> buf)" "sd_digest s = named buf" using put_disk [of buf dk s dk'] None by (auto simp: has_def putObject_def Let_def)
  then show ?thesis by (simp add: getObject_def)
next
  case (Some b)
  assume a: "sound dk" "putObject buf dk = (s, dk')"
  then have "dk' = dk" "sd_digest s = named buf" "sha256hex b = sha256hex buf"
    using put_disk [OF a(2)] Some by (auto simp: has_def putObject_def Let_def sound_def)
  then show ?thesis using Some by (simp add: getObject_def)
qed

lemma put_digest: "putObject buf dk = (s, dk') \<Longrightarrow> sd_digest s = named buf \<and> sd_size s = length buf"
  by (auto simp: putObject_def Let_def)

lemma get_named: "getObject dk d = Some b \<Longrightarrow> named b = d"
  by (auto simp: getObject_def split: option.splits if_splits)

text \<open>A file damaged on the disk is absent, and putting its object again does not repair it.\<close>

lemma put_damaged: "dk (sha256hex buf) = Some b \<Longrightarrow> sha256hex b \<noteq> sha256hex buf \<Longrightarrow> putObject buf dk = (s, dk') \<Longrightarrow> getObject dk' (sd_digest s) = None"
  by (auto simp: putObject_def Let_def getObject_def has_def)

end
