(* ===== verification/Render.thy ===== *)
theory Render
  imports Hashpass
begin

text \<open>
  Formats as further layouts over the same tensors, \<open>tensors/lib/render.mjs\<close>: the safetensors header for a
  list of tensors, the outputs of a format (one file, or shards with an index), and the hashers that are fed
  each tensor's bytes during the pass over the source files. Lengths are natural numbers; the rounding of
  numbers beyond 2^53 is not modelled.
\<close>

subsection \<open>Headers\<close>

definition RENDERABLE :: "string list" where
  "RENDERABLE = [''F64'', ''F32'', ''F16'', ''BF16'', ''I64'', ''I32'', ''I16'', ''I8'', ''U8'', ''BOOL'', ''F8_E4M3'', ''F8_E5M2'', ''U16'', ''U32'', ''U64'']"

record item =
  it_name :: string
  it_dtype :: "json option"
  it_shape :: "json option"
  it_len :: nat
  it_key :: string

text \<open>\<open>hdr[name] = v\<close>: an object assigned to \<open>__proto__\<close> becomes the prototype, a text does nothing; no property either way.\<close>

definition putProp :: "(string \<times> json) list \<Rightarrow> string \<Rightarrow> json \<Rightarrow> (string \<times> json) list" where
  "putProp kvs k v = (if k = ''__proto__'' then kvs else setProp kvs k v)"

definition rowProp :: "string \<Rightarrow> json option \<Rightarrow> (string \<times> json) list" where
  "rowProp k v = (case v of Some x \<Rightarrow> [(k, x)] | None \<Rightarrow> [])"

definition headerRow :: "item \<Rightarrow> nat \<Rightarrow> json" where
  "headerRow t off = JObj (rowProp ''dtype'' (it_dtype t) @ rowProp ''shape'' (it_shape t) @ [(''data_offsets'', JArr [JNum (int off), JNum (int (off + it_len t))])])"

fun headerRows :: "item list \<Rightarrow> nat \<Rightarrow> (string \<times> json) list \<Rightarrow> (string \<times> json) list \<times> nat" where
  "headerRows [] off hdr = (hdr, off)"
| "headerRows (t # ts) off hdr = headerRows ts (off + it_len t) (putProp hdr (it_name t) (headerRow t off))"

definition le64 :: "nat \<Rightarrow> bytes" where
  "le64 n = map (\<lambda>k. of_nat (n div 256 ^ k)) [0..<8]"

definition padded :: "bytes \<Rightarrow> bytes" where
  "padded json = (let pad = (8 - length json mod 8) mod 8 in if pad \<noteq> 0 then json @ replicate pad 0x20 else json)"

definition METADATA :: "(string \<times> json) list" where
  "METADATA = [(''__metadata__'', JObj [(''format'', JStr ''pt'')])]"

definition safetensorsHeader :: "item list \<Rightarrow> bytes \<times> nat" where
  "safetensorsHeader ts = (let (hdr, off) = headerRows ts 0 METADATA; json = padded (utf8 (stringify (JObj hdr))) in
     (le64 (length json) @ json, off))"

subsection \<open>Formats\<close>

record rfile =
  ou_path :: string
  ou_header :: bytes
  ou_tensors :: "item list"
  ou_size :: nat

record rformat =
  fo_outputs :: "rfile list"
  fo_extras :: "(string \<times> bytes) list"

text \<open>The tensors are cut into shards: a new one when the next tensor would pass the limit and the last is not empty.\<close>

fun shardsFrom :: "nat \<Rightarrow> item list \<Rightarrow> item list list \<times> nat \<Rightarrow> item list list" where
  "shardsFrom cap [] (shards, acc) = shards"
| "shardsFrom cap (t # ts) (shards, acc) =
     (let (shards', acc') = (if acc + it_len t > cap \<and> last shards \<noteq> [] then (shards @ [[]], 0) else (shards, acc)) in
      shardsFrom cap ts (butlast shards' @ [last shards' @ [t]], acc' + it_len t))"

definition outputOf :: "string \<Rightarrow> item list \<Rightarrow> rfile" where
  "outputOf path ts = (let (header, payload) = safetensorsHeader ts in \<lparr>ou_path = path, ou_header = header, ou_tensors = ts, ou_size = length header + payload\<rparr>)"

definition padStart5 :: "nat \<Rightarrow> string" where
  "padStart5 n = replicate (5 - length (decimal n)) (CHR ''0'') @ decimal n"

definition shardPath :: "nat \<Rightarrow> nat \<Rightarrow> string" where
  "shardPath k n = ''model-'' @ padStart5 (k + 1) @ ''-of-'' @ padStart5 n @ ''.safetensors''"

text \<open>\<open>JSON.stringify(v, null, 2)\<close>.\<close>

definition indent :: "nat \<Rightarrow> string" where
  "indent n = CHR 0x0A # replicate n (CHR '' '')"

fun pretty :: "nat \<Rightarrow> json \<Rightarrow> string"
and prettyElems :: "nat \<Rightarrow> json list \<Rightarrow> string"
and prettyMembers :: "nat \<Rightarrow> (string \<times> json) list \<Rightarrow> string" where
  "pretty n (JArr (v # vs)) = ''['' @ indent (n + 2) @ pretty (n + 2) v @ prettyElems (n + 2) vs @ indent n @ '']''"
| "pretty n (JObj ((k, v) # kvs)) = ''{'' @ indent (n + 2) @ quote k @ '': '' @ pretty (n + 2) v @ prettyMembers (n + 2) kvs @ indent n @ ''}''"
| "pretty n v = stringify v"
| "prettyElems n [] = []"
| "prettyElems n (v # vs) = '','' @ indent n @ pretty n v @ prettyElems n vs"
| "prettyMembers n [] = []"
| "prettyMembers n ((k, v) # kvs) = '','' @ indent n @ quote k @ '': '' @ pretty n v @ prettyMembers n kvs"

definition weightMap :: "rfile list \<Rightarrow> (string \<times> json) list" where
  "weightMap outs = (let m = fold (\<lambda>o'. fold (\<lambda>t kvs. putProp kvs (it_name t) (JStr (ou_path o'))) (ou_tensors o')) outs []
     in fromEntries (map (\<lambda>k. (k, the (map_of m k))) (sort (map fst m))))"

definition indexBytes :: "rfile list \<Rightarrow> bytes" where
  "indexBytes outs = utf8 (pretty 0 (JObj [(''metadata'', JObj [(''total_size'', JNum (sum_list (map (\<lambda>o'. int (ou_size o') - int (length (ou_header o'))) outs)))]),
     (''weight_map'', JObj (weightMap outs))]) @ [CHR 0x0A])"

definition planFormat :: "string \<Rightarrow> item list \<Rightarrow> nat \<Rightarrow> rformat result" where
  "planFormat fmt ts shardBytes =
     (if fmt = ''safetensors'' then Inr \<lparr>fo_outputs = [outputOf ''model.safetensors'' ts], fo_extras = []\<rparr>
      else if fmt = ''safetensors-sharded'' then
        (let shards = shardsFrom shardBytes ts ([[]], 0);
             outs = map (\<lambda>(k, s). outputOf (shardPath k (length shards)) s) (enumerate 0 shards)
         in Inr \<lparr>fo_outputs = outs, fo_extras = [(''model.safetensors.index.json'', indexBytes outs)]\<rparr>)
      else Inl (Error (''unknown format '' @ fmt)))"

subsection \<open>Hashing the renders\<close>

record lane =
  ln_format :: string
  ln_out :: rfile
  ln_h :: bytes
  ln_i :: nat
  ln_got :: nat
  ln_n :: nat

definition newLane :: "string \<Rightarrow> rfile \<Rightarrow> lane" where
  "newLane fmt o' = \<lparr>ln_format = fmt, ln_out = o', ln_h = ou_header o', ln_i = 0, ln_got = 0, ln_n = length (ou_header o')\<rparr>"

definition newRender :: "(string \<times> rformat) list \<Rightarrow> lane list" where
  "newRender fmts = concat (map (\<lambda>(fmt, p). map (newLane fmt) (fo_outputs p)) fmts)"

definition overran :: "lane \<Rightarrow> item \<Rightarrow> js_error" where
  "overran L t = Error (''render '' @ ou_path (ln_out L) @ '': '' @ it_name t @ '' overran'')"

definition feedLane :: "string \<Rightarrow> bytes \<Rightarrow> lane \<Rightarrow> lane result" where
  "feedLane key c L = (if ln_i L \<ge> length (ou_tensors (ln_out L)) then Inr L else
     let t = ou_tensors (ln_out L) ! ln_i L in
     if it_key t \<noteq> key then Inr L else
     let got = ln_got L + length c; L1 = L\<lparr>ln_h := ln_h L @ c, ln_got := got, ln_n := ln_n L + length c\<rparr> in
     if got = it_len t then Inr (L1\<lparr>ln_i := ln_i L + 1, ln_got := 0\<rparr>)
     else if got > it_len t then Inl (overran L t) else Inr L1)"

definition feed :: "string \<Rightarrow> bytes \<Rightarrow> lane list \<Rightarrow> lane list result" where
  "feed key c lanes = mapResult (feedLane key c) lanes"

record rendered =
  re_path :: string
  re_digest :: string
  re_size :: nat

definition finishLane :: "lane \<Rightarrow> rendered result" where
  "finishLane L = (let o' = ln_out L in
     if ln_i L \<noteq> length (ou_tensors o') then Inl (Error (''render '' @ ou_path o' @ '': fed '' @ decimal (ln_i L) @ '' of ''
       @ decimal (length (ou_tensors o')) @ '' tensors (order mismatch)''))
     else if ln_n L \<noteq> ou_size o' then Inl (Error (''render '' @ ou_path o' @ '': '' @ decimal (ln_n L) @ '' bytes, planned '' @ decimal (ou_size o')))
     else Inr \<lparr>re_path = ou_path o', re_digest = named (ln_h L), re_size = ou_size o'\<rparr>)"

definition finishRender :: "lane list \<Rightarrow> (string \<times> rendered list) list result" where
  "finishRender lanes = andThen (mapResult (\<lambda>L. andThen (finishLane L) (\<lambda>r. Inr (ln_format L, r))) lanes)
     (\<lambda>rs. Inr (foldl (\<lambda>out (fmt, r). AList.map_default fmt [r] (\<lambda>xs. xs @ [r]) out) [] rs))"

subsection \<open>What is hashed is the render\<close>

definition renderBytes :: "(string \<Rightarrow> bytes) \<Rightarrow> rfile \<Rightarrow> bytes" where
  "renderBytes bs o' = ou_header o' @ concat (map (\<lambda>t. bs (it_key t)) (ou_tensors o'))"

definition renderOf :: "(string \<Rightarrow> bytes) \<Rightarrow> rfile \<Rightarrow> rendered" where
  "renderOf bs o' = \<lparr>re_path = ou_path o', re_digest = named (renderBytes bs o'), re_size = length (renderBytes bs o')\<rparr>"

definition feedEv :: "(string \<times> bytes) list \<Rightarrow> lane \<Rightarrow> lane result" where
  "feedEv = foldResult (\<lambda>(k, c). feedLane k c)"

lemma feedEv_simps [simp]: "feedEv [] L = Inr L" "feedEv ((k, c) # ev) L = andThen (feedLane k c L) (feedEv ev)"
  "feedEv (ev @ ev') L = andThen (feedEv ev L) (feedEv ev')"
  by (simp_all add: feedEv_def foldResult_append)

definition laneAt :: "string \<Rightarrow> rfile \<Rightarrow> nat \<Rightarrow> bytes \<Rightarrow> bytes \<Rightarrow> lane" where
  "laneAt fmt o' j content b = \<lparr>ln_format = fmt, ln_out = o', ln_h = ou_header o' @ content @ b, ln_i = j, ln_got = length b,
     ln_n = length (ou_header o') + length content + length b\<rparr>"

lemma feed_other: "j < length (ou_tensors o') \<Longrightarrow> it_key (ou_tensors o' ! j) \<noteq> key \<Longrightarrow> feedLane key c (laneAt fmt o' j content b) = Inr (laneAt fmt o' j content b)"
  "length (ou_tensors o') \<le> j \<Longrightarrow> feedLane key c (laneAt fmt o' j content b) = Inr (laneAt fmt o' j content b)"
  by (simp_all add: feedLane_def laneAt_def)

lemma feed_others:
  "length (ou_tensors o') \<le> j \<or> it_key (ou_tensors o' ! j) \<notin> fst ` set ev \<Longrightarrow> feedEv ev (laneAt fmt o' j content b) = Inr (laneAt fmt o' j content b)"
proof (induction ev)
  case (Cons e ev)
  obtain k c where e: "e = (k, c)" by fastforce
  have "feedLane k c (laneAt fmt o' j content b) = Inr (laneAt fmt o' j content b)"
    using Cons.prems e by (cases "length (ou_tensors o') \<le> j") (auto simp: feed_other)
  moreover have "feedEv ev (laneAt fmt o' j content b) = Inr (laneAt fmt o' j content b)"
    using Cons.prems by (intro Cons.IH) auto
  ultimately show ?case by (simp add: e)
qed simp

lemma feed_tensor:
  assumes "distinct (map it_key (ou_tensors o'))" and j: "j < length (ou_tensors o')"
  shows "length b + length (concat cs) = it_len (ou_tensors o' ! j) \<Longrightarrow> cs \<noteq> [] \<Longrightarrow>
    feedEv (map (Pair (it_key (ou_tensors o' ! j))) cs) (laneAt fmt o' j content b) = Inr (laneAt fmt o' (Suc j) (content @ b @ concat cs) [])"
proof (induction cs arbitrary: b)
  case (Cons c cs)
  let ?key = "it_key (ou_tensors o' ! j)"
  show ?case
  proof (cases "length b + length c = it_len (ou_tensors o' ! j)")
    case True
    then have f: "feedLane ?key c (laneAt fmt o' j content b) = Inr (laneAt fmt o' (Suc j) (content @ b @ c) [])"
      using j by (simp add: feedLane_def laneAt_def Let_def)
    have "length (concat cs) = 0" using True Cons.prems(1) by (simp del: length_0_conv)
    then have e: "concat cs = []" by (simp only: length_0_conv)
    have "feedEv (map (Pair ?key) cs) (laneAt fmt o' (Suc j) (content @ b @ c) []) = Inr (laneAt fmt o' (Suc j) (content @ b @ c) [])"
    proof (rule feed_others, cases "Suc j < length (ou_tensors o')")
      case True
      then have "it_key (ou_tensors o' ! Suc j) \<noteq> ?key" using assms(1) j nth_eq_iff_index_eq [of "map it_key (ou_tensors o')" "Suc j" j] by simp
      then show "length (ou_tensors o') \<le> Suc j \<or> it_key (ou_tensors o' ! Suc j) \<notin> fst ` set (map (Pair ?key) cs)" by auto
    qed simp
    moreover have "concat (c # cs) = c" by (simp only: concat.simps e append_Nil2)
    ultimately show ?thesis using f by (simp del: concat.simps)
  next
    case False
    then have f: "feedLane ?key c (laneAt fmt o' j content b) = Inr (laneAt fmt o' j content (b @ c))" and "cs \<noteq> []"
      using j Cons.prems by (auto simp: feedLane_def laneAt_def Let_def)
    with Cons.IH [of "b @ c"] Cons.prems show ?thesis by simp
  qed
qed simp

lemma told_split: "told bs (is @ js) ev \<Longrightarrow> \<exists>ev1 ev2. ev = ev1 @ ev2 \<and> told bs is ev1 \<and> told bs js ev2"
proof (induction "is" arbitrary: ev)
  case Nil
  then show ?case by (intro exI [of _ "[]"] exI [of _ ev]) (simp add: told_Nil)
next
  case (Cons i ids)
  from Cons.prems obtain cs ev0 where e: "ev = map (Pair i) cs @ ev0" "cs \<noteq> []" "concat cs = bs i" "told bs (ids @ js) ev0"
    by (auto elim: told.cases)
  from Cons.IH [OF e(4)] obtain ev1 ev2 where "ev0 = ev1 @ ev2" "told bs ids ev1" "told bs js ev2" by blast
  with e show ?case by (intro exI [of _ "map (Pair i) cs @ ev1"] exI [of _ ev2]) (simp add: told_Cons)
qed

lemma told_keys: "told bs ids ev \<Longrightarrow> fst ` set ev \<subseteq> set ids"
  by (induction rule: told.induct) auto

lemma feed_lane:
  assumes "distinct (map it_key (ou_tensors o'))" and len: "\<forall>t \<in> set (ou_tensors o'). length (bs (it_key t)) = it_len t"
  shows "told bs (map it_key us) ev \<Longrightarrow> us = drop j (ou_tensors o') \<Longrightarrow>
    feedEv ev (laneAt fmt o' j content []) = Inr (laneAt fmt o' (j + length us) (content @ concat (map (\<lambda>t. bs (it_key t)) us)) [])"
proof (induction us arbitrary: j content ev)
  case Nil
  then have "ev = []" by (auto elim: told.cases)
  then show ?case by simp
next
  case (Cons u us)
  then have j: "j < length (ou_tensors o')" "u = ou_tensors o' ! j" "us = drop (Suc j) (ou_tensors o')"
    by (metis drop_all list.distinct(1) not_less, metis Cons_nth_drop_Suc drop_all list.distinct(1) list.inject not_less, metis Cons_nth_drop_Suc drop_all list.distinct(1) list.inject not_less)
  from Cons.prems(1) obtain cs ev0 where e: "ev = map (Pair (it_key u)) cs @ ev0" "cs \<noteq> []" "concat cs = bs (it_key u)" "told bs (map it_key us) ev0"
    by (auto elim: told.cases)
  have "length (concat cs) = it_len u" using len j e(3) by (metis nth_mem)
  then have "feedEv (map (Pair (it_key u)) cs) (laneAt fmt o' j content []) = Inr (laneAt fmt o' (Suc j) (content @ bs (it_key u)) [])"
    using feed_tensor [OF assms(1) j(1), of "[]" cs fmt content] e(2,3) j(2) by simp
  with Cons.IH [OF e(4) j(3)] e(1) show ?case by simp
qed

lemma feed_output:
  assumes "distinct (map it_key its)" and "its = xs @ ou_tensors o' @ ys" and "\<forall>t \<in> set its. length (bs (it_key t)) = it_len t"
    and "told bs (map it_key its) ev"
  shows "feedEv ev (newLane fmt o') = Inr (laneAt fmt o' (length (ou_tensors o')) (concat (map (\<lambda>t. bs (it_key t)) (ou_tensors o'))) [])"
proof -
  let ?ts = "ou_tensors o'"
  obtain ev1 ev2 ev3 where e: "ev = ev1 @ ev2 @ ev3" "told bs (map it_key xs) ev1" "told bs (map it_key ?ts) ev2"
    using assms(4) told_split [of bs "map it_key xs" "map it_key ?ts @ map it_key ys" ev] told_split [of bs "map it_key ?ts" "map it_key ys"]
    unfolding assms(2) by (metis map_append)
  have start: "newLane fmt o' = laneAt fmt o' 0 [] []" by (simp add: newLane_def laneAt_def)
  have 1: "feedEv ev1 (laneAt fmt o' 0 [] []) = Inr (laneAt fmt o' 0 [] [])"
  proof (rule feed_others, cases "?ts = []")
    case False
    then have "it_key (?ts ! 0) \<in> it_key ` set ?ts" by simp
    moreover have "it_key ` set ?ts \<inter> it_key ` set xs = {}" using assms(1,2) by auto
    ultimately have "it_key (?ts ! 0) \<notin> it_key ` set xs" by blast
    with told_keys [OF e(2)] show "length ?ts \<le> 0 \<or> it_key (?ts ! 0) \<notin> fst ` set ev1" by auto
  qed simp
  have 2: "feedEv ev2 (laneAt fmt o' 0 [] []) = Inr (laneAt fmt o' (length ?ts) (concat (map (\<lambda>t. bs (it_key t)) ?ts)) [])"
    using feed_lane [of o' bs ?ts ev2 0 fmt "[]"] assms(1-3) e(3) by simp
  have 3: "feedEv ev3 (laneAt fmt o' (length ?ts) (concat (map (\<lambda>t. bs (it_key t)) ?ts)) []) = Inr (laneAt fmt o' (length ?ts) (concat (map (\<lambda>t. bs (it_key t)) ?ts)) [])"
    by (rule feed_others) simp
  show ?thesis by (simp add: e start 1 2 3)
qed

lemma mapResult_Inr: "mapResult f xs = Inr ys \<longleftrightarrow> map f xs = map Inr ys"
  by (induction xs arbitrary: ys) (auto simp: andThen_Inr_iff Cons_eq_map_conv)

lemma mapResult_map: "(\<And>x. x \<in> set xs \<Longrightarrow> f x = Inr (g x)) \<Longrightarrow> mapResult f xs = Inr (map g xs)"
  by (induction xs) simp_all

text \<open>All lanes are fed alike.\<close>

lemma feed_lanes: "(\<And>L. L \<in> set lanes \<Longrightarrow> feedEv ev L = Inr (g L)) \<Longrightarrow> foldResult (\<lambda>(k, c). feed k c) ev lanes = Inr (map g lanes)"
proof (induction ev arbitrary: lanes g)
  case Nil
  then have "map g lanes = lanes" by (intro map_idI) (metis Inr_inject feedEv_simps(1))
  then show ?case by simp
next
  case (Cons e ev)
  obtain k c where e: "e = (k, c)" by fastforce
  define h where "h L = (case feedLane k c L of Inr L' \<Rightarrow> L' | Inl _ \<Rightarrow> L)" for L
  have h: "feedLane k c L = Inr (h L) \<and> feedEv ev (h L) = Inr (g L)" if "L \<in> set lanes" for L
    using Cons.prems [OF that] by (cases "feedLane k c L") (auto simp: e h_def)
  then have f: "feed k c lanes = Inr (map h lanes)" unfolding feed_def by (intro mapResult_map) simp
  define g' where "g' L = (case feedEv ev L of Inr L' \<Rightarrow> L' | Inl _ \<Rightarrow> L)" for L
  have "foldResult (\<lambda>(k, c). feed k c) ev (map h lanes) = Inr (map g' (map h lanes))"
    by (rule Cons.IH) (use h in \<open>auto simp: g'_def\<close>)
  moreover have "map g' (map h lanes) = map g lanes" using h by (auto simp: g'_def)
  ultimately show ?case using f by (simp add: e)
qed

text \<open>Each output holds a run of the tensors.\<close>

lemma shards_all: "shards \<noteq> [] \<Longrightarrow> concat (shardsFrom cap ts (shards, acc)) = concat shards @ ts \<and> shardsFrom cap ts (shards, acc) \<noteq> []"
proof (induction ts arbitrary: shards acc)
  case (Cons t ts)
  define open' where "open' = (if acc + it_len t > cap \<and> last shards \<noteq> [] then shards @ [[]] else shards)"
  have o: "open' \<noteq> []" "concat open' = concat shards" using Cons.prems by (auto simp: open'_def)
  have "concat (butlast open') @ last open' = concat open'"
    by (metis append_butlast_last_id append_Nil2 concat.simps concat_append o(1))
  then have "concat (butlast open' @ [last open' @ [t]]) = concat shards @ [t]" using o(2) by (simp add: append_assoc [symmetric])
  with Cons.IH [of "butlast open' @ [last open' @ [t]]"] show ?case
    by (auto simp: open'_def split: if_splits)
qed simp

lemma planFormat_runs:
  assumes "planFormat fmt its cap = Inr p"
  shows "concat (map ou_tensors (fo_outputs p)) = its" and "fo_outputs p \<noteq> []"
    and "o' \<in> set (fo_outputs p) \<Longrightarrow> o' = outputOf (ou_path o') (ou_tensors o')"
proof -
  have t: "ou_tensors (outputOf path ts) = ts" "outputOf (ou_path (outputOf path ts)) ts = outputOf path ts" for path ts
    by (simp_all add: outputOf_def split: prod.splits)
  have e: "map (\<lambda>x. ou_tensors (case x of (k, s) \<Rightarrow> outputOf (f k) s)) (enumerate n shards) = shards" for f n shards
    by (induction shards arbitrary: n) (simp_all add: t)
  have sh: "concat (shardsFrom cap its ([[]], 0)) = its" "shardsFrom cap its ([[]], 0) \<noteq> []" using shards_all [of "[[]]" cap its 0] by auto
  show "concat (map ou_tensors (fo_outputs p)) = its" "fo_outputs p \<noteq> []"
    using assms sh by (auto simp: planFormat_def Let_def t e comp_def dest: arg_cong [of _ _ "length"] split: if_splits)
  show "o' \<in> set (fo_outputs p) \<Longrightarrow> o' = outputOf (ou_path o') (ou_tensors o')"
    using assms by (auto simp: planFormat_def Let_def t split: if_splits)
qed

lemma output_run: "o' \<in> set outs \<Longrightarrow> \<exists>xs ys. concat (map ou_tensors outs) = xs @ ou_tensors o' @ ys"
proof -
  assume "o' \<in> set outs"
  then obtain as bs where "outs = as @ o' # bs" by (meson split_list)
  then show ?thesis by (intro exI [of _ "concat (map ou_tensors as)"] exI [of _ "concat (map ou_tensors bs)"]) simp
qed

lemma headerRows_total: "snd (headerRows ts off hdr) = off + sum_list (map it_len ts)"
  by (induction ts arbitrary: off hdr) simp_all

lemma output_size: "ou_size (outputOf path ts) = length (ou_header (outputOf path ts)) + sum_list (map it_len ts)"
  using headerRows_total [of ts 0 METADATA] by (auto simp: outputOf_def safetensorsHeader_def Let_def split: prod.splits)

text \<open>Rendered in the pass: the outputs' digests, format by format.\<close>

definition planned :: "item list \<Rightarrow> string \<times> rformat \<Rightarrow> bool" where
  "planned its fp \<longleftrightarrow> (\<exists>cap. planFormat (fst fp) its cap = Inr (snd fp))"

lemma grouped_one:
  fixes out :: "(string \<times> 'a list) list"
  assumes "xs \<noteq> []" and "fmt \<notin> fst ` set out"
  shows "foldl (\<lambda>out (fmt, r). AList.map_default fmt [r] (\<lambda>ys. ys @ [r]) out) out (map (Pair fmt) xs) = out @ [(fmt, xs)]"
proof -
  have one: "AList.map_default k [r] (\<lambda>ys. ys @ [r]) (out @ [(k, ys)]) = out @ [(k, ys @ [r])]" if "k \<notin> fst ` set out" for k r ys and out :: "(string \<times> 'a list) list"
    using that by (induction out) auto
  have new: "AList.map_default k [r] (\<lambda>ys. ys @ [r]) out = out @ [(k, [r])]" if "k \<notin> fst ` set out" for k r and out :: "(string \<times> 'a list) list"
    using that by (induction out) auto
  obtain y ys where y: "xs = y # ys" using assms(1) by (cases xs) auto
  have "foldl (\<lambda>out (fmt, r). AList.map_default fmt [r] (\<lambda>ys. ys @ [r]) out) (out @ [(fmt, zs)]) (map (Pair fmt) ys) = out @ [(fmt, zs @ ys)]" for zs
    by (induction ys arbitrary: zs) (simp_all add: one [OF assms(2)])
  then show ?thesis by (simp add: y new [OF assms(2)])
qed

lemma grouped:
  fixes out :: "(string \<times> 'a list) list"
  assumes "distinct (map fst fs)" and "\<forall>f \<in> set fs. snd f \<noteq> []" and "fst ` set out \<inter> fst ` set fs = {}"
  shows "foldl (\<lambda>out (fmt, r). AList.map_default fmt [r] (\<lambda>ys. ys @ [r]) out) out (concat (map (\<lambda>(fmt, xs). map (Pair fmt) xs) fs)) = out @ fs"
  using assms
proof (induction fs arbitrary: out)
  case (Cons f fs)
  obtain fmt xs where f: "f = (fmt, xs)" by fastforce
  have "foldl (\<lambda>out (fmt, r). AList.map_default fmt [r] (\<lambda>ys. ys @ [r]) out) out (map (Pair fmt) xs) = out @ [(fmt, xs)]"
    using Cons.prems by (intro grouped_one) (auto simp: f)
  moreover have "foldl (\<lambda>out (fmt, r). AList.map_default fmt [r] (\<lambda>ys. ys @ [r]) out) (out @ [(fmt, xs)]) (concat (map (\<lambda>(fmt, xs). map (Pair fmt) xs) fs)) = (out @ [(fmt, xs)]) @ fs"
    using Cons.prems by (intro Cons.IH) (auto simp: f)
  ultimately show ?case by (simp add: f)
qed simp

lemma finish_lane:
  assumes "o' = outputOf (ou_path o') (ou_tensors o')" and "\<forall>t \<in> set (ou_tensors o'). length (bs (it_key t)) = it_len t"
  shows "finishLane (laneAt fmt o' (length (ou_tensors o')) (concat (map (\<lambda>t. bs (it_key t)) (ou_tensors o'))) []) = Inr (renderOf bs o')"
proof -
  have "length (concat (map (\<lambda>t. bs (it_key t)) (ou_tensors o'))) = sum_list (map it_len (ou_tensors o'))"
    using assms(2) by (simp add: length_concat comp_def cong: map_cong)
  moreover have "ou_size o' = length (ou_header o') + sum_list (map it_len (ou_tensors o'))"
    using output_size [of "ou_path o'" "ou_tensors o'"] assms(1) by simp
  ultimately show ?thesis by (simp add: finishLane_def laneAt_def renderOf_def renderBytes_def Let_def)
qed

lemma rendered_exact:
  assumes "list_all (planned its) fmts" and "distinct (map fst fmts)" and "distinct (map it_key its)"
    and len: "\<forall>t \<in> set its. length (bs (it_key t)) = it_len t" and "told bs (map it_key its) ev"
  shows "\<exists>lanes. foldResult (\<lambda>(k, c). feed k c) ev (newRender fmts) = Inr lanes \<and>
    finishRender lanes = Inr (map (\<lambda>(fmt, p). (fmt, map (renderOf bs) (fo_outputs p))) fmts)"
proof -
  define g :: "lane \<Rightarrow> lane" where "g L = laneAt (ln_format L) (ln_out L) (length (ou_tensors (ln_out L))) (concat (map (\<lambda>t. bs (it_key t)) (ou_tensors (ln_out L)))) []" for L
  have pl: "planFormat fmt its (SOME cap. planFormat fmt its cap = Inr p) = Inr p" if "(fmt, p) \<in> set fmts" for fmt p
    using assms(1) that by (auto simp: planned_def list_all_iff dest!: bspec intro: someI)
  have out: "feedEv ev (newLane fmt o') = Inr (g (newLane fmt o')) \<and> finishLane (g (newLane fmt o')) = Inr (renderOf bs o')"
    if fp: "(fmt, p) \<in> set fmts" and o': "o' \<in> set (fo_outputs p)" for fmt p o'
  proof -
    note r = planFormat_runs [OF pl [OF fp]]
    obtain xs ys where its: "its = xs @ ou_tensors o' @ ys" using output_run [OF o'] r(1) by auto
    have "feedEv ev (newLane fmt o') = Inr (g (newLane fmt o'))"
      using feed_output [OF assms(3) its len assms(5), of fmt] by (simp add: g_def newLane_def)
    moreover have "finishLane (g (newLane fmt o')) = Inr (renderOf bs o')"
      using finish_lane [OF r(3) [OF o'], of bs fmt] len its by (simp add: g_def newLane_def)
    ultimately show ?thesis by simp
  qed
  have mem: "\<exists>fmt p o'. L = newLane fmt o' \<and> (fmt, p) \<in> set fmts \<and> o' \<in> set (fo_outputs p)" if "L \<in> set (newRender fmts)" for L
    using that by (auto simp: newRender_def)
  have "foldResult (\<lambda>(k, c). feed k c) ev (newRender fmts) = Inr (map g (newRender fmts))"
    by (rule feed_lanes) (use out mem in blast)
  moreover have "mapResult (\<lambda>L. andThen (finishLane L) (\<lambda>r. Inr (ln_format L, r))) (map g (newRender fmts))
      = Inr (concat (map (\<lambda>(fmt, xs). map (Pair fmt) xs) (map (\<lambda>(fmt, p). (fmt, map (renderOf bs) (fo_outputs p))) fmts)))"
  proof -
    have "map (\<lambda>L. andThen (finishLane L) (\<lambda>r. Inr (ln_format L, r))) (map g (newRender fs))
       = map Inr (concat (map (\<lambda>(fmt, xs). map (Pair fmt) xs) (map (\<lambda>(fmt, p). (fmt, map (renderOf bs) (fo_outputs p))) fs)))"
      if "set fs \<subseteq> set fmts" for fs
      using that
    proof (induction fs)
      case (Cons f fs)
      obtain fmt p where f: "f = (fmt, p)" by fastforce
      have "map ((\<lambda>L. andThen (finishLane L) (\<lambda>r. Inr (ln_format L, r))) \<circ> g \<circ> newLane fmt) (fo_outputs p) = map (\<lambda>o'. Inr (fmt, renderOf bs o')) (fo_outputs p)"
        using out [of fmt p] Cons.prems f by (intro map_cong refl) (auto simp: g_def laneAt_def newLane_def)
      with Cons show ?case by (simp add: newRender_def f comp_def)
    qed (simp add: newRender_def)
    then show ?thesis by (simp add: mapResult_Inr)
  qed
  moreover have "foldl (\<lambda>out (fmt, r). AList.map_default fmt [r] (\<lambda>ys. ys @ [r]) out) [] (concat (map (\<lambda>(fmt, xs). map (Pair fmt) xs) (map (\<lambda>(fmt, p). (fmt, map (renderOf bs) (fo_outputs p))) fmts)))
      = [] @ map (\<lambda>(fmt, p). (fmt, map (renderOf bs) (fo_outputs p))) fmts"
    by (rule grouped) (use assms(2) planFormat_runs(2) [OF pl] in \<open>auto simp: comp_def case_prod_unfold\<close>)
  ultimately show ?thesis by (intro exI [of _ "map g (newRender fmts)"]) (simp add: finishRender_def)
qed

subsection \<open>Rendering in the pass\<close>

definition keyOf :: "string \<Rightarrow> nat \<Rightarrow> string" where
  "keyOf path i = path @ ''#'' @ decimal i"

definition itemOf :: "string \<Rightarrow> plan \<Rightarrow> nat \<Rightarrow> item" where
  "itemOf path plan i = (let t = p_tensors plan ! i in \<lparr>it_name = t_name t, it_dtype = t_dtype t, it_shape = t_shape t, it_len = nat (t_len t), it_key = keyOf path i\<rparr>)"

text \<open>The callback of one source file, as far as the renders go: \<open>rh.feed(`${path}#${i}`, c)\<close>.\<close>

definition feedFile :: "string \<Rightarrow> nat \<Rightarrow> bytes \<Rightarrow> lane list \<Rightarrow> lane list result" where
  "feedFile path i c lanes = feed (keyOf path i) c lanes"

lemma keyOf_inject [simp]: "keyOf path i = keyOf path j \<longleftrightarrow> i = j"
  by (simp add: keyOf_def)

lemma it_key_itemOf [simp]: "it_key (itemOf path plan i) = keyOf path i" "it_len (itemOf path plan i) = nat (t_len (p_tensors plan ! i))"
  by (simp_all add: itemOf_def Let_def)

lemma calls_feedFile: "calls (feedFile path) ev = foldResult (\<lambda>(k, c). feed k c) (map (\<lambda>(i, c). (keyOf path i, c)) ev)"
proof
  show "calls (feedFile path) ev lanes = foldResult (\<lambda>(k, c). feed k c) (map (\<lambda>(i, c). (keyOf path i, c)) ev) lanes" for lanes
  proof (induction ev arbitrary: lanes)
    case (Cons e ev)
    obtain i c where "e = (i, c)" by fastforce
    with Cons show ?case by (cases "feed (keyOf path i) c lanes") (simp_all add: calls_def feedFile_def)
  qed (simp add: calls_def)
qed

text \<open>
  C12. Renders are hashed right in the pass over their source: whatever the chunks, when every tensor of the plan has
  as many bytes as it says, the digest announced for each output of each planned format is the SHA-256 of its header
  followed by the canonical bytes of its tensors, and its size is that file's.
\<close>

theorem rendered_in_pass:
  assumes "planFile rng (length file) path w = Some (w', Inr (Some plan))" and "readable raw file plan" and "fits plan True"
    and "concat cs = file" and "emissionOrder plan = Inr order"
    and "\<forall>i \<in> set order. length (bytesOf raw file plan i) = nat (t_len (p_tensors plan ! i)) \<and> bs (keyOf path i) = bytesOf raw file plan i"
    and "list_all (planned (map (itemOf path plan) order)) fmts" and "distinct (map fst fmts)"
  shows "\<exists>lanes. hashFile raw plan (length file) (Some (feedFile path)) cs None (newRender fmts) = Inr (expected raw file plan, lanes) \<and>
    finishRender lanes = Inr (map (\<lambda>(fmt, p). (fmt, map (renderOf bs) (fo_outputs p))) fmts)"
proof -
  have wf: "wfPlan (length file) plan" by (rule planFile_wf [OF assms(1)])
  obtain ev where ev: "told (bytesOf raw file plan) order ev"
    and run: "\<And>(f :: nat \<Rightarrow> bytes \<Rightarrow> lane list \<Rightarrow> lane list result) e e2. calls f ev e = Inr e2 \<Longrightarrow> hashFile raw plan (length file) (Some f) cs None e = Inr (expected raw file plan, e2)"
    using pass_emits [OF wf assms(2-4)] assms(5) by auto
  have order: "order = orderTo plan (length (p_segments plan))" using emissionOrder_wf [OF wf] assms(5) by simp
  have d: "distinct (map it_key (map (itemOf path plan) order))"
    using distinct_orderTo [of plan] by (simp add: order distinct_map inj_on_def comp_def)
  have len: "\<forall>t \<in> set (map (itemOf path plan) order). length (bs (it_key t)) = it_len t" using assms(6) by auto
  have "told bs (map (keyOf path) order) (map (\<lambda>(i, c). (keyOf path i, c)) ev)" by (rule told_map [OF ev]) (use assms(6) in auto)
  then have "told bs (map it_key (map (itemOf path plan) order)) (map (\<lambda>(i, c). (keyOf path i, c)) ev)" by (simp add: comp_def)
  from rendered_exact [OF assms(7,8) d len this] obtain lanes where
    l: "calls (feedFile path) ev (newRender fmts) = Inr lanes" "finishRender lanes = Inr (map (\<lambda>(fmt, p). (fmt, map (renderOf bs) (fo_outputs p))) fmts)"
    by (auto simp: calls_feedFile)
  from run [OF l(1)] l(2) show ?thesis by blast
qed

theorem rendered_in_pass_witness:
  "\<exists>lanes. hashFile (\<lambda>_. []) tinyPlan 65 (Some (feedFile ''m.gguf'')) [take 10 tinyGguf, drop 10 tinyGguf] None
       (newRender [(''safetensors'', \<lparr>fo_outputs = [outputOf ''model.safetensors'' [itemOf ''m.gguf'' tinyPlan 0]], fo_extras = []\<rparr>)])
     = Inr (expected (\<lambda>_. []) tinyGguf tinyPlan, lanes) \<and>
   finishRender lanes = Inr [(''safetensors'', [renderOf (\<lambda>_. [7]) (outputOf ''model.safetensors'' [itemOf ''m.gguf'' tinyPlan 0])])]"
proof -
  let ?fmts = "[(''safetensors'', \<lparr>fo_outputs = [outputOf ''model.safetensors'' [itemOf ''m.gguf'' tinyPlan 0]], fo_extras = []\<rparr>)]"
  have len: "length tinyGguf = 65" by (simp add: tinyGguf_def)
  have "readable (\<lambda>_. []) tinyGguf tinyPlan" by (simp add: readable_def tinyPlan_def)
  moreover have "fits tinyPlan True" by (simp add: fits_def buffered_def tinyPlan_def CAP_def segIds_def)
  moreover have "emissionOrder tinyPlan = Inr [0]"
    by (simp add: emissionOrder_def tinyPlan_def cmpSort_def segIds_def emptyIds_def numeral_2_eq_2)
  moreover have "bytesOf (\<lambda>_. []) tinyGguf tinyPlan 0 = [7]" "t_len (p_tensors tinyPlan ! 0) = 1"
    by (simp_all add: bytesOf_def tinyPlan_def tiny_bytes)
  moreover have "list_all (planned [itemOf ''m.gguf'' tinyPlan 0]) ?fmts" by (simp add: planned_def planFormat_def)
  ultimately show ?thesis
    using rendered_in_pass [of "served tinyGguf" tinyGguf "''m.gguf''" "()" "()" tinyPlan "\<lambda>_. []" "[take 10 tinyGguf, drop 10 tinyGguf]" "[0]" "\<lambda>_. [7]" ?fmts]
      tiny_plan len by simp
qed

end
