(* ===== verification/Indexer.thy ===== *)
theory Indexer
  imports Sample Store Render
begin

text \<open>
  Indexing a model revision, \<open>indexModel\<close> of \<open>tensors/lib/model.mjs\<close>: plan every weight file, read each once,
  refuse a file whose SHA-256 is not its LFS oid, and store the objects that describe the model. The world is the
  network's with the store's disk beside it. A file's stream is read to its end before the pass, which the code runs
  as the chunks come; what differs is only what is left of the network when the pass throws. A failure the model
  does not follow (\<open>Unmodelled\<close>) is not taken for an error that the code catches. Logs, the clock and
  \<open>headersOnly\<close> are left out.
\<close>

subsection \<open>The store and the network\<close>

type_synonym ('w, 'a) act = "('w \<times> disk, 'a) io"

definition onNet :: "('w, 'a) io \<Rightarrow> ('w, 'a) act" where
  "onNet m = (\<lambda>(w, dk). case m w of None \<Rightarrow> None | Some (w', r) \<Rightarrow> Some ((w', dk), r))"

definition store :: "bytes \<Rightarrow> ('w, stored) act" where
  "store buf = (\<lambda>(w, dk). case putObject buf dk of (s, dk') \<Rightarrow> Some ((w, dk'), Inr s))"

definition storeJson :: "json \<Rightarrow> ('w, stored) act" where
  "storeJson v = (\<lambda>(w, dk). case putJson v dk of (s, dk') \<Rightarrow> Some ((w, dk'), Inr s))"

record 'w tools =
  tl_net :: "'w wire"
  tl_env :: fenv
  tl_pages :: nat
  tl_raw :: "nat \<Rightarrow> bytes"

definition signedFile :: "'w tools \<Rightarrow> string \<Rightarrow> string \<Rightarrow> string \<Rightarrow> bool \<Rightarrow> ('w, string) io" where
  "signedFile tls repo rv path fresh = signedUrl (tl_net tls) (tl_env tls) repo rv path fresh"

subsection \<open>Planning\<close>

definition SMALL :: nat where "SMALL = 16 * 2 ^ 20"

definition FOREIGN :: "string \<Rightarrow> bool" where
  "FOREIGN path \<longleftrightarrow> (let p = lower path in
     (\<exists>x \<in> set [''safetensors'', ''gguf'', ''bin'', ''pt'', ''pth'', ''ckpt'', ''h5'', ''msgpack'', ''onnx'', ''onnx_data'', ''ot'', ''tflite'', ''mlmodel'', ''pb'', ''npz'', ''keras''].
        endsWith p (CHR ''.'' # x))
     \<or> (\<exists>x \<in> set [''onnx/'', ''openvino/'', ''coreml/'', ''tf/'', ''flax/'']. startsWith p x))"

record pfile =
  pf_path :: string
  pf_size :: nat
  pf_oid :: string
  pf_plan :: plan

record planning =
  pn_planned :: "pfile list"
  pn_small :: "hfFile list"
  pn_other :: "hfFile list"

text \<open>\<open>range(url, a, b)\<close> with \<open>b\<close> inclusive; the planners name the end after it.\<close>

definition rangeOf :: "'w tools \<Rightarrow> string \<Rightarrow> 'w Containers.source" where
  "rangeOf tls url a e = (if e = 0 then throw Unmodelled else range' (tl_net tls) url a (e - 1))"

definition planOr :: "('w, plan option) io \<Rightarrow> ('w, plan option) io" where
  "planOr m = catchWith m (\<lambda>e. if e = Unmodelled then throw e else ret None)"

definition setAside :: "hfFile \<Rightarrow> planning \<Rightarrow> planning" where
  "setAside f pn = (if hf_oid f = None \<or> hf_size f \<le> SMALL then pn\<lparr>pn_small := pn_small pn @ [f]\<rparr> else pn\<lparr>pn_other := pn_other pn @ [f]\<rparr>)"

definition planOne :: "'w tools \<Rightarrow> string \<Rightarrow> string \<Rightarrow> planning \<Rightarrow> hfFile \<Rightarrow> ('w, planning) act" where
  "planOne tls repo rv pn f = (case hf_oid f of
     Some d \<Rightarrow> if isWeightPath (hf_path f) then
         bind (onNet (signedFile tls repo rv (hf_path f) False)) (\<lambda>url.
         bind (onNet (planOr (planFile (rangeOf tls url) (hf_size f) (hf_path f)))) (\<lambda>p. case p of
           Some pl \<Rightarrow> ret (pn\<lparr>pn_planned := pn_planned pn @ [\<lparr>pf_path = hf_path f, pf_size = hf_size f, pf_oid = d, pf_plan = pl\<rparr>]\<rparr>)
         | None \<Rightarrow> ret (setAside f pn)))
       else ret (setAside f pn)
   | None \<Rightarrow> ret (setAside f pn))"

text \<open>The files of a revision have paths of their own, so that the order of the sort is that of the paths.\<close>

definition planAll :: "'w tools \<Rightarrow> string \<Rightarrow> string \<Rightarrow> hfFile list \<Rightarrow> ('w, planning) act" where
  "planAll tls repo rv files = bind (foldIO (planOne tls repo rv) \<lparr>pn_planned = [], pn_small = [], pn_other = []\<rparr> files)
     (\<lambda>pn. ret (pn\<lparr>pn_planned := sort_key pf_path (pn_planned pn)\<rparr>))"

text \<open>What a render is made from.\<close>

definition isSource :: "pfile list \<Rightarrow> pfile \<Rightarrow> bool" where
  "isSource ps f \<longleftrightarrow> (if \<exists>g \<in> set ps. p_container (pf_plan g) = ''safetensors'' then p_container (pf_plan f) = ''safetensors''
     else startsWith (p_container (pf_plan f)) ''torch'')"

definition itemsIn :: "pfile \<Rightarrow> item list result" where
  "itemsIn f = andThen (emissionOrder (pf_plan f)) (\<lambda>order. Inr (map (itemOf (pf_path f) (pf_plan f)) order))"

definition itemList :: "pfile list \<Rightarrow> item list result" where
  "itemList ps = andThen (mapResult itemsIn (filter (isSource ps) ps)) (\<lambda>xs. Inr (concat xs))"

definition renderable :: "item list \<Rightarrow> bool" where
  "renderable its \<longleftrightarrow> its \<noteq> [] \<and> list_all (\<lambda>t. case it_dtype t of Some (JStr d) \<Rightarrow> d \<in> set RENDERABLE | _ \<Rightarrow> False) its
     \<and> distinct (map it_name its)"

definition FORMATS :: "string list" where "FORMATS = [''safetensors'', ''safetensors-sharded'']"

definition formatsFor :: "string list \<Rightarrow> item list \<Rightarrow> (string \<times> rformat) list result" where
  "formatsFor formats its = (if renderable its
     then andThen (mapResult (\<lambda>k. andThen (planFormat k its (2 ^ 30)) (\<lambda>p. Inr (k, p))) formats) (\<lambda>kps. Inr (fromEntries kps))
     else Inr [])"

subsection \<open>The pass\<close>

record feeding =
  fd_lanes :: "lane list"
  fd_samples :: "(string \<times> sampler) list"

definition sampledType :: "tensor \<Rightarrow> bool" where
  "sampledType t \<longleftrightarrow> (case t_dtype t of Some v \<Rightarrow> SAMPLED (toText v) | None \<Rightarrow> SAMPLED ''undefined'')"

text \<open>A sample whose update never returns is \<open>Unmodelled\<close>; so are types that are no text and shapes that are no list of natural numbers.\<close>

definition feedSample :: "string \<Rightarrow> tensor \<Rightarrow> bytes \<Rightarrow> feeding \<Rightarrow> feeding result" where
  "feedSample key t c fd = (if \<not> sampledType t then Inr fd else
     case (t_dtype t, shapeOf t) of
       (Some (JStr d), Some shape) \<Rightarrow>
         andThen (case map_of (fd_samples fd) key of Some s \<Rightarrow> Inr s | None \<Rightarrow> newSample d shape) (\<lambda>s.
           case updateSample c s of None \<Rightarrow> Inl Unmodelled | Some s' \<Rightarrow> Inr (fd\<lparr>fd_samples := AList.update key s' (fd_samples fd)\<rparr>))
     | _ \<Rightarrow> Inl Unmodelled)"

definition emitFile :: "bool \<Rightarrow> pfile \<Rightarrow> nat \<Rightarrow> bytes \<Rightarrow> feeding \<Rightarrow> feeding result" where
  "emitFile feeds f i c fd =
     andThen (if feeds then andThen (feedFile (pf_path f) i c (fd_lanes fd)) (\<lambda>ls. Inr (fd\<lparr>fd_lanes := ls\<rparr>)) else Inr fd) (\<lambda>fd1.
       feedSample (keyOf (pf_path f) i) (p_tensors (pf_plan f) ! i) c fd1)"

definition emitterOf :: "bool \<Rightarrow> pfile \<Rightarrow> feeding emitter" where
  "emitterOf feeds f = (if feeds \<or> list_ex sampledType (p_tensors (pf_plan f)) then Some (emitFile feeds f) else None)"

definition passFile :: "'w tools \<Rightarrow> string \<Rightarrow> string \<Rightarrow> bool \<Rightarrow> pfile \<Rightarrow> feeding \<Rightarrow> ('w, hashedFile \<times> feeding) act" where
  "passFile tls repo rv feeds f fd = (\<lambda>(w, dk). case streamRange (tl_net tls) (signedFile tls repo rv (pf_path f)) 0 (pf_size f) w of
     None \<Rightarrow> None
   | Some (w1, cs, e) \<Rightarrow> Some ((w1, dk), Hashpass.hashFile (tl_raw tls) (pf_plan f) (pf_size f) (emitterOf feeds f) cs e fd))"

definition differs :: "pfile \<Rightarrow> hashedFile \<Rightarrow> js_error" where
  "differs f r = Error (pf_path f @ '': sha256 '' @ hf_digest r @ '' differs from Hugging Face's '' @ pf_oid f @ ''; refused'')"

definition hashOne :: "'w tools \<Rightarrow> string \<Rightarrow> string \<Rightarrow> (pfile \<Rightarrow> bool) \<Rightarrow> (string \<times> hashedFile) list \<times> feeding \<Rightarrow> pfile \<Rightarrow> ('w, (string \<times> hashedFile) list \<times> feeding) act" where
  "hashOne tls repo rv feeds acc f = bind (passFile tls repo rv (feeds f) f (snd acc)) (\<lambda>(r, fd).
     if hf_digest r \<noteq> ''sha256:'' @ pf_oid f then throw (differs f r) else
     bind (mapIO (\<lambda>db. store (snd db)) (hf_literals r)) (\<lambda>_. ret (fst acc @ [(pf_path f, r)], fd)))"

text \<open>Sources of the renders first, in order, the rest after.\<close>

definition passOrder :: "pfile list \<Rightarrow> pfile list" where
  "passOrder ps = filter (isSource ps) ps @ filter (\<lambda>f. \<not> isSource ps f) ps"

definition hashAll :: "'w tools \<Rightarrow> string \<Rightarrow> string \<Rightarrow> bool \<Rightarrow> (string \<times> rformat) list \<Rightarrow> pfile list \<Rightarrow> ('w, (string \<times> hashedFile) list \<times> feeding) act" where
  "hashAll tls repo rv renders fmts ps = foldIO (hashOne tls repo rv (\<lambda>f. renders \<and> isSource ps f))
     ([], \<lparr>fd_lanes = newRender fmts, fd_samples = []\<rparr>) (passOrder ps)"

subsection \<open>Small files\<close>

definition keepSmall :: "'w tools \<Rightarrow> string \<Rightarrow> string \<Rightarrow> hfFile \<Rightarrow> ('w, hfFile \<times> string) act" where
  "keepSmall tls repo rv f = bind (onNet (whole (tl_net tls) (tl_env tls) repo rv (hf_path f))) (\<lambda>b.
     if length b \<noteq> hf_size f then throw (Error (hf_path f @ '': '' @ decimal (length b) @ '' bytes, tree says '' @ decimal (hf_size f))) else
     bind (store b) (\<lambda>s. if hf_oid f \<noteq> None \<and> sd_digest s \<noteq> ''sha256:'' @ the (hf_oid f)
       then throw (Error (hf_path f @ '': sha256 differs from its LFS oid'')) else ret (f, sd_digest s)))"

subsection \<open>The model's own identity\<close>

definition typeText :: "json option \<Rightarrow> string" where
  "typeText v = (case v of Some x \<Rightarrow> toText x | None \<Rightarrow> ''undefined'')"

definition shapeText :: "json option \<Rightarrow> string" where
  "shapeText v = (case v of Some x \<Rightarrow> stringify x | None \<Rightarrow> ''undefined'')"

definition kappaText :: "string option \<Rightarrow> string" where
  "kappaText k = (case k of Some d \<Rightarrow> d | None \<Rightarrow> ''null'')"

definition canonicalLine :: "tensor \<times> string option \<Rightarrow> string" where
  "canonicalLine tk = typeText (t_dtype (fst tk)) @ ''|'' @ shapeText (t_shape (fst tk)) @ ''|'' @ kappaText (snd tk)"

definition canonicalBytes :: "(tensor \<times> string option) list \<Rightarrow> bytes" where
  "canonicalBytes tks = utf8 (join [CHR 0x0A] (sort (remdups (map canonicalLine tks))))"

definition canonicalKappa :: "(tensor \<times> string option) list \<Rightarrow> string" where
  "canonicalKappa tks = named (canonicalBytes tks)"

subsection \<open>What is sealed\<close>

type_synonym hashedFiles = "(pfile \<times> hashedFile) list"

definition T_MANIFEST :: string where "T_MANIFEST = ''application/vnd.oci.image.manifest.v1+json''"
definition T_INDEX :: string where "T_INDEX = ''application/vnd.oci.image.index.v1+json''"
definition T_MODEL :: string where "T_MODEL = ''application/vnd.hologram.model.v1''"
definition T_TENSORS :: string where "T_TENSORS = ''application/vnd.hologram.tensors.v1+json''"
definition T_FILE :: string where "T_FILE = ''application/octet-stream''"
definition TITLE :: string where "TITLE = ''org.opencontainers.image.title''"

definition orNull :: "json option \<Rightarrow> json" where "orNull v = (case v of Some x \<Rightarrow> x | None \<Rightarrow> JNull)"
definition textOrNull :: "string option \<Rightarrow> json" where "textOrNull v = (case v of Some x \<Rightarrow> JStr x | None \<Rightarrow> JNull)"

definition kindText :: "segKind \<Rightarrow> string" where
  "kindText k = (case k of Containers.Literal \<Rightarrow> ''l'' | Containers.Tensor \<Rightarrow> ''t'' | Containers.Storage \<Rightarrow> ''s'')"

definition tensorsOf :: "pfile \<times> hashedFile \<Rightarrow> (tensor \<times> string option) list" where
  "tensorsOf fr = zip (p_tensors (pf_plan (fst fr))) (hf_kappa (snd fr))"

definition kappasOf :: "hashedFiles \<Rightarrow> string \<Rightarrow> string option option" where
  "kappasOf hs = map_of (rev (concat (map (\<lambda>fr. map (\<lambda>(i, tk). (keyOf (pf_path (fst fr)) i, snd tk)) (enumerate 0 (tensorsOf fr))) hs)))"

definition subJson :: "sub \<Rightarrow> json" where
  "subJson u = JObj ([(''o'', JNum (u_o u))] @ (case u_stride u of Some st \<Rightarrow> [(''stride'', JArr (map JNum st))] | None \<Rightarrow> []) @ [(''itemsize'', JNum (u_itemsize u))])"

definition fileIdx :: "hashedFiles \<Rightarrow> string \<Rightarrow> nat" where
  "fileIdx hs path = the (map_of (rev (zip (map (\<lambda>fr. pf_path (fst fr)) hs) [0..<length hs])) path)"

definition tableRow :: "nat \<Rightarrow> tensor \<times> string option \<Rightarrow> json" where
  "tableRow k tk = (let t = fst tk in JArr ([JNum (int k), JStr (t_name t), orNull (t_dtype t), orNull (t_shape t), textOrNull (snd tk), JNum (t_len t)]
     @ (case t_sub t of Some u \<Rightarrow> [subJson u] | None \<Rightarrow> [])))"

definition tableRows :: "hashedFiles \<Rightarrow> json list" where
  "tableRows hs = concat (map (\<lambda>fr. map (tableRow (fileIdx hs (pf_path (fst fr)))) (tensorsOf fr)) hs)"

definition segJson :: "hashedSeg \<Rightarrow> json" where
  "segJson s = JArr [JStr (kindText (hs_kind s)), JStr (hs_digest s), JNum (hs_len s), JNum (hs_off s)]"

definition layoutJson :: "pfile \<Rightarrow> hashedFile \<Rightarrow> json" where
  "layoutJson f r = JObj [(''v'', JNum 1), (''file'', JStr (pf_path f)), (''digest'', JStr (''sha256:'' @ pf_oid f)), (''size'', JNum (int (pf_size f))),
     (''container'', JStr (p_container (pf_plan f))), (''segments'', JArr (map segJson (hf_segments r)))]"

text \<open>\<open>Buffer.toString("base64")\<close>.\<close>

definition sextet :: "nat \<Rightarrow> char" where
  "sextet n = (''ABCDEFGHIJKLMNOPQRSTUVWXYZabcdefghijklmnopqrstuvwxyz0123456789+/'' ! n)"

fun base64 :: "bytes \<Rightarrow> string" where
  "base64 [] = []"
| "base64 [a] = (let n = unat a * 16 in [sextet (n div 64), sextet (n mod 64), CHR ''='', CHR ''=''])"
| "base64 [a, b] = (let n = (unat a * 256 + unat b) * 4 in [sextet (n div 4096), sextet (n div 64 mod 64), sextet (n mod 64), CHR ''=''])"
| "base64 (a # b # c # bs) = (let n = (unat a * 256 + unat b) * 256 + unat c in
     [sextet (n div 262144), sextet (n div 4096 mod 64), sextet (n div 64 mod 64), sextet (n mod 64)] @ base64 bs)"

definition shapeJson :: "nat list \<Rightarrow> json" where "shapeJson ns = JArr (map (\<lambda>n. JNum (int n)) ns)"

definition provRow :: "string option \<Rightarrow> nat list \<Rightarrow> sampled \<Rightarrow> json result" where
  "provRow kappa shape r = (case sm_sign r of None \<Rightarrow> Inl TypeError
   | Some (h, _) \<Rightarrow> Inr (JArr [textOrNull kappa, shapeJson shape, JStr (sm_narrowDtype r), JStr (sm_narrow r), JStr (base64 (hexToBytes h)),
       JArr (case sm_blocks r of Some bs \<Rightarrow> map (\<lambda>(d, n). JArr [JStr d, JNum (int n)]) bs | None \<Rightarrow> [])]))"

text \<open>One row for each distinct pair of \<open>\<kappa>\<close> and shape; \<open>undefined\<close> is a key the table has not.\<close>

fun provRows :: "(string \<Rightarrow> string option option) \<Rightarrow> (string \<times> sampler) list \<Rightarrow> (string \<times> json) list \<Rightarrow> (string \<times> json) list result" where
  "provRows kof [] rws = Inr rws"
| "provRows kof ((key, s) # ss) rws = (case kof key of None \<Rightarrow> Inl Unmodelled | Some kappa \<Rightarrow>
     (let k = kappaText kappa @ ''|'' @ stringify (shapeJson (ts_shape s)) in
      if k \<in> fst ` set rws then provRows kof ss rws
      else andThen (resultSample s) (\<lambda>r. andThen (provRow kappa (ts_shape s) r) (\<lambda>row. provRows kof ss (rws @ [(k, row)])))))"

definition METHOD :: string where
  "METHOD = ''hologram.provenance/v1: narrowest exact dtype of BF16, F16, F32; sign bits at floor(k*n/4096), k<4096, MSB-first; sha256 per 1024 rows of the narrow payload''"

definition provJson :: "string \<Rightarrow> string \<Rightarrow> (string \<times> json) list \<Rightarrow> json" where
  "provJson repo rv rws = JObj [(''v'', JNum 1), (''repo'', JStr repo), (''revision'', JStr rv), (''method'', JStr METHOD), (''rows'', JArr (map snd rws))]"

definition canonSet :: "pfile list \<Rightarrow> hashedFiles \<Rightarrow> (tensor \<times> string option) list" where
  "canonSet ps hs = (let src = filter (isSource ps) ps in
     concat (map tensorsOf (if src \<noteq> [] then filter (\<lambda>fr. pf_path (fst fr) \<in> pf_path ` set src) hs else hs)))"

definition pieceLists :: "hashedFiles \<Rightarrow> (string \<times> string list) list" where
  "pieceLists hs = fold (\<lambda>fr. fold (\<lambda>sg m. case hs_pieces sg of
     Some ps \<Rightarrow> if hs_digest sg \<in> fst ` set m then m else m @ [(hs_digest sg, ps)] | None \<Rightarrow> m) (hf_segments (snd fr))) hs []"

definition piecesJson :: "(string \<times> string list) list \<Rightarrow> json" where
  "piecesJson m = JObj [(''v'', JNum 1), (''piece'', JNum (int PIECE)),
     (''of'', JObj (fromEntries (map (\<lambda>k. (k, JArr (map JStr (the (map_of m k))))) (sort (map fst m)))))]"

definition tableJson :: "string \<Rightarrow> string \<Rightarrow> string option \<Rightarrow> hashedFiles \<Rightarrow> string option \<Rightarrow> json" where
  "tableJson repo rv canon hs pieces = JObj ([(''v'', JNum 1), (''repo'', JStr repo), (''revision'', JStr rv), (''canonical'', textOrNull canon),
     (''files'', JArr (map (\<lambda>fr. JStr (pf_path (fst fr))) hs)), (''tensors'', JArr (tableRows hs))]
     @ (case pieces of Some d \<Rightarrow> [(''pieces'', JStr d)] | None \<Rightarrow> []))"

definition annotJson :: "string \<Rightarrow> string \<Rightarrow> string option \<Rightarrow> string \<Rightarrow> json" where
  "annotJson repo rv canon fmt = JObj ([(''org.hologram.format'', JStr fmt), (''org.hologram.repo'', JStr repo), (''org.hologram.revision'', JStr rv)]
     @ (case canon of Some d \<Rightarrow> [(''org.hologram.canonical'', JStr d)] | None \<Rightarrow> [])
     @ [(''org.opencontainers.image.source'', JStr (''https://huggingface.co/'' @ repo @ ''/tree/'' @ rv))])"

subsection \<open>Manifests\<close>

record olayer =
  ol_path :: string
  ol_digest :: string
  ol_size :: nat
  ol_layout :: "string option"

definition layerJson :: "olayer \<Rightarrow> json" where
  "layerJson l = JObj [(''mediaType'', JStr T_FILE), (''digest'', JStr (ol_digest l)), (''size'', JNum (int (ol_size l))),
     (''annotations'', JObj ((TITLE, JStr (ol_path l)) # (case ol_layout l of Some d \<Rightarrow> [(''org.hologram.layout'', JStr d)] | None \<Rightarrow> [])))]"

record brow =
  bw_path :: string
  bw_size :: nat
  bw_layout :: "string option"
  bw_upstream :: bool
  bw_held :: bool
  bw_sameAs :: "string list"

definition browOf :: "string \<Rightarrow> nat \<Rightarrow> string option \<Rightarrow> bool \<Rightarrow> bool \<Rightarrow> brow" where
  "browOf path sz lay up hld = \<lparr>bw_path = path, bw_size = sz, bw_layout = lay, bw_upstream = up, bw_held = hld, bw_sameAs = []\<rparr>"

type_synonym brows = "(string \<times> brow) list"
type_synonym listing = "olayer list \<times> brows"

text \<open>\<open>blobs[digest] = row\<close> with the layer pushed, in the order of the code.\<close>

definition addLayer :: "olayer \<Rightarrow> brow \<Rightarrow> listing \<Rightarrow> listing" where
  "addLayer l b acc = (fst acc @ [l], setProp (snd acc) (ol_digest l) b)"

definition layerOf :: "string \<Rightarrow> string \<Rightarrow> nat \<Rightarrow> string option \<Rightarrow> olayer" where
  "layerOf path d sz lay = \<lparr>ol_path = path, ol_digest = d, ol_size = sz, ol_layout = lay\<rparr>"

definition smallLayers :: "(string \<Rightarrow> bool) \<Rightarrow> (hfFile \<times> string) list \<Rightarrow> listing \<Rightarrow> listing" where
  "smallLayers keep smalls acc = fold (\<lambda>(f, d). addLayer (layerOf (hf_path f) d (hf_size f) None) (browOf (hf_path f) (hf_size f) None False True))
     (filter (\<lambda>(f, d). keep (hf_path f)) smalls) acc"

definition weightLayer :: "pfile \<times> string \<Rightarrow> listing \<Rightarrow> listing" where
  "weightLayer fl acc = (let f = fst fl in addLayer (layerOf (pf_path f) (''sha256:'' @ pf_oid f) (pf_size f) (Some (snd fl)))
     (browOf (pf_path f) (pf_size f) (Some (snd fl)) True False) acc)"

definition otherLayer :: "hfFile \<Rightarrow> listing \<Rightarrow> listing" where
  "otherLayer f acc = (let d = ''sha256:'' @ the (hf_oid f) in addLayer (layerOf (hf_path f) d (hf_size f) None) (browOf (hf_path f) (hf_size f) None True False) acc)"

definition originalLayers :: "(pfile \<times> string) list \<Rightarrow> hfFile list \<Rightarrow> (hfFile \<times> string) list \<Rightarrow> listing" where
  "originalLayers fls others smalls = (let (ls, bs) = smallLayers (\<lambda>_. True) smalls (fold otherLayer others (fold weightLayer fls ([], [])))
     in (sort_key ol_path ls, bs))"

definition manifestJson :: "stored \<Rightarrow> olayer list \<Rightarrow> json \<Rightarrow> json" where
  "manifestJson tab ls annot = JObj [(''schemaVersion'', JNum 2), (''mediaType'', JStr T_MANIFEST), (''artifactType'', JStr T_MODEL),
     (''config'', JObj [(''mediaType'', JStr T_TENSORS), (''digest'', JStr (sd_digest tab)), (''size'', JNum (int (sd_size tab)))]),
     (''layers'', JArr (map layerJson ls)), (''annotations'', annot)]"

definition sealManifest :: "stored \<Rightarrow> (string \<Rightarrow> json) \<Rightarrow> string \<Rightarrow> olayer list \<Rightarrow> (string \<times> stored) list \<Rightarrow> ('w, (string \<times> stored) list) act" where
  "sealManifest tab annot fmt ls ms = bind (storeJson (manifestJson tab ls (annot fmt))) (\<lambda>s. ret (setProp ms fmt s))"

text \<open>Where a tensor of a render lies in an original file, and whether it is cut out of a storage; nothing for an empty one.\<close>

definition srcRef :: "pfile \<Rightarrow> hashedFile \<Rightarrow> tensor \<Rightarrow> (bool \<times> json) option result" where
  "srcRef f r t = (if t_seg t < 0 then Inr None else if length (hf_segments r) \<le> nat (t_seg t) then Inl TypeError else
     let sg = hf_segments r ! nat (t_seg t) in Inr (Some (case t_sub t of
       Some u \<Rightarrow> (True, JObj ([(''f'', JStr (pf_path f)), (''o'', JNum (hs_off sg)), (''n'', JNum (hs_len sg)), (''s'', JStr (hs_digest sg)), (''sub'', subJson u)]
         @ (case t_shape t of Some v \<Rightarrow> [(''shape'', v)] | None \<Rightarrow> [])))
     | None \<Rightarrow> (False, JObj [(''f'', JStr (pf_path f)), (''o'', JNum (hs_off sg))]))))"

definition srcRefs :: "pfile \<times> hashedFile \<Rightarrow> (string \<times> (bool \<times> json) option) list result" where
  "srcRefs fr = mapResult (\<lambda>(i, t). andThen (srcRef (fst fr) (snd fr) t) (\<lambda>x. Inr (keyOf (pf_path (fst fr)) i, x)))
     (enumerate 0 (p_tensors (pf_plan (fst fr))))"

definition srcMap :: "pfile list \<Rightarrow> hashedFiles \<Rightarrow> (string \<Rightarrow> (bool \<times> json) option option) result" where
  "srcMap ps hs = andThen (mapResult srcRefs (filter (\<lambda>fr. isSource ps (fst fr)) hs)) (\<lambda>xs. Inr (map_of (rev (concat xs))))"

definition renderSeg :: "(string \<Rightarrow> string option option) \<Rightarrow> (string \<Rightarrow> (bool \<times> json) option option) \<Rightarrow> item \<Rightarrow> json list result" where
  "renderSeg kof srcs t = (if it_len t = 0 then Inr [] else case srcs (it_key t) of
     Some (Some (v, at)) \<Rightarrow> Inr [JArr [JStr (if v then ''v'' else ''t''), textOrNull (case kof (it_key t) of Some k \<Rightarrow> k | None \<Rightarrow> None), JNum (int (it_len t)), at]]
   | _ \<Rightarrow> Inl TypeError)"

definition renderLayout :: "string \<Rightarrow> rfile \<Rightarrow> rendered \<Rightarrow> string \<Rightarrow> json list \<Rightarrow> json" where
  "renderLayout fmt o' out header sgs = JObj [(''v'', JNum 1), (''file'', JStr (ou_path o')), (''digest'', JStr (re_digest out)), (''size'', JNum (int (re_size out))),
     (''container'', JStr ''safetensors''), (''render'', JStr fmt),
     (''segments'', JArr (JArr [JStr ''l'', JStr header, JNum (int (length (ou_header o')))] # sgs))]"

definition noteRender :: "string \<Rightarrow> rfile \<Rightarrow> rendered \<Rightarrow> string \<Rightarrow> brows \<Rightarrow> brows" where
  "noteRender fmt o' out lay bs = (case map_of bs (re_digest out) of
     None \<Rightarrow> setProp bs (re_digest out) (browOf (ou_path o') (re_size out) (Some lay) False False)
   | Some b \<Rightarrow> setProp bs (re_digest out) (b\<lparr>bw_sameAs := bw_sameAs b @ [fmt @ CHR '':'' # ou_path o']\<rparr>))"

definition sealOutput :: "(string \<Rightarrow> string option option) \<Rightarrow> (string \<Rightarrow> (bool \<times> json) option option) \<Rightarrow> string \<Rightarrow> listing \<Rightarrow> rfile \<times> rendered \<Rightarrow> ('w, listing) act" where
  "sealOutput kof srcs fmt acc oo = (let o' = fst oo; out = snd oo in
     bind (store (ou_header o')) (\<lambda>h.
     bind (lift (mapResult (renderSeg kof srcs) (ou_tensors o'))) (\<lambda>sgs.
     bind (storeJson (renderLayout fmt o' out (sd_digest h) (concat sgs))) (\<lambda>lay.
     ret (fst acc @ [layerOf (ou_path o') (re_digest out) (re_size out) (Some (sd_digest lay))], noteRender fmt o' out (sd_digest lay) (snd acc))))))"

definition sealExtra :: "listing \<Rightarrow> string \<times> bytes \<Rightarrow> ('w, listing) act" where
  "sealExtra acc x = bind (store (snd x)) (\<lambda>s.
     ret (fst acc @ [layerOf (fst x) (sd_digest s) (sd_size s) None],
       case map_of (snd acc) (sd_digest s) of Some _ \<Rightarrow> snd acc | None \<Rightarrow> setProp (snd acc) (sd_digest s) (browOf (fst x) (sd_size s) None False True)))"

text \<open>An output that was not rendered: its header is stored and its segments are looked up before \<open>out[k].digest\<close> throws.\<close>

definition sealUnrendered :: "(string \<Rightarrow> string option option) \<Rightarrow> (string \<Rightarrow> (bool \<times> json) option option) \<Rightarrow> rfile \<Rightarrow> ('w, unit) act" where
  "sealUnrendered kof srcs o' = bind (store (ou_header o')) (\<lambda>h. bind (lift (mapResult (renderSeg kof srcs) (ou_tensors o'))) (\<lambda>sgs. throw TypeError))"

definition sealFormat :: "(string \<Rightarrow> string option option) \<Rightarrow> (string \<Rightarrow> (bool \<times> json) option option) \<Rightarrow> stored \<Rightarrow> (string \<Rightarrow> json) \<Rightarrow> (hfFile \<times> string) list
    \<Rightarrow> (string \<times> rendered list) list \<Rightarrow> brows \<times> (string \<times> stored) list \<Rightarrow> string \<times> rformat \<Rightarrow> ('w, brows \<times> (string \<times> stored) list) act" where
  "sealFormat kof srcs tab annot smalls outs acc fp = (let rs = (case map_of outs (fst fp) of Some rs \<Rightarrow> rs | None \<Rightarrow> []) in
     bind (foldIO (sealOutput kof srcs (fst fp)) ([], fst acc) (zip (fo_outputs (snd fp)) rs)) (\<lambda>a1.
     bind (case drop (length rs) (fo_outputs (snd fp)) of [] \<Rightarrow> ret () | o' # _ \<Rightarrow> sealUnrendered kof srcs o') (\<lambda>_.
     bind (foldIO sealExtra a1 (fo_extras (snd fp))) (\<lambda>a2.
     let a3 = smallLayers (\<lambda>p. \<not> FOREIGN p) smalls a2 in
     bind (sealManifest tab annot (fst fp) (fst a3) (snd acc)) (\<lambda>ms. ret (snd a3, ms))))))"

definition indexJson :: "json \<Rightarrow> (string \<times> stored) list \<Rightarrow> json" where
  "indexJson annot ms = JObj [(''schemaVersion'', JNum 2), (''mediaType'', JStr T_INDEX), (''artifactType'', JStr T_MODEL),
     (''manifests'', JArr (map (\<lambda>(fmt, s). JObj [(''mediaType'', JStr T_MANIFEST), (''digest'', JStr (sd_digest s)), (''size'', JNum (int (sd_size s))),
        (''artifactType'', JStr T_MODEL), (''annotations'', JObj [(''org.hologram.format'', JStr fmt)])]) ms)),
     (''annotations'', annot)]"

subsection \<open>The whole run\<close>

record indexed =
  ix_repo :: string
  ix_rev :: string
  ix_index :: string
  ix_table :: string
  ix_canonical :: "string option"
  ix_provenance :: "string option"
  ix_pieces :: "string option"
  ix_manifests :: "(string \<times> string) list"
  ix_blobs :: brows
  ix_sources :: "json list"
  ix_tensors :: nat
  ix_weightBytes :: nat
  ix_files :: "(pfile \<times> string) list"
  ix_renders :: "(string \<times> rendered list) list"
  ix_license :: "json option"

definition storeSome :: "json option \<Rightarrow> ('w, string option) act" where
  "storeSome v = (case v of None \<Rightarrow> ret None | Some j \<Rightarrow> bind (storeJson j) (\<lambda>s. ret (Some (sd_digest s))))"

definition sealCanon :: "(tensor \<times> string option) list \<Rightarrow> ('w, string option) act" where
  "sealCanon tks = (if tks = [] then ret None else bind (store (canonicalBytes tks)) (\<lambda>s. ret (Some (sd_digest s))))"

definition sealLayouts :: "hashedFiles \<Rightarrow> ('w, (pfile \<times> string) list) act" where
  "sealLayouts hs = mapIO (\<lambda>(f, r). bind (storeJson (layoutJson f r)) (\<lambda>s. ret (f, sd_digest s))) hs"

definition sealProvenance :: "string \<Rightarrow> string \<Rightarrow> hashedFiles \<Rightarrow> (string \<times> sampler) list \<Rightarrow> ('w, string option) act" where
  "sealProvenance repo rv hs samples = bind (lift (provRows (kappasOf hs) samples [])) (\<lambda>rws.
     storeSome (if rws = [] then None else Some (provJson repo rv rws)))"

text \<open>\<open>tags.find(t => t.startsWith("license:"))?.slice(8)\<close>.\<close>

definition licenseOf :: "json \<Rightarrow> json option result" where
  "licenseOf meta = (let l = (case getProp ''cardData'' meta of Some c \<Rightarrow> getProp ''license'' c | None \<Rightarrow> None) in
     if \<not> falsy l then Inr l else (case getProp ''tags'' meta of
       None \<Rightarrow> Inr None
     | Some JNull \<Rightarrow> Inr None
     | Some (JArr ts) \<Rightarrow> (case List.find (\<lambda>t. case t of JStr x \<Rightarrow> startsWith x ''license:'' | _ \<Rightarrow> True) ts of
         None \<Rightarrow> Inr None
       | Some (JStr x) \<Rightarrow> Inr (if drop 8 x = [] then None else Some (JStr (drop 8 x)))
       | Some _ \<Rightarrow> Inl TypeError)
     | Some _ \<Rightarrow> Inl TypeError))"

definition sourceRows :: "string \<Rightarrow> string \<Rightarrow> hashedFiles \<Rightarrow> json list" where
  "sourceRows repo rv hs = concat (map (\<lambda>fr. map (\<lambda>s. JArr [JStr (hs_digest s), JStr repo, JStr rv, JStr (pf_path (fst fr)), JNum (hs_off s), JNum (hs_len s)])
     (filter (\<lambda>s. hs_kind s \<noteq> Containers.Literal) (hf_segments (snd fr)))) hs)"

record sealing =
  se_layouts :: "(pfile \<times> string) list"
  se_prov :: "string option"
  se_canon :: "string option"
  se_pieces :: "string option"
  se_table :: stored

text \<open>Layouts, provenance, the model's identity, pieces and the table, in this order.\<close>

definition sealTable :: "string \<Rightarrow> string \<Rightarrow> pfile list \<Rightarrow> hashedFiles \<Rightarrow> (string \<times> sampler) list \<Rightarrow> ('w, sealing) act" where
  "sealTable repo rv ps hs samples =
     bind (sealLayouts hs) (\<lambda>lays.
     bind (sealProvenance repo rv hs samples) (\<lambda>prov.
     bind (sealCanon (canonSet ps hs)) (\<lambda>canon.
     bind (storeSome (if pieceLists hs = [] then None else Some (piecesJson (pieceLists hs)))) (\<lambda>pcs.
     bind (storeJson (tableJson repo rv canon hs pcs)) (\<lambda>tab.
     ret \<lparr>se_layouts = lays, se_prov = prov, se_canon = canon, se_pieces = pcs, se_table = tab\<rparr>)))))"

text \<open>The manifests, the original first, and the index over them.\<close>

definition sealIndex :: "string \<Rightarrow> string \<Rightarrow> pfile list \<Rightarrow> hashedFiles \<Rightarrow> hfFile list \<Rightarrow> (hfFile \<times> string) list \<Rightarrow> (string \<times> rformat) list
    \<Rightarrow> (string \<times> rendered list) list \<Rightarrow> sealing \<Rightarrow> ('w, brows \<times> (string \<times> stored) list \<times> stored) act" where
  "sealIndex repo rv ps hs others smalls fmts outs se = (let annot = annotJson repo rv (se_canon se); orig = originalLayers (se_layouts se) others smalls in
     bind (sealManifest (se_table se) annot ''original'' (fst orig) []) (\<lambda>ms.
     bind (lift (srcMap ps hs)) (\<lambda>srcs.
     bind (foldIO (sealFormat (kappasOf hs) srcs (se_table se) annot smalls outs) (snd orig, ms) fmts) (\<lambda>acc.
     bind (storeJson (indexJson (annot ''index'') (snd acc))) (\<lambda>ix. ret (fst acc, snd acc, ix))))))"

text \<open>The files in the order of the plan, each with what the pass found.\<close>

definition hashedIn :: "pfile list \<Rightarrow> (string \<times> hashedFile) list \<Rightarrow> hashedFiles" where
  "hashedIn ps got = map (\<lambda>f. (f, the (map_of (rev got) (pf_path f)))) ps"

definition revOf :: "string \<Rightarrow> json \<Rightarrow> string result" where
  "revOf pin meta = (if pin \<noteq> [] then Inr pin else case getProp ''sha'' meta of Some (JStr s) \<Rightarrow> Inr s | _ \<Rightarrow> Inl Unmodelled)"

definition indexFiles :: "'w tools \<Rightarrow> string \<Rightarrow> string \<Rightarrow> string list \<Rightarrow> json \<Rightarrow> planning \<Rightarrow> ('w, indexed) act" where
  "indexFiles tls repo rv formats meta pn = (let ps = pn_planned pn in
     bind (lift (itemList ps)) (\<lambda>its.
     bind (lift (formatsFor formats its)) (\<lambda>fmts.
     bind (hashAll tls repo rv (renderable its) fmts ps) (\<lambda>(got, fd).
     bind (lift (if renderable its then finishRender (fd_lanes fd) else Inr [])) (\<lambda>outs.
     bind (mapIO (keepSmall tls repo rv) (pn_small pn)) (\<lambda>smalls.
     let hs = hashedIn ps got in
     bind (sealTable repo rv ps hs (fd_samples fd)) (\<lambda>se.
     bind (sealIndex repo rv ps hs (pn_other pn) smalls fmts outs se) (\<lambda>(bs, ms, ix).
     bind (lift (licenseOf meta)) (\<lambda>lic.
     ret \<lparr>ix_repo = repo, ix_rev = rv, ix_index = sd_digest ix, ix_table = sd_digest (se_table se), ix_canonical = se_canon se,
       ix_provenance = se_prov se, ix_pieces = se_pieces se, ix_manifests = map (\<lambda>(k, s). (k, sd_digest s)) ms, ix_blobs = bs,
       ix_sources = sourceRows repo rv hs, ix_tensors = sum_list (map (\<lambda>f. length (p_tensors (pf_plan f))) ps),
       ix_weightBytes = sum_list (map pf_size ps), ix_files = se_layouts se, ix_renders = outs, ix_license = lic\<rparr>)))))))))"

definition indexModel :: "'w tools \<Rightarrow> string \<Rightarrow> string \<Rightarrow> string list \<Rightarrow> ('w, indexed) act" where
  "indexModel tls repo pin formats =
     bind (onNet (info (tl_net tls) (tl_env tls) repo)) (\<lambda>meta.
     if meta = JNull then throw TypeError
     else if \<not> falsy (getProp ''gated'' meta) \<or> \<not> falsy (getProp ''private'' meta) then throw (Error ''gated or private'') else
     bind (lift (revOf pin meta)) (\<lambda>rv.
     bind (onNet (tree (tl_pages tls) (tl_net tls) (tl_env tls) repo rv)) (\<lambda>files.
     bind (planAll tls repo rv files) (\<lambda>pn. indexFiles tls repo rv formats meta pn))))"

end
