(* ===== verification/Indexed.thy ===== *)
theory Indexed
  imports Indexer Records
begin

text \<open>
  What an index run leaves (\<open>tensors/lib/model.mjs\<close>): every object that the returned index names as held is in the
  store; a sealed layout is read by the mirror as the file it was made from; and the model's own \<open>\<kappa>\<close> is that of
  the set of its tensors.
\<close>

subsection \<open>Actions that seal\<close>

definition held' :: "string set \<Rightarrow> disk \<Rightarrow> bool" where
  "held' A dk \<longleftrightarrow> sound dk \<and> (\<forall>d \<in> A. getObject dk d \<noteq> None)"

text \<open>Whatever the world: with \<open>A\<close> held before, an action that returns \<open>x\<close> leaves \<open>A\<close> and \<open>N x\<close> held, and loses nothing.\<close>

definition seals :: "string set \<Rightarrow> ('w, 'a) act \<Rightarrow> ('a \<Rightarrow> string set) \<Rightarrow> bool" where
  "seals A m N \<longleftrightarrow> (\<forall>w dk w' dk' r. m (w, dk) = Some ((w', dk'), r) \<longrightarrow> keeps dk dk' \<and> (\<forall>x. r = Inr x \<and> held' A dk \<longrightarrow> held' (A \<union> N x) dk'))"

lemma held_keeps: "held' A dk \<Longrightarrow> keeps dk dk' \<Longrightarrow> held' A dk'"
  by (fastforce simp: held'_def keeps_def)

lemma seals_bind:
  assumes "seals A m N" and "\<And>x. seals (A \<union> N x) (f x) M"
  shows "seals A (bind m f) M"
  unfolding seals_def
proof (intro allI impI)
  fix w dk w' dk' r assume "bind m f (w, dk) = Some ((w', dk'), r)"
  then consider (err) e where "m (w, dk) = Some ((w', dk'), Inl e)" "r = Inl e"
    | (ok) w1 dk1 x where "m (w, dk) = Some ((w1, dk1), Inr x)" "f x (w1, dk1) = Some ((w', dk'), r)"
    by (auto simp: bind_def split: option.splits sum.splits)
  then show "keeps dk dk' \<and> (\<forall>x. r = Inr x \<and> held' A dk \<longrightarrow> held' (A \<union> M x) dk')"
  proof cases
    case err
    then show ?thesis using assms(1) by (auto simp: seals_def)
  next
    case ok
    then have 1: "keeps dk dk1" "held' A dk \<Longrightarrow> held' (A \<union> N x) dk1" using assms(1) unfolding seals_def by blast+
    have 2: "keeps dk1 dk'" "\<And>y. r = Inr y \<Longrightarrow> held' (A \<union> N x) dk1 \<Longrightarrow> held' (A \<union> N x \<union> M y) dk'"
      using assms(2) [of x] ok(2) unfolding seals_def by blast+
    show ?thesis using 1 2 keeps_trans [OF 1(1) 2(1)] by (auto simp: held'_def)
  qed
qed

lemma seals_ret: "N x \<subseteq> A \<Longrightarrow> seals A (ret x) N"
  by (auto simp: seals_def ret_def held'_def)

lemma seals_throw [simp]: "seals A (throw e) N"
  by (simp add: seals_def throw_def)

lemma seals_lift: "(\<And>x. r = Inr x \<Longrightarrow> N x \<subseteq> A) \<Longrightarrow> seals A (lift r) N"
  by (auto simp: seals_def lift_def held'_def)

lemma seals_onNet [simp]: "seals A (onNet m) (\<lambda>_. {})"
  by (auto simp: seals_def onNet_def split: option.splits prod.splits)

lemma seals_weaken: "seals A m N \<Longrightarrow> (\<And>x. M x \<subseteq> A \<union> N x) \<Longrightarrow> A \<subseteq> B \<Longrightarrow> seals B m M"
proof -
  assume s: "seals A m N" and m: "\<And>x. M x \<subseteq> A \<union> N x" and b: "A \<subseteq> B"
  have "held' (B \<union> M x) dk'" if "held' B dk" "keeps dk dk'" "held' (A \<union> N x) dk'" for dk dk' x
    using held_keeps [OF that(1,2)] that(3) m [of x] by (auto simp: held'_def)
  moreover have "held' B dk \<Longrightarrow> held' A dk" for dk using b by (auto simp: held'_def)
  ultimately show ?thesis using s unfolding seals_def by blast
qed

lemma store_seals: "seals A (store buf) (\<lambda>s. {sd_digest s})"
proof -
  have "keeps dk dk' \<and> (held' A dk \<longrightarrow> held' (A \<union> {sd_digest s}) dk')" if "putObject buf dk = (s, dk')" for s dk dk'
    using put_keeps [OF that] put_get [OF _ that] held_keeps [of A dk dk'] by (auto simp: held'_def)
  then show ?thesis by (auto simp: seals_def store_def split: prod.splits)
qed

lemma storeJson_seals: "seals A (storeJson v) (\<lambda>s. {sd_digest s})"
  using store_seals [of A "utf8 (stringify v)"] by (simp add: store_def storeJson_def putJson_def)

lemma mapIO_seals:
  assumes "\<And>x B. x \<in> set xs \<Longrightarrow> A \<subseteq> B \<Longrightarrow> seals B (f x) N"
  shows "seals A (mapIO f xs) (\<lambda>ys. \<Union> (N ` set ys))"
  using assms
proof (induction xs arbitrary: A)
  case Nil
  then show ?case by (simp add: seals_ret)
next
  case (Cons x xs)
  have "seals A (bind (f x) (\<lambda>y. bind (mapIO f xs) (\<lambda>ys. ret (y # ys)))) (\<lambda>ys. \<Union> (N ` set ys))"
  proof (rule seals_bind)
    show "seals A (f x) N" using Cons.prems by simp
    show "seals (A \<union> N y) (bind (mapIO f xs) (\<lambda>ys. ret (y # ys))) (\<lambda>ys. \<Union> (N ` set ys))" for y
    proof (rule seals_bind)
      show "seals (A \<union> N y) (mapIO f xs) (\<lambda>ys. \<Union> (N ` set ys))" by (rule Cons.IH) (use Cons.prems in auto)
    qed (auto intro!: seals_ret)
  qed
  then show ?case by simp
qed

text \<open>A loop with an accumulator whose needs are kept by every turn.\<close>

lemma foldIO_seals:
  assumes "\<And>acc x B. x \<in> set xs \<Longrightarrow> A \<subseteq> B \<Longrightarrow> N acc \<subseteq> B \<Longrightarrow> seals B (f acc x) N" and "N acc \<subseteq> A"
  shows "seals A (foldIO f acc xs) N"
  using assms
proof (induction xs arbitrary: A acc)
  case Nil
  then show ?case by (simp add: seals_ret)
next
  case (Cons x xs)
  show ?case unfolding foldIO.simps
  proof (rule seals_bind)
    show "seals A (f acc x) N" using Cons.prems by simp
    show "seals (A \<union> N a) (foldIO f a xs) N" for a by (rule Cons.IH) (use Cons.prems(1) in auto)
  qed
qed

lemma seals_Let: "seals A (f x) N \<Longrightarrow> seals A (let y = x in f y) N" by simp

lemma seals_if: "(c \<Longrightarrow> seals A m N) \<Longrightarrow> (\<not> c \<Longrightarrow> seals A m' N) \<Longrightarrow> seals A (if c then m else m') N" by simp

lemma seals_keep: "seals {} m (\<lambda>_. {}) \<Longrightarrow> seals A m (\<lambda>_. {})"
  by (rule seals_weaken [of "{}" m "\<lambda>_. {}"]) simp_all

subsection \<open>The parts of a run\<close>

lemma planOne_seals: "seals A (planOne tls repo rv pn f) (\<lambda>_. {})"
  by (auto simp: planOne_def intro!: seals_bind [where N = "\<lambda>_. {}"] seals_ret split: option.splits)

lemma planAll_seals: "seals A (planAll tls repo rv files) (\<lambda>_. {})"
  unfolding planAll_def by (rule seals_bind [where N = "\<lambda>_. {}"], rule foldIO_seals, rule planOne_seals) (simp_all add: seals_ret)

lemma passFile_seals: "seals A (passFile tls repo rv feeds f fd) (\<lambda>_. {})"
  by (auto simp: seals_def passFile_def split: option.splits prod.splits)

lemma hashOne_seals: "seals A (hashOne tls repo rv feeds acc f) (\<lambda>_. {})"
proof -
  have "seals B (mapIO (\<lambda>db. store (snd db)) ls) (\<lambda>_. {})" for B and ls :: "(string \<times> bytes) list"
    by (rule seals_weaken [OF mapIO_seals [of ls B "\<lambda>db. store (snd db)" "\<lambda>_. {}"]]) (auto intro: seals_weaken [OF store_seals])
  then show ?thesis unfolding hashOne_def
    by (intro seals_bind [where N = "\<lambda>_. {}"] passFile_seals)
      (auto intro!: seals_if seals_bind [where N = "\<lambda>_. {}"] seals_ret split: prod.splits)
qed

lemma hashAll_seals: "seals A (hashAll tls repo rv renders fmts ps) (\<lambda>_. {})"
  unfolding hashAll_def by (rule foldIO_seals) (simp_all add: hashOne_seals)

lemma keepSmall_seals: "seals A (keepSmall tls repo rv f) (\<lambda>fd. {snd fd})"
  unfolding keepSmall_def
  by (intro seals_bind [where N = "\<lambda>_. {}"] seals_onNet seals_if seals_throw seals_bind [where N = "\<lambda>s. {sd_digest s}"] store_seals seals_ret) simp_all

text \<open>The objects a list of blobs says the hub holds: blobs kept whole, and layouts.\<close>

definition heldBlobs :: "brows \<Rightarrow> string set" where
  "heldBlobs bs = {d. \<exists>b. (d, b) \<in> set bs \<and> bw_held b} \<union> {l. \<exists>d b. (d, b) \<in> set bs \<and> bw_layout b = Some l}"

lemma heldBlobs_setProp: "heldBlobs (setProp bs k b) \<subseteq> heldBlobs bs \<union> (if bw_held b then {k} else {}) \<union> set_option (bw_layout b)"
  using set_setProp [of bs k b] by (fastforce simp: heldBlobs_def)

lemma addLayer_held: "heldBlobs (snd (addLayer l b acc)) \<subseteq> heldBlobs (snd acc) \<union> (if bw_held b then {ol_digest l} else {}) \<union> set_option (bw_layout b)"
  unfolding addLayer_def snd_conv by (rule heldBlobs_setProp)

lemma fold_held:
  assumes "\<And>x acc. x \<in> set xs \<Longrightarrow> heldBlobs (snd (f x acc)) \<subseteq> heldBlobs (snd acc) \<union> A"
  shows "heldBlobs (snd (fold f xs acc)) \<subseteq> heldBlobs (snd acc) \<union> A"
  using assms
proof (induction xs arbitrary: acc)
  case (Cons x xs)
  have "heldBlobs (snd (fold f xs (f x acc))) \<subseteq> heldBlobs (snd (f x acc)) \<union> A" using Cons by simp
  also have "\<dots> \<subseteq> heldBlobs (snd acc) \<union> A" using Cons.prems [of x acc] by auto
  finally show ?case by simp
qed simp

lemma smallLayers_held: "heldBlobs (snd (smallLayers keep smalls acc)) \<subseteq> heldBlobs (snd acc) \<union> snd ` set smalls"
  unfolding smallLayers_def
proof (rule fold_held)
  fix x and a :: listing assume "x \<in> set (filter (\<lambda>(f, d). keep (hf_path f)) smalls)"
  then have "x \<in> set smalls" by simp
  moreover obtain f d where fd: "x = (f, d)" by (cases x)
  ultimately have x: "x = (f, d)" "d \<in> snd ` set smalls" by (simp, metis imageI snd_conv)
  have "heldBlobs (snd (addLayer (layerOf (hf_path f) d (hf_size f) None) (browOf (hf_path f) (hf_size f) None False True) a)) \<subseteq> heldBlobs (snd a) \<union> {d}"
    using addLayer_held [of "layerOf (hf_path f) d (hf_size f) None" "browOf (hf_path f) (hf_size f) None False True" a] by (simp add: browOf_def layerOf_def)
  then show "heldBlobs (snd ((case x of (f, d) \<Rightarrow> addLayer (layerOf (hf_path f) d (hf_size f) None) (browOf (hf_path f) (hf_size f) None False True)) a))
      \<subseteq> heldBlobs (snd a) \<union> snd ` set smalls" using x by (simp only: case_prod_conv) blast
qed

lemma originalLayers_held: "heldBlobs (snd (originalLayers fls others smalls)) \<subseteq> snd ` set fls \<union> snd ` set smalls"
proof -
  let ?w = "fold weightLayer fls ([], [])"
  have w: "heldBlobs (snd ?w) \<subseteq> heldBlobs (snd ([] :: olayer list, [] :: brows)) \<union> snd ` set fls"
  proof (rule fold_held)
    fix x :: "pfile \<times> string" and a :: listing assume "x \<in> set fls"
    then show "heldBlobs (snd (weightLayer x a)) \<subseteq> heldBlobs (snd a) \<union> snd ` set fls"
      using addLayer_held [of _ "browOf (pf_path (fst x)) (pf_size (fst x)) (Some (snd x)) True False" a]
      unfolding weightLayer_def Let_def by (fastforce simp: browOf_def)
  qed
  have "heldBlobs (snd (fold otherLayer others ?w)) \<subseteq> heldBlobs (snd ?w) \<union> {}"
    by (rule fold_held) (use addLayer_held in \<open>fastforce simp: otherLayer_def Let_def browOf_def\<close>)
  moreover have "heldBlobs [] = {}" by (simp add: heldBlobs_def)
  moreover have "snd (originalLayers fls others smalls) = snd (smallLayers (\<lambda>_. True) smalls (fold otherLayer others ?w))"
    by (simp add: originalLayers_def split: prod.splits)
  ultimately show ?thesis
    using w smallLayers_held [of "\<lambda>_. True" smalls "fold otherLayer others ?w"] by (simp only: snd_conv Un_empty_right Un_empty_left) blast
qed

definition manifestsHeld :: "(string \<times> stored) list \<Rightarrow> string set" where
  "manifestsHeld ms = (\<lambda>ks. sd_digest (snd ks)) ` set ms"

lemma sealManifest_seals: "manifestsHeld ms \<subseteq> A \<Longrightarrow> seals A (sealManifest tab annot fmt ls ms) manifestsHeld"
  unfolding sealManifest_def
proof (rule seals_bind [OF storeJson_seals], rule seals_ret)
  fix s assume "manifestsHeld ms \<subseteq> A"
  moreover have "manifestsHeld (setProp ms fmt s) \<subseteq> manifestsHeld ((fmt, s) # ms)"
    unfolding manifestsHeld_def by (rule image_mono) (use set_setProp [of ms fmt s] in simp)
  moreover have "manifestsHeld ((fmt, s) # ms) = insert (sd_digest s) (manifestsHeld ms)" by (simp add: manifestsHeld_def)
  ultimately show "manifestsHeld (setProp ms fmt s) \<subseteq> A \<union> {sd_digest s}" by blast
qed

lemma noteRender_held: "heldBlobs (noteRender fmt o' out lay bs) \<subseteq> heldBlobs bs \<union> {lay}"
proof (cases "map_of bs (re_digest out)")
  case None
  then show ?thesis using heldBlobs_setProp [of bs "re_digest out" "browOf (ou_path o') (re_size out) (Some lay) False False"]
    by (simp add: noteRender_def browOf_def)
next
  case (Some b)
  then have "(re_digest out, b) \<in> set bs" by (rule map_of_SomeD)
  then have "(if bw_held b then {re_digest out} else {}) \<union> set_option (bw_layout b) \<subseteq> heldBlobs bs"
    by (auto simp: heldBlobs_def split: option.splits)
  then show ?thesis using Some heldBlobs_setProp [of bs "re_digest out" "b\<lparr>bw_sameAs := bw_sameAs b @ [fmt @ CHR '':'' # ou_path o']\<rparr>"]
    by (simp add: noteRender_def) blast
qed

lemma sealOutput_seals: "heldBlobs (snd acc) \<subseteq> A \<Longrightarrow> seals A (sealOutput kof srcs fmt acc oo) (\<lambda>a. heldBlobs (snd a))"
  unfolding sealOutput_def Let_def
proof (rule seals_bind [OF store_seals], rule seals_bind [where N = "\<lambda>_. {}"])
  fix h sgs assume a: "heldBlobs (snd acc) \<subseteq> A"
  show "seals (A \<union> {sd_digest h}) (lift (mapResult (renderSeg kof srcs) (ou_tensors (fst oo)))) (\<lambda>_. {})" by (rule seals_lift) simp
  show "seals (A \<union> {sd_digest h} \<union> {}) (bind (storeJson (renderLayout fmt (fst oo) (snd oo) (sd_digest h) (concat sgs)))
      (\<lambda>lay. ret (fst acc @ [layerOf (ou_path (fst oo)) (re_digest (snd oo)) (re_size (snd oo)) (Some (sd_digest lay))],
        noteRender fmt (fst oo) (snd oo) (sd_digest lay) (snd acc)))) (\<lambda>a. heldBlobs (snd a))"
  proof (rule seals_bind [OF storeJson_seals], rule seals_ret)
    show "heldBlobs (snd (fst acc @ [layerOf (ou_path (fst oo)) (re_digest (snd oo)) (re_size (snd oo)) (Some (sd_digest lay))],
        noteRender fmt (fst oo) (snd oo) (sd_digest lay) (snd acc))) \<subseteq> A \<union> {sd_digest h} \<union> {} \<union> {sd_digest lay}" for lay
      using a noteRender_held [of fmt "fst oo" "snd oo" "sd_digest lay" "snd acc"] by auto
  qed
qed

lemma sealExtra_seals: "heldBlobs (snd acc) \<subseteq> A \<Longrightarrow> seals A (sealExtra acc x) (\<lambda>a. heldBlobs (snd a))"
  unfolding sealExtra_def
proof (rule seals_bind [OF store_seals], rule seals_ret)
  fix s assume a: "heldBlobs (snd acc) \<subseteq> A"
  show "heldBlobs (snd (fst acc @ [layerOf (fst x) (sd_digest s) (sd_size s) None],
      case map_of (snd acc) (sd_digest s) of Some _ \<Rightarrow> snd acc | None \<Rightarrow> setProp (snd acc) (sd_digest s) (browOf (fst x) (sd_size s) None False True)))
    \<subseteq> A \<union> {sd_digest s}"
    using a heldBlobs_setProp [of "snd acc" "sd_digest s" "browOf (fst x) (sd_size s) None False True"] by (auto simp: browOf_def split: option.splits)
qed

lemma sealUnrendered_seals: "seals A (sealUnrendered kof srcs o') (\<lambda>_. {})"
  unfolding sealUnrendered_def
proof (rule seals_bind [OF store_seals], rule seals_bind [where N = "\<lambda>_. {}"])
  show "seals (A \<union> {sd_digest h}) (lift (mapResult (renderSeg kof srcs) (ou_tensors o'))) (\<lambda>_. {})" for h by (rule seals_lift) simp
qed (rule seals_throw)

lemma sealFormat_seals:
  assumes "snd ` set smalls \<subseteq> A" and "heldBlobs (fst acc) \<union> manifestsHeld (snd acc) \<subseteq> A"
  shows "seals A (sealFormat kof srcs tab annot smalls outs acc fp) (\<lambda>a. heldBlobs (fst a) \<union> manifestsHeld (snd a))"
proof -
  define rs where "rs = (case map_of outs (fst fp) of Some rs \<Rightarrow> rs | None \<Rightarrow> [])"
  have last: "seals B (let a3 = smallLayers (\<lambda>p. \<not> FOREIGN p) smalls a2 in
      bind (sealManifest tab annot (fst fp) (fst a3) (snd acc)) (\<lambda>ms. ret (snd a3, ms))) (\<lambda>a. heldBlobs (fst a) \<union> manifestsHeld (snd a))"
    if "A \<subseteq> B" "heldBlobs (snd a2) \<subseteq> B" for B a2
    unfolding Let_def
  proof (rule seals_bind [OF sealManifest_seals], goal_cases)
    case 1
    then show ?case using that assms(2) by auto
  next
    case (2 ms)
    then show ?case using that assms smallLayers_held [of "\<lambda>p. \<not> FOREIGN p" smalls a2] by (intro seals_ret) (simp only: fst_conv snd_conv, blast)
  qed
  have missing: "seals B (case drop (length rs) (fo_outputs (snd fp)) of [] \<Rightarrow> ret () | o' # _ \<Rightarrow> sealUnrendered kof srcs o') (\<lambda>_. {})" for B
    by (cases "drop (length rs) (fo_outputs (snd fp))") (simp_all add: sealUnrendered_seals seals_ret)
  show ?thesis
    unfolding sealFormat_def rs_def [symmetric] unfolding Let_def [of rs]
  proof (rule seals_bind [where N = "\<lambda>a. heldBlobs (snd a)"])
    show "seals A (foldIO (sealOutput kof srcs (fst fp)) ([], fst acc) (zip (fo_outputs (snd fp)) rs)) (\<lambda>a. heldBlobs (snd a))"
      by (rule foldIO_seals, rule sealOutput_seals) (use assms(2) in auto)
    show "seals (A \<union> heldBlobs (snd a1)) (bind (case drop (length rs) (fo_outputs (snd fp)) of [] \<Rightarrow> ret () | o' # _ \<Rightarrow> sealUnrendered kof srcs o')
       (\<lambda>_. bind (foldIO sealExtra a1 (fo_extras (snd fp))) (\<lambda>a2.
       let a3 = smallLayers (\<lambda>p. \<not> FOREIGN p) smalls a2 in
       bind (sealManifest tab annot (fst fp) (fst a3) (snd acc)) (\<lambda>ms. ret (snd a3, ms))))) (\<lambda>a. heldBlobs (fst a) \<union> manifestsHeld (snd a))" for a1 :: listing
    proof (rule seals_bind [OF missing], rule seals_bind [where N = "\<lambda>a. heldBlobs (snd a)"])
      show "seals (A \<union> heldBlobs (snd a1) \<union> {}) (foldIO sealExtra a1 (fo_extras (snd fp))) (\<lambda>a. heldBlobs (snd a))"
        by (rule foldIO_seals, rule sealExtra_seals) auto
    qed (rule last, auto)
  qed
qed

text \<open>What the table's part and the index's part leave held.\<close>

definition sealingHeld :: "sealing \<Rightarrow> string set" where
  "sealingHeld se = snd ` set (se_layouts se) \<union> set_option (se_prov se) \<union> set_option (se_canon se) \<union> set_option (se_pieces se) \<union> {sd_digest (se_table se)}"

lemma storeSome_seals: "seals A (storeSome v) set_option"
  unfolding storeSome_def
  by (cases v) (auto intro!: seals_ret seals_bind [OF storeJson_seals])

lemma sealCanon_seals: "seals A (sealCanon tks) set_option"
  unfolding sealCanon_def by (intro seals_if seals_ret seals_bind [OF store_seals]) simp_all

lemma sealLayouts_seals: "seals A (sealLayouts hs) (\<lambda>ys. snd ` set ys)"
proof -
  have "seals B (case fr of (f, r) \<Rightarrow> bind (storeJson (layoutJson f r)) (\<lambda>s. ret (f, sd_digest s))) (\<lambda>y. {snd y})" for B fr
    by (cases fr) (auto intro!: seals_bind [OF storeJson_seals] seals_ret)
  then have "seals A (sealLayouts hs) (\<lambda>ys. \<Union> ((\<lambda>y. {snd y}) ` set ys))"
    unfolding sealLayouts_def by (intro mapIO_seals) blast
  then show ?thesis by (rule seals_weaken) auto
qed

lemma sealProvenance_seals: "seals A (sealProvenance repo rv hs samples) set_option"
  unfolding sealProvenance_def by (rule seals_bind [where N = "\<lambda>_. {}"], rule seals_lift) (simp_all add: storeSome_seals)

lemma sealTable_seals: "seals A (sealTable repo rv ps hs samples) sealingHeld"
  unfolding sealTable_def
  by (rule seals_bind [OF sealLayouts_seals], rule seals_bind [OF sealProvenance_seals], rule seals_bind [OF sealCanon_seals],
      rule seals_bind [OF storeSome_seals], rule seals_bind [OF storeJson_seals], rule seals_ret) (auto simp: sealingHeld_def)

lemma sealIndex_seals:
  assumes "snd ` set smalls \<subseteq> A" and "sealingHeld se \<subseteq> A"
  shows "seals A (sealIndex repo rv ps hs others smalls fmts outs se) (\<lambda>(bs, ms, ix). heldBlobs bs \<union> manifestsHeld ms \<union> {sd_digest ix})"
proof -
  have orig: "heldBlobs (snd (originalLayers (se_layouts se) others smalls)) \<subseteq> A"
  proof -
    have "snd ` set (se_layouts se) \<subseteq> A" using assms(2) by (simp add: sealingHeld_def)
    then show ?thesis using originalLayers_held [of "se_layouts se" others smalls] assms(1) by blast
  qed
  have fold: "seals B (foldIO (sealFormat (kappasOf hs) srcs (se_table se) annot smalls outs) (snd (originalLayers (se_layouts se) others smalls), ms) fmts)
      (\<lambda>a. heldBlobs (fst a) \<union> manifestsHeld (snd a))" if "A \<union> manifestsHeld ms \<subseteq> B" for B srcs annot ms
  proof (rule foldIO_seals)
    show "seals Ba (sealFormat (kappasOf hs) srcs (se_table se) annot smalls outs acc fp) (\<lambda>a. heldBlobs (fst a) \<union> manifestsHeld (snd a))"
      if "B \<subseteq> Ba" "heldBlobs (fst acc) \<union> manifestsHeld (snd acc) \<subseteq> Ba" for Ba acc and fp :: "string \<times> rformat"
      by (rule sealFormat_seals [OF _ that(2)]) (use that(1) \<open>A \<union> manifestsHeld ms \<subseteq> B\<close> assms(1) in blast)
  qed (use that orig in \<open>simp, blast\<close>)
  show ?thesis unfolding sealIndex_def Let_def
  proof (rule seals_bind [OF sealManifest_seals], goal_cases)
    case 1
    then show ?case by (simp add: manifestsHeld_def)
  next
    case (2 ms)
    show ?case
    proof (rule seals_bind [where N = "\<lambda>_. {}"], goal_cases)
      case 1
      then show ?case by (rule seals_lift) simp
    next
      case (2 srcs)
      show ?case
        by (rule seals_bind [OF fold], simp, rule seals_bind [OF storeJson_seals], rule seals_ret) auto
    qed
  qed
qed

text \<open>Everything an index names as held.\<close>

definition namesHeld :: "indexed \<Rightarrow> string set" where
  "namesHeld ix = {ix_index ix, ix_table ix} \<union> set_option (ix_canonical ix) \<union> set_option (ix_provenance ix) \<union> set_option (ix_pieces ix)
     \<union> snd ` set (ix_manifests ix) \<union> snd ` set (ix_files ix) \<union> heldBlobs (ix_blobs ix)"

lemma indexFiles_seals: "seals A (indexFiles tls repo rv formats meta pn) namesHeld"
proof -
  let ?ps = "pn_planned pn"
  have smalls: "seals B (mapIO (keepSmall tls repo rv) (pn_small pn)) (\<lambda>ys. snd ` set ys)" for B
    by (rule seals_weaken [OF mapIO_seals [of "pn_small pn" B "keepSmall tls repo rv" "\<lambda>fd. {snd fd}"]]) (auto simp: keepSmall_seals)
  have fin: "seals B (bind (sealIndex repo rv ?ps hs (pn_other pn) smalls fmts outs se) (\<lambda>(bs, ms, ix).
     bind (lift (licenseOf meta)) (\<lambda>lic.
     ret \<lparr>ix_repo = repo, ix_rev = rv, ix_index = sd_digest ix, ix_table = sd_digest (se_table se), ix_canonical = se_canon se,
       ix_provenance = se_prov se, ix_pieces = se_pieces se, ix_manifests = map (\<lambda>(k, s). (k, sd_digest s)) ms, ix_blobs = bs,
       ix_sources = sourceRows repo rv hs, ix_tensors = sum_list (map (\<lambda>f. length (p_tensors (pf_plan f))) ?ps),
       ix_weightBytes = sum_list (map pf_size ?ps), ix_files = se_layouts se, ix_renders = outs, ix_license = lic\<rparr>))) namesHeld"
    if "snd ` set smalls \<subseteq> B" "sealingHeld se \<subseteq> B" for B hs smalls fmts outs se
  proof (rule seals_bind [OF sealIndex_seals [OF that]], goal_cases)
    case (1 x)
    obtain bs ms ix where x: "x = (bs, ms, ix)" by (cases x)
    have m: "snd ` set (map (\<lambda>(k, s). (k, sd_digest s)) ms) = manifestsHeld ms" by (force simp: manifestsHeld_def)
    show ?case unfolding x prod.case
      by (rule seals_bind [where N = "\<lambda>_. {}"], rule seals_lift, simp, rule seals_ret)
        (use that(2) m in \<open>simp add: namesHeld_def sealingHeld_def, blast\<close>)
  qed
  show ?thesis unfolding indexFiles_def Let_def
  proof (rule seals_bind [where N = "\<lambda>_. {}"], rule seals_lift, simp, rule seals_bind [where N = "\<lambda>_. {}"], rule seals_lift, simp,
      rule seals_bind [OF hashAll_seals], goal_cases)
    case (1 its fmts x)
    obtain got fd where x: "x = (got, fd)" by (cases x)
    show ?case unfolding x prod.case
    proof (rule seals_bind [where N = "\<lambda>_. {}"], rule seals_lift, simp, rule seals_bind [OF smalls], rule seals_bind [OF sealTable_seals], goal_cases)
      case (1 outs smalls se)
      show ?case by (rule fin) auto
    qed
  qed
qed

text \<open>
  C2. Every object that a returned index names as held by the hub (the index, the table, the manifests, every layout,
  the model's identity, provenance, pieces, and the blobs kept whole) is in the store afterwards under its own SHA-256,
  nothing that was there is lost, and the store stays sound, also when the run throws.
\<close>

theorem index_held:
  assumes "sound dk" and "indexModel tls repo pin formats (w, dk) = Some ((w', dk'), r)"
  shows "sound dk' \<and> (\<forall>d b. getObject dk d = Some b \<longrightarrow> getObject dk' d = Some b)
    \<and> (\<forall>ix. r = Inr ix \<longrightarrow> (\<forall>d \<in> namesHeld ix. \<exists>b. getObject dk' d = Some b \<and> named b = d))"
proof -
  have "seals {} (indexModel tls repo pin formats) namesHeld"
    unfolding indexModel_def
    by (rule seals_bind [OF seals_onNet], intro seals_if seals_throw, rule seals_bind [where N = "\<lambda>_. {}"], rule seals_lift, simp,
        rule seals_bind [OF seals_onNet], rule seals_bind [OF planAll_seals], rule indexFiles_seals)
  then have k: "keeps dk dk'" and h: "\<And>ix. r = Inr ix \<Longrightarrow> held' {} dk \<Longrightarrow> held' ({} \<union> namesHeld ix) dk'"
    using assms(2) unfolding seals_def by blast+
  have "held' {} dk" using assms(1) by (simp add: held'_def)
  then show ?thesis using k h get_named assms(1) by (fastforce simp: keeps_def held'_def)
qed

text \<open>A revision with one small file, from a host that answers every request.\<close>

definition smallAnswer :: "string \<Rightarrow> bytes" where
  "smallAnswer url = (if url = ''h/api/models/m'' then utf8 (stringify (JObj [(''sha'', JStr ''r'')]))
     else if url = ''h/api/models/m/tree/r?recursive=true&expand=false''
       then utf8 (stringify (JArr [JObj [(''type'', JStr ''file''), (''path'', JStr ''a''), (''size'', JNum 1)]]))
     else [7])"

definition smallTools :: "unit tools" where
  "smallTools = \<lparr>tl_net = \<lparr>wi_fetch = (\<lambda>url _ _ w. (Some \<lparr>ha_status = 200, ha_heads = [], ha_chunks = [smallAnswer url], ha_broken = False\<rparr>, w)),
       wi_now = (\<lambda>_. 0), wi_sleep = (\<lambda>_ w. w), wi_next = (\<lambda>_ _. 0), wi_setNext = (\<lambda>_ _ w. w), wi_cdn = (\<lambda>_ _. None), wi_setCdn = (\<lambda>_ _ w. w)\<rparr>,
     tl_env = \<lparr>fe_hf = ''h'', fe_auth = []\<rparr>, tl_pages = 1, tl_raw = (\<lambda>_. [])\<rparr>"

definition gives :: "('w, 'a) io \<Rightarrow> 'a \<Rightarrow> bool" where
  "gives m x \<longleftrightarrow> (\<forall>w. \<exists>w'. m w = Some (w', Inr x))"

definition returns :: "('w, 'a) io \<Rightarrow> bool" where
  "returns m \<longleftrightarrow> (\<forall>w. \<exists>w' x. m w = Some (w', Inr x))"

lemma gives_intro: "gives m x \<Longrightarrow> returns (f x) \<Longrightarrow> returns (bind m f)"
  unfolding returns_def
proof
  fix w assume "gives m x" and f: "\<forall>w. \<exists>w' y. f x w = Some (w', Inr y)"
  then obtain w1 where "m w = Some (w1, Inr x)" by (auto simp: gives_def)
  moreover obtain w' y where "f x w1 = Some (w', Inr y)" using f by blast
  ultimately show "\<exists>w' y. bind m f w = Some (w', Inr y)" by (simp add: bind_def)
qed

lemma returns_bind: "returns m \<Longrightarrow> (\<And>x. returns (f x)) \<Longrightarrow> returns (bind m f)"
  unfolding returns_def
proof
  fix w assume "\<forall>w. \<exists>w' x. m w = Some (w', Inr x)" and f: "\<And>x. \<forall>w. \<exists>w' y. f x w = Some (w', Inr y)"
  then obtain w1 x where "m w = Some (w1, Inr x)" by blast
  moreover obtain w' y where "f x w1 = Some (w', Inr y)" using f by blast
  ultimately show "\<exists>w' y. bind m f w = Some (w', Inr y)" by (simp add: bind_def)
qed

lemma gives_onNet: "gives m x \<Longrightarrow> gives (onNet m) x"
  unfolding gives_def
proof
  fix v :: "'a \<times> disk"
  assume "\<forall>w. \<exists>w'. m w = Some (w', Inr x)"
  moreover obtain w dk where "v = (w, dk)" by (cases v)
  ultimately show "\<exists>v'. onNet m v = Some (v', Inr x)" by (metis (mono_tags, lifting) case_prod_conv onNet_def option.simps(5))
qed

lemma returns_simps [simp]: "returns (ret x)" "gives (ret x) x" "gives (lift (Inr x)) x" "returns (lift (Inr x))" "returns (store b)" "returns (storeJson v)"
  by (auto simp: returns_def gives_def ret_def lift_def store_def storeJson_def split: prod.splits)

lemma returns_storeSome [simp]: "returns (storeSome v)" "returns (sealCanon tks)" "returns (sealManifest tab annot fmt ls ms)"
  by (auto simp: storeSome_def sealCanon_def sealManifest_def intro!: returns_bind split: option.splits)

definition smallFile :: hfFile where "smallFile = \<lparr>hf_path = ''a'', hf_size = 1, hf_oid = None\<rparr>"

definition sampleReply :: "string \<Rightarrow> hanswer" where
  "sampleReply url = \<lparr>ha_status = 200, ha_heads = [], ha_chunks = [smallAnswer url], ha_broken = False\<rparr>"

lemma small_hf: "hf (tl_net smallTools) (tl_env smallTools) url bucket redirect w = Some ((), Inr (sampleReply url))"
proof -
  have q: "quotaIn [] = None" by (simp add: quotaIn_def numberAt_def startsWith_def)
  have six: "(6 :: nat) = Suc 5" by simp
  show ?thesis unfolding hf_def six hfFrom.simps(2)
    by (simp add: bind_def paced_def fetchIO_def smallTools_def sampleReply_def headIn_def ret_def q)
qed

lemma small_json: "plain v \<Longrightarrow> smallAnswer url = utf8 (stringify v) \<Longrightarrow> jsonOf (sampleReply url) = Inr v"
  by (simp add: jsonOf_def bodyOf_def sampleReply_def parse_stringify)

lemma small_info: "gives (info (tl_net smallTools) (tl_env smallTools) ''m'') (JObj [(''sha'', JStr ''r'')])"
proof -
  have "jsonOf (sampleReply ''h/api/models/m'') = Inr (JObj [(''sha'', JStr ''r'')])"
    by (rule small_json) (simp_all add: smallAnswer_def plainKeys_def isIndex_def isDigit_def)
  then show ?thesis
    by (simp add: gives_def info_def bind_def small_hf okAnswer_def lift_def) (simp add: smallTools_def sampleReply_def)
qed

lemma small_tree: "gives (tree (tl_pages smallTools) (tl_net smallTools) (tl_env smallTools) ''m'' ''r'') [smallFile]"
proof -
  have "jsonOf (sampleReply ''h/api/models/m/tree/r?recursive=true&expand=false'') = Inr (JArr [JObj [(''type'', JStr ''file''), (''path'', JStr ''a''), (''size'', JNum 1)]])"
    by (rule small_json) (simp_all add: smallAnswer_def plainKeys_def isIndex_def isDigit_def)
  moreover have "search nextAt [] = None" by (simp add: nextAt_def startsWith_def)
  ultimately have "\<exists>w'. treePages 1 (tl_net smallTools) (tl_env smallTools) ''m'' ''r'' ''h/api/models/m/tree/r?recursive=true&expand=false'' w = Some (w', Inr [smallFile])" for w
    by (simp add: bind_def small_hf lift_def ret_def fileRow_def nextPage_def smallFile_def)
      (simp add: sampleReply_def okAnswer_def headIn_def nextAt_def startsWith_def)
  moreover have "tl_pages smallTools = 1" "fe_hf (tl_env smallTools) @ ''/api/models/'' @ ''m'' @ ''/tree/'' @ ''r'' @ ''?recursive=true&expand=false'' = ''h/api/models/m/tree/r?recursive=true&expand=false''"
    by (simp_all add: smallTools_def)
  ultimately show ?thesis unfolding gives_def tree_def by metis
qed

lemma small_whole: "gives (whole (tl_net smallTools) (tl_env smallTools) ''m'' ''r'' ''a'') [7]"
proof -
  have p: "resolvePath (tl_env smallTools) ''m'' ''r'' ''a'' = ''h/m/resolve/r/a''"
    by (simp add: resolvePath_def smallTools_def encodePath_def) code_simp
  have "smallAnswer ''h/m/resolve/r/a'' = [7]" by (simp add: smallAnswer_def)
  then show ?thesis by (simp add: gives_def whole_def p bind_def small_hf lift_def) (simp add: sampleReply_def okAnswer_def bodyOf_def)
qed

lemma small_run: "returns (indexModel smallTools ''m'' [] [])"
proof -
  let ?meta = "JObj [(''sha'', JStr ''r'')]" and ?pn = "\<lparr>pn_planned = [], pn_small = [smallFile], pn_other = []\<rparr>"
  have plan: "gives (planAll smallTools ''m'' ''r'' [smallFile]) ?pn"
    by (simp add: gives_def planAll_def planOne_def smallFile_def setAside_def bind_def ret_def)
  have pass: "gives (hashAll smallTools ''m'' ''r'' (renderable []) [] []) ([], \<lparr>fd_lanes = [], fd_samples = []\<rparr>)"
    by (simp add: gives_def hashAll_def passOrder_def newRender_def ret_def)
  have keep: "returns (keepSmall smallTools ''m'' ''r'' smallFile)"
    unfolding keepSmall_def smallFile_def hfFile.simps
    by (rule gives_intro [OF gives_onNet [OF small_whole]]) (simp add: returns_bind)
  have seal: "returns (sealTable ''m'' ''r'' [] [] [])"
    unfolding sealTable_def sealLayouts_def sealProvenance_def mapIO.simps provRows.simps by (intro returns_bind gives_intro [OF returns_simps(3)]) simp_all
  have index: "returns (sealIndex ''m'' ''r'' [] [] [] smalls [] [] se)" for smalls se
    unfolding sealIndex_def Let_def srcMap_def by (intro returns_bind gives_intro [OF returns_simps(3)]) (simp_all add: returns_bind gives_intro)
  have kept: "returns (mapIO (keepSmall smallTools ''m'' ''r'') [smallFile])"
    unfolding mapIO.simps by (intro returns_bind keep) simp_all
  have its: "itemList [] = Inr []" "formatsFor [] [] = Inr []" "renderable [] = False" by (simp_all add: itemList_def formatsFor_def renderable_def)
  have l: "lift (Inr x) = ret x" for x :: 'x by (simp add: lift_def ret_def fun_eq_iff)
  have lic: "licenseOf ?meta = Inr None" by (simp add: licenseOf_def)
  have "returns (indexFiles smallTools ''m'' ''r'' [] ?meta ?pn)"
    unfolding indexFiles_def Let_def planning.simps its l lic bind_ret
  proof (rule gives_intro [OF pass [unfolded its]], goal_cases)
    case 1
    show ?case unfolding prod.case if_False l bind_ret hashedIn_def list.map feeding.simps
      by (rule returns_bind [OF kept], rule returns_bind [OF seal], rule returns_bind [OF index], simp split: prod.split)
  qed
  then show ?thesis unfolding indexModel_def
    by (intro gives_intro [OF gives_onNet [OF small_info]])
      (simp add: revOf_def gives_intro [OF returns_simps(3)] gives_intro [OF gives_onNet [OF small_tree]] gives_intro [OF plan])
qed

theorem index_held_witness:
  "\<exists>ix dk b. indexModel smallTools ''m'' [] [] ((), \<lambda>_. None) = Some (((), dk), Inr ix) \<and> getObject dk (ix_index ix) = Some b \<and> named b = ix_index ix"
proof -
  obtain ix dk where run: "indexModel smallTools ''m'' [] [] ((), \<lambda>_. None) = Some (((), dk), Inr ix)"
  proof -
    obtain v ix where v: "indexModel smallTools ''m'' [] [] ((), \<lambda>_. None) = Some (v, Inr ix)" using small_run unfolding returns_def by blast
    moreover obtain dk where "v = ((), dk)" by (cases v) simp
    ultimately show ?thesis using that by simp
  qed
  have "sound (\<lambda>_. None)" by (simp add: sound_def)
  moreover have "ix_index ix \<in> namesHeld ix" by (simp add: namesHeld_def)
  ultimately show ?thesis using index_held [OF _ run] run by blast
qed

subsection \<open>A sealed layout is the file\<close>

definition shownSeg :: "bytes \<Rightarrow> seg \<Rightarrow> segment" where
  "shownSeg file s = \<lparr>sg_kind = kindText (s_kind s), sg_kappa = named (segBytes file s), sg_len = nat (s_len s), sg_where = Here (nat (s_off s))\<rparr>"

lemma readSegment_shown: "0 \<le> s_len s \<Longrightarrow> 0 \<le> s_off s \<Longrightarrow> readSegment (segJson (segOf file s)) = Some (shownSeg file s)"
  by (simp add: readSegment_def segJson_def segOf_def shownSeg_def natOf_def readSpot_def)

lemma allSome_map: "(\<And>x. x \<in> set xs \<Longrightarrow> f x = Some (g x)) \<Longrightarrow> allSome (map f xs) = Some (map g xs)"
  by (induction xs) simp_all

lemma shown_tiles:
  assumes "tiles (int a) segs (int n)"
  shows "a + sum_list (map (\<lambda>s. sg_len (shownSeg file s)) segs) = n"
    and "(sg, b) \<in> set (Assemble.placed a (map (shownSeg file) segs)) \<Longrightarrow> sg_kappa sg = named (Assemble.blockOf file sg b) \<and> sg_where sg = Here b"
    and "s \<in> set segs \<Longrightarrow> 0 \<le> s_len s \<and> 0 \<le> s_off s"
  using assms
proof (induction segs arbitrary: a)
  case (Cons s' segs)
  {
    case 1
    then have t: "s_off s' = int a" "0 < s_len s'" "tiles (int (a + nat (s_len s'))) segs (int n)" by simp_all
    from Cons.IH(1) [OF t(3)] show ?case by (simp add: shownSeg_def)
  next
    case 2
    then have t: "s_off s' = int a" "0 < s_len s'" "tiles (int (a + nat (s_len s'))) segs (int n)" by simp_all
    have "nat (s_off s' + s_len s') = a + nat (s_len s')" using t by simp
    then show ?case using 2(1) Cons.IH(2) [OF _ t(3)] t(1)
      by (auto simp: shownSeg_def Assemble.blockOf_def segBytes_def)
  next
    case 3
    then have t: "s_off s' = int a" "0 < s_len s'" "tiles (int (a + nat (s_len s'))) segs (int n)" by simp_all
    then show ?case using 3(1) Cons.IH(3) [OF _ t(3)] by auto
  }
qed simp_all

lemma layoutJson_plain: "plain (layoutJson f r)"
  by (auto simp: layoutJson_def segJson_def plainKeys_def isIndex_def isDigit_def)

lemma readJson_put:
  assumes "dk (sha256hex (utf8 (stringify v))) = None" and "plain v" and "putJson v dk = (s, dk')"
  shows "readJson dk' (sd_digest s) = Inr (Some v)"
proof -
  have "dk' = dk(sha256hex (utf8 (stringify v)) \<mapsto> utf8 (stringify v))" "sd_digest s = named (utf8 (stringify v))"
    using assms(1,3) by (auto simp: putJson_def putObject_def Let_def has_def)
  then show ?thesis using assms(2) by (simp add: readJson_def getObject_def parse_stringify)
qed

text \<open>
  C3. A layout reads back as the file it was made from: stored by the run and read by the mirror, it has the file's
  path and size, its segments follow one another over all of it, and each carries the SHA-256 of its own bytes and
  says where they are.
\<close>

theorem layout_sealed:
  assumes "planFile rng (length file) (pf_path f) w = Some (w', Inr (Some (pf_plan f)))" and "pf_size f = length file"
    and "putJson (layoutJson f (expected raw file (pf_plan f))) dk = (s, dk')"
    and "dk (sha256hex (utf8 (stringify (layoutJson f (expected raw file (pf_plan f)))))) = None"
  shows "\<exists>v lo. readJson dk' (sd_digest s) = Inr (Some v) \<and> readLayout v = Some lo \<and> lo_file lo = pf_path f \<and> lo_size lo = length file
    \<and> sum_list (map sg_len (lo_segments lo)) = length file
    \<and> list_all (\<lambda>(sg, a). sg_kappa sg = named (Assemble.blockOf file sg a) \<and> sg_where sg = Here a) (Assemble.placed 0 (lo_segments lo))"
proof -
  let ?segs = "p_segments (pf_plan f)" and ?L = "layoutJson f (expected raw file (pf_plan f))"
  have t: "tiles (int 0) ?segs (int (length file))" using planFile_wf [OF assms(1)] by (simp add: wfPlan_def)
  have "allSome (map readSegment (map segJson (hf_segments (expected raw file (pf_plan f))))) = Some (map (shownSeg file) ?segs)"
    unfolding expected_def hashedFile.simps map_map
    by (rule allSome_map) (use shown_tiles(3) [OF t] in \<open>simp add: readSegment_shown\<close>)
  then have "readLayout ?L = Some \<lparr>lo_file = pf_path f, lo_size = length file, lo_segments = map (shownSeg file) ?segs\<rparr>"
    using assms(2) by (simp add: readLayout_def layoutJson_def textProp_def natProp_def arrayProp_def natOf_def)
  moreover have "readJson dk' (sd_digest s) = Inr (Some ?L)" by (rule readJson_put [OF assms(4) layoutJson_plain assms(3)])
  ultimately show ?thesis using shown_tiles(1,2) [OF t] by (auto simp: list_all_iff comp_def)
qed

theorem layout_sealed_witness:
  "\<exists>v lo. readJson (snd (putJson (layoutJson \<lparr>pf_path = ''m.gguf'', pf_size = 65, pf_oid = ''x'', pf_plan = tinyPlan\<rparr> (expected (\<lambda>_. []) tinyGguf tinyPlan)) (\<lambda>_. None)))
      (sd_digest (fst (putJson (layoutJson \<lparr>pf_path = ''m.gguf'', pf_size = 65, pf_oid = ''x'', pf_plan = tinyPlan\<rparr> (expected (\<lambda>_. []) tinyGguf tinyPlan)) (\<lambda>_. None)))) = Inr (Some v)
    \<and> readLayout v = Some lo \<and> lo_size lo = 65 \<and> sum_list (map sg_len (lo_segments lo)) = 65"
proof -
  let ?f = "\<lparr>pf_path = ''m.gguf'', pf_size = 65, pf_oid = ''x'', pf_plan = tinyPlan\<rparr>"
  have len: "length tinyGguf = 65" by (simp add: tinyGguf_def)
  have p: "planFile (served tinyGguf) (length tinyGguf) (pf_path ?f) () = Some ((), Inr (Some (pf_plan ?f)))"
    using tiny_plan len by simp
  have z: "pf_size ?f = length tinyGguf" by (simp add: len)
  show ?thesis
    using layout_sealed [OF p z prod.collapse [symmetric], where raw = "\<lambda>_. []" and dk = "\<lambda>_. None"] by (simp add: len) blast
qed

subsection \<open>The model's own address\<close>

lemma join_inject:
  assumes "\<forall>l \<in> set ls \<union> set ms. c \<notin> set l \<and> l \<noteq> []" and "join [c] ls = join [c] ms"
  shows "ls = ms"
  using assms
proof (induction ls arbitrary: ms)
  case Nil
  show ?case
  proof (cases ms)
    case (Cons m ms')
    then show ?thesis using Nil by (cases ms') auto
  qed simp
next
  case (Cons l ls)
  have w: "takeWhile (\<lambda>x. x \<noteq> c) (join [c] (k # ks)) = k \<and> dropWhile (\<lambda>x. x \<noteq> c) (join [c] (k # ks)) = (if ks = [] then [] else c # join [c] ks)"
    if "c \<notin> set k" for k ks
    using that by (cases ks) (auto simp: takeWhile_tail dropWhile_append3 takeWhile_eq_all_conv)
  have "join [c] (l # ls) \<noteq> []" using Cons.prems(1) by (cases ls) auto
  then obtain m ms' where m: "ms = m # ms'" using Cons.prems(2) by (cases ms) auto
  have c: "c \<notin> set l" "c \<notin> set m" using Cons.prems(1) m by auto
  have "l = m" "(if ls = [] then [] else c # join [c] ls) = (if ms' = [] then [] else c # join [c] ms')"
    using w [OF c(1), of ls] w [OF c(2), of ms'] Cons.prems(2) m by metis+
  moreover have "join [c] ls = join [c] ms'" "ls = [] \<longleftrightarrow> ms' = []" using calculation(2) by (auto split: if_splits)
  ultimately show ?case using Cons.IH [of ms'] Cons.prems(1) m by auto
qed

text \<open>
  C10. The canonical bytes of a model are determined by the set of the lines of its tensors (type, shape and \<open>\<kappa>\<close>): the
  order, the names and the files of the tensors do not matter, and repetitions count once. Where no line holds a line
  break they also determine that set. (Nothing checks that: a type is any string of a safetensors header.)
\<close>

theorem canonical_set:
  "(canonicalLine ` set ts = canonicalLine ` set us \<longrightarrow> canonicalBytes ts = canonicalBytes us)
     \<and> ((\<forall>tk \<in> set ts \<union> set us. CHR 0x0A \<notin> set (canonicalLine tk)) \<longrightarrow> canonicalBytes ts = canonicalBytes us
         \<longrightarrow> canonicalLine ` set ts = canonicalLine ` set us)"
proof (intro conjI impI)
  let ?s = "\<lambda>xs. sort (remdups (map canonicalLine xs))"
  have n: "canonicalLine tk \<noteq> []" for tk by (simp add: canonicalLine_def)
  show "canonicalLine ` set ts = canonicalLine ` set us"
    if "\<forall>tk \<in> set ts \<union> set us. CHR 0x0A \<notin> set (canonicalLine tk)" "canonicalBytes ts = canonicalBytes us"
  proof -
    have "join [CHR 0x0A] (?s ts) = join [CHR 0x0A] (?s us)" using that(2) by (simp add: canonicalBytes_def)
    then have "?s ts = ?s us" by (intro join_inject [of _ _ "CHR 0x0A"]) (use that(1) n in auto)
    then have "set (?s ts) = set (?s us)" by simp
    then show ?thesis by simp
  qed
  show "canonicalBytes ts = canonicalBytes us" if "canonicalLine ` set ts = canonicalLine ` set us"
  proof -
    have "?s ts = ?s us"
      by (rule sorted_distinct_set_unique) (use that in simp_all)
    then show ?thesis by (simp add: canonicalBytes_def)
  qed
qed

definition scalarOf :: "string \<Rightarrow> tensor" where
  "scalarOf type = \<lparr>t_name = ''a'', t_dtype = Some (JStr type), t_shape = Some (JArr []), t_len = 4, t_seg = 0, t_sub = None\<rparr>"

theorem canonical_set_witness:
  "canonicalBytes [(scalarOf ''F32'', Some ''k''), ((scalarOf ''F32'')\<lparr>t_name := ''b'', t_seg := 1\<rparr>, Some ''k'')]
     = canonicalBytes [((scalarOf ''F32'')\<lparr>t_name := ''c''\<rparr>, Some ''k'')]"
  using canonical_set [of "[(scalarOf ''F32'', Some ''k''), ((scalarOf ''F32'')\<lparr>t_name := ''b'', t_seg := 1\<rparr>, Some ''k'')]" "[((scalarOf ''F32'')\<lparr>t_name := ''c''\<rparr>, Some ''k'')]"]
  by (simp add: scalarOf_def canonicalLine_def typeText_def shapeText_def kappaText_def)

text \<open>A type that spells the end of one line and the beginning of the next.\<close>

lemma crafted_type:
  "canonicalBytes [(scalarOf (''A|[]|k'' @ [CHR 0x0A] @ ''B''), Some ''l'')] = canonicalBytes [(scalarOf ''A'', Some ''k''), (scalarOf ''B'', Some ''l'')]"
proof -
  have "sort [''A|[]|k'', ''B|[]|l''] = [''A|[]|k'', ''B|[]|l'']" by code_simp
  then show ?thesis by (simp add: canonicalBytes_def scalarOf_def canonicalLine_def typeText_def shapeText_def kappaText_def)
qed

end
