(* ===== verification/Spec2Isabelle.thy ===== *)
theory Spec2Isabelle
  imports Mirrored KappaMirror Bucket Names ZipSw Edge Account Indexed
begin

text \<open>
  A verification development of the Hologram Model Hub, the JavaScript under \<open>src/apps/model-hub\<close>.

  \<^bold>\<open>The program.\<close> The hub names every file of a model by its SHA-256 and serves models through many
  dialects without trusting the hosts the bytes come from. Its parts, and the theories that model them:

  \<^item> \<open>Prelude\<close>, \<open>Json\<close>, \<open>Uri\<close>, \<open>Io\<close>: the language. Bytes, strings of code units below 256, JSON,
    percent-encoding, errors as sums (\<open>'a result\<close>), and actions on a world (\<open>('w, 'a) io\<close>) for code that
    awaits a network or a disk; \<open>Pattern\<close>: the regular expressions on file names.
  \<^item> \<open>Sha256\<close> (\<open>lib/sha256.mjs\<close>, proved equal to the standard's definition), \<open>Sha1\<close> (the language's own
    digest, for folder oids), \<open>WebCrypto\<close> (an interface of laws that the sealing library relies on).
  \<^item> \<open>Cid\<close>, \<open>DagPb\<close>, \<open>KappaGet\<close> (\<open>deploy/kappa-get.mjs\<close>): addresses, UnixFS nodes, and the verified byte
    ranges from several holders, with their ranking.
  \<^item> \<open>Crypt\<close>, \<open>Octree\<close>, \<open>Bucket\<close> (\<open>public/buckets/lib\<close>): sealed blocks and names, the tree of a bucket's
    entries, and whole objects written to and read from an OCI registry.
  \<^item> \<open>Containers\<close>, \<open>Pickle\<close>, \<open>Torch\<close>, \<open>Names\<close> (\<open>tensors/lib\<close>): how weight files are cut into tensors, the
    pickle interpreter that runs only what it allows, and the signed log of names.
  \<^item> \<open>Zip\<close>, \<open>ZipSw\<close> (\<open>src/zip.mjs\<close>, \<open>src/zip-sw.js\<close>): the streaming zip writer and the service worker
    that checks bytes as they pass and resumes broken downloads.
  \<^item> \<open>Verified\<close> (\<open>deploy/verified-bytes.mjs\<close>): the verifying edge's cache, hold-back and holders.
  \<^item> \<open>Doc\<close>, \<open>Index\<close>, \<open>Catalog\<close>, \<open>Resolve\<close>, \<open>Dialects\<close>, \<open>Oci\<close>, \<open>Mcp\<close>, \<open>Edge\<close> (\<open>deploy/hub-resolve.mjs\<close>): the
    edge. \<open>Index\<close> finds a document and keeps the caches, \<open>Catalog\<close> the list route, \<open>Resolve\<close> sources,
    probes, pins and listings, \<open>Dialects\<close> the Hugging Face, ModelScope and LFS answers, \<open>Oci\<close> the \<open>/v2\<close>
    dialects with their shelf of small blobs, \<open>Mcp\<close> the tools for agents, and \<open>Edge\<close> the handler that
    puts a request through them in the code's order.

  \<^bold>\<open>State.\<close> A component's state is a record passed explicitly (the shelf of \<open>Oci\<close>, the caches of \<open>Index\<close>,
    the zip writer, the parser's stack), an inductive relation where it lives over many requests
    (\<open>running\<close>, \<open>lived\<close>), or the world of an \<open>io\<close> action where the code awaits.

  \<^bold>\<open>What the lemmas show.\<close> Bytes that reach a reader are the bytes named, whatever holders, disks and
    upstream hosts do (\<open>KappaGet\<close>, \<open>Verified\<close>, \<open>ZipSw\<close>, \<open>Oci\<close>, \<open>Bucket\<close>); with an honest holder they
    do arrive; a pin is honoured or refused; a document's digests are those of the records; what is written
    reads back (buckets, trees, sealed blocks, nodes, manifests, CIDs, keys); optimised code agrees with its
    reference (SHA-256, CRC-32, CIDs, piece hashes); weight files are covered exactly and their parsers end;
    sizes announced are sizes written; caches and answers stay within their bounds.

  \<^bold>\<open>Interfaces.\<close> A locale states what one part relies on from another (the laws of WebCrypto, of a
    hold-back stream, of a registry) and is interpreted on the definitions that provide it.

  \<^bold>\<open>Fuel.\<close> Where the code recurses over data it fetched, a definition takes a depth; the properties
    give the depth that is enough (the height of a tree, the length of a text), or state that the result
    is reached.

  \<^bold>\<open>Not modelled.\<close> Rust crates, the desktop application, pages and styling, bundled third-party scripts
    (the spaces' assets, hash-wasm, ONNX runtimes), documentation and its generators, quality checks, and
    deployment scripts. Of modelled parts: log lines, timeouts as such (an answer that does not come is
    an error value), headers that only the transport sets, and text outside code units below 256.
\<close>

end
